(* ===== verification/Prelude.thy ===== *)
theory Prelude
  imports Main "HOL-Library.Word"
begin

text \<open>
  Shared ground of the development: the values the C++ code throws, results that are either such
  a value or a normal return, C++ strings as lists of bytes (a byte is a HOL \<open>char\<close>), the pieces
  of \<open>std::string\<close> and of the C library the sources use, and the conversions between C's integer
  types. Every other theory imports this one.

  Integers are unbounded where the code stays within its bounds, and are cut to their C width by
  \<open>to_int32\<close> or \<open>to_int64\<close> where a narrowing or an overflow can be seen.
\<close>

unbundle bit_operations_syntax

named_theorems bytes "facts on byte values and their bit operations"

section \<open>Exceptions and results\<close>

text \<open>\<open>enum CodeNumber\<close> of httpException.h.\<close>

datatype code_number =
    ContinueCode
  | BadRequestCode
  | NotFoundCode
  | MethodNotAllowedCode
  | RequestTimeoutCode
  | RequestEntityTooLargeCode
  | InternalServerErrorCode
  | NotImplementedCode

fun code_value :: "code_number \<Rightarrow> int" where
  "code_value ContinueCode = 100"
| "code_value BadRequestCode = 400"
| "code_value NotFoundCode = 404"
| "code_value MethodNotAllowedCode = 405"
| "code_value RequestTimeoutCode = 408"
| "code_value RequestEntityTooLargeCode = 413"
| "code_value InternalServerErrorCode = 500"
| "code_value NotImplementedCode = 501"

text \<open>
  What the sources throw: \<open>HttpException(code, message, log)\<close>, its subclass
  \<open>TaskCleaningException\<close>, a \<open>std::string\<close> or a C string, an exception of the standard
  library, a bare \<open>CodeNumber\<close> (Socket::send), and, not thrown by the language at all, an access
  whose behaviour C++ leaves undefined.
\<close>

datatype exn =
    HttpExn code_number string string
  | TaskCleaning
  | StringExn string
  | StdExn string
  | CodeExn code_number
  | UndefinedBehaviour string

type_synonym 'a result = "exn + 'a"

fun exn_code :: "exn \<Rightarrow> code_number" where
  "exn_code (HttpExn c m l) = c"
| "exn_code _ = InternalServerErrorCode"

fun exn_message :: "exn \<Rightarrow> string" where
  "exn_message (HttpExn c m l) = m"
| "exn_message TaskCleaning = ''Task is being cleaned''"
| "exn_message (StringExn s) = s"
| "exn_message _ = ''Unknown error''"

definition exn_log :: "exn \<Rightarrow> string" where
  "exn_log e = (case e of
      HttpExn c m l \<Rightarrow> m @ (if l \<noteq> [] then '' ('' @ l @ '')'' else [])
    | _ \<Rightarrow> exn_message e)"

text \<open>Sequencing: the first exception ends the computation.\<close>

definition bind_result :: "'a result \<Rightarrow> ('a \<Rightarrow> 'b result) \<Rightarrow> 'b result" where
  "bind_result r f = (case r of Inl e \<Rightarrow> Inl e | Inr x \<Rightarrow> f x)"

lemma bind_result_simps [simp]:
  "bind_result (Inl e) f = Inl e"
  "bind_result (Inr x) f = f x"
  by (simp_all add: bind_result_def)

lemma bind_result_Inr_iff:
  "bind_result r f = Inr y \<longleftrightarrow> (\<exists>x. r = Inr x \<and> f x = Inr y)"
  by (cases r) simp_all

lemma bind_result_cong [fundef_cong]:
  "r = r' \<Longrightarrow> (\<And>x. r' = Inr x \<Longrightarrow> f x = f' x) \<Longrightarrow> bind_result r f = bind_result r' f'"
  by (cases r') auto

section \<open>Bytes and C++ strings\<close>

abbreviation byte_val :: "char \<Rightarrow> nat" where
  "byte_val c \<equiv> of_char c"

lemma byte_val_lt [bytes, simp]: "byte_val c < 256"
  by (metis mod_less_divisor of_char_mod_256 zero_less_numeral)

lemma byte_val_char_of [bytes]: "n < 256 \<Longrightarrow> byte_val (char_of n) = n"
  by simp

text \<open>A fact on bytes is a fact on 256 numbers.\<close>

lemma all_bytes: "(\<forall>c. P c) \<longleftrightarrow> (\<forall>n \<in> {0..<256::nat}. P (char_of n))"
proof
  assume r: "\<forall>n \<in> {0..<256::nat}. P (char_of n)"
  show "\<forall>c. P c"
  proof
    fix c :: char
    have "P (char_of (byte_val c))" using r by (intro bspec [OF r]) simp
    then show "P c" by simp
  qed
qed simp

text \<open>Masks and shifts of natural numbers as division and remainder.\<close>

lemma and_mod_nat: "(n::nat) AND (2 ^ k - 1) = n mod 2 ^ k"
proof -
  have "n AND mask k = take_bit k n" by (simp add: take_bit_eq_mask)
  then show ?thesis by (simp add: mask_eq_exp_minus_1 take_bit_eq_mod)
qed

lemma and_masks [bytes]:
  "(n::nat) AND 1 = n mod 2" "(n::nat) AND 3 = n mod 4" "(n::nat) AND 7 = n mod 8"
  "(n::nat) AND 15 = n mod 16" "(n::nat) AND 31 = n mod 32" "(n::nat) AND 63 = n mod 64"
  "(n::nat) AND 127 = n mod 128" "(n::nat) AND 255 = n mod 256"
  using and_mod_nat [of n 1] and_mod_nat [of n 2] and_mod_nat [of n 3] and_mod_nat [of n 4]
    and_mod_nat [of n 5] and_mod_nat [of n 6] and_mod_nat [of n 7] and_mod_nat [of n 8]
  by simp_all

lemma or_add_nat: "(b::nat) < 2 ^ k \<Longrightarrow> a mod 2 ^ k = 0 \<Longrightarrow> a OR b = a + b"
proof -
  assume b: "b < 2 ^ k" and a: "a mod 2 ^ k = 0"
  have "take_bit k a = 0" using a by (simp add: take_bit_eq_mod)
  moreover have "take_bit k b = b" using b by (simp add: take_bit_nat_eq_self)
  ultimately have "a AND b = 0"
    by (metis (no_types, opaque_lifting) and.commute and.left_commute and_zero_eq take_bit_eq_mask)
  then show "a OR b = a + b" by (simp add: disjunctive_add_eq_or)
qed

definition nul :: char where "nul = CHR 0x00"
definition tab :: char where "tab = CHR 0x09"
definition lf :: char where "lf = CHR 0x0A"
definition cr :: char where "cr = CHR 0x0D"
definition blank :: char where "blank = CHR '' ''"
definition dquote :: char where "dquote = CHR 0x22"
definition squote :: char where "squote = CHR 0x27"
definition backslash :: char where "backslash = CHR 0x5C"

lemmas char_names = nul_def tab_def lf_def cr_def blank_def dquote_def squote_def backslash_def

definition crlf :: string where "crlf = [cr, lf]"

definition is_digit :: "char \<Rightarrow> bool" where
  "is_digit c \<longleftrightarrow> 48 \<le> byte_val c \<and> byte_val c \<le> 57"

definition is_c_space :: "char \<Rightarrow> bool" where
  "is_c_space c \<longleftrightarrow> c \<in> {blank, tab, lf, CHR 0x0B, CHR 0x0C, cr}"

text \<open>\<open>toupper\<close> in the C locale: only the letters a to z change.\<close>

definition to_upper :: "char \<Rightarrow> char" where
  "to_upper c = (if 97 \<le> byte_val c \<and> byte_val c \<le> 122 then char_of (byte_val c - 32) else c)"

text \<open>\<open>s.c_str()\<close> read by a C function ends at the first zero byte.\<close>

definition c_str :: "string \<Rightarrow> string" where
  "c_str s = takeWhile (\<lambda>c. c \<noteq> nul) s"

text \<open>\<open>s.substr(pos, n)\<close> for \<open>pos\<close> within the string.\<close>

definition substr :: "string \<Rightarrow> nat \<Rightarrow> nat \<Rightarrow> string" where
  "substr s pos n = take n (drop pos s)"

text \<open>\<open>s.find(c, pos)\<close>; \<open>npos\<close> is \<open>None\<close>.\<close>

fun index_from :: "(char \<Rightarrow> bool) \<Rightarrow> string \<Rightarrow> nat \<Rightarrow> nat option" where
  "index_from p [] k = None"
| "index_from p (c # cs) k = (if p c then Some k else index_from p cs (Suc k))"

definition find_char :: "char \<Rightarrow> string \<Rightarrow> nat \<Rightarrow> nat option" where
  "find_char c s pos = index_from (\<lambda>d. d = c) (drop pos s) pos"

fun is_prefix :: "string \<Rightarrow> string \<Rightarrow> bool" where
  "is_prefix [] s = True"
| "is_prefix (c # cs) [] = False"
| "is_prefix (c # cs) (d # ds) = (c = d \<and> is_prefix cs ds)"

fun find_str_from :: "string \<Rightarrow> string \<Rightarrow> nat \<Rightarrow> nat option" where
  "find_str_from t [] k = (if t = [] then Some k else None)"
| "find_str_from t (c # cs) k =
     (if is_prefix t (c # cs) then Some k else find_str_from t cs (Suc k))"

definition find_str :: "string \<Rightarrow> string \<Rightarrow> nat \<Rightarrow> nat option" where
  "find_str t s pos = (if pos \<le> length s then find_str_from t (drop pos s) pos else None)"

definition contains_str :: "string \<Rightarrow> string \<Rightarrow> bool" where
  "contains_str s t \<longleftrightarrow> find_str t s 0 \<noteq> None"

lemma is_prefix_append: "is_prefix t s \<longleftrightarrow> (\<exists>u. s = t @ u)"
  by (induction t s rule: is_prefix.induct) auto

lemma is_prefix_take: "is_prefix t s \<longleftrightarrow> take (length t) s = t"
  by (induction t s rule: is_prefix.induct) auto

lemma is_prefix_refl [simp]: "is_prefix t (t @ u)"
  by (simp add: is_prefix_append)

lemma index_from_Some:
  "index_from p s k = Some j \<longleftrightarrow>
     k \<le> j \<and> j - k < length s \<and> p (s ! (j - k)) \<and> (\<forall>i < j - k. \<not> p (s ! i))"
proof (induction s arbitrary: k)
  case Nil
  then show ?case by simp
next
  case (Cons c cs)
  show ?case
  proof (cases "p c")
    case True
    then show ?thesis
      by (cases "j = k") (auto intro!: exI [of _ 0])
  next
    case False
    then have "index_from p (c # cs) k = Some j \<longleftrightarrow>
        Suc k \<le> j \<and> j - Suc k < length cs \<and> p (cs ! (j - Suc k)) \<and> (\<forall>i < j - Suc k. \<not> p (cs ! i))"
      using Cons.IH by simp
    also have "\<dots> \<longleftrightarrow> k \<le> j \<and> j - k < length (c # cs) \<and> p ((c # cs) ! (j - k)) \<and>
        (\<forall>i < j - k. \<not> p ((c # cs) ! i))"
    proof (cases "Suc k \<le> j")
      case True
      then obtain d where d: "j = Suc k + d" using le_Suc_ex by blast
      then have jk: "j - k = Suc d" "j - Suc k = d" by simp_all
      show ?thesis using False d unfolding jk by (auto simp: nth_Cons split: nat.splits)
    next
      case False
      with \<open>\<not> p c\<close> show ?thesis by (cases "j = k") auto
    qed
    finally show ?thesis .
  qed
qed

lemma index_from_None: "index_from p s k = None \<longleftrightarrow> (\<forall>c \<in> set s. \<not> p c)"
  by (induction s arbitrary: k) auto

lemma index_from_takeWhile:
  "index_from p s k = (if \<exists>c \<in> set s. p c then Some (k + length (takeWhile (\<lambda>c. \<not> p c) s)) else None)"
  by (induction s arbitrary: k) auto

lemma find_char_split:
  assumes "find_char c s pos = Some j"
  shows "pos \<le> j" and "j < length s" and "s ! j = c" and "c \<notin> set (substr s pos (j - pos))"
proof -
  have *: "pos \<le> j" "j - pos < length (drop pos s)" "drop pos s ! (j - pos) = c"
    "\<forall>i < j - pos. drop pos s ! i \<noteq> c"
    using assms unfolding find_char_def index_from_Some by blast+
  then show "pos \<le> j" "j < length s" "s ! j = c" by (auto simp: less_diff_conv)
  show "c \<notin> set (substr s pos (j - pos))"
    using *(4) by (auto simp: substr_def in_set_conv_nth)
qed

lemma find_char_less: "find_char c s pos = Some j \<Longrightarrow> length s - Suc j < length s - pos"
  using find_char_split [of c s pos j] by linarith

section \<open>Numbers: widths, printing and parsing\<close>

definition int_max :: int where "int_max = 2147483647"
definition llong_max :: int where "llong_max = 9223372036854775807"
definition llong_min :: int where "llong_min = - 9223372036854775808"

text \<open>The conversions \<open>(int) v\<close> and \<open>(long long) v\<close>.\<close>

definition to_int32 :: "int \<Rightarrow> int" where
  "to_int32 v = signed_take_bit 31 v"

definition to_int64 :: "int \<Rightarrow> int" where
  "to_int64 v = signed_take_bit 63 v"

lemma to_int32_id: "- 2147483648 \<le> v \<Longrightarrow> v \<le> int_max \<Longrightarrow> to_int32 v = v"
  by (simp add: to_int32_def int_max_def signed_take_bit_int_eq_self)

lemma to_int32_bounds: "- 2147483648 \<le> to_int32 v" "to_int32 v \<le> int_max"
  using signed_take_bit_int_greater_eq_minus_exp [of 31 v] signed_take_bit_int_less_exp [of 31 v]
  by (simp_all add: to_int32_def int_max_def)

text \<open>Decimal digits, most significant first, and \<open>sprintf("%lld")\<close>.\<close>

fun nat_digits :: "nat \<Rightarrow> string" where
  "nat_digits n = (if n < 10 then [char_of (48 + n)] else nat_digits (n div 10) @ [char_of (48 + n mod 10)])"

declare nat_digits.simps [simp del]

definition itos :: "int \<Rightarrow> string" where
  "itos v = (if v < 0 then CHR ''-'' # nat_digits (nat (- v)) else nat_digits (nat v))"

definition digits_value :: "string \<Rightarrow> nat" where
  "digits_value ds = foldl (\<lambda>a c. 10 * a + (byte_val c - 48)) 0 ds"

text \<open>
  \<open>strtoll\<close> in base 10, as the C library documents it: white space, a sign, digits up to the first
  other byte, the value clamped to the range of \<open>long long\<close>. \<open>atoll\<close> and \<open>atol\<close> are
  the same function on this platform, and \<open>atoi\<close> is its value converted to \<open>int\<close>.
\<close>

definition clamp64 :: "int \<Rightarrow> int" where
  "clamp64 v = max llong_min (min llong_max v)"

definition strtoll :: "string \<Rightarrow> int" where
  "strtoll s0 = (let s = dropWhile is_c_space (c_str s0);
      neg = (s \<noteq> [] \<and> hd s = CHR ''-'');
      t = (if s \<noteq> [] \<and> (hd s = CHR ''-'' \<or> hd s = CHR ''+'') then tl s else s);
      v = int (digits_value (takeWhile is_digit t))
    in clamp64 (if neg then - v else v))"

definition c_atoi :: "string \<Rightarrow> int" where
  "c_atoi s = to_int32 (strtoll s)"

lemma digits_value_snoc: "digits_value (ds @ [c]) = 10 * digits_value ds + (byte_val c - 48)"
  by (simp add: digits_value_def)

lemma nat_digits_all_digits: "\<forall>c \<in> set (nat_digits n). is_digit c"
proof (induction n rule: nat_digits.induct)
  case (1 n)
  show ?case
  proof (cases "n < 10")
    case True
    then show ?thesis by (simp add: nat_digits.simps [of n] is_digit_def)
  next
    case False
    have "is_digit (char_of (48 + n mod 10))"
    proof -
      have "n mod 10 < 10" by simp
      then have "(48 + n mod 10) mod 256 = 48 + n mod 10" by simp
      with \<open>n mod 10 < 10\<close> show ?thesis by (simp add: is_digit_def)
    qed
    with 1 False show ?thesis by (simp add: nat_digits.simps [of n])
  qed
qed

lemma length_nat_digits: "n < 10 ^ Suc k \<Longrightarrow> length (nat_digits n) \<le> Suc k"
proof (induction k arbitrary: n)
  case 0
  then show ?case by (simp add: nat_digits.simps [of n])
next
  case (Suc k)
  have "n div 10 < 10 ^ Suc k" using Suc.prems by (simp add: less_mult_imp_div_less)
  from Suc.IH [OF this] show ?case by (simp add: nat_digits.simps [of n])
qed

lemma nat_digits_nonempty [simp]: "nat_digits n \<noteq> []"
  by (simp add: nat_digits.simps [of n])

lemma digits_value_nat_digits [simp]: "digits_value (nat_digits n) = n"
proof (induction n rule: nat_digits.induct)
  case (1 n)
  have m: "n mod 10 < 10" by simp
  then have b: "byte_val (char_of (48 + n mod 10)) - 48 = n mod 10" by simp
  show ?case
  proof (cases "n < 10")
    case True
    then show ?thesis by (simp add: nat_digits.simps [of n] digits_value_def)
  next
    case False
    with 1 b show ?thesis
      by (simp add: nat_digits.simps [of n] digits_value_snoc del: of_char_of)
  qed
qed

lemma digit_not_special:
  assumes "is_digit c"
  shows "c \<noteq> nul" "\<not> is_c_space c" "c \<noteq> CHR ''-''" "c \<noteq> CHR ''+''"
  using assms by (auto simp: is_digit_def is_c_space_def char_names)

lemma c_str_id: "nul \<notin> set s \<Longrightarrow> c_str s = s"
  by (metis (mono_tags, lifting) c_str_def takeWhile_eq_all_conv)

lemma nul_notin_nat_digits [simp]: "nul \<notin> set (nat_digits n)"
  using nat_digits_all_digits [of n] digit_not_special(1) by blast

lemma takeWhile_digits_nat_digits [simp]: "takeWhile is_digit (nat_digits n) = nat_digits n"
  using nat_digits_all_digits by (simp add: takeWhile_eq_all_conv)

lemma strtoll_nat_digits: "strtoll (nat_digits n) = clamp64 (int n)"
proof -
  let ?d = "nat_digits n"
  have dg: "\<forall>c \<in> set ?d. is_digit c" by (rule nat_digits_all_digits)
  have c: "c_str ?d = ?d"
    by (intro c_str_id) simp
  obtain h t where ht: "?d = h # t" by (meson nat_digits_nonempty list.exhaust)
  then have h: "is_digit h" using dg by simp
  have "dropWhile is_c_space ?d = ?d" using digit_not_special(2) [OF h] by (simp add: ht)
  moreover have "takeWhile is_digit ?d = ?d" using dg by simp
  ultimately show ?thesis
    using digit_not_special(3,4) [OF h] c
    by (simp add: strtoll_def Let_def ht) (metis ht digits_value_nat_digits)
qed

lemma strtoll_itos: "llong_min \<le> v \<Longrightarrow> v \<le> llong_max \<Longrightarrow> strtoll (itos v) = v"
proof (cases "v < 0")
  case False
  assume "llong_min \<le> v" "v \<le> llong_max"
  with False show ?thesis by (simp add: itos_def strtoll_nat_digits clamp64_def)
next
  case True
  assume b: "llong_min \<le> v" "v \<le> llong_max"
  let ?d = "nat_digits (nat (- v))"
  have c: "c_str (CHR ''-'' # ?d) = CHR ''-'' # ?d"
    by (intro c_str_id) (simp, simp add: nul_def)
  have sp: "\<not> is_c_space (CHR ''-'')" by (simp add: is_c_space_def char_names)
  have "strtoll (CHR ''-'' # ?d) = clamp64 (- int (digits_value ?d))"
    unfolding strtoll_def c using sp by (simp add: Let_def)
  also have "- int (digits_value ?d) = v" using True by simp
  also have "clamp64 v = v" using b by (simp add: clamp64_def)
  finally show ?thesis using True by (simp add: itos_def)
qed

lemma c_atoi_itos: "- 2147483648 \<le> v \<Longrightarrow> v \<le> int_max \<Longrightarrow> c_atoi (itos v) = v"
  by (simp add: c_atoi_def strtoll_itos llong_min_def llong_max_def int_max_def to_int32_id)

section \<open>Size limits of jail_limits.h\<close>

definition jail_filename_size_limit :: nat where "jail_filename_size_limit = 128"
definition jail_path_size_limit :: nat where "jail_path_size_limit = 256"
definition jail_min_prisoner_uid :: int where "jail_min_prisoner_uid = 1000"
definition jail_max_prisoner_uid :: int where "jail_max_prisoner_uid = 64 * 1024 - 5900"
definition jail_headers_size_limit :: int where "jail_headers_size_limit = 8 * 1024"
definition jail_socket_timeout :: int where "jail_socket_timeout = 6"
definition jail_monitorstart_timeout :: int where "jail_monitorstart_timeout = 10"
definition jail_socket_requesttimeout :: int where "jail_socket_requesttimeout = 20"
definition jail_harvest_timeout :: int where "jail_harvest_timeout = 30"
definition jail_output_buffer_size :: nat where "jail_output_buffer_size = 10 * 1024 * 1024"
definition jail_net_buffer_size :: nat where "jail_net_buffer_size = 256 * 1024"
definition jail_websocket_frame_size_limit :: nat where
  "jail_websocket_frame_size_limit = 20 * 1024 * 1024"
definition jail_vpl_extra_time :: int where "jail_vpl_extra_time = 2"

section \<open>Generic list facts\<close>

lemma takeWhile_append_stop:
  "(\<forall>x \<in> set xs. P x) \<Longrightarrow> \<not> P y \<Longrightarrow> takeWhile P (xs @ y # ys) = xs"
  by (induction xs) auto

lemma dropWhile_append_stop:
  "(\<forall>x \<in> set xs. P x) \<Longrightarrow> \<not> P y \<Longrightarrow> dropWhile P (xs @ y # ys) = y # ys"
  by (induction xs) auto

end
