(* ===== verification/Base64.thy ===== *)
theory Base64
  imports Prelude
begin

text \<open>
  The class \<open>Base64\<close> of util.h: a table-driven codec. \<open>decode\<close> ORs each 6-bit group into a
  zero-filled buffer whose size \<open>decodeSize\<close> computes from the number of alphabet and padding
  characters; a negative size is the \<open>std::length_error\<close> of the string constructor. The round trip
  and the exact condition under which decoding throws are proved.
\<close>

definition charSet :: string where
  "charSet = ''ABCDEFGHIJKLMNOPQRSTUVWXYZabcdefghijklmnopqrstuvwxyz0123456789+/''"

text \<open>\<open>init\<close>: 256 entries of -1, then entry \<open>charSet[i]\<close> holds \<open>i << 2\<close>.\<close>

definition c642int :: "int list" where
  "c642int = foldl (\<lambda>t i. t[byte_val (charSet ! i) := int (push_bit 2 i)])
     (replicate 256 (- 1)) [0..<length charSet]"

definition decodeChar :: "char \<Rightarrow> int" where
  "decodeChar c = c642int ! byte_val c"

definition is64 :: "char \<Rightarrow> bool" where
  "is64 c \<longleftrightarrow> c642int ! byte_val c \<ge> 0"

fun count64 :: "string \<Rightarrow> nat \<Rightarrow> nat \<Rightarrow> nat \<times> nat" where
  "count64 [] s eque = (s, eque)"
| "count64 (c # cs) s eque =
     (if is64 c then count64 cs (Suc s) eque
      else if c = CHR ''='' then count64 cs s (Suc eque)
      else count64 cs s eque)"

definition decodeSize :: "string \<Rightarrow> int" where
  "decodeSize data = (let (s, eque) = count64 data 0 0 in int ((s + eque) div 4 * 3) - int eque)"

definition or_byte :: "char \<Rightarrow> nat \<Rightarrow> char" where
  "or_byte c n = char_of (byte_val c OR (n mod 256))"

definition setData :: "string \<Rightarrow> nat \<Rightarrow> char \<Rightarrow> string" where
  "setData data pos c = (let ibyte = pos div 8; ides = pos mod 8; dc = nat (decodeChar c);
      sz = length data in
    if ibyte \<ge> sz then data
    else let data1 = data[ibyte := or_byte (data ! ibyte) (drop_bit ides dc)] in
      if ides > 2 \<and> ibyte + 1 < sz
      then data1[ibyte + 1 := or_byte (data1 ! (ibyte + 1)) (push_bit (8 - ides) dc)]
      else data1)"

fun decode_loop :: "string \<Rightarrow> nat \<Rightarrow> string \<Rightarrow> string" where
  "decode_loop [] pos res = res"
| "decode_loop (c # cs) pos res =
     (if is64 c then decode_loop cs (pos + 6) (setData res pos c) else decode_loop cs pos res)"

definition length_error :: exn where "length_error = StdExn ''basic_string::_M_create''"

definition base64_decode :: "string \<Rightarrow> string result" where
  "base64_decode data = (let size = decodeSize data in
     if size = 0 then Inr []
     else if size < 0 then Inl length_error
     else Inr (decode_loop data 0 (replicate (nat size) nul)))"

text \<open>One round of \<open>encode\<close>'s loop, on three input bytes (0 past the end), and the loop.\<close>

definition encode_quad :: "nat \<Rightarrow> nat \<Rightarrow> nat \<Rightarrow> string" where
  "encode_quad in1 in2 in3 =
     [charSet ! (drop_bit 2 in1 AND 63),
      charSet ! (push_bit 4 (in1 AND 3) + drop_bit 4 in2),
      charSet ! (push_bit 2 (in2 AND 15) + drop_bit 6 in3),
      charSet ! (in3 AND 63)]"

fun encode_loop :: "string \<Rightarrow> string" where
  "encode_loop [] = []"
| "encode_loop [a] = encode_quad (byte_val a) 0 0"
| "encode_loop [a, b] = encode_quad (byte_val a) (byte_val b) 0"
| "encode_loop (a # b # c # rest) =
     encode_quad (byte_val a) (byte_val b) (byte_val c) @ encode_loop rest"

definition base64_encode :: "string \<Rightarrow> string" where
  "base64_encode data = (let ret = encode_loop data; out_size = length ret in
     if length data mod 3 = 2 then ret[out_size - 1 := CHR ''='']
     else if length data mod 3 = 1 then ret[out_size - 2 := CHR ''='', out_size - 1 := CHR ''='']
     else ret)"

section \<open>The alphabet\<close>

lemma charSet_length [simp]: "length charSet = 64"
  by (simp add: charSet_def)

lemma charSet_distinct: "distinct charSet"
  unfolding charSet_def by code_simp

lemma table_updates:
  assumes "inj_on f (set is)" and "\<forall>i \<in> set is. f i < length t"
  shows "length (foldl (\<lambda>t i. t[f i := v i]) t is) = length t"
    and "i \<in> set is \<Longrightarrow> foldl (\<lambda>t i. t[f i := v i]) t is ! f i = v i"
    and "n \<notin> f ` set is \<Longrightarrow> foldl (\<lambda>t i. t[f i := v i]) t is ! n = t ! n"
  using assms
proof (induction "is" arbitrary: i rule: rev_induct)
  case (snoc k ks)
  {
    case 1
    with snoc show ?case by simp
  next
    case 2
    then have "f i \<noteq> f k" if "i \<noteq> k" using that by (auto simp: inj_on_def)
    with 2 snoc show ?case by (cases "i = k") auto
  next
    case 3
    with snoc show ?case by auto
  }
qed simp_all

lemma charSet_inj: "inj_on (\<lambda>i. byte_val (charSet ! i)) (set [0..<length charSet])"
proof (rule inj_onI)
  fix i j
  assume ij: "i \<in> set [0..<length charSet]" "j \<in> set [0..<length charSet]"
    and "byte_val (charSet ! i) = byte_val (charSet ! j)"
  then have "charSet ! i = charSet ! j" by simp
  with ij show "i = j" using charSet_distinct by (simp add: nth_eq_iff_index_eq)
qed

lemma decodeChar_charSet:
  assumes "k < 64"
  shows "decodeChar (charSet ! k) = int (4 * k)"
  using table_updates(2) [OF charSet_inj, of "replicate 256 (- 1)" k "\<lambda>i. int (push_bit 2 i)"] assms
  by (simp add: decodeChar_def c642int_def push_bit_eq_mult)

lemma is64_charSet: "k < 64 \<Longrightarrow> is64 (charSet ! k)"
  using decodeChar_charSet [of k] by (simp add: is64_def decodeChar_def)

lemma is64_iff: "is64 c \<longleftrightarrow> c \<in> set charSet"
proof
  assume "c \<in> set charSet"
  then show "is64 c" using is64_charSet by (metis charSet_length in_set_conv_nth)
next
  assume c: "is64 c"
  show "c \<in> set charSet"
  proof (rule ccontr)
    assume "c \<notin> set charSet"
    then have "byte_val c \<notin> (\<lambda>i. byte_val (charSet ! i)) ` set [0..<length charSet]" by auto
    then have "c642int ! byte_val c = -1"
      using table_updates(3) [OF charSet_inj, of "replicate 256 (- 1)" "byte_val c" "\<lambda>i. int (push_bit 2 i)"]
      by (simp add: c642int_def)
    with c show False by (simp add: is64_def)
  qed
qed

lemma not_is64_pad: "\<not> is64 (CHR ''='')"
  unfolding is64_iff charSet_def by simp

section \<open>Decoding a prefix leaves the rest alone\<close>

lemma setData_append:
  "setData (d @ r) (8 * length d + p) c = d @ setData r p c"
  by (simp add: setData_def Let_def nth_append list_update_append)

lemma length_setData [simp]: "length (setData r p c) = length r"
  by (simp add: setData_def Let_def)

lemma decode_loop_append_data:
  "decode_loop cs (8 * length d + p) (d @ r) = d @ decode_loop cs p r"
proof (induction cs arbitrary: p r)
  case (Cons c cs)
  show ?case
    using Cons [of "p + 6" "setData r p c"] Cons [of p r]
    by (simp add: setData_append add.assoc)
qed simp

section \<open>One group\<close>

definition digit1 :: "nat \<Rightarrow> nat" where "digit1 a = drop_bit 2 a AND 63"
definition digit2 :: "nat \<Rightarrow> nat \<Rightarrow> nat" where "digit2 a b = push_bit 4 (a AND 3) + drop_bit 4 b"
definition digit3 :: "nat \<Rightarrow> nat \<Rightarrow> nat" where "digit3 b c = push_bit 2 (b AND 15) + drop_bit 6 c"
definition digit4 :: "nat \<Rightarrow> nat" where "digit4 c = c AND 63"

lemma encode_quad_digits:
  "encode_quad a b c = [charSet ! digit1 a, charSet ! digit2 a b, charSet ! digit3 b c, charSet ! digit4 c]"
  by (simp add: encode_quad_def digit1_def digit2_def digit3_def digit4_def)

lemmas digit_defs = digit1_def digit2_def digit3_def digit4_def and_masks drop_bit_eq_div push_bit_eq_mult

lemma digit_lt [simp]:
  assumes "a < 256" "b < 256" "c < 256"
  shows "digit1 a < 64" "digit2 a b < 64" "digit3 b c < 64" "digit4 c < 64"
  using assms by (simp_all add: digit_defs less_mult_imp_div_less)

lemma or_byte_zero: "or_byte nul n = char_of (n mod 256)"
  by (simp add: or_byte_def nul_def)

lemma or_byte_high:
  assumes "hi < 256" "hi mod 2 ^ k = 0" "lo < 2 ^ k" "k \<le> 8"
  shows "or_byte (char_of hi) lo = char_of (hi + lo)"
proof -
  have "(2::nat) ^ k \<le> 2 ^ 8" using assms(4) by (intro power_increasing) simp_all
  then have "lo < 256" using assms(3) by simp
  then show ?thesis using assms by (simp add: or_byte_def or_add_nat [of lo k hi])
qed

lemma byte_from_digits:
  assumes "a < 256" "b < 256" "c < 256"
  shows "or_byte (char_of (4 * digit1 a)) (4 * digit2 a b div 64) = char_of a"
    and "or_byte (char_of (4 * digit2 a b * 4 mod 256)) (4 * digit3 b c div 16) = char_of b"
    and "or_byte (char_of (4 * digit3 b c * 16 mod 256)) (4 * digit4 c div 4) = char_of c"
proof -
  have d1: "4 * digit1 a = a div 4 * 4" "4 * digit2 a b div 64 = a mod 4"
    using assms by (simp_all add: digit_defs)
  show "or_byte (char_of (4 * digit1 a)) (4 * digit2 a b div 64) = char_of a"
    unfolding d1 using assms by (subst or_byte_high [where k = 2]) auto
  have d2: "4 * digit2 a b * 4 mod 256 = b div 16 * 16" "4 * digit3 b c div 16 = b mod 16"
    using assms by (simp_all add: digit_defs)
  show "or_byte (char_of (4 * digit2 a b * 4 mod 256)) (4 * digit3 b c div 16) = char_of b"
    unfolding d2 using assms by (subst or_byte_high [where k = 4]) auto
  have d3: "4 * digit3 b c * 16 mod 256 = c div 64 * 64" "4 * digit4 c div 4 = c mod 64"
    using assms by (simp_all add: digit_defs)
  show "or_byte (char_of (4 * digit3 b c * 16 mod 256)) (4 * digit4 c div 4) = char_of c"
    unfolding d3 using assms by (subst or_byte_high [where k = 6]) auto
qed

lemma decode_char:
  assumes "k < 64"
  shows "decode_loop (charSet ! k # cs) pos res = decode_loop cs (pos + 6) (setData res pos (charSet ! k))"
    and "nat (decodeChar (charSet ! k)) = 4 * k"
  using assms by (simp_all add: is64_charSet decodeChar_charSet)

lemma list_at_2: "(x # y # z # r)[2 := v] = x # y # v # r" "(x # y # z # r) ! 2 = z"
  by (simp_all add: numeral_2_eq_2)

lemma decode_quad:
  assumes "a < 256" "b < 256" "c < 256"
  shows "decode_loop (encode_quad a b c @ cs) 0 (nul # nul # nul # r) =
    char_of a # char_of b # char_of c # decode_loop cs 0 r"
proof -
  have [simp]: "push_bit 2 n = n * 4" "push_bit 4 n = n * 16" "drop_bit 2 n = n div 4"
    "drop_bit 4 n = n div 16" "drop_bit 6 n = n div 64" for n :: nat
    by (simp_all add: drop_bit_eq_div push_bit_eq_mult)
  note [simp] = decode_char(2) or_byte_zero
  let ?d1 = "digit1 a" and ?d2 = "digit2 a b" and ?d3 = "digit3 b c" and ?d4 = "digit4 c"
  have 1: "setData (nul # nul # nul # r) 0 (charSet ! ?d1) = char_of (4 * ?d1) # nul # nul # r"
    using digit_lt [OF assms] by (simp add: setData_def Let_def)
  have 2: "setData (char_of (4 * ?d1) # nul # nul # r) 6 (charSet ! ?d2) =
      char_of a # char_of (16 * ?d2) # nul # r"
    using digit_lt [OF assms] byte_from_digits(1) [OF assms] by (simp add: setData_def Let_def)
  have 3: "setData (char_of a # char_of (16 * ?d2) # nul # r) 12 (charSet ! ?d3) =
      char_of a # char_of b # char_of (64 * ?d3) # r"
    using digit_lt [OF assms] byte_from_digits(2) [OF assms] by (simp add: setData_def Let_def list_at_2)
  have 4: "setData (char_of a # char_of b # char_of (64 * ?d3) # r) 18 (charSet ! ?d4) =
      char_of a # char_of b # char_of c # r"
    using digit_lt [OF assms] byte_from_digits(3) [OF assms] by (simp add: setData_def Let_def list_at_2)
  have "decode_loop (encode_quad a b c @ cs) 0 (nul # nul # nul # r) =
      decode_loop cs 24 (char_of a # char_of b # char_of c # r)"
    using digit_lt [OF assms] by (simp add: encode_quad_digits decode_char(1) 1 2 3 4 del: decode_loop.simps)
  also have "\<dots> = char_of a # char_of b # char_of c # decode_loop cs 0 r"
    using decode_loop_append_data [of cs "[char_of a, char_of b, char_of c]" 0 r] by simp
  finally show ?thesis .
qed

section \<open>The round trip\<close>

lemma length_encode_quad [simp]: "length (encode_quad a b c) = 4"
  by (simp add: encode_quad_def)

lemma digit_byte_lt [simp]:
  "digit1 (byte_val a) < 64" "digit2 (byte_val a) (byte_val b) < 64" "digit2 (byte_val a) 0 < 64"
  "digit3 (byte_val b) (byte_val c) < 64" "digit3 (byte_val b) 0 < 64" "digit4 (byte_val c) < 64"
  using digit_lt [of "byte_val a" "byte_val b" "byte_val c"] digit_lt [of "byte_val a" 0 0]
    digit_lt [of 0 "byte_val b" 0] by simp_all

lemma list_at_23: "[x, y, z, w][2 := v] = [x, y, v, w]" "[x, y, z, w][3 := v] = [x, y, z, v]"
  by (simp_all add: numeral_2_eq_2 numeral_3_eq_3)

lemma set_charSet_nth [simp]: "k < 64 \<Longrightarrow> charSet ! k \<in> set charSet"
  by (metis charSet_length nth_mem)

lemma encode_loop_nonempty: "s \<noteq> [] \<Longrightarrow> length (encode_loop s) \<ge> 4"
  by (cases s rule: encode_loop.cases) simp_all

lemma base64_encode_rec:
  "base64_encode [] = []"
  "base64_encode [a] = [charSet ! digit1 (byte_val a), charSet ! digit2 (byte_val a) 0, CHR ''='', CHR ''='']"
  "base64_encode [a, b] = [charSet ! digit1 (byte_val a), charSet ! digit2 (byte_val a) (byte_val b),
     charSet ! digit3 (byte_val b) 0, CHR ''='']"
  "base64_encode (a # b # c # rest) =
     encode_quad (byte_val a) (byte_val b) (byte_val c) @ base64_encode rest"
proof -
  show "base64_encode [] = []" by (simp add: base64_encode_def)
  show "base64_encode [a] = [charSet ! digit1 (byte_val a), charSet ! digit2 (byte_val a) 0, CHR ''='', CHR ''='']"
    by (simp add: base64_encode_def encode_quad_digits Let_def list_at_23)
  show "base64_encode [a, b] = [charSet ! digit1 (byte_val a), charSet ! digit2 (byte_val a) (byte_val b),
     charSet ! digit3 (byte_val b) 0, CHR ''='']"
    by (simp add: base64_encode_def encode_quad_digits Let_def list_at_23)
  have m: "length (a # b # c # rest) mod 3 = length rest mod 3" by simp
  show "base64_encode (a # b # c # rest) =
     encode_quad (byte_val a) (byte_val b) (byte_val c) @ base64_encode rest"
  proof (cases "rest = []")
    case True
    then show ?thesis by (simp add: base64_encode_def)
  next
    case False
    then show ?thesis
      using encode_loop_nonempty [OF False]
      by (auto simp: base64_encode_def m Let_def list_update_append simp del: length_Cons)
  qed
qed

lemma count64_shift:
  "count64 cs s e = (s + fst (count64 cs 0 0), e + snd (count64 cs 0 0))"
proof (induction cs arbitrary: s e)
  case (Cons c cs)
  show ?case using Cons [of "Suc s" e] Cons [of s "Suc e"] Cons [of s e] Cons [of 1 0] Cons [of 0 1]
    by simp
qed simp

lemma count64_digit [simp]: "k < 64 \<Longrightarrow> count64 (charSet ! k # cs) s e = count64 cs (Suc s) e"
  by (simp add: is64_charSet)

lemma count64_encode:
  "count64 (base64_encode s) 0 0 = ((length s * 4 + 2) div 3, (3 - length s mod 3) mod 3)"
proof (induction s rule: encode_loop.induct)
  case (4 a b c rest)
  have "count64 (encode_quad (byte_val a) (byte_val b) (byte_val c) @ base64_encode rest) 0 0 =
      count64 (base64_encode rest) (Suc (Suc (Suc (Suc 0)))) 0"
    by (simp add: encode_quad_digits is64_charSet)
  also have "\<dots> = (4 + (length rest * 4 + 2) div 3, (3 - length rest mod 3) mod 3)"
    by (subst count64_shift) (simp add: 4)
  finally show ?case by (simp add: base64_encode_rec) 
qed (simp_all add: base64_encode_rec not_is64_pad del: count64.simps(2), simp_all add: not_is64_pad)

lemma group_count:
  assumes "r < (3::nat)"
  shows "((q * 3 + r) * 4 + 2) div 3 + (3 - r) mod 3 = 4 * (q + (r + 2) div 3)"
    and "3 * (q + (r + 2) div 3) - (3 - r) mod 3 = q * 3 + r"
    and "(3 - r) mod 3 \<le> 3 * (q + (r + 2) div 3)"
proof -
  consider "r = 0" | "r = 1" | "r = 2" using assms by arith
  then have "(((q * 3 + r) * 4 + 2) div 3 + (3 - r) mod 3 = 4 * (q + (r + 2) div 3)) \<and>
    3 * (q + (r + 2) div 3) - (3 - r) mod 3 = q * 3 + r \<and> (3 - r) mod 3 \<le> 3 * (q + (r + 2) div 3)"
  proof cases
    case 1
    have "((q * 3 + 0) * 4 + 2) div 3 = 4 * q" by arith
    with 1 show ?thesis by simp
  next
    case 2
    have "(q * 3 + 1) * 4 + 2 = 3 * (4 * q + 2)" by simp
    then have "((q * 3 + 1) * 4 + 2) div 3 = 4 * q + 2" by (metis nonzero_mult_div_cancel_left zero_neq_numeral)
    with 2 show ?thesis by simp
  next
    case 3
    have "((q * 3 + 2) * 4 + 2) div 3 = 4 * q + 3" by arith
    with 3 show ?thesis by simp
  qed
  then show "((q * 3 + r) * 4 + 2) div 3 + (3 - r) mod 3 = 4 * (q + (r + 2) div 3)"
    and "3 * (q + (r + 2) div 3) - (3 - r) mod 3 = q * 3 + r"
    and "(3 - r) mod 3 \<le> 3 * (q + (r + 2) div 3)"
    by blast+
qed

lemma decodeSize_encode: "decodeSize (base64_encode s) = int (length s)"
proof -
  define q r where "q = length s div 3" and "r = length s mod 3"
  then have r: "r < 3" and len: "length s = q * 3 + r" by simp_all
  note g = group_count [OF r, of q, folded len]
  have "decodeSize (base64_encode s) =
      int (((length s * 4 + 2) div 3 + (3 - r) mod 3) div 4 * 3) - int ((3 - r) mod 3)"
    unfolding decodeSize_def Let_def count64_encode prod.case r_def ..
  also have "\<dots> = int (3 * (q + (r + 2) div 3)) - int ((3 - r) mod 3)"
    unfolding g(1) by simp
  also have "\<dots> = int (length s)"
    using g(2,3) by (simp add: of_nat_diff [symmetric] del: of_nat_mult of_nat_add)
  finally show ?thesis .
qed

lemma decode_loop_encode:
  "decode_loop (base64_encode s) 0 (replicate (length s) nul) = s"
proof (induction s rule: encode_loop.induct)
  case (2 a)
  have b: "byte_val a < 256" "(0::nat) < 256" by simp_all
  show ?case
    using digit_lt [OF b(1) b(2) b(2)] byte_from_digits(1) [OF b(1) b(2) b(2)]
    by (simp add: base64_encode_rec decode_char is64_charSet not_is64_pad setData_def Let_def or_byte_zero
        drop_bit_eq_div)
next
  case (3 a b)
  have b: "byte_val a < 256" "byte_val b < 256" "(0::nat) < 256" by simp_all
  show ?case
    using digit_lt [OF b] byte_from_digits(1,2) [OF b]
    by (simp add: base64_encode_rec decode_char is64_charSet not_is64_pad setData_def Let_def or_byte_zero
        drop_bit_eq_div push_bit_eq_mult)
next
  case (4 a b c rest)
  have b: "byte_val a < 256" "byte_val b < 256" "byte_val c < 256" by simp_all
  show ?case
    using decode_quad [OF b, of "base64_encode rest" "replicate (length rest) nul"] 4
    by (simp add: base64_encode_rec)
qed (simp add: base64_encode_rec)

lemma base64_round_trip: "base64_decode (base64_encode s) = Inr s"
  using decode_loop_encode [of s] by (simp add: base64_decode_def decodeSize_encode Let_def)

lemma base64_encode_alphabet: "set (base64_encode s) \<subseteq> set charSet \<union> {CHR ''=''}"
proof (induction s rule: encode_loop.induct)
  case (4 a b c rest)
  then show ?case by (auto simp: base64_encode_rec encode_quad_digits)
qed (auto simp: base64_encode_rec)

lemma length_base64_encode: "length (base64_encode s) = 4 * ((length s + 2) div 3)"
proof (induction s rule: encode_loop.induct)
  case (4 a b c rest)
  have "(length (a # b # c # rest) + 2) div 3 = Suc ((length rest + 2) div 3)" by simp
  with 4 show ?case by (simp only: base64_encode_rec length_append length_encode_quad mult_Suc_right)
qed (simp_all add: base64_encode_rec)

text \<open>
  Which inputs make \<open>decode\<close> throw: those with more padding characters than the bytes the groups of
  four account for. Nothing else in the loop can fail, as \<open>setData\<close> ignores writes past the end.
\<close>

lemma decode_throws_iff:
  "base64_decode s = Inl length_error \<longleftrightarrow>
     (case count64 s 0 0 of (n, e) \<Rightarrow> (n + e) div 4 * 3 < e)"
  by (auto simp: base64_decode_def decodeSize_def Let_def split: prod.splits) 

lemma length_decode_loop [simp]: "length (decode_loop cs p r) = length r"
  by (induction cs arbitrary: p r) simp_all

lemma base64_decode_length:
  "base64_decode s = Inr d \<Longrightarrow> int (length d) = decodeSize s"
  by (auto simp: base64_decode_def Let_def split: if_splits)

text \<open>A padded text, as peers send it: padding at most 2 and a whole number of groups.\<close>

lemma base64_decode_padded:
  assumes "count64 s 0 0 = (n, e)" and "e \<le> 2" and "4 dvd n + e"
  shows "\<exists>d. base64_decode s = Inr d \<and> length d = n * 3 div 4"
proof -
  obtain q where q: "n + e = 4 * q" using assms(3) by (auto simp: dvd_def)
  then have n: "n = 4 * q - e" by simp
  have e: "e = 0 \<or> e = 1 \<or> e = 2" using assms(2) by arith
  have sz: "decodeSize s = 3 * int q - int e" using q by (simp add: decodeSize_def assms(1))
  have pos: "int e \<le> 3 * int q" using e q by auto
  have len: "n * 3 div 4 = 3 * q - e" unfolding n using e pos by auto
  show ?thesis
  proof (cases "decodeSize s = 0")
    case True
    then show ?thesis using sz len by (simp add: base64_decode_def)
  next
    case False
    then show ?thesis using sz pos len by (auto simp: base64_decode_def Let_def nat_diff_distrib)
  qed
qed

section \<open>Codec contracts\<close>

text \<open>
  The interface the message formats of this program share: a printer and a reader of texts, where
  reading what was printed gives back the text as the printer understood it. \<open>clean\<close> is what the
  printer makes of its input before it writes it (the identity here, the UTF-8 filter in JSON and XML).
\<close>

locale text_codec =
  fixes enc :: "string \<Rightarrow> string"
    and dec :: "string \<Rightarrow> string result"
    and clean :: "string \<Rightarrow> string"
  assumes dec_enc: "dec (enc s) = Inr (clean s)"
    and enc_clean: "enc (clean s) = enc s"
begin

lemma clean_idem: "clean (clean s) = clean s"
  using dec_enc [of "clean s"] dec_enc [of s] enc_clean [of s] by simp

lemma enc_inj_clean: "enc s = enc t \<longleftrightarrow> clean s = clean t"
  by (metis dec_enc enc_clean sum.inject(2))

lemma reencode: "bind_result (dec (enc s)) (\<lambda>t. Inr (enc t)) = Inr (enc s)"
  by (simp add: dec_enc enc_clean)

end

interpretation b64: text_codec base64_encode base64_decode "\<lambda>s. s"
  by unfold_locales (simp_all add: base64_round_trip)

section \<open>Properties\<close>

text \<open>
  Decoding what \<open>Base64::encode\<close> wrote gives back the same bytes, encoding is injective and never
  leaves the alphabet, and its length is four characters per group of three bytes.
\<close>

theorem base64_codec_correct:
  "base64_decode (base64_encode s) = Inr s
   \<and> (base64_encode s = base64_encode t \<longleftrightarrow> s = t)
   \<and> set (base64_encode s) \<subseteq> set charSet \<union> {CHR ''=''}
   \<and> length (base64_encode s) = 4 * ((length s + 2) div 3)"
  using b64.dec_enc b64.enc_inj_clean base64_encode_alphabet length_base64_encode by simp

text \<open>
  \<open>Base64::decode\<close> of any bytes either returns a text of exactly \<open>decodeSize\<close> bytes or throws
  the length error, and it throws exactly when the padding characters outnumber three bytes per
  complete group of four (a lone \<open>=\<close> is such an input).
\<close>

theorem base64_decode_total:
  "(case base64_decode s of Inr d \<Rightarrow> int (length d) = decodeSize s | Inl e \<Rightarrow> e = length_error)
   \<and> (base64_decode s = Inl length_error \<longleftrightarrow>
        (case count64 s 0 0 of (n, e) \<Rightarrow> (n + e) div 4 * 3 < e))
   \<and> base64_decode ''='' = Inl length_error"
proof -
  have "(case base64_decode s of Inr d \<Rightarrow> int (length d) = decodeSize s | Inl e \<Rightarrow> e = length_error)"
    by (auto simp: base64_decode_def Let_def)
  moreover have "base64_decode ''='' = Inl length_error"
    by (subst decode_throws_iff) (simp add: not_is64_pad)
  ultimately show ?thesis using decode_throws_iff by simp
qed

end
