(* ===== verification/Utf8.thy ===== *)
theory Utf8
  imports Prelude
begin

text \<open>
  The three UTF-8 filters of the program: \<open>isValidUTF8\<close> and \<open>sanitizeUTF8\<close> of websocket.cpp,
  which guard the text frames, and \<open>get_utf8_nbytes_char\<close> with \<open>get_clean_utf8\<close> of util.h, which
  clean what goes into JSON and XML. The validator is proved equal to the definition of UTF-8 (a
  concatenation of encoded scalar values), and the sanitizer to produce valid text of the same size.
\<close>

section \<open>Operations\<close>

text \<open>The leading byte: how many bytes follow and its payload bits.\<close>

definition utf8_lead :: "nat \<Rightarrow> (nat \<times> nat) option" where
  "utf8_lead b =
     (if b AND 0xE0 = 0xC0 then Some (1, b AND 0x1F)
      else if b AND 0xF0 = 0xE0 then Some (2, b AND 0x0F)
      else if b AND 0xF8 = 0xF0 then Some (3, b AND 0x07)
      else None)"

text \<open>The loop over the continuation bytes; \<open>None\<close> at a byte that is not one.\<close>

fun utf8_conts :: "string \<Rightarrow> nat \<Rightarrow> nat \<Rightarrow> nat option" where
  "utf8_conts cs 0 codepoint = Some codepoint"
| "utf8_conts [] (Suc n) codepoint = None"
| "utf8_conts (c # cs) (Suc n) codepoint =
     (if byte_val c AND 0xC0 \<noteq> 0x80 then None
      else utf8_conts cs n (push_bit 6 codepoint OR (byte_val c AND 0x3F)))"

definition utf8_bad :: "nat \<Rightarrow> nat \<Rightarrow> bool" where
  "utf8_bad extra codepoint \<longleftrightarrow>
     (extra = 1 \<and> codepoint < 0x80) \<or> (extra = 2 \<and> codepoint < 0x800) \<or>
     (extra = 3 \<and> codepoint < 0x10000) \<or> codepoint > 0x10FFFF \<or>
     (codepoint \<ge> 0xD800 \<and> codepoint \<le> 0xDFFF)"

function isValidUTF8 :: "string \<Rightarrow> bool" where
  "isValidUTF8 [] = True"
| "isValidUTF8 (c # cs) =
     (if byte_val c < 0x80 then isValidUTF8 cs
      else case utf8_lead (byte_val c) of
          None \<Rightarrow> False
        | Some (extra, codepoint) \<Rightarrow>
            if extra > length cs then False
            else (case utf8_conts cs extra codepoint of
                None \<Rightarrow> False
              | Some cp \<Rightarrow> if utf8_bad extra cp then False else isValidUTF8 (drop extra cs)))"
  by pat_completeness auto
termination by (relation "measure length") auto

function sanitizeUTF8 :: "string \<Rightarrow> string" where
  "sanitizeUTF8 [] = []"
| "sanitizeUTF8 (c # cs) =
     (if byte_val c < 0x80 then c # sanitizeUTF8 cs
      else case utf8_lead (byte_val c) of
          None \<Rightarrow> CHR ''?'' # sanitizeUTF8 cs
        | Some (extra, codepoint) \<Rightarrow>
            let valid = (if extra \<le> length cs then
                (case utf8_conts cs extra codepoint of None \<Rightarrow> False | Some cp \<Rightarrow> \<not> utf8_bad extra cp)
              else False) in
            if valid then (c # take extra cs) @ sanitizeUTF8 (drop extra cs)
            else CHR ''?'' # sanitizeUTF8 cs)"
  by pat_completeness auto
termination by (relation "measure length") auto

text \<open>
  \<open>Util::get_utf8_nbytes_char(text, pos)\<close>: 0 past the end, the number of bytes of the sequence,
  -1 for a bad or cut leading byte and \<open>-(i + 1)\<close> when byte \<open>i\<close> is not a continuation.
\<close>

fun first_bad_cont :: "string \<Rightarrow> nat \<Rightarrow> nat \<Rightarrow> nat option" where
  "first_bad_cont cs 0 i = None"
| "first_bad_cont [] (Suc n) i = None"
| "first_bad_cont (c # cs) (Suc n) i =
     (if drop_bit 6 (byte_val c) \<noteq> 2 then Some i else first_bad_cont cs n (Suc i))"

definition utf8_num_bytes :: "nat \<Rightarrow> nat" where
  "utf8_num_bytes c = (if drop_bit 5 c = 6 then 2 else if drop_bit 4 c = 14 then 3
     else if drop_bit 3 c = 30 then 4 else 0)"

definition get_utf8_nbytes_char :: "string \<Rightarrow> nat \<Rightarrow> int" where
  "get_utf8_nbytes_char text pos =
     (if pos < length text then
        let c = byte_val (text ! pos) in
        if drop_bit 7 c = 0 then 1
        else let num_bytes = utf8_num_bytes c in
          if num_bytes = 0 then -1
          else if pos + num_bytes > length text then -1
          else (case first_bad_cont (drop (pos + 1) text) (num_bytes - 1) 1 of
              Some i \<Rightarrow> - (int i + 1)
            | None \<Rightarrow> int num_bytes)
      else 0)"

lemma utf8_nbytes_nonzero: "pos < length text \<Longrightarrow> get_utf8_nbytes_char text pos \<noteq> 0"
  by (auto simp: get_utf8_nbytes_char_def Let_def split: option.splits)

function clean_from :: "string \<Rightarrow> nat \<Rightarrow> string" where
  "clean_from text pos =
     (if pos < length text then
        let num_bytes = get_utf8_nbytes_char text pos in
        if num_bytes > 0 then substr text pos (nat num_bytes) @ clean_from text (pos + nat num_bytes)
        else if num_bytes = 0 then []
        else clean_from text (pos + nat (- num_bytes))
      else [])"
  by pat_completeness auto
termination by (relation "measure (\<lambda>(text, pos). length text - pos)") auto

declare clean_from.simps [simp del]

definition get_clean_utf8 :: "string \<Rightarrow> string" where
  "get_clean_utf8 text = clean_from text 0"

section \<open>Masks as ranges\<close>

lemma and_push_bit_nat: "(n::nat) AND push_bit k m = push_bit k (drop_bit k n AND m)"
  by (rule bit_eqI) (auto simp: bit_and_iff bit_push_bit_iff bit_drop_bit_eq)

lemma and_high_bits:
  "(n::nat) < 256 \<Longrightarrow> n AND 0xE0 = 32 * (n div 32)"
  "(n::nat) < 256 \<Longrightarrow> n AND 0xF0 = 16 * (n div 16)"
  "(n::nat) < 256 \<Longrightarrow> n AND 0xF8 = 8 * (n div 8)"
  "(n::nat) < 256 \<Longrightarrow> n AND 0xC0 = 64 * (n div 64)"
  using and_push_bit_nat [of n 5 7] and_push_bit_nat [of n 4 15] and_push_bit_nat [of n 3 31]
    and_push_bit_nat [of n 6 3]
  by (simp_all add: push_bit_eq_mult drop_bit_eq_div and_masks less_mult_imp_div_less)

lemma div_block: "0 < (d::nat) \<Longrightarrow> d * (n div d) = d * q \<longleftrightarrow> q * d \<le> n \<and> n < Suc q * d"
  using dividend_less_div_times [of d n] by (auto intro!: div_nat_eqI simp: ac_simps)

lemma lead_ranges:
  assumes "(n::nat) < 256"
  shows "n AND 0xE0 = 0xC0 \<longleftrightarrow> 192 \<le> n \<and> n < 224" "n AND 0xF0 = 0xE0 \<longleftrightarrow> 224 \<le> n \<and> n < 240"
    "n AND 0xF8 = 0xF0 \<longleftrightarrow> 240 \<le> n \<and> n < 248" "n AND 0xC0 = 0x80 \<longleftrightarrow> 128 \<le> n \<and> n < 192"
  using div_block [of 32 n 6] div_block [of 16 n 14] div_block [of 8 n 30] div_block [of 64 n 2]
  unfolding and_high_bits [OF assms] by simp_all

lemma byte_lead_ranges [simp]:
  "byte_val c AND 0xE0 = 0xC0 \<longleftrightarrow> 192 \<le> byte_val c \<and> byte_val c < 224"
  "byte_val c AND 0xF0 = 0xE0 \<longleftrightarrow> 224 \<le> byte_val c \<and> byte_val c < 240"
  "byte_val c AND 0xF8 = 0xF0 \<longleftrightarrow> 240 \<le> byte_val c \<and> byte_val c < 248"
  "byte_val c AND 0xC0 = 0x80 \<longleftrightarrow> 128 \<le> byte_val c \<and> byte_val c < 192"
  using lead_ranges [OF byte_val_lt [of c]] by blast+

lemma utf8_conts_Cons:
  "utf8_conts (c # cs) (Suc n) cp =
     (if 128 \<le> byte_val c \<and> byte_val c < 192 then utf8_conts cs n (cp * 64 + (byte_val c - 128)) else None)"
proof (cases "128 \<le> byte_val c \<and> byte_val c < 192")
  case True
  have m: "(push_bit 6 cp) mod 2 ^ 6 = 0" by (simp add: push_bit_eq_mult)
  have "byte_val c AND 0x3F = byte_val c - 128"
    using True by (auto simp: and_masks intro!: mod_nat_eqI)
  moreover have "push_bit 6 cp OR (byte_val c - 128) = cp * 64 + (byte_val c - 128)"
    using True or_add_nat [of "byte_val c - 128" 6 "push_bit 6 cp"] m
    by (simp add: push_bit_eq_mult less_diff_conv2)
  ultimately show ?thesis using True by simp
qed auto

declare utf8_conts.simps(3) [simp del]
declare utf8_conts_Cons [simp]

lemma utf8_lead_byte:
  "utf8_lead (byte_val c) =
     (if 192 \<le> byte_val c \<and> byte_val c < 224 then Some (1, byte_val c - 192)
      else if 224 \<le> byte_val c \<and> byte_val c < 240 then Some (2, byte_val c - 224)
      else if 240 \<le> byte_val c \<and> byte_val c < 248 then Some (3, byte_val c - 240) else None)"
proof -
  have "192 \<le> b \<Longrightarrow> b < 224 \<Longrightarrow> b mod 32 = b - 192" "224 \<le> b \<Longrightarrow> b < 240 \<Longrightarrow> b mod 16 = b - 224"
    "240 \<le> b \<Longrightarrow> b < 248 \<Longrightarrow> b mod 8 = b - 240" for b :: nat
    by (auto intro!: mod_nat_eqI)
  then show ?thesis by (simp add: utf8_lead_def and_masks)
qed

section \<open>The definition of UTF-8\<close>

text \<open>RFC 3629: scalar values and the bytes of each.\<close>

definition is_scalar :: "nat \<Rightarrow> bool" where
  "is_scalar u \<longleftrightarrow> u \<le> 0x10FFFF \<and> \<not> (0xD800 \<le> u \<and> u \<le> 0xDFFF)"

definition utf8_of :: "nat \<Rightarrow> string" where
  "utf8_of u =
     (if u < 0x80 then [char_of u]
      else if u < 0x800 then [char_of (0xC0 + u div 64), char_of (0x80 + u mod 64)]
      else if u < 0x10000 then
        [char_of (0xE0 + u div 4096), char_of (0x80 + u div 64 mod 64), char_of (0x80 + u mod 64)]
      else [char_of (0xF0 + u div 262144), char_of (0x80 + u div 4096 mod 64),
        char_of (0x80 + u div 64 mod 64), char_of (0x80 + u mod 64)])"

definition utf8_text :: "string \<Rightarrow> bool" where
  "utf8_text s \<longleftrightarrow> (\<exists>us. (\<forall>u \<in> set us. is_scalar u) \<and> s = concat (map utf8_of us))"

text \<open>One accepted sequence: its length and its scalar value.\<close>

definition utf8_head :: "string \<Rightarrow> (nat \<times> nat) option" where
  "utf8_head s = (case s of [] \<Rightarrow> None
     | c # cs \<Rightarrow>
       if byte_val c < 0x80 then Some (1, byte_val c)
       else case utf8_lead (byte_val c) of None \<Rightarrow> None
         | Some (extra, codepoint) \<Rightarrow>
           if extra > length cs then None
           else (case utf8_conts cs extra codepoint of None \<Rightarrow> None
             | Some cp \<Rightarrow> if utf8_bad extra cp then None else Some (Suc extra, cp)))"

lemma isValidUTF8_head:
  "s \<noteq> [] \<Longrightarrow> isValidUTF8 s = (case utf8_head s of None \<Rightarrow> False | Some (n, u) \<Rightarrow> isValidUTF8 (drop n s))"
  by (cases s) (auto simp: utf8_head_def split: option.splits)

lemma sanitizeUTF8_head:
  "s \<noteq> [] \<Longrightarrow> sanitizeUTF8 s = (case utf8_head s of None \<Rightarrow> CHR ''?'' # sanitizeUTF8 (tl s)
     | Some (n, u) \<Rightarrow> take n s @ sanitizeUTF8 (drop n s))"
  by (cases s) (auto simp: utf8_head_def split: option.splits)

declare isValidUTF8.simps(2) [simp del] sanitizeUTF8.simps(2) [simp del]

lemma conts_length: "utf8_conts cs n cp = Some u \<Longrightarrow> n \<le> length cs"
proof (induction n arbitrary: cs cp)
  case (Suc n)
  then show ?case by (cases cs) (auto split: if_splits)
qed simp

text \<open>The sequences of two, three and four bytes, by the payloads of their bytes.\<close>

lemma utf8_conts_numeral [simp]:
  "utf8_conts (c # cs) (numeral k) cp =
     (if 128 \<le> byte_val c \<and> byte_val c < 192
      then utf8_conts cs (pred_numeral k) (cp * 64 + (byte_val c - 128)) else None)"
  by (simp only: numeral_eq_Suc utf8_conts_Cons)

definition is_cont :: "char \<Rightarrow> bool" where
  "is_cont c \<longleftrightarrow> 128 \<le> byte_val c \<and> byte_val c < 192"

lemma utf8_head_bytes:
  "192 \<le> byte_val a \<Longrightarrow> byte_val a < 224 \<Longrightarrow> is_cont b \<Longrightarrow>
    utf8_head (a # b # s) = (let u = (byte_val a - 192) * 64 + (byte_val b - 128) in
      if utf8_bad 1 u then None else Some (2, u))"
  "224 \<le> byte_val a \<Longrightarrow> byte_val a < 240 \<Longrightarrow> is_cont b \<Longrightarrow> is_cont c \<Longrightarrow>
    utf8_head (a # b # c # s) =
      (let u = ((byte_val a - 224) * 64 + (byte_val b - 128)) * 64 + (byte_val c - 128) in
      if utf8_bad 2 u then None else Some (3, u))"
  "240 \<le> byte_val a \<Longrightarrow> byte_val a < 248 \<Longrightarrow> is_cont b \<Longrightarrow> is_cont c \<Longrightarrow> is_cont d \<Longrightarrow>
    utf8_head (a # b # c # d # s) =
      (let u = (((byte_val a - 240) * 64 + (byte_val b - 128)) * 64 + (byte_val c - 128)) * 64
        + (byte_val d - 128) in
      if utf8_bad 3 u then None else Some (4, u))"
  by (simp_all add: utf8_head_def utf8_lead_byte is_cont_def Let_def)

lemma byte_val_plus: "k + x < 256 \<Longrightarrow> byte_val (char_of (k + x)) = k + x"
  by simp

lemma is_cont_plus: "y < 64 \<Longrightarrow> is_cont (char_of (128 + y))" "y < 64 \<Longrightarrow> byte_val (char_of (128 + y)) - 128 = y"
  by (simp_all add: is_cont_def)

lemma utf8_head_payload:
  "x < 32 \<Longrightarrow> y < 64 \<Longrightarrow> utf8_head (char_of (192 + x) # char_of (128 + y) # s) =
    (let u = x * 64 + y in if utf8_bad 1 u then None else Some (2, u))"
  "x < 16 \<Longrightarrow> y < 64 \<Longrightarrow> z < 64 \<Longrightarrow>
    utf8_head (char_of (224 + x) # char_of (128 + y) # char_of (128 + z) # s) =
    (let u = (x * 64 + y) * 64 + z in if utf8_bad 2 u then None else Some (3, u))"
  "x < 8 \<Longrightarrow> y < 64 \<Longrightarrow> z < 64 \<Longrightarrow> w < 64 \<Longrightarrow>
    utf8_head (char_of (240 + x) # char_of (128 + y) # char_of (128 + z) # char_of (128 + w) # s) =
    (let u = ((x * 64 + y) * 64 + z) * 64 + w in if utf8_bad 3 u then None else Some (4, u))"
  by (subst utf8_head_bytes; simp only: is_cont_plus byte_val_plus; simp)+

lemma utf8_of_digits:
  "2 \<le> x \<Longrightarrow> x < 32 \<Longrightarrow> y < 64 \<Longrightarrow> utf8_of (x * 64 + y) = [char_of (192 + x), char_of (128 + y)]"
  "x < 16 \<Longrightarrow> y < 64 \<Longrightarrow> z < 64 \<Longrightarrow> 0x800 \<le> (x * 64 + y) * 64 + z \<Longrightarrow>
    utf8_of ((x * 64 + y) * 64 + z) = [char_of (224 + x), char_of (128 + y), char_of (128 + z)]"
  "x < 8 \<Longrightarrow> y < 64 \<Longrightarrow> z < 64 \<Longrightarrow> w < 64 \<Longrightarrow> 0x10000 \<le> ((x * 64 + y) * 64 + z) * 64 + w \<Longrightarrow>
    utf8_of (((x * 64 + y) * 64 + z) * 64 + w) =
      [char_of (240 + x), char_of (128 + y), char_of (128 + z), char_of (128 + w)]"
proof -
  have d1: "(n * 64 + m) div 64 = n" "(n * 64 + m) mod 64 = m" if "m < 64" for n m :: nat
    using that by simp_all
  have d2: "k div 4096 = k div 64 div 64" "k div 262144 = k div 64 div 64 div 64" for k :: nat
    by (simp_all add: div_mult2_eq [symmetric])
  show "utf8_of (x * 64 + y) = [char_of (192 + x), char_of (128 + y)]"
    if "2 \<le> x" "x < 32" "y < 64"
    using that by (simp add: utf8_of_def d1)
  show "utf8_of ((x * 64 + y) * 64 + z) = [char_of (224 + x), char_of (128 + y), char_of (128 + z)]"
    if "x < 16" "y < 64" "z < 64" "0x800 \<le> (x * 64 + y) * 64 + z"
  proof -
    have "x \<le> 15" "y \<le> 63" "z \<le> 63" using that by simp_all
    then have "(x * 64 + y) * 64 + z < 0x10000" by simp
    then show ?thesis using that unfolding utf8_of_def d2 d1 [OF that(3)] d1 [OF that(2)] by simp
  qed
  show "utf8_of (((x * 64 + y) * 64 + z) * 64 + w) =
      [char_of (240 + x), char_of (128 + y), char_of (128 + z), char_of (128 + w)]"
    if "x < 8" "y < 64" "z < 64" "w < 64" "0x10000 \<le> ((x * 64 + y) * 64 + z) * 64 + w"
    using that unfolding utf8_of_def d2 d1 [OF that(4)] d1 [OF that(3)] d1 [OF that(2)] by simp
qed

text \<open>Accepting a sequence is undoing the encoding of a scalar value.\<close>

lemma utf8_head_encode:
  assumes "is_scalar u"
  shows "utf8_head (utf8_of u @ s) = Some (length (utf8_of u), u)"
proof -
  have u: "u < 0x110000" and bad: "\<not> (0xD800 \<le> u \<and> u \<le> 0xDFFF)"
    using assms by (simp_all add: is_scalar_def)
  define w z y x where "w = u mod 64" and "z = u div 64 mod 64" and "y = u div 64 div 64 mod 64"
    and "x = u div 64 div 64 div 64"
  have lt: "w < 64" "z < 64" "y < 64" by (simp_all add: w_def z_def y_def)
  have u1: "u = u div 64 * 64 + w" and u2: "u div 64 = u div 64 div 64 * 64 + z"
    and u3: "u div 64 div 64 = x * 64 + y" by (simp_all only: w_def z_def y_def x_def div_mult_mod_eq)
  consider "u < 0x80" | "0x80 \<le> u" "u < 0x800" | "0x800 \<le> u" "u < 0x10000" | "0x10000 \<le> u"
    by linarith
  then show ?thesis
  proof cases
    case 1
    then show ?thesis by (simp add: utf8_of_def utf8_head_def)
  next
    case 2
    define v where "v = u div 64"
    have v: "u = v * 64 + w" "2 \<le> v" "v < 32" using u1 2 lt unfolding v_def by linarith+
    then show ?thesis
      using 2 bad lt utf8_of_digits(1) [OF v(2,3) lt(1)] utf8_head_payload(1) [OF v(3) lt(1)]
      by (simp add: utf8_bad_def)
  next
    case 3
    define v where "v = u div 64 div 64"
    have v1: "u = (v * 64 + z) * 64 + w" using u1 u2 unfolding v_def by simp
    then have "4096 * v < 65536" using 3 by simp
    with v1 have v: "u = (v * 64 + z) * 64 + w" "v < 16" by simp_all
    then show ?thesis
      using 3 bad lt utf8_of_digits(2) [OF v(2) lt(2,1)] utf8_head_payload(2) [OF v(2) lt(2,1)]
      by (simp add: utf8_bad_def Let_def del: distrib_right_numeral)
  next
    case 4
    have v1: "u = ((x * 64 + y) * 64 + z) * 64 + w" using u1 u2 u3 by simp
    then have "262144 * x < 0x110000" using u by simp
    with v1 have v: "u = ((x * 64 + y) * 64 + z) * 64 + w" "x < 8" by simp_all
    then show ?thesis
      using 4 u bad lt utf8_of_digits(3) [OF v(2) lt(3,2,1)] utf8_head_payload(3) [OF v(2) lt(3,2,1)]
      by (simp add: utf8_bad_def Let_def del: distrib_right_numeral)
  qed
qed

lemma is_cont_payload: "is_cont c \<Longrightarrow> \<exists>y < 64::nat. c = char_of (128 + y)"
  by (rule exI [of _ "byte_val c - 128"]) (auto simp: is_cont_def)

lemma lead_payload: "k \<le> byte_val c \<Longrightarrow> byte_val c < k + m \<Longrightarrow> \<exists>x < m::nat. c = char_of (k + x)"
  by (rule exI [of _ "byte_val c - k"]) auto

lemma conts_are_cont: "utf8_conts cs n cp = Some u \<Longrightarrow> \<forall>i < n. is_cont (cs ! i)"
proof (induction n arbitrary: cs cp)
  case (Suc n)
  then obtain c r where "cs = c # r" by (cases cs) auto
  with Suc show ?case by (auto simp: is_cont_def nth_Cons split: if_splits nat.splits)
qed simp

lemma utf8_head_decode:
  assumes "utf8_head s = Some (n, u)"
  shows "is_scalar u \<and> n = length (utf8_of u) \<and> (\<exists>r. s = utf8_of u @ r)"
proof -
  obtain a cs where s: "s = a # cs" using assms by (cases s) (auto simp: utf8_head_def)
  have goal: ?thesis
    if "s = utf8_of v @ r" "is_scalar v" for v r
    using utf8_head_encode [OF that(2), of r] that assms by auto
  show ?thesis
  proof (cases "byte_val a < 0x80")
    case True
    then show ?thesis using goal [of "byte_val a" cs] s by (simp add: utf8_of_def is_scalar_def)
  next
    case False
    then obtain extra cp0 where lead: "utf8_lead (byte_val a) = Some (extra, cp0)"
      and conts: "utf8_conts cs extra cp0 = Some u" and ok: "\<not> utf8_bad extra u"
      using assms s by (auto simp: utf8_head_def split: option.splits if_splits)
    note C = conts_are_cont [OF conts] conts_length [OF conts]
    have scal: "is_scalar u" using ok by (auto simp: utf8_bad_def is_scalar_def)
    consider "extra = 1" "192 \<le> byte_val a" "byte_val a < 192 + 32"
      | "extra = 2" "224 \<le> byte_val a" "byte_val a < 224 + 16"
      | "extra = 3" "240 \<le> byte_val a" "byte_val a < 240 + 8"
      using lead by (auto simp: utf8_lead_byte split: if_splits)
    then show ?thesis
    proof cases
      case 1
      then obtain b r where cs: "cs = b # r" using C(2) by (cases cs) auto
      obtain x y :: nat where x: "x < 32" "a = char_of (192 + x)" and y: "y < 64" "b = char_of (128 + y)"
        using lead_payload [OF 1(2,3)] is_cont_payload [of b] C(1) 1(1) cs by auto
      have u: "u = x * 64 + y" "\<not> x * 64 + y < 128"
        using assms utf8_head_payload(1) [OF x(1) y(1), of r]
        by (auto simp: s cs x(2) y(2) Let_def utf8_bad_def simp del: One_nat_def split: if_splits)
      moreover have "2 \<le> x" using u(2) y(1) by (cases x; cases "x - 1") auto
      ultimately show ?thesis
        using goal [of u r] scal utf8_of_digits(1) [of x y] x y s cs by simp
    next
      case 2
      then obtain b c r where cs: "cs = b # c # r" using C(2) by (cases cs; cases "tl cs") auto
      have cb: "is_cont b" "is_cont c" using C(1) 2(1) cs by (auto dest: spec [of _ 0] spec [of _ 1])
      obtain x y z :: nat where x: "x < 16" "a = char_of (224 + x)" and y: "y < 64" "b = char_of (128 + y)"
        and z: "z < 64" "c = char_of (128 + z)"
        using lead_payload [OF 2(2,3)] is_cont_payload [of b] is_cont_payload [of c] cb by auto
      have "u = (x * 64 + y) * 64 + z" "0x800 \<le> (x * 64 + y) * 64 + z"
        using assms utf8_head_payload(2) [OF x(1) y(1) z(1), of r]
        by (auto simp: s cs x(2) y(2) z(2) Let_def utf8_bad_def simp del: distrib_right_numeral split: if_splits)
      then show ?thesis
        using goal [of u r] scal utf8_of_digits(2) [of x y z] x y z s cs by simp
    next
      case 3
      then obtain b c d r where cs: "cs = b # c # d # r"
        using C(2) by (cases cs; cases "tl cs"; cases "tl (tl cs)") auto
      have cb: "is_cont b" "is_cont c" "is_cont d"
        using C(1) 3(1) cs by (auto dest: spec [of _ 0] spec [of _ 1] spec [of _ 2])
      obtain x y z w :: nat where x: "x < 8" "a = char_of (240 + x)" and y: "y < 64" "b = char_of (128 + y)"
        and z: "z < 64" "c = char_of (128 + z)" and w: "w < 64" "d = char_of (128 + w)"
        using lead_payload [OF 3(2,3)] is_cont_payload [of b] is_cont_payload [of c] is_cont_payload [of d]
          cb by auto
      have "u = ((x * 64 + y) * 64 + z) * 64 + w" "0x10000 \<le> ((x * 64 + y) * 64 + z) * 64 + w"
        using assms utf8_head_payload(3) [OF x(1) y(1) z(1) w(1), of r]
        by (auto simp: s cs x(2) y(2) z(2) w(2) Let_def utf8_bad_def simp del: distrib_right_numeral split: if_splits)
      then show ?thesis
        using goal [of u r] scal utf8_of_digits(3) [of x y z w] x y z w s cs by simp
    qed
  qed
qed

section \<open>The validator and the definition of UTF-8\<close>

lemma utf8_of_nonempty [simp]: "utf8_of u \<noteq> []"
  by (simp add: utf8_of_def)

lemma utf8_text_Nil: "utf8_text []"
  by (auto simp: utf8_text_def intro: exI [of _ "[]"])

lemma utf8_text_step: "is_scalar u \<Longrightarrow> utf8_text r \<Longrightarrow> utf8_text (utf8_of u @ r)"
  unfolding utf8_text_def by (metis concat.simps(2) list.simps(9) set_ConsD)

lemma isValidUTF8_encoded: "is_scalar u \<Longrightarrow> isValidUTF8 (utf8_of u @ r) = isValidUTF8 r"
  by (subst isValidUTF8_head) (simp_all add: utf8_head_encode)

lemma isValidUTF8_iff: "isValidUTF8 s \<longleftrightarrow> utf8_text s"
proof
  show "isValidUTF8 s \<Longrightarrow> utf8_text s"
  proof (induction "length s" arbitrary: s rule: less_induct)
    case less
    show ?case
    proof (cases "s = []")
      case True
      then show ?thesis by (simp add: utf8_text_Nil)
    next
      case False
      with less.prems obtain n u where h: "utf8_head s = Some (n, u)"
        by (auto simp: isValidUTF8_head split: option.splits)
      then obtain r where r: "is_scalar u" "s = utf8_of u @ r" using utf8_head_decode by blast
      then have "isValidUTF8 r" "length r < length s" using less.prems isValidUTF8_encoded by auto
      then show ?thesis using less.hyps utf8_text_step r by blast
    qed
  qed
next
  assume "utf8_text s"
  then obtain us where "\<forall>u \<in> set us. is_scalar u" "s = concat (map utf8_of us)"
    by (auto simp: utf8_text_def)
  then show "isValidUTF8 s"
    by (induction us arbitrary: s) (simp_all add: isValidUTF8_encoded)
qed

section \<open>The sanitizer\<close>

lemma sanitize_correct:
  "isValidUTF8 (sanitizeUTF8 s) \<and> length (sanitizeUTF8 s) = length s \<and> (isValidUTF8 s \<longrightarrow> sanitizeUTF8 s = s)"
proof (induction "length s" arbitrary: s rule: less_induct)
  case less
  show ?case
  proof (cases "s = []")
    case False
    show ?thesis
    proof (cases "utf8_head s")
      case None
      have q: "CHR ''?'' # t = utf8_of 63 @ t" "is_scalar 63" for t
        using char_of_char [of "CHR ''?''", where 'a = nat] by (simp_all add: utf8_of_def is_scalar_def)
      have "length (tl s) < length s" using False by simp
      from less.hyps [OF this] show ?thesis
        using False None isValidUTF8_encoded [OF q(2)]
        by (simp add: sanitizeUTF8_head isValidUTF8_head q(1) [symmetric] Suc_diff_1)
    next
      case (Some h)
      obtain n u where h: "h = (n, u)" by (cases h)
      then obtain r where r: "is_scalar u" "n = length (utf8_of u)" "s = utf8_of u @ r"
        using utf8_head_decode Some by blast
      then have "length r < length s" by simp
      from less.hyps [OF this] show ?thesis
        using False Some h r isValidUTF8_encoded [OF r(1)] by (simp add: sanitizeUTF8_head)
    qed
  qed simp
qed

section \<open>The message cleaner\<close>

lemma shift_ranges:
  "drop_bit 7 (byte_val c) = 0 \<longleftrightarrow> byte_val c < 128"
  "drop_bit 6 (byte_val c) = 2 \<longleftrightarrow> 128 \<le> byte_val c \<and> byte_val c < 192"
  "drop_bit 5 (byte_val c) = 6 \<longleftrightarrow> 192 \<le> byte_val c \<and> byte_val c < 224"
  "drop_bit 4 (byte_val c) = 14 \<longleftrightarrow> 224 \<le> byte_val c \<and> byte_val c < 240"
  "drop_bit 3 (byte_val c) = 30 \<longleftrightarrow> 240 \<le> byte_val c \<and> byte_val c < 248"
  using div_block [of 64 "byte_val c" 2] div_block [of 32 "byte_val c" 6]
    div_block [of 16 "byte_val c" 14] div_block [of 8 "byte_val c" 30]
  by (simp_all add: drop_bit_eq_div div_eq_0_iff)

text \<open>The sequence at the head of a text, and the cleaner over suffixes.\<close>

definition head_nbytes :: "string \<Rightarrow> int" where
  "head_nbytes s = get_utf8_nbytes_char s 0"

lemma nbytes_drop: "pos \<le> length s \<Longrightarrow> get_utf8_nbytes_char s pos = head_nbytes (drop pos s)"
proof (cases "pos < length s")
  case True
  then have "drop pos s ! 0 = s ! pos" "drop 1 (drop pos s) = drop (pos + 1) s"
    "\<And>n. (n > length (drop pos s)) = (pos + n > length s)"
    by (auto simp: add.commute)
  with True show ?thesis
    unfolding head_nbytes_def get_utf8_nbytes_char_def Let_def add_0
    by (simp cong: option.case_cong)
qed (simp add: head_nbytes_def get_utf8_nbytes_char_def)

definition lead_size :: "char \<Rightarrow> nat" where
  "lead_size c = (if byte_val c < 128 then 1 else utf8_num_bytes (byte_val c))"

text \<open>A whole sequence as the cleaner sees one: a leading byte and its continuations.\<close>

definition loose_char :: "string \<Rightarrow> bool" where
  "loose_char w \<longleftrightarrow> w \<noteq> [] \<and> lead_size (hd w) = length w \<and> (\<forall>c \<in> set (tl w). is_cont c)"

lemma first_bad_cont_None:
  "n \<le> length cs \<Longrightarrow> first_bad_cont cs n i = None \<longleftrightarrow> (\<forall>c \<in> set (take n cs). is_cont c)"
  by (induction cs n i rule: first_bad_cont.induct) (auto simp: shift_ranges is_cont_def)

lemma head_nbytes_pos_iff:
  "head_nbytes s = int n \<and> 0 < n \<longleftrightarrow> n \<le> length s \<and> loose_char (take n s)"
proof (cases s)
  case Nil
  then show ?thesis by (auto simp: head_nbytes_def get_utf8_nbytes_char_def loose_char_def)
next
  case (Cons c cs)
  let ?m = "lead_size c"
  have hn: "head_nbytes s = (if byte_val c < 128 then 1 else if ?m = 0 \<or> ?m > length s then -1
      else case first_bad_cont cs (?m - 1) 1 of Some i \<Rightarrow> - (int i + 1) | None \<Rightarrow> int ?m)"
    using Cons by (cases "byte_val c < 128")
      (simp_all add: head_nbytes_def get_utf8_nbytes_char_def Let_def shift_ranges lead_size_def
        cong: option.case_cong)
  have m1: "byte_val c < 128 \<Longrightarrow> ?m = 1" by (simp add: lead_size_def)
  show ?thesis
  proof
    assume h: "head_nbytes s = int n \<and> 0 < n"
    show "n \<le> length s \<and> loose_char (take n s)"
    proof (cases "byte_val c < 128")
      case True
      with h hn have "n = 1" by simp
      then show ?thesis using Cons m1 True by (simp add: loose_char_def)
    next
      case False
      then have m: "?m \<noteq> 0" "?m \<le> length s" "first_bad_cont cs (?m - 1) 1 = None" "n = ?m"
        using h hn by (auto split: if_splits option.splits)
      have "\<forall>d \<in> set (take (?m - 1) cs). is_cont d"
        using m first_bad_cont_None [of "?m - 1" cs 1] Cons by simp
      then show ?thesis using m Cons by (auto simp: loose_char_def take_Cons')
    qed
  next
    assume l: "n \<le> length s \<and> loose_char (take n s)"
    then have n: "0 < n" "?m = n" and ct: "\<forall>d \<in> set (take (n - 1) cs). is_cont d"
      using Cons by (auto simp: loose_char_def take_Cons' split: if_splits)
    show "head_nbytes s = int n \<and> 0 < n"
    proof (cases "byte_val c < 128")
      case True
      then show ?thesis using hn m1 n by simp
    next
      case False
      have "n - 1 \<le> length cs" using l Cons by auto
      then have "first_bad_cont cs (n - 1) 1 = None" using first_bad_cont_None ct by blast
      then show ?thesis using False hn n l by simp
    qed
  qed
qed

lemma head_nbytes_loose: "loose_char w \<Longrightarrow> head_nbytes (w @ r) = int (length w)"
  using head_nbytes_pos_iff [of "w @ r" "length w"] by simp

lemma head_nbytes_nonzero: "s \<noteq> [] \<Longrightarrow> head_nbytes s \<noteq> 0"
  using utf8_nbytes_nonzero [of 0 s] by (simp add: head_nbytes_def)

lemma head_nbytes_skip: "s \<noteq> [] \<Longrightarrow> \<not> 0 < head_nbytes s \<Longrightarrow> 0 < nat (- head_nbytes s)"
  using head_nbytes_nonzero [of s] by simp

text \<open>The loop over the suffix that is left.\<close>

function clean_utf8 :: "string \<Rightarrow> string" where
  "clean_utf8 s = (if s = [] then []
     else if head_nbytes s > 0 then take (nat (head_nbytes s)) s @ clean_utf8 (drop (nat (head_nbytes s)) s)
     else clean_utf8 (drop (nat (- head_nbytes s)) s))"
  by pat_completeness auto

termination
  by (relation "measure length") (use head_nbytes_skip in auto)

declare clean_utf8.simps [simp del]

lemma clean_utf8_Nil [simp]: "clean_utf8 [] = []"
  by (simp add: clean_utf8.simps)

lemma clean_from_drop: "pos \<le> length s \<Longrightarrow> clean_from s pos = clean_utf8 (drop pos s)"
proof (induction "length s - pos" arbitrary: pos rule: less_induct)
  case less
  show ?case
  proof (cases "pos < length s")
    case True
    let ?n = "head_nbytes (drop pos s)" and ?t = "drop pos s"
    have n: "get_utf8_nbytes_char s pos = ?n" using less.prems nbytes_drop by simp
    have t: "?t \<noteq> []" using True by simp
    have n0: "?n \<noteq> 0" by (rule head_nbytes_nonzero [OF t])
    have step: "clean_from s (pos + k) = clean_utf8 (drop k ?t)" if "0 < k" for k
    proof (cases "pos + k \<le> length s")
      case True
      then show ?thesis using less.hyps [of "pos + k"] that by (simp add: add.commute)
    next
      case False
      then show ?thesis by (simp add: clean_from.simps clean_utf8.simps)
    qed
    show ?thesis
      using True n n0 t step [of "nat ?n"] step [of "nat (- ?n)"]
      by (simp add: clean_from.simps [of s pos] clean_utf8.simps [of ?t] substr_def Let_def)
  qed (simp add: clean_from.simps clean_utf8.simps)
qed

lemma get_clean_utf8_suffix: "get_clean_utf8 s = clean_utf8 s"
  using clean_from_drop [of 0 s] by (simp add: get_clean_utf8_def)

lemma clean_loose: "loose_char w \<Longrightarrow> clean_utf8 (w @ r) = w @ clean_utf8 r"
  using head_nbytes_loose [of w r] by (subst clean_utf8.simps) (auto simp: loose_char_def)

lemma clean_is_loose: "\<exists>ws. (\<forall>w \<in> set ws. loose_char w) \<and> clean_utf8 s = concat ws"
proof (induction s rule: clean_utf8.induct)
  case (1 s)
  show ?case
  proof (cases "s = []")
    case True
    then show ?thesis by (intro exI [of _ "[]"]) (simp add: clean_utf8.simps)
  next
    case False
    show ?thesis
    proof (cases "head_nbytes s > 0")
      case True
      then have l: "loose_char (take (nat (head_nbytes s)) s)"
        using head_nbytes_pos_iff [of s "nat (head_nbytes s)"] by simp
      obtain ws where "\<forall>w \<in> set ws. loose_char w" "clean_utf8 (drop (nat (head_nbytes s)) s) = concat ws"
        using 1(1) False True by blast
      then show ?thesis using l False True
        by (intro exI [of _ "take (nat (head_nbytes s)) s # ws"]) (simp add: clean_utf8.simps [of s])
    next
      case ge: False
      then show ?thesis using 1(2) False by (simp add: clean_utf8.simps [of s])
    qed
  qed
qed

lemma clean_concat: "\<forall>w \<in> set ws. loose_char w \<Longrightarrow> clean_utf8 (concat ws) = concat ws"
  by (induction ws) (simp_all add: clean_loose)

lemma clean_clean [simp]: "get_clean_utf8 (get_clean_utf8 s) = get_clean_utf8 s"
  using clean_is_loose [of s] clean_concat by (auto simp: get_clean_utf8_suffix)

lemma num_bytes_lead:
  "\<not> byte_val c < 128 \<Longrightarrow> utf8_lead (byte_val c) = Some (extra, cp) \<Longrightarrow> lead_size c = Suc extra"
  by (auto simp: utf8_lead_byte lead_size_def utf8_num_bytes_def shift_ranges split: if_splits)

lemma loose_utf8_of:
  assumes "is_scalar u"
  shows "loose_char (utf8_of u)"
proof -
  let ?w = "utf8_of u"
  have h: "utf8_head ?w = Some (length ?w, u)" using utf8_head_encode [OF assms, of "[]"] by simp
  obtain a cs where w: "?w = a # cs" by (meson utf8_of_nonempty list.exhaust)
  show ?thesis
  proof (cases "byte_val a < 128")
    case True
    then show ?thesis using h w by (simp add: utf8_head_def loose_char_def lead_size_def)
  next
    case False
    then obtain extra cp0 where l: "utf8_lead (byte_val a) = Some (extra, cp0)"
      and c: "utf8_conts cs extra cp0 = Some u" and n: "Suc extra = length ?w"
      using h w by (auto simp: utf8_head_def split: option.splits if_splits)
    have "\<forall>d \<in> set cs. is_cont d" using conts_are_cont [OF c] n w by (auto simp: in_set_conv_nth)
    then show ?thesis using num_bytes_lead [OF False l] n w by (simp add: loose_char_def)
  qed
qed

lemma clean_valid: "isValidUTF8 s \<Longrightarrow> get_clean_utf8 s = s"
proof -
  assume "isValidUTF8 s"
  then obtain us where us: "\<forall>u \<in> set us. is_scalar u" "s = concat (map utf8_of us)"
    unfolding isValidUTF8_iff utf8_text_def by blast
  have "\<forall>w \<in> set (map utf8_of us). loose_char w" using us(1) loose_utf8_of by simp
  from clean_concat [OF this] show ?thesis using us(2) by (simp add: get_clean_utf8_suffix)
qed

lemma clean_fixed_iff: "get_clean_utf8 s = s \<longleftrightarrow> (\<exists>ws. (\<forall>w \<in> set ws. loose_char w) \<and> s = concat ws)"
  using clean_is_loose [of s] clean_concat unfolding get_clean_utf8_suffix by metis

lemma length_clean: "length (clean_utf8 s) \<le> length s"
proof (induction s rule: clean_utf8.induct)
  case (1 s)
  let ?n = "head_nbytes s"
  show ?case
  proof (cases "s = []")
    case False
    show ?thesis
    proof (cases "?n > 0")
      case True
      then have "nat ?n \<le> length s" using head_nbytes_pos_iff [of s "nat ?n"] by simp
      then show ?thesis using 1(1) [OF False True] False True by (simp add: clean_utf8.simps [of s])
    next
      case ge: False
      have "length (drop (nat (- ?n)) s) \<le> length s" by simp
      then show ?thesis using 1(2) [OF False ge] False ge by (simp add: clean_utf8.simps [of s])
    qed
  qed (simp add: clean_utf8.simps)
qed

section \<open>Filters\<close>

text \<open>The contract both filters give their callers.\<close>

locale text_filter =
  fixes good :: "string \<Rightarrow> bool"
    and scrub :: "string \<Rightarrow> string"
  assumes scrub_good: "good (scrub s)"
    and scrub_id: "good s \<Longrightarrow> scrub s = s"
    and scrub_length: "length (scrub s) \<le> length s"
begin

lemma scrub_idem: "scrub (scrub s) = scrub s"
  using scrub_good scrub_id by blast

lemma scrub_fixed_iff: "scrub s = s \<longleftrightarrow> good s"
  using scrub_good [of s] scrub_id [of s] by metis

text \<open>Guarding with the test first, as \<open>webSocket::send\<close> does, is the filter itself.\<close>

lemma guarded_scrub: "(if \<not> good s then scrub s else s) = scrub s"
  using scrub_id by simp

end

interpretation ws_text: text_filter isValidUTF8 sanitizeUTF8
  by unfold_locales (use sanitize_correct in auto)

interpretation message_text: text_filter "\<lambda>s. get_clean_utf8 s = s" get_clean_utf8
  by unfold_locales (simp, simp, simp add: get_clean_utf8_suffix length_clean)

section \<open>Properties\<close>

text \<open>
  C40: the websocket validator accepts exactly the UTF-8 of RFC 3629: concatenations of the shortest
  encodings of scalar values, so no overlong form, surrogate or value past U+10FFFF passes.
\<close>

theorem isValidUTF8_correct:
  "isValidUTF8 s \<longleftrightarrow> (\<exists>us. (\<forall>u \<in> set us. is_scalar u) \<and> s = concat (map utf8_of us))"
  using isValidUTF8_iff by (simp add: utf8_text_def)

theorem isValidUTF8_correct_witness:
  "isValidUTF8 (utf8_of 0x20AC) \<and> (\<exists>us. (\<forall>u \<in> set us. is_scalar u) \<and> utf8_of 0x20AC = concat (map utf8_of us))"
proof -
  have "\<exists>us. (\<forall>u \<in> set us. is_scalar u) \<and> utf8_of 0x20AC = concat (map utf8_of us)"
    by (rule exI [of _ "[0x20AC]"]) (simp add: is_scalar_def)
  then show ?thesis using isValidUTF8_correct by blast
qed

text \<open>
  \<open>sanitizeUTF8\<close> always produces valid UTF-8 of exactly the size of its input, leaves valid text
  alone, and changes nothing on a second pass.
\<close>

theorem sanitizeUTF8_correct:
  "isValidUTF8 (sanitizeUTF8 s) \<and> length (sanitizeUTF8 s) = length s
   \<and> (sanitizeUTF8 s = s \<longleftrightarrow> isValidUTF8 s) \<and> sanitizeUTF8 (sanitizeUTF8 s) = sanitizeUTF8 s"
  using sanitize_correct ws_text.scrub_fixed_iff ws_text.scrub_idem by simp

text \<open>
  The cleaner of the JSON and XML messages never lengthens a text, is idempotent, and returns
  every valid UTF-8 text unchanged, so a clean message is never altered on its way.
\<close>

theorem get_clean_utf8_correct:
  "length (get_clean_utf8 s) \<le> length s \<and> get_clean_utf8 (get_clean_utf8 s) = get_clean_utf8 s
   \<and> (utf8_text s \<longrightarrow> get_clean_utf8 s = s)"
  using message_text.scrub_length message_text.scrub_idem clean_valid isValidUTF8_iff by simp

theorem get_clean_utf8_correct_witness:
  "utf8_text (utf8_of 0x20AC) \<and> get_clean_utf8 (utf8_of 0x20AC) = utf8_of 0x20AC"
proof -
  have "utf8_text (utf8_of 0x20AC @ [])" by (rule utf8_text_step) (simp_all add: utf8_text_Nil is_scalar_def)
  then show ?thesis using get_clean_utf8_correct [of "utf8_of 0x20AC"] by simp
qed

end
