(* ===== verification/Vplregex.thy ===== *)
theory Vplregex
  imports Prelude
begin

text \<open>
  The class \<open>vplregex\<close> (vplregex.h): a thin wrapper of the C library's \<open>regcomp\<close> and \<open>regexec\<close>.
  The patterns of the program are terms of type \<open>regex\<close>, in the order of their POSIX text; an
  executable matcher lists every way a pattern can match from a position, in greedy order, and a
  search takes the leftmost start and there the first of the longest matches, as POSIX prescribes.
  The matcher is proved equal to a declarative relation (\<open>rx_run\<close>) with no fuel in it, and the
  search to be leftmost and longest with respect to that relation.
\<close>

section \<open>Patterns\<close>

datatype regex =
    Eps
  | Bol
  | Eol
  | AnyChar
  | Cls "char \<Rightarrow> bool"
  | NotCls "char \<Rightarrow> bool"
  | Seq regex regex
  | Alt regex regex
  | Star regex
  | Grp nat regex

definition Plus :: "regex \<Rightarrow> regex" where "Plus r = Seq r (Star r)"
definition Opt :: "regex \<Rightarrow> regex" where "Opt r = Alt r Eps"
definition Chr :: "char \<Rightarrow> regex" where "Chr c = Cls (\<lambda>d. d = c)"
definition OneOf :: "string \<Rightarrow> regex" where "OneOf cs = Cls (\<lambda>d. d \<in> set cs)"
definition NoneOf :: "string \<Rightarrow> regex" where "NoneOf cs = NotCls (\<lambda>d. d \<in> set cs)"

fun Lit :: "string \<Rightarrow> regex" where
  "Lit [] = Eps"
| "Lit (c # cs) = Seq (Chr c) (Lit cs)"

fun seqs :: "regex list \<Rightarrow> regex" where
  "seqs [] = Eps"
| "seqs [r] = r"
| "seqs (r # rs) = Seq r (seqs rs)"

fun alts :: "regex list \<Rightarrow> regex" where
  "alts [] = NotCls (\<lambda>_. True)"
| "alts [r] = r"
| "alts (r # rs) = Alt r (alts rs)"

definition Digits :: regex where "Digits = Plus (Cls is_digit)"

text \<open>
  A compiled pattern: the flags the constructors pass to \<open>regcomp\<close>. \<open>REG_EXTENDED\<close> is always
  set; \<open>REG_NEWLINE\<close> and \<open>REG_ICASE\<close> only by the second constructor.
\<close>

record vplregex =
  rx_newline :: bool
  rx_icase :: bool
  rx_pattern :: regex

definition vplregex_extended :: "regex \<Rightarrow> vplregex" where
  "vplregex_extended r = \<lparr>rx_newline = False, rx_icase = False, rx_pattern = r\<rparr>"

definition vplregex_icase_newline :: "regex \<Rightarrow> vplregex" where
  "vplregex_icase_newline r = \<lparr>rx_newline = True, rx_icase = True, rx_pattern = r\<rparr>"

section \<open>The matcher\<close>

type_synonym caps = "nat \<Rightarrow> (nat \<times> nat) option"

definition swap_case :: "char \<Rightarrow> char" where
  "swap_case c = (if 97 \<le> byte_val c \<and> byte_val c \<le> 122 then char_of (byte_val c - 32)
     else if 65 \<le> byte_val c \<and> byte_val c \<le> 90 then char_of (byte_val c + 32) else c)"

definition in_class :: "vplregex \<Rightarrow> (char \<Rightarrow> bool) \<Rightarrow> char \<Rightarrow> bool" where
  "in_class x p c \<longleftrightarrow> p c \<or> (rx_icase x \<and> p (swap_case c))"

definition at_line_start :: "vplregex \<Rightarrow> string \<Rightarrow> nat \<Rightarrow> bool" where
  "at_line_start x s i \<longleftrightarrow> i = 0 \<or> (rx_newline x \<and> s ! (i - 1) = lf)"

definition at_line_end :: "vplregex \<Rightarrow> string \<Rightarrow> nat \<Rightarrow> bool" where
  "at_line_end x s i \<longleftrightarrow> i = length s \<or> (rx_newline x \<and> s ! i = lf)"

definition step_char :: "(char \<Rightarrow> bool) \<Rightarrow> string \<Rightarrow> nat \<Rightarrow> caps \<Rightarrow> (nat \<times> caps) list" where
  "step_char p s i c = (if i < length s \<and> p (s ! i) then [(Suc i, c)] else [])"

primrec rx_star :: "(nat \<Rightarrow> caps \<Rightarrow> (nat \<times> caps) list) \<Rightarrow> nat \<Rightarrow> nat \<Rightarrow> caps \<Rightarrow> (nat \<times> caps) list" where
  "rx_star f 0 i c = [(i, c)]"
| "rx_star f (Suc n) i c =
     concat (map (\<lambda>(j, c'). if i < j then rx_star f n j c' else []) (f i c)) @ [(i, c)]"

primrec rx_ends :: "vplregex \<Rightarrow> string \<Rightarrow> regex \<Rightarrow> nat \<Rightarrow> caps \<Rightarrow> (nat \<times> caps) list" where
  "rx_ends x s Eps i c = [(i, c)]"
| "rx_ends x s Bol i c = (if at_line_start x s i then [(i, c)] else [])"
| "rx_ends x s Eol i c = (if at_line_end x s i then [(i, c)] else [])"
| "rx_ends x s AnyChar i c = step_char (\<lambda>d. \<not> (rx_newline x \<and> d = lf)) s i c"
| "rx_ends x s (Cls p) i c = step_char (in_class x p) s i c"
| "rx_ends x s (NotCls p) i c = step_char (\<lambda>d. \<not> in_class x p d \<and> \<not> (rx_newline x \<and> d = lf)) s i c"
| "rx_ends x s (Seq a b) i c = concat (map (\<lambda>(j, c'). rx_ends x s b j c') (rx_ends x s a i c))"
| "rx_ends x s (Alt a b) i c = rx_ends x s a i c @ rx_ends x s b i c"
| "rx_ends x s (Star a) i c = rx_star (rx_ends x s a) (length s - i) i c"
| "rx_ends x s (Grp k a) i c = map (\<lambda>(j, c'). (j, c'(k \<mapsto> (i, j)))) (rx_ends x s a i c)"

text \<open>The first of the longest, and the leftmost start that has a match.\<close>

definition longest :: "(nat \<times> caps) \<Rightarrow> (nat \<times> caps) list \<Rightarrow> nat \<times> caps" where
  "longest m ms = foldl (\<lambda>b n. if fst b < fst n then n else b) m ms"

definition rx_at :: "vplregex \<Rightarrow> string \<Rightarrow> nat \<Rightarrow> (nat \<times> caps) option" where
  "rx_at x s i = (case rx_ends x s (rx_pattern x) i Map.empty of
      [] \<Rightarrow> None
    | m # ms \<Rightarrow> Some (longest m ms))"

fun rx_first :: "vplregex \<Rightarrow> string \<Rightarrow> nat list \<Rightarrow> (nat \<times> nat \<times> caps) option" where
  "rx_first x s [] = None"
| "rx_first x s (i # is) = (case rx_at x s i of
      None \<Rightarrow> rx_first x s is
    | Some (j, c) \<Rightarrow> Some (i, j, c))"

definition regexec :: "vplregex \<Rightarrow> string \<Rightarrow> (nat \<times> nat \<times> caps) option" where
  "regexec x s = rx_first x s [0..<Suc (length s)]"

definition max_match :: nat where "max_match = 10"

definition group_text :: "string \<Rightarrow> nat \<Rightarrow> nat \<Rightarrow> caps \<Rightarrow> nat \<Rightarrow> string" where
  "group_text input i j c k =
     (if k = 0 then substr input i (j - i)
      else if k < max_match then
        (case c k of None \<Rightarrow> [] | Some (a, b) \<Rightarrow> substr input a (b - a))
      else [])"

text \<open>
  \<open>vplregex::search\<close>: \<open>limit\<close> is the size of the caller's \<open>found\<close>; \<open>None\<close> is the return value
  false, which leaves \<open>found\<close> as it was. \<open>regexec\<close> reads the C string, up to the first zero byte.
\<close>

definition vplregex_search :: "vplregex \<Rightarrow> string \<Rightarrow> nat \<Rightarrow> string list option" where
  "vplregex_search x input limit = (case regexec x (c_str input) of
      None \<Rightarrow> None
    | Some (i, j, c) \<Rightarrow> Some (map (group_text input i j c) [0..<limit]))"

definition rx_found :: "vplregex \<Rightarrow> string \<Rightarrow> bool" where
  "rx_found x input \<longleftrightarrow> vplregex_search x input 1 \<noteq> None"

section \<open>The relation the matcher decides\<close>

inductive star_run :: "(nat \<Rightarrow> caps \<Rightarrow> nat \<Rightarrow> caps \<Rightarrow> bool) \<Rightarrow> nat \<Rightarrow> caps \<Rightarrow> nat \<Rightarrow> caps \<Rightarrow> bool"
  for R where
  star_stop: "star_run R i c i c"
| star_more: "R i c j c' \<Longrightarrow> i < j \<Longrightarrow> star_run R j c' k c'' \<Longrightarrow> star_run R i c k c''"

primrec rx_run :: "vplregex \<Rightarrow> string \<Rightarrow> regex \<Rightarrow> nat \<Rightarrow> caps \<Rightarrow> nat \<Rightarrow> caps \<Rightarrow> bool" where
  "rx_run x s Eps i c j c' \<longleftrightarrow> j = i \<and> c' = c"
| "rx_run x s Bol i c j c' \<longleftrightarrow> j = i \<and> c' = c \<and> at_line_start x s i"
| "rx_run x s Eol i c j c' \<longleftrightarrow> j = i \<and> c' = c \<and> at_line_end x s i"
| "rx_run x s AnyChar i c j c' \<longleftrightarrow>
     j = Suc i \<and> c' = c \<and> i < length s \<and> \<not> (rx_newline x \<and> s ! i = lf)"
| "rx_run x s (Cls p) i c j c' \<longleftrightarrow> j = Suc i \<and> c' = c \<and> i < length s \<and> in_class x p (s ! i)"
| "rx_run x s (NotCls p) i c j c' \<longleftrightarrow>
     j = Suc i \<and> c' = c \<and> i < length s \<and> \<not> in_class x p (s ! i) \<and> \<not> (rx_newline x \<and> s ! i = lf)"
| "rx_run x s (Seq a b) i c j c' \<longleftrightarrow> (\<exists>k d. rx_run x s a i c k d \<and> rx_run x s b k d j c')"
| "rx_run x s (Alt a b) i c j c' \<longleftrightarrow> rx_run x s a i c j c' \<or> rx_run x s b i c j c'"
| "rx_run x s (Star a) i c j c' \<longleftrightarrow> star_run (rx_run x s a) i c j c'"
| "rx_run x s (Grp k a) i c j c' \<longleftrightarrow> (\<exists>d. rx_run x s a i c j d \<and> c' = d(k \<mapsto> (i, j)))"

lemma star_run_bounds:
  assumes "star_run R i c j c'"
    and "\<And>i c j c'. R i c j c' \<Longrightarrow> i \<le> n \<Longrightarrow> j \<le> n"
    and "i \<le> n"
  shows "i \<le> j \<and> j \<le> n"
  using assms by (induction rule: star_run.induct) (meson le_trans less_imp_le order_refl | simp)+

lemma rx_run_bounds: "rx_run x s r i c j c' \<Longrightarrow> i \<le> length s \<Longrightarrow> i \<le> j \<and> j \<le> length s"
proof (induction r arbitrary: i c j c')
  case (Seq a b)
  then show ?case by (meson le_trans rx_run.simps(7))
next
  case (Star a)
  then show ?case by (auto dest!: star_run_bounds [where n = "length s"])
qed auto

text \<open>Enough fuel: each round of the loop consumes a byte, and only \<open>length s - i\<close> are left.\<close>

lemma rx_star_set:
  assumes f: "\<And>i c. i \<le> len \<Longrightarrow> set (f i c) = {(j, c'). R i c j c'}"
    and bd: "\<And>i c j c'. R i c j c' \<Longrightarrow> i \<le> len \<Longrightarrow> j \<le> len"
  shows "i \<le> len \<Longrightarrow> len - i \<le> n \<Longrightarrow> (k, d) \<in> set (rx_star f n i c) \<longleftrightarrow> star_run R i c k d"
proof (induction n arbitrary: i c)
  case 0
  then have i: "i = len" by simp
  show ?case
  proof
    assume "(k, d) \<in> set (rx_star f 0 i c)"
    then show "star_run R i c k d" by (simp add: star_stop)
  next
    assume "star_run R i c k d"
    then show "(k, d) \<in> set (rx_star f 0 i c)"
    proof cases
      case (star_more j c')
      with bd [OF star_more(1)] i show ?thesis by simp
    qed simp
  qed
next
  case (Suc n)
  have IH: "(k, d) \<in> set (rx_star f n j c') \<longleftrightarrow> star_run R j c' k d"
    if "R i c j c'" "i < j" for j c'
    using that Suc.prems bd [OF that(1)] by (intro Suc.IH) auto
  have "(k, d) \<in> set (rx_star f (Suc n) i c) \<longleftrightarrow>
      (\<exists>j c'. R i c j c' \<and> i < j \<and> (k, d) \<in> set (rx_star f n j c')) \<or> (k, d) = (i, c)"
    using f [OF Suc.prems(1), of c] by (auto split: if_splits)
  also have "\<dots> \<longleftrightarrow> (\<exists>j c'. R i c j c' \<and> i < j \<and> star_run R j c' k d) \<or> (k, d) = (i, c)"
    using IH by blast
  also have "\<dots> \<longleftrightarrow> star_run R i c k d"
    by (subst star_run.simps) auto
  finally show ?case .
qed

lemma rx_ends_set: "i \<le> length s \<Longrightarrow> set (rx_ends x s r i c) = {(j, c'). rx_run x s r i c j c'}"
proof (induction r arbitrary: i c)
  case (Seq a b)
  have b: "set (rx_ends x s b j d) = {(k, e). rx_run x s b j d k e}" if "rx_run x s a i c j d" for j d
    using rx_run_bounds [OF that Seq.prems] by (intro Seq.IH(2)) simp
  have "set (rx_ends x s (Seq a b) i c) =
      (\<Union>(j, d) \<in> {(j, d). rx_run x s a i c j d}. set (rx_ends x s b j d))"
    using Seq.IH(1) [OF Seq.prems, of c] by auto
  also have "\<dots> = (\<Union>(j, d) \<in> {(j, d). rx_run x s a i c j d}. {(k, e). rx_run x s b j d k e})"
    using b by auto
  also have "\<dots> = {(k, e). rx_run x s (Seq a b) i c k e}" by auto
  finally show ?case .
next
  case (Star a)
  have "(j, d) \<in> set (rx_star (rx_ends x s a) (length s - i) i c) \<longleftrightarrow> star_run (rx_run x s a) i c j d"
    for j d
    by (rule rx_star_set [where len = "length s"]) (use Star rx_run_bounds in auto)
  then show ?case by auto
next
  case (Alt a b)
  then show ?case by auto
next
  case (Grp k a)
  then show ?case by (auto simp: image_iff)
qed (auto simp: step_char_def)

section \<open>Search: leftmost and longest\<close>

lemma longest_in: "longest m ms \<in> set (m # ms)"
proof (induction ms arbitrary: m)
  case (Cons a ms)
  have "longest m (a # ms) = longest (if fst m < fst a then a else m) ms"
    by (simp add: longest_def)
  with Cons [of "if fst m < fst a then a else m"] show ?case by (auto split: if_splits)
qed (simp add: longest_def)

lemma longest_max: "n \<in> set (m # ms) \<Longrightarrow> fst n \<le> fst (longest m ms)"
proof (induction ms arbitrary: m n)
  case (Cons a ms)
  let ?b = "if fst m < fst a then a else m"
  have e: "longest m (a # ms) = longest ?b ms" by (simp add: longest_def)
  have "fst ?b \<le> fst (longest ?b ms)" by (rule Cons.IH) simp
  with Cons.IH [of n ?b] Cons.prems show ?case unfolding e by (auto split: if_splits)
qed (simp add: longest_def)

lemma rx_at_None: "i \<le> length s \<Longrightarrow> rx_at x s i = None \<longleftrightarrow> (\<nexists>j c. rx_run x s (rx_pattern x) i Map.empty j c)"
proof -
  assume "i \<le> length s"
  then have "rx_ends x s (rx_pattern x) i Map.empty = [] \<longleftrightarrow>
      {(j, c). rx_run x s (rx_pattern x) i Map.empty j c} = {}"
    using rx_ends_set [of i s x "rx_pattern x" Map.empty] by (metis set_empty)
  then show ?thesis by (auto simp: rx_at_def split: list.splits)
qed

lemma rx_at_Some:
  assumes "rx_at x s i = Some (j, c)" and "i \<le> length s"
  shows "rx_run x s (rx_pattern x) i Map.empty j c"
    and "rx_run x s (rx_pattern x) i Map.empty j' c' \<Longrightarrow> j' \<le> j"
proof -
  let ?L = "rx_ends x s (rx_pattern x) i Map.empty"
  from assms(1) obtain m ms where L: "?L = m # ms" and l: "longest m ms = (j, c)"
    by (auto simp: rx_at_def split: list.splits)
  have set: "set (m # ms) = {(j, c'). rx_run x s (rx_pattern x) i Map.empty j c'}"
    using rx_ends_set [OF assms(2), of x "rx_pattern x" Map.empty] L by simp
  show "rx_run x s (rx_pattern x) i Map.empty j c"
    using longest_in [of m ms] unfolding l set by simp
  show "j' \<le> j" if "rx_run x s (rx_pattern x) i Map.empty j' c'"
    using longest_max [of "(j', c')" m ms] that unfolding l set by simp
qed

lemma rx_first_None: "rx_first x s is = None \<longleftrightarrow> (\<forall>i \<in> set is. rx_at x s i = None)"
  by (induction x s "is" rule: rx_first.induct) (auto split: option.splits)

lemma rx_first_Some:
  assumes "rx_first x s is = Some (i, j, c)" and "sorted_wrt (<) is"
  shows "i \<in> set is" and "rx_at x s i = Some (j, c)"
    and "k \<in> set is \<Longrightarrow> k < i \<Longrightarrow> rx_at x s k = None"
  using assms by (induction x s "is" rule: rx_first.induct) (auto split: option.splits)

lemma regexec_None:
  "regexec x s = None \<longleftrightarrow> (\<nexists>i j c. i \<le> length s \<and> rx_run x s (rx_pattern x) i Map.empty j c)"
proof -
  have "regexec x s = None \<longleftrightarrow> (\<forall>i \<le> length s. rx_at x s i = None)"
    unfolding regexec_def rx_first_None by (auto simp: less_Suc_eq_le simp del: upt_Suc)
  then show ?thesis using rx_at_None by auto
qed

lemma regexec_Some:
  assumes "regexec x s = Some (i, j, c)"
  shows "i \<le> length s" and "i \<le> j" and "j \<le> length s"
    and "rx_run x s (rx_pattern x) i Map.empty j c"
    and "rx_run x s (rx_pattern x) i Map.empty j' c' \<Longrightarrow> j' \<le> j"
    and "k < i \<Longrightarrow> \<not> rx_run x s (rx_pattern x) k Map.empty j' c'"
proof -
  have *: "rx_first x s [0..<Suc (length s)] = Some (i, j, c)" "sorted_wrt (<) [0..<Suc (length s)]"
    using assms sorted_wrt_upt by (simp_all add: regexec_def del: upt_Suc)
  note F = rx_first_Some [OF *]
  show i: "i \<le> length s" using F(1) by (simp add: less_Suc_eq_le del: upt_Suc)
  note A = rx_at_Some [OF F(2) i]
  show r: "rx_run x s (rx_pattern x) i Map.empty j c" by (rule A(1))
  show "i \<le> j" "j \<le> length s" using rx_run_bounds [OF r i] by simp_all
  show "j' \<le> j" if "rx_run x s (rx_pattern x) i Map.empty j' c'" using A(2) [OF that] .
  show "\<not> rx_run x s (rx_pattern x) k Map.empty j' c'" if "k < i"
  proof -
    have "rx_at x s k = None"
      using F(3) [of k] that i by (simp add: less_Suc_eq_le del: upt_Suc)
    then show ?thesis using rx_at_None [of k s x] that i by simp
  qed
qed

lemma vplregex_search_None:
  "vplregex_search x input n = None \<longleftrightarrow>
     (\<nexists>i j c. i \<le> length (c_str input) \<and> rx_run x (c_str input) (rx_pattern x) i Map.empty j c)"
  unfolding regexec_None [symmetric] by (auto simp: vplregex_search_def split: option.splits)

lemma rx_found_iff:
  "rx_found x input \<longleftrightarrow>
     (\<exists>i j c. i \<le> length (c_str input) \<and> rx_run x (c_str input) (rx_pattern x) i Map.empty j c)"
  by (simp add: rx_found_def vplregex_search_None)

lemma vplregex_search_found: "vplregex_search x input n \<noteq> None \<longleftrightarrow> rx_found x input"
  by (simp only: vplregex_search_None rx_found_iff not_not)

text \<open>
  The captures of a search are fixed once every run of the pattern over the subject that reaches
  the greatest end has the same captures; then no ordering of the alternatives needs to be known.
\<close>

lemma regexec_eqI:
  assumes run: "rx_run x s (rx_pattern x) i Map.empty j c" and i: "i \<le> length s"
    and left: "\<And>k j' c'. k < i \<Longrightarrow> \<not> rx_run x s (rx_pattern x) k Map.empty j' c'"
    and max: "\<And>j' c'. rx_run x s (rx_pattern x) i Map.empty j' c' \<Longrightarrow> j' \<le> j"
    and uniq: "\<And>c'. rx_run x s (rx_pattern x) i Map.empty j c' \<Longrightarrow> c' = c"
  shows "regexec x s = Some (i, j, c)"
proof (cases "regexec x s")
  case None
  then show ?thesis using run i regexec_None by blast
next
  case (Some r)
  obtain i' j' c' where r: "r = (i', j', c')" by (cases r) auto
  note R = regexec_Some [OF Some [unfolded r]]
  have "i' = i" using left R(4,6) run by (metis linorder_neqE_nat)
  moreover then have "j' = j" using max R(4,5) run by (metis le_antisym)
  ultimately show ?thesis using uniq R(4) Some r by simp
qed

section \<open>Runs of the pieces the patterns use\<close>

lemma in_class_extended [simp]: "in_class (vplregex_extended r) p = p"
  by (auto simp: in_class_def vplregex_extended_def)

lemma extended_simps [simp]:
  "rx_pattern (vplregex_extended r) = r" "rx_newline (vplregex_extended r) = False"
  "at_line_start (vplregex_extended r) s i \<longleftrightarrow> i = 0"
  "at_line_end (vplregex_extended r) s i \<longleftrightarrow> i = length s"
  by (auto simp: at_line_start_def at_line_end_def vplregex_extended_def)

text \<open>A star over a class: any stretch of bytes of the class, captures unchanged.\<close>

lemma star_run_class:
  assumes R: "\<And>i c j c'. R i c j c' \<longleftrightarrow> j = Suc i \<and> c' = c \<and> i < length s \<and> p (s ! i)"
  shows "star_run R i c j c' \<longleftrightarrow>
    c' = c \<and> i \<le> j \<and> (i = j \<or> j \<le> length s) \<and> (\<forall>k. i \<le> k \<and> k < j \<longrightarrow> p (s ! k))"
    (is "?L i c \<longleftrightarrow> ?C i c")
proof
  show "?L i c \<Longrightarrow> ?C i c"
  proof (induction rule: star_run.induct)
    case (star_more i c j c' k c'')
    from star_more.hyps(1) have j: "j = Suc i" "c' = c" "i < length s" "p (s ! i)"
      unfolding R by simp_all
    have "p (s ! m)" if "i \<le> m" "m < k" for m
      using that j star_more.IH by (cases "m = i") auto
    with j star_more.IH show ?case by auto
  qed auto
next
  show "?C i c \<Longrightarrow> ?L i c"
  proof (induction "j - i" arbitrary: i)
    case 0
    then show ?case by (simp add: star_stop)
  next
    case (Suc n)
    then have "star_run R (Suc i) c j c'" by (intro Suc.hyps) auto
    moreover have "R i c (Suc i) c" using Suc R by auto
    ultimately show ?case by (intro star_more [of R i c "Suc i" c]) auto
  qed
qed

lemma rx_run_star_Cls [simp]:
  "rx_run (vplregex_extended r) s (Star (Cls p)) i c j c' \<longleftrightarrow>
     c' = c \<and> i \<le> j \<and> (i = j \<or> j \<le> length s) \<and> (\<forall>k. i \<le> k \<and> k < j \<longrightarrow> p (s ! k))"
  by (simp, rule star_run_class) simp

lemma rx_run_star_NotCls [simp]:
  "rx_run (vplregex_extended r) s (Star (NotCls p)) i c j c' \<longleftrightarrow>
     c' = c \<and> i \<le> j \<and> (i = j \<or> j \<le> length s) \<and> (\<forall>k. i \<le> k \<and> k < j \<longrightarrow> \<not> p (s ! k))"
  by (simp, rule star_run_class) simp

lemma rx_run_star_Any [simp]:
  "rx_run (vplregex_extended r) s (Star AnyChar) i c j c' \<longleftrightarrow>
     c' = c \<and> i \<le> j \<and> (i = j \<or> j \<le> length s)"
proof -
  have "star_run (rx_run (vplregex_extended r) s AnyChar) i c j c' \<longleftrightarrow>
     c' = c \<and> i \<le> j \<and> (i = j \<or> j \<le> length s) \<and> (\<forall>k. i \<le> k \<and> k < j \<longrightarrow> True)"
    by (rule star_run_class) simp
  then show ?thesis by simp
qed

lemma plus_class:
  "(i < length s \<and> p (s ! i) \<and> Suc i \<le> j \<and> (Suc i = j \<or> j \<le> length s) \<and>
      (\<forall>k. Suc i \<le> k \<and> k < j \<longrightarrow> p (s ! k))) \<longleftrightarrow>
   (i < j \<and> j \<le> length s \<and> (\<forall>k. i \<le> k \<and> k < j \<longrightarrow> p (s ! k)))" (is "?L \<longleftrightarrow> ?R")
proof
  assume L: ?L
  have "p (s ! k)" if "i \<le> k" "k < j" for k
    using L that by (cases "k = i") auto
  with L show ?R by auto
qed auto

lemma rx_run_plus_Cls [simp]:
  "rx_run (vplregex_extended r) s (Plus (Cls p)) i c j c' \<longleftrightarrow>
     c' = c \<and> i < j \<and> j \<le> length s \<and> (\<forall>k. i \<le> k \<and> k < j \<longrightarrow> p (s ! k))"
proof -
  have "rx_run (vplregex_extended r) s (Plus (Cls p)) i c j c' \<longleftrightarrow>
     c' = c \<and> (i < length s \<and> p (s ! i) \<and> Suc i \<le> j \<and> (Suc i = j \<or> j \<le> length s) \<and>
       (\<forall>k. Suc i \<le> k \<and> k < j \<longrightarrow> p (s ! k)))"
    unfolding Plus_def rx_run.simps(7) rx_run_star_Cls rx_run.simps(5) in_class_extended extended_simps
    by blast
  then show ?thesis using plus_class [of i s "p" j] by (simp only: simp_thms)
qed

lemma rx_run_plus_NotCls [simp]:
  "rx_run (vplregex_extended r) s (Plus (NotCls p)) i c j c' \<longleftrightarrow>
     c' = c \<and> i < j \<and> j \<le> length s \<and> (\<forall>k. i \<le> k \<and> k < j \<longrightarrow> \<not> p (s ! k))"
proof -
  have "rx_run (vplregex_extended r) s (Plus (NotCls p)) i c j c' \<longleftrightarrow>
     c' = c \<and> (i < length s \<and> \<not> p (s ! i) \<and> Suc i \<le> j \<and> (Suc i = j \<or> j \<le> length s) \<and>
       (\<forall>k. Suc i \<le> k \<and> k < j \<longrightarrow> \<not> p (s ! k)))"
    unfolding Plus_def rx_run.simps(7) rx_run_star_NotCls rx_run.simps(6) in_class_extended extended_simps
    by blast
  then show ?thesis using plus_class [of i s "\<lambda>d. \<not> p d" j] by (simp only: simp_thms)
qed

lemma rx_run_Opt [simp]:
  "rx_run x s (Opt r) i c j c' \<longleftrightarrow> rx_run x s r i c j c' \<or> (j = i \<and> c' = c)"
  by (simp add: Opt_def)

text \<open>Where a repeated class must stop: at the first byte outside it.\<close>

lemma star_stops:
  assumes "a < n" "\<not> P (a::nat)"
  shows "(a \<le> b \<and> (a = b \<or> b \<le> n) \<and> (\<forall>k. a \<le> k \<and> k < b \<longrightarrow> P k)) \<longleftrightarrow> b = a"
  using assms by (cases "a < b") (auto dest: spec [of _ a])

lemma plus_stops:
  assumes "m < n" "\<not> P m" "\<And>k. a \<le> k \<Longrightarrow> k < m \<Longrightarrow> P k" "a \<le> (m::nat)"
  shows "(a < b \<and> b \<le> n \<and> (\<forall>k. a \<le> k \<and> k < b \<longrightarrow> P k)) \<longleftrightarrow> a < b \<and> b \<le> m"
proof (cases "m < b")
  case True
  with assms(2,4) show ?thesis by (auto dest: spec [of _ m])
next
  case False
  with assms(1,3) show ?thesis by auto
qed

lemma rx_run_Lit:
  "rx_run (vplregex_extended r) s (Lit w) i c j c' \<Longrightarrow> c' = c \<and> j = i + length w \<and> (\<forall>k < length w. i + k < length s \<and> s ! (i + k) = w ! k)"
proof (induction w arbitrary: i)
  case (Cons d w)
  then have "i < length s" "s ! i = d" "rx_run (vplregex_extended r) s (Lit w) (Suc i) c j c'"
    by (auto simp: Chr_def)
  with Cons.IH [OF this(3)] show ?case by (auto simp: less_Suc_eq_0_disj)
qed simp

lemma rx_run_SeqI: "rx_run x s a i c k d \<Longrightarrow> rx_run x s b k d j c' \<Longrightarrow> rx_run x s (Seq a b) i c j c'"
  by auto

lemma rx_run_GrpI: "rx_run x s a i c j d \<Longrightarrow> rx_run x s (Grp k a) i c j (d(k \<mapsto> (i, j)))"
  by auto

text \<open>A pattern read from the left: each piece leaves a position and the captures for the rest.\<close>

lemma rx_seq_runs:
  "rx_run (vplregex_extended r) s (Seq Bol b) i c j c' \<longleftrightarrow> i = 0 \<and> rx_run (vplregex_extended r) s b i c j c'"
  "rx_run (vplregex_extended r) s (Seq (Cls p) b) i c j c' \<longleftrightarrow>
     i < length s \<and> p (s ! i) \<and> rx_run (vplregex_extended r) s b (Suc i) c j c'"
  "rx_run (vplregex_extended r) s (Seq (Star (Cls p)) b) i c j c' \<longleftrightarrow>
     (\<exists>m. i \<le> m \<and> (i = m \<or> m \<le> length s) \<and> (\<forall>k. i \<le> k \<and> k < m \<longrightarrow> p (s ! k)) \<and>
        rx_run (vplregex_extended r) s b m c j c')"
  "rx_run (vplregex_extended r) s (Seq (Grp g (Plus (NotCls p))) b) i c j c' \<longleftrightarrow>
     (\<exists>m. i < m \<and> m \<le> length s \<and> (\<forall>k. i \<le> k \<and> k < m \<longrightarrow> \<not> p (s ! k)) \<and>
        rx_run (vplregex_extended r) s b m (c(g \<mapsto> (i, m))) j c')"
  "rx_run (vplregex_extended r) s (Grp g (Star (NotCls p))) i c j c' \<longleftrightarrow>
     i \<le> j \<and> (i = j \<or> j \<le> length s) \<and> (\<forall>k. i \<le> k \<and> k < j \<longrightarrow> \<not> p (s ! k)) \<and> c' = c(g \<mapsto> (i, j))"
  by (auto simp del: rx_run.simps(9))

section \<open>The preferred run\<close>

text \<open>
  Most patterns of the program are anchored at both ends: every successful run then has the same
  length, and the captures are those of the first run in greedy order. \<open>rx_hd\<close> is that first run; it
  composes along the pattern, over a subject written as a concatenation.
\<close>

definition rx_hd :: "vplregex \<Rightarrow> string \<Rightarrow> regex \<Rightarrow> nat \<Rightarrow> caps \<Rightarrow> nat \<Rightarrow> caps \<Rightarrow> bool" where
  "rx_hd x s r i c j c' \<longleftrightarrow> (\<exists>rest. rx_ends x s r i c = (j, c') # rest)"

named_theorems rx_steps "one step of the preferred run"

lemma rx_hd_Eps [rx_steps]: "rx_hd x s Eps i c i c"
  by (simp add: rx_hd_def)

lemma rx_hd_Bol [rx_steps]: "rx_hd x s Bol 0 c 0 c"
  by (simp add: rx_hd_def at_line_start_def)

lemma rx_hd_Eol [rx_steps]: "i = length s \<Longrightarrow> rx_hd x s Eol i c i c"
  by (simp add: rx_hd_def at_line_end_def)

lemma rx_hd_Seq: "rx_hd x s a i c k d \<Longrightarrow> rx_hd x s b k d j c' \<Longrightarrow> rx_hd x s (Seq a b) i c j c'"
  by (auto simp: rx_hd_def)

lemma rx_hd_Grp: "rx_hd x s a i c j d \<Longrightarrow> c' = d(k \<mapsto> (i, j)) \<Longrightarrow> rx_hd x s (Grp k a) i c j c'"
  by (auto simp: rx_hd_def)

lemma rx_hd_Opt: "rx_hd x s a i c j c' \<Longrightarrow> rx_hd x s (Opt a) i c j c'"
  by (auto simp: rx_hd_def Opt_def)

lemma rx_hd_Opt_none: "rx_ends x s a i c = [] \<Longrightarrow> rx_hd x s (Opt a) i c i c"
  by (auto simp: rx_hd_def Opt_def)

lemma rx_hd_Cls:
  "s = u @ d # v \<Longrightarrow> length u = i \<Longrightarrow> in_class x p d \<Longrightarrow> rx_hd x s (Cls p) i c (Suc i) c"
  by (auto simp: rx_hd_def step_char_def)

lemma rx_hd_Chr: "s = u @ d # v \<Longrightarrow> length u = i \<Longrightarrow> rx_hd x s (Chr d) i c (Suc i) c"
  unfolding Chr_def by (rule rx_hd_Cls) (auto simp: in_class_def)

text \<open>A repeated class takes the longest stretch of its bytes.\<close>

lemma rx_hd_star_step:
  assumes f: "\<And>i c. f i c = step_char q s i c"
    and "s = u @ w @ v" and "length u = i" and "\<forall>d \<in> set w. q d"
    and "v = [] \<or> \<not> q (hd v)" and "length w \<le> n"
  shows "\<exists>rest. rx_star f n i c = (i + length w, c) # rest"
  using assms(2-)
proof (induction w arbitrary: u i n)
  case Nil
  then have "step_char q s i c = []" by (cases v) (auto simp: step_char_def)
  then show ?case by (cases n) (simp_all add: f)
next
  case (Cons d w)
  then obtain m where n: "n = Suc m" by (cases n) auto
  have "s = (u @ [d]) @ w @ v" "length (u @ [d]) = Suc i" using Cons.prems by simp_all
  from Cons.IH [OF this] Cons.prems n
  have "\<exists>rest. rx_star f m (Suc i) c = (Suc i + length w, c) # rest" by simp
  moreover have "f i c = [(Suc i, c)]" using Cons.prems by (auto simp: f step_char_def)
  ultimately show ?case by (auto simp: n)
qed

lemma rx_hd_star_Cls:
  assumes "s = u @ w @ v" and "length u = i" and "\<forall>d \<in> set w. in_class x p d"
    and "v = [] \<or> \<not> in_class x p (hd v)" and "j = i + length w"
  shows "rx_hd x s (Star (Cls p)) i c j c"
  using rx_hd_star_step [of "rx_ends x s (Cls p)" "in_class x p" s u w v i "length s - i" c] assms
  by (simp add: rx_hd_def)

lemma rx_hd_star_NotCls:
  assumes "s = u @ w @ v" and "length u = i" and "\<forall>d \<in> set w. \<not> p d"
    and "v = [] \<or> p (hd v)" and "j = i + length w"
  shows "rx_hd (vplregex_extended r) s (Star (NotCls p)) i c j c"
  using rx_hd_star_step [of "rx_ends (vplregex_extended r) s (NotCls p)" "\<lambda>d. \<not> p d" s u w v i "length s - i" c] assms
  by (simp add: rx_hd_def)

lemma rx_hd_star_Any:
  assumes "s = u @ w" and "length u = i" and "j = length s"
  shows "rx_hd (vplregex_extended r) s (Star AnyChar) i c j c"
  using rx_hd_star_step [of "rx_ends (vplregex_extended r) s AnyChar" "\<lambda>d. True" s u w "[]" i "length s - i" c] assms
  by (simp add: rx_hd_def)

lemma rx_hd_plus_Cls:
  assumes "s = u @ w @ v" and "length u = i" and "w \<noteq> []" and "\<forall>d \<in> set w. in_class x p d"
    and "v = [] \<or> \<not> in_class x p (hd v)" and "j = i + length w"
  shows "rx_hd x s (Plus (Cls p)) i c j c"
proof -
  obtain d w' where w: "w = d # w'" using assms(3) by (cases w) auto
  show ?thesis unfolding Plus_def
  proof (rule rx_hd_Seq)
    show "rx_hd x s (Cls p) i c (Suc i) c" using assms w by (intro rx_hd_Cls [of s u d "w' @ v"]) auto
    show "rx_hd x s (Star (Cls p)) (Suc i) c j c"
      using assms w by (intro rx_hd_star_Cls [of s "u @ [d]" w' v]) auto
  qed
qed

lemma rx_hd_plus_NotCls:
  assumes "s = u @ w @ v" and "length u = i" and "w \<noteq> []" and "\<forall>d \<in> set w. \<not> p d"
    and "v = [] \<or> p (hd v)" and "j = i + length w"
  shows "rx_hd (vplregex_extended r) s (Plus (NotCls p)) i c j c"
proof -
  obtain d w' where w: "w = d # w'" using assms(3) by (cases w) auto
  show ?thesis unfolding Plus_def
  proof (rule rx_hd_Seq)
    show "rx_hd (vplregex_extended r) s (NotCls p) i c (Suc i) c"
      using assms w by (auto simp: rx_hd_def step_char_def)
    show "rx_hd (vplregex_extended r) s (Star (NotCls p)) (Suc i) c j c"
      using assms w by (intro rx_hd_star_NotCls [of s "u @ [d]" w' v]) auto
  qed
qed

lemma rx_hd_word:
  assumes "s = u @ w @ v" and "w \<noteq> []" and "\<forall>d \<in> set w. \<not> p d" and "v = [] \<or> p (hd v)"
    and "i = length u" and "j = i + length w"
  shows "rx_hd (vplregex_extended r) s (Grp k (Plus (NotCls p))) i c j (c(k \<mapsto> (i, j)))"
proof (rule rx_hd_Grp)
  show "rx_hd (vplregex_extended r) s (Plus (NotCls p)) i c j c"
    by (rule rx_hd_plus_NotCls [of s u w v]) (use assms in simp_all)
qed simp

lemma longest_head: "\<forall>m \<in> set ms. fst m \<le> j \<Longrightarrow> longest (j, c) ms = (j, c)"
  by (induction ms) (auto simp: longest_def)

lemma regexec_hd:
  assumes "rx_hd x s (rx_pattern x) 0 Map.empty (length s) c"
  shows "regexec x s = Some (0, length s, c)"
proof -
  obtain rest where r: "rx_ends x s (rx_pattern x) 0 Map.empty = (length s, c) # rest"
    using assms by (auto simp: rx_hd_def)
  have "fst m \<le> length s" if "m \<in> set rest" for m
  proof -
    have "m \<in> set (rx_ends x s (rx_pattern x) 0 Map.empty)" using r that by simp
    then have "rx_run x s (rx_pattern x) 0 Map.empty (fst m) (snd m)"
      using rx_ends_set [of 0 s x "rx_pattern x" Map.empty] by auto
    then show ?thesis using rx_run_bounds by blast
  qed
  then have "rx_at x s 0 = Some (length s, c)" using r longest_head by (simp add: rx_at_def)
  moreover have "[0..<Suc (length s)] = 0 # [Suc 0..<Suc (length s)]"
    by (rule upt_conv_Cons) simp
  ultimately show ?thesis by (simp add: regexec_def del: upt_Suc)
qed

text \<open>The whole search over a subject without zero bytes.\<close>

lemma search_hd:
  assumes "rx_hd x s (rx_pattern x) 0 Map.empty (length s) c" and "nul \<notin> set s"
  shows "vplregex_search x s n = Some (map (group_text s 0 (length s) c) [0..<n])"
  using regexec_hd [OF assms(1)] assms(2) by (simp add: vplregex_search_def c_str_id)

lemma substr_middle: "i = length u \<Longrightarrow> n = length w \<Longrightarrow> substr (u @ w @ v) i n = w"
  by (simp add: substr_def)

lemma upt_groups: "[0..<3] = [0, 1, 2]" "[0..<4] = [0, 1, 2, 3]" "[0..<5] = [0, 1, 2, 3, 4]"
  by (simp_all add: upt_rec)

end
