(* ===== verification/Util_Strings.thy ===== *)
theory Util_Strings
  imports Vplregex
begin

text \<open>
  The text helpers of the class \<open>Util\<close> (util.h) that touch neither files nor processes: lines, the
  constant-time comparison, trimming, numbers and memory sizes, upper case, command-line and
  environment lookups, carriage returns, and percent decoding.
\<close>

section \<open>Operations\<close>

text \<open>\<open>getLine(s, offset)\<close>: the line and the new offset.\<close>

definition getLine :: "string \<Rightarrow> nat \<Rightarrow> string \<times> nat" where
  "getLine s offset = (if length s \<le> offset then ([], offset)
     else let eoffset = offset + length (takeWhile (\<lambda>c. c \<noteq> lf) (drop offset s)) in
       if length s = eoffset then (substr s offset (eoffset - offset), eoffset)
       else let e = (if eoffset > offset \<and> s ! (eoffset - 1) = cr then eoffset - 1 else eoffset) in
         (substr s offset (e - offset), eoffset + 1))"

definition byte_at :: "string \<Rightarrow> nat \<Rightarrow> nat" where
  "byte_at s i = (if i < length s then byte_val (s ! i) else 0)"

definition work_size :: "string \<Rightarrow> string \<Rightarrow> nat" where
  "work_size a b = (let workSize = (if length a > length b then length a else length b) in
     if workSize mod 32 \<noteq> 0 then workSize + (32 - workSize mod 32) else workSize)"

definition compareConstantTime :: "string \<Rightarrow> string \<Rightarrow> bool" where
  "compareConstantTime a b = (let
      result = foldl (\<lambda>r i. r OR (byte_at a i XOR byte_at b i)) 0 [0..<work_size a b];
      result = result OR (if length a \<noteq> length b then 1 else 0)
    in result = 0)"

definition strip_quote :: "char \<Rightarrow> string \<Rightarrow> string option" where
  "strip_quote q s = (if length s > 1 \<and> hd s = q \<and> last s = q then Some (tl (butlast s)) else None)"

definition trimAndRemoveQuotes :: "string \<Rightarrow> string" where
  "trimAndRemoveQuotes s0 = (let
      s = dropWhile (\<lambda>c. c = blank) s0;
      s = rev (dropWhile (\<lambda>c. c = blank) (rev s))
    in case strip_quote squote s of
         Some t \<Rightarrow> t
       | None \<Rightarrow> (case strip_quote dquote s of Some t \<Rightarrow> t | None \<Rightarrow> s))"

definition atol :: "string \<Rightarrow> int" where
  "atol s = strtoll s"

text \<open>\<open>Util::atoi\<close> clamps above but not below: the return converts the \<open>long\<close> to \<open>int\<close>.\<close>

definition atoi :: "string \<Rightarrow> int" where
  "atoi s = (let longValue = atol s in if longValue > int_max then int_max else to_int32 longValue)"

definition kb :: int where "kb = 1024"
definition mb :: int where "mb = 1024 * kb"
definition gb :: int where "gb = 1024 * mb"

definition memAbbreviation :: "string \<Rightarrow> int" where
  "memAbbreviation a = (case a of [] \<Rightarrow> 1
     | c # cs \<Rightarrow> if c = CHR ''K'' \<or> c = CHR ''k'' then kb
         else if c = CHR ''M'' \<or> c = CHR ''m'' then mb
         else if c = CHR ''G'' \<or> c = CHR ''g'' then gb else 1)"

definition is_blank_tab :: "char \<Rightarrow> bool" where "is_blank_tab c \<longleftrightarrow> c = blank \<or> c = tab"
definition is_mem_unit :: "char \<Rightarrow> bool" where "is_mem_unit c \<longleftrightarrow> c \<in> set ''GgMmKk''"

definition regMemSize :: vplregex where
  "regMemSize = vplregex_extended (seqs [Bol, Star (Cls is_blank_tab), Grp 1 (Plus (Cls is_digit)),
     Star (Cls is_blank_tab), Grp 2 (Opt (Cls is_mem_unit))])"

text \<open>The product is a \<open>long long\<close>; past its range it wraps, as the target machine's multiply does.\<close>

definition memSizeToBytesl :: "string \<Rightarrow> int" where
  "memSizeToBytesl memSize = (case vplregex_search regMemSize memSize 3 of
      Some found \<Rightarrow> to_int64 (atol (found ! 1) * memAbbreviation (found ! 2))
    | None \<Rightarrow> 0)"

definition memSizeToBytesi :: "string \<Rightarrow> int" where
  "memSizeToBytesi s = (let value = memSizeToBytesl s in
     if value > int_max \<or> value \<le> 0 then int_max else to_int32 value)"

text \<open>The quotients are of non-negative numbers, where C's division is \<open>div\<close>.\<close>

definition bytesToMemSize :: "int \<Rightarrow> string" where
  "bytesToMemSize bytes =
     (if bytes \<ge> 16 * gb then itos (bytes div gb) @ ''G''
      else if bytes \<ge> 16 * mb then itos (bytes div mb) @ ''M''
      else if bytes \<ge> 16 * kb then itos (bytes div kb) @ ''K''
      else itos bytes @ ''B'')"

definition fixMemSize :: "int \<Rightarrow> int" where
  "fixMemSize memSize = (if memSize \<le> 0 then llong_max else memSize)"

definition toUppercase :: "string \<Rightarrow> string" where
  "toUppercase s = map to_upper s"

text \<open>\<open>getCommand(argc, argv, command)\<close>: \<open>argv[i]\<close> for i from 1 while \<open>i < argc - 1\<close>.\<close>

fun getCommand_from :: "string list \<Rightarrow> string \<Rightarrow> string" where
  "getCommand_from (a # b # rest) command =
     (if a = command then b else getCommand_from (b # rest) command)"
| "getCommand_from _ command = []"

definition getCommand :: "string list \<Rightarrow> string \<Rightarrow> string" where
  "getCommand argv command = getCommand_from (tl argv) command"

definition getEnvNameFromRaw :: "string \<Rightarrow> string" where
  "getEnvNameFromRaw env = (case find_char (CHR ''='') env 0 of None \<Rightarrow> env | Some pos \<Rightarrow> substr env 0 pos)"

definition removeCRs :: "string \<Rightarrow> string" where
  "removeCRs text = (if lf \<notin> set text then map (\<lambda>c. if c = cr then lf else c) text
     else filter (\<lambda>c. c \<noteq> cr) text)"

definition hexChars :: string where "hexChars = ''0123456789abcdefABCDEF''"

text \<open>\<open>strtol\<close> base 16 on one hexadecimal digit.\<close>

definition hex_value :: "char \<Rightarrow> nat" where
  "hex_value c = (let v = byte_val c in
     if 48 \<le> v \<and> v \<le> 57 then v - 48
     else if 97 \<le> v \<and> v \<le> 102 then v - 87 else v - 55)"

fun URLdecode :: "string \<Rightarrow> string result" where
  "URLdecode [] = Inr []"
| "URLdecode (c # cs) =
     (if c = CHR ''%'' then
        (case cs of
           h # l # rest \<Rightarrow>
             if h \<notin> set hexChars \<or> l \<notin> set hexChars then
               Inl (HttpExn BadRequestCode
                 ''URLdecode: non hex digits in percent-encoding sequence'' [])
             else bind_result (URLdecode rest) (\<lambda>d. Inr (char_of (16 * hex_value h + hex_value l) # d))
         | _ \<Rightarrow> Inl (HttpExn BadRequestCode
                 ''URLdecode: incomplete percent-encoding sequence at the end of string'' []))
      else bind_result (URLdecode cs) (\<lambda>d. Inr ((if c = CHR ''+'' then blank else c) # d)))"

section \<open>Lines\<close>

lemma cr_neq_lf [simp]: "cr \<noteq> lf" "lf \<noteq> cr"
  by (simp_all add: char_names)

lemma getLine_progress:
  assumes "offset < length s"
  shows "offset < snd (getLine s offset)" and "snd (getLine s offset) \<le> length s"
proof -
  have l: "length (takeWhile (\<lambda>c. c \<noteq> lf) (drop offset s)) \<le> length s - offset"
    by (metis length_drop length_takeWhile_le)
  let ?n = "length (takeWhile (\<lambda>c. c \<noteq> lf) (drop offset s))"
  show "offset < snd (getLine s offset)" using assms l by (auto simp: getLine_def Let_def)
  show "snd (getLine s offset) \<le> length s"
    using assms l by (auto simp: getLine_def Let_def)
qed

lemma getLine_step:
  assumes "getLine s offset = (line, next)" and "line \<noteq> [] \<or> next < length s"
  shows "length s - next < length s - offset"
proof -
  have "offset < length s" using assms by (auto simp: getLine_def split: if_splits)
  then show ?thesis using getLine_progress [of offset s] assms(1) by simp
qed

lemma getLine_no_lf: "lf \<notin> set (fst (getLine s offset))"
proof -
  let ?t = "takeWhile (\<lambda>c. c \<noteq> lf) (drop offset s)"
  have eq: "?t = take (length ?t) (drop offset s)" by (rule takeWhile_eq_take)
  have "lf \<notin> set (substr s offset n)" if n: "n \<le> length ?t" for n
  proof -
    have "substr s offset n = take n ?t" using n by (subst eq) (simp add: substr_def min_def)
    then show ?thesis by (auto dest: in_set_takeD set_takeWhileD)
  qed
  then show ?thesis by (simp add: getLine_def Let_def)
qed

text \<open>A line printed with CRLF is read back, and the offset moves past it.\<close>

lemma getLine_crlf:
  assumes "lf \<notin> set line"
  shows "getLine (pre @ line @ crlf @ rest) (length pre) = (line, length pre + length line + 2)"
proof -
  have t: "takeWhile (\<lambda>c. c \<noteq> lf) (line @ cr # lf # rest) = line @ [cr]"
    using assms by (induction line) auto
  show ?thesis
    by (simp add: getLine_def Let_def crlf_def t nth_append substr_def)
qed

section \<open>Comparison\<close>

lemma or_zero_iff_nat: "(a::nat) OR b = 0 \<longleftrightarrow> a = 0 \<and> b = 0"
  by (rule or_eq_0_iff)

lemma foldl_or_zero:
  "foldl (\<lambda>r i. r OR f i) (r::nat) is = 0 \<longleftrightarrow> r = 0 \<and> (\<forall>i \<in> set is. f i = 0)"
  by (induction "is" arbitrary: r) (auto simp: or_zero_iff_nat)

lemma xor_zero_iff: "(a::nat) XOR b = 0 \<longleftrightarrow> a = b"
  by (metis xor.assoc xor.left_neutral xor.right_neutral xor_self_eq)

lemma work_size_ge: "length a \<le> work_size a b"
proof -
  define w where "w = (if length a > length b then length a else length b)"
  have "length a \<le> w" by (simp add: w_def)
  also have "w \<le> work_size a b" unfolding work_size_def Let_def w_def [symmetric] by (simp only: le_add1 split: if_split) simp
  finally show ?thesis .
qed

lemma compareConstantTime_iff: "compareConstantTime a b \<longleftrightarrow> a = b"
proof -
  have "compareConstantTime a b \<longleftrightarrow>
      length a = length b \<and> (\<forall>i < work_size a b. byte_at a i = byte_at b i)"
    by (auto simp: compareConstantTime_def Let_def or_zero_iff_nat foldl_or_zero xor_zero_iff)
  also have "\<dots> \<longleftrightarrow> a = b"
  proof
    assume r: "length a = length b \<and> (\<forall>i < work_size a b. byte_at a i = byte_at b i)"
    have "a ! i = b ! i" if i: "i < length a" for i
    proof -
      have "byte_at a i = byte_at b i" using r i work_size_ge [of a b] by simp
      then show ?thesis using i r by (simp add: byte_at_def)
    qed
    with r show "a = b" by (simp add: nth_equalityI)
  qed simp
  finally show ?thesis .
qed

section \<open>Memory sizes\<close>

lemma mem_unit_bytes:
  "is_digit c \<Longrightarrow> \<not> is_mem_unit c" "is_digit c \<Longrightarrow> \<not> is_blank_tab c" "is_mem_unit c \<Longrightarrow> \<not> is_blank_tab c"
  by (auto simp: is_digit_def is_mem_unit_def is_blank_tab_def char_names)

text \<open>Every run of the pattern over digits and one more byte that is neither a digit nor blank.\<close>

lemma regMemSize_run:
  assumes ds: "\<forall>c \<in> set ds. is_digit c" and u: "\<not> is_digit u" "\<not> is_blank_tab u" and ne: "ds \<noteq> []"
  shows "rx_run regMemSize (ds @ [u]) (rx_pattern regMemSize) 0 Map.empty j c \<longleftrightarrow>
    (\<exists>k. 0 < k \<and> k \<le> length ds \<and>
      ((j = k \<and> c = [1 \<mapsto> (0, k), 2 \<mapsto> (k, k)]) \<or>
       (k = length ds \<and> j = Suc k \<and> is_mem_unit u \<and> c = [1 \<mapsto> (0, k), 2 \<mapsto> (k, Suc k)])))"
    (is "?L \<longleftrightarrow> ?R")
proof -
  let ?s = "ds @ [u]" and ?n = "length ds"
  have dig: "is_digit (?s ! k) \<longleftrightarrow> k < ?n" if "k \<le> ?n" for k
    using that ds u by (auto simp: nth_append)
  have nb: "\<not> is_blank_tab (?s ! k)" if "k \<le> ?n" for k
    using that ds u mem_unit_bytes(2) by (auto simp: nth_append)
  have un: "is_mem_unit (?s ! k) \<longleftrightarrow> k = ?n \<and> is_mem_unit u" if "k \<le> ?n" for k
    using that ds mem_unit_bytes(1) by (auto simp: nth_append)
  have dg: "is_digit (?s ! k)" if "k < ?n" for k using dig that by simp
  note P1 = star_stops [of 0 "Suc ?n" "\<lambda>k. is_blank_tab (?s ! k)", OF zero_less_Suc nb [OF le0]]
  have P2: "(0 < b \<and> b \<le> Suc ?n \<and> (\<forall>k. 0 \<le> k \<and> k < b \<longrightarrow> is_digit (?s ! k))) \<longleftrightarrow> 0 < b \<and> b \<le> ?n" for b
    by (rule plus_stops) (use dig dg u in auto)
  have "?L \<longleftrightarrow> (\<exists>a. (0 \<le> a \<and> (0 = a \<or> a \<le> Suc ?n) \<and> (\<forall>k. 0 \<le> k \<and> k < a \<longrightarrow> is_blank_tab (?s ! k))) \<and>
    (\<exists>b. (a < b \<and> b \<le> Suc ?n \<and> (\<forall>k. a \<le> k \<and> k < b \<longrightarrow> is_digit (?s ! k))) \<and>
    (\<exists>d. (b \<le> d \<and> (b = d \<or> d \<le> Suc ?n) \<and> (\<forall>k. b \<le> k \<and> k < d \<longrightarrow> is_blank_tab (?s ! k))) \<and>
      ((j = Suc d \<and> d < Suc ?n \<and> is_mem_unit (?s ! d) \<and> c = [1 \<mapsto> (a, b), 2 \<mapsto> (d, Suc d)]) \<or>
       (j = d \<and> c = [1 \<mapsto> (a, b), 2 \<mapsto> (d, d)])))))"
    unfolding regMemSize_def extended_simps seqs.simps rx_run.simps(2,7,10) rx_run_star_Cls rx_run_plus_Cls
      rx_run_Opt rx_run.simps(5) in_class_extended by auto
  also have "\<dots> \<longleftrightarrow>
    (\<exists>b. (0 < b \<and> b \<le> ?n) \<and>
    (\<exists>d. (b \<le> d \<and> (b = d \<or> d \<le> Suc ?n) \<and> (\<forall>k. b \<le> k \<and> k < d \<longrightarrow> is_blank_tab (?s ! k))) \<and>
      ((j = Suc d \<and> d < Suc ?n \<and> is_mem_unit (?s ! d) \<and> c = [1 \<mapsto> (0, b), 2 \<mapsto> (d, Suc d)]) \<or>
       (j = d \<and> c = [1 \<mapsto> (0, b), 2 \<mapsto> (d, d)]))))"
    by (simp only: P1 P2 simp_thms)
  also have "\<dots> \<longleftrightarrow> (\<exists>b. (0 < b \<and> b \<le> ?n) \<and> (\<exists>d. d = b \<and>
      ((j = Suc d \<and> d < Suc ?n \<and> is_mem_unit (?s ! d) \<and> c = [1 \<mapsto> (0, b), 2 \<mapsto> (d, Suc d)]) \<or>
       (j = d \<and> c = [1 \<mapsto> (0, b), 2 \<mapsto> (d, d)]))))"
    using star_stops [of _ "Suc ?n" "\<lambda>k. is_blank_tab (?s ! k)"] nb
    by (intro ex_cong1 conj_cong refl) simp
  also have "\<dots> \<longleftrightarrow> ?R" using un by auto
  finally show ?thesis .
qed

lemma memSize_search:
  assumes ds: "\<forall>c \<in> set ds. is_digit c" and u: "\<not> is_digit u" "\<not> is_blank_tab u" "u \<noteq> nul" and ne: "ds \<noteq> []"
  shows "\<exists>m. vplregex_search regMemSize (ds @ [u]) 3 = Some [m, ds, if is_mem_unit u then [u] else []]"
proof -
  let ?n = "length ds"
  let ?e = "if is_mem_unit u then Suc ?n else ?n"
  have c: "c_str (ds @ [u]) = ds @ [u]"
    using ds u(3) digit_not_special(1) by (intro c_str_id) auto
  note run = regMemSize_run [OF ds u(1,2) ne]
  have "regexec regMemSize (ds @ [u]) = Some (0, ?e, [1 \<mapsto> (0, ?n), 2 \<mapsto> (?n, ?e)])"
    by (rule regexec_eqI) (use ne in \<open>auto simp: run split: if_splits\<close>)
  then have "vplregex_search regMemSize (ds @ [u]) 3 =
      Some (map (group_text (ds @ [u]) 0 ?e [1 \<mapsto> (0, ?n), 2 \<mapsto> (?n, ?e)]) [0..<3])"
    by (simp add: vplregex_search_def c)
  moreover have "[0..<3] = [0, 1, 2]" by (simp add: upt_rec)
  ultimately have "vplregex_search regMemSize (ds @ [u]) 3 =
      Some (map (group_text (ds @ [u]) 0 ?e [1 \<mapsto> (0, ?n), 2 \<mapsto> (?n, ?e)]) [0, 1, 2])" by simp
  then show ?thesis by (simp add: group_text_def max_match_def substr_def)
qed

lemma memSizeToBytesl_print:
  assumes n: "int n \<le> llong_max" and u: "\<not> is_digit u" "\<not> is_blank_tab u" "u \<noteq> nul"
    and unit: "memAbbreviation (if is_mem_unit u then [u] else []) = k"
    and b: "0 \<le> k" "int n * k \<le> llong_max"
  shows "memSizeToBytesl (nat_digits n @ [u]) = int n * k"
proof -
  obtain m where "vplregex_search regMemSize (nat_digits n @ [u]) 3 =
      Some [m, nat_digits n, if is_mem_unit u then [u] else []]"
    using memSize_search [OF nat_digits_all_digits u nat_digits_nonempty] by blast
  then have "memSizeToBytesl (nat_digits n @ [u]) = to_int64 (clamp64 (int n) * k)"
    using unit by (simp add: memSizeToBytesl_def atol_def strtoll_nat_digits numeral_2_eq_2)
  moreover have "clamp64 (int n) = int n" using n by (simp add: clamp64_def llong_min_def)
  moreover have "0 \<le> int n * k" using b(1) by simp
  ultimately show ?thesis using b(2)
    by (simp add: to_int64_def llong_max_def signed_take_bit_int_eq_self)
qed

definition mem_unit_of :: "int \<Rightarrow> int" where
  "mem_unit_of b = (if b \<ge> 16 * gb then gb else if b \<ge> 16 * mb then mb else if b \<ge> 16 * kb then kb else 1)"

lemma memSizeToBytesl_bytesToMemSize:
  assumes "0 \<le> b" "b \<le> llong_max"
  shows "memSizeToBytesl (bytesToMemSize b) = b div mem_unit_of b * mem_unit_of b"
proof -
  have bound: "b div k \<le> llong_max" "b div k * k \<le> llong_max" "0 \<le> b div k" if "0 < k" for k
  proof -
    have "b div k * k \<le> b" using that by (simp add: minus_mod_eq_div_mult [symmetric])
    then show "b div k * k \<le> llong_max" using assms by simp
    have "b div k \<le> b div 1" using that assms by (intro zdiv_mono2) simp_all
    then show "b div k \<le> llong_max" using assms by simp
    show "0 \<le> b div k" using that assms by (simp add: pos_imp_zdiv_nonneg_iff)
  qed
  have pr: "memSizeToBytesl (itos (b div k) @ [u]) = b div k * k"
    if "0 < k" "\<not> is_digit u" "\<not> is_blank_tab u" "u \<noteq> nul" "memAbbreviation (if is_mem_unit u then [u] else []) = k"
    for k u
    using memSizeToBytesl_print [of "nat (b div k)" u k] bound [OF that(1)] that
    by (simp add: itos_def)
  note units = is_digit_def is_blank_tab_def is_mem_unit_def char_names memAbbreviation_def
  have "memSizeToBytesl (itos (b div gb) @ [CHR ''G'']) = b div gb * gb"
    by (rule pr) (simp_all add: units, simp_all add: gb_def mb_def kb_def)
  moreover have "memSizeToBytesl (itos (b div mb) @ [CHR ''M'']) = b div mb * mb"
    by (rule pr) (simp_all add: units, simp_all add: gb_def mb_def kb_def)
  moreover have "memSizeToBytesl (itos (b div kb) @ [CHR ''K'']) = b div kb * kb"
    by (rule pr) (simp_all add: units, simp_all add: gb_def mb_def kb_def)
  moreover have "memSizeToBytesl (itos (b div 1) @ [CHR ''B'']) = b div 1 * 1"
    by (rule pr) (simp_all add: units)
  ultimately show ?thesis by (simp add: bytesToMemSize_def mem_unit_of_def)
qed

lemma memSizeToBytesi_bounds: "1 \<le> memSizeToBytesi s" "memSizeToBytesi s \<le> int_max"
  by (simp_all add: memSizeToBytesi_def Let_def to_int32_id int_max_def)

section \<open>Carriage returns\<close>

lemma removeCRs_no_cr: "cr \<notin> set (removeCRs t)"
  by (auto simp: removeCRs_def)

lemma removeCRs_id: "cr \<notin> set t \<Longrightarrow> removeCRs t = t"
proof (cases "lf \<in> set t")
  case True
  assume "cr \<notin> set t"
  then have "filter (\<lambda>c. c \<noteq> cr) t = t" by (intro filter_True) auto
  with True show ?thesis by (simp add: removeCRs_def)
next
  case False
  assume "cr \<notin> set t"
  then have "map (\<lambda>c. if c = cr then lf else c) t = t" by (intro map_idI) auto
  with False show ?thesis by (simp add: removeCRs_def)
qed

lemma removeCRs_idem: "removeCRs (removeCRs t) = removeCRs t"
  by (rule removeCRs_id) (rule removeCRs_no_cr)

lemma length_removeCRs: "length (removeCRs t) \<le> length t"
  by (simp add: removeCRs_def)

section \<open>Percent decoding\<close>

lemma URLdecode_length: "URLdecode s = Inr d \<Longrightarrow> length d \<le> length s"
proof (induction s arbitrary: d rule: URLdecode.induct)
  case (2 c cs)
  show ?case
  proof (cases "c = CHR ''%''")
    case True
    with 2(3) obtain h l rest where "cs = h # l # rest" "h \<in> set hexChars" "l \<in> set hexChars"
      by (auto split: list.splits if_splits)
    with 2(1) [of h "l # rest" l rest] 2(3) True show ?thesis
      by (fastforce simp: bind_result_Inr_iff)
  next
    case False
    with 2 show ?thesis by (fastforce simp: bind_result_Inr_iff)
  qed
qed simp

lemma URLdecode_plain:
  "CHR ''%'' \<notin> set s \<Longrightarrow> CHR ''+'' \<notin> set s \<Longrightarrow> URLdecode s = Inr s"
  by (induction s rule: URLdecode.induct) auto

text \<open>The error is always a bad request, never another exception.\<close>

lemma URLdecode_error: "URLdecode s = Inl e \<Longrightarrow> exn_code e = BadRequestCode"
proof (induction s rule: URLdecode.induct)
  case (2 c cs)
  show ?case
  proof (cases "c = CHR ''%''")
    case True
    then show ?thesis using 2(1,3)
      by (auto split: list.splits if_splits sum.splits simp: bind_result_def)
  next
    case False
    then show ?thesis using 2(2,3) by (simp split: sum.splits add: bind_result_def)
  qed
qed simp

section \<open>Properties\<close>

text \<open>
  The constant-time comparison of secrets accepts exactly equal texts: the padding of the
  shorter one to a multiple of 32 bytes never makes different texts compare equal.
\<close>

theorem compareConstantTime_correct: "compareConstantTime a b \<longleftrightarrow> a = b"
  by (rule compareConstantTime_iff)

text \<open>
  A size printed by \<open>bytesToMemSize\<close> and read back by \<open>memSizeToBytesl\<close> is the size rounded
  down to the unit that was printed, and the \<open>int\<close> reader answers a positive number for any text.
\<close>

theorem memory_size_round_trip:
  assumes "0 \<le> b" and "b \<le> llong_max"
  shows "memSizeToBytesl (bytesToMemSize b) = b - b mod mem_unit_of b
    \<and> 1 \<le> memSizeToBytesi s \<and> memSizeToBytesi s \<le> int_max"
  using memSizeToBytesl_bytesToMemSize [OF assms] memSizeToBytesi_bounds
  by (simp add: minus_mod_eq_div_mult)

theorem memory_size_round_trip_witness:
  "memSizeToBytesl (bytesToMemSize 20000000) = 20000000 - 20000000 mod mem_unit_of 20000000
    \<and> 1 \<le> memSizeToBytesi ''16Kb'' \<and> memSizeToBytesi ''16Kb'' \<le> int_max"
  by (rule memory_size_round_trip) (simp_all add: llong_max_def)

text \<open>
  After \<open>removeCRs\<close> a submitted script has no carriage return and is never longer; a script
  without line feeds keeps its line structure (each CR becomes LF), and a second pass changes nothing.
\<close>

theorem removeCRs_correct:
  "cr \<notin> set (removeCRs t) \<and> length (removeCRs t) \<le> length t \<and> removeCRs (removeCRs t) = removeCRs t
   \<and> (lf \<in> set t \<longrightarrow> removeCRs t = filter (\<lambda>c. c \<noteq> cr) t)
   \<and> (lf \<notin> set t \<longrightarrow> length (removeCRs t) = length t \<and> (\<forall>i < length t. removeCRs t ! i = (if t ! i = cr then lf else t ! i)))"
  using removeCRs_no_cr length_removeCRs removeCRs_idem by (simp add: removeCRs_def)

theorem removeCRs_correct_witness:
  "removeCRs [cr, lf] = [lf] \<and> cr \<notin> set (removeCRs [cr, lf])"
  using removeCRs_correct [of "[cr, lf]"] by simp

end
