(* ===== verification/Socket.thy ===== *)
theory Socket
  imports Util_Strings
begin

text \<open>
  The class \<open>Socket\<close> of socket.h and socket.cpp, with the retry decision of its TLS subclass. The
  network is the list of what the kernel answers, one entry per round of a loop: the result of
  \<open>poll\<close>, the clock, the ready flags, and the result of \<open>netRead\<close> or \<open>netWrite\<close> should they be
  called. A loop that has used up the list has not returned, which is the value \<open>None\<close>: it is not
  told apart from a loop that goes on for ever, and no theorem says that the code returns unless it
  says so. \<open>wire\<close> collects the bytes that \<open>netWrite\<close> has taken, in order.
\<close>

section \<open>State\<close>

record sock =
  sk_clientip :: nat
  sk_method :: string
  sk_version :: string
  sk_protocol :: string
  sk_URL :: string
  sk_URLPath :: string
  sk_queryString :: string
  sk_headers :: "string \<Rightarrow> string option"
  sk_cookies :: "string \<Rightarrow> string option"
  sk_maxDataSize :: nat
  sk_header :: string
  sk_readBuffer :: string
  sk_writeBuffer :: string
  sk_closed :: bool
  sk_websocketProtocol :: bool
  sk_wire :: string

text \<open>The constructor: \<open>clientip\<close> from \<open>getpeername\<close>, \<open>maxDataSize\<close> from the configuration.\<close>

definition newSocket :: "nat \<Rightarrow> nat \<Rightarrow> sock" where
  "newSocket ip requestMaxSize = \<lparr>sk_clientip = ip, sk_method = [], sk_version = [], sk_protocol = [],
     sk_URL = [], sk_URLPath = [], sk_queryString = [], sk_headers = Map.empty, sk_cookies = Map.empty,
     sk_maxDataSize = requestMaxSize, sk_header = [], sk_readBuffer = [], sk_writeBuffer = [],
     sk_closed = False, sk_websocketProtocol = False, sk_wire = []\<rparr>"

text \<open>
  A round: \<open>poll\<close>'s result, the clock before and after it, the flags in \<open>revents\<close>, and the I/O call's
  result: \<open>IoDone\<close> the bytes read or the number written (none of them is the result 0), \<open>IoError g\<close>
  a negative result, \<open>g\<close> saying whether \<open>errno\<close> is one of the four values of a peer that has gone,
  \<open>IoThrow\<close> what the TLS calls throw. A kernel that answers more than it was asked for is cut.
\<close>

datatype poll_result = PollFail | PollIdle | PollReady

datatype 'a io_result = IoDone 'a | IoError bool | IoThrow exn

record round =
  rd_start :: int
  rd_poll :: poll_result
  rd_time :: int
  rd_in :: bool
  rd_out :: bool
  rd_hup :: bool
  rd_bad :: bool
  rd_read :: "string io_result"
  rd_write :: "nat io_result"

text \<open>
  A computation over a state and the network: the state after it, what it returns or throws, and the
  rounds it has left. \<open>net_catch\<close> is a \<open>catch (...)\<close>, \<open>on_part\<close> a call on a part of the state.
\<close>

type_synonym ('s, 'a) net = "'s \<Rightarrow> round list \<Rightarrow> (('s \<times> 'a result) \<times> round list) option"

definition net_return :: "'a \<Rightarrow> ('s, 'a) net" where
  "net_return x s rs = Some ((s, Inr x), rs)"

definition net_throw :: "exn \<Rightarrow> ('s, 'a) net" where
  "net_throw e s rs = Some ((s, Inl e), rs)"

definition net_bind :: "('s, 'a) net \<Rightarrow> ('a \<Rightarrow> ('s, 'b) net) \<Rightarrow> ('s, 'b) net" where
  "net_bind m f s rs = (case m s rs of
      None \<Rightarrow> None
    | Some ((s, Inl e), rs) \<Rightarrow> Some ((s, Inl e), rs)
    | Some ((s, Inr x), rs) \<Rightarrow> f x s rs)"

definition net_then :: "('s, 'a) net \<Rightarrow> ('s, 'b) net \<Rightarrow> ('s, 'b) net" where
  "net_then m n = net_bind m (\<lambda>_. n)"

definition net_lift :: "'a result \<Rightarrow> ('s, 'a) net" where
  "net_lift r s rs = Some ((s, r), rs)"

definition net_get :: "('s \<Rightarrow> 'a) \<Rightarrow> ('s, 'a) net" where
  "net_get f s rs = Some ((s, Inr (f s)), rs)"

definition net_catch :: "('s, 'a) net \<Rightarrow> (exn \<Rightarrow> ('s, 'a) net) \<Rightarrow> ('s, 'a) net" where
  "net_catch m h s rs = (case m s rs of
      Some ((s, Inl e), rs) \<Rightarrow> h e s rs
    | v \<Rightarrow> v)"

definition net_modify :: "('s \<Rightarrow> 's) \<Rightarrow> ('s, unit) net" where
  "net_modify f s rs = Some ((f s, Inr ()), rs)"

definition on_part :: "('s \<Rightarrow> 'p) \<Rightarrow> ('p \<Rightarrow> 's \<Rightarrow> 's) \<Rightarrow> ('p, 'a) net \<Rightarrow> ('s, 'a) net" where
  "on_part get put m s rs = (case m (get s) rs of
      None \<Rightarrow> None
    | Some ((p, v), rs) \<Rightarrow> Some ((put p s, v), rs))"

text \<open>Every state a started computation ends in satisfies \<open>P\<close>.\<close>

definition net_ends :: "('s \<Rightarrow> bool) \<Rightarrow> (round list \<Rightarrow> (('s \<times> 'a result) \<times> round list) option) \<Rightarrow> bool" where
  "net_ends P c \<longleftrightarrow> (\<forall>rs s' v rs'. c rs = Some ((s', v), rs') \<longrightarrow> P s')"

lemma net_endsD: "net_ends P c \<Longrightarrow> c rs = Some ((s', v), rs') \<Longrightarrow> P s'"
  by (auto simp: net_ends_def)

named_theorems net_rules "rules for what a computation over the network ends in"

lemma net_ends_return [net_rules]: "P s \<Longrightarrow> net_ends P (net_return x s)"
  by (simp add: net_ends_def net_return_def)

lemma net_ends_throw [net_rules]: "P s \<Longrightarrow> net_ends P (net_throw e s)"
  by (simp add: net_ends_def net_throw_def)

lemma net_ends_modify [net_rules]: "P (f s) \<Longrightarrow> net_ends P (net_modify f s)"
  by (simp add: net_ends_def net_modify_def)

lemma net_ends_bind [net_rules]:
  "net_ends P (m s) \<Longrightarrow> (\<And>x s'. P s' \<Longrightarrow> net_ends P (f x s')) \<Longrightarrow> net_ends P (net_bind m f s)"
  by (fastforce simp: net_ends_def net_bind_def split: option.splits sum.splits)

lemma net_ends_then [net_rules]:
  "net_ends P (m s) \<Longrightarrow> (\<And>s'. P s' \<Longrightarrow> net_ends P (n s')) \<Longrightarrow> net_ends P (net_then m n s)"
  unfolding net_then_def by (rule net_ends_bind)

lemma net_ends_catch [net_rules]:
  "net_ends P (m s) \<Longrightarrow> (\<And>e s'. P s' \<Longrightarrow> net_ends P (h e s')) \<Longrightarrow> net_ends P (net_catch m h s)"
  by (fastforce simp: net_ends_def net_catch_def split: option.splits sum.splits)

lemma net_ends_part [net_rules]: "(\<And>p. P (put p s)) \<Longrightarrow> net_ends P (on_part get put m s)"
  by (auto simp: net_ends_def on_part_def split: option.splits)

lemma net_ends_if [net_rules]:
  "(b \<Longrightarrow> net_ends P c) \<Longrightarrow> (\<not> b \<Longrightarrow> net_ends P d) \<Longrightarrow> net_ends P (if b then c else d)"
  by simp

lemmas net_defs = net_return_def net_throw_def net_bind_def net_catch_def net_modify_def on_part_def

text \<open>What every end satisfies, the state together with what is returned or thrown.\<close>

definition net_post :: "('s \<Rightarrow> 'a result \<Rightarrow> bool) \<Rightarrow> (round list \<Rightarrow> (('s \<times> 'a result) \<times> round list) option) \<Rightarrow> bool" where
  "net_post Q c \<longleftrightarrow> (\<forall>rs s v rs'. c rs = Some ((s, v), rs') \<longrightarrow> Q s v)"

lemma net_postD: "net_post Q c \<Longrightarrow> c rs = Some ((s, v), rs') \<Longrightarrow> Q s v"
  unfolding net_post_def by blast

named_theorems net_posts "rules for what the ends of a computation satisfy"

lemma net_post_basic [net_posts]:
  "Q s (Inr x) \<Longrightarrow> net_post Q (net_return x s)" "Q s (Inl e) \<Longrightarrow> net_post Q (net_throw e s)"
  "Q s r \<Longrightarrow> net_post Q (net_lift r s)" "Q s (Inr (f s)) \<Longrightarrow> net_post Q (net_get f s)"
  by (simp_all add: net_post_def net_return_def net_throw_def net_lift_def net_get_def)

lemma net_post_bind:
  "net_post (\<lambda>s v. case v of Inl e \<Rightarrow> Q s (Inl e) | Inr x \<Rightarrow> net_post Q (f x s)) (m s) \<Longrightarrow> net_post Q (net_bind m f s)"
  unfolding net_post_def
proof (intro allI impI)
  fix rs s' v rs'
  assume m: "\<forall>rs t v rs'. m s rs = Some ((t, v), rs') \<longrightarrow>
      (case v of Inl e \<Rightarrow> Q t (Inl e) | Inr x \<Rightarrow> \<forall>rs s' v rs'. f x t rs = Some ((s', v), rs') \<longrightarrow> Q s' v)"
    and r: "net_bind m f s rs = Some ((s', v), rs')"
  obtain t w rs1 where t: "m s rs = Some ((t, w), rs1)" using r by (auto simp: net_bind_def split: option.splits)
  show "Q s' v" using m [rule_format, OF t] r t by (cases w) (auto simp: net_bind_def)
qed

lemma net_post_then:
  "net_post (\<lambda>s v. case v of Inl e \<Rightarrow> Q s (Inl e) | Inr x \<Rightarrow> net_post Q (n s)) (m s) \<Longrightarrow> net_post Q (net_then m n s)"
  unfolding net_then_def by (rule net_post_bind)

lemma net_post_catch:
  "net_post (\<lambda>s v. case v of Inl e \<Rightarrow> net_post Q (h e s) | Inr x \<Rightarrow> Q s (Inr x)) (m s) \<Longrightarrow> net_post Q (net_catch m h s)"
  unfolding net_post_def
proof (intro allI impI)
  fix rs s' v rs'
  assume m: "\<forall>rs t v rs'. m s rs = Some ((t, v), rs') \<longrightarrow>
      (case v of Inl e \<Rightarrow> \<forall>rs s' v rs'. h e t rs = Some ((s', v), rs') \<longrightarrow> Q s' v | Inr x \<Rightarrow> Q t (Inr x))"
    and r: "net_catch m h s rs = Some ((s', v), rs')"
  obtain t w rs1 where t: "m s rs = Some ((t, w), rs1)" using r by (auto simp: net_catch_def split: option.splits sum.splits)
  show "Q s' v" using m [rule_format, OF t] r t by (cases w) (auto simp: net_catch_def)
qed

lemma net_post_mono: "net_post P c \<Longrightarrow> (\<And>s v. P s v \<Longrightarrow> Q s v) \<Longrightarrow> net_post Q c"
  by (auto simp: net_post_def)

lemma net_post_conj: "net_post P c \<Longrightarrow> net_post Q c \<Longrightarrow> net_post (\<lambda>s v. P s v \<and> Q s v) c"
  by (auto simp: net_post_def)

section \<open>Request line and headers\<close>

definition is_alpha :: "char \<Rightarrow> bool" where
  "is_alpha c \<longleftrightarrow> (65 \<le> byte_val c \<and> byte_val c \<le> 90) \<or> (97 \<le> byte_val c \<and> byte_val c \<le> 122)"

definition slash :: char where "slash = CHR ''/''"
definition colon :: char where "colon = CHR '':''"
definition qmark :: char where "qmark = CHR ''?''"
definition equals :: char where "equals = CHR ''=''"
definition semicolon :: char where "semicolon = CHR '';''"

definition regRequestLine :: vplregex where
  "regRequestLine = vplregex_extended (seqs [Bol, Grp 1 (Plus (NotCls (\<lambda>c. c = blank))), Chr blank,
     Grp 2 (Plus (NotCls (\<lambda>c. c = blank))), Chr blank, Grp 3 (Plus (NotCls (\<lambda>c. c = blank))), Eol])"

definition regHeader :: vplregex where
  "regHeader = vplregex_extended (seqs [Bol, Star (Cls is_blank_tab),
     Grp 1 (Plus (NotCls (\<lambda>c. is_blank_tab c \<or> c = colon))), Chr colon, Star (Cls is_blank_tab),
     Grp 2 (Star AnyChar), Eol])"

text \<open>In \<open>[^\\/]\<close> the backslash is an ordinary member: a host has neither a backslash nor a slash.\<close>

definition regURL :: vplregex where
  "regURL = vplregex_extended (seqs [Bol, Opt (Grp 1 (Plus (Cls is_alpha))),
     Opt (Grp 2 (seqs [Chr colon, Chr slash, Chr slash, Plus (NotCls (\<lambda>c. c = backslash \<or> c = slash))])),
     Grp 3 (Star (NotCls (\<lambda>c. c = qmark))), Opt (Cls (\<lambda>c. c = qmark)), Grp 4 (Star AnyChar), Eol])"

definition regCookie :: vplregex where
  "regCookie = vplregex_extended (seqs [Grp 1 (Plus (NotCls (\<lambda>c. c = equals))), Chr equals,
     Grp 2 (Plus (NotCls (\<lambda>c. c = semicolon))), Opt (Grp 3 (Seq (Chr semicolon) (Chr blank)))])"

definition parseRequestLine :: "sock \<Rightarrow> string \<Rightarrow> sock \<times> unit result" where
  "parseRequestLine k line = (let k = k\<lparr>sk_method := [], sk_URL := [], sk_version := [],
       sk_protocol := [], sk_URLPath := []\<rparr> in
     case vplregex_search regRequestLine line 5 of
       None \<Rightarrow> (k, Inl (HttpExn BadRequestCode ''Erroneous request line'' line))
     | Some m \<Rightarrow>
       let k = k\<lparr>sk_method := m ! 1, sk_URL := m ! 2, sk_version := m ! 3\<rparr> in
       (case vplregex_search regURL (sk_URL k) 5 of
         None \<Rightarrow> (k, Inl (HttpExn BadRequestCode ''Erroneous URL'' (sk_URL k)))
       | Some m \<Rightarrow> (k\<lparr>sk_protocol := m ! 1, sk_URLPath := m ! 3, sk_queryString := m ! 4\<rparr>, Inr ())))"

definition getHeader :: "sock \<Rightarrow> string \<Rightarrow> string" where
  "getHeader k name = (case sk_headers k (toUppercase name) of Some v \<Rightarrow> v | None \<Rightarrow> [])"

definition getCookie :: "sock \<Rightarrow> string \<Rightarrow> string" where
  "getCookie k cookie = (case sk_cookies k cookie of Some v \<Rightarrow> v | None \<Rightarrow> [])"

text \<open>
  \<open>parseCookies\<close>: each round removes as many bytes as the whole match has, at least three (proved
  below), so the number of bytes bounds the rounds.
\<close>

fun cookie_loop :: "nat \<Rightarrow> (string \<Rightarrow> string option) \<Rightarrow> string \<Rightarrow> (string \<Rightarrow> string option)" where
  "cookie_loop 0 cookies rawcookies = cookies"
| "cookie_loop (Suc n) cookies rawcookies = (case vplregex_search regCookie rawcookies 3 of
      None \<Rightarrow> cookies
    | Some m \<Rightarrow> cookie_loop n (cookies(m ! 1 \<mapsto> m ! 2)) (drop (length (m ! 0)) rawcookies))"

definition parseCookies :: "sock \<Rightarrow> string \<Rightarrow> sock" where
  "parseCookies k value = k\<lparr>sk_cookies := cookie_loop (Suc (length value)) (sk_cookies k) value\<rparr>"

definition parseHeader :: "sock \<Rightarrow> string \<Rightarrow> sock \<times> unit result" where
  "parseHeader k line = (case vplregex_search regHeader line 3 of
      None \<Rightarrow> (k, Inl (HttpExn BadRequestCode ''Erroneous header'' line))
    | Some m \<Rightarrow>
      let field = toUppercase (m ! 1); value = m ! 2;
        k = k\<lparr>sk_headers := (sk_headers k)(field \<mapsto> value)\<rparr> in
      (if field = ''COOKIE'' then parseCookies k value else k, Inr ()))"

text \<open>\<open>processHeaders\<close>: skip empty lines, the request line, then headers up to an empty line.\<close>

function skip_blank_lines :: "string \<Rightarrow> nat \<Rightarrow> string \<times> nat" where
  "skip_blank_lines input offset = (let (line, next) = getLine input offset in
     if line = [] \<and> next < length input then skip_blank_lines input next else (line, next))"
  by pat_completeness auto
termination
  by (relation "measure (\<lambda>(input, offset). length input - offset)") (auto dest: getLine_step [OF sym])

function header_lines :: "sock \<Rightarrow> string \<Rightarrow> nat \<Rightarrow> sock \<times> unit result" where
  "header_lines k input offset = (let (line, next) = getLine input offset in
     if line = [] then (k, Inr ())
     else (case parseHeader k line of
         (k, Inl e) \<Rightarrow> (k, Inl e)
       | (k, Inr u) \<Rightarrow> header_lines k input next))"
  by pat_completeness auto
termination
  by (relation "measure (\<lambda>(k, input, offset). length input - offset)") (auto dest: getLine_step [OF sym])

declare skip_blank_lines.simps [simp del] header_lines.simps [simp del]

definition processHeaders :: "sock \<Rightarrow> string \<Rightarrow> sock \<times> unit result" where
  "processHeaders k input = (let (line, offset) = skip_blank_lines input 0 in
     case parseRequestLine k line of
       (k, Inl e) \<Rightarrow> (k, Inl e)
     | (k, Inr u) \<Rightarrow> header_lines k input offset)"

section \<open>Receiving\<close>

text \<open>How a round of a loop ends: go round again, leave the loop, or leave the function.\<close>

datatype 'a control = Again sock int | Break sock | Return sock "'a result"

definition closeFlag :: "sock \<Rightarrow> sock" where
  "closeFlag k = k\<lparr>sk_closed := True\<rparr>"

definition header_end :: string where "header_end = crlf @ crlf"

definition read_step :: "int \<Rightarrow> int \<Rightarrow> int \<Rightarrow> sock \<Rightarrow> string io_result \<Rightarrow> string control" where
  "read_step sizeToReceive currentTime timeLimit k io = (case io of
      IoThrow e \<Rightarrow> Return k (Inl e)
    | IoError gone \<Rightarrow>
        if sk_websocketProtocol k \<and> gone then Break (closeFlag k)
        else Return k (Inl (HttpExn BadRequestCode ''Error reading data'' []))
    | IoDone got \<Rightarrow>
        if got = [] then Break (closeFlag k)
        else let buffer = sk_readBuffer k @ take jail_net_buffer_size got;
            k = k\<lparr>sk_readBuffer := buffer\<rparr> in
          if sk_header k = [] then
            (case find_str header_end buffer 0 of
               Some pos \<Rightarrow> let header = substr buffer 0 (pos + 4) in
                 (case processHeaders (k\<lparr>sk_header := header\<rparr>) header of
                    (k, Inl e) \<Rightarrow> Return k (Inl e)
                  | (k, Inr u) \<Rightarrow> Return (k\<lparr>sk_readBuffer := drop (pos + 4) buffer\<rparr>) (Inr []))
             | None \<Rightarrow> if int (length buffer) > jail_headers_size_limit
                 then Return k (Inl (HttpExn RequestEntityTooLargeCode ''Http headers too large'' []))
                 else Again k (currentTime + jail_socket_timeout))
          else if sizeToReceive = 0 \<or> int (length buffer) \<ge> sizeToReceive then Break k
          else Again k (currentTime + jail_socket_timeout))"

definition receive_round :: "int \<Rightarrow> int \<Rightarrow> int \<Rightarrow> sock \<Rightarrow> round \<Rightarrow> string control" where
  "receive_round sizeToReceive timeLimit fullTimeLimit k r =
     (if rd_poll r = PollFail then
        Return k (Inl (HttpExn InternalServerErrorCode ''Error poll reading data'' []))
      else let currentTime = rd_time r in
      if currentTime > timeLimit \<or> currentTime > fullTimeLimit then
        (if sizeToReceive = 0 then Return k (Inr [])
         else if sk_websocketProtocol k then Break (closeFlag k)
         else Return k (Inl (HttpExn RequestTimeoutCode ''Socket read timeout'' [])))
      else if rd_poll r = PollIdle \<and> sizeToReceive = 0 then Break k
      else if rd_poll r = PollIdle then Again k timeLimit
      else case (if rd_in r then read_step sizeToReceive currentTime timeLimit k (rd_read r)
                 else Again k timeLimit) of
          Again k timeLimit \<Rightarrow>
            if rd_hup r then Break (closeFlag k)
            else if rd_bad r then
              (if sk_websocketProtocol k then Break (closeFlag k)
               else Return k (Inl (HttpExn InternalServerErrorCode ''Error reading data'' [])))
            else Again k timeLimit
        | c \<Rightarrow> c)"

definition receive_rest :: "sock \<Rightarrow> sock \<times> string result" where
  "receive_rest k = (k\<lparr>sk_readBuffer := []\<rparr>, Inr (sk_readBuffer k))"

fun receive_loop :: "int \<Rightarrow> int \<Rightarrow> int \<Rightarrow> sock \<Rightarrow> round list \<Rightarrow> ((sock \<times> string result) \<times> round list) option" where
  "receive_loop sz timeLimit full k [] = None"
| "receive_loop sz timeLimit full k (r # rs) = (case receive_round sz timeLimit full k r of
      Return k v \<Rightarrow> Some ((k, v), rs)
    | Break k \<Rightarrow> Some (receive_rest k, rs)
    | Again k timeLimit \<Rightarrow> receive_loop sz timeLimit full k rs)"

text \<open>The clock when a loop starts, its limits being counted from there.\<close>

definition clock :: "round list \<Rightarrow> int" where
  "clock rs = (case rs of [] \<Rightarrow> 0 | r # _ \<Rightarrow> rd_start r)"

text \<open>\<open>receive(sizeToReceive)\<close>.\<close>

definition receive_from :: "int \<Rightarrow> sock \<Rightarrow> round list \<Rightarrow> ((sock \<times> string result) \<times> round list) option" where
  "receive_from sizeToReceive k rs =
     (if sk_closed k then Some (receive_rest k, rs)
      else let sz = (if sk_header k = [] then jail_headers_size_limit else sizeToReceive) in
        if sz > 0 \<and> int (length (sk_readBuffer k)) \<ge> sz \<and> sk_header k \<noteq> [] then
          Some ((k\<lparr>sk_readBuffer := drop (nat sz) (sk_readBuffer k)\<rparr>,
                 Inr (substr (sk_readBuffer k) 0 (nat sz))), rs)
        else receive_loop sz (clock rs + jail_socket_timeout) (clock rs + jail_socket_requesttimeout) k rs)"

definition readHeaders :: "sock \<Rightarrow> round list \<Rightarrow> ((sock \<times> unit result) \<times> round list) option" where
  "readHeaders k rs = (if sk_header k = [] then
       (case receive_from 0 k rs of
          None \<Rightarrow> None
        | Some ((k, v), rs) \<Rightarrow> Some ((k, bind_result v (\<lambda>_. Inr ())), rs))
     else Some ((k, Inr ()), rs))"

section \<open>Sending\<close>

definition write_step :: "int \<Rightarrow> int \<Rightarrow> nat \<Rightarrow> sock \<Rightarrow> nat io_result \<Rightarrow> nat \<times> unit control" where
  "write_step currentTime timeLimit offset k io = (let toWrite = min jail_net_buffer_size (length (sk_writeBuffer k) - offset) in
     case io of
       IoThrow e \<Rightarrow> (offset, Return k (Inl e))
     | IoError gone \<Rightarrow>
         (offset, if sk_websocketProtocol k \<and> gone then Break (closeFlag k)
            else Return k (Inl (HttpExn InternalServerErrorCode ''Socket write data error'' [])))
     | IoDone n \<Rightarrow> let sizeWritten = min n toWrite in
         if sizeWritten = 0 then (offset, Break (closeFlag k))
         else (offset + sizeWritten,
               Again (k\<lparr>sk_wire := sk_wire k @ substr (sk_writeBuffer k) offset sizeWritten\<rparr>)
                 (currentTime + jail_socket_timeout)))"

definition send_round :: "bool \<Rightarrow> int \<Rightarrow> int \<Rightarrow> nat \<Rightarrow> sock \<Rightarrow> round \<Rightarrow> nat \<times> unit control" where
  "send_round async timeLimit fullTimeLimit offset k r =
     (if rd_poll r = PollFail then
        (offset, Return k (Inl (HttpExn InternalServerErrorCode ''Error poll writing data'' [])))
      else if rd_poll r = PollIdle \<and> async then (offset, Break k)
      else if rd_poll r = PollIdle then (offset, Again k timeLimit)
      else let currentTime = rd_time r in
      if currentTime > timeLimit \<or> currentTime > fullTimeLimit then
        (offset, if sk_websocketProtocol k then Break (closeFlag k)
           else Return k (Inl (CodeExn RequestTimeoutCode)))
      else case (if rd_out r then write_step currentTime timeLimit offset k (rd_write r)
                 else (offset, Again k timeLimit)) of
          (offset, Again k timeLimit) \<Rightarrow>
            if rd_hup r then (offset, Break (closeFlag k))
            else if rd_bad r then
              (offset, if sk_websocketProtocol k then Break (closeFlag k)
                 else Return k (Inl (HttpExn InternalServerErrorCode ''Socket write data error'' [])))
            else if offset \<ge> length (sk_writeBuffer k) then (offset, Break k)
            else (offset, Again k timeLimit)
        | c \<Rightarrow> c)"

fun send_loop :: "bool \<Rightarrow> int \<Rightarrow> int \<Rightarrow> nat \<Rightarrow> sock \<Rightarrow> round list \<Rightarrow> ((sock \<times> unit result) \<times> round list) option" where
  "send_loop async timeLimit full offset k [] = None"
| "send_loop async timeLimit full offset k (r # rs) = (case send_round async timeLimit full offset k r of
      (offset, Return k v) \<Rightarrow> Some ((k, v), rs)
    | (offset, Break k) \<Rightarrow> Some ((k\<lparr>sk_writeBuffer := drop offset (sk_writeBuffer k)\<rparr>, Inr ()), rs)
    | (offset, Again k timeLimit) \<Rightarrow> send_loop async timeLimit full offset k rs)"

definition socket_send :: "string \<Rightarrow> bool \<Rightarrow> sock \<Rightarrow> round list \<Rightarrow> ((sock \<times> unit result) \<times> round list) option" where
  "socket_send data async k rs =
     (if sk_closed k then Some ((k, Inr ()), rs)
      else send_loop async (clock rs + jail_socket_timeout) (clock rs + jail_socket_requesttimeout) 0
             (k\<lparr>sk_writeBuffer := sk_writeBuffer k @ data\<rparr>) rs)"

text \<open>
  \<open>wait\<close>: its own \<open>poll\<close> is the first round; a pending write that can go on is sent, and a write
  that throws makes \<open>wait\<close> throw.
\<close>

definition socket_wait :: "sock \<Rightarrow> round list \<Rightarrow> ((sock \<times> bool result) \<times> round list) option" where
  "socket_wait k rs = (if sk_readBuffer k \<noteq> [] then Some ((k, Inr False), rs)
     else case rs of [] \<Rightarrow> None
     | r # rs \<Rightarrow>
       if sk_writeBuffer k \<noteq> [] \<and> rd_poll r = PollReady \<and> rd_out r then
         (case socket_send [] False k rs of None \<Rightarrow> None
          | Some ((k, v), rs) \<Rightarrow> Some ((k, bind_result v (\<lambda>_. Inr False)), rs))
       else Some ((k, Inr (rd_poll r = PollIdle)), rs))"

definition markWebSocketProtocol :: "sock \<Rightarrow> sock" where
  "markWebSocketProtocol k = k\<lparr>sk_websocketProtocol := True\<rparr>"

definition socket_close :: "sock \<Rightarrow> sock" where
  "socket_close k = (if \<not> sk_closed k then closeFlag k else k)"

section \<open>TLS retries\<close>

datatype ssl_code = SslNone | SslZeroReturn | SslWantRead | SslWantWrite | SslWantConnect | SslWantAccept
  | SslSyscall | SslSsl | SslOther

text \<open>
  \<open>SSLRetry::end\<close>: the call's result was positive or not, the code, for \<open>SSL_ERROR_SYSCALL\<close>
  whether the result or \<open>errno\<close> says the peer has gone, for \<open>SSL_ERROR_SSL\<close> whether the reason is
  an unexpected end of file or a record-layer failure, then the result of \<open>poll\<close> and the clock after
  it. \<open>Inr (Some g)\<close> ends the loop, \<open>g\<close> the flag \<open>peerClosed\<close>; \<open>Inr None\<close> repeats the call.
\<close>

record ssl_answer =
  sa_positive :: bool
  sa_code :: ssl_code
  sa_gone :: bool
  sa_eof :: bool
  sa_record_failure :: bool
  sa_poll :: poll_result
  sa_time :: int

definition ssl_exn :: "code_number \<Rightarrow> string \<Rightarrow> exn" where
  "ssl_exn code message = HttpExn code message []"

definition SSLRetry_end :: "bool \<Rightarrow> string \<Rightarrow> int \<Rightarrow> ssl_answer \<Rightarrow> bool option result" where
  "SSLRetry_end webSocketConnection message timeLimit a =
     (if sa_positive a then Inr (Some False)
      else let again = (case sa_poll a of
            PollFail \<Rightarrow> Inl (ssl_exn InternalServerErrorCode (message @ '': poll error''))
          | p \<Rightarrow> if sa_time a > timeLimit \<or> p = PollIdle
              then Inl (ssl_exn RequestTimeoutCode (message @ '': timeout'')) else Inr None) in
      (case sa_code a of
         SslNone \<Rightarrow> Inr (Some False)
       | SslZeroReturn \<Rightarrow> Inr (Some True)
       | SslWantRead \<Rightarrow> again
       | SslWantWrite \<Rightarrow> again
       | SslWantConnect \<Rightarrow> again
       | SslWantAccept \<Rightarrow> again
       | SslSyscall \<Rightarrow> if sa_gone a then Inr (Some True)
           else Inl (ssl_exn InternalServerErrorCode (message @ ''SSL_ERROR_SYSCALL: ''))
       | SslSsl \<Rightarrow> if sa_eof a then Inr (Some True)
           else if webSocketConnection \<and> sa_record_failure a then Inr (Some True)
           else Inl (ssl_exn InternalServerErrorCode (message @ ''SSL_ERROR_SSL ''))
       | SslOther \<Rightarrow> Inl (ssl_exn InternalServerErrorCode (message @ ''UNKNOWN SSL_ERROR ''))))"

text \<open>
  \<open>SSLSocket::netRead\<close> and \<open>netWrite\<close>: repeat the TLS call until the retry ends; a closed peer is
  the result 0. \<open>v\<close> pairs each answer with what the call returned.
\<close>

fun ssl_call :: "bool \<Rightarrow> string \<Rightarrow> int \<Rightarrow> 'a \<Rightarrow> ('a \<times> ssl_answer) list \<Rightarrow> 'a io_result option" where
  "ssl_call ws message timeLimit nothing [] = None"
| "ssl_call ws message timeLimit nothing ((v, a) # rest) = (case SSLRetry_end ws message timeLimit a of
      Inl e \<Rightarrow> Some (IoThrow e)
    | Inr None \<Rightarrow> ssl_call ws message timeLimit nothing rest
    | Inr (Some peerClosed) \<Rightarrow> Some (IoDone (if peerClosed then nothing else v)))"

section \<open>What the patterns accept\<close>

definition no_blank :: "string \<Rightarrow> bool" where
  "no_blank s \<longleftrightarrow> s \<noteq> [] \<and> blank \<notin> set s \<and> nul \<notin> set s"

lemma names_distinct [simp]:
  "blank \<noteq> nul" "nul \<noteq> blank" "tab \<noteq> nul" "nul \<noteq> tab" "colon \<noteq> nul" "nul \<noteq> colon" "cr \<noteq> nul" "nul \<noteq> cr"
  "lf \<noteq> nul" "nul \<noteq> lf" "colon \<noteq> blank" "blank \<noteq> colon" "colon \<noteq> tab" "tab \<noteq> colon"
  "cr \<noteq> colon" "colon \<noteq> cr" "lf \<noteq> colon" "colon \<noteq> lf" "cr \<noteq> blank" "blank \<noteq> cr" "lf \<noteq> blank" "blank \<noteq> lf"
  by (simp_all add: char_names colon_def)

lemma regRequestLine_search:
  assumes "no_blank a" "no_blank b" "no_blank c"
  shows "vplregex_search regRequestLine (a @ blank # b @ blank # c) 5 =
    Some [a @ blank # b @ blank # c, a, b, c, []]"
proof -
  let ?s = "a @ blank # b @ blank # c" and ?l = "length a" and ?m = "Suc (length a + length b)"
  let ?p = "\<lambda>c. c = blank" and ?x = regRequestLine
  note ne = assms [unfolded no_blank_def]
  note X = regRequestLine_def
  have n: "\<forall>d \<in> set a. \<not> ?p d" "\<forall>d \<in> set b. \<not> ?p d" "\<forall>d \<in> set c. \<not> ?p d" using ne by auto
  have 1: "rx_hd ?x ?s (Grp 1 (Plus (NotCls ?p))) 0 e ?l (e(1 \<mapsto> (0, ?l)))" for e
    unfolding X by (rule rx_hd_word [of _ "[]" a "blank # b @ blank # c"]) (use ne n in simp_all)
  have 2: "rx_hd ?x ?s (Chr blank) ?l e (Suc ?l) e" for e
    by (rule rx_hd_Chr [of _ a _ "b @ blank # c"]) simp_all
  have 3: "rx_hd ?x ?s (Grp 2 (Plus (NotCls ?p))) (Suc ?l) e ?m (e(2 \<mapsto> (Suc ?l, ?m)))" for e
    unfolding X by (rule rx_hd_word [of _ "a @ [blank]" b "blank # c"]) (use ne n in simp_all)
  have 4: "rx_hd ?x ?s (Chr blank) ?m e (Suc ?m) e" for e
    by (rule rx_hd_Chr [of _ "a @ blank # b" _ c]) simp_all
  have 5: "rx_hd ?x ?s (Grp 3 (Plus (NotCls ?p))) (Suc ?m) e (length ?s) (e(3 \<mapsto> (Suc ?m, length ?s)))" for e
    unfolding X by (rule rx_hd_word [of _ "a @ blank # b @ [blank]" c "[]"]) (use ne n in simp_all)
  have "rx_hd ?x ?s (rx_pattern ?x) 0 Map.empty (length ?s)
      [1 \<mapsto> (0, ?l), 2 \<mapsto> (Suc ?l, ?m), 3 \<mapsto> (Suc ?m, length ?s)]"
    using rx_hd_Seq [OF rx_hd_Bol rx_hd_Seq [OF 1 rx_hd_Seq [OF 2 rx_hd_Seq [OF 3 rx_hd_Seq [OF 4
      rx_hd_Seq [OF 5 rx_hd_Eol [OF refl]]]]]]]
    by (simp only: X extended_simps seqs.simps)
  from search_hd [OF this] ne show ?thesis
    by (auto simp: upt_groups group_text_def max_match_def substr_def)
qed

definition header_name :: "string \<Rightarrow> bool" where
  "header_name s \<longleftrightarrow> s \<noteq> [] \<and> set s \<inter> {blank, tab, colon, nul, cr, lf} = {}"

definition header_value :: "string \<Rightarrow> bool" where
  "header_value s \<longleftrightarrow> (s = [] \<or> \<not> is_blank_tab (hd s)) \<and> set s \<inter> {nul, cr, lf} = {}"

lemma regHeader_search:
  assumes a: "header_name a" and b: "header_value b"
  shows "vplregex_search regHeader (a @ colon # blank # b) 3 = Some [a @ colon # blank # b, a, b]"
proof -
  let ?s = "a @ colon # blank # b" and ?l = "length a" and ?x = regHeader
  note ne = a [unfolded header_name_def] b [unfolded header_value_def]
  note X = regHeader_def
  have na: "\<forall>d \<in> set a. \<not> (is_blank_tab d \<or> d = colon)" "\<not> is_blank_tab (hd a)"
    using ne by (cases a; auto simp: is_blank_tab_def)+
  have ic: "in_class ?x p = p" for p by (simp add: X)
  have 1: "rx_hd ?x ?s (Star (Cls is_blank_tab)) 0 e 0 e" for e
    by (rule rx_hd_star_Cls [of _ "[]" "[]" ?s]) (use ne na ic in simp_all)
  have 2: "rx_hd ?x ?s (Grp 1 (Plus (NotCls (\<lambda>c. is_blank_tab c \<or> c = colon)))) 0 e ?l (e(1 \<mapsto> (0, ?l)))" for e
    unfolding X by (rule rx_hd_word [of _ "[]" a "colon # blank # b"]) (use ne na in simp_all)
  have 3: "rx_hd ?x ?s (Chr colon) ?l e (Suc ?l) e" for e
    by (rule rx_hd_Chr [of _ a _ "blank # b"]) simp_all
  have 4: "rx_hd ?x ?s (Star (Cls is_blank_tab)) (Suc ?l) e (Suc (Suc ?l)) e" for e
    by (rule rx_hd_star_Cls [of _ "a @ [colon]" "[blank]" b]) (use ne ic in \<open>auto simp: is_blank_tab_def\<close>)
  have 5: "rx_hd ?x ?s (Grp 2 (Star AnyChar)) (Suc (Suc ?l)) e (length ?s) (e(2 \<mapsto> (Suc (Suc ?l), length ?s)))" for e
    unfolding X by (rule rx_hd_Grp, rule rx_hd_star_Any [of _ "a @ [colon, blank]" b]) simp_all
  have "rx_hd ?x ?s (rx_pattern ?x) 0 Map.empty (length ?s) [1 \<mapsto> (0, ?l), 2 \<mapsto> (Suc (Suc ?l), length ?s)]"
    using rx_hd_Seq [OF rx_hd_Bol rx_hd_Seq [OF 1 rx_hd_Seq [OF 2 rx_hd_Seq [OF 3 rx_hd_Seq [OF 4
      rx_hd_Seq [OF 5 rx_hd_Eol [OF refl]]]]]]]
    by (simp only: X extended_simps seqs.simps)
  from search_hd [OF this] ne show ?thesis
    by (auto simp: upt_groups group_text_def max_match_def substr_def)
qed

text \<open>An origin-form URL: a path that begins with a slash, and a query.\<close>

definition url_path :: "string \<Rightarrow> bool" where
  "url_path s \<longleftrightarrow> s \<noteq> [] \<and> hd s = slash \<and> qmark \<notin> set s \<and> nul \<notin> set s"

lemma regURL_search:
  assumes a: "url_path a" and b: "nul \<notin> set b"
  shows "vplregex_search regURL (a @ qmark # b) 5 = Some [a @ qmark # b, [], [], a, b]"
proof -
  let ?s = "a @ qmark # b" and ?l = "length a" and ?x = regURL
  note ne = a [unfolded url_path_def]
  note X = regURL_def
  obtain a' where a': "a = slash # a'" using ne by (cases a) auto
  have ch: "\<not> is_alpha slash" "slash \<noteq> colon" by (simp_all add: is_alpha_def slash_def colon_def)
  have ic: "in_class ?x p = p" for p by (simp add: X)
  have 1: "rx_hd ?x ?s (Opt (Grp 1 (Plus (Cls is_alpha)))) 0 e 0 e" for e
    by (rule rx_hd_Opt_none) (use a' ch ic in \<open>simp add: Plus_def step_char_def\<close>)
  have 2: "rx_hd ?x ?s (Opt (Grp 2 (Seq (Chr colon) r))) 0 e 0 e" for e r
    by (rule rx_hd_Opt_none) (use a' ch ic in \<open>simp add: Chr_def step_char_def\<close>)
  have 3: "rx_hd ?x ?s (Grp 3 (Star (NotCls (\<lambda>c. c = qmark)))) 0 e ?l (e(3 \<mapsto> (0, ?l)))" for e
    unfolding X by (rule rx_hd_Grp, rule rx_hd_star_NotCls [of _ "[]" a "qmark # b"]) (use ne in auto)
  have 4: "rx_hd ?x ?s (Opt (Cls (\<lambda>c. c = qmark))) ?l e (Suc ?l) e" for e
    by (rule rx_hd_Opt, rule rx_hd_Cls [of _ a qmark b]) (simp_all add: in_class_def)
  have 5: "rx_hd ?x ?s (Grp 4 (Star AnyChar)) (Suc ?l) e (length ?s) (e(4 \<mapsto> (Suc ?l, length ?s)))" for e
    unfolding X by (rule rx_hd_Grp, rule rx_hd_star_Any [of _ "a @ [qmark]" b]) simp_all
  have "rx_hd ?x ?s (rx_pattern ?x) 0 Map.empty (length ?s) [3 \<mapsto> (0, ?l), 4 \<mapsto> (Suc ?l, length ?s)]"
    using rx_hd_Seq [OF rx_hd_Bol rx_hd_Seq [OF 1 rx_hd_Seq [OF 2 rx_hd_Seq [OF 3 rx_hd_Seq [OF 4
      rx_hd_Seq [OF 5 rx_hd_Eol [OF refl]]]]]]]
    by (simp only: X extended_simps seqs.simps)
  from search_hd [OF this] ne b show ?thesis
    by (auto simp: upt_groups group_text_def max_match_def substr_def qmark_def nul_def)
qed

section \<open>Cookies\<close>

text \<open>A match of the cookie pattern has at least a name byte, the sign and a value byte.\<close>

lemma cookie_match_length:
  assumes "vplregex_search regCookie t 3 = Some m"
  shows "3 \<le> length (m ! 0)" and "length (m ! 0) \<le> length t"
proof -
  obtain i j c where r: "regexec regCookie (c_str t) = Some (i, j, c)" and m: "m ! 0 = substr t i (j - i)"
    using assms by (auto simp: vplregex_search_def group_text_def upt_groups split: option.splits)
  note R = regexec_Some [OF r]
  have "i + 3 \<le> j" using R(4) unfolding regCookie_def extended_simps seqs.simps Chr_def
    by (auto simp: numeral_3_eq_3)
  moreover have "j \<le> length t"
    using R(3) length_takeWhile_le [of "\<lambda>c. c \<noteq> nul" t] by (simp add: c_str_def)
  ultimately show "3 \<le> length (m ! 0)" "length (m ! 0) \<le> length t" by (simp_all add: m substr_def)
qed

lemma cookie_loop_fuel: "length t < n \<Longrightarrow> cookie_loop n c t = cookie_loop (Suc (length t)) c t"
proof (induction "length t" arbitrary: n t c rule: less_induct)
  case less
  then obtain p where n: "n = Suc p" by (cases n) auto
  show ?case
  proof (cases "vplregex_search regCookie t 3")
    case None
    then show ?thesis by (simp add: n)
  next
    case (Some m)
    let ?t = "drop (length (m ! 0)) t"
    have l: "length ?t < length t" using cookie_match_length [OF Some] by simp
    then have "cookie_loop p d ?t = cookie_loop (Suc (length ?t)) d ?t"
      "cookie_loop (length t) d ?t = cookie_loop (Suc (length ?t)) d ?t" for d
      using less.hyps [OF l] less.prems n by simp_all
    then show ?thesis using Some by (simp add: n)
  qed
qed

section \<open>A whole request header\<close>

definition header_line :: "string \<times> string \<Rightarrow> string" where
  "header_line h = fst h @ colon # blank # snd h"

definition request_text :: "string \<Rightarrow> string \<Rightarrow> string \<Rightarrow> string \<Rightarrow> (string \<times> string) list \<Rightarrow> string" where
  "request_text m path query v hs =
     (m @ blank # (path @ qmark # query) @ blank # v) @ crlf @
     concat (map (\<lambda>h. header_line h @ crlf) hs) @ crlf"

definition plain_header :: "string \<times> string \<Rightarrow> bool" where
  "plain_header h \<longleftrightarrow> header_name (fst h) \<and> header_value (snd h) \<and> toUppercase (fst h) \<noteq> ''COOKIE''"

definition add_headers :: "(string \<Rightarrow> string option) \<Rightarrow> (string \<times> string) list \<Rightarrow> (string \<Rightarrow> string option)" where
  "add_headers = foldl (\<lambda>m h. m(toUppercase (fst h) \<mapsto> snd h))"

definition no_crlf :: "string \<Rightarrow> bool" where
  "no_crlf s \<longleftrightarrow> cr \<notin> set s \<and> lf \<notin> set s"

lemma parseHeader_plain:
  assumes "plain_header h"
  shows "parseHeader k (header_line h) =
    (k\<lparr>sk_headers := (sk_headers k)(toUppercase (fst h) \<mapsto> snd h)\<rparr>, Inr ())"
  using assms regHeader_search [of "fst h" "snd h"]
  by (simp add: plain_header_def header_line_def parseHeader_def Let_def numeral_2_eq_2)

lemma header_line_no_lf: "plain_header h \<Longrightarrow> lf \<notin> set (header_line h) \<and> header_line h \<noteq> []"
  by (auto simp: plain_header_def header_line_def header_name_def header_value_def)

lemma header_lines_plain:
  assumes "\<forall>h \<in> set hs. plain_header h"
  shows "header_lines k (pre @ concat (map (\<lambda>h. header_line h @ crlf) hs) @ crlf) (length pre) =
    (k\<lparr>sk_headers := add_headers (sk_headers k) hs\<rparr>, Inr ())"
  using assms
proof (induction hs arbitrary: k pre)
  case Nil
  have "getLine (pre @ crlf) (length pre) = ([], length pre + 2)"
    using getLine_crlf [of "[]" pre "[]"] by simp
  then show ?case by (simp add: header_lines.simps add_headers_def)
next
  case (Cons h hs)
  let ?rest = "concat (map (\<lambda>h. header_line h @ crlf) hs) @ crlf"
  have g: "getLine (pre @ header_line h @ crlf @ ?rest) (length pre) =
      (header_line h, length pre + length (header_line h) + 2)"
    using Cons.prems header_line_no_lf by (intro getLine_crlf) simp
  have l: "length pre + length (header_line h) + 2 = length (pre @ header_line h @ crlf)"
    by (simp add: crlf_def)
  let ?k = "k\<lparr>sk_headers := (sk_headers k)(toUppercase (fst h) \<mapsto> snd h)\<rparr>"
  have "header_lines k (pre @ header_line h @ crlf @ ?rest) (length pre) =
      header_lines ?k ((pre @ header_line h @ crlf) @ ?rest) (length (pre @ header_line h @ crlf))"
    using Cons.prems header_line_no_lf [of h] g l
    by (subst header_lines.simps) (simp add: parseHeader_plain)
  also have "\<dots> = (?k\<lparr>sk_headers := add_headers (sk_headers ?k) hs\<rparr>, Inr ())"
    using Cons.IH [of "?k" "pre @ header_line h @ crlf"] Cons.prems by (simp add: fun_upd_def)
  finally show ?case by (simp add: add_headers_def)
qed

lemma processHeaders_request:
  assumes m: "no_blank m" "no_crlf m" and p: "url_path path" "no_crlf path" "blank \<notin> set path"
    and q: "blank \<notin> set query" "nul \<notin> set query" "no_crlf query" and v: "no_blank v" "no_crlf v"
    and hs: "\<forall>h \<in> set hs. plain_header h"
  shows "processHeaders k (request_text m path query v hs) =
    (k\<lparr>sk_method := m, sk_URL := path @ qmark # query, sk_version := v, sk_protocol := [],
       sk_URLPath := path, sk_queryString := query, sk_headers := add_headers (sk_headers k) hs\<rparr>, Inr ())"
proof -
  let ?url = "path @ qmark # query"
  let ?line = "m @ blank # ?url @ blank # v"
  have url: "no_blank ?url" using p q by (auto simp: no_blank_def url_path_def qmark_def char_names)
  have lf: "lf \<notin> set ?line" using m p q v by (auto simp: no_crlf_def qmark_def char_names)
  have "getLine (request_text m path query v hs) 0 = (?line, length ?line + 2)"
    using getLine_crlf [OF lf, of "[]"] by (simp add: request_text_def)
  then have sk: "skip_blank_lines (request_text m path query v hs) 0 = (?line, length (?line @ crlf))"
    by (subst skip_blank_lines.simps) (simp add: crlf_def)
  have pr: "parseRequestLine k ?line = (k\<lparr>sk_method := m, sk_URL := ?url, sk_version := v,
      sk_protocol := [], sk_URLPath := path, sk_queryString := query\<rparr>, Inr ())"
    using regRequestLine_search [OF m(1) url v(1)] regURL_search [OF p(1) q(2)]
    by (simp add: parseRequestLine_def Let_def numeral_2_eq_2 numeral_3_eq_3 numeral_eq_Suc)
  show ?thesis
    using header_lines_plain [OF hs, of "k\<lparr>sk_method := m, sk_URL := ?url, sk_version := v,
      sk_protocol := [], sk_URLPath := path, sk_queryString := query\<rparr>" "?line @ crlf"]
    unfolding processHeaders_def sk Let_def prod.case pr sum.case by (simp add: request_text_def)
qed

section \<open>Sending loses nothing\<close>

text \<open>What has been taken by the network and what is still buffered, in order.\<close>

definition stream_of :: "sock \<Rightarrow> string" where
  "stream_of k = sk_wire k @ sk_writeBuffer k"

definition sent_from :: "sock \<Rightarrow> nat \<Rightarrow> sock \<Rightarrow> bool" where
  "sent_from k0 offset k \<longleftrightarrow> offset \<le> length (sk_writeBuffer k) \<and> sk_writeBuffer k = sk_writeBuffer k0 \<and>
     sk_wire k = sk_wire k0 @ take offset (sk_writeBuffer k)"

fun control_sock :: "'a control \<Rightarrow> sock" where
  "control_sock (Again k t) = k"
| "control_sock (Break k) = k"
| "control_sock (Return k v) = k"

lemma closeFlag_sent [simp]: "sent_from k0 n (closeFlag k) = sent_from k0 n k"
  by (simp add: sent_from_def closeFlag_def)

lemma write_step_sent:
  assumes "sent_from k0 offset k" and "write_step now limit offset k io = (offset', c)"
  shows "sent_from k0 offset' (control_sock c)"
proof -
  have "sk_wire k @ substr (sk_writeBuffer k) offset n =
      sk_wire k0 @ take (offset + n) (sk_writeBuffer k)" for n
    using assms(1) by (simp add: sent_from_def substr_def take_add)
  with assms show ?thesis
    by (auto simp: write_step_def Let_def sent_from_def closeFlag_def split: io_result.splits if_splits)
qed

lemma send_round_sent:
  assumes "sent_from k0 offset k" and "send_round async limit full offset k r = (offset', c)"
  shows "sent_from k0 offset' (control_sock c)"
proof (cases "write_step (rd_time r) limit offset k (rd_write r)")
  case (Pair o2 c2)
  from write_step_sent [OF assms(1) Pair] assms Pair show ?thesis
    by (cases c2) (auto simp: send_round_def Let_def split: if_splits)
qed

lemma send_round_return: "send_round async limit full offset k r = (o2, Return k2 v) \<Longrightarrow> \<exists>e. v = Inl e"
  by (auto simp: send_round_def write_step_def Let_def split: if_splits io_result.splits)

lemma send_loop_sent:
  assumes "send_loop async limit full offset k rs = Some ((k', v), rs')" and "sent_from k0 offset k"
  shows "case v of
      Inr _ \<Rightarrow> stream_of k' = stream_of k0
    | Inl _ \<Rightarrow> \<exists>n. sk_wire k' = sk_wire k0 @ take n (sk_writeBuffer k0)"
  using assms
proof (induction async limit full offset k rs rule: send_loop.induct)
  case (2 async limit full offset k r rs)
  obtain o2 c where r: "send_round async limit full offset k r = (o2, c)" by fastforce
  note s = send_round_sent [OF 2(3) r]
  show ?case
  proof (cases c)
    case (Again k2 t)
    then show ?thesis using 2(1) [OF r [symmetric] Again] 2(2) r s by simp
  next
    case (Break k2)
    then show ?thesis using 2(2) r s
      by (auto simp: stream_of_def sent_from_def) 
  next
    case (Return k2 w)
    then have "sk_wire k' = sk_wire k0 @ take o2 (sk_writeBuffer k0)" using 2(2) r s
      by (auto simp: sent_from_def)
    moreover have "\<exists>e. v = Inl e" using send_round_return r Return 2(2) by auto
    ultimately show ?thesis by auto
  qed
qed simp

lemma socket_send_sent:
  assumes "socket_send data async k rs = Some ((k', v), rs')" and "\<not> sk_closed k"
  shows "case v of
      Inr _ \<Rightarrow> stream_of k' = stream_of k @ data
    | Inl _ \<Rightarrow> \<exists>n. sk_wire k' = sk_wire k @ take n (sk_writeBuffer k @ data)"
proof -
  let ?k = "k\<lparr>sk_writeBuffer := sk_writeBuffer k @ data\<rparr>"
  have "send_loop async (clock rs + jail_socket_timeout) (clock rs + jail_socket_requesttimeout) 0 ?k rs = Some ((k', v), rs')"
    using assms by (simp add: socket_send_def)
  from send_loop_sent [OF this, of ?k] show ?thesis
    by (simp add: sent_from_def stream_of_def split: sum.splits)
qed

text \<open>A blocking send that returns normally has sent everything or has closed the socket.\<close>

lemma send_loop_flushed:
  assumes "send_loop False limit full offset k rs = Some ((k', Inr u), rs')" and "\<not> sk_closed k"
  shows "sk_writeBuffer k' = [] \<or> sk_closed k'"
  using assms
proof (induction False limit full offset k rs rule: send_loop.induct)
  case (2 limit full offset k r rs)
  obtain o2 c where r: "send_round False limit full offset k r = (o2, c)" by fastforce
  show ?case
  proof (cases c)
    case (Again k2 t)
    have "sk_closed k2 = sk_closed k"
      using r Again by (auto simp: send_round_def write_step_def Let_def split: if_splits io_result.splits prod.splits control.splits)
    then show ?thesis using 2(1) [OF r [symmetric] Again] 2(2,3) r Again by simp
  next
    case (Break k2)
    then have "sk_closed k2 \<or> o2 \<ge> length (sk_writeBuffer k2)"
      using r by (auto simp: send_round_def write_step_def Let_def closeFlag_def split: if_splits io_result.splits)
    then show ?thesis using 2(2) r Break by auto
  next
    case (Return k2 w)
    then show ?thesis using 2(2) r send_round_return by fastforce
  qed
qed simp

text \<open>
  A peer that reads nothing: \<open>poll\<close> keeps answering that the socket is not writable, and the loop
  goes round before it looks at the clock.
\<close>

lemma send_loop_idle: "\<forall>r \<in> set rs. rd_poll r = PollIdle \<Longrightarrow> send_loop False limit full offset k rs = None"
  by (induction rs) (simp_all add: send_round_def)

section \<open>Receiving loses nothing\<close>

text \<open>Receiving and waiting write nothing new.\<close>

lemma headers_stream: "processHeaders k t = (k', v) \<Longrightarrow> stream_of k' = stream_of k"
proof -
  have c: "stream_of (parseCookies k v) = stream_of k" for k v by (simp add: parseCookies_def stream_of_def)
  have h: "parseHeader k line = (k', v) \<Longrightarrow> stream_of k' = stream_of k" for k line k' v
    by (auto simp: parseHeader_def Let_def c stream_of_def parseCookies_def split: option.splits if_splits)
  have l: "header_lines k input offset = (k', v) \<Longrightarrow> stream_of k' = stream_of k" for k input offset k' v
  proof (induction k input offset rule: header_lines.induct)
    case (1 k input offset)
    then show ?case
      using header_lines.simps [of k input offset] h [of k] by (auto split: prod.splits if_splits sum.splits)
  qed
  have r: "parseRequestLine k line = (k', v) \<Longrightarrow> stream_of k' = stream_of k" for k line k' v
    by (auto simp: parseRequestLine_def Let_def stream_of_def split: option.splits)
  show "processHeaders k t = (k', v) \<Longrightarrow> ?thesis"
    using l r by (auto simp: processHeaders_def split: prod.splits sum.splits)
qed

lemma closeFlag_stream [simp]: "stream_of (closeFlag k) = stream_of k"
  by (simp add: stream_of_def closeFlag_def)

lemma read_step_stream: "stream_of (control_sock (read_step sz now limit k io)) = stream_of k"
proof (cases io)
  case (IoDone got)
  let ?k = "k\<lparr>sk_readBuffer := sk_readBuffer k @ take jail_net_buffer_size got\<rparr>"
  have h: "stream_of k2 = stream_of k" if "processHeaders (?k\<lparr>sk_header := h\<rparr>) h = (k2, v)" for h k2 v
    using headers_stream [OF that] by (simp add: stream_of_def)
  show ?thesis
  proof (cases "sk_header k = [] \<and> got \<noteq> []")
    case True
    then show ?thesis
      using IoDone h by (auto simp: read_step_def Let_def stream_of_def split: option.splits prod.splits sum.splits)
  next
    case False
    then show ?thesis using IoDone by (auto simp: read_step_def Let_def stream_of_def closeFlag_def)
  qed
qed (simp_all add: read_step_def)

lemma receive_round_stream: "stream_of (control_sock (receive_round sz limit full k r)) = stream_of k"
proof (cases "read_step sz (rd_time r) limit k (rd_read r)")
  case (Again k' t)
  then show ?thesis using read_step_stream [of sz "rd_time r" limit k "rd_read r"] by (auto simp: receive_round_def Let_def)
next
  case (Break k')
  then show ?thesis using read_step_stream [of sz "rd_time r" limit k "rd_read r"] by (auto simp: receive_round_def Let_def)
next
  case (Return k' v)
  then show ?thesis using read_step_stream [of sz "rd_time r" limit k "rd_read r"] by (auto simp: receive_round_def Let_def)
qed

lemma receive_loop_stream: "receive_loop sz limit full k rs = Some ((k', v), rs') \<Longrightarrow> stream_of k' = stream_of k"
proof (induction sz limit full k rs rule: receive_loop.induct)
  case (2 sz limit full k r rs)
  then show ?case
    using receive_round_stream [of sz limit full k r]
    by (auto simp: receive_rest_def stream_of_def split: control.splits)
qed simp

lemma receive_stream:
  assumes "receive_from sz k rs = Some ((k', v), rs')"
  shows "stream_of k' = stream_of k"
proof -
  define sz' where "sz' = (if sk_header k = [] then jail_headers_size_limit else sz)"
  show ?thesis
  proof (cases "sk_closed k \<or> sz' > 0 \<and> int (length (sk_readBuffer k)) \<ge> sz' \<and> sk_header k \<noteq> []")
    case True
    then show ?thesis
      using assms unfolding receive_from_def Let_def sz'_def [symmetric] by (auto simp: receive_rest_def stream_of_def split: if_splits)
  next
    case False
    then show ?thesis
      using assms receive_loop_stream [of sz'] unfolding receive_from_def Let_def sz'_def [symmetric] by (auto split: if_splits)
  qed
qed

lemma wait_stream:
  assumes "socket_wait k rs = Some ((k', Inr x), rs')"
  shows "stream_of k' = stream_of k"
proof -
  consider "k' = k" | v rs where "socket_send [] False k rs = Some ((k', v), rs')" "bind_result v (\<lambda>_. Inr False) = Inr x"
  proof (cases "sk_readBuffer k \<noteq> [] \<or> rs = []")
    case True
    then show ?thesis using assms that(1) by (auto simp: socket_wait_def split: if_splits)
  next
    case False
    then obtain r rs1 where rs: "rs = r # rs1" by (cases rs) auto
    show ?thesis
    proof (cases "sk_writeBuffer k \<noteq> [] \<and> rd_poll r = PollReady \<and> rd_out r")
      case True
      then show ?thesis using assms that(2) False rs by (auto simp: socket_wait_def split: option.splits prod.splits)
    qed (use assms that(1) False rs in \<open>auto simp: socket_wait_def\<close>)
  qed
  then show ?thesis
  proof cases
    case (2 v rs)
    then obtain u where "v = Inr u" by (auto simp: bind_result_Inr_iff)
    then show ?thesis
      using 2(1) socket_send_sent [OF 2(1)] by (cases "sk_closed k") (auto simp: socket_send_def)
  qed simp
qed

text \<open>
  The bytes a run of the loop reads from the network: those of the rounds before the one that leaves.
\<close>

definition round_bytes :: "round \<Rightarrow> string" where
  "round_bytes r = (case rd_read r of IoDone s \<Rightarrow> take jail_net_buffer_size s | _ \<Rightarrow> [])"

text \<open>After the headers, every successful round keeps what it read.\<close>

lemma receive_round_keeps:
  assumes "sk_header k \<noteq> []" and "receive_round sz limit full k r = c"
  shows "sk_header (control_sock c) = sk_header k"
    and "\<exists>got. sk_readBuffer (control_sock c) = sk_readBuffer k @ got \<and> (got = [] \<or> got = round_bytes r)"
  using assms
  by (auto simp: receive_round_def read_step_def Let_def closeFlag_def round_bytes_def
      split: if_splits io_result.splits)

text \<open>
  The amount asked for: a sized receive that returns text returns at least that many bytes unless the
  peer has closed.
\<close>

lemma receive_loop_sized:
  assumes "receive_loop sz limit full k rs = Some ((k', Inr t), rs')"
    and "sk_header k \<noteq> []" and "0 < sz" and "\<not> sk_closed k"
  shows "sk_closed k' \<or> sz \<le> int (length t)"
  using assms
proof (induction sz limit full k rs rule: receive_loop.induct)
  case (2 sz limit full k r rs)
  show ?case
  proof (cases "receive_round sz limit full k r")
    case (Again k2 t2)
    have "sk_closed k2 = sk_closed k"
      using Again 2(3) by (auto simp: receive_round_def read_step_def Let_def split: if_splits io_result.splits control.splits)
    then show ?thesis using 2 Again receive_round_keeps(1) [OF 2(3) Again] by simp
  next
    case (Break k2)
    have "sk_closed k2 \<or> sz \<le> int (length (sk_readBuffer k2))"
      using Break 2(3,4) by (auto simp: receive_round_def read_step_def Let_def closeFlag_def split: if_splits io_result.splits)
    then show ?thesis using 2(2) Break by (auto simp: receive_rest_def)
  next
    case (Return k2 w)
    have "\<exists>e. w = Inl e"
      using Return 2(3,4) by (auto simp: receive_round_def read_step_def Let_def split: if_splits io_result.splits)
    then show ?thesis using 2(2) Return by auto
  qed
qed simp

section \<open>Closing\<close>

text \<open>
  The contract of a connection end: closing is final and done once, and nothing is written after it.
\<close>

locale closable_channel =
  fixes is_shut :: "'s \<Rightarrow> bool"
    and shut :: "'s \<Rightarrow> 's"
    and out :: "'s \<Rightarrow> string"
  assumes shut_is_shut: "is_shut (shut s)"
    and shut_again: "is_shut s \<Longrightarrow> shut s = s"
begin

lemma shut_idem: "shut (shut s) = shut s"
  by (rule shut_again) (rule shut_is_shut)

lemma shut_out_once: "out (shut (shut s)) = out (shut s)"
  by (simp add: shut_idem)

end

interpretation socket_channel: closable_channel sk_closed socket_close sk_wire
  by unfold_locales (simp_all add: socket_close_def closeFlag_def)

section \<open>Properties\<close>

text \<open>
  A request header written in the form of the protocol is parsed into exactly its method, path,
  query, version and headers (names in upper case, a repeated name taking the last value).
\<close>

theorem request_header_round_trip:
  assumes "no_blank m" "no_crlf m" and "url_path path" "no_crlf path" "blank \<notin> set path"
    and "blank \<notin> set query" "nul \<notin> set query" "no_crlf query" and "no_blank v" "no_crlf v"
    and "\<forall>h \<in> set hs. plain_header h"
  shows "processHeaders k (request_text m path query v hs) =
    (k\<lparr>sk_method := m, sk_URL := path @ qmark # query, sk_version := v, sk_protocol := [],
       sk_URLPath := path, sk_queryString := query, sk_headers := add_headers (sk_headers k) hs\<rparr>, Inr ())"
  using assms by (rule processHeaders_request)

theorem request_header_round_trip_witness:
  "processHeaders (newSocket 0 10) (request_text ''GET'' ''/OK'' ''a=1'' ''HTTP/1.1'' [(''Host'', ''me'')]) =
    ((newSocket 0 10)\<lparr>sk_method := ''GET'', sk_URL := ''/OK'' @ qmark # ''a=1'', sk_version := ''HTTP/1.1'',
       sk_protocol := [], sk_URLPath := ''/OK'', sk_queryString := ''a=1'',
       sk_headers := add_headers Map.empty [(''Host'', ''me'')]\<rparr>, Inr ())"
proof -
  have h: "plain_header (''Host'', ''me'')"
    by (simp add: plain_header_def header_name_def header_value_def is_blank_tab_def toUppercase_def
        to_upper_def char_names colon_def)
  show ?thesis
    using request_header_round_trip [of "''GET''" "''/OK''" "''a=1''" "''HTTP/1.1''" "[(''Host'', ''me'')]" "newSocket 0 10"] h
    by (simp add: no_blank_def no_crlf_def url_path_def char_names slash_def qmark_def newSocket_def)
qed

text \<open>
  \<open>Socket::send\<close> on an open socket loses, repeats and reorders nothing: what the network has
  taken followed by what is still buffered is the old stream followed by the new data, and when it
  throws, what was taken is a prefix of that.
\<close>

theorem socket_send_no_loss:
  assumes "socket_send data async k rs = Some ((k', v), rs')" and "\<not> sk_closed k"
  shows "case v of
      Inr _ \<Rightarrow> sk_wire k' @ sk_writeBuffer k' = sk_wire k @ sk_writeBuffer k @ data
    | Inl _ \<Rightarrow> \<exists>n. sk_wire k' = sk_wire k @ take n (sk_writeBuffer k @ data)"
  using socket_send_sent [OF assms] by (simp add: stream_of_def split: sum.splits)

definition writable :: "int \<Rightarrow> nat \<Rightarrow> round" where
  "writable t n = \<lparr>rd_start = t, rd_poll = PollReady, rd_time = t, rd_in = False, rd_out = True, rd_hup = False,
     rd_bad = False, rd_read = IoDone [], rd_write = IoDone n\<rparr>"

theorem socket_send_no_loss_witness:
  "\<exists>k'. socket_send ''ab'' False (newSocket 0 10) [writable 0 1, writable 0 1] = Some ((k', Inr ()), [])
     \<and> sk_wire k' @ sk_writeBuffer k' = ''ab''"
proof -
  obtain k' where k: "socket_send ''ab'' False (newSocket 0 10) [writable 0 1, writable 0 1] = Some ((k', Inr ()), [])"
    by (simp add: socket_send_def newSocket_def writable_def send_round_def write_step_def Let_def
        jail_net_buffer_size_def jail_socket_timeout_def jail_socket_requesttimeout_def clock_def)
  from socket_send_no_loss [OF k] have "sk_wire k' @ sk_writeBuffer k' = ''ab''"
    by (simp add: newSocket_def)
  with k show ?thesis by blast
qed

text \<open>
  C34: a blocking \<open>Socket::send\<close> that returns normally has put on the wire, in order, what was waiting and its data, whole, unless it
  has marked the socket closed, when the rest still waits; one that throws has put a prefix of them on the wire; and while \<open>poll\<close>
  reports the peer not ready it never returns, however long that lasts: the timeout is tested only in rounds where the socket is
  writable.
\<close>

theorem socket_send_completes_or_stalls:
  assumes "\<not> sk_closed k"
  shows "(\<forall>k' rs'. socket_send data False k rs = Some ((k', Inr ()), rs') \<longrightarrow>
      sk_wire k' @ sk_writeBuffer k' = sk_wire k @ sk_writeBuffer k @ data \<and>
      (\<not> sk_closed k' \<longrightarrow> sk_wire k' = sk_wire k @ sk_writeBuffer k @ data)) \<and>
    (\<forall>k' e rs'. socket_send data False k rs = Some ((k', Inl e), rs') \<longrightarrow>
      (\<exists>n. sk_wire k' = sk_wire k @ take n (sk_writeBuffer k @ data))) \<and>
    ((\<forall>r \<in> set rs. rd_poll r = PollIdle) \<longrightarrow> socket_send data False k rs = None)"
proof (intro conjI allI impI)
  fix k' rs' assume r: "socket_send data False k rs = Some ((k', Inr ()), rs')"
  show all: "sk_wire k' @ sk_writeBuffer k' = sk_wire k @ sk_writeBuffer k @ data"
    using socket_send_sent [OF r assms] by (simp add: stream_of_def)
  show "sk_wire k' = sk_wire k @ sk_writeBuffer k @ data" if "\<not> sk_closed k'"
    using send_loop_flushed [of _ _ 0 "k\<lparr>sk_writeBuffer := sk_writeBuffer k @ data\<rparr>"] r assms all that
    by (fastforce simp: socket_send_def)
qed (use assms socket_send_sent [OF _ assms] send_loop_idle in \<open>fastforce simp: socket_send_def\<close>)+

definition idle_at :: "int \<Rightarrow> round" where
  "idle_at t = (writable t 0)\<lparr>rd_poll := PollIdle\<rparr>"

theorem socket_send_completes_or_stalls_witness:
  "(\<exists>k'. socket_send ''ab'' False (newSocket 0 10) [writable 0 1, writable 0 1] = Some ((k', Inr ()), []) \<and> sk_wire k' = ''ab'') \<and>
   socket_send ''ab'' False (newSocket 0 10) [idle_at 100, idle_at 1000000] = None"
proof -
  have n: "\<not> sk_closed (newSocket 0 10)" by (simp add: newSocket_def)
  obtain k' where k: "socket_send ''ab'' False (newSocket 0 10) [writable 0 1, writable 0 1] = Some ((k', Inr ()), [])" "\<not> sk_closed k'"
    by (simp add: socket_send_def newSocket_def writable_def send_round_def write_step_def Let_def
        jail_net_buffer_size_def jail_socket_timeout_def jail_socket_requesttimeout_def clock_def)
  have "sk_wire k' = ''ab''"
    using socket_send_completes_or_stalls [OF n, of "''ab''" "[writable 0 1, writable 0 1]"] k by (simp add: newSocket_def)
  moreover have "socket_send ''ab'' False (newSocket 0 10) [idle_at 100, idle_at 1000000] = None"
    using socket_send_completes_or_stalls [OF n, of "''ab''" "[idle_at 100, idle_at 1000000]"] by (simp add: idle_at_def)
  ultimately show ?thesis using k(1) by blast
qed

text \<open>
  A receive of a given size, after the headers, that returns a text returns at least that many
  bytes, unless the peer has closed the connection.
\<close>

theorem socket_receive_sized:
  assumes "receive_from n k rs = Some ((k', Inr t), rs')"
    and "sk_header k \<noteq> []" and "0 < n" and "\<not> sk_closed k"
  shows "sk_closed k' \<or> n \<le> int (length t)"
proof (cases "int (length (sk_readBuffer k)) \<ge> n")
  case True
  then show ?thesis using assms by (auto simp: receive_from_def substr_def split: if_splits)
next
  case False
  then show ?thesis using assms receive_loop_sized [of n _ _ k rs k' t rs'] by (simp add: receive_from_def)
qed

theorem socket_receive_sized_witness:
  "\<exists>k'. receive_from 2 ((newSocket 0 10)\<lparr>sk_header := ''h'', sk_readBuffer := ''abc''\<rparr>) [] = Some ((k', Inr ''ab''), [])
     \<and> (sk_closed k' \<or> 2 \<le> int (length ''ab''))"
proof -
  let ?k = "(newSocket 0 10)\<lparr>sk_header := ''h'', sk_readBuffer := ''abc''\<rparr>"
  obtain k' where k: "receive_from 2 ?k [] = Some ((k', Inr ''ab''), [])"
    by (simp add: receive_from_def substr_def newSocket_def numeral_2_eq_2)
  from socket_receive_sized [OF k] show ?thesis using k by (simp add: newSocket_def)
qed

end
