(* ===== verification/Web_Socket.thy ===== *)
theory Web_Socket
  imports Socket Utf8 Base64
begin

text \<open>
  The class \<open>webSocket\<close> (websocket.h, websocket.cpp): the RFC 6455 framing over a \<open>Socket\<close>, with
  the base64 extension of noVNC. Proved here: frame lengths are printed and parsed consistently, a
  masked client frame decodes to its payload whatever its size class, the store of fragments stays
  within the frame limit, and at most one close frame is ever sent by itself, though data may follow it. SHA-1 is OpenSSL's: a parameter.
\<close>

section \<open>State\<close>

text \<open>\<open>enum FrameType\<close>; a received opcode is cast to it unchecked, so a type is any number.\<close>

definition CONTINUATION_FRAME :: nat where "CONTINUATION_FRAME = 0x00"
definition TEXT_FRAME :: nat where "TEXT_FRAME = 0x01"
definition BINARY_FRAME :: nat where "BINARY_FRAME = 0x02"
definition CONNECTION_CLOSE_FRAME :: nat where "CONNECTION_CLOSE_FRAME = 0x08"
definition PING_FRAME :: nat where "PING_FRAME = 0x09"
definition PONG_FRAME :: nat where "PONG_FRAME = 0x0A"
definition ERROR_FRAME :: nat where "ERROR_FRAME = 0xFF"

lemmas frame_types = CONTINUATION_FRAME_def TEXT_FRAME_def BINARY_FRAME_def
  CONNECTION_CLOSE_FRAME_def PING_FRAME_def PONG_FRAME_def ERROR_FRAME_def

record wsock =
  ws_closeSent :: bool
  ws_base64 :: bool
  ws_socket :: sock
  ws_previous_data :: string
  ws_receiveBuffer :: string
  ws_lFrameType :: nat

definition on_socket :: "(sock, 'a) net \<Rightarrow> (wsock, 'a) net" where
  "on_socket = on_part ws_socket (\<lambda>k w. w\<lparr>ws_socket := k\<rparr>)"

section \<open>Frames\<close>

definition raw :: "string \<Rightarrow> nat \<Rightarrow> nat" where "raw data i = byte_val (data ! i)"

text \<open>
  \<open>frameSize\<close>: the size of the frame (-1 incomplete, -2 invalid), and the three output parameters:
  the control and mask sizes and the payload size.
\<close>

definition decoded64 :: "string \<Rightarrow> nat" where
  "decoded64 d = push_bit 56 (raw d 2) OR push_bit 48 (raw d 3) OR push_bit 40 (raw d 4) OR
     push_bit 32 (raw d 5) OR push_bit 24 (raw d 6) OR push_bit 16 (raw d 7) OR push_bit 8 (raw d 8) OR raw d 9"

definition frame_checks :: "string \<Rightarrow> nat \<Rightarrow> nat \<Rightarrow> nat \<Rightarrow> int \<times> nat \<times> nat \<times> nat" where
  "frame_checks data control_size mask_size decodedSize =
     (if decodedSize > jail_websocket_frame_size_limit then (-2, control_size, mask_size, 0)
      else if raw data 0 AND 0x0f \<ge> 8 \<and> raw data 0 AND 0x80 = 0 then (-2, control_size, mask_size, 0)
      else if raw data 0 AND 0x0f \<ge> 8 \<and> decodedSize > 125 then (-2, control_size, mask_size, 0)
      else if raw data 0 AND 0x0f = CONNECTION_CLOSE_FRAME \<and> decodedSize = 1 then (-2, control_size, mask_size, 0)
      else if length data < control_size + mask_size + decodedSize then (-1, control_size, mask_size, decodedSize)
      else (int (control_size + mask_size + decodedSize), control_size, mask_size, decodedSize))"

definition frameSize :: "string \<Rightarrow> int \<times> nat \<times> nat \<times> nat" where
  "frameSize data =
     (if length data < 2 then (-1, 2, 0, 0)
      else let mask_size = (if raw data 1 AND 0x80 \<noteq> 0 then 4 else 0); lengthCode = raw data 1 AND 0x7f in
      if lengthCode < 126 then frame_checks data 2 mask_size lengthCode
      else if lengthCode = 126 then
        (if length data < 4 then (-1, 4, mask_size, 0)
         else let decodedSize = push_bit 8 (raw data 2) OR raw data 3 in
           if decodedSize < 126 then (-2, 4, mask_size, 0)
           else frame_checks data 4 mask_size decodedSize)
      else
        (if length data < 10 then (-1, 10, mask_size, 0)
         else if raw data 2 AND 0x80 \<noteq> 0 then (-2, 10, mask_size, 0)
         else let decodedSize = decoded64 data in
           if decodedSize \<le> 0xffff then (-2, 10, mask_size, 0)
           else frame_checks data 10 mask_size decodedSize))"

definition isFrameComplete :: "string \<Rightarrow> bool" where
  "isFrameComplete data = (let (fSize, control_size, mask_size, payload_size) = frameSize data in
     if fSize = -1 then False
     else if fSize = -2 then True
     else int (length data) \<ge> fSize)"

definition unmask :: "string \<Rightarrow> string \<Rightarrow> string" where
  "unmask mkey payload = map (\<lambda>i. char_of (byte_val (payload ! i) XOR byte_val (mkey ! (i mod 4)))) [0..<length payload]"

text \<open>
  \<open>decodeFrame(data, ft, fin)\<close>: the text it returns (or what the base64 decoder throws), the data
  left, and the two reference parameters. On an error the data stay and \<open>fin\<close> is not set.
\<close>

record decoded =
  de_text :: "string result"
  de_rest :: string
  de_type :: nat
  de_fin :: bool

definition frame_error :: "string \<Rightarrow> string \<Rightarrow> bool \<Rightarrow> decoded" where
  "frame_error message data fin = \<lparr>de_text = Inr message, de_rest = data, de_type = ERROR_FRAME, de_fin = fin\<rparr>"

definition decodeFrame :: "bool \<Rightarrow> string \<Rightarrow> nat \<Rightarrow> bool \<Rightarrow> decoded" where
  "decodeFrame base64 data ft0 fin0 = (let (fSize, control_size, mask_size, payload_size) = frameSize data in
     if fSize = -1 \<or> int (length data) < fSize then frame_error ''Frame size too large'' data fin0
     else if fSize = -2 then frame_error ''Invalid frame length'' data fin0
     else if mask_size = 0 then frame_error ''Frame must be masked'' data fin0
     else if raw data 0 AND 0x70 \<noteq> 0 then frame_error ''Websocket extensions unsupported'' data fin0
     else let fin = (raw data 0 AND 0x80 > 0);
        ft = (if raw data 0 AND 0x0f \<noteq> CONTINUATION_FRAME then raw data 0 AND 0x0f else ft0);
        ret = unmask (substr data control_size 4) (substr data (control_size + mask_size) payload_size);
        rest = drop (nat fSize) data in
      if base64 \<and> ft = TEXT_FRAME
      then \<lparr>de_text = base64_decode ret, de_rest = rest, de_type = BINARY_FRAME, de_fin = fin\<rparr>
      else \<lparr>de_text = Inr ret, de_rest = rest, de_type = ft, de_fin = fin\<rparr>)"

text \<open>A byte store \<open>ret[i] = v\<close> keeps the low eight bits.\<close>

definition to_byte :: "nat \<Rightarrow> char" where "to_byte v = char_of (v mod 256)"

definition frame_header :: "nat \<Rightarrow> nat \<Rightarrow> string" where
  "frame_header ft payload_size = to_byte (0x80 OR ft) #
     (if payload_size \<le> 125 then [to_byte payload_size]
      else if payload_size \<le> 0xffff then
        [to_byte 126, to_byte (drop_bit 8 payload_size), to_byte (payload_size AND 0xff)]
      else to_byte 127 # map (\<lambda>i. to_byte (drop_bit (8 * (9 - i)) payload_size AND 0xff)) [2..<10])"

definition encodeFrame :: "bool \<Rightarrow> string \<Rightarrow> nat \<Rightarrow> string" where
  "encodeFrame base64 rdata ft0 = (let
      data = (if base64 \<and> ft0 = BINARY_FRAME then base64_encode rdata else rdata);
      ft = (if base64 \<and> ft0 = BINARY_FRAME then TEXT_FRAME else ft0)
    in frame_header ft (length data) @ data)"

section \<open>Handshake\<close>

definition VPL_SETIWASHERECOOKIE :: string where
  "VPL_SETIWASHERECOOKIE = ''Set-Cookie: VPL_Iwh=y; Path=/; SameSite=none; Secure; Partitioned'' @ crlf"

definition ws_magic :: string where "ws_magic = ''258EAFA5-E914-47DA-95CA-C5AB0DC85B11''"

definition getHandshakeAnswer :: "(string \<Rightarrow> string) \<Rightarrow> wsock \<Rightarrow> string \<times> wsock" where
  "getHandshakeAnswer sha1 w = (let key = getHeader (ws_socket w) ''Sec-WebSocket-Key'' @ ws_magic;
      rec_pro = getHeader (ws_socket w) ''Sec-WebSocket-Protocol'';
      (protocols, base64) =
        (if contains_str rec_pro ''binary'' then (''Sec-WebSocket-Protocol: binary'' @ crlf, False)
         else if contains_str rec_pro ''base64'' then (''Sec-WebSocket-Protocol: base64'' @ crlf, True)
         else ([], False));
      responseKey = base64_encode (take 20 (sha1 key))
    in (''HTTP/1.1 101 Switching Protocols'' @ crlf @ ''Connection: Upgrade'' @ crlf @
        ''Upgrade: websocket'' @ crlf @ VPL_SETIWASHERECOOKIE @ protocols @
        ''Sec-WebSocket-Accept: '' @ responseKey @ crlf @ crlf,
        w\<lparr>ws_base64 := base64\<rparr>))"

text \<open>
  The constructor. \<open>lFrameType\<close> is not initialised: \<open>garbage\<close> is the value it happens to have.
\<close>

definition newWebSocket :: "(string \<Rightarrow> string) \<Rightarrow> nat \<Rightarrow> sock \<Rightarrow> wsock \<times> string" where
  "newWebSocket sha1 garbage k = (let
      w = \<lparr>ws_closeSent = False, ws_base64 = False, ws_socket = markWebSocketProtocol k,
        ws_previous_data = [], ws_receiveBuffer = [], ws_lFrameType = garbage\<rparr>;
      (answer, w) = getHandshakeAnswer sha1 w in (w, answer))"

definition webSocket_create :: "(string \<Rightarrow> string) \<Rightarrow> nat \<Rightarrow> sock \<Rightarrow> round list \<Rightarrow> ((wsock \<times> unit result) \<times> round list) option" where
  "webSocket_create sha1 garbage k rs = (case newWebSocket sha1 garbage k of
      (w, answer) \<Rightarrow> on_socket (socket_send answer False) w rs)"

section \<open>Operations\<close>

definition status_bytes :: "nat \<Rightarrow> string" where
  "status_bytes code = [to_byte (drop_bit 8 code), to_byte (code AND 0xff)]"

definition ws_sendClose :: "string \<Rightarrow> (wsock, unit) net" where
  "ws_sendClose payload w =
     net_bind (on_socket (socket_send (encodeFrame (ws_base64 w) payload CONNECTION_CLOSE_FRAME) False))
       (\<lambda>_. net_modify (\<lambda>w. w\<lparr>ws_closeSent := True\<rparr>)) w"

definition ws_close :: "string \<Rightarrow> (wsock, unit) net" where
  "ws_close t w = (if \<not> ws_closeSent w then
       ws_sendClose (if t \<noteq> [] then status_bytes (if t = ''Error'' then 1002 else 1000) @ t else []) w
     else net_return () w)"

definition ws_shut :: "(wsock, unit) net" where
  "ws_shut = net_modify (\<lambda>w. w\<lparr>ws_socket := socket_close (ws_socket w)\<rparr>)"

text \<open>Close with a reason, close the socket, and return the empty text.\<close>

definition ws_give_up :: "string \<Rightarrow> (wsock, string) net" where
  "ws_give_up t = net_bind (ws_close t) (\<lambda>_. net_bind ws_shut (\<lambda>_. net_return []))"

definition ws_data_frame :: "string \<Rightarrow> bool \<Rightarrow> (wsock, string) net" where
  "ws_data_frame data0 fin w =
     (if fin then
        let data = (if length (ws_previous_data w) > 0 then ws_previous_data w @ data0 else data0);
          w = (if length (ws_previous_data w) > 0 then w\<lparr>ws_previous_data := []\<rparr> else w) in
        if ws_lFrameType w = TEXT_FRAME \<and> \<not> isValidUTF8 data then
          net_bind (\<lambda>w. if \<not> ws_closeSent w then ws_sendClose (status_bytes 1007 @ ''Invalid UTF-8 data'') w
                        else net_return () w)
            (\<lambda>_. net_bind ws_shut (\<lambda>_. net_return [])) w
        else net_return data w
      else if length (ws_previous_data w) > jail_websocket_frame_size_limit - length data0 then ws_give_up ''Error'' w
      else net_return [] (w\<lparr>ws_previous_data := ws_previous_data w @ data0\<rparr>))"

definition ws_frame :: "string \<Rightarrow> bool \<Rightarrow> (wsock, string) net" where
  "ws_frame data fin w = (let t = ws_lFrameType w in
     if t = TEXT_FRAME \<or> t = BINARY_FRAME then ws_data_frame data fin w
     else if t = CONNECTION_CLOSE_FRAME then ws_give_up ''Bye'' w
     else if t = PING_FRAME then
       net_bind (on_socket (socket_send (encodeFrame (ws_base64 w) data PONG_FRAME) False)) (\<lambda>_. net_return []) w
     else if t = PONG_FRAME then net_return [] w
     else ws_give_up ''Error'' w)"

text \<open>\<open>receive\<close> after its read: the bytes are in \<open>receiveBuffer\<close>.\<close>

definition ws_process :: "(wsock, string) net" where
  "ws_process w =
     (if length (ws_receiveBuffer w) > jail_websocket_frame_size_limit + 14 \<and> \<not> isFrameComplete (ws_receiveBuffer w)
      then ws_give_up ''Error'' w
      else if isFrameComplete (ws_receiveBuffer w) then
        let d = decodeFrame (ws_base64 w) (ws_receiveBuffer w) (ws_lFrameType w) False;
          w = w\<lparr>ws_receiveBuffer := de_rest d, ws_lFrameType := de_type d\<rparr> in
        (case de_text d of
           Inl e \<Rightarrow> net_throw e w
         | Inr data \<Rightarrow> ws_frame data (de_fin d) w)
      else net_return [] w)"

definition ws_receive :: "(wsock, string) net" where
  "ws_receive = net_bind (on_socket (receive_from 0))
     (\<lambda>got w. ws_process (w\<lparr>ws_receiveBuffer := ws_receiveBuffer w @ got\<rparr>))"

definition ws_send :: "string \<Rightarrow> nat \<Rightarrow> (wsock, unit) net" where
  "ws_send s ft w = (let payload = (if ft = TEXT_FRAME \<and> \<not> isValidUTF8 s then sanitizeUTF8 s else s)
     in on_socket (socket_send (encodeFrame (ws_base64 w) payload ft) False) w)"

definition ws_wait :: "(wsock, bool) net" where
  "ws_wait w = (if length (ws_receiveBuffer w) > 0 then net_return False w else on_socket socket_wait w)"

definition ws_isClosed :: "wsock \<Rightarrow> bool" where "ws_isClosed w = sk_closed (ws_socket w)"

definition ws_isReadBuffered :: "wsock \<Rightarrow> bool" where
  "ws_isReadBuffered w = (sk_readBuffer (ws_socket w) \<noteq> [] \<or> ws_receiveBuffer w \<noteq> [])"

text \<open>\<open>closeAndWait\<close>: \<open>n\<close> is the number of polls of 50 ms the timeout allows.\<close>

fun ws_poll_close :: "nat \<Rightarrow> (wsock, unit) net" where
  "ws_poll_close 0 = net_return ()"
| "ws_poll_close (Suc n) = (\<lambda>w. if ws_isClosed w then net_return () w
     else net_bind ws_wait (\<lambda>idle. net_bind (if \<not> idle then ws_receive else net_return [])
       (\<lambda>_. ws_poll_close n)) w)"

definition ws_closeAndWait :: "int \<Rightarrow> (wsock, unit) net" where
  "ws_closeAndWait timeout = net_bind (ws_close [])
     (\<lambda>_. net_bind (net_catch (ws_poll_close (nat ((timeout + 49) div 50))) (\<lambda>e. net_return ()))
       (\<lambda>_. ws_shut))"

section \<open>Frame lengths\<close>

text \<open>The length part of a frame: the seven-bit code and the bytes of the extended length.\<close>

definition length_code :: "nat \<Rightarrow> nat" where
  "length_code n = (if n \<le> 125 then n else if n \<le> 0xffff then 126 else 127)"

definition length_bytes :: "nat \<Rightarrow> string" where
  "length_bytes n = (if n \<le> 125 then []
     else if n \<le> 0xffff then [to_byte (drop_bit 8 n), to_byte (n AND 0xff)]
     else map (\<lambda>i. to_byte (drop_bit (8 * (9 - i)) n AND 0xff)) [2..<10])"

definition control_size_of :: "nat \<Rightarrow> nat" where
  "control_size_of n = 2 + length (length_bytes n)"

text \<open>A frame as its sender lays it out: \<open>first\<close> is its first byte, \<open>masked\<close> 0 or 1.\<close>

definition frame_start :: "nat \<Rightarrow> nat \<Rightarrow> nat \<Rightarrow> string" where
  "frame_start first masked n = to_byte first # to_byte (masked * 128 + length_code n) # length_bytes n"

lemma to_byte_val [simp]: "byte_val (to_byte v) = v mod 256"
  by (simp add: to_byte_def)

lemma raw_Cons [simp]: "raw (c # cs) 0 = byte_val c" "raw (c # cs) (Suc i) = raw cs i"
  by (simp_all add: raw_def)

lemma raw_numeral [simp]: "raw (c # cs) (numeral k) = raw cs (pred_numeral k)"
  by (simp add: numeral_eq_Suc)

lemma eight_bytes:
  "map f [2..<10] = [f 2, f 3, f 4, f 5, f 6, f 7, f 8, f (9::nat)]"
  by (simp add: upt_rec)

lemma length_bytes_size: "length (length_bytes n) = (if n \<le> 125 then 0 else if n \<le> 0xffff then 2 else 8)"
  by (simp add: length_bytes_def)

lemma frame_header_start: "ft < 128 \<Longrightarrow> frame_header ft n = frame_start (128 + ft) 0 n"
proof -
  assume "ft < 128"
  then have "(128::nat) OR ft = 128 + ft" using or_add_nat [of ft 7 128] by simp
  then show ?thesis
    by (simp add: frame_header_def frame_start_def length_code_def length_bytes_def)
qed

lemma two_bytes: "n \<le> 0xffff \<Longrightarrow> push_bit 8 (n div 256 mod 256) OR n mod 256 = (n::nat)"
proof -
  assume "n \<le> 0xffff"
  then have d: "n div 256 mod 256 = n div 256" by simp
  have "push_bit 8 (n div 256) OR n mod 256 = push_bit 8 (n div 256) + n mod 256"
    by (rule or_add_nat [of _ 8]) (simp_all add: push_bit_eq_mult)
  then show ?thesis by (simp add: d push_bit_eq_mult)
qed

lemma four_bytes:
  assumes "n < 4294967296"
  shows "((push_bit 24 (n div 16777216) OR push_bit 16 (n div 65536 mod 256)) OR push_bit 8 (n div 256 mod 256)) OR
    n mod 256 = (n::nat)"
proof -
  let ?a = "n div 16777216" and ?b = "n div 65536 mod 256" and ?c = "n div 256 mod 256" and ?d = "n mod 256"
  have lt: "?b < 256" "?c < 256" "?d < 256" by simp_all
  have 1: "push_bit 24 ?a OR push_bit 16 ?b = ?a * 16777216 + ?b * 65536"
    using or_add_nat [of "push_bit 16 ?b" 24 "push_bit 24 ?a"] lt by (simp add: push_bit_eq_mult)
  have 2: "(?a * 16777216 + ?b * 65536) OR push_bit 8 ?c = ?a * 16777216 + ?b * 65536 + ?c * 256"
    using or_add_nat [of "push_bit 8 ?c" 16 "?a * 16777216 + ?b * 65536"] lt
    by (simp add: push_bit_eq_mult mod_add_eq [symmetric])
  have 3: "(?a * 16777216 + ?b * 65536 + ?c * 256) OR ?d = ?a * 16777216 + ?b * 65536 + ?c * 256 + ?d"
    using or_add_nat [of ?d 8 "?a * 16777216 + ?b * 65536 + ?c * 256"] lt
    by (simp add: mod_add_eq [symmetric])
  have d: "n div 65536 = n div 256 div 256" "n div 16777216 = n div 256 div 256 div 256"
    by (simp_all add: div_mult2_eq [symmetric])
  have "x * 16777216 + y mod 256 * 65536 + z mod 256 * 256 + n mod 256 = n"
    if "z = n div 256" "y = z div 256" "x = y div 256" for x y z
  proof -
    have "n = 256 * z + n mod 256" "z = 256 * y + z mod 256" "y = 256 * x + y mod 256"
      using that by simp_all
    then show ?thesis by linarith
  qed
  then have "?a * 16777216 + ?b * 65536 + ?c * 256 + ?d = n" unfolding d by blast
  then show ?thesis unfolding 1 2 3 .
qed

lemma decoded64_length_bytes:
  assumes "0xffff < n" and "n < 4294967296"
  shows "decoded64 (a # b # length_bytes n @ rest) = n"
proof -
  have z: "n div 72057594037927936 = 0" "n div 281474976710656 = 0" "n div 1099511627776 = 0" "n div 4294967296 = 0"
    using assms(2) by simp_all
  have m: "n div 16777216 mod 256 = n div 16777216" using assms(2) by (intro mod_less) (simp add: less_mult_imp_div_less)
  have "decoded64 (a # b # length_bytes n @ rest) =
    ((push_bit 24 (n div 16777216) OR push_bit 16 (n div 65536 mod 256)) OR push_bit 8 (n div 256 mod 256)) OR n mod 256"
    using assms(1) by (simp add: decoded64_def length_bytes_def eight_bytes drop_bit_eq_div and_masks z m or.assoc)
  then show ?thesis using four_bytes [OF assms(2)] by simp
qed

lemma frame_limit: "jail_websocket_frame_size_limit < 4294967296"
  by (simp add: jail_websocket_frame_size_limit_def)

text \<open>Parsing the length that was printed, for every size class.\<close>

lemma frameSize_frame_start:
  assumes n: "n \<le> jail_websocket_frame_size_limit" and m: "masked \<le> 1"
  shows "frameSize (frame_start first masked n @ rest) =
    frame_checks (frame_start first masked n @ rest) (control_size_of n) (4 * masked) n"
proof -
  have n32: "n < 4294967296" using n frame_limit by simp
  have c: "length_code n < 128" by (simp add: length_code_def)
  have v: "(masked * 128 + length_code n) mod 256 = masked * 128 + length_code n" using c m by simp
  have code: "(masked * 128 + length_code n) AND 127 = length_code n"
    using c and_masks(7) [of "masked * 128 + length_code n"] by simp
  have "(masked * 128 + length_code n) AND 128 = 128 * masked"
    using c m and_push_bit_nat [of "masked * 128 + length_code n" 7 1]
    by (simp add: push_bit_eq_mult drop_bit_eq_div and_masks) 
  then have mask: "((masked * 128 + length_code n) AND 128 \<noteq> 0) = (masked = 1)" using m by auto
  note r = v code mask
  have m4: "(if masked = 1 then 4 else 0) = 4 * masked" using m by auto
  consider "n \<le> 125" | "125 < n" "n \<le> 0xffff" | "0xffff < n" by linarith
  then show ?thesis
  proof cases
    case 1
    then show ?thesis using r m4
      by (simp add: frameSize_def frame_start_def Let_def length_bytes_def length_code_def control_size_of_def
          split del: if_split)
  next
    case 2
    have "push_bit 8 (drop_bit 8 n mod 256) OR (n AND 255) mod 256 = n"
      using two_bytes [OF 2(2)] by (simp add: drop_bit_eq_div and_masks)
    with 2 show ?thesis using r m4
      by (simp add: frameSize_def frame_start_def Let_def length_bytes_def length_code_def control_size_of_def
          split del: if_split)
  next
    case 3
    have "n div 72057594037927936 = 0" using n32 by simp
    then have b2: "raw (frame_start first masked n @ rest) 2 AND 128 = 0"
      using 3 by (simp add: frame_start_def length_bytes_def eight_bytes drop_bit_eq_div)
    have dec: "decoded64 (frame_start first masked n @ rest) = n"
      using decoded64_length_bytes [OF 3 n32] by (simp add: frame_start_def)
    have sz: "\<not> length (frame_start first masked n @ rest) < 10"
      using 3 by (simp add: frame_start_def length_bytes_size)
    have r1: "raw (frame_start first masked n @ rest) 1 = masked * 128 + length_code n"
      using v by (simp add: frame_start_def)
    show ?thesis using 3 r m4 b2 dec sz r1
      by (simp add: frameSize_def Let_def length_code_def control_size_of_def length_bytes_size
          split del: if_split)
  qed
qed

section \<open>Decoding what a client encoded\<close>

text \<open>A client frame: masked, with the final flag and the opcode in its first byte.\<close>

definition first_byte :: "bool \<Rightarrow> nat \<Rightarrow> nat" where
  "first_byte fin ft = (if fin then 128 else 0) + ft"

text \<open>
  The masking of RFC 6455, section 5.3: each byte is combined with the first byte of the key, which is then turned by one byte.
\<close>

primrec masked_with :: "string \<Rightarrow> string \<Rightarrow> string" where
  "masked_with mkey [] = []"
| "masked_with mkey (c # cs) = char_of (byte_val c XOR byte_val (hd mkey)) # masked_with (rotate1 mkey) cs"

definition client_frame :: "bool \<Rightarrow> nat \<Rightarrow> string \<Rightarrow> string \<Rightarrow> string" where
  "client_frame fin ft mkey payload =
     frame_start (first_byte fin ft) 1 (length payload) @ mkey @ masked_with mkey payload"

text \<open>What RFC 6455 allows: control frames are short and whole, a close body is not one byte.\<close>

definition legal_frame :: "bool \<Rightarrow> nat \<Rightarrow> nat \<Rightarrow> bool" where
  "legal_frame fin ft n \<longleftrightarrow> ft < 16 \<and> n \<le> jail_websocket_frame_size_limit \<and>
     (ft \<ge> 8 \<longrightarrow> fin \<and> n \<le> 125) \<and> \<not> (ft = CONNECTION_CLOSE_FRAME \<and> n = 1)"

lemma length_unmask [simp]: "length (unmask m p) = length p"
  by (simp add: unmask_def)

lemma xor_byte: "a < 256 \<Longrightarrow> b < 256 \<Longrightarrow> (a XOR b) < (256::nat)"
proof -
  assume a: "a < 256" and b: "b < 256"
  have "take_bit 8 (a XOR b) = a XOR b"
    using a b by (simp add: take_bit_xor take_bit_nat_eq_self)
  then show ?thesis using take_bit_nat_less_exp [of 8 "a XOR b"] by simp
qed

lemma unmask_unmask:
  assumes "length m = 4"
  shows "unmask m (unmask m p) = p"
proof (rule nth_equalityI)
  fix i assume "i < length (unmask m (unmask m p))"
  then have i: "i < length p" by simp
  have x: "byte_val (p ! i) XOR byte_val (m ! (i mod 4)) < 256" by (rule xor_byte) simp_all
  show "unmask m (unmask m p) ! i = p ! i"
    using i x by (simp add: unmask_def xor.assoc)
qed simp

lemma masked_with_nth: "i < length p \<Longrightarrow> mkey \<noteq> [] \<Longrightarrow>
    masked_with mkey p ! i = char_of (byte_val (p ! i) XOR byte_val (mkey ! (i mod length mkey)))"
proof (induction p arbitrary: i mkey)
  case (Cons c cs)
  show ?case
  proof (cases i)
    case 0
    then show ?thesis using Cons.prems(2) by (simp add: hd_conv_nth)
  next
    case (Suc j)
    have "rotate1 mkey ! (j mod length mkey) = mkey ! (Suc j mod length mkey)"
      using nth_rotate1 [of "j mod length mkey" mkey] Cons.prems(2) by (simp add: mod_Suc_eq)
    then show ?thesis using Cons.IH [of j "rotate1 mkey"] Cons.prems Suc by simp
  qed
qed simp

lemma length_masked_with [simp]: "length (masked_with mkey p) = length p"
  by (induction p arbitrary: mkey) simp_all

lemma masked_with_unmask: "length mkey = 4 \<Longrightarrow> masked_with mkey p = unmask mkey p"
proof (rule nth_equalityI)
  fix i assume m: "length mkey = 4" and "i < length (masked_with mkey p)"
  moreover have "mkey \<noteq> []" using m by auto
  ultimately show "masked_with mkey p ! i = unmask mkey p ! i" using masked_with_nth [of i p mkey] by (simp add: unmask_def)
qed simp

lemma first_byte_bits:
  assumes "ft < 16"
  shows "first_byte fin ft mod 256 = first_byte fin ft" "first_byte fin ft AND 0x0f = ft"
    "first_byte fin ft AND 0x70 = 0" "(first_byte fin ft AND 0x80 = 0) = (\<not> fin)"
proof -
  show "first_byte fin ft mod 256 = first_byte fin ft" using assms by (simp add: first_byte_def)
  show "first_byte fin ft AND 0x0f = ft"
    using assms by (auto simp: first_byte_def and_masks mod_add_left_eq [of 128 16, symmetric])
  have "first_byte fin ft div 16 = (if fin then 8 else 0)"
    using assms by (auto simp: first_byte_def intro!: div_nat_eqI)
  moreover have "first_byte fin ft AND 0x70 = 16 * (first_byte fin ft div 16 AND 7)"
    using and_push_bit_nat [of "first_byte fin ft" 4 7] by (simp add: push_bit_eq_mult drop_bit_eq_div)
  ultimately show "first_byte fin ft AND 0x70 = 0" by (simp add: and_masks)
  have "first_byte fin ft div 128 = (if fin then 1 else 0)"
    using assms by (auto simp: first_byte_def intro!: div_nat_eqI)
  moreover have "first_byte fin ft AND 0x80 = 128 * (first_byte fin ft div 128 AND 1)"
    using and_push_bit_nat [of "first_byte fin ft" 7 1] by (simp add: push_bit_eq_mult drop_bit_eq_div)
  ultimately show "(first_byte fin ft AND 0x80 = 0) = (\<not> fin)" by simp
qed

lemma length_frame_start: "length (frame_start f m n) = control_size_of n"
  by (simp add: frame_start_def control_size_of_def)

lemma raw_frame_start: "raw (frame_start f m n @ rest) 0 = f mod 256"
  by (simp add: frame_start_def)

lemma frame_checks_ok:
  assumes "legal_frame fin ft n" and "raw data 0 = first_byte fin ft" and "c + k + n \<le> length data"
  shows "frame_checks data c k n = (int (c + k + n), c, k, n)"
proof -
  note B = first_byte_bits [of ft fin]
  have ft: "ft < 16" using assms(1) by (simp add: legal_frame_def)
  show ?thesis
    using assms(1,3) B [OF ft] by (auto simp: frame_checks_def legal_frame_def assms(2))
qed

lemma decodeFrame_client_frame:
  assumes legal: "legal_frame fin ft (length payload)" and m: "length mkey = 4"
  shows "decodeFrame base64 (client_frame fin ft mkey payload @ rest) ft0 fin0 =
    (let t = (if ft \<noteq> CONTINUATION_FRAME then ft else ft0) in
     if base64 \<and> t = TEXT_FRAME
     then \<lparr>de_text = base64_decode payload, de_rest = rest, de_type = BINARY_FRAME, de_fin = fin\<rparr>
     else \<lparr>de_text = Inr payload, de_rest = rest, de_type = t, de_fin = fin\<rparr>)"
proof -
  let ?n = "length payload" and ?d = "client_frame fin ft mkey payload @ rest"
  let ?c = "control_size_of ?n"
  have ft: "ft < 16" and n: "?n \<le> jail_websocket_frame_size_limit"
    using legal by (simp_all add: legal_frame_def)
  have d: "?d = frame_start (first_byte fin ft) 1 ?n @ mkey @ unmask mkey payload @ rest"
    using m by (simp add: client_frame_def masked_with_unmask)
  have len: "length ?d = ?c + 4 + ?n + length rest" unfolding d using m by (simp add: length_frame_start)
  have r0: "raw ?d 0 = first_byte fin ft"
    unfolding d raw_frame_start using first_byte_bits(1) [OF ft] .
  have fs: "frameSize ?d = (int (?c + 4 + ?n), ?c, 4, ?n)"
    using frameSize_frame_start [OF n, of 1] frame_checks_ok [OF legal r0, of ?c 4] len
    by (simp add: d)
  have sub: "substr ?d ?c 4 = mkey" "substr ?d (?c + 4) ?n = unmask mkey payload" "drop (?c + 4 + ?n) ?d = rest"
    unfolding d substr_def using m by (simp_all add: length_frame_start)
  show ?thesis
    using fs len r0 sub first_byte_bits [OF ft, of fin] unmask_unmask [OF m, of payload]
    by (simp add: decodeFrame_def Let_def nat_int_add neq0_conv [symmetric] del: neq0_conv) blast
qed

text \<open>What the server sends carries its own length, and is never masked.\<close>

lemma frameSize_encodeFrame:
  assumes "legal_frame True ft (length d)" and "\<not> (base64 \<and> ft = BINARY_FRAME)"
  shows "frameSize (encodeFrame base64 d ft @ rest) =
    (int (length (encodeFrame base64 d ft)), control_size_of (length d), 0, length d)"
proof -
  have ft: "ft < 16" and n: "length d \<le> jail_websocket_frame_size_limit"
    using assms(1) by (simp_all add: legal_frame_def)
  have e: "encodeFrame base64 d ft = frame_start (128 + ft) 0 (length d) @ d"
    using assms(2) frame_header_start [of ft "length d"] ft by (auto simp: encodeFrame_def Let_def)
  have r0: "raw (frame_start (128 + ft) 0 (length d) @ d @ rest) 0 = first_byte True ft"
    using ft by (simp add: raw_frame_start first_byte_def)
  show ?thesis
    using frameSize_frame_start [OF n, of 0 "128 + ft" "d @ rest"] frame_checks_ok [OF assms(1) r0, of "control_size_of (length d)" 0]
    by (simp add: e length_frame_start)
qed

section \<open>The store of fragments and the close frame\<close>

definition ws_bounded :: "wsock \<Rightarrow> bool" where
  "ws_bounded w \<longleftrightarrow> length (ws_previous_data w) \<le> jail_websocket_frame_size_limit"

text \<open>An invariant that only looks at the fields a step over the socket leaves alone.\<close>

definition ignores_socket :: "(wsock \<Rightarrow> bool) \<Rightarrow> bool" where
  "ignores_socket P \<longleftrightarrow> (\<forall>w k. P (w\<lparr>ws_socket := k\<rparr>) = P w) \<and> (\<forall>w. P w \<longrightarrow> P (w\<lparr>ws_closeSent := True\<rparr>))"

lemma ends_on_socket [net_rules]: "ignores_socket P \<Longrightarrow> P w \<Longrightarrow> net_ends P (on_socket m w)"
  unfolding on_socket_def by (rule net_ends_part) (simp add: ignores_socket_def)

lemma ends_sendClose [net_rules]: "ignores_socket P \<Longrightarrow> P w \<Longrightarrow> net_ends P (ws_sendClose p w)"
  unfolding ws_sendClose_def
  by (intro net_ends_bind ends_on_socket net_ends_modify) (auto simp: ignores_socket_def)

lemma ends_close [net_rules]: "ignores_socket P \<Longrightarrow> P w \<Longrightarrow> net_ends P (ws_close t w)"
  unfolding ws_close_def by (intro net_rules)

lemma ends_shut [net_rules]: "ignores_socket P \<Longrightarrow> P w \<Longrightarrow> net_ends P (ws_shut w)"
  unfolding ws_shut_def by (rule net_ends_modify) (simp add: ignores_socket_def)

lemma ends_give_up [net_rules]: "ignores_socket P \<Longrightarrow> P w \<Longrightarrow> net_ends P (ws_give_up t w)"
  unfolding ws_give_up_def by (intro net_rules)

lemma ends_data_frame:
  assumes P: "ignores_socket P" "P w"
    and clear: "P (w\<lparr>ws_previous_data := []\<rparr>)"
    and store: "length (ws_previous_data w) + length d \<le> jail_websocket_frame_size_limit \<Longrightarrow>
      P (w\<lparr>ws_previous_data := ws_previous_data w @ d\<rparr>)"
    and d: "length d \<le> jail_websocket_frame_size_limit"
  shows "net_ends P (ws_data_frame d fin w)"
proof -
  have bad: "net_ends P (net_bind (\<lambda>w. if \<not> ws_closeSent w then ws_sendClose q w else net_return () w)
        (\<lambda>_. net_bind ws_shut (\<lambda>_. net_return [])) w')" if "P w'" for w' q
    by (intro net_rules that P(1))
  show ?thesis
    unfolding ws_data_frame_def Let_def
    by (intro net_ends_if bad net_ends_return ends_give_up P)
      (use P clear store d in \<open>auto split: if_splits\<close>)
qed

lemma ends_frame:
  assumes "ignores_socket P" "P w" and "P (w\<lparr>ws_previous_data := []\<rparr>)"
    and "length (ws_previous_data w) + length d \<le> jail_websocket_frame_size_limit \<Longrightarrow>
      P (w\<lparr>ws_previous_data := ws_previous_data w @ d\<rparr>)"
    and "length d \<le> jail_websocket_frame_size_limit"
  shows "net_ends P (ws_frame d fin w)"
  unfolding ws_frame_def Let_def
  by (intro net_rules ends_data_frame assms) (use assms(4) in simp)

lemma decode64_length: "base64_decode s = Inr d \<Longrightarrow> length d \<le> length s"
proof -
  assume d: "base64_decode s = Inr d"
  have c: "fst (count64 t 0 0) + snd (count64 t 0 0) \<le> length t" for t
  proof (induction t)
    case (Cons c cs)
    then show ?case using count64_shift [of cs 1 0] count64_shift [of cs 0 1] by simp
  qed simp
  obtain n e where ne: "count64 s 0 0 = (n, e)" by fastforce
  have "int (length d) = int ((n + e) div 4 * 3) - int e"
    using base64_decode_length [OF d] ne by (simp add: decodeSize_def)
  then show "length d \<le> length s" using c [of s] ne by simp
qed

lemma decodeFrame_length:
  "de_text (decodeFrame b data t f) = Inr d \<Longrightarrow> length d \<le> jail_websocket_frame_size_limit"
proof -
  assume d: "de_text (decodeFrame b data t f) = Inr d"
  obtain fs c k n where fs: "frameSize data = (fs, c, k, n)" using prod_cases4 by blast
  have "n \<le> jail_websocket_frame_size_limit"
    using fs by (auto simp: frameSize_def frame_checks_def Let_def split: if_splits)
  moreover have "33 \<le> jail_websocket_frame_size_limit" by (simp add: jail_websocket_frame_size_limit_def)
  ultimately show ?thesis
    using d decode64_length fs
    by (auto simp: decodeFrame_def Let_def frame_error_def substr_def split: if_splits dest!: decode64_length)
qed

text \<open>
  An invariant of the whole state machine: it may look at the fragment store, whose size is bounded
  whenever the machine adds to it, and not at the buffer or at the type of the last frame.
\<close>

definition ws_invariant :: "(wsock \<Rightarrow> bool) \<Rightarrow> bool" where
  "ws_invariant P \<longleftrightarrow> ignores_socket P \<and>
     (\<forall>w b t. P (w\<lparr>ws_receiveBuffer := b, ws_lFrameType := t\<rparr>) = P w) \<and>
     (\<forall>w b. P (w\<lparr>ws_receiveBuffer := b\<rparr>) = P w) \<and>
     (\<forall>w d. P w \<longrightarrow> length d \<le> jail_websocket_frame_size_limit \<longrightarrow> P (w\<lparr>ws_previous_data := d\<rparr>))"

lemma ends_process: "ws_invariant P \<Longrightarrow> P w \<Longrightarrow> net_ends P (ws_process w)"
proof -
  assume I: "ws_invariant P" and w: "P w"
  note i = I [unfolded ws_invariant_def]
  let ?d = "decodeFrame (ws_base64 w) (ws_receiveBuffer w) (ws_lFrameType w) False"
  let ?w = "w\<lparr>ws_receiveBuffer := de_rest ?d, ws_lFrameType := de_type ?d\<rparr>"
  have "net_ends P (ws_frame t f ?w)" if "de_text ?d = Inr t" for t f
    by (rule ends_frame) (use i w decodeFrame_length [OF that] in auto)
  then show ?thesis
    unfolding ws_process_def Let_def using i w
    by (auto intro!: net_rules split: sum.split)
qed

lemma ends_receive: "ws_invariant P \<Longrightarrow> P w \<Longrightarrow> net_ends P (ws_receive w)"
  unfolding ws_receive_def
  by (rule net_ends_bind) (auto simp: ws_invariant_def intro!: net_rules ends_process)

lemma ends_send: "ws_invariant P \<Longrightarrow> P w \<Longrightarrow> net_ends P (ws_send s ft w)"
  unfolding ws_send_def Let_def by (rule ends_on_socket) (simp_all add: ws_invariant_def)

lemma ends_wait: "ws_invariant P \<Longrightarrow> P w \<Longrightarrow> net_ends P (ws_wait w)"
  unfolding ws_wait_def by (auto simp: ws_invariant_def intro!: net_rules)

lemma ends_poll_close: "ws_invariant P \<Longrightarrow> P w \<Longrightarrow> net_ends P (ws_poll_close n w)"
  by (induction n arbitrary: w)
    (auto intro!: net_rules ends_wait ends_receive)

lemma ends_closeAndWait: "ws_invariant P \<Longrightarrow> P w \<Longrightarrow> net_ends P (ws_closeAndWait t w)"
  unfolding ws_closeAndWait_def
  by (auto intro!: net_rules ends_poll_close simp: ws_invariant_def)

lemma ws_bounded_invariant: "ws_invariant ws_bounded"
  by (simp add: ws_invariant_def ignores_socket_def ws_bounded_def)

lemma closeSent_invariant: "ws_invariant ws_closeSent"
  by (simp add: ws_invariant_def ignores_socket_def)

section \<open>Processing one frame\<close>

lemma process_client_frame:
  assumes legal: "legal_frame fin ft (length payload)" and m: "length mkey = 4"
    and b: "ws_receiveBuffer w = client_frame fin ft mkey payload @ rest" and n64: "\<not> ws_base64 w"
  shows "ws_process w = (let t = (if ft \<noteq> CONTINUATION_FRAME then ft else ws_lFrameType w) in
    ws_frame payload fin (w\<lparr>ws_receiveBuffer := rest, ws_lFrameType := t\<rparr>))"
proof -
  note D = decodeFrame_client_frame [OF legal m, of False rest "ws_lFrameType w" False]
  have "isFrameComplete (client_frame fin ft mkey payload @ rest)"
  proof (rule ccontr)
    assume "\<not> isFrameComplete (client_frame fin ft mkey payload @ rest)"
    then have "de_text (decodeFrame False (client_frame fin ft mkey payload @ rest) t f) = Inr ''Frame size too large''
      \<and> de_type (decodeFrame False (client_frame fin ft mkey payload @ rest) t f) = ERROR_FRAME" for t f
      by (auto simp: isFrameComplete_def decodeFrame_def frame_error_def Let_def split: prod.splits if_splits)
    from this [of 0 False] show False
      using decodeFrame_client_frame [OF legal m, of False rest 0 False] legal
      by (auto simp: Let_def frame_types legal_frame_def split: if_splits)
  qed
  then show ?thesis
    using b n64 D by (simp add: ws_process_def Let_def)
qed

inductive ws_reachable :: "wsock \<Rightarrow> bool" where
  ws_new: "newWebSocket sha1 garbage k = (w, answer) \<Longrightarrow> on_socket (socket_send answer False) w rs = Some ((w', v), rs') \<Longrightarrow>
    ws_reachable w'"
| ws_received: "ws_reachable w \<Longrightarrow> ws_receive w rs = Some ((w', v), rs') \<Longrightarrow> ws_reachable w'"
| ws_sent: "ws_reachable w \<Longrightarrow> ws_send s ft w rs = Some ((w', u), rs') \<Longrightarrow> ws_reachable w'"
| ws_closed: "ws_reachable w \<Longrightarrow> ws_close t w rs = Some ((w', u), rs') \<Longrightarrow> ws_reachable w'"
| ws_waited: "ws_reachable w \<Longrightarrow> ws_wait w rs = Some ((w', i), rs') \<Longrightarrow> ws_reachable w'"
| ws_left: "ws_reachable w \<Longrightarrow> ws_closeAndWait n w rs = Some ((w', u), rs') \<Longrightarrow> ws_reachable w'"

lemma ws_reachable_bounded: "ws_reachable w \<Longrightarrow> ws_bounded w"
proof (induction rule: ws_reachable.induct)
  case (ws_new sha1 garbage k w answer rs w' v rs')
  have w: "ws_bounded w"
    using ws_new(1) by (auto simp: newWebSocket_def getHandshakeAnswer_def Let_def ws_bounded_def split: prod.splits if_splits)
  show ?case
    by (rule net_endsD [OF ends_on_socket ws_new(2)]) (use w ws_bounded_invariant ws_invariant_def in blast)+
next
  case (ws_closed w t rs w' u rs')
  show ?case
    by (rule net_endsD [OF ends_close ws_closed(2)]) (use ws_closed(3) ws_bounded_invariant ws_invariant_def in blast)+
next
  case (ws_received w rs w' v rs')
  show ?case by (rule net_endsD [OF ends_receive [OF ws_bounded_invariant ws_received(3)] ws_received(2)])
next
  case (ws_sent w s ft rs w' u rs')
  show ?case by (rule net_endsD [OF ends_send [OF ws_bounded_invariant ws_sent(3)] ws_sent(2)])
next
  case (ws_waited w rs w' i rs')
  show ?case by (rule net_endsD [OF ends_wait [OF ws_bounded_invariant ws_waited(3)] ws_waited(2)])
next
  case (ws_left w n rs w' u rs')
  show ?case by (rule net_endsD [OF ends_closeAndWait [OF ws_bounded_invariant ws_left(3)] ws_left(2)])
qed

section \<open>What is written\<close>

text \<open>A frame by its type and data, the number of close frames among them, and what a run of operations writes.\<close>

definition closes :: "(nat \<times> string) list \<Rightarrow> nat" where
  "closes frames = length (filter (\<lambda>(ft, d). ft = CONNECTION_CLOSE_FRAME) frames)"

definition writes :: "wsock \<Rightarrow> wsock \<Rightarrow> bool" where
  "writes w w' \<longleftrightarrow> ws_base64 w' = ws_base64 w \<and> (ws_closeSent w \<longrightarrow> ws_closeSent w') \<and>
     (\<exists>frames. stream_of (ws_socket w') = stream_of (ws_socket w) @ concat (map (\<lambda>(ft, d). encodeFrame (ws_base64 w) d ft) frames) \<and>
        closes frames + (if ws_closeSent w then 1 else 0) \<le> (if ws_closeSent w' then 1 else 0))"

lemma writes_refl [simp]: "writes w w"
  by (auto simp: writes_def closes_def intro: exI [of _ "[]"])

lemma writes_trans:
  assumes "writes u v" "writes v w"
  shows "writes u w"
proof -
  obtain f g where f: "stream_of (ws_socket v) = stream_of (ws_socket u) @ concat (map (\<lambda>(ft, d). encodeFrame (ws_base64 u) d ft) f)"
      "closes f + (if ws_closeSent u then 1 else 0) \<le> (if ws_closeSent v then 1 else 0)"
    and g: "stream_of (ws_socket w) = stream_of (ws_socket v) @ concat (map (\<lambda>(ft, d). encodeFrame (ws_base64 v) d ft) g)"
      "closes g + (if ws_closeSent v then 1 else 0) \<le> (if ws_closeSent w then 1 else 0)"
    using assms unfolding writes_def by blast
  have "closes (f @ g) = closes f + closes g" by (simp add: closes_def)
  moreover have "ws_base64 v = ws_base64 u" using assms(1) by (simp add: writes_def)
  ultimately show ?thesis
    using assms f g unfolding writes_def by (intro conjI exI [of _ "f @ g"]) auto
qed

text \<open>Every normal end of a computation has only written so.\<close>

definition writes_only :: "(wsock, 'a) net \<Rightarrow> bool" where
  "writes_only m \<longleftrightarrow> (\<forall>w rs w' x rs'. m w rs = Some ((w', Inr x), rs') \<longrightarrow> writes w w')"

lemma writes_onlyD: "writes_only m \<Longrightarrow> m w rs = Some ((w', Inr x), rs') \<Longrightarrow> writes w w'"
  unfolding writes_only_def by blast

named_theorems writing "computations that write whole frames, and a close frame once"

lemma writes_only_return [writing]: "writes_only (net_return x)" "writes_only (net_throw e)"
  by (simp_all add: writes_only_def net_return_def net_throw_def)

lemma writes_only_bind [writing]: "writes_only m \<Longrightarrow> (\<And>x. writes_only (f x)) \<Longrightarrow> writes_only (net_bind m f)"
  unfolding writes_only_def
proof (intro allI impI)
  fix w rs w' y rs'
  assume m: "\<forall>w rs w' x rs'. m w rs = Some ((w', Inr x), rs') \<longrightarrow> writes w w'"
    and f: "\<And>x. \<forall>w rs w' y rs'. f x w rs = Some ((w', Inr y), rs') \<longrightarrow> writes w w'"
    and "net_bind m f w rs = Some ((w', Inr y), rs')"
  then obtain v x rs1 where v: "m w rs = Some ((v, Inr x), rs1)" "f x v rs1 = Some ((w', Inr y), rs')"
    by (auto simp: net_bind_def split: option.splits sum.splits)
  show "writes w w'" using writes_trans m v(1) f v(2) by blast
qed

text \<open>A change of the fields that are not written.\<close>

lemma writes_same:
  "ws_base64 w' = ws_base64 w \<Longrightarrow> ws_closeSent w' = ws_closeSent w \<Longrightarrow> stream_of (ws_socket w') = stream_of (ws_socket w) \<Longrightarrow> writes w w'"
  by (auto simp: writes_def closes_def intro: exI [of _ "[]"])

lemma closed_send: "sk_closed k \<Longrightarrow> socket_send d a k rs = Some ((k, Inr ()), rs)"
  by (simp add: socket_send_def)

lemma send_frame_stream:
  assumes "on_socket (socket_send (encodeFrame b d ft) False) w rs = Some ((w', Inr u), rs')"
  shows "\<exists>k. w' = w\<lparr>ws_socket := k\<rparr> \<and>
    (stream_of k = stream_of (ws_socket w) \<or> stream_of k = stream_of (ws_socket w) @ encodeFrame b d ft)"
proof -
  obtain k where k: "socket_send (encodeFrame b d ft) False (ws_socket w) rs = Some ((k, Inr u), rs')" "w' = w\<lparr>ws_socket := k\<rparr>"
    using assms by (auto simp: on_socket_def on_part_def split: option.splits)
  then show ?thesis
    using socket_send_sent [OF k(1)] by (cases "sk_closed (ws_socket w)") (auto simp: closed_send)
qed

lemma writes_frame: "ft \<noteq> CONNECTION_CLOSE_FRAME \<Longrightarrow> writes_only (\<lambda>w. on_socket (socket_send (encodeFrame (ws_base64 w) d ft) False) w)"
  unfolding writes_only_def
proof (intro allI impI)
  fix w rs w' x rs'
  assume ft: "ft \<noteq> CONNECTION_CLOSE_FRAME" and "on_socket (socket_send (encodeFrame (ws_base64 w) d ft) False) w rs = Some ((w', Inr x), rs')"
  then obtain k where k: "w' = w\<lparr>ws_socket := k\<rparr>"
      "stream_of k = stream_of (ws_socket w) \<or> stream_of k = stream_of (ws_socket w) @ encodeFrame (ws_base64 w) d ft"
    using send_frame_stream by blast
  from k(2) show "writes w w'"
  proof
    assume "stream_of k = stream_of (ws_socket w) @ encodeFrame (ws_base64 w) d ft"
    then show ?thesis using k(1) ft unfolding writes_def by (intro conjI exI [of _ "[(ft, d)]"]) (auto simp: closes_def)
  qed (use k(1) in \<open>simp add: writes_same\<close>)
qed

lemma sendClose_writes:
  assumes "\<not> ws_closeSent w" "ws_sendClose d w rs = Some ((w', Inr x), rs')"
  shows "writes w w'"
proof -
  obtain v where v: "on_socket (socket_send (encodeFrame (ws_base64 w) d CONNECTION_CLOSE_FRAME) False) w rs = Some ((v, Inr ()), rs')"
      "w' = v\<lparr>ws_closeSent := True\<rparr>"
    using assms(2) by (auto simp: ws_sendClose_def net_bind_def net_modify_def split: option.splits sum.splits)
  obtain k where k: "v = w\<lparr>ws_socket := k\<rparr>"
      "stream_of k = stream_of (ws_socket w) \<or> stream_of k = stream_of (ws_socket w) @ encodeFrame (ws_base64 w) d CONNECTION_CLOSE_FRAME"
    using send_frame_stream [OF v(1)] by blast
  from k(2) show ?thesis
  proof
    assume "stream_of k = stream_of (ws_socket w)"
    then show ?thesis using k(1) v(2) assms(1) unfolding writes_def by (intro conjI exI [of _ "[]"]) (auto simp: closes_def)
  next
    assume "stream_of k = stream_of (ws_socket w) @ encodeFrame (ws_base64 w) d CONNECTION_CLOSE_FRAME"
    then show ?thesis using k(1) v(2) assms(1) unfolding writes_def
      by (intro conjI exI [of _ "[(CONNECTION_CLOSE_FRAME, d)]"]) (auto simp: closes_def)
  qed
qed

lemma close_once [writing]:
  "writes_only (\<lambda>w. if \<not> ws_closeSent w then ws_sendClose d w else net_return () w)"
  unfolding writes_only_def using sendClose_writes by (fastforce simp: net_return_def split: if_splits)

lemma writes_close [writing]: "writes_only (ws_close t)"
  unfolding writes_only_def ws_close_def using sendClose_writes by (fastforce simp: net_return_def split: if_splits)

lemma writes_shut [writing]: "writes_only ws_shut"
  unfolding writes_only_def ws_shut_def
  by (auto simp: net_modify_def socket_close_def closeFlag_def stream_of_def intro!: writes_same)

lemma writes_give_up [writing]: "writes_only (ws_give_up t)"
  unfolding ws_give_up_def by (intro writing)

lemma writes_after:
  assumes "writes_only m" "ws_base64 v = ws_base64 w" "ws_closeSent v = ws_closeSent w" "stream_of (ws_socket v) = stream_of (ws_socket w)"
    and "m v rs = Some ((w', Inr x), rs')"
  shows "writes w w'"
  using writes_trans [OF writes_same [OF assms(2-4)] writes_onlyD [OF assms(1,5)]] .

lemma writes_data_frame: "writes_only (ws_data_frame d fin)"
  unfolding writes_only_def
proof (intro allI impI)
  fix w rs w' x rs'
  assume r: "ws_data_frame d fin w rs = Some ((w', Inr x), rs')"
  have bad: "writes_only (net_bind (\<lambda>w. if \<not> ws_closeSent w then ws_sendClose p w else net_return () w)
      (\<lambda>_. net_bind ws_shut (\<lambda>_. net_return [])))" for p by (intro writing)
  show "writes w w'"
  proof (cases fin)
    case True
    let ?v = "if length (ws_previous_data w) > 0 then w\<lparr>ws_previous_data := []\<rparr> else w"
    have v: "ws_base64 ?v = ws_base64 w" "ws_closeSent ?v = ws_closeSent w" "stream_of (ws_socket ?v) = stream_of (ws_socket w)" by simp_all
    from r True consider p where "net_bind (\<lambda>w. if \<not> ws_closeSent w then ws_sendClose p w else net_return () w)
        (\<lambda>_. net_bind ws_shut (\<lambda>_. net_return [])) ?v rs = Some ((w', Inr x), rs')"
      | e where "net_return e ?v rs = Some ((w', Inr x), rs')"
      unfolding ws_data_frame_def Let_def by (simp split: if_splits)
    then show ?thesis
    proof cases
      case 1
      then show ?thesis by (rule writes_after [OF bad v])
    next
      case 2
      then show ?thesis by (rule writes_after [OF writes_only_return(1) v])
    qed
  next
    case False
    then consider "ws_give_up ''Error'' w rs = Some ((w', Inr x), rs')"
      | "net_return [] (w\<lparr>ws_previous_data := ws_previous_data w @ d\<rparr>) rs = Some ((w', Inr x), rs')"
      using r by (auto simp: ws_data_frame_def split: if_splits)
    then show ?thesis
    proof cases
      case 1
      then show ?thesis by (rule writes_onlyD [OF writes_give_up])
    next
      case 2
      then have "w' = w\<lparr>ws_previous_data := ws_previous_data w @ d\<rparr>" by (simp add: net_return_def)
      then show ?thesis by (simp add: writes_same)
    qed
  qed
qed

lemma writes_on_frame: "writes_only (ws_frame d fin)"
proof -
  have pong: "writes_only (\<lambda>w. net_bind (on_socket (socket_send (encodeFrame (ws_base64 w) d PONG_FRAME) False)) (\<lambda>_. net_return []) w)"
  proof -
    have eq: "(\<lambda>w. net_bind (on_socket (socket_send (encodeFrame (ws_base64 w) d PONG_FRAME) False)) (\<lambda>_. net_return []) w) =
        net_bind (\<lambda>w. on_socket (socket_send (encodeFrame (ws_base64 w) d PONG_FRAME) False) w) (\<lambda>_. net_return [])"
      by (simp add: net_bind_def fun_eq_iff)
    show ?thesis unfolding eq by (intro writes_only_bind writes_frame writes_only_return) (simp add: frame_types)
  qed
  show ?thesis
    unfolding writes_only_def ws_frame_def Let_def
    using writes_onlyD [OF writes_data_frame] writes_onlyD [OF writes_give_up] writes_onlyD [OF pong] writes_onlyD [OF writes_only_return(1)]
    by (auto split: if_splits)
qed

lemma writes_process: "writes_only ws_process"
  unfolding writes_only_def
proof (intro allI impI)
  fix w rs w' x rs'
  assume r: "ws_process w rs = Some ((w', Inr x), rs')"
  let ?d = "decodeFrame (ws_base64 w) (ws_receiveBuffer w) (ws_lFrameType w) False"
  let ?v = "w\<lparr>ws_receiveBuffer := de_rest ?d, ws_lFrameType := de_type ?d\<rparr>"
  from r consider "ws_give_up ''Error'' w rs = Some ((w', Inr x), rs')"
    | data where "ws_frame data (de_fin ?d) ?v rs = Some ((w', Inr x), rs')" | "w' = w"
    by (auto simp: ws_process_def Let_def net_return_def net_throw_def split: if_splits sum.splits)
  then show "writes w w'"
  proof cases
    case 1
    then show ?thesis using writes_onlyD [OF writes_give_up] by blast
  next
    case 2
    then show ?thesis using writes_after [OF writes_on_frame, of ?v w] by simp
  qed simp
qed

lemma writes_receive: "writes_only ws_receive"
  unfolding writes_only_def
proof (intro allI impI)
  fix w rs w' x rs'
  assume "ws_receive w rs = Some ((w', Inr x), rs')"
  then obtain k got rs1 where k: "receive_from 0 (ws_socket w) rs = Some ((k, Inr got), rs1)"
      "ws_process (w\<lparr>ws_socket := k, ws_receiveBuffer := ws_receiveBuffer w @ got\<rparr>) rs1 = Some ((w', Inr x), rs')"
    by (auto simp: ws_receive_def net_bind_def on_socket_def on_part_def split: option.splits sum.splits)
  show "writes w w'"
    using writes_after [OF writes_process _ _ _ k(2), of w] receive_stream [OF k(1)] by simp
qed

lemma writes_send: "ft \<noteq> CONNECTION_CLOSE_FRAME \<Longrightarrow> writes_only (ws_send s ft)"
  unfolding ws_send_def Let_def by (rule writes_frame)

lemma writes_wait: "writes_only ws_wait"
  unfolding writes_only_def
proof (intro allI impI)
  fix w rs w' x rs'
  assume r: "ws_wait w rs = Some ((w', Inr x), rs')"
  show "writes w w'"
  proof (cases "length (ws_receiveBuffer w) > 0")
    case False
    then obtain k where "socket_wait (ws_socket w) rs = Some ((k, Inr x), rs')" "w' = w\<lparr>ws_socket := k\<rparr>"
      using r by (auto simp: ws_wait_def on_socket_def on_part_def split: option.splits)
    then show ?thesis using wait_stream by (intro writes_same) simp_all
  qed (use r in \<open>simp add: ws_wait_def net_return_def\<close>)
qed

text \<open>Operations one after another, none of which throws; what ends a connection, \<open>closeAndWait\<close>, is not among them.\<close>

inductive ws_runs :: "wsock \<Rightarrow> wsock \<Rightarrow> bool" for w where
  run_start: "ws_runs w w"
| run_receive: "ws_runs w v \<Longrightarrow> ws_receive v rs = Some ((v', Inr d), rs') \<Longrightarrow> ws_runs w v'"
| run_send: "ws_runs w v \<Longrightarrow> ft \<noteq> CONNECTION_CLOSE_FRAME \<Longrightarrow> ws_send s ft v rs = Some ((v', Inr ()), rs') \<Longrightarrow> ws_runs w v'"
| run_close: "ws_runs w v \<Longrightarrow> ws_close t v rs = Some ((v', Inr ()), rs') \<Longrightarrow> ws_runs w v'"
| run_wait: "ws_runs w v \<Longrightarrow> ws_wait v rs = Some ((v', Inr i), rs') \<Longrightarrow> ws_runs w v'"

lemma ws_runs_writes: "ws_runs w w' \<Longrightarrow> writes w w'"
proof (induction rule: ws_runs.induct)
  case (run_receive v rs v' d rs')
  then show ?case using writes_trans writes_onlyD [OF writes_receive] by blast
next
  case (run_send v ft s rs v' rs')
  then show ?case using writes_trans writes_onlyD [OF writes_send] by blast
next
  case (run_close v t rs v' rs')
  then show ?case using writes_trans writes_onlyD [OF writes_close] by blast
next
  case (run_wait v rs v' i rs')
  then show ?case using writes_trans writes_onlyD [OF writes_wait] by blast
qed simp

interpretation ws_channel: closable_channel ws_isClosed "\<lambda>w. w\<lparr>ws_socket := socket_close (ws_socket w)\<rparr>"
    "\<lambda>w. sk_wire (ws_socket w)"
  by unfold_locales (simp_all add: ws_isClosed_def socket_close_def closeFlag_def)

section \<open>Properties\<close>

text \<open>
  C35: a legal masked client frame, whatever its size class and whatever bytes follow it, decodes to its
  own payload (base64-decoded when the peer chose that protocol), type and final flag, and exactly
  the frame is removed from the buffer.
\<close>

theorem client_frame_round_trip:
  assumes "legal_frame fin ft (length payload)" and "length mkey = 4"
  shows "decodeFrame base64 (client_frame fin ft mkey payload @ rest) ft0 fin0 =
    (let t = (if ft \<noteq> CONTINUATION_FRAME then ft else ft0) in
     if base64 \<and> t = TEXT_FRAME
     then \<lparr>de_text = base64_decode payload, de_rest = rest, de_type = BINARY_FRAME, de_fin = fin\<rparr>
     else \<lparr>de_text = Inr payload, de_rest = rest, de_type = t, de_fin = fin\<rparr>)"
  using assms by (rule decodeFrame_client_frame)

theorem client_frame_round_trip_witness:
  "decodeFrame False (client_frame True BINARY_FRAME ''abcd'' (replicate 70000 blank)) 0 False =
    \<lparr>de_text = Inr (replicate 70000 blank), de_rest = [], de_type = BINARY_FRAME, de_fin = True\<rparr>"
  using client_frame_round_trip [of True BINARY_FRAME "replicate 70000 blank" "''abcd''" False "[]" 0 False]
  by (simp add: legal_frame_def frame_types jail_websocket_frame_size_limit_def Let_def)

text \<open>
  The header of every frame the server writes announces exactly the bytes that follow, so the
  peer finds the next frame where it begins.
\<close>

theorem server_frame_length:
  assumes "legal_frame True ft (length d)" and "\<not> (base64 \<and> ft = BINARY_FRAME)"
  shows "frameSize (encodeFrame base64 d ft @ rest) =
    (int (length (encodeFrame base64 d ft)), control_size_of (length d), 0, length d)"
  using assms by (rule frameSize_encodeFrame)

theorem server_frame_length_witness:
  "frameSize (encodeFrame False ''ok'' TEXT_FRAME @ ''next'') =
    (int (length (encodeFrame False ''ok'' TEXT_FRAME)), control_size_of 2, 0, 2)"
  using server_frame_length [of TEXT_FRAME "''ok''" False "''next''"]
  by (simp add: legal_frame_def frame_types jail_websocket_frame_size_limit_def numeral_2_eq_2)



text \<open>What the close flag does not stop: data frames are written after a close frame has been.\<close>

theorem sends_after_close:
  assumes "ws_closeSent w" "\<not> sk_closed (ws_socket w)" "ws_send d BINARY_FRAME w rs = Some ((w', Inr ()), rs')"
  shows "stream_of (ws_socket w') = stream_of (ws_socket w) @ encodeFrame (ws_base64 w) d BINARY_FRAME"
  using assms(3) socket_send_sent [OF _ assms(2)]
  by (fastforce simp: ws_send_def on_socket_def on_part_def frame_types split: option.splits)

text \<open>
  A message cut in two frames is put together: the first frame is stored and yields nothing, the
  final continuation yields both parts (checked as UTF-8 when the message is a text).
\<close>

theorem fragments_reassembled:
  assumes "legal_frame False ft (length d)" and "legal_frame True CONTINUATION_FRAME (length e)"
    and "ft = TEXT_FRAME \<or> ft = BINARY_FRAME" and "length mkey = 4" and "d \<noteq> []"
    and "ft = TEXT_FRAME \<longrightarrow> isValidUTF8 (d @ e)"
    and "ws_receiveBuffer w = client_frame False ft mkey d @ client_frame True CONTINUATION_FRAME mkey e @ rest"
    and "\<not> ws_base64 w" and "ws_previous_data w = []"
  shows "net_bind ws_process (\<lambda>_. ws_process) w rs =
    Some ((w\<lparr>ws_receiveBuffer := rest, ws_lFrameType := ft\<rparr>, Inr (d @ e)), rs)"
proof -
  let ?w1 = "w\<lparr>ws_receiveBuffer := client_frame True CONTINUATION_FRAME mkey e @ rest, ws_lFrameType := ft,
    ws_previous_data := d\<rparr>"
  have ft: "ft \<noteq> CONTINUATION_FRAME" using assms(3) by (auto simp: frame_types)
  have 1: "ws_process w rs = Some ((?w1, Inr []), rs)"
    using process_client_frame [OF assms(1,4,7,8)] assms(3,9) ft
    by (auto simp: Let_def ws_frame_def ws_data_frame_def net_return_def)
  have 2: "ws_process ?w1 rs = Some ((w\<lparr>ws_receiveBuffer := rest, ws_lFrameType := ft\<rparr>, Inr (d @ e)), rs)"
    using process_client_frame [OF assms(2,4), of ?w1 rest] assms(3,5,6,8,9)
    by (auto simp: Let_def ws_frame_def ws_data_frame_def net_return_def)
  show ?thesis by (simp add: net_bind_def 1 2)
qed

theorem fragments_reassembled_witness:
  "\<exists>w. net_bind ws_process (\<lambda>_. ws_process) w [] =
    Some ((w\<lparr>ws_receiveBuffer := [], ws_lFrameType := BINARY_FRAME\<rparr>, Inr (''ab'' @ ''cd'')), [])"
proof -
  let ?w = "(fst (newWebSocket (\<lambda>s. s) 0 (newSocket 0 10)))\<lparr>ws_base64 := False, ws_previous_data := [],
    ws_receiveBuffer := client_frame False BINARY_FRAME ''mask'' ''ab'' @ client_frame True CONTINUATION_FRAME ''mask'' ''cd'' @ []\<rparr>"
  show ?thesis
    by (rule exI [of _ ?w], rule fragments_reassembled [of _ _ _ "''mask''"])
      (simp_all add: legal_frame_def frame_types jail_websocket_frame_size_limit_def)
qed

text \<open>
  A ping between two fragments changes the remembered frame type, so the continuation that follows
  is answered as if it were a ping and its data are not delivered, although RFC 6455 lets control
  frames appear between fragments.
\<close>

theorem continuation_after_ping_lost:
  assumes "legal_frame True CONTINUATION_FRAME (length e)" and "length mkey = 4"
    and "ws_receiveBuffer w = client_frame True CONTINUATION_FRAME mkey e @ rest"
    and "\<not> ws_base64 w" and "ws_lFrameType w = PING_FRAME"
  shows "ws_process w = net_bind (on_socket (socket_send (encodeFrame False e PONG_FRAME) False))
    (\<lambda>_. net_return []) (w\<lparr>ws_receiveBuffer := rest, ws_lFrameType := PING_FRAME\<rparr>)"
  using process_client_frame [OF assms(1-4)] assms(4,5)
  by (simp add: Let_def ws_frame_def frame_types)

theorem continuation_after_ping_lost_witness:
  "\<exists>w. ws_receiveBuffer w = client_frame True CONTINUATION_FRAME ''mask'' ''cd''
    \<and> ws_process w = net_bind (on_socket (socket_send (encodeFrame False ''cd'' PONG_FRAME) False))
      (\<lambda>_. net_return []) (w\<lparr>ws_receiveBuffer := [], ws_lFrameType := PING_FRAME\<rparr>)"
proof -
  let ?w = "(fst (newWebSocket (\<lambda>s. s) 0 (newSocket 0 10)))\<lparr>ws_base64 := False, ws_lFrameType := PING_FRAME,
    ws_receiveBuffer := client_frame True CONTINUATION_FRAME ''mask'' ''cd''\<rparr>"
  have "ws_process ?w = net_bind (on_socket (socket_send (encodeFrame False ''cd'' PONG_FRAME) False))
      (\<lambda>_. net_return []) (?w\<lparr>ws_receiveBuffer := [], ws_lFrameType := PING_FRAME\<rparr>)"
    by (rule continuation_after_ping_lost [of "''cd''" "''mask''"])
      (simp_all add: legal_frame_def frame_types jail_websocket_frame_size_limit_def)
  then show ?thesis by (intro exI [of _ ?w]) simp
qed

end
