(* ===== verification/Config_File.thy ===== *)
theory Config_File
  imports Util_Strings "HOL-Library.Char_ord" "HOL-Library.List_Lexorder"
begin

text \<open>
  The class \<open>ConfigurationFile\<close>: the \<open>PARAM=value\<close> files that hold the server's configuration and,
  for every running task, its state on disk. \<open>ConfigData\<close> is a \<open>std::map\<close>: here an association
  list kept strictly sorted by key, so that iterating over it has the order the code has. The round
  trip of a file is proved for values the format can carry, and what happens to the others is stated.
\<close>

section \<open>Sorted maps\<close>

type_synonym config_data = "(string \<times> string) list"

fun cd_get :: "config_data \<Rightarrow> string \<Rightarrow> string option" where
  "cd_get [] k = None"
| "cd_get ((a, v) # m) k = (if a = k then Some v else cd_get m k)"

fun cd_set :: "config_data \<Rightarrow> string \<Rightarrow> string \<Rightarrow> config_data" where
  "cd_set [] k v = [(k, v)]"
| "cd_set ((a, w) # m) k v =
     (if k < a then (k, v) # (a, w) # m else if k = a then (k, v) # m else (a, w) # cd_set m k v)"

text \<open>\<open>data[k]\<close> read: a missing key is inserted with the empty value, and that is read.\<close>

definition cd_index :: "config_data \<Rightarrow> string \<Rightarrow> string" where
  "cd_index m k = (case cd_get m k of Some v \<Rightarrow> v | None \<Rightarrow> [])"

definition cd_sorted :: "config_data \<Rightarrow> bool" where
  "cd_sorted m \<longleftrightarrow> sorted_wrt (<) (map fst m)"

lemma cd_get_set [simp]: "cd_get (cd_set m k v) a = (if a = k then Some v else cd_get m a)"
  by (induction m k v rule: cd_set.induct) auto

lemma cd_keys_set: "set (map fst (cd_set m k v)) = insert k (set (map fst m))"
  by (induction m k v rule: cd_set.induct) auto

lemma cd_sorted_set: "cd_sorted m \<Longrightarrow> cd_sorted (cd_set m k v)"
proof (induction m k v rule: cd_set.induct)
  case (2 a w m k v)
  have "\<forall>x \<in> set (map fst (cd_set m k v)). a < x" if "\<not> k < a" "k \<noteq> a"
    using 2(2) that unfolding cd_keys_set by (auto simp: cd_sorted_def)
  then show ?case using 2 by (auto simp: cd_sorted_def)
qed (simp add: cd_sorted_def)

lemma cd_get_None: "cd_get m k = None \<longleftrightarrow> k \<notin> fst ` set m"
  by (induction m) (auto split: if_splits)

lemma cd_get_Some: "cd_sorted m \<Longrightarrow> cd_get m k = Some v \<longleftrightarrow> (k, v) \<in> set m"
  by (induction m) (auto simp: cd_sorted_def split: if_splits)

text \<open>A sorted map is determined by what it answers.\<close>

lemma cd_ext: "cd_sorted m \<Longrightarrow> cd_sorted n \<Longrightarrow> cd_get m = cd_get n \<Longrightarrow> m = n"
proof -
  assume s: "cd_sorted m" "cd_sorted n" and e: "cd_get m = cd_get n"
  have st: "set m = set n" using cd_get_Some [OF s(1)] cd_get_Some [OF s(2)] e by auto
  have "sorted_wrt (\<lambda>p q. fst p < fst q) m" "sorted_wrt (\<lambda>p q. fst p < fst q) n"
    using s by (simp_all add: cd_sorted_def sorted_wrt_map)
  then show "m = n" using st
  proof (induction m arbitrary: n)
    case (Cons p m)
    then obtain q n' where n: "n = q # n'" by (cases n) auto
    have "p = q"
    proof (rule ccontr)
      assume "p \<noteq> q"
      then have "p \<in> set n'" "q \<in> set m" using Cons.prems(3) n by auto
      then have "fst q < fst p" "fst p < fst q" using Cons.prems(1,2) n by auto
      then show False by simp
    qed
    moreover have "p \<notin> set m" "q \<notin> set n'" using Cons.prems(1,2) n by auto
    ultimately have "set m = set n'" using Cons.prems(3) n by auto
    with Cons \<open>p = q\<close> n show ?case by simp
  qed simp
qed

section \<open>Operations\<close>

definition hash :: char where "hash = CHR ''#''"
definition eqsign :: char where "eqsign = CHR ''=''"

definition config_reg :: vplregex where
  "config_reg = vplregex_extended (seqs [Bol, Star (Cls is_blank_tab), Grp 1 (Plus (NotCls is_blank_tab)),
     Star (Cls is_blank_tab), Chr eqsign, Star (Cls is_blank_tab), Grp 2 (Star (NotCls (\<lambda>c. c = hash)))])"

definition config_comment :: vplregex where
  "config_comment = vplregex_extended (seqs [Bol, Star (Cls is_blank_tab),
     Opt (Grp 1 (Seq (Chr hash) (Star AnyChar))), Eol])"

definition parseConfigLine :: "config_data \<Rightarrow> string \<Rightarrow> config_data result" where
  "parseConfigLine data line = (case vplregex_search config_comment line 3 of
      Some found \<Rightarrow> Inr data
    | None \<Rightarrow> (case vplregex_search config_reg line 3 of
        Some found \<Rightarrow> Inr (cd_set data (toUppercase (found ! 1)) (trimAndRemoveQuotes (found ! 2)))
      | None \<Rightarrow> Inl (HttpExn InternalServerErrorCode (''Incorrect config file: '' @ line) [])))"

text \<open>\<open>getline\<close> on a file: the pieces between line feeds, the last one when it is not empty.\<close>

fun file_lines :: "string \<Rightarrow> string list" where
  "file_lines [] = []"
| "file_lines (c # cs) = (if c = lf then [] # file_lines cs
     else case file_lines cs of
         [] \<Rightarrow> [[c]]
       | l # ls \<Rightarrow> (c # l) # ls)"

fun parse_lines :: "config_data \<Rightarrow> string list \<Rightarrow> config_data result" where
  "parse_lines data [] = Inr data"
| "parse_lines data (l # ls) = bind_result (parseConfigLine data l) (\<lambda>data. parse_lines data ls)"

definition add_defaults :: "config_data \<Rightarrow> config_data \<Rightarrow> config_data" where
  "add_defaults data defaultData = foldl (\<lambda>d (k, v).
     if cd_get d (toUppercase k) = None then cd_set d (toUppercase k) v else d) data defaultData"

text \<open>The contents of the file, or \<open>None\<close> when it cannot be opened.\<close>

definition readConfiguration :: "string option \<Rightarrow> string \<Rightarrow> config_data \<Rightarrow> config_data result" where
  "readConfiguration file fileName defaultData = (case file of
      None \<Rightarrow> Inl (HttpExn InternalServerErrorCode ''Config file can't be opened'' fileName)
    | Some text \<Rightarrow> bind_result (parse_lines [] (file_lines text)) (\<lambda>data. Inr (add_defaults data defaultData)))"

definition config_line :: "string \<times> string \<Rightarrow> string" where
  "config_line p = fst p @ eqsign # snd p"

definition config_text :: "config_data \<Rightarrow> string" where
  "config_text data = ''#Autogenerated Config file of VPL '' @ [lf] @
     concat (map (\<lambda>p. config_line p @ [lf]) data) @ ''#End Config file of VPL '' @ [lf]"

text \<open>
  \<open>writeConfiguration\<close>: the text goes to a temporary file that replaces the old one by \<open>rename\<close>, so
  the file holds either its old contents or all of the new. \<open>io\<close> says which system call fails, if any.
\<close>

datatype write_failure = NoFailure | MkstempFails | FchmodFails | WriteFails | CloseFails | RenameFails

definition writeConfiguration :: "write_failure \<Rightarrow> string option \<Rightarrow> string \<Rightarrow> config_data \<Rightarrow> string option \<times> unit result" where
  "writeConfiguration io old fileName data =
     (if io = NoFailure then (Some (config_text data), Inr ())
      else (old, Inl (HttpExn InternalServerErrorCode ''Config file can't be write'' fileName)))"

section \<open>Reading back what was written\<close>

lemma file_lines_line: "lf \<notin> set l \<Longrightarrow> file_lines (l @ lf # t) = l # file_lines t"
  by (induction l) auto

lemma file_lines_lines:
  "\<forall>l \<in> set ls. lf \<notin> set l \<Longrightarrow> file_lines (concat (map (\<lambda>l. l @ [lf]) ls) @ t) = ls @ file_lines t"
  by (induction ls) (simp_all add: file_lines_line)

text \<open>
  Keys and values the format carries: a key in upper case without blanks, signs or marks; a value
  without line feeds, zero bytes, marks, signs and surrounding blanks or quotes.
\<close>

definition plain_key :: "string \<Rightarrow> bool" where
  "plain_key k \<longleftrightarrow> k \<noteq> [] \<and> toUppercase k = k \<and> set k \<inter> {blank, tab, lf, nul, hash, eqsign} = {}"

definition plain_value :: "string \<Rightarrow> bool" where
  "plain_value v \<longleftrightarrow> set v \<inter> {lf, nul, hash, eqsign} = {} \<and> trimAndRemoveQuotes v = v \<and>
     (v \<noteq> [] \<longrightarrow> \<not> is_blank_tab (hd v))"

lemma config_marks [simp]:
  "eqsign \<noteq> hash" "hash \<noteq> eqsign" "eqsign \<noteq> blank" "blank \<noteq> eqsign" "eqsign \<noteq> tab" "tab \<noteq> eqsign"
  "hash \<noteq> blank" "blank \<noteq> hash" "hash \<noteq> tab" "tab \<noteq> hash" "nul \<noteq> eqsign" "nul \<noteq> hash" "lf \<noteq> eqsign" "lf \<noteq> hash"
  "eqsign \<noteq> nul" "hash \<noteq> nul" "eqsign \<noteq> lf" "hash \<noteq> lf"
  by (simp_all add: char_names hash_def eqsign_def)

lemma not_comment:
  assumes k: "plain_key k"
  shows "vplregex_search config_comment (k @ eqsign # v) 3 = None"
proof -
  obtain a t where kt: "k = a # t" using k by (cases k) (auto simp: plain_key_def)
  have a: "\<not> is_blank_tab a" "a \<noteq> hash" "a \<noteq> nul" using k kt by (auto simp: plain_key_def is_blank_tab_def)
  define s where "s = c_str (k @ eqsign # v)"
  have s: "s = a # tl s" using a kt by (simp add: s_def c_str_def)
  then have s0: "s ! 0 = a" "length s > 0" by (metis nth_Cons_0, metis length_greater_0_conv list.distinct(1))
  have "\<not> rx_run config_comment s (rx_pattern config_comment) i Map.empty j c" for i j c
  proof
    assume "rx_run config_comment s (rx_pattern config_comment) i Map.empty j c"
    then obtain m d where i: "i = 0" and m: "\<forall>n. n < m \<longrightarrow> is_blank_tab (s ! n)"
      and r: "(\<exists>e. m < length s \<and> s ! m = hash) \<or> m = length s"
      unfolding config_comment_def extended_simps seqs.simps rx_run.simps(2,7,10,3) rx_run_star_Cls rx_run_Opt
        Chr_def rx_run.simps(5) in_class_extended
      by auto
    have "m = 0" using m s0 a(1) by (cases m) auto
    with r s0 a show False by auto
  qed
  then show ?thesis by (simp add: vplregex_search_None s_def)
qed

lemma config_reg_run:
  assumes k: "plain_key k" and v: "plain_value v"
  defines "s \<equiv> k @ eqsign # v"
  shows "rx_run config_reg s (rx_pattern config_reg) i Map.empty j c \<longleftrightarrow>
    i = 0 \<and> Suc (length k) \<le> j \<and> j \<le> length s \<and> c = [1 \<mapsto> (0, length k), 2 \<mapsto> (Suc (length k), j)]"
    (is "?L \<longleftrightarrow> ?R")
proof -
  let ?k = "length k" and ?b = "\<lambda>n. is_blank_tab (s ! n)"
  have len: "length s = Suc (?k + length v)" by (simp add: s_def)
  have kb: "\<not> ?b n" if "n \<le> ?k" for n
  proof (cases "n = ?k")
    case False
    then have "s ! n \<in> set k" using that by (simp add: s_def nth_append)
    then show ?thesis using k by (auto simp: plain_key_def is_blank_tab_def)
  qed (simp add: s_def is_blank_tab_def)
  have eqs: "s ! n = eqsign \<longleftrightarrow> n = ?k" if n: "n < length s" for n
  proof -
    consider "n < ?k" | "n = ?k" | m where "n = Suc (?k + m)" by (metis less_imp_Suc_add linorder_neqE_nat)
    then show ?thesis
    proof cases
      case 1
      then have "s ! n \<in> set k" by (simp add: s_def nth_append)
      with 1 k show ?thesis by (auto simp: plain_key_def)
    next
      case (3 m)
      then have "s ! n \<in> set v" using n len by (simp add: s_def nth_append)
      with 3 v show ?thesis by (auto simp: plain_value_def)
    qed (simp add: s_def)
  qed
  have vb: "n = length s \<or> \<not> ?b n" if "n = Suc ?k" for n
    using v that by (cases v) (auto simp: s_def plain_value_def nth_append)
  have vh: "s ! n \<noteq> hash" if n: "Suc ?k \<le> n" "n < length s" for n
  proof -
    obtain m where m: "n = Suc (?k + m)" using n(1) by (metis add_Suc le_Suc_ex)
    then have "s ! n \<in> set v" using n len by (simp add: s_def nth_append)
    then show ?thesis using v by (auto simp: plain_value_def)
  qed
  have k0: "0 < ?k" using k by (auto simp: plain_key_def)
  show ?thesis
  proof
    assume ?L
    then have "\<exists>a b d e. i = 0 \<and> (a = 0 \<or> a \<le> length s) \<and> (\<forall>n. n < a \<longrightarrow> ?b n) \<and>
      a < b \<and> b \<le> length s \<and> (\<forall>n. a \<le> n \<and> n < b \<longrightarrow> \<not> ?b n) \<and>
      b \<le> d \<and> (\<forall>n. b \<le> n \<and> n < d \<longrightarrow> ?b n) \<and> d < length s \<and> s ! d = eqsign \<and>
      Suc d \<le> e \<and> (\<forall>n. Suc d \<le> n \<and> n < e \<longrightarrow> ?b n) \<and> (e = Suc d \<or> e \<le> length s) \<and>
      e \<le> j \<and> (e = j \<or> j \<le> length s) \<and> c = [1 \<mapsto> (a, b), 2 \<mapsto> (e, j)]"
      unfolding config_reg_def extended_simps seqs.simps Chr_def rx_seq_runs Suc_le_eq [symmetric]
      by (auto simp: eq_commute [of _ eqsign])
    then obtain a b d e where i: "i = 0"
      and a: "a = 0 \<or> a \<le> length s" "\<forall>n. n < a \<longrightarrow> ?b n"
      and b: "a < b" "b \<le> length s" "\<forall>n. a \<le> n \<and> n < b \<longrightarrow> \<not> ?b n"
      and d: "b \<le> d" "\<forall>n. b \<le> n \<and> n < d \<longrightarrow> ?b n" "d < length s" "s ! d = eqsign"
      and e: "Suc d \<le> e" "\<forall>n. Suc d \<le> n \<and> n < e \<longrightarrow> ?b n" "e = Suc d \<or> e \<le> length s"
      and j: "e \<le> j" "e = j \<or> j \<le> length s" "c = [1 \<mapsto> (a, b), 2 \<mapsto> (e, j)]"
      by blast
    have "a = 0" using a(2) kb [of 0] by (cases a) auto
    moreover have dk: "d = ?k" using eqs d(3,4) by simp
    moreover have "b = ?k" using d(1,2) dk kb b(1) by (cases "b < ?k") auto
    moreover have "e = Suc ?k"
    proof (rule ccontr)
      assume "e \<noteq> Suc ?k"
      then have "Suc ?k < e" using e(1) dk by simp
      then have "?b (Suc ?k)" "Suc ?k < length s" using e(2,3) dk by auto
      then show False using vb by auto
    qed
    ultimately show ?R using i j d(3) dk by auto
  next
    assume R: ?R
    let ?x = config_reg
    have 0: "rx_run ?x s Bol 0 e 0 e" for e by (simp add: config_reg_def)
    have 1: "rx_run ?x s (Star (Cls is_blank_tab)) n e n e" if "n \<le> length s" for e n
      using that unfolding config_reg_def rx_run_star_Cls by auto
    have 2: "rx_run ?x s (Plus (NotCls is_blank_tab)) 0 e ?k e" for e
      using k0 len kb unfolding config_reg_def rx_run_plus_NotCls by simp
    have 3: "rx_run ?x s (Chr eqsign) ?k e (Suc ?k) e" for e
      using len eqs [of ?k] by (simp add: config_reg_def Chr_def)
    have 4: "rx_run ?x s (Star (NotCls (\<lambda>c. c = hash))) (Suc ?k) e j e" for e
      using R vh unfolding config_reg_def rx_run_star_NotCls by simp
    have b1: "?k \<le> length s" "Suc ?k \<le> length s" using len by simp_all
    have "rx_run ?x s (rx_pattern ?x) 0 Map.empty j ([1 \<mapsto> (0, ?k)](2 \<mapsto> (Suc ?k, j)))"
      using rx_run_SeqI [OF 0 rx_run_SeqI [OF 1 [OF le0] rx_run_SeqI [OF rx_run_GrpI [OF 2]
        rx_run_SeqI [OF 1 [OF b1(1)] rx_run_SeqI [OF 3 rx_run_SeqI [OF 1 [OF b1(2)] rx_run_GrpI [OF 4]]]]]]]
      by (simp only: config_reg_def extended_simps seqs.simps)
    with R show ?L by simp
  qed
qed

lemma config_reg_search:
  assumes k: "plain_key k" and v: "plain_value v"
  shows "vplregex_search config_reg (k @ eqsign # v) 3 = Some [k @ eqsign # v, k, v]"
proof -
  let ?s = "k @ eqsign # v"
  have "regexec config_reg ?s = Some (0, length ?s, [1 \<mapsto> (0, length k), 2 \<mapsto> (Suc (length k), length ?s)])"
    by (rule regexec_eqI) (auto simp: config_reg_run [OF k v])
  moreover have "c_str ?s = ?s"
    using k v by (intro c_str_id) (auto simp: plain_key_def plain_value_def)
  ultimately show ?thesis
    by (simp add: vplregex_search_def upt_groups group_text_def max_match_def substr_def)
qed

lemma parse_plain_line:
  "plain_key k \<Longrightarrow> plain_value v \<Longrightarrow> parseConfigLine data (config_line (k, v)) = Inr (cd_set data k v)"
  using not_comment [of k v] config_reg_search [of k v]
  by (simp add: parseConfigLine_def config_line_def plain_key_def plain_value_def numeral_2_eq_2)

lemma parse_comment:
  assumes "nul \<notin> set t"
  shows "parseConfigLine data (hash # t) = Inr data"
proof -
  let ?s = "hash # t" and ?x = config_comment
  have ic: "in_class ?x p = p" for p by (simp add: config_comment_def)
  have 1: "rx_hd ?x ?s (Star (Cls is_blank_tab)) 0 e 0 e" for e
    by (rule rx_hd_star_Cls [of _ "[]" "[]" ?s]) (simp_all add: ic is_blank_tab_def)
  have 2: "rx_hd ?x ?s (Chr hash) 0 e 1 e" for e
    using rx_hd_Chr [of ?s "[]" hash t 0 ?x e] by simp
  have 3: "rx_hd ?x ?s (Star AnyChar) 1 e (length ?s) e" for e
    unfolding config_comment_def by (rule rx_hd_star_Any [of _ "[hash]" t]) simp_all
  have "rx_hd ?x ?s (rx_pattern ?x) 0 Map.empty (length ?s) [1 \<mapsto> (0, length ?s)]"
    using rx_hd_Seq [OF rx_hd_Bol rx_hd_Seq [OF 1 rx_hd_Seq [OF rx_hd_Opt [OF rx_hd_Grp [OF rx_hd_Seq [OF 2 3] refl]]
      rx_hd_Eol [OF refl]]]]
    by (simp only: config_comment_def extended_simps seqs.simps)
  from search_hd [OF this] assms show ?thesis by (simp add: parseConfigLine_def)
qed

lemma cd_set_last: "\<forall>x \<in> fst ` set m. x < k \<Longrightarrow> cd_set m k v = m @ [(k, v)]"
  by (induction m) auto

lemma parse_plain_lines:
  assumes "\<forall>p \<in> set data. plain_key (fst p) \<and> plain_value (snd p)" and "cd_sorted (m @ data)"
  shows "parse_lines m (map config_line data @ ls) = parse_lines (m @ data) ls"
  using assms
proof (induction data arbitrary: m)
  case (Cons p data)
  have "cd_set m (fst p) (snd p) = m @ [p]"
    using Cons.prems(2) by (subst cd_set_last) (auto simp: cd_sorted_def sorted_wrt_append)
  moreover have "parseConfigLine m (config_line p) = Inr (cd_set m (fst p) (snd p))"
    using Cons.prems(1) parse_plain_line [of "fst p" "snd p" m] by simp
  ultimately show ?case using Cons.IH [of "m @ [p]"] Cons.prems by simp
qed simp

lemma config_line_no_lf: "plain_key (fst p) \<Longrightarrow> plain_value (snd p) \<Longrightarrow> lf \<notin> set (config_line p)"
  by (auto simp: config_line_def plain_key_def plain_value_def)

definition storable :: "config_data \<Rightarrow> bool" where
  "storable data \<longleftrightarrow> cd_sorted data \<and> (\<forall>p \<in> set data. plain_key (fst p) \<and> plain_value (snd p))"

lemma mark_lines [simp]:
  "lf \<notin> set ''#Autogenerated Config file of VPL ''" "lf \<notin> set ''#End Config file of VPL ''"
  "nul \<notin> set ''Autogenerated Config file of VPL ''" "nul \<notin> set ''End Config file of VPL ''"
  by (simp_all add: char_names)

lemma config_text_lines:
  assumes "storable data"
  shows "file_lines (config_text data) =
    ''#Autogenerated Config file of VPL '' # map config_line data @ [''#End Config file of VPL '']"
proof -
  have "\<forall>l \<in> set (map config_line data). lf \<notin> set l"
    using assms config_line_no_lf by (auto simp: storable_def)
  from file_lines_lines [OF this, of "''#End Config file of VPL '' @ [lf]"]
  have "file_lines (concat (map (\<lambda>p. config_line p @ [lf]) data) @ ''#End Config file of VPL '' @ [lf]) =
      map config_line data @ file_lines (''#End Config file of VPL '' @ [lf])"
    by (simp add: comp_def del: mark_lines)
  moreover have "file_lines (''#End Config file of VPL '' @ [lf]) = [''#End Config file of VPL '']"
    using file_lines_line [OF mark_lines(2), of "[]"] by simp
  ultimately show ?thesis
    unfolding config_text_def using file_lines_line [OF mark_lines(1)] by simp
qed

lemma read_written:
  assumes "storable data"
  shows "parse_lines [] (file_lines (config_text data)) = Inr data"
proof -
  have h: "parseConfigLine d ''#Autogenerated Config file of VPL '' = Inr d"
    "parseConfigLine d ''#End Config file of VPL '' = Inr d" for d
    using parse_comment [OF mark_lines(3), of d] parse_comment [OF mark_lines(4), of d] by (simp_all add: hash_def)
  have "parse_lines [] (file_lines (config_text data)) =
      parse_lines [] (map config_line data @ [''#End Config file of VPL ''])"
    unfolding config_text_lines [OF assms] by (simp add: h(1))
  also have "\<dots> = parse_lines ([] @ data) [''#End Config file of VPL '']"
    using assms by (intro parse_plain_lines) (auto simp: storable_def)
  also have "\<dots> = Inr data" by (simp add: h(2))
  finally show ?thesis .
qed

text \<open>A line feed inside a value begins a new parameter when the file is read.\<close>

lemma injected_line:
  assumes "plain_key k" "plain_value v" "plain_key k2" "plain_value v2"
  shows "parse_lines data (file_lines (config_line (k, v @ lf # k2 @ eqsign # v2) @ [lf])) =
    Inr (cd_set (cd_set data k v) k2 v2)"
proof -
  have "config_line (k, v @ lf # k2 @ eqsign # v2) @ [lf] = config_line (k, v) @ lf # config_line (k2, v2) @ [lf]"
    by (simp add: config_line_def)
  moreover have "file_lines \<dots> = [config_line (k, v), config_line (k2, v2)]"
    using config_line_no_lf [of "(k, v)"] config_line_no_lf [of "(k2, v2)"] assms
    by (simp add: file_lines_line)
  ultimately show ?thesis using parse_plain_line assms by simp
qed

section \<open>A store of parameters\<close>

text \<open>
  The contract a task relies on to keep its state in a file: what \<open>save\<close> writes, \<open>load\<close> reads back,
  as long as the parameters can be stored; \<open>load\<close> fails on a file that is not there.
\<close>

locale parameter_store =
  fixes save :: "'d \<Rightarrow> string"
    and load :: "string option \<Rightarrow> 'd result"
    and keeps :: "'d \<Rightarrow> bool"
  assumes load_save: "keeps d \<Longrightarrow> load (Some (save d)) = Inr d"
    and load_missing: "\<exists>e. load None = Inl e"
begin

lemma save_inj: "keeps d \<Longrightarrow> keeps e \<Longrightarrow> save d = save e \<Longrightarrow> d = e"
  using load_save by (metis sum.inject(2))

lemma load_cases: "keeps d \<Longrightarrow> f \<in> {None, Some (save d)} \<Longrightarrow> load f = Inr x \<Longrightarrow> x = d"
  using load_save load_missing by fastforce

end

interpretation config_store: parameter_store config_text "\<lambda>f. readConfiguration f name []" storable
proof
  fix d assume "storable d"
  then show "readConfiguration (Some (config_text d)) name [] = Inr d"
    using read_written by (simp add: readConfiguration_def add_defaults_def)
next
  show "\<exists>e. readConfiguration None name [] = Inl e" by (simp add: readConfiguration_def)
qed

section \<open>Properties\<close>

text \<open>
  A configuration whose keys and values the format can carry is read back exactly as it was
  written, and a failed write leaves the old contents of the file in place.
\<close>

theorem configuration_round_trip:
  assumes "storable data"
  shows "writeConfiguration NoFailure old name data = (Some (config_text data), Inr ())
    \<and> readConfiguration (Some (config_text data)) name [] = Inr data
    \<and> (io \<noteq> NoFailure \<longrightarrow> fst (writeConfiguration io old name data) = old)"
  using config_store.load_save [OF assms] by (simp add: writeConfiguration_def)

theorem configuration_round_trip_witness:
  "readConfiguration (Some (config_text [(''LANG'', ''en_US.UTF-8''), (''USER_ID'', ''x 7'')])) ''config'' [] =
    Inr [(''LANG'', ''en_US.UTF-8''), (''USER_ID'', ''x 7'')]"
proof -
  have "storable [(''LANG'', ''en_US.UTF-8''), (''USER_ID'', ''x 7'')]" by code_simp
  then show ?thesis using configuration_round_trip [of _ None "''config''" WriteFails] by blast
qed

text \<open>
  The writer does not protect line feeds: a value with one is read back as two parameters, and
  the second replaces whatever the file had said before for that name.
\<close>

theorem configuration_value_injects:
  assumes "plain_key k" "plain_value v" "plain_key k2" "plain_value v2"
  shows "\<exists>data'. parse_lines data (file_lines (config_line (k, v @ lf # k2 @ eqsign # v2) @ [lf])) = Inr data'
    \<and> cd_get data' k2 = Some v2"
  using injected_line [OF assms, of data] by simp

theorem configuration_value_injects_witness:
  "\<exists>data'. parse_lines [(''ADMINTICKET'', ''1'')]
      (file_lines (config_line (''LANG'', ''C'' @ lf # ''ADMINTICKET'' @ eqsign # ''666'') @ [lf])) = Inr data'
    \<and> cd_get data' ''ADMINTICKET'' = Some ''666''"
  by (rule configuration_value_injects) code_simp+

end
