(* ===== verification/Paths.thy ===== *)
theory Paths
  imports Util_Strings
begin

text \<open>
  The path checks of the class \<open>Util\<close> that every file access of the jail goes through:
  \<open>correctFileName\<close>, \<open>correctPath\<close> and \<open>getDirectory\<close>. The checker is proved equal to a
  declarative description of the names it accepts, so that a path that passes has no component that
  climbs, no separator hidden in a name, no control character and no quote.
\<close>

section \<open>Operations\<close>

text \<open>\<open>[[:cntrl:]]\<close> in the C locale.\<close>

definition is_cntrl :: "char \<Rightarrow> bool" where
  "is_cntrl c \<longleftrightarrow> byte_val c < 32 \<or> byte_val c = 127"

definition path_sep :: char where "path_sep = CHR ''/''"
definition dot :: char where "dot = CHR ''.''"
definition caret :: char where "caret = CHR 0x5E"
definition backtick :: char where "backtick = CHR 0x60"

text \<open>In \<open>[\\/\\^`]\<close> the backslash is a member too.\<close>

definition correctFileNameReg :: vplregex where
  "correctFileNameReg = vplregex_extended (alts [Cls is_cntrl,
     Cls (\<lambda>c. c = dquote \<or> c = squote), Chr backslash,
     Cls (\<lambda>c. c = backslash \<or> c = path_sep \<or> c = caret \<or> c = backtick),
     Seq Bol (Chr blank), Seq (Chr blank) Eol,
     seqs [Bol, Chr dot, Chr dot, Eol], seqs [Bol, Chr dot, Eol]])"

definition correctFileName :: "string \<Rightarrow> bool" where
  "correctFileName fn =
     (if length fn < 1 then False
      else if length fn > jail_filename_size_limit then False
      else if nul \<in> set fn then False
      else \<not> rx_found correctFileNameReg fn)"

function check_components :: "string \<Rightarrow> nat \<Rightarrow> bool" where
  "check_components path pos = (case find_char path_sep path pos of
      Some found \<Rightarrow>
        if \<not> correctFileName (substr path pos (found - pos)) then False
        else check_components path (found + 1)
    | None \<Rightarrow> correctFileName (drop pos path))"
  by pat_completeness auto
termination
  by (relation "measure (\<lambda>(path, pos). length path - pos)")
    (auto dest: find_char_less)

declare check_components.simps [simp del]

definition correctPath :: "string \<Rightarrow> bool" where
  "correctPath path =
     (if length path = 0 then False
      else if length path > jail_path_size_limit then False
      else let pos = (if path ! 0 = path_sep then 1 else 0);
          pos = (if length path > 1 \<and> path ! 0 = dot \<and> path ! 1 = path_sep then 2 else pos) in
        if length path \<le> pos then False else check_components path pos)"

text \<open>\<open>getDirectory\<close>: what comes before the last separator.\<close>

definition getDirectory :: "string \<Rightarrow> string" where
  "getDirectory filePath = (if path_sep \<in> set filePath
     then rev (tl (dropWhile (\<lambda>c. c \<noteq> path_sep) (rev filePath))) else [])"

section \<open>What the checks accept\<close>

definition bad_name_char :: "char \<Rightarrow> bool" where
  "bad_name_char c \<longleftrightarrow> is_cntrl c \<or> c \<in> {dquote, squote, backslash, path_sep, caret, backtick}"

definition good_name :: "string \<Rightarrow> bool" where
  "good_name fn \<longleftrightarrow> fn \<noteq> [] \<and> length fn \<le> jail_filename_size_limit \<and> (\<forall>c \<in> set fn. \<not> bad_name_char c) \<and>
     hd fn \<noteq> blank \<and> last fn \<noteq> blank \<and> fn \<noteq> [dot] \<and> fn \<noteq> [dot, dot]"

lemma nul_is_bad: "bad_name_char nul"
  by (simp add: bad_name_char_def is_cntrl_def nul_def)

lemma name_run:
  "(\<exists>i j c. i \<le> length s \<and> rx_run correctFileNameReg s (rx_pattern correctFileNameReg) i Map.empty j c) \<longleftrightarrow>
     (\<exists>i < length s. bad_name_char (s ! i)) \<or> (s \<noteq> [] \<and> s ! 0 = blank) \<or> (s \<noteq> [] \<and> s ! (length s - 1) = blank) \<or>
     s = [dot, dot] \<or> s = [dot]"
  (is "?L \<longleftrightarrow> ?R")
proof -
  let ?m = "\<lambda>r. \<exists>i j c. i \<le> length s \<and> rx_run correctFileNameReg s r i Map.empty j c"
  have cls: "?m (Cls p) \<longleftrightarrow> (\<exists>i < length s. p (s ! i))" for p
    by (simp add: correctFileNameReg_def) (meson less_imp_le)
  have b1: "?m (Seq Bol (Chr d)) \<longleftrightarrow> 0 < length s \<and> s ! 0 = d" for d
    by (auto simp: correctFileNameReg_def Chr_def)
  have b2: "?m (Seq (Chr d) Eol) \<longleftrightarrow> (\<exists>i < length s. s ! i = d \<and> Suc i = length s)" for d
  proof -
    have "i \<le> length s \<and> i < length s \<and> Q \<longleftrightarrow> i < length s \<and> Q" for i Q by auto
    then show ?thesis by (simp add: correctFileNameReg_def Chr_def conj_assoc)
  qed
  have b3: "?m (seqs [Bol, Chr d, Chr e, Eol]) \<longleftrightarrow> 0 < length s \<and> s ! 0 = d \<and> 1 < length s \<and> s ! 1 = e \<and> length s = 2" for d e
    by (auto simp: correctFileNameReg_def Chr_def)
  have b4: "?m (seqs [Bol, Chr d, Eol]) \<longleftrightarrow> 0 < length s \<and> s ! 0 = d \<and> length s = 1" for d
    by (auto simp: correctFileNameReg_def Chr_def)
  have "?L \<longleftrightarrow> ?m (alts [Cls is_cntrl,
     Cls (\<lambda>c. c = dquote \<or> c = squote), Chr backslash,
     Cls (\<lambda>c. c = backslash \<or> c = path_sep \<or> c = caret \<or> c = backtick),
     Seq Bol (Chr blank), Seq (Chr blank) Eol,
     seqs [Bol, Chr dot, Chr dot, Eol], seqs [Bol, Chr dot, Eol]])"
    by (simp only: correctFileNameReg_def extended_simps)
  also have "\<dots> \<longleftrightarrow> (\<exists>i < length s. bad_name_char (s ! i)) \<or> (0 < length s \<and> s ! 0 = blank) \<or>
      (\<exists>i < length s. s ! i = blank \<and> Suc i = length s) \<or>
      (0 < length s \<and> s ! 0 = dot \<and> 1 < length s \<and> s ! 1 = dot \<and> length s = 2) \<or>
      (0 < length s \<and> s ! 0 = dot \<and> length s = 1)"
    unfolding alts.simps rx_run.simps(8) conj_disj_distribL ex_disj_distrib b1 b2 b3 b4 cls
      cls [of "\<lambda>c. c = backslash", folded Chr_def] bad_name_char_def
    by auto
  also have "\<dots> \<longleftrightarrow> ?R"
  proof -
    have "(0 < length s \<and> s ! 0 = dot \<and> 1 < length s \<and> s ! 1 = dot \<and> length s = 2) \<longleftrightarrow> s = [dot, dot]"
      by (auto simp: numeral_2_eq_2 length_Suc_conv)
    moreover have "(0 < length s \<and> s ! 0 = dot \<and> length s = 1) \<longleftrightarrow> s = [dot]"
      by (auto simp: length_Suc_conv)
    moreover have "(\<exists>i < length s. s ! i = blank \<and> Suc i = length s) \<longleftrightarrow> s \<noteq> [] \<and> s ! (length s - 1) = blank"
      by (cases s) auto
    ultimately show ?thesis by simp
  qed
  finally show ?thesis .
qed

lemma correctFileName_iff: "correctFileName fn \<longleftrightarrow> good_name fn"
proof (cases "fn = [] \<or> nul \<in> set fn")
  case True
  then show ?thesis using nul_is_bad by (auto simp: correctFileName_def good_name_def)
next
  case False
  then have c: "c_str fn = fn" by (simp add: c_str_id)
  have "rx_found correctFileNameReg fn \<longleftrightarrow>
     (\<exists>c \<in> set fn. bad_name_char c) \<or> hd fn = blank \<or> last fn = blank \<or> fn = [dot, dot] \<or> fn = [dot]"
    using False unfolding rx_found_iff c name_run
    by (simp add: hd_conv_nth last_conv_nth) (metis in_set_conv_nth)
  then show ?thesis using False by (auto simp: correctFileName_def good_name_def)
qed

section \<open>The components of a path\<close>

text \<open>The names between separators, as the file system sees them.\<close>

fun components :: "string \<Rightarrow> string list" where
  "components [] = [[]]"
| "components (c # cs) = (if c = path_sep then [] # components cs
     else (case components cs of [] \<Rightarrow> [[c]] | n # ns \<Rightarrow> (c # n) # ns))"

lemma components_nonempty [simp]: "components s \<noteq> []"
  by (induction s) (auto split: list.splits)

lemma components_no_sep: "path_sep \<notin> set s \<Longrightarrow> components s = [s]"
  by (induction s) auto

lemma components_append: "path_sep \<notin> set s \<Longrightarrow> components (s @ path_sep # t) = s # components t"
  by (induction s) auto

lemma check_components_iff:
  "pos \<le> length path \<Longrightarrow> check_components path pos \<longleftrightarrow> (\<forall>n \<in> set (components (drop pos path)). good_name n)"
proof (induction path pos rule: check_components.induct)
  case (1 path pos)
  show ?case
  proof (cases "find_char path_sep path pos")
    case None
    then have "path_sep \<notin> set (drop pos path)" by (auto simp: find_char_def index_from_None)
    then show ?thesis using None
      by (simp add: check_components.simps [of path pos] components_no_sep correctFileName_iff)
  next
    case (Some found)
    note F = find_char_split [OF Some]
    let ?n = "substr path pos (found - pos)"
    have "drop pos path = take (found - pos) (drop pos path) @ drop found path"
      using F(1,2) by (metis append_take_drop_id drop_drop le_add_diff_inverse2)
    then have d: "drop pos path = ?n @ path_sep # drop (Suc found) path"
      using F(2,3) by (simp add: substr_def Cons_nth_drop_Suc [symmetric])
    have "components (drop pos path) = ?n # components (drop (Suc found) path)"
      unfolding d by (rule components_append [OF F(4)])
    moreover have "correctFileName ?n \<Longrightarrow>
        check_components path (found + 1) = (\<forall>n \<in> set (components (drop (Suc found) path)). good_name n)"
      using 1(1) [OF Some] F(2) by (auto simp: correctFileName_iff)
    ultimately show ?thesis
      using Some by (auto simp: check_components.simps [of path pos] correctFileName_iff)
  qed
qed

text \<open>What is left of a path once a leading \<open>/\<close> or \<open>./\<close> is taken off.\<close>

definition relative_part :: "string \<Rightarrow> string" where
  "relative_part path = (if is_prefix [dot, path_sep] path then drop 2 path
     else if is_prefix [path_sep] path then drop 1 path else path)"

lemma correctPath_iff:
  "correctPath path \<longleftrightarrow> length path \<le> jail_path_size_limit \<and> (\<forall>n \<in> set (components (relative_part path)). good_name n)"
proof (cases path)
  case Nil
  then show ?thesis by (simp add: correctPath_def relative_part_def good_name_def)
next
  case (Cons c cs)
  have bad: "\<not> good_name []" by (simp add: good_name_def)
  have ds: "dot \<noteq> path_sep" by (simp add: dot_def path_sep_def)
  show ?thesis
  proof (cases cs)
    case Nil
    then show ?thesis using Cons bad check_components_iff [of 0 path] ds
      by (auto simp: correctPath_def relative_part_def Let_def)
  next
    case (Cons d ds')
    then show ?thesis using \<open>path = c # cs\<close> bad check_components_iff [of 0 path] check_components_iff [of 1 path]
        check_components_iff [of 2 path] ds
      by (auto simp: correctPath_def relative_part_def Let_def)
  qed
qed

lemma good_name_plain: "good_name n \<Longrightarrow> n \<noteq> [dot, dot] \<and> n \<noteq> [dot] \<and> n \<noteq> [] \<and> nul \<notin> set n"
  using nul_is_bad by (auto simp: good_name_def)

lemma components_concat_set: "set s \<subseteq> insert path_sep (\<Union> (set ` set (components s)))"
proof (induction s)
  case (Cons c cs)
  obtain n ns where "components cs = n # ns" by (cases "components cs") auto
  with Cons show ?case by (auto split: if_splits)
qed simp

lemma correctPath_no_nul: "correctPath path \<Longrightarrow> nul \<notin> set path"
proof
  assume p: "correctPath path" and n: "nul \<in> set path"
  have "nul \<notin> set (relative_part path)"
    using p components_concat_set [of "relative_part path"] good_name_plain
    by (fastforce simp: correctPath_iff path_sep_def nul_def)
  moreover have "set path \<subseteq> {dot, path_sep} \<union> set (relative_part path)"
    by (auto simp: relative_part_def is_prefix_append)
  ultimately show False using n by (auto simp: dot_def path_sep_def nul_def)
qed

section \<open>Property\<close>

text \<open>
  C33: a path accepted by \<open>correctPath\<close> has at most 256 bytes and, after a leading \<open>/\<close> or \<open>./\<close>, only
  components that are proper names: none is empty, \<open>.\<close> or \<open>..\<close>, none has more than 128 bytes, a control
  or zero byte, a quote, a backslash, a caret or a backtick, or a blank at either end; and every such
  path is accepted.
\<close>

theorem correctPath_exact:
  "correctPath path \<longleftrightarrow> length path \<le> 256 \<and> (\<forall>n \<in> set (components (relative_part path)).
     n \<noteq> [] \<and> length n \<le> 128 \<and> n \<noteq> [dot] \<and> n \<noteq> [dot, dot] \<and> hd n \<noteq> blank \<and> last n \<noteq> blank \<and>
     (\<forall>c \<in> set n. \<not> is_cntrl c \<and> c \<notin> {dquote, squote, backslash, path_sep, caret, backtick}))"
  unfolding correctPath_iff good_name_def bad_name_char_def jail_path_size_limit_def jail_filename_size_limit_def
  by auto

theorem correctPath_exact_witness:
  "correctPath ''/home/p10001/a.c'' \<and> \<not> correctPath ''/home/../etc''"
  unfolding correctPath_exact by code_simp

end
