(* ===== verification/Configuration.thy ===== *)
theory Configuration
  imports Config_File Paths
begin

text \<open>
  The class \<open>Configuration\<close>: the server's parameters, read from its file, completed by defaults,
  overridden by \<open>VPL_JAIL_*\<close> environment variables, checked and converted. The environment and
  the file are parameters. Proved: whatever the file and the environment say, a configuration that is
  accepted has a range of prisoner ids inside the compiled limits, at least 100 wide, that excludes
  root and the owner of the home directories; and well-formed jail and control paths.
\<close>

record execution_limits =
  maxtime :: int
  maxfilesize :: int
  maxmemory :: int
  maxprocesses :: int

record configuration =
  cf_jailLimits :: execution_limits
  cf_jailPath :: string
  cf_cleanPATH :: string
  cf_controlPath :: string
  cf_minPrisoner :: int
  cf_maxPrisoner :: int
  cf_taskOnlyFrom :: "string list"
  cf_interface :: string
  cf_URLPath :: string
  cf_port :: int
  cf_sport :: int
  cf_logLevel :: int
  cf_fail2ban :: int
  cf_HSTSMaxAge :: int
  cf_SSLCipherList :: string
  cf_SSLCipherSuites :: string
  cf_SSLCertFile :: string
  cf_SSLKeyFile :: string
  cf_certbotWebrootPath :: string
  cf_useCgroup :: bool
  cf_useNamespace :: bool
  cf_requestMaxSize :: int
  cf_resultMaxSize :: int

text \<open>\<open>generateCleanPATH\<close>: \<open>dir\<close> is \<open>dirExistsFollowingSymLink\<close>.\<close>

fun split_colons :: "string \<Rightarrow> string list" where
  "split_colons [] = [[]]"
| "split_colons (c # cs) = (if c = CHR '':'' then [] # split_colons cs
     else case split_colons cs of [] \<Rightarrow> [[c]] | n # ns \<Rightarrow> (c # n) # ns)"

definition generateCleanPATH :: "(string \<Rightarrow> bool) \<Rightarrow> string \<Rightarrow> string \<Rightarrow> string" where
  "generateCleanPATH dir path dirtyPATH = foldl (\<lambda>clean d.
     if dir (path @ d) then (if clean \<noteq> [] then clean @ '':'' else clean) @ d else clean) [] (split_colons dirtyPATH)"

record file_stat =
  st_uid :: int
  st_gid :: int
  st_mode :: nat

definition checkConfigFile :: "file_stat option \<Rightarrow> string \<Rightarrow> string \<Rightarrow> unit result" where
  "checkConfigFile info fileName men = (case info of
      None \<Rightarrow> Inl (StringExn (men @ '' not found '' @ fileName))
    | Some st \<Rightarrow>
      if st_uid st \<noteq> 0 \<or> st_gid st \<noteq> 0 then Inl (StringExn (men @ '' not owned by root '' @ fileName))
      else if st_mode st AND 63 \<noteq> 0 then
        Inl (StringExn (men @ '' with insecure permissions (must be 0600/0700)'' @ fileName))
      else Inr ())"

text \<open>\<open>readEnvironmentConfigVars\<close>: \<open>getenv\<close> answers the empty text for a variable that is not set.\<close>

definition readEnvironmentConfigVars :: "(string \<Rightarrow> string) \<Rightarrow> config_data \<Rightarrow> config_data" where
  "readEnvironmentConfigVars getenv data = map (\<lambda>(p, v).
     let new_value = getenv (''VPL_JAIL_'' @ p) in (p, if length new_value > 0 then new_value else v)) data"

definition configDefault :: "string \<Rightarrow> config_data" where
  "configDefault path = [
     (''PORT'', ''80''), (''SECURE_PORT'', ''443''), (''INTERFACE'', []), (''SSL_CIPHER_LIST'', []),
     (''SSL_CIPHER_SUITES'', []), (''HSTS_MAX_AGE'', []), (''SSL_CERT_FILE'', ''/etc/vpl/cert.pem''),
     (''SSL_KEY_FILE'', ''/etc/vpl/key.pem''), (''CERTBOT_WEBROOT_PATH'', []), (''URLPATH'', ''/''),
     (''TASK_ONLY_FROM'', []), (''ALLOWSUID'', ''false''), (''FAIL2BAN'', ''0''), (''FIREWALL'', ''0''),
     (''LOGLEVEL'', ''0''), (''JAILPATH'', ''/jail''), (''CONTROLPATH'', ''/var/vpl-jail-system''),
     (''USETMPFS'', []), (''HOMESIZE'', []), (''SHMSIZE'', []), (''MAXTIME'', ''1200''),
     (''MAXFILESIZE'', ''64 Mb''), (''MAXMEMORY'', ''2000 Mb''), (''MAXPROCESSES'', ''500''),
     (''REQUEST_MAX_SIZE'', ''128 Mb''), (''RESULT_MAX_SIZE'', ''1 Mb''),
     (''MIN_PRISONER_UGID'', ''10000''), (''MAX_PRISONER_UGID'', ''20000''), (''ENVPATH'', path),
     (''USE_CGROUP'', ''true''), (''USE_NAMESPACE'', ''true'')]"

text \<open>\<open>uid_t\<close> is unsigned: a negative number becomes a large one, and fails the range checks.\<close>

definition to_uid :: "int \<Rightarrow> int" where "to_uid v = v mod 4294967296"

definition absolute_path :: "string \<Rightarrow> string" where
  "absolute_path p = (if p \<noteq> [] \<and> hd p = path_sep then p else path_sep # p)"

text \<open>\<open>iss >> word\<close>: the words between white space.\<close>

function words_of :: "string \<Rightarrow> string list" where
  "words_of s = (let t = dropWhile is_c_space s in
     if t = [] then [] else takeWhile (\<lambda>c. \<not> is_c_space c) t # words_of (dropWhile (\<lambda>c. \<not> is_c_space c) t))"
  by pat_completeness auto
termination
proof (relation "measure length", simp)
  fix s t :: string
  assume t: "t = dropWhile is_c_space s" "t \<noteq> []"
  have "\<not> is_c_space (hd t)" using t hd_dropWhile by metis
  then have "length (dropWhile (\<lambda>c. \<not> is_c_space c) t) < length t"
    using t(2) by (cases t) (auto simp: le_imp_less_Suc length_dropWhile_le)
  also have "length t \<le> length s" using t(1) length_dropWhile_le by metis
  finally show "(dropWhile (\<lambda>c. \<not> is_c_space c) t, s) \<in> measure length" by simp
qed

declare words_of.simps [simp del]

definition prisoner_range :: "config_data \<Rightarrow> (int \<times> int) result" where
  "prisoner_range data = (let
      minPrisoner = to_uid (c_atoi (cd_index data ''MIN_PRISONER_UGID''));
      maxPrisoner = to_uid (c_atoi (cd_index data ''MAX_PRISONER_UGID'')) in
    if minPrisoner < jail_min_prisoner_uid \<or> minPrisoner > jail_max_prisoner_uid then
      Inl (StringExn (''Incorrect MIN_PRISONER_UGID config value'' @ cd_index data ''MIN_PRISONER_UGID''))
    else if maxPrisoner > jail_max_prisoner_uid \<or> maxPrisoner < jail_min_prisoner_uid then
      Inl (StringExn (''Incorrect MAX_PRISONER_UGID config value'' @ cd_index data ''MAX_PRISONER_UGID''))
    else if minPrisoner \<ge> maxPrisoner \<or> maxPrisoner - minPrisoner < 100 then
      Inl (StringExn ''Incorrect config file, prisoner uid inconsistency, min range 100'')
    else Inr (minPrisoner, maxPrisoner))"

definition config_paths :: "config_data \<Rightarrow> (string \<times> string) result" where
  "config_paths data = (let
      jailPath = absolute_path (cd_index data ''JAILPATH'');
      jailPath = (if jailPath = [path_sep] then [] else jailPath) in
    if jailPath \<noteq> [] \<and> \<not> correctPath jailPath then Inl (StringExn (''Incorrect Jail path '' @ jailPath))
    else let controlPath = absolute_path (cd_index data ''CONTROLPATH'') in
    if \<not> correctPath controlPath then Inl (StringExn (''Incorrect control path '' @ controlPath))
    else Inr (jailPath, controlPath))"

definition readConfigFile :: "(string \<Rightarrow> string) \<Rightarrow> string \<Rightarrow> string option \<Rightarrow> configuration result" where
  "readConfigFile getenv configPath file =
     bind_result (readConfiguration file configPath (configDefault (getenv ''PATH''))) (\<lambda>data.
     let data = readEnvironmentConfigVars getenv data; get = cd_index data in
     bind_result (prisoner_range data) (\<lambda>(minPrisoner, maxPrisoner).
     bind_result (config_paths data) (\<lambda>(jailPath, controlPath).
     let port = c_atoi (get ''PORT''); url = get ''URLPATH'' in
     Inr \<lparr>cf_jailLimits = \<lparr>maxtime = c_atoi (get ''MAXTIME''), maxfilesize = memSizeToBytesl (get ''MAXFILESIZE''),
          maxmemory = memSizeToBytesl (get ''MAXMEMORY''), maxprocesses = c_atoi (get ''MAXPROCESSES'')\<rparr>,
       cf_jailPath = jailPath, cf_cleanPATH = get ''ENVPATH'', cf_controlPath = controlPath,
       cf_minPrisoner = minPrisoner, cf_maxPrisoner = maxPrisoner,
       cf_taskOnlyFrom = words_of (get ''TASK_ONLY_FROM''), cf_interface = get ''INTERFACE'',
       cf_URLPath = (if length url > 0 \<and> hd url \<noteq> path_sep then path_sep # url else url),
       cf_port = port, cf_sport = c_atoi (get ''SECURE_PORT''), cf_logLevel = c_atoi (get ''LOGLEVEL''),
       cf_fail2ban = c_atoi (get ''FAIL2BAN''),
       cf_HSTSMaxAge = (if port > 0 \<and> length (get ''HSTS_MAX_AGE'') > 0 then c_atoi (get ''HSTS_MAX_AGE'') else -1),
       cf_SSLCipherList = get ''SSL_CIPHER_LIST'', cf_SSLCipherSuites = get ''SSL_CIPHER_SUITES'',
       cf_SSLCertFile = get ''SSL_CERT_FILE'', cf_SSLKeyFile = get ''SSL_KEY_FILE'',
       cf_certbotWebrootPath = get ''CERTBOT_WEBROOT_PATH'',
       cf_useCgroup = (toUppercase (get ''USE_CGROUP'') = ''TRUE''),
       cf_useNamespace = (toUppercase (get ''USE_NAMESPACE'') = ''TRUE''),
       cf_requestMaxSize = memSizeToBytesi (get ''REQUEST_MAX_SIZE''),
       cf_resultMaxSize = memSizeToBytesi (get ''RESULT_MAX_SIZE'')\<rparr>)))"

definition getHomeDirOwnerUid :: "configuration \<Rightarrow> int" where "getHomeDirOwnerUid c = cf_minPrisoner c"
definition getMinPrisoner :: "configuration \<Rightarrow> int" where "getMinPrisoner c = cf_minPrisoner c + 1"
definition getMaxPrisoner :: "configuration \<Rightarrow> int" where "getMaxPrisoner c = cf_maxPrisoner c"

definition isPrisonerUID :: "configuration \<Rightarrow> int \<Rightarrow> bool" where
  "isPrisonerUID c uid \<longleftrightarrow> uid \<ge> getMinPrisoner c \<and> uid \<le> getMaxPrisoner c"

section \<open>What an accepted configuration satisfies\<close>

definition config_ok :: "configuration \<Rightarrow> bool" where
  "config_ok c \<longleftrightarrow> jail_min_prisoner_uid \<le> cf_minPrisoner c \<and> cf_maxPrisoner c \<le> jail_max_prisoner_uid \<and>
     cf_minPrisoner c + 100 \<le> cf_maxPrisoner c \<and>
     (cf_jailPath c = [] \<or> correctPath (cf_jailPath c)) \<and> correctPath (cf_controlPath c) \<and>
     1 \<le> cf_requestMaxSize c \<and> cf_requestMaxSize c \<le> int_max \<and>
     1 \<le> cf_resultMaxSize c \<and> cf_resultMaxSize c \<le> int_max"

text \<open>Precedence: the environment first, then the file, then the default.\<close>

lemma cd_get_add_defaults:
  "cd_get (add_defaults d defs) k = (case cd_get d k of Some v \<Rightarrow> Some v
     | None \<Rightarrow> cd_get (map (\<lambda>(k, v). (toUppercase k, v)) defs) k)"
proof (induction defs arbitrary: d)
  case (Cons p defs)
  obtain a w where p: "p = (a, w)" by force
  have "add_defaults d (p # defs) =
      add_defaults (if cd_get d (toUppercase a) = None then cd_set d (toUppercase a) w else d) defs"
    by (simp add: add_defaults_def p)
  with Cons.IH show ?case by (auto simp: p split: option.splits)
qed (simp add: add_defaults_def split: option.splits)

lemma cd_get_env:
  "cd_get (readEnvironmentConfigVars getenv m) k = map_option (\<lambda>v.
     if length (getenv (''VPL_JAIL_'' @ k)) > 0 then getenv (''VPL_JAIL_'' @ k) else v) (cd_get m k)"
  by (induction m) (auto simp: readEnvironmentConfigVars_def Let_def)

lemma prisoner_range_ok:
  assumes "prisoner_range data = Inr (a, b)"
  shows "jail_min_prisoner_uid \<le> a \<and> b \<le> jail_max_prisoner_uid \<and> a + 100 \<le> b"
  using assms unfolding prisoner_range_def Let_def by (auto split: if_split_asm)

lemma config_paths_ok:
  assumes "config_paths data = Inr (j, k)"
  shows "(j = [] \<or> correctPath j) \<and> correctPath k"
  using assms unfolding config_paths_def Let_def by (simp split: if_split_asm)

lemma readConfigFile_ok: "readConfigFile getenv p file = Inr c \<Longrightarrow> config_ok c"
  unfolding readConfigFile_def bind_result_Inr_iff Let_def
  by (elim exE conjE, clarsimp split: prod.splits simp: bind_result_Inr_iff config_ok_def memSizeToBytesi_bounds)
    (drule prisoner_range_ok, drule config_paths_ok, simp)

lemma prisoner_uid_not_reserved:
  "config_ok c \<Longrightarrow> isPrisonerUID c uid \<Longrightarrow> uid \<noteq> 0 \<and> uid \<noteq> getHomeDirOwnerUid c \<and> 1000 < uid \<and> uid < 65536"
  by (auto simp: config_ok_def isPrisonerUID_def getMinPrisoner_def getMaxPrisoner_def getHomeDirOwnerUid_def
      jail_min_prisoner_uid_def jail_max_prisoner_uid_def)

section \<open>Property\<close>

text \<open>
  C32: whatever the file and the environment contain, reading them either fails or gives a configuration
  whose prisoner ids are ordinary users (never root, never the owner of the home directories), more
  than a hundred of them, whose paths passed the path check, and whose size limits are positive.
\<close>

theorem accepted_configuration:
  assumes "readConfigFile getenv p file = Inr c"
  shows "100 \<le> getMaxPrisoner c - getMinPrisoner c + 1
    \<and> (\<forall>uid. isPrisonerUID c uid \<longrightarrow> 1000 < uid \<and> uid < 65536 \<and> uid \<noteq> getHomeDirOwnerUid c)
    \<and> (cf_jailPath c = [] \<or> correctPath (cf_jailPath c)) \<and> correctPath (cf_controlPath c)
    \<and> 1 \<le> cf_requestMaxSize c \<and> cf_requestMaxSize c \<le> int_max"
  using readConfigFile_ok [OF assms] prisoner_uid_not_reserved [of c]
  by (auto simp: config_ok_def getMaxPrisoner_def getMinPrisoner_def)

lemma default_configuration_accepted:
  "\<exists>c. readConfigFile (\<lambda>_. []) ''vpl-jail-system.conf'' (Some []) = Inr c"
proof -
  let ?e = "\<lambda>_ :: string. [] :: string"
  let ?d = "readEnvironmentConfigVars ?e (add_defaults [] (configDefault []))"
  have i: "cd_index ?d k = (case cd_get (map (\<lambda>(k, v). (toUppercase k, v)) (configDefault [])) k of None \<Rightarrow> [] | Some v \<Rightarrow> v)" for k
    by (simp add: cd_index_def cd_get_env cd_get_add_defaults split: option.splits)
  have v: "cd_index ?d ''MIN_PRISONER_UGID'' = ''10000''" "cd_index ?d ''MAX_PRISONER_UGID'' = ''20000''"
     "cd_index ?d ''JAILPATH'' = ''/jail''" "cd_index ?d ''CONTROLPATH'' = ''/var/vpl-jail-system''"
    unfolding i by code_simp+
  have p: "correctPath ''/jail''" "correctPath ''/var/vpl-jail-system''" by code_simp+
  have n: "c_atoi ''10000'' = 10000" "c_atoi ''20000'' = 20000" by code_simp+
  have r: "prisoner_range ?d = Inr (10000, 20000)"
    by (simp add: prisoner_range_def v n to_uid_def jail_min_prisoner_uid_def jail_max_prisoner_uid_def)
  have c: "config_paths ?d = Inr (''/jail'', ''/var/vpl-jail-system'')"
    using p by (simp add: config_paths_def v absolute_path_def path_sep_def)
  show ?thesis by (simp add: readConfigFile_def readConfiguration_def r c Let_def)
qed

text \<open>A configuration for the examples of the components.\<close>

definition sample_configuration :: configuration where
  "sample_configuration = \<lparr>cf_jailLimits = \<lparr>maxtime = 60, maxfilesize = 1000, maxmemory = 0, maxprocesses = 10\<rparr>,
     cf_jailPath = ''/jail'', cf_cleanPATH = ''/bin'', cf_controlPath = ''/c'', cf_minPrisoner = 10000,
     cf_maxPrisoner = 20000, cf_taskOnlyFrom = [], cf_interface = [], cf_URLPath = ''/'', cf_port = 80, cf_sport = 443,
     cf_logLevel = 0, cf_fail2ban = 1, cf_HSTSMaxAge = -1, cf_SSLCipherList = [], cf_SSLCipherSuites = [],
     cf_SSLCertFile = ''/c.pem'', cf_SSLKeyFile = ''/k.pem'', cf_certbotWebrootPath = [], cf_useCgroup = False,
     cf_useNamespace = False, cf_requestMaxSize = 2048, cf_resultMaxSize = 1024\<rparr>"

theorem accepted_configuration_witness:
  "\<exists>c. readConfigFile (\<lambda>_. []) ''vpl-jail-system.conf'' (Some []) = Inr c
    \<and> 100 \<le> getMaxPrisoner c - getMinPrisoner c + 1 \<and> correctPath (cf_controlPath c)"
proof -
  obtain c where c: "readConfigFile (\<lambda>_. []) ''vpl-jail-system.conf'' (Some []) = Inr c"
    using default_configuration_accepted by blast
  from accepted_configuration [OF c] c show ?thesis by blast
qed

end
