(* ===== verification/Effects.thy ===== *)
theory Effects
  imports Prelude
begin

text \<open>
  Operations that change a state and may throw: a function from the state to the state it leaves and
  to a normal return or an exception. Like the C++ code, and unlike a transaction, an exception keeps
  the changes made before it. With the rules for what an operation keeps and for what it establishes.
\<close>

type_synonym ('s, 'a) op = "'s \<Rightarrow> 's \<times> 'a result"

definition op_return :: "'a \<Rightarrow> ('s, 'a) op" where "op_return x s = (s, Inr x)"
definition op_throw :: "exn \<Rightarrow> ('s, 'a) op" where "op_throw e s = (s, Inl e)"
definition op_lift :: "'a result \<Rightarrow> ('s, 'a) op" where "op_lift r s = (s, r)"
definition op_get :: "('s \<Rightarrow> 'a) \<Rightarrow> ('s, 'a) op" where "op_get f s = (s, Inr (f s))"
definition op_modify :: "('s \<Rightarrow> 's) \<Rightarrow> ('s, unit) op" where "op_modify f s = (f s, Inr ())"

definition op_bind :: "('s, 'a) op \<Rightarrow> ('a \<Rightarrow> ('s, 'b) op) \<Rightarrow> ('s, 'b) op" where
  "op_bind m f s = (case m s of (s', Inl e) \<Rightarrow> (s', Inl e) | (s', Inr x) \<Rightarrow> f x s')"

definition op_then :: "('s, 'a) op \<Rightarrow> ('s, 'b) op \<Rightarrow> ('s, 'b) op" where
  "op_then m n = op_bind m (\<lambda>_. n)"

definition op_catch :: "('s, 'a) op \<Rightarrow> (exn \<Rightarrow> ('s, 'a) op) \<Rightarrow> ('s, 'a) op" where
  "op_catch m h s = (case m s of (s', Inl e) \<Rightarrow> h e s' | (s', Inr x) \<Rightarrow> (s', Inr x))"

definition op_when :: "('s \<Rightarrow> bool) \<Rightarrow> ('s, unit) op \<Rightarrow> ('s, unit) op" where
  "op_when c m s = (if c s then m s else (s, Inr ()))"

definition op_if :: "('s \<Rightarrow> bool) \<Rightarrow> ('s, 'a) op \<Rightarrow> ('s, 'a) op \<Rightarrow> ('s, 'a) op" where
  "op_if c m n s = (if c s then m s else n s)"

text \<open>A sequence of unit operations, and a loop over a list.\<close>

fun op_all :: "('s, unit) op list \<Rightarrow> ('s, unit) op" where
  "op_all [] = op_return ()"
| "op_all (m # ms) = op_then m (op_all ms)"

definition op_each :: "('a \<Rightarrow> ('s, unit) op) \<Rightarrow> 'a list \<Rightarrow> ('s, unit) op" where
  "op_each f xs = op_all (map f xs)"

named_theorems op_run "how the pieces of an operation evaluate"

lemma op_return_run [op_run]: "op_return x s = (s, Inr x)" by (simp add: op_return_def)
lemma op_throw_run [op_run]: "op_throw e s = (s, Inl e)" by (simp add: op_throw_def)
lemma op_lift_run [op_run]: "op_lift r s = (s, r)" by (simp add: op_lift_def)
lemma op_get_run [op_run]: "op_get f s = (s, Inr (f s))" by (simp add: op_get_def)
lemma op_modify_run [op_run]: "op_modify f s = (f s, Inr ())" by (simp add: op_modify_def)

lemma op_bind_run [op_run]:
  "m s = (s', Inr x) \<Longrightarrow> op_bind m f s = f x s'"
  "m s = (s', Inl e) \<Longrightarrow> op_bind m f s = (s', Inl e)"
  by (simp_all add: op_bind_def)

lemma op_then_run [op_run]:
  "m s = (s', Inr x) \<Longrightarrow> op_then m n s = n s'"
  "m s = (s', Inl e) \<Longrightarrow> op_then m n s = (s', Inl e)"
  by (simp_all add: op_then_def op_bind_def)

lemma op_catch_run [op_run]:
  "m s = (s', Inr x) \<Longrightarrow> op_catch m h s = (s', Inr x)"
  "m s = (s', Inl e) \<Longrightarrow> op_catch m h s = h e s'"
  by (simp_all add: op_catch_def)

lemma op_when_run [op_run]: "op_when c m s = (if c s then m s else (s, Inr ()))"
  by (simp add: op_when_def)

lemma op_if_run [op_run]: "op_if c m n s = (if c s then m s else n s)"
  by (simp add: op_if_def)

section \<open>What every run keeps\<close>

definition op_keeps :: "('s \<Rightarrow> bool) \<Rightarrow> ('s, 'a) op \<Rightarrow> bool" where
  "op_keeps I m \<longleftrightarrow> (\<forall>s. I s \<longrightarrow> I (fst (m s)))"

named_theorems op_keep "rules for what an operation keeps"

lemma op_keepsD: "op_keeps I m \<Longrightarrow> I s \<Longrightarrow> m s = (s', r) \<Longrightarrow> I s'"
  by (metis fst_conv op_keeps_def)

lemma op_keeps_basic [op_keep]:
  "op_keeps I (op_return x)" "op_keeps I (op_throw e)" "op_keeps I (op_lift r)" "op_keeps I (op_get f)"
  by (simp_all add: op_keeps_def op_run)

lemma op_keeps_modify [op_keep]: "(\<And>s. I s \<Longrightarrow> I (f s)) \<Longrightarrow> op_keeps I (op_modify f)"
  by (simp add: op_keeps_def op_run)

lemma op_keeps_bind [op_keep]: "op_keeps I m \<Longrightarrow> (\<And>x. op_keeps I (f x)) \<Longrightarrow> op_keeps I (op_bind m f)"
  unfolding op_keeps_def op_bind_def by (auto split: prod.splits sum.splits; metis fst_conv)

lemma op_keeps_then [op_keep]: "op_keeps I m \<Longrightarrow> op_keeps I n \<Longrightarrow> op_keeps I (op_then m n)"
  by (simp add: op_then_def op_keeps_bind)

lemma op_keeps_catch [op_keep]: "op_keeps I m \<Longrightarrow> (\<And>e. op_keeps I (h e)) \<Longrightarrow> op_keeps I (op_catch m h)"
  unfolding op_keeps_def op_catch_def by (auto split: prod.splits sum.splits; metis fst_conv)

lemma op_keeps_when [op_keep]: "op_keeps I m \<Longrightarrow> op_keeps I (op_when c m)"
  by (simp add: op_keeps_def op_run)

lemma op_keeps_if [op_keep]: "op_keeps I m \<Longrightarrow> op_keeps I n \<Longrightarrow> op_keeps I (op_if c m n)"
  by (simp add: op_keeps_def op_run)

lemma op_keeps_all [op_keep]: "(\<And>m. m \<in> set ms \<Longrightarrow> op_keeps I m) \<Longrightarrow> op_keeps I (op_all ms)"
  by (induction ms) (simp_all add: op_keep)

lemma op_keeps_each [op_keep]: "(\<And>x. x \<in> set xs \<Longrightarrow> op_keeps I (f x)) \<Longrightarrow> op_keeps I (op_each f xs)"
  unfolding op_each_def by (rule op_keeps_all) auto

section \<open>What a run that returns establishes\<close>

lemma op_bind_InrD:
  "op_bind m f s = (s', Inr y) \<Longrightarrow> \<exists>t x. m s = (t, Inr x) \<and> f x t = (s', Inr y)"
  by (auto simp: op_bind_def split: prod.splits sum.splits)

lemma op_then_InrD:
  "op_then m n s = (s', Inr y) \<Longrightarrow> \<exists>t x. m s = (t, Inr x) \<and> n t = (s', Inr y)"
  by (auto simp: op_then_def dest: op_bind_InrD)

lemmas op_defs = op_return_def op_throw_def op_lift_def op_get_def op_modify_def op_bind_def op_then_def
  op_catch_def op_when_def op_if_def op_each_def

end
