(* ===== verification/Process_Monitor.thy ===== *)
theory Process_Monitor
  imports Configuration Effects "HOL-Library.AList"
begin

text \<open>
  The class \<open>processMonitor\<close>: one task of the jail, its prisoner id, its tickets and its state on disk.
  A \<open>task\<close> holds the members of the object together with the part of the machine it acts on: the
  regular files and the directories by path, the entries of \<open>/proc\<close>, the clock and the random
  source. What the system decides (which call fails, which process ends when it is signalled, what
  other processes write while this one sleeps) is a parameter of that state. \<open>GlobalLock\<close> and
  \<open>TaskLock\<close> make the operations atomic; an operation here is one such section or a sequence of them.
\<close>

section \<open>The object and the machine\<close>

datatype securityLevel = sec_admin | sec_monitor | sec_execute | sec_httppassthrough | sec_none | sec_other int

fun security_value :: "securityLevel \<Rightarrow> int" where
  "security_value sec_admin = 0"
| "security_value sec_monitor = 1"
| "security_value sec_execute = 2"
| "security_value sec_httppassthrough = 3"
| "security_value sec_none = 4"
| "security_value (sec_other n) = n"

text \<open>The cast \<open>(securityLevel) n\<close>.\<close>

definition security_of :: "int \<Rightarrow> securityLevel" where
  "security_of n = (if n = 0 then sec_admin else if n = 1 then sec_monitor else if n = 2 then sec_execute
     else if n = 3 then sec_httppassthrough else if n = 4 then sec_none else sec_other n)"

datatype processState = prestarting | starting | compiling | beforeRunning | running | retrieve | stopped

datatype sys_call = Mkdir | Chown | Chmod | OpenWrite | WriteData | OpenRead | Unlink | Setid

record monitor =
  m_prisoner :: int
  m_compiler_pid :: int
  m_runner_pid :: int
  m_monitor_pid :: int
  m_adminticket :: string
  m_monitorticket :: string
  m_executionticket :: string
  m_httpPassthroughticket :: string
  m_localwebserver :: string
  m_interactive :: bool
  m_cleaning :: bool
  m_lang :: string
  m_startTime :: int
  m_limits :: execution_limits
  m_security :: securityLevel
  m_processControlPath :: string
  m_homePath :: string

record task = monitor +
  w_conf :: configuration
  w_files :: "(string \<times> string) list"
  w_dirs :: "string list"
  w_owned :: "string \<Rightarrow> int \<Rightarrow> bool"
  w_mtime :: "string \<Rightarrow> int"
  w_fails :: "sys_call \<Rightarrow> string \<Rightarrow> bool"
  w_io :: "string \<Rightarrow> write_failure"
  w_pending :: "(string \<times> string) list list"
  w_now :: int
  w_random :: "nat \<Rightarrow> int"
  w_draws :: nat
  w_pid :: int
  w_uid :: int
  w_proc :: "(string \<times> string) list"
  w_proc_readable :: bool
  w_dies :: "bool \<Rightarrow> int \<Rightarrow> bool"
  w_child :: "int \<Rightarrow> bool"
  w_fork_fails :: bool
  w_alive :: "int \<Rightarrow> bool"
  w_running :: "int \<Rightarrow> bool"
  w_cgroup_available :: bool
  w_cgroups :: "string list"
  w_cgroup_oom :: "string \<Rightarrow> (string \<times> int) list result"
  w_cgroup_usage :: "string \<Rightarrow> int result"

text \<open>
  \<open>w_alive\<close> and \<open>w_running\<close> are \<open>kill(pid, 0) == 0\<close> and the state field of \<open>/proc/pid/stat\<close>.
\<close>

definition processExists :: "task \<Rightarrow> int \<Rightarrow> bool" where
  "processExists t pid \<longleftrightarrow> pid > 0 \<and> w_alive t pid"

definition processExistsAndRunning :: "task \<Rightarrow> int \<Rightarrow> bool" where
  "processExistsAndRunning t pid \<longleftrightarrow> processExists t pid \<and> w_running t pid"

section \<open>Files\<close>

definition cpath :: "string \<Rightarrow> string \<Rightarrow> string" where
  "cpath dir name = dir @ path_sep # name"

definition fileExists :: "task \<Rightarrow> string \<Rightarrow> bool" where
  "fileExists t n \<longleftrightarrow> map_of (w_files t) (c_str n) \<noteq> None"

definition dirExists :: "task \<Rightarrow> string \<Rightarrow> bool" where
  "dirExists t n \<longleftrightarrow> c_str n \<in> set (w_dirs t)"

definition put_file :: "string \<Rightarrow> string \<Rightarrow> task \<Rightarrow> task" where
  "put_file n d t = t\<lparr>w_files := AList.update n d (w_files t)\<rparr>"

definition drop_file :: "string \<Rightarrow> task \<Rightarrow> task" where
  "drop_file n t = t\<lparr>w_files := AList.delete n (w_files t)\<rparr>"

definition parents_of :: "string \<Rightarrow> string list" where
  "parents_of p = map (\<lambda>k. take k p) (filter (\<lambda>k. 0 < k \<and> p ! k = path_sep) [0..<length p])"

text \<open>\<open>Util::deleteFile\<close>, \<open>Util::readFile\<close> and \<open>Util::writeFile\<close> as seen from outside: only files change.\<close>

definition delete_file :: "string \<Rightarrow> task \<Rightarrow> task" where
  "delete_file n t = (if \<not> correctPath n \<or> w_fails t Unlink n then t else drop_file n t)"

definition read_file :: "string \<Rightarrow> bool \<Rightarrow> (task, string) op" where
  "read_file n throwError t =
     (let failed = (t, if throwError then Inl (HttpExn InternalServerErrorCode ''I can't read file'' []) else Inr []) in
      if \<not> correctPath n \<or> w_fails t OpenRead n then failed
      else case map_of (w_files t) n of None \<Rightarrow> failed | Some text \<Rightarrow> (t, Inr text))"

definition write_file :: "string \<Rightarrow> string \<Rightarrow> (task, unit) op" where
  "write_file n data t =
     (if \<not> correctPath n then (t, Inl (HttpExn InternalServerErrorCode ''I can't write file'' []))
      else let t = (if getDirectory n \<noteq> [] \<and> \<not> dirExists t (getDirectory n)
          then t\<lparr>w_dirs := parents_of n @ w_dirs t\<rparr> else t) in
        if w_fails t OpenWrite n then (t, Inl (HttpExn InternalServerErrorCode ''I can't write file'' []))
        else if w_fails t WriteData n then
          (put_file n [] t, Inl (HttpExn InternalServerErrorCode ''I can't write to file'' []))
        else (put_file n data t, Inr ()))"

text \<open>A configuration file, read and replaced; the temporary file needs the directory.\<close>

definition load_config :: "string \<Rightarrow> config_data \<Rightarrow> (task, config_data) op" where
  "load_config n defaults t = (t, readConfiguration (map_of (w_files t) (c_str n)) n defaults)"

definition store_config :: "string \<Rightarrow> config_data \<Rightarrow> (task, unit) op" where
  "store_config n data t =
     (let io = (if dirExists t (getDirectory n) then w_io t n else MkstempFails) in
      case writeConfiguration io (map_of (w_files t) n) n data of
        (Some text, r) \<Rightarrow> (put_file n text t, r)
      | (None, r) \<Rightarrow> (t, r))"

text \<open>\<open>Util::removeDir\<close>: what is at or below the directory and owned, or below something owned.\<close>

definition at_or_below :: "string \<Rightarrow> string \<Rightarrow> bool" where
  "at_or_below dir p \<longleftrightarrow> p = dir \<or> is_prefix (dir @ [path_sep]) p"

definition removable :: "task \<Rightarrow> string \<Rightarrow> int \<Rightarrow> bool \<Rightarrow> string \<Rightarrow> bool" where
  "removable t dir owner force p \<longleftrightarrow> at_or_below dir p \<and>
     (force \<or> (\<exists>q \<in> set (p # parents_of p). at_or_below dir q \<and> w_owned t q owner))"

definition removeDir :: "string \<Rightarrow> int \<Rightarrow> bool \<Rightarrow> task \<Rightarrow> task" where
  "removeDir dir owner force t =
     (if dir = [path_sep] \<or> \<not> dirExists t dir then t
      else t\<lparr>w_files := filter (\<lambda>p. \<not> removable t dir owner force (fst p)) (w_files t),
             w_dirs := filter (\<lambda>p. \<not> removable t dir owner force p) (w_dirs t)\<rparr>)"

datatype mkdir_result = MkOk | MkExists | MkError

definition make_dir :: "string \<Rightarrow> task \<Rightarrow> task \<times> mkdir_result" where
  "make_dir n t = (if dirExists t n \<or> fileExists t n then (t, MkExists)
     else if w_fails t Mkdir n then (t, MkError)
     else (t\<lparr>w_dirs := n # w_dirs t\<rparr>, MkOk))"

definition entry_names :: "string \<Rightarrow> string list \<Rightarrow> string list" where
  "entry_names dir paths = map (drop (Suc (length dir)))
     (filter (\<lambda>p. is_prefix (dir @ [path_sep]) p \<and> path_sep \<notin> set (drop (Suc (length dir)) p)) (remdups paths))"

section \<open>Names\<close>

text \<open>C's integer division and remainder.\<close>

definition c_div :: "int \<Rightarrow> int \<Rightarrow> int" where
  "c_div a b = (if a < 0 then - ((- a) div b) else a div b)"

definition c_rem :: "int \<Rightarrow> int \<Rightarrow> int" where
  "c_rem a b = a - c_div a b * b"

definition c_abs :: "int \<Rightarrow> int" where
  "c_abs v = to_int32 (if v < 0 then - v else v)"

definition util_random :: "(task, int) op" where
  "util_random t = (t\<lparr>w_draws := Suc (w_draws t)\<rparr>, Inr (w_random t (w_draws t)))"

definition getPartialTicket :: "(task, string) op" where
  "getPartialTicket = op_bind util_random (\<lambda>r. op_return (itos (c_div r 127)))"

definition getPrisonerName :: "task \<Rightarrow> string" where
  "getPrisonerName t = CHR ''p'' # itos (m_prisoner t)"

definition controlPath :: "task \<Rightarrow> string" where "controlPath t = cf_controlPath (w_conf t)"
definition jailPath :: "task \<Rightarrow> string" where "jailPath t = cf_jailPath (w_conf t)"

definition getRelativeHomePath :: "task \<Rightarrow> string" where
  "getRelativeHomePath t = ''/home/'' @ getPrisonerName t"

definition getHomePath :: "task \<Rightarrow> string" where
  "getHomePath t = jailPath t @ getRelativeHomePath t"

definition getProcessControlPath :: "task \<Rightarrow> string \<Rightarrow> string" where
  "getProcessControlPath t name = cpath (m_processControlPath t) name"

definition getProcessConfigFile :: "task \<Rightarrow> string" where
  "getProcessConfigFile t = getProcessControlPath t ''config''"

definition setProcessControlPath :: "task \<Rightarrow> task" where
  "setProcessControlPath t = t\<lparr>m_processControlPath := cpath (controlPath t) (getPrisonerName t)\<rparr>"

definition setPrisonerID :: "int \<Rightarrow> (task, unit) op" where
  "setPrisonerID prisoner t =
     (if prisoner = getHomeDirOwnerUid (w_conf t) then
        (t, Inl (HttpExn InternalServerErrorCode ''Reserved prisoner id'' []))
      else if prisoner < getMinPrisoner (w_conf t) \<or> prisoner > getMaxPrisoner (w_conf t) then
        (t, Inl (HttpExn InternalServerErrorCode ''Invalid prisoner id'' []))
      else (setProcessControlPath (t\<lparr>m_prisoner := prisoner\<rparr>), Inr ()))"

definition prisonerRelativeHomePath :: "task \<Rightarrow> string" where
  "prisonerRelativeHomePath t = ''/home/p'' @ itos (to_int32 (m_prisoner t))"

definition prisonerHomePath :: "task \<Rightarrow> string" where
  "prisonerHomePath t = (if w_uid t \<noteq> 0 then prisonerRelativeHomePath t
     else jailPath t @ prisonerRelativeHomePath t)"

definition getVNCPassword :: "task \<Rightarrow> string" where
  "getVNCPassword t = substr (m_executionticket t) 0 8"

definition getTaskId :: "task \<Rightarrow> string" where
  "getTaskId t = getPrisonerName t @ ''_'' @ substr (m_executionticket t) 0 3"

definition hasMonitorTicket :: "task \<Rightarrow> bool" where
  "hasMonitorTicket t \<longleftrightarrow> m_monitorticket t \<noteq> ''NO_MONITOR''"

definition requestsInProgress :: "task \<Rightarrow> nat" where
  "requestsInProgress t = (let homeDir = jailPath t @ ''/home'' in
     if \<not> dirExists t homeDir then 0
     else length (filter (\<lambda>n. n \<noteq> [] \<and> hd n = CHR ''p'') (entry_names homeDir (w_dirs t @ map fst (w_files t)))))"

section \<open>Choosing a prisoner\<close>

definition server_error :: "string \<Rightarrow> exn" where
  "server_error m = HttpExn InternalServerErrorCode m []"

definition give_home :: "task \<Rightarrow> task \<times> unit result" where
  "give_home t = (let home = m_homePath t in
     if w_fails t Chown home then
       (removeDir home 0 True t, Inl (server_error (''I can't change prisoner home dir '' @ home @ '' to proper owner'')))
     else if w_fails t Chmod home then
       (removeDir home 0 True t, Inl (server_error (''I can't change prisoner home dir '' @ home @ '' to proper permissions'')))
     else (t, Inr ()))"

text \<open>\<open>rmdir(controlPath)\<close>: the directory was just created, so it is empty.\<close>

definition remove_dir_entry :: "string \<Rightarrow> task \<Rightarrow> task" where
  "remove_dir_entry n t = t\<lparr>w_dirs := removeAll n (w_dirs t)\<rparr>"

text \<open>True: the prisoner is chosen; False: the next one is tried.\<close>

definition create_home :: "(task, bool) op" where
  "create_home t = (case make_dir (m_homePath t) t of
      (t, MkOk) \<Rightarrow> op_then give_home (op_return True) t
    | (t, MkError) \<Rightarrow> (t, Inl (server_error (''I can't create prisoner home dir '' @ m_homePath t)))
    | (t, MkExists) \<Rightarrow>
      (let uid = m_prisoner t;
           t = removeDir (m_homePath t) uid True t;
           t = removeDir (jailPath t @ ''/tmp'') uid False t
       in (remove_dir_entry (m_processControlPath t) t, Inr False)))"

definition create_prisoner_dirs :: "(task, bool) op" where
  "create_prisoner_dirs t = (case make_dir (m_processControlPath t) t of
      (t, MkExists) \<Rightarrow> (t, Inr False)
    | (t, MkError) \<Rightarrow> (t, Inl (server_error (''I can't create prisoner control dir '' @ itos (m_prisoner t))))
    | (t, MkOk) \<Rightarrow> create_home (t\<lparr>m_homePath := prisonerHomePath t\<rparr>))"

fun select_loop :: "int \<Rightarrow> int list \<Rightarrow> (task, unit) op" where
  "select_loop width [] = op_throw (server_error ''I can't select prisoner home dir: free UID not found'')"
| "select_loop width (i # is) = op_bind util_random (\<lambda>r.
     op_bind (\<lambda>t. setPrisonerID (to_uid (getMinPrisoner (w_conf t) + c_rem (c_abs (to_int32 (r + i))) width)) t) (\<lambda>_.
     op_bind create_prisoner_dirs (\<lambda>chosen. if chosen then op_return () else select_loop width is)))"

definition selectPrisoner :: "(task, unit) op" where
  "selectPrisoner t = (let conf = w_conf t;
       firstPrisoner = getMinPrisoner conf;
       width = to_int32 (getMaxPrisoner conf - firstPrisoner + 1) in
     if width < 100 then
       (t, Inl (server_error ''Prisoner range too small, minPrisoner + 100 < maxPrisoner''))
     else if getMinPrisoner conf < jail_min_prisoner_uid \<or> getMaxPrisoner conf > jail_max_prisoner_uid then
       (t, Inl (server_error ''Prisoner range out of limits, minPrisoner''))
     else select_loop width [0..width - 1] t)"

section \<open>The state on disk\<close>

definition bool_text :: "bool \<Rightarrow> string" where "bool_text b = (if b then ''1'' else ''0'')"

definition info_pairs :: "task \<Rightarrow> (string \<times> string) list" where
  "info_pairs t = [
     (''MAXTIME'', itos (maxtime (m_limits t))), (''MAXFILESIZE'', itos (maxfilesize (m_limits t))),
     (''MAXMEMORY'', itos (maxmemory (m_limits t))), (''MAXPROCESSES'', itos (maxprocesses (m_limits t))),
     (''ADMINTICKET'', m_adminticket t), (''EXECUTIONTICKET'', m_executionticket t),
     (''MONITORTICKET'', m_monitorticket t), (''HTTPPASSTHROUGHTTICKET'', m_httpPassthroughticket t),
     (''LOCALWEBSERVER'', m_localwebserver t), (''CLEANING'', bool_text (m_cleaning t)),
     (''STARTTIME'', itos (m_startTime t)), (''INTERACTIVE'', bool_text (m_interactive t)),
     (''LANG'', m_lang t), (''COMPILER_PID'', itos (m_compiler_pid t)),
     (''RUNNER_PID'', itos (m_runner_pid t)), (''MONITOR_PID'', itos (m_monitor_pid t))]"

definition set_pairs :: "(string \<times> string) list \<Rightarrow> config_data \<Rightarrow> config_data" where
  "set_pairs ps data = fold (\<lambda>(k, v) d. cd_set d k v) ps data"

definition writeInfo :: "config_data \<Rightarrow> (task, unit) op" where
  "writeInfo data t = (let configFile = getProcessConfigFile t in
     op_bind (if fileExists t configFile then load_config configFile data else op_return data)
       (\<lambda>data. store_config configFile (set_pairs (info_pairs t) data)) t)"

definition info_of :: "config_data \<Rightarrow> task \<Rightarrow> task" where
  "info_of data t = (let get = cd_index data in t\<lparr>
     m_limits := \<lparr>maxtime = c_atoi (get ''MAXTIME''), maxfilesize = strtoll (get ''MAXFILESIZE''),
       maxmemory = strtoll (get ''MAXMEMORY''), maxprocesses = c_atoi (get ''MAXPROCESSES'')\<rparr>,
     m_adminticket := get ''ADMINTICKET'', m_executionticket := get ''EXECUTIONTICKET'',
     m_monitorticket := get ''MONITORTICKET'', m_httpPassthroughticket := get ''HTTPPASSTHROUGHTTICKET'',
     m_localwebserver := get ''LOCALWEBSERVER'', m_cleaning := (get ''CLEANING'' = ''1''),
     m_startTime := c_atoi (get ''STARTTIME''), m_interactive := (c_atoi (get ''INTERACTIVE'') \<noteq> 0),
     m_lang := get ''LANG'', m_compiler_pid := c_atoi (get ''COMPILER_PID''),
     m_runner_pid := c_atoi (get ''RUNNER_PID''), m_monitor_pid := c_atoi (get ''MONITOR_PID'')\<rparr>)"

definition readInfo :: "(task, config_data) op" where
  "readInfo = op_bind (\<lambda>t. load_config (getProcessConfigFile t) [] t) (\<lambda>data.
     op_then (op_modify (info_of data)) (\<lambda>t.
       if m_cleaning t then (t, Inl TaskCleaning) else (t, Inr data)))"

section \<open>The constructors\<close>

definition no_limits :: execution_limits where
  "no_limits = \<lparr>maxtime = 0, maxfilesize = 0, maxmemory = 0, maxprocesses = 0\<rparr>"

definition new_object :: "task \<Rightarrow> task" where
  "new_object t = t\<lparr>m_prisoner := 4294967295, m_cleaning := False, m_adminticket := [], m_monitorticket := [],
     m_executionticket := [], m_httpPassthroughticket := [], m_localwebserver := [], m_lang := [],
     m_processControlPath := [], m_homePath := []\<rparr>"

definition ticket_data :: "task \<Rightarrow> securityLevel \<Rightarrow> config_data" where
  "ticket_data t sec = set_pairs [(''USER_ID'', itos (m_prisoner t)), (''SECURITY'', itos (security_value sec))] []"

definition store_ticket :: "string \<Rightarrow> securityLevel \<Rightarrow> (task, unit) op" where
  "store_ticket ticket sec t = store_config (cpath (controlPath t) ticket) (ticket_data t sec) t"

definition two_parts :: "(task, string) op" where
  "two_parts = op_bind getPartialTicket (\<lambda>a. op_bind getPartialTicket (\<lambda>b. op_return (a @ b)))"

text \<open>
  The loop that draws the tickets again while one of their files exists; \<open>fuel\<close> bounds the draws.
  Admin, monitor and execution parts are drawn first, then their second parts in the opposite order.
\<close>

fun fresh_tickets :: "nat \<Rightarrow> string \<times> string \<times> string \<Rightarrow> task \<Rightarrow> (task \<times> (string \<times> string \<times> string) result) option" where
  "fresh_tickets fuel (a, m, e) t =
     (if fileExists t (cpath (controlPath t) m) \<or> fileExists t (cpath (controlPath t) e) \<or>
         fileExists t (cpath (controlPath t) a) then
        (case fuel of 0 \<Rightarrow> None
         | Suc fuel \<Rightarrow> (case op_bind getPartialTicket (\<lambda>a. op_bind getPartialTicket (\<lambda>m.
               op_bind getPartialTicket (\<lambda>e. op_bind getPartialTicket (\<lambda>e'. op_bind getPartialTicket (\<lambda>m'.
               op_bind getPartialTicket (\<lambda>a'. op_return (a @ a', m @ m', e @ e'))))))) t of
             (t, Inl x) \<Rightarrow> Some (t, Inl x)
           | (t, Inr tickets) \<Rightarrow> fresh_tickets fuel tickets t))
      else Some (t, Inr (a, m, e)))"

fun fresh_two_tickets :: "nat \<Rightarrow> string \<times> string \<Rightarrow> task \<Rightarrow> (task \<times> (string \<times> string) result) option" where
  "fresh_two_tickets fuel (a, e) t =
     (if fileExists t (cpath (controlPath t) e) \<or> fileExists t (cpath (controlPath t) a) then
        (case fuel of 0 \<Rightarrow> None
         | Suc fuel \<Rightarrow> (case op_bind getPartialTicket (\<lambda>a. op_bind getPartialTicket (\<lambda>e.
               op_bind getPartialTicket (\<lambda>e'. op_bind getPartialTicket (\<lambda>a'. op_return (a @ a', e @ e'))))) t of
             (t, Inl x) \<Rightarrow> Some (t, Inl x)
           | (t, Inr tickets) \<Rightarrow> fresh_two_tickets fuel tickets t))
      else Some (t, Inr (a, e)))"

declare fresh_tickets.simps [simp del] fresh_two_tickets.simps [simp del]

definition start_monitored :: "string \<times> string \<times> string \<Rightarrow> (task, unit) op" where
  "start_monitored tickets = (case tickets of (a, m, e) \<Rightarrow> op_all [
     store_ticket a sec_admin, store_ticket m sec_monitor, store_ticket e sec_execute,
     op_modify (\<lambda>t. t\<lparr>m_limits := no_limits, m_adminticket := a, m_monitorticket := m, m_executionticket := e,
       m_httpPassthroughticket := [], m_startTime := w_now t, m_interactive := False,
       m_compiler_pid := 0, m_monitor_pid := 0, m_runner_pid := 0\<rparr>),
     writeInfo []])"

definition start_direct :: "string \<times> string \<Rightarrow> (task, unit) op" where
  "start_direct tickets = (case tickets of (a, e) \<Rightarrow> op_all [
     store_ticket a sec_admin, store_ticket e sec_execute,
     op_modify (\<lambda>t. t\<lparr>m_limits := no_limits, m_adminticket := a, m_monitorticket := ''NO_MONITOR'',
       m_executionticket := e, m_httpPassthroughticket := [], m_startTime := w_now t, m_interactive := True,
       m_compiler_pid := 0, m_monitor_pid := 0, m_runner_pid := 0\<rparr>),
     writeInfo []])"

definition processMonitor3 :: "nat \<Rightarrow> task \<Rightarrow> (task \<times> (string \<times> string \<times> string) result) option" where
  "processMonitor3 fuel t =
     (case op_then (op_modify (\<lambda>t. (new_object t)\<lparr>m_security := sec_admin\<rparr>))
       (op_bind getPartialTicket (\<lambda>a. op_bind getPartialTicket (\<lambda>m. op_bind getPartialTicket (\<lambda>e.
        op_then selectPrisoner
       (op_bind getPartialTicket (\<lambda>e'. op_bind getPartialTicket (\<lambda>m'. op_bind getPartialTicket (\<lambda>a'.
        op_return (a @ a', m @ m', e @ e')))))))) ) t of
       (t, Inl x) \<Rightarrow> Some (t, Inl x)
     | (t, Inr tickets) \<Rightarrow> map_option (\<lambda>(t, r). op_bind (op_lift r) (\<lambda>tickets.
         op_then (start_monitored tickets) (op_return tickets)) t) (fresh_tickets fuel tickets t))"

definition processMonitor2 :: "nat \<Rightarrow> task \<Rightarrow> (task \<times> (string \<times> string) result) option" where
  "processMonitor2 fuel t =
     (case op_then (op_modify (\<lambda>t. (new_object t)\<lparr>m_security := sec_admin\<rparr>))
       (op_bind getPartialTicket (\<lambda>a. op_bind getPartialTicket (\<lambda>e.
        op_then selectPrisoner
       (op_bind getPartialTicket (\<lambda>e'. op_bind getPartialTicket (\<lambda>a'. op_return (a @ a', e @ e'))))))) t of
       (t, Inl x) \<Rightarrow> Some (t, Inl x)
     | (t, Inr tickets) \<Rightarrow> map_option (\<lambda>(t, r). op_bind (op_lift r) (\<lambda>tickets.
         op_then (start_direct tickets) (op_return tickets)) t) (fresh_two_tickets fuel tickets t))"

definition monitorize :: "(task, unit) op" where
  "monitorize t = (if m_security t \<noteq> sec_monitor then (t, Inr ())
     else op_then readInfo (\<lambda>t.
       if m_monitor_pid t \<noteq> 0 then (t, Inl (StringExn ''Process already monitorized''))
       else writeInfo [] (t\<lparr>m_monitor_pid := w_pid t\<rparr>)) t)"

definition ticket_reg :: vplregex where
  "ticket_reg = vplregex_extended (seqs [Bol, Digits, Eol])"

definition consume_ticket :: "string \<Rightarrow> securityLevel \<Rightarrow> (task, unit) op" where
  "consume_ticket fileName sec t = (let t = t\<lparr>m_security := sec\<rparr> in
     (if sec = sec_monitor \<or> sec = sec_execute then delete_file fileName t else t, Inr ()))"

definition open_info :: "(task, unit) op" where
  "open_info t = (if \<not> fileExists t (getProcessConfigFile t) then
       (t, Inl (StringExn ''Ticket invalid: task configuration lost''))
     else op_then readInfo (op_return ()) t)"

definition use_ticket :: "string \<Rightarrow> config_data \<Rightarrow> (task, unit) op" where
  "use_ticket fileName data =
     (if cd_index data ''USER_ID'' = ''0'' \<or> cd_index data ''SECURITY'' = ''5'' then
        op_throw (StringExn ''Ticket invalid: task configuration lost'')
      else op_all [
        setPrisonerID (to_uid (c_atoi (cd_index data ''USER_ID''))),
        consume_ticket fileName (security_of (c_atoi (cd_index data ''SECURITY''))),
        open_info,
        op_when (\<lambda>t. m_security t = sec_monitor) monitorize])"

definition processMonitor1 :: "string \<Rightarrow> (task, unit) op" where
  "processMonitor1 ticket = op_then (op_modify new_object) (\<lambda>t.
     let ticket = trimAndRemoveQuotes ticket in
     case vplregex_search ticket_reg ticket 1 of
       None \<Rightarrow> (t, Inl (StringExn ''Ticket invalid format''))
     | Some found \<Rightarrow> (let fileName = cpath (controlPath t) ticket in
        if fileExists t fileName then
          op_bind (load_config fileName [(''SECURITY'', ''5''), (''USER_ID'', ''0'')]) (use_ticket fileName) t
        else (t, Inl (HttpExn NotFoundCode ''Ticket not found'' []))))"

section \<open>Processes of a prisoner\<close>

definition reg_uid :: vplregex where
  "reg_uid = vplregex_icase_newline (seqs [Star AnyChar, Bol, Lit ''Uid:'', Plus (Cls is_blank_tab), Grp 1 Digits])"

definition reg_mem :: vplregex where
  "reg_mem = vplregex_icase_newline (seqs [Star AnyChar, Bol, Lit ''VmHWM:'', Plus (Cls is_blank_tab), Grp 1 Digits,
     Plus (Cls is_blank_tab), Grp 2 (Star AnyChar)])"

text \<open>The status file of an entry of \<open>/proc\<close>, read without an exception.\<close>

definition proc_status :: "task \<Rightarrow> string \<Rightarrow> string" where
  "proc_status t name = (case map_of (w_proc t) name of None \<Rightarrow> [] | Some status \<Rightarrow> status)"

definition getProcessUID :: "task \<Rightarrow> int \<Rightarrow> int" where
  "getProcessUID t pid = (case vplregex_search reg_uid (proc_status t (itos pid)) 2 of
     Some found \<Rightarrow> atoi (found ! 1) | None \<Rightarrow> -1)"

definition getPrisonerProcesses :: "int \<Rightarrow> task \<Rightarrow> int list" where
  "getPrisonerProcesses prisoner t = (if \<not> w_proc_readable t then [] else
     filter (\<lambda>pid. pid > 0 \<and> getProcessUID t pid = prisoner) (map (\<lambda>e. c_atoi (fst e)) (w_proc t)))"

definition kill_pid :: "bool \<Rightarrow> int \<Rightarrow> task \<Rightarrow> task" where
  "kill_pid soft pid t = (if w_dies t soft pid then t\<lparr>w_proc := AList.delete (itos pid) (w_proc t)\<rparr> else t)"

text \<open>
  A process that ends leaves \<open>/proc\<close>; \<open>waitpid\<close> reports it only to its parent. \<open>kill(-1)\<close> from a
  child that has become the prisoner signals every process of that user.
\<close>

definition stopPrisonerProcess :: "int \<Rightarrow> bool \<Rightarrow> task \<Rightarrow> task \<times> nat" where
  "stopPrisonerProcess prisoner soft t =
     (if \<not> isPrisonerUID (w_conf t) prisoner then (t, 0)
      else let pids = getPrisonerProcesses prisoner t;
          pidsKilled = filter (\<lambda>pid. getProcessUID t pid = prisoner) pids;
          t1 = fold (kill_pid soft) pidsKilled t;
          nkilled = length (filter (\<lambda>pid. w_child t pid \<and> w_dies t soft pid) pidsKilled) in
        if nkilled > 0 \<and> nkilled = length pidsKilled then (t1, nkilled)
        else if w_fork_fails t then (t1, length pids)
        else (fold (kill_pid soft) (getPrisonerProcesses prisoner t1) t1, length pids))"

fun stop_retries :: "nat \<Rightarrow> int \<Rightarrow> task \<Rightarrow> task" where
  "stop_retries n prisoner t = (case stopPrisonerProcess prisoner False t of (t, processes) \<Rightarrow>
     (case n of 0 \<Rightarrow> t | Suc n \<Rightarrow> if processes > 0 then stop_retries n prisoner t else t))"

declare stop_retries.simps [simp del]

section \<open>Cleaning\<close>

definition removeTicketFile :: "string \<Rightarrow> task \<Rightarrow> task" where
  "removeTicketFile ticket t = (if ticket \<noteq> [] then delete_file (cpath (controlPath t) ticket) t else t)"

definition config_tickets :: "config_data \<Rightarrow> string list" where
  "config_tickets data = map (cd_index data) [''ADMINTICKET'', ''EXECUTIONTICKET'', ''MONITORTICKET'', ''HTTPPASSTHROUGHTTICKET'']"

text \<open>Mark the task on disk as being cleaned, whatever fails, and give what the file held.\<close>

definition mark_cleaning :: "string \<Rightarrow> task \<Rightarrow> task \<times> config_data" where
  "mark_cleaning configFile t =
     (if fileExists t configFile then
        (case load_config configFile [] t of
          (t, Inl e) \<Rightarrow> (t, [])
        | (t, Inr data) \<Rightarrow> (let data = cd_set data ''CLEANING'' ''1'' in (fst (store_config configFile data t), data)))
      else (t, []))"

text \<open>\<open>pdir.substr(1)\<close> as a number.\<close>

definition uid_of_name :: "string \<Rightarrow> int" where
  "uid_of_name pdir = atoi (tl pdir)"

definition cleanPrisonerFilesLocked :: "string \<Rightarrow> task \<Rightarrow> task" where
  "cleanPrisonerFilesLocked pdir t = (let
       phome = jailPath t @ ''/home/'' @ pdir;
       tmpDir = jailPath t @ ''/tmp'';
       configDir = cpath (controlPath t) pdir;
       uid = uid_of_name pdir;
       (t, data) = mark_cleaning (cpath configDir ''config'') t;
       t = fold removeTicketFile (config_tickets data) t;
       t = (if cf_logLevel (w_conf t) \<le> 7 then removeDir phome uid True t else t);
       t = removeDir tmpDir uid False t
     in removeDir configDir 0 True t)"

definition cleanPrisonerFiles :: "string \<Rightarrow> task \<Rightarrow> task" where
  "cleanPrisonerFiles pdir t = cleanPrisonerFilesLocked pdir t"

definition isCGroupAvailable :: "task \<Rightarrow> bool" where
  "isCGroupAvailable t \<longleftrightarrow> cf_useCgroup (w_conf t) \<and> w_cgroup_available t"

text \<open>A process the task could not stop: not this one, still there with a readable status.\<close>

definition activeProcesses :: "int \<Rightarrow> task \<Rightarrow> bool" where
  "activeProcesses userid t \<longleftrightarrow> (\<exists>pid \<in> set (getPrisonerProcesses userid t).
     pid \<noteq> w_pid t \<and> getProcessUID t pid = userid \<and> proc_status t (itos pid) \<noteq> [])"

definition cleanTask :: "task \<Rightarrow> task" where
  "cleanTask t = (let userid = to_int32 (m_prisoner t) in
     if userid = -1 then t
     else let
       (t, data) = mark_cleaning (getProcessConfigFile t) (t\<lparr>m_cleaning := True\<rparr>);
       t = fold removeTicketFile (config_tickets data) t;
       t = fold removeTicketFile [m_adminticket t, m_executionticket t, m_monitorticket t, m_httpPassthroughticket t] t;
       (t, _) = stopPrisonerProcess userid True t;
       t = stop_retries 10 userid t in
     if activeProcesses userid t then t
     else let t = cleanPrisonerFiles (getPrisonerName t) t in
       if isCGroupAvailable t then t\<lparr>w_cgroups := removeAll (getPrisonerName t) (w_cgroups t)\<rparr> else t)"

section \<open>State of the task\<close>

definition controlFileExists :: "task \<Rightarrow> string \<Rightarrow> bool" where
  "controlFileExists t name = fileExists t (getProcessControlPath t name)"

definition FileExists :: "task \<Rightarrow> string \<Rightarrow> bool" where
  "FileExists t name = fileExists t (cpath (getHomePath t) name)"

text \<open>A nap: meanwhile other processes write the next batch of \<open>w_pending\<close>.\<close>

definition nap :: "task \<Rightarrow> task" where
  "nap t = (case w_pending t of [] \<Rightarrow> t
     | now # later \<Rightarrow> fold (\<lambda>(n, d). put_file n d) now (t\<lparr>w_pending := later\<rparr>))"

fun wait_rounds :: "nat \<Rightarrow> string \<Rightarrow> task \<Rightarrow> task" where
  "wait_rounds 0 name t = t"
| "wait_rounds (Suc n) name t = (if controlFileExists t name then t else wait_rounds n name (nap t))"

definition waitExistFile :: "string \<Rightarrow> nat \<Rightarrow> task \<Rightarrow> task" where
  "waitExistFile name timeout t = wait_rounds (timeout * 10) name t"

definition finish_clean :: "(task, processState) op" where
  "finish_clean t = (cleanTask t, Inr stopped)"

definition stopped_or_retrieve :: "string \<Rightarrow> (task, processState) op" where
  "stopped_or_retrieve name t = (let t = waitExistFile name 2 t in
     (t, Inr (if controlFileExists t name
        then (if name = ''compilation'' \<and> FileExists t ''vpl_execution'' then compiling else retrieve)
        else stopped)))"

definition state_now :: "(task, processState) op" where
  "state_now t =
     (if m_compiler_pid t = 0 then (t, Inr starting)
      else if m_startTime t > w_now t \<or> m_startTime t = 0 then (t, Inr starting)
      else let elapsedTime = w_now t - m_startTime t in
        if m_startTime t + maxtime (m_limits t) + jail_harvest_timeout < w_now t then finish_clean t
        else if processExistsAndRunning t (m_compiler_pid t) \<and> m_runner_pid t = 0 then (t, Inr compiling)
        else if m_monitor_pid t = 0 \<and> hasMonitorTicket t \<and> elapsedTime > jail_monitorstart_timeout then finish_clean t
        else if m_runner_pid t = 0 then
          (if m_monitor_pid t = 0 \<and> \<not> hasMonitorTicket t \<and> elapsedTime > jail_monitorstart_timeout then finish_clean t
           else if m_interactive t then (t, Inr beforeRunning)
           else stopped_or_retrieve ''compilation'' t)
        else if processExistsAndRunning t (m_runner_pid t) then (t, Inr running)
        else if m_interactive t then (t, Inr stopped)
        else stopped_or_retrieve ''execution'' t)"

definition getState :: "(task, processState) op" where
  "getState t =
     (if \<not> dirExists t (m_processControlPath t) then (t, Inr stopped)
      else if \<not> fileExists t (getProcessConfigFile t) then (t, Inr stopped)
      else case readInfo t of
        (t, Inl TaskCleaning) \<Rightarrow> (t, Inr stopped)
      | (t, Inl e) \<Rightarrow> (t, Inl e)
      | (t, Inr data) \<Rightarrow> state_now t)"

definition isRunning :: "(task, bool) op" where
  "isRunning = op_bind getState (\<lambda>s. op_return (s \<noteq> stopped))"

definition setRunner :: "(task, unit) op" where
  "setRunner t = (if m_security t = sec_monitor then (t, Inr ()) else
     op_then readInfo (op_then (op_modify (\<lambda>t. t\<lparr>m_startTime := w_now t, m_runner_pid := w_pid t\<rparr>)) (writeInfo [])) t)"

definition setCompiler :: "(task, unit) op" where
  "setCompiler t = (if m_security t = sec_monitor then (t, Inr ()) else
     op_then readInfo (op_then (op_modify (\<lambda>t. t\<lparr>m_startTime := w_now t, m_compiler_pid := w_pid t\<rparr>)) (writeInfo [])) t)"

definition isMonitored :: "(task, bool) op" where
  "isMonitored t = (if \<not> dirExists t (m_processControlPath t) then (t, Inr False)
     else op_then readInfo (\<lambda>t.
       if hasMonitorTicket t then
         (t, Inr (if m_monitor_pid t = 0 then False else processExists t (m_monitor_pid t)))
       else isRunning t) t)"

definition hasActiveMonitor :: "(task, bool) op" where
  "hasActiveMonitor t = (if \<not> dirExists t (m_processControlPath t) then (t, Inr False)
     else case readInfo t of
       (t, Inl TaskCleaning) \<Rightarrow> (t, Inr True)
     | (t, Inl e) \<Rightarrow> (t, Inl e)
     | (t, Inr data) \<Rightarrow> (t, Inr (hasMonitorTicket t \<and> m_monitor_pid t \<noteq> 0 \<and> processExists t (m_monitor_pid t))))"

definition setExtraInfo :: "execution_limits \<Rightarrow> bool \<Rightarrow> string \<Rightarrow> (task, unit) op" where
  "setExtraInfo el ri lang = op_then readInfo (op_then
     (op_modify (\<lambda>t. t\<lparr>m_limits := el, m_interactive := ri, m_lang := lang\<rparr>)) (writeInfo []))"

section \<open>Results\<close>

definition cut_mark :: "nat \<Rightarrow> nat \<Rightarrow> string" where
  "cut_mark limit n = lf # ''This output has been cut to '' @ itos (int (limit div 1024)) @ ''Kb, its original size was '' @
     itos (int (n div 1024)) @ ''Kb'' @ [lf]"

definition limitResultSize :: "nat \<Rightarrow> string \<Rightarrow> string" where
  "limitResultSize limit r = (if length r \<ge> limit then
       (let men = cut_mark limit (length r) in
        men @ substr r 0 (limit div 2) @ men @ drop (length r - limit div 2) r)
     else r)"

text \<open>
  The limit of the configuration as it is compared, cast to \<open>unsigned int\<close>. A negative limit is so never reached: an output would have
  to be of more than two gigabytes.
\<close>

definition request_limit :: "configuration \<Rightarrow> nat" where
  "request_limit conf = nat (cf_requestMaxSize conf mod 2 ^ 32)"

definition take_control_file :: "string \<Rightarrow> (task, string option) op" where
  "take_control_file name t = (let fileName = getProcessControlPath t name in
     if fileExists t fileName then
       op_bind (read_file fileName True) (\<lambda>text t.
         (delete_file fileName t, Inr (Some (limitResultSize (request_limit (w_conf t)) text)))) t
     else (t, Inr None))"

definition no_compilation :: string where
  "no_compilation = ''The compilation process did not generate an executable nor error message.''"

definition getResult :: "(task, string \<times> string \<times> bool) op" where
  "getResult t =
     (if m_security t \<noteq> sec_admin then
        (t, Inl (server_error ''Security: required admin ticket for request''))
      else if m_interactive t then (t, Inl (server_error ''Security: process in bad state''))
      else op_bind (take_control_file ''compilation'') (\<lambda>c. op_bind (take_control_file ''execution'') (\<lambda>e.
        let compilation = (case c of None \<Rightarrow> [] | Some text \<Rightarrow> text); executed = (e \<noteq> None) in
        op_return (if compilation = [] \<and> \<not> executed then no_compilation else compilation,
          (case e of None \<Rightarrow> [] | Some text \<Rightarrow> text), executed))) t)"

definition getCompilation :: "(task, string) op" where
  "getCompilation t =
     (if m_security t \<noteq> sec_monitor then
        (t, Inl (server_error ''Security: required monitor ticket for getCompilation''))
      else let fileName = getProcessControlPath t ''compilation'' in
        if fileExists t fileName then read_file fileName True t else (t, Inr []))"

definition setCompilationOutput :: "string \<Rightarrow> (task, unit) op" where
  "setCompilationOutput compilation = op_then readInfo (\<lambda>t.
     let fileName = getProcessControlPath t ''compilation'' in
     if fileExists t fileName then (t, Inl (StringExn ''Compilation already saved''))
     else write_file fileName compilation t)"

definition setExecutionOutput :: "string \<Rightarrow> bool \<Rightarrow> (task, unit) op" where
  "setExecutionOutput execution executed = op_then readInfo (\<lambda>t.
     if \<not> fileExists t (getProcessControlPath t ''compilation'') then
       (t, Inl (StringExn ''Execution not saved because compilation is missing''))
     else if executed then
       (let fileName = getProcessControlPath t ''execution'' in
        if fileExists t fileName then (t, Inl (StringExn ''Execution already saved''))
        else write_file fileName execution t)
     else (t, Inr ()))"

fun fresh_passthrough :: "nat \<Rightarrow> string \<Rightarrow> task \<Rightarrow> (task \<times> string result) option" where
  "fresh_passthrough fuel ticket t =
     (if fileExists t (cpath (controlPath t) ticket) then
        (case fuel of 0 \<Rightarrow> None
         | Suc fuel \<Rightarrow> (case two_parts t of
             (t, Inl x) \<Rightarrow> Some (t, Inl x)
           | (t, Inr ticket) \<Rightarrow> fresh_passthrough fuel ticket t))
      else Some (t, Inr ticket))"

declare fresh_passthrough.simps [simp del]

definition getHttpPassthroughTicket :: "nat \<Rightarrow> task \<Rightarrow> (task \<times> string result) option" where
  "getHttpPassthroughTicket fuel t = (case readInfo t of
       (t, Inl e) \<Rightarrow> Some (t, Inl e)
     | (t, Inr data) \<Rightarrow>
       if m_httpPassthroughticket t \<noteq> [] then Some (t, Inr (m_httpPassthroughticket t))
       else (case two_parts t of
           (t, Inl e) \<Rightarrow> Some (t, Inl e)
         | (t, Inr ticket) \<Rightarrow> map_option (\<lambda>(t, r). op_bind (op_lift r) (\<lambda>ticket.
             op_then (op_modify (\<lambda>t. t\<lparr>m_httpPassthroughticket := ticket\<rparr>))
            (op_then (store_ticket ticket sec_httppassthrough)
            (op_then (writeInfo []) (op_return ticket)))) t) (fresh_passthrough fuel ticket t)))"

definition getLocalWebServer :: "(task, string) op" where
  "getLocalWebServer = op_then readInfo (\<lambda>t.
     let fileName = cpath (getHomePath t) ''.vpl_localserveraddress'' in
     op_then (op_when (\<lambda>t. m_localwebserver t = [] \<and> fileExists t fileName)
        (op_bind (read_file fileName True) (\<lambda>text.
           op_then (op_modify (\<lambda>t. t\<lparr>m_localwebserver := text\<rparr>)) (writeInfo []))))
       (op_get m_localwebserver) t)"

definition home_script :: "string \<Rightarrow> bool" where
  "home_script name \<longleftrightarrow> length name > 4 \<and> drop (length name - 3) name = ''.sh''"

definition home_writeFile :: "string \<Rightarrow> string \<Rightarrow> (task, unit) op" where
  "home_writeFile name data t = write_file (cpath (getHomePath t) name)
     (if home_script name then removeCRs data else data) t"

definition home_readFile :: "string \<Rightarrow> (task, string) op" where
  "home_readFile name t = read_file (cpath (getHomePath t) name) False t"

definition home_deleteFile :: "string \<Rightarrow> task \<Rightarrow> task" where
  "home_deleteFile name t = delete_file (cpath (getHomePath t) name) t"

definition installScript :: "string \<Rightarrow> string \<Rightarrow> (task, bool) op" where
  "installScript to from t = (let source = ''/usr/sbin/vpl/'' @ from in
     if fileExists t source then
       op_bind (read_file source True) (\<lambda>code. op_then (home_writeFile to code) (op_return True)) t
     else (t, Inr False))"

section \<open>Memory\<close>

definition status_memory :: "string \<Rightarrow> int" where
  "status_memory status = (case vplregex_search reg_mem status 3 of
      None \<Rightarrow> 0
    | Some m \<Rightarrow> atol (m ! 1) * (if m ! 2 = ''mB'' then 1024 * 1024 else 1024))"

definition getMemoryUsedBasedOnProc :: "task \<Rightarrow> int" where
  "getMemoryUsedBasedOnProc t = (if \<not> w_proc_readable t then int_max else
     foldl (\<lambda>total (name, status).
       if itos (atoi name) \<noteq> name then total
       else (case vplregex_search reg_uid status 2 of
           Some m \<Rightarrow> if atoi (m ! 1) = to_int32 (m_prisoner t) then total + status_memory status else total
         | None \<Rightarrow> total)) 0 (w_proc t))"

definition getMemoryUsedBasedOnCgroup :: "task \<Rightarrow> int" where
  "getMemoryUsedBasedOnCgroup t = (case w_cgroup_usage t (getPrisonerName t) of Inr n \<Rightarrow> n | Inl e \<Rightarrow> -1)"

definition oom_value :: "(string \<times> int) list \<Rightarrow> string \<Rightarrow> int" where
  "oom_value m k = (case map_of m k of Some v \<Rightarrow> v | None \<Rightarrow> 0)"

definition isOutOfMemory :: "task \<Rightarrow> bool" where
  "isOutOfMemory t =
     (if maxmemory (m_limits t) \<le> 0 then False
      else let useCGroup = isCGroupAvailable t;
          oom = (useCGroup \<and> (case w_cgroup_oom t (getPrisonerName t) of
             Inl e \<Rightarrow> False
           | Inr m \<Rightarrow> oom_value m ''under_oom'' \<noteq> 0 \<or> oom_value m ''oom_kill'' > 0)) in
        if oom then True
        else let usedMemory = getMemoryUsedBasedOnProc t;
            usedMemory = (if useCGroup then max (getMemoryUsedBasedOnCgroup t) usedMemory else usedMemory) in
          maxmemory (m_limits t) < usedMemory)"

definition getMemoryLimit :: "task \<Rightarrow> string" where
  "getMemoryLimit t = (if maxmemory (m_limits t) = 0 then ''unlimited''
     else itos (c_div (maxmemory (m_limits t)) (1024 * 1024)) @ ''MiB'')"

section \<open>Zombie tasks\<close>

definition reguserdir :: vplregex where
  "reguserdir = vplregex_extended (seqs [Bol, Chr (CHR ''p''), Digits, Eol])"

definition getPrisonersFromDir :: "task \<Rightarrow> string \<Rightarrow> string list" where
  "getPrisonersFromDir t dir = (if \<not> dirExists t dir then [] else
     filter (\<lambda>name. vplregex_search reguserdir name 1 \<noteq> None) (entry_names dir (w_dirs t)))"

text \<open>The result tells whether the files were cleaned.\<close>

definition cleanZombiePrisonerFiles :: "string \<Rightarrow> int \<Rightarrow> bool \<Rightarrow> bool \<Rightarrow> task \<Rightarrow> task \<times> bool" where
  "cleanZombiePrisonerFiles pdir maxAge checkControlDir requireNoHome t = (let
       phome = jailPath t @ ''/home/'' @ pdir;
       configDir = cpath (controlPath t) pdir;
       young = (\<lambda>d. \<not> dirExists t d \<or> w_mtime t d + maxAge \<ge> w_now t) in
     if checkControlDir then
       (if young configDir \<or> (requireNoHome \<and> dirExists t phome) then (t, False)
        else (cleanPrisonerFilesLocked pdir t, True))
     else
       (if fileExists t (cpath configDir ''config'') \<or> young phome then (t, False)
        else (cleanPrisonerFilesLocked pdir t, True)))"

definition check_task :: "string \<Rightarrow> task \<Rightarrow> task" where
  "check_task name t = (let configDir = cpath (controlPath t) name in
     if \<not> dirExists t configDir \<or> w_mtime t configDir + jail_monitorstart_timeout \<ge> w_now t then t
     else if \<not> dirExists t (cpath (jailPath t @ ''/home'') name) then
       fst (cleanZombiePrisonerFiles name jail_monitorstart_timeout True True t)
     else fst (op_catch
       (op_bind (load_config (cpath configDir ''config'') []) (\<lambda>data.
          op_then (processMonitor1 (cd_index data ''ADMINTICKET'')) (op_then getState (op_return ()))))
       (\<lambda>e t. (fst (cleanZombiePrisonerFiles name
            (maxtime (cf_jailLimits (w_conf t)) + jail_harvest_timeout) True False t), Inr ())) t))"

definition check_home :: "string \<Rightarrow> task \<Rightarrow> task" where
  "check_home name t =
     (if dirExists t (cpath (jailPath t @ ''/home'') name) \<and>
         \<not> fileExists t (cpath (cpath (controlPath t) name) ''config'') then
        fst (cleanZombiePrisonerFiles name (jail_monitorstart_timeout * 2) False False t)
      else t)"

definition cleanZombieTasks :: "task \<Rightarrow> task" where
  "cleanZombieTasks t = (let
       tasks = getPrisonersFromDir t (controlPath t);
       homes = (if cf_logLevel (w_conf t) \<le> 7 then getPrisonersFromDir t (jailPath t @ ''/home'') else []);
       t = fold check_task tasks t
     in fold check_home homes t)"

end
