(* ===== verification/Task_Properties.thy ===== *)
theory Task_Properties
  imports Process_Monitor
begin

text \<open>
  What the operations of \<open>processMonitor\<close> guarantee: the state on disk is the state of every process
  that opens the task, tickets are used once, two tasks never share a prisoner, a cleaned task leaves
  nothing behind, results are delivered once, and the state reported is the state of the processes.
\<close>

section \<open>Files\<close>

lemma map_of_put [simp]: "map_of (w_files (put_file n d t)) k = (if k = n then Some d else map_of (w_files t) k)"
  by (simp add: put_file_def update_conv')

lemma map_of_drop [simp]: "map_of (w_files (drop_file n t)) k = (if k = n then None else map_of (w_files t) k)"
  by (simp add: drop_file_def delete_conv')

lemma fileExists_put: "fileExists (put_file n d t) k \<longleftrightarrow> c_str k = n \<or> fileExists t k"
  by (simp add: fileExists_def)

lemma fileExists_drop: "fileExists (drop_file n t) k \<longleftrightarrow> c_str k \<noteq> n \<and> fileExists t k"
  by (simp add: fileExists_def)

lemma put_file_same [simp]:
  "w_dirs (put_file n d t) = w_dirs t" "w_conf (put_file n d t) = w_conf t" "w_io (put_file n d t) = w_io t"
  "w_fails (put_file n d t) = w_fails t" "m_processControlPath (put_file n d t) = m_processControlPath t"
  "m_security (put_file n d t) = m_security t" "m_interactive (put_file n d t) = m_interactive t"
  "m_prisoner (put_file n d t) = m_prisoner t" "m_monitor_pid (put_file n d t) = m_monitor_pid t"
  by (simp_all add: put_file_def)

lemma drop_file_same [simp]:
  "w_dirs (drop_file n t) = w_dirs t" "w_conf (drop_file n t) = w_conf t" "w_io (drop_file n t) = w_io t"
  "w_fails (drop_file n t) = w_fails t" "m_processControlPath (drop_file n t) = m_processControlPath t"
  "m_security (drop_file n t) = m_security t" "m_interactive (drop_file n t) = m_interactive t"
  "m_prisoner (drop_file n t) = m_prisoner t"
  by (simp_all add: drop_file_def)

lemma cpath_inj: "path_sep \<notin> set a \<Longrightarrow> path_sep \<notin> set b \<Longrightarrow> cpath d a = cpath e b \<Longrightarrow> d = e \<and> a = b"
proof -
  assume a: "path_sep \<notin> set a" and b: "path_sep \<notin> set b" and e: "cpath d a = cpath e b"
  have s: "takeWhile (\<lambda>c. c \<noteq> path_sep) (rev (cpath x n)) = rev n" if "path_sep \<notin> set n" for x n
    using that by (simp add: cpath_def) (rule takeWhile_append_stop, auto)
  have ab: "a = b" using s [OF a, of d] s [OF b, of e] e by simp
  with e show "d = e \<and> a = b" by (simp add: cpath_def)
qed

lemma getDirectory_cpath: "path_sep \<notin> set n \<Longrightarrow> getDirectory (cpath d n) = d"
proof -
  assume n: "path_sep \<notin> set n"
  have "dropWhile (\<lambda>c. c \<noteq> path_sep) (rev n @ path_sep # rev d) = path_sep # rev d"
    using n by (intro dropWhile_append_stop) auto
  then show ?thesis by (simp add: getDirectory_def cpath_def)
qed

lemma nul_path_sep [simp]: "path_sep \<noteq> nul" "nul \<noteq> path_sep"
  by (simp_all add: path_sep_def nul_def)

lemma c_str_cpath: "nul \<notin> set d \<Longrightarrow> nul \<notin> set n \<Longrightarrow> c_str (cpath d n) = cpath d n"
  by (rule c_str_id) (simp add: cpath_def)

lemma not_sep_digits: "\<forall>c \<in> set s. is_digit c \<Longrightarrow> path_sep \<notin> set s"
  by (auto simp: is_digit_def path_sep_def)

section \<open>The state on disk\<close>

lemma set_cd_set: "set (cd_set m k v) \<subseteq> insert (k, v) (set m)"
  by (induction m k v rule: cd_set.induct) auto

lemma storable_cd_set: "storable d \<Longrightarrow> plain_key k \<Longrightarrow> plain_value v \<Longrightarrow> storable (cd_set d k v)"
  using set_cd_set [of d k v] by (auto simp: storable_def intro: cd_sorted_set)

lemma storable_set_pairs:
  "storable d \<Longrightarrow> \<forall>p \<in> set ps. plain_key (fst p) \<and> plain_value (snd p) \<Longrightarrow> storable (set_pairs ps d)"
  by (induction ps arbitrary: d) (auto simp: set_pairs_def storable_cd_set)

lemma cd_get_set_pairs:
  "distinct (map fst ps) \<Longrightarrow>
    cd_get (set_pairs ps d) k = (case map_of ps k of Some v \<Rightarrow> Some v | None \<Rightarrow> cd_get d k)"
proof (induction ps arbitrary: d)
  case (Cons p ps)
  obtain a v where p: "p = (a, v)" by force
  have "set_pairs (p # ps) d = set_pairs ps (cd_set d a v)" by (simp add: set_pairs_def p)
  moreover have "map_of ps a = None" using Cons.prems p by (auto simp: map_of_eq_None_iff)
  ultimately show ?case using Cons by (auto simp: p split: option.splits)
qed (simp add: set_pairs_def)

lemma storable_Nil: "storable []"
  by (simp add: storable_def cd_sorted_def)

lemma plain_value_chars:
  assumes "set v \<inter> {lf, nul, hash, eqsign, blank, tab, squote, dquote} = {}"
  shows "plain_value v"
proof -
  have "trimAndRemoveQuotes v = v"
  proof (cases v)
    case Nil
    then show ?thesis by (simp add: trimAndRemoveQuotes_def strip_quote_def Let_def)
  next
    case (Cons c w)
    have l: "last v \<in> set v" using Cons by simp
    have h: "c \<in> set v" "c \<noteq> blank" "c \<noteq> squote" "c \<noteq> dquote" "last v \<noteq> blank"
      using assms Cons l by auto
    have d1: "dropWhile (\<lambda>c. c = blank) v = v" using Cons h by simp
    have "rev v \<noteq> []" "hd (rev v) \<noteq> blank" using Cons h(5) hd_rev [of v] by auto
    then have d2: "dropWhile (\<lambda>c. c = blank) (rev v) = rev v"
      by (cases "rev v") auto
    show ?thesis using h d1 d2 Cons
      by (simp add: trimAndRemoveQuotes_def strip_quote_def Let_def)
  qed
  moreover have "v \<noteq> [] \<longrightarrow> \<not> is_blank_tab (hd v)"
    using assms hd_in_set [of v] unfolding is_blank_tab_def by (metis disjoint_iff insert_iff)
  ultimately show ?thesis using assms by (auto simp: plain_value_def)
qed

lemma itos_chars: "c \<in> set (itos v) \<Longrightarrow> is_digit c \<or> c = CHR ''-''"
  using nat_digits_all_digits by (auto simp: itos_def split: if_splits)

lemma digit_marks:
  assumes "is_digit c \<or> c = CHR ''-''"
  shows "c \<notin> {lf, nul, hash, eqsign, blank, tab, squote, dquote}"
  using assms by (auto simp: is_digit_def char_names hash_def eqsign_def)

lemma plain_itos [simp]: "plain_value (itos v)"
  by (rule plain_value_chars) (use itos_chars digit_marks in blast)

lemma plain_bool [simp]: "plain_value (bool_text b)"
  by (rule plain_value_chars) (auto simp: bool_text_def char_names hash_def eqsign_def)

lemma info_keys_plain: "\<forall>p \<in> set (info_pairs t). plain_key (fst p)"
proof -
  have "\<forall>k \<in> set [''MAXTIME'', ''MAXFILESIZE'', ''MAXMEMORY'', ''MAXPROCESSES'', ''ADMINTICKET'', ''EXECUTIONTICKET'',
      ''MONITORTICKET'', ''HTTPPASSTHROUGHTTICKET'', ''LOCALWEBSERVER'', ''CLEANING'', ''STARTTIME'', ''INTERACTIVE'',
      ''LANG'', ''COMPILER_PID'', ''RUNNER_PID'', ''MONITOR_PID'']. plain_key k"
    by code_simp
  then show ?thesis by (simp add: info_pairs_def)
qed

lemma info_keys_distinct: "distinct (map fst (info_pairs t))"
  by (simp add: info_pairs_def)

text \<open>The values the file can carry.\<close>

definition int32_ok :: "int \<Rightarrow> bool" where
  "int32_ok v \<longleftrightarrow> - 2147483648 \<le> v \<and> v \<le> int_max"

definition int64_ok :: "int \<Rightarrow> bool" where
  "int64_ok v \<longleftrightarrow> llong_min \<le> v \<and> v \<le> llong_max"

definition info_ok :: "task \<Rightarrow> bool" where
  "info_ok t \<longleftrightarrow> (\<forall>v \<in> {m_adminticket t, m_executionticket t, m_monitorticket t, m_httpPassthroughticket t,
       m_localwebserver t, m_lang t}. plain_value v) \<and>
     (\<forall>v \<in> {maxtime (m_limits t), maxprocesses (m_limits t), m_startTime t, m_compiler_pid t, m_runner_pid t,
       m_monitor_pid t}. int32_ok v) \<and>
     int64_ok (maxfilesize (m_limits t)) \<and> int64_ok (maxmemory (m_limits t))"

definition disk_ok :: "task \<Rightarrow> bool" where
  "disk_ok t \<longleftrightarrow> nul \<notin> set (m_processControlPath t) \<and> dirExists t (m_processControlPath t) \<and>
     w_io t (getProcessConfigFile t) = NoFailure \<and>
     (case map_of (w_files t) (getProcessConfigFile t) of None \<Rightarrow> True
      | Some text \<Rightarrow> (\<exists>d. storable d \<and> text = config_text d))"

text \<open>The members that \<open>readInfo\<close> sets, taken from one object to another.\<close>

definition copy_info :: "task \<Rightarrow> task \<Rightarrow> task" where
  "copy_info t s = s\<lparr>m_limits := m_limits t, m_adminticket := m_adminticket t,
     m_executionticket := m_executionticket t, m_monitorticket := m_monitorticket t,
     m_httpPassthroughticket := m_httpPassthroughticket t, m_localwebserver := m_localwebserver t,
     m_cleaning := m_cleaning t, m_startTime := m_startTime t, m_interactive := m_interactive t,
     m_lang := m_lang t, m_compiler_pid := m_compiler_pid t, m_runner_pid := m_runner_pid t,
     m_monitor_pid := m_monitor_pid t\<rparr>"

definition holds_info :: "config_data \<Rightarrow> task \<Rightarrow> bool" where
  "holds_info data t \<longleftrightarrow> (\<forall>p \<in> set (info_pairs t). cd_get data (fst p) = Some (snd p))"

lemma info_of_holds:
  assumes "holds_info data t" "info_ok t"
  shows "info_of data s = copy_info t s"
proof -
  have g: "cd_index data ''MAXTIME'' = itos (maxtime (m_limits t))"
    "cd_index data ''MAXFILESIZE'' = itos (maxfilesize (m_limits t))"
    "cd_index data ''MAXMEMORY'' = itos (maxmemory (m_limits t))"
    "cd_index data ''MAXPROCESSES'' = itos (maxprocesses (m_limits t))"
    "cd_index data ''ADMINTICKET'' = m_adminticket t" "cd_index data ''EXECUTIONTICKET'' = m_executionticket t"
    "cd_index data ''MONITORTICKET'' = m_monitorticket t"
    "cd_index data ''HTTPPASSTHROUGHTTICKET'' = m_httpPassthroughticket t"
    "cd_index data ''LOCALWEBSERVER'' = m_localwebserver t" "cd_index data ''CLEANING'' = bool_text (m_cleaning t)"
    "cd_index data ''STARTTIME'' = itos (m_startTime t)" "cd_index data ''INTERACTIVE'' = bool_text (m_interactive t)"
    "cd_index data ''LANG'' = m_lang t" "cd_index data ''COMPILER_PID'' = itos (m_compiler_pid t)"
    "cd_index data ''RUNNER_PID'' = itos (m_runner_pid t)" "cd_index data ''MONITOR_PID'' = itos (m_monitor_pid t)"
    using assms(1) by (simp_all add: holds_info_def info_pairs_def cd_index_def)
  have b: "c_atoi (bool_text x) \<noteq> 0 \<longleftrightarrow> x" "bool_text x = ''1'' \<longleftrightarrow> x" for x
  proof -
    have "c_atoi ''1'' = 1" "c_atoi ''0'' = 0" by code_simp+
    then show "c_atoi (bool_text x) \<noteq> 0 \<longleftrightarrow> x" "bool_text x = ''1'' \<longleftrightarrow> x" by (simp_all add: bool_text_def)
  qed
  have n: "c_atoi (itos v) = v" if "int32_ok v" for v using that c_atoi_itos by (simp add: int32_ok_def)
  have l: "strtoll (itos v) = v" if "int64_ok v" for v using that strtoll_itos by (simp add: int64_ok_def)
  show ?thesis
    using assms(2) unfolding info_ok_def info_of_def copy_info_def Let_def g b
    by (simp add: n l b)
qed

lemma load_written:
  assumes "storable data" "map_of (w_files s) (c_str n) = Some (config_text data)"
  shows "load_config n [] s = (s, Inr data)"
  using assms by (simp add: load_config_def readConfiguration_def read_written add_defaults_def)

lemma config_no_sep: "path_sep \<notin> set ''config''" "nul \<notin> set ''config''"
  by (simp_all add: path_sep_def nul_def)

lemma config_file_plain: "disk_ok t \<Longrightarrow> c_str (getProcessConfigFile t) = getProcessConfigFile t"
  unfolding getProcessConfigFile_def getProcessControlPath_def disk_ok_def
  using config_no_sep by (intro c_str_cpath) auto

lemma writeInfo_ok:
  assumes "disk_ok t" "info_ok t"
  obtains data where "storable data" "holds_info data t"
    "writeInfo [] t = (put_file (getProcessConfigFile t) (config_text data) t, Inr ())"
proof -
  let ?f = "getProcessConfigFile t"
  have f: "c_str ?f = ?f" using assms(1) by (rule config_file_plain)
  obtain old where o: "storable old"
      "(if fileExists t ?f then load_config ?f [] t else op_return [] t) = (t, Inr old)"
  proof (cases "map_of (w_files t) ?f")
    case None
    then show thesis using that [OF storable_Nil] f by (simp add: fileExists_def op_run)
  next
    case (Some old)
    then obtain d where "storable d" "old = config_text d" using assms(1) by (auto simp: disk_ok_def)
    then show thesis using that [of d] Some f by (simp add: fileExists_def load_written)
  qed
  let ?data = "set_pairs (info_pairs t) old"
  have pv: "\<forall>p \<in> set (info_pairs t). plain_value (snd p)"
    using assms(2) by (simp add: info_pairs_def info_ok_def)
  have st: "storable ?data"
    using o(1) pv info_keys_plain by (intro storable_set_pairs) auto
  have "holds_info ?data t"
    unfolding holds_info_def cd_get_set_pairs [OF info_keys_distinct]
    by (auto simp: map_of_is_SomeI [OF info_keys_distinct])
  moreover have "store_config ?f ?data t = (put_file ?f (config_text ?data) t, Inr ())"
  proof -
    have "getDirectory ?f = m_processControlPath t"
      unfolding getProcessConfigFile_def getProcessControlPath_def by (rule getDirectory_cpath) (rule config_no_sep)
    then show ?thesis using assms(1) by (simp add: store_config_def disk_ok_def writeConfiguration_def)
  qed
  then have "writeInfo [] t = (put_file ?f (config_text ?data) t, Inr ())"
    using o(2) by (simp add: writeInfo_def op_bind_def Let_def split: if_splits)
  ultimately show thesis using that st by blast
qed

text \<open>Whoever opens the task then sees the members just written.\<close>

lemma readInfo_written:
  assumes "storable data" "holds_info data t" "info_ok t"
    "map_of (w_files s) (getProcessConfigFile s) = Some (config_text data)" "nul \<notin> set (m_processControlPath s)"
  shows "readInfo s = (copy_info t s, if m_cleaning t then Inl TaskCleaning else Inr data)"
proof -
  have "c_str (getProcessConfigFile s) = getProcessConfigFile s"
    unfolding getProcessConfigFile_def getProcessControlPath_def
    using assms(5) config_no_sep by (intro c_str_cpath) auto
  then have "load_config (getProcessConfigFile s) [] s = (s, Inr data)"
    using assms by (intro load_written) simp_all
  then show ?thesis
    using info_of_holds [OF assms(2,3), of s]
    by (simp add: readInfo_def op_run op_bind_def op_then_def copy_info_def)
qed

text \<open>
  C4: what a process writes as the state of a task is what every other process that opens the same task
  reads, member by member; and once the task is marked as being cleaned every reader gets the
  exception that says so.
\<close>

theorem task_state_round_trip:
  assumes "disk_ok t" "info_ok t"
  shows "\<exists>t' data. writeInfo [] t = (t', Inr ()) \<and>
    (\<forall>s. m_processControlPath s = m_processControlPath t \<and> w_files s = w_files t' \<longrightarrow>
      readInfo s = (copy_info t s, if m_cleaning t then Inl TaskCleaning else Inr data))"
proof -
  obtain data where d: "storable data" "holds_info data t"
      "writeInfo [] t = (put_file (getProcessConfigFile t) (config_text data) t, Inr ())"
    using writeInfo_ok [OF assms] .
  have "nul \<notin> set (m_processControlPath t)" using assms(1) by (simp add: disk_ok_def)
  then show ?thesis
    using d readInfo_written [OF d(1,2) assms(2)]
    by (intro exI [of _ "put_file (getProcessConfigFile t) (config_text data) t"] exI [of _ data])
      (simp add: getProcessConfigFile_def getProcessControlPath_def)
qed

section \<open>Tickets\<close>

lemma ticket_reg_digits: "vplregex_search ticket_reg s n \<noteq> None \<Longrightarrow> \<forall>c \<in> set (c_str s). is_digit c"
proof -
  assume "vplregex_search ticket_reg s n \<noteq> None"
  then obtain i j c where "rx_run ticket_reg (c_str s) (rx_pattern ticket_reg) i Map.empty j c"
    unfolding vplregex_search_None by blast
  then have "\<forall>k < length (c_str s). is_digit (c_str s ! k)"
    by (auto simp: ticket_reg_def Digits_def rx_run_plus_Cls simp del: rx_run.simps(9))
  then show ?thesis by (simp add: all_set_conv_all_nth)
qed

text \<open>What holds once a ticket file \<open>F\<close> of the control directory is gone.\<close>

definition ticket_gone :: "configuration \<Rightarrow> string \<Rightarrow> task \<Rightarrow> bool" where
  "ticket_gone conf F t \<longleftrightarrow> w_conf t = conf \<and> map_of (w_files t) F = None \<and> getProcessConfigFile t \<noteq> F"

lemma info_of_same [simp]:
  "w_conf (info_of d t) = w_conf t" "w_files (info_of d t) = w_files t" "w_dirs (info_of d t) = w_dirs t"
  "m_processControlPath (info_of d t) = m_processControlPath t" "m_security (info_of d t) = m_security t"
  "m_prisoner (info_of d t) = m_prisoner t" "w_now (info_of d t) = w_now t" "w_running (info_of d t) = w_running t"
  "w_alive (info_of d t) = w_alive t" "w_fails (info_of d t) = w_fails t" "w_io (info_of d t) = w_io t"
  by (simp_all add: info_of_def Let_def)

lemma config_file_same [simp]:
  "getProcessConfigFile (info_of d t) = getProcessConfigFile t"
  "getProcessConfigFile (put_file n x t) = getProcessConfigFile t"
  "getProcessConfigFile (drop_file n t) = getProcessConfigFile t"
  by (simp_all add: getProcessConfigFile_def getProcessControlPath_def)

text \<open>What the primitive steps can change.\<close>

lemma store_config_cases:
  obtains r where "store_config n d t = (t, r)" | x r where "store_config n d t = (put_file n x t, r)"
proof (cases "writeConfiguration (if dirExists t (getDirectory n) then w_io t n else MkstempFails) (map_of (w_files t) n) n d")
  case (Pair f r)
  then show thesis using that by (cases f) (auto simp: store_config_def Let_def)
qed

lemma writeInfo_cases:
  obtains r where "writeInfo d t = (t, r)" | x r where "writeInfo d t = (put_file (getProcessConfigFile t) x t, r)"
proof -
  let ?f = "getProcessConfigFile t"
  obtain q where q: "(if fileExists t ?f then load_config ?f d else op_return d) t = (t, q)"
    by (cases "fileExists t ?f") (auto simp: op_return_def load_config_def)
  show thesis
  proof (cases q)
    case (Inl e)
    then show thesis using that(1) q by (simp add: writeInfo_def op_bind_def Let_def)
  next
    case (Inr data)
    then have "writeInfo d t = store_config ?f (set_pairs (info_pairs t) data) t"
      using q by (simp add: writeInfo_def op_bind_def Let_def)
    then show thesis using that store_config_cases [of ?f "set_pairs (info_pairs t) data" t] by metis
  qed
qed

lemma readInfo_cases:
  obtains e where "readInfo t = (t, Inl e)"
  | data where "readInfo t = (info_of data t, if m_cleaning (info_of data t) then Inl TaskCleaning else Inr data)"
proof (cases "snd (load_config (getProcessConfigFile t) [] t)")
  case (Inl e)
  then show thesis using that(1)
    by (simp add: readInfo_def op_bind_def load_config_def)
next
  case (Inr data)
  then have "readInfo t = (info_of data t, if m_cleaning (info_of data t) then Inl TaskCleaning else Inr data)"
    by (simp add: readInfo_def op_bind_def op_then_def op_modify_def load_config_def)
  then show thesis by (rule that(2))
qed

lemma security_kept:
  "m_security (fst (readInfo t)) = m_security t" "m_security (fst (writeInfo d t)) = m_security t"
  by (rule readInfo_cases [of t], simp_all, rule writeInfo_cases [of d t], simp_all)

lemma gone_load [op_keep]: "op_keeps (ticket_gone conf F) (load_config n d)"
  by (simp add: op_keeps_def load_config_def)

lemma gone_readInfo [op_keep]: "op_keeps (ticket_gone conf F) readInfo"
  unfolding op_keeps_def
proof (intro allI impI)
  fix s assume g: "ticket_gone conf F s"
  show "ticket_gone conf F (fst (readInfo s))"
    by (rule readInfo_cases [of s]) (use g in \<open>simp_all add: ticket_gone_def\<close>)
qed

lemma gone_writeInfo: "ticket_gone conf F t \<Longrightarrow> ticket_gone conf F (fst (writeInfo d t))"
  by (rule writeInfo_cases [of d t]) (auto simp: ticket_gone_def)

lemma gone_monitorize [op_keep]: "op_keeps (ticket_gone conf F) monitorize"
proof -
  have "ticket_gone conf F (t\<lparr>m_monitor_pid := p\<rparr>)" if "ticket_gone conf F t" for t p
    using that by (simp add: ticket_gone_def getProcessConfigFile_def getProcessControlPath_def)
  then have "op_keeps (ticket_gone conf F) (\<lambda>t. if m_monitor_pid t \<noteq> 0
      then (t, Inl (StringExn ''Process already monitorized'')) else writeInfo [] (t\<lparr>m_monitor_pid := w_pid t\<rparr>))"
    using gone_writeInfo by (auto simp: op_keeps_def)
  from op_keeps_then [OF gone_readInfo this] show ?thesis
    unfolding op_keeps_def monitorize_def by auto
qed

lemma op_all_Cons_InrD:
  "op_all (m # ms) s = (s', Inr y) \<Longrightarrow> \<exists>t x. m s = (t, Inr x) \<and> op_all ms t = (s', Inr y)"
  by (auto dest: op_then_InrD)

lemma setPrisonerID_ok:
  assumes "setPrisonerID u t = (t', Inr x)"
  shows "t' = t\<lparr>m_prisoner := u, m_processControlPath := cpath (controlPath t) (CHR ''p'' # itos u)\<rparr>"
    and "isPrisonerUID (w_conf t) u" and "u \<noteq> getHomeDirOwnerUid (w_conf t)"
  using assms by (auto simp: setPrisonerID_def setProcessControlPath_def controlPath_def getPrisonerName_def
      isPrisonerUID_def split: if_splits)

lemma ticket_consumed:
  assumes run: "processMonitor1 ticket t = (t1, Inr ())"
    and one: "m_security t1 = sec_monitor \<or> m_security t1 = sec_execute"
    and F: "F = cpath (controlPath t) (trimAndRemoveQuotes ticket)" "correctPath F" "\<not> w_fails t Unlink F"
  shows "ticket_gone (w_conf t) F t1"
proof -
  let ?s = "trimAndRemoveQuotes ticket"
  let ?n = "new_object t"
  have same: "controlPath ?n = controlPath t" "w_conf ?n = w_conf t" "w_fails ?n = w_fails t"
    by (simp_all add: new_object_def controlPath_def)
  obtain found where found: "vplregex_search ticket_reg ?s 1 = Some found"
    using run by (auto simp: processMonitor1_def op_then_def op_bind_def op_modify_def Let_def split: option.splits)
  have F0: "nul \<notin> set F" by (rule correctPath_no_nul [OF F(2)])
  then have n0: "nul \<notin> set ?s" by (auto simp: F(1) cpath_def)
  then have dg: "\<forall>c \<in> set ?s. is_digit c"
    using ticket_reg_digits [of ?s 1] found by (simp add: c_str_id)
  have "op_bind (load_config F [(''SECURITY'', ''5''), (''USER_ID'', ''0'')]) (use_ticket F) ?n = (t1, Inr ())"
    using run found same
    by (auto simp: processMonitor1_def op_then_def op_bind_def op_modify_def Let_def F(1) split: if_splits)
  then obtain data where u: "use_ticket F data ?n = (t1, Inr ())"
    by (auto simp: op_bind_def load_config_def split: sum.splits)
  let ?sec = "security_of (c_atoi (cd_index data ''SECURITY''))"
  let ?uid = "to_uid (c_atoi (cd_index data ''USER_ID''))"
  define t2 where "t2 = ?n\<lparr>m_prisoner := ?uid, m_processControlPath := cpath (controlPath t) (CHR ''p'' # itos ?uid),
      m_security := ?sec\<rparr>"
  define t3 where "t3 = (if ?sec = sec_monitor \<or> ?sec = sec_execute then delete_file F t2 else t2)"
  from u have "op_all [setPrisonerID ?uid, consume_ticket F ?sec, open_info,
      op_when (\<lambda>t. m_security t = sec_monitor) monitorize] ?n = (t1, Inr ())"
    by (auto simp: use_ticket_def op_throw_def split: if_splits)
  from op_all_Cons_InrD [OF this] obtain a x where a: "setPrisonerID ?uid ?n = (a, Inr x)" and
    b: "op_all [consume_ticket F ?sec, open_info, op_when (\<lambda>t. m_security t = sec_monitor) monitorize] a = (t1, Inr ())"
    by blast
  have "a\<lparr>m_security := ?sec\<rparr> = t2"
    using setPrisonerID_ok(1) [OF a] by (simp add: t2_def same)
  then have "consume_ticket F ?sec a = (t3, Inr ())" by (simp add: consume_ticket_def t3_def)
  with op_all_Cons_InrD [OF b]
  have "op_all [open_info, op_when (\<lambda>t. m_security t = sec_monitor) monitorize] t3 = (t1, Inr ())" by auto
  from op_all_Cons_InrD [OF this] obtain t4 y where t4: "open_info t3 = (t4, Inr y)"
      and "op_all [op_when (\<lambda>t. m_security t = sec_monitor) monitorize] t4 = (t1, Inr ())" by blast
  from op_all_Cons_InrD [OF this(2)] have t5: "op_when (\<lambda>t. m_security t = sec_monitor) monitorize t4 = (t1, Inr ())"
    by (auto simp: op_return_def)
  have sec: "?sec = sec_monitor \<or> ?sec = sec_execute"
  proof -
    have k: "op_keeps (\<lambda>s. m_security s = v) readInfo" "op_keeps (\<lambda>s. m_security s = v) (writeInfo [])" for v
      by (simp_all add: op_keeps_def security_kept)
    have "op_keeps (\<lambda>s. m_security s = v) (\<lambda>t. if m_monitor_pid t \<noteq> 0
        then (t, Inl (StringExn ''Process already monitorized'')) else writeInfo [] (t\<lparr>m_monitor_pid := w_pid t\<rparr>))" for v
      by (simp add: op_keeps_def security_kept)
    from op_keeps_then [OF k(1) this] have "op_keeps (\<lambda>s. m_security s = v) monitorize" for v
      unfolding op_keeps_def monitorize_def by auto
    then have "op_keeps (\<lambda>s. m_security s = m_security t4) (op_when (\<lambda>t. m_security t = sec_monitor) monitorize)"
      by (intro op_keep)
    then have "m_security (fst (op_when (\<lambda>t. m_security t = sec_monitor) monitorize t4)) = m_security t4"
      unfolding op_keeps_def by blast
    then have "m_security t1 = m_security t4" by (simp add: t5)
    moreover have "op_keeps (\<lambda>s. m_security s = m_security t3) open_info"
      using op_keeps_then [OF k(1) op_keeps_basic(1) [of _ "()"], of "m_security t3"]
      by (auto simp: op_keeps_def open_info_def)
    then have "m_security (fst (open_info t3)) = m_security t3" unfolding op_keeps_def by blast
    then have "m_security t4 = m_security t3" by (simp add: t4)
    moreover have "m_security t3 = ?sec"
      by (simp add: t3_def t2_def delete_file_def)
    ultimately show ?thesis using one by simp
  qed
  have "getProcessConfigFile t2 \<noteq> F"
  proof
    assume "getProcessConfigFile t2 = F"
    then have "''config'' = ?s"
      using cpath_inj [OF config_no_sep(1) not_sep_digits [OF dg]]
      by (simp add: F(1) getProcessConfigFile_def getProcessControlPath_def)
    then have "is_digit (CHR ''c'')" using dg by (metis list.set_intros(1))
    then show False by (simp add: is_digit_def)
  qed
  then have "ticket_gone (w_conf t) F t3"
    using sec F same by (auto simp: t3_def delete_file_def ticket_gone_def t2_def getProcessConfigFile_def getProcessControlPath_def)
  moreover have "op_keeps (ticket_gone (w_conf t) F) open_info"
    using op_keeps_then [OF gone_readInfo op_keeps_basic(1) [of _ "()"], of "w_conf t" F]
    by (auto simp: op_keeps_def open_info_def)
  moreover have "op_keeps (ticket_gone (w_conf t) F) (op_when (\<lambda>t. m_security t = sec_monitor) monitorize)"
    by (intro op_keep)
  ultimately show ?thesis using t4 t5 unfolding op_keeps_def by (metis fst_conv)
qed

text \<open>
  C1: a monitor ticket or an execution ticket opens its task once: when it has, any process that
  presents it again to the same control directory is told that there is no such ticket, whatever it
  does with spaces or quotes around it.
\<close>

theorem ticket_used_once:
  assumes "processMonitor1 ticket t = (t1, Inr ())"
    and "m_security t1 = sec_monitor \<or> m_security t1 = sec_execute"
    and "correctPath (cpath (controlPath t) (trimAndRemoveQuotes ticket))"
    and "\<not> w_fails t Unlink (cpath (controlPath t) (trimAndRemoveQuotes ticket))"
    and "w_files s = w_files t1" "w_conf s = w_conf t1" "trimAndRemoveQuotes again = trimAndRemoveQuotes ticket"
  shows "snd (processMonitor1 again s) = Inl (HttpExn NotFoundCode ''Ticket not found'' [])"
proof -
  let ?F = "cpath (controlPath t) (trimAndRemoveQuotes ticket)"
  have g: "ticket_gone (w_conf t) ?F t1" using ticket_consumed [OF assms(1,2) refl assms(3,4)] .
  have c: "c_str ?F = ?F" using correctPath_no_nul [OF assms(3)] by (rule c_str_id)
  have e: "controlPath (new_object s) = controlPath t" using g assms(6)
    by (simp add: controlPath_def new_object_def ticket_gone_def)
  have n: "\<not> fileExists (new_object s) ?F"
    using g c assms(5) by (simp add: fileExists_def new_object_def ticket_gone_def)
  obtain found where "vplregex_search ticket_reg (trimAndRemoveQuotes ticket) 1 = Some found"
    using assms(1) by (auto simp: processMonitor1_def op_then_def op_bind_def op_modify_def Let_def split: option.splits)
  then show ?thesis using e n assms(7)
    by (simp add: processMonitor1_def op_then_def op_bind_def op_modify_def Let_def)
qed

section \<open>Prisoners\<close>

lemma at_or_below_removable: "removable t dir owner force p \<Longrightarrow> at_or_below dir p"
  by (simp add: removable_def)

lemma removeDir_keeps:
  "q \<in> set (w_dirs t) \<Longrightarrow> \<not> at_or_below dir q \<Longrightarrow> q \<in> set (w_dirs (removeDir dir owner force t))"
  by (auto simp: removeDir_def dest: at_or_below_removable)

lemma removeDir_same [simp]:
  "w_conf (removeDir d u f t) = w_conf t" "m_prisoner (removeDir d u f t) = m_prisoner t"
  "m_processControlPath (removeDir d u f t) = m_processControlPath t" "w_proc (removeDir d u f t) = w_proc t"
  "m_homePath (removeDir d u f t) = m_homePath t"
  by (simp_all add: removeDir_def)

lemma at_or_below_up: "at_or_below (d @ path_sep # n) p \<Longrightarrow> at_or_below d p"
  by (auto simp: at_or_below_def is_prefix_append)

text \<open>
  The control directories lie outside the directories that prisoners write to, and the names the
  configuration gives hold no zero byte.
\<close>

definition paths_apart :: "configuration \<Rightarrow> bool" where
  "paths_apart conf \<longleftrightarrow> nul \<notin> set (cf_controlPath conf) \<and> nul \<notin> set (cf_jailPath conf) \<and>
     (\<forall>n. path_sep \<notin> set n \<longrightarrow>
       \<not> at_or_below (cf_jailPath conf @ ''/home'') (cpath (cf_controlPath conf) n) \<and>
       \<not> at_or_below (cf_jailPath conf @ ''/tmp'') (cpath (cf_controlPath conf) n))"

definition dirs_kept :: "task \<Rightarrow> task \<Rightarrow> bool" where
  "dirs_kept t s \<longleftrightarrow> w_conf s = w_conf t \<and>
     (\<forall>n. path_sep \<notin> set n \<longrightarrow> cpath (controlPath t) n \<in> set (w_dirs t) \<longrightarrow> cpath (controlPath t) n \<in> set (w_dirs s))"

lemma prisoner_name_plain: "path_sep \<notin> set (CHR ''p'' # itos u)" "nul \<notin> set (CHR ''p'' # itos u)"
proof -
  have "\<not> (is_digit path_sep \<or> path_sep = CHR ''-'')" "\<not> (is_digit nul \<or> nul = CHR ''-'')"
    by (simp_all add: is_digit_def path_sep_def nul_def)
  then have "path_sep \<notin> set (itos u)" "nul \<notin> set (itos u)" using itos_chars by blast+
  then show "path_sep \<notin> set (CHR ''p'' # itos u)" "nul \<notin> set (CHR ''p'' # itos u)"
    by (simp_all add: path_sep_def nul_def)
qed

lemma make_dir_result:
  "make_dir n t = (s, MkOk) \<Longrightarrow> s = t\<lparr>w_dirs := n # w_dirs t\<rparr> \<and> \<not> dirExists t n"
  "make_dir n t = (s, MkExists) \<Longrightarrow> s = t"
  by (auto simp: make_dir_def split: if_splits)

definition prisoner_chosen :: "task \<Rightarrow> task \<Rightarrow> bool" where
  "prisoner_chosen t t' \<longleftrightarrow> isPrisonerUID (w_conf t) (m_prisoner t') \<and>
     m_prisoner t' \<noteq> getHomeDirOwnerUid (w_conf t) \<and>
     m_processControlPath t' = cpath (controlPath t) (getPrisonerName t') \<and>
     \<not> dirExists t (m_processControlPath t') \<and> dirExists t' (m_processControlPath t') \<and>
     dirExists t' (m_homePath t') \<and> m_homePath t' = prisonerHomePath t'"

lemma home_below: "prisonerHomePath s = jailPath s @ ''/home'' @ path_sep # (CHR ''p'' # itos (to_int32 (m_prisoner s)))"
  if "w_uid s = 0"
  using that by (simp add: prisonerHomePath_def prisonerRelativeHomePath_def path_sep_def)

lemma give_home_ok: "give_home t = (t', Inr x) \<Longrightarrow> t' = t"
  by (auto simp: give_home_def Let_def split: if_splits)

text \<open>After the control directory was made: the home is made, or both are removed again.\<close>

lemma create_home_cases:
  assumes "create_home s = (s', Inr b)"
  shows "if b then s' = s\<lparr>w_dirs := m_homePath s # w_dirs s\<rparr>
    else s' = remove_dir_entry (m_processControlPath s)
      (removeDir (jailPath s @ ''/tmp'') (m_prisoner s) False (removeDir (m_homePath s) (m_prisoner s) True s))"
proof -
  obtain s1 q where m: "make_dir (m_homePath s) s = (s1, q)" by fastforce
  show ?thesis
  proof (cases q)
    case MkOk
    then have s1: "s1 = s\<lparr>w_dirs := m_homePath s # w_dirs s\<rparr>" using m make_dir_result(1) by blast
    obtain s2 x where "give_home s1 = (s2, Inr x)" "b = True" "s' = s2"
      using assms m MkOk by (auto simp: create_home_def op_then_def op_bind_def op_return_def split: prod.splits sum.splits)
    with give_home_ok s1 show ?thesis by simp
  next
    case MkExists
    then have "s1 = s" using m make_dir_result(2) by blast
    with assms m MkExists show ?thesis by (auto simp: create_home_def Let_def jailPath_def)
  next
    case MkError
    with assms m show ?thesis by (simp add: create_home_def)
  qed
qed

lemma create_dirs_step:
  assumes ap: "paths_apart (w_conf t)" and kept: "dirs_kept t s" and root: "w_uid s = 0"
    and C: "m_processControlPath s = cpath (controlPath t) (CHR ''p'' # itos (m_prisoner s))"
    and run: "create_prisoner_dirs s = (s', Inr b)"
  shows "if b then \<not> dirExists t (m_processControlPath s) \<and> dirExists s' (m_processControlPath s) \<and>
      m_homePath s' = prisonerHomePath s' \<and> dirExists s' (m_homePath s') \<and>
      m_prisoner s' = m_prisoner s \<and> m_processControlPath s' = m_processControlPath s
    else dirs_kept t s' \<and> w_uid s' = 0"
proof -
  let ?C = "m_processControlPath s"
  obtain s3 r where m: "make_dir ?C s = (s3, r)" by fastforce
  have cs: "c_str ?C = ?C"
    unfolding C using ap prisoner_name_plain(2) by (intro c_str_cpath) (auto simp: paths_apart_def controlPath_def)
  have conf: "w_conf s = w_conf t" using kept by (simp add: dirs_kept_def)
  show ?thesis
  proof (cases r)
    case MkExists
    with make_dir_result(2) m run kept root show ?thesis by (auto simp: create_prisoner_dirs_def)
  next
    case MkError
    with m run show ?thesis by (simp add: create_prisoner_dirs_def)
  next
    case MkOk
    then have s3: "s3 = s\<lparr>w_dirs := ?C # w_dirs s\<rparr>" "\<not> dirExists s ?C" using m make_dir_result(1) by blast+
    define s4 where "s4 = s3\<lparr>m_homePath := prisonerHomePath s3\<rparr>"
    have s4: "m_processControlPath s4 = ?C" "m_prisoner s4 = m_prisoner s" "w_conf s4 = w_conf t" "w_uid s4 = 0"
      "w_dirs s4 = ?C # w_dirs s" "jailPath s4 = jailPath t"
      using s3 root conf by (simp_all add: s4_def jailPath_def)
    have run4: "create_home s4 = (s', Inr b)" using run m MkOk by (simp add: create_prisoner_dirs_def s4_def)
    have notin: "?C \<notin> set (w_dirs s)" using s3(2) cs by (simp add: dirExists_def)
    have H: "m_homePath s4 = jailPath t @ ''/home'' @ path_sep # (CHR ''p'' # itos (to_int32 (m_prisoner s)))"
      using home_below [of s3] s3 root conf by (simp add: s4_def jailPath_def)
    show ?thesis
    proof (cases b)
      case True
      with create_home_cases [OF run4] have s': "s' = s4\<lparr>w_dirs := m_homePath s4 # w_dirs s4\<rparr>" by simp
      have cH: "c_str (m_homePath s4) = m_homePath s4"
      proof (rule c_str_id)
        have "nul \<notin> set ''/home''" by (simp add: nul_def)
        then show "nul \<notin> set (m_homePath s4)"
          unfolding H using ap prisoner_name_plain(2) [of "to_int32 (m_prisoner s)"]
            nul_path_sep(2)
          by (simp add: paths_apart_def jailPath_def nul_def)
      qed
      have "prisonerHomePath s' = prisonerHomePath s3"
        by (simp add: s' s4_def prisonerHomePath_def prisonerRelativeHomePath_def jailPath_def)
      moreover have "\<not> dirExists t ?C"
      proof
        assume "dirExists t ?C"
        then have "?C \<in> set (w_dirs t)" by (simp add: dirExists_def cs)
        then have "?C \<in> set (w_dirs s)"
          using kept prisoner_name_plain(1) [of "m_prisoner s"] unfolding dirs_kept_def C by blast
        with notin show False by contradiction
      qed
      ultimately show ?thesis using True s4 cs cH by (simp add: s' s4_def dirExists_def)
    next
      case False
      with create_home_cases [OF run4] s4
      have s': "s' = remove_dir_entry ?C
          (removeDir (jailPath t @ ''/tmp'') (m_prisoner s) False (removeDir (m_homePath s4) (m_prisoner s) True s4))"
        by simp
      have "cpath (controlPath t) k \<in> set (w_dirs s')"
        if k: "path_sep \<notin> set k" "cpath (controlPath t) k \<in> set (w_dirs t)" for k
      proof -
        let ?p = "cpath (controlPath t) k"
        have "?p \<in> set (w_dirs s)" using kept k unfolding dirs_kept_def by blast
        then have in4: "?p \<in> set (w_dirs s4)" "?p \<noteq> ?C" using s4(5) notin by auto
        have "\<not> at_or_below (jailPath t @ ''/home'') ?p" "\<not> at_or_below (jailPath t @ ''/tmp'') ?p"
          using ap k(1) unfolding paths_apart_def jailPath_def controlPath_def by blast+
        then have "\<not> at_or_below (m_homePath s4) ?p" "\<not> at_or_below (jailPath t @ ''/tmp'') ?p"
          using at_or_below_up [of "jailPath t @ ''/home''"] unfolding H by auto
        then show ?thesis using in4 by (simp add: s' remove_dir_entry_def removeDir_keeps)
      qed
      then show ?thesis using s4 False by (simp add: dirs_kept_def s' remove_dir_entry_def removeDir_def)
    qed
  qed
qed

lemma select_loop_ok:
  assumes ap: "paths_apart (w_conf t)"
  shows "select_loop n is s = (t', Inr ()) \<Longrightarrow> dirs_kept t s \<Longrightarrow> w_uid s = 0 \<Longrightarrow> prisoner_chosen t t'"
proof (induction "is" arbitrary: s)
  case Nil
  then show ?case by (simp add: op_throw_def)
next
  case (Cons i "is")
  define u where "u = to_uid (getMinPrisoner (w_conf s) + c_rem (c_abs (to_int32 (w_random s (w_draws s) + i))) n)"
  define s1 where "s1 = s\<lparr>w_draws := Suc (w_draws s)\<rparr>"
  have conf: "w_conf s1 = w_conf t" using Cons.prems(2) by (simp add: dirs_kept_def s1_def)
  have "op_bind (setPrisonerID u) (\<lambda>_. op_bind create_prisoner_dirs
      (\<lambda>chosen. if chosen then op_return () else select_loop n is)) s1 = (t', Inr ())"
  proof -
    have r: "op_bind util_random f s = f (w_random s (w_draws s)) s1" for f :: "int \<Rightarrow> (task, unit) op"
      by (simp add: op_bind_def util_random_def s1_def)
    have a: "op_bind (\<lambda>t. g t t) k s1 = op_bind (g s1) k s1" for g :: "task \<Rightarrow> (task, unit) op" and k :: "unit \<Rightarrow> (task, unit) op"
      by (simp add: op_bind_def)
    have "u = to_uid (getMinPrisoner (w_conf s1) + c_rem (c_abs (to_int32 (w_random s (w_draws s) + i))) n)"
      by (simp add: u_def s1_def)
    with Cons.prems(1) show ?thesis unfolding select_loop.simps r
      by (subst (asm) a [of "\<lambda>t. setPrisonerID (to_uid (getMinPrisoner (w_conf t) +
        c_rem (c_abs (to_int32 (w_random s (w_draws s) + i))) n))"]) simp
  qed
  from op_bind_InrD [OF this] obtain s2 x where sp: "setPrisonerID u s1 = (s2, Inr x)" and
    "op_bind create_prisoner_dirs (\<lambda>chosen. if chosen then op_return () else select_loop n is) s2 = (t', Inr ())"
    by blast
  from op_bind_InrD [OF this(2)] obtain s3 b where run: "create_prisoner_dirs s2 = (s3, Inr b)" and
    rest: "(if b then op_return () else select_loop n is) s3 = (t', Inr ())" by blast
  note s2 = setPrisonerID_ok [OF sp]
  have "dirs_kept t s2" "w_uid s2 = 0"
    using Cons.prems s2(1) by (simp_all add: dirs_kept_def s1_def)
  moreover have C: "m_processControlPath s2 = cpath (controlPath t) (CHR ''p'' # itos (m_prisoner s2))"
    using s2(1) conf by (simp add: controlPath_def)
  ultimately have step: "if b then \<not> dirExists t (m_processControlPath s2) \<and> dirExists s3 (m_processControlPath s2) \<and>
      m_homePath s3 = prisonerHomePath s3 \<and> dirExists s3 (m_homePath s3) \<and>
      m_prisoner s3 = m_prisoner s2 \<and> m_processControlPath s3 = m_processControlPath s2
    else dirs_kept t s3 \<and> w_uid s3 = 0"
    by (intro create_dirs_step [OF ap _ _ _ run])
  show ?case
  proof (cases b)
    case True
    then have "t' = s3" using rest by (simp add: op_return_def)
    then show ?thesis using step True s2 C conf
      by (auto simp: prisoner_chosen_def getPrisonerName_def)
  next
    case False
    then show ?thesis using Cons.IH [of s3] rest step by simp
  qed
qed

text \<open>
  C2: a prisoner that is chosen is an ordinary id of the configured range, never the owner of the home
  directories; its control directory did not exist before, so no other task has it; and its control
  and home directories exist when the choice returns.
\<close>

theorem prisoner_is_exclusive:
  assumes "selectPrisoner t = (t', Inr ())" and "paths_apart (w_conf t)" and "w_uid t = 0"
  shows "isPrisonerUID (w_conf t) (m_prisoner t') \<and> m_prisoner t' \<noteq> getHomeDirOwnerUid (w_conf t)
    \<and> m_processControlPath t' = cpath (controlPath t) (getPrisonerName t')
    \<and> \<not> dirExists t (m_processControlPath t') \<and> dirExists t' (m_processControlPath t')
    \<and> dirExists t' (prisonerHomePath t')"
proof -
  have "select_loop (to_int32 (getMaxPrisoner (w_conf t) - getMinPrisoner (w_conf t) + 1))
      [0..to_int32 (getMaxPrisoner (w_conf t) - getMinPrisoner (w_conf t) + 1) - 1] t = (t', Inr ())"
    using assms(1) by (simp add: selectPrisoner_def Let_def split: if_splits)
  from select_loop_ok [OF assms(2) this] assms(3) show ?thesis
    by (auto simp: dirs_kept_def prisoner_chosen_def)
qed

end
