(* ===== verification/Task_Lifecycle.thy ===== *)
theory Task_Lifecycle
  imports Task_Properties
begin

text \<open>
  The rest of a task's life: its results are saved and delivered once and cut to a bounded size, the
  state that \<open>getState\<close> reports is the state of its processes and files, and cleaning it removes its
  files, its directories and its tickets.
\<close>

section \<open>Results\<close>

lemma length_itos: "n < 10 ^ 20 \<Longrightarrow> length (itos (int n)) \<le> 20"
  using length_nat_digits [of n 19] by (simp add: itos_def)

lemma length_cut_mark: "limit < 10 ^ 20 \<Longrightarrow> n < 10 ^ 20 \<Longrightarrow> length (cut_mark limit n) \<le> 110"
proof -
  assume "limit < 10 ^ 20" "n < 10 ^ 20"
  then have "limit div 1024 < 10 ^ 20" "n div 1024 < 10 ^ 20"
    using div_le_dividend [of limit 1024] div_le_dividend [of n 1024] by (meson le_less_trans)+
  then have "length (itos (int (limit div 1024))) \<le> 20" "length (itos (int (n div 1024))) \<le> 20"
    by (simp_all only: length_itos)
  then show ?thesis by (simp add: cut_mark_def del: of_nat_div zdiv_int)
qed

text \<open>
  C31: a result shorter than the limit is delivered whole; a longer one is cut to its beginning and its
  end, half a limit each, each behind a mark that says so, and never exceeds the limit by more than
  the two marks.
\<close>

theorem limitResultSize_correct:
  assumes "limit < 10 ^ 20" "length r < 10 ^ 20"
  shows "(length r < limit \<longrightarrow> limitResultSize limit r = r)
    \<and> (limit \<le> length r \<longrightarrow> limitResultSize limit r = cut_mark limit (length r) @ take (limit div 2) r @
        cut_mark limit (length r) @ drop (length r - limit div 2) r)
    \<and> length (limitResultSize limit r) \<le> limit + 220"
proof -
  have "limit div 2 * 2 \<le> limit" "limit div 2 \<le> limit" by simp_all
  then show ?thesis using length_cut_mark [OF assms]
    by (auto simp: limitResultSize_def Let_def substr_def)
qed

lemma read_file_present:
  assumes "correctPath n" "\<not> w_fails t OpenRead n" "map_of (w_files t) n = Some x"
  shows "read_file n b t = (t, Inr x)"
  using assms by (simp add: read_file_def)

definition control_file :: "task \<Rightarrow> string \<Rightarrow> bool" where
  "control_file t name \<longleftrightarrow> correctPath (getProcessControlPath t name) \<and>
     (\<forall>f. \<not> w_fails t f (getProcessControlPath t name))"

lemma control_file_c_str: "control_file t name \<Longrightarrow> c_str (getProcessControlPath t name) = getProcessControlPath t name"
  using correctPath_no_nul by (simp add: control_file_def c_str_id)

lemma control_path_same [simp]:
  "getProcessControlPath (put_file n x t) k = getProcessControlPath t k"
  "getProcessControlPath (drop_file n t) k = getProcessControlPath t k"
  "getProcessControlPath (info_of d t) k = getProcessControlPath t k"
  by (simp_all add: getProcessControlPath_def)

lemma control_file_same [simp]:
  "control_file (put_file n x t) k = control_file t k" "control_file (drop_file n t) k = control_file t k"
  "control_file (info_of d t) k = control_file t k"
  by (simp_all add: control_file_def)

lemma take_control_file_run:
  assumes "control_file t name"
  shows "take_control_file name t = (case map_of (w_files t) (getProcessControlPath t name) of
      None \<Rightarrow> (t, Inr None)
    | Some x \<Rightarrow> (drop_file (getProcessControlPath t name) t,
        Inr (Some (limitResultSize (request_limit (w_conf t)) x))))"
  using assms control_file_c_str [OF assms]
  by (auto simp: take_control_file_def Let_def fileExists_def op_bind_def read_file_present delete_file_def
      control_file_def split: option.splits)

lemma control_names_differ: "getProcessControlPath t ''compilation'' \<noteq> getProcessControlPath t ''execution''"
  by (simp add: getProcessControlPath_def cpath_def)

text \<open>
  C30: the admin of a batch task gets what the compiler and the program saved, cut to the limit, and gets it
  once: the files are removed, so a second request finds no compilation and nothing executed.
\<close>

theorem results_delivered_once:
  assumes "m_security t = sec_admin" "\<not> m_interactive t" "control_file t ''compilation''" "control_file t ''execution''"
    and "map_of (w_files t) (getProcessControlPath t ''compilation'') = Some c"
    and "map_of (w_files t) (getProcessControlPath t ''execution'') = e"
    and "limit = request_limit (w_conf t)" "c \<noteq> []" "limit > 0"
  shows "\<exists>t'. getResult t = (t', Inr (limitResultSize limit c,
      (case e of None \<Rightarrow> [] | Some x \<Rightarrow> limitResultSize limit x), e \<noteq> None))
    \<and> getResult t' = (t', Inr (no_compilation, [], False))"
proof -
  let ?C = "getProcessControlPath t ''compilation''" and ?E = "getProcessControlPath t ''execution''"
  let ?t1 = "drop_file ?C t"
  let ?t2 = "if e = None then ?t1 else drop_file ?E ?t1"
  have ne: "limitResultSize limit c \<noteq> []"
    using assms(8,9) by (auto simp: limitResultSize_def Let_def cut_mark_def)
  have 1: "take_control_file ''compilation'' t = (?t1, Inr (Some (limitResultSize limit c)))"
    using take_control_file_run [OF assms(3)] assms(5,7) by simp
  have 2: "take_control_file ''execution'' ?t1 = (?t2, Inr (map_option (limitResultSize limit) e))"
    using take_control_file_run [of ?t1 "''execution''"] assms(4,6,7) control_names_differ [of t]
    by (auto split: option.splits)
  have t2: "take_control_file n ?t2 = (?t2, Inr None)" if "n = ''compilation'' \<or> n = ''execution''" for n
    using take_control_file_run [of ?t2 n] that assms(3,4,6) control_names_differ [of t] by auto
  have "m_security ?t2 = sec_admin" "\<not> m_interactive ?t2" using assms(1,2) by auto
  then have "getResult ?t2 = (?t2, Inr (no_compilation, [], False))"
    using t2 by (simp add: getResult_def op_bind_def op_return_def Let_def)
  moreover have "getResult t = (?t2, Inr (limitResultSize limit c,
      (case e of None \<Rightarrow> [] | Some x \<Rightarrow> limitResultSize limit x), e \<noteq> None))"
    using assms(1,2) ne by (cases e) (simp_all add: getResult_def op_bind_def op_return_def Let_def 1 2)
  ultimately show ?thesis by blast
qed

lemma write_file_present:
  assumes "control_file t name" "dirExists t (m_processControlPath t)" "path_sep \<notin> set name"
  shows "write_file (getProcessControlPath t name) d t = (put_file (getProcessControlPath t name) d t, Inr ())"
proof -
  have "getDirectory (getProcessControlPath t name) = m_processControlPath t"
    unfolding getProcessControlPath_def using assms(3) by (rule getDirectory_cpath)
  with assms show ?thesis by (simp add: write_file_def control_file_def Let_def)
qed

text \<open>
  The compilation output is saved by the first process that reports it; a second report is refused
  and changes nothing, and an execution output is refused until there is a compilation output.
\<close>

theorem outputs_saved_once:
  assumes "readInfo t = (t1, Inr d)" "control_file t1 ''compilation''" "dirExists t1 (m_processControlPath t1)"
    and "map_of (w_files t1) (getProcessControlPath t1 ''compilation'') = None"
  shows "setCompilationOutput c t = (put_file (getProcessControlPath t1 ''compilation'') c t1, Inr ())
    \<and> snd (setExecutionOutput x b t) = Inl (StringExn ''Execution not saved because compilation is missing'')
    \<and> (\<forall>s s1 d1 c2. readInfo s = (s1, Inr d1) \<and> w_files s1 = w_files (put_file (getProcessControlPath t1 ''compilation'') c t1)
        \<and> m_processControlPath s1 = m_processControlPath t1 \<longrightarrow>
        setCompilationOutput c2 s = (s1, Inl (StringExn ''Compilation already saved'')))"
proof -
  let ?C = "getProcessControlPath t1 ''compilation''"
  have cs: "c_str ?C = ?C" using assms(2) by (rule control_file_c_str)
  have sep: "path_sep \<notin> set ''compilation''" by (simp add: path_sep_def)
  have "setCompilationOutput c t = (put_file ?C c t1, Inr ())"
    using assms cs write_file_present [OF assms(2,3) sep]
    by (simp add: setCompilationOutput_def op_then_def op_bind_def Let_def fileExists_def)
  moreover have "snd (setExecutionOutput x b t) = Inl (StringExn ''Execution not saved because compilation is missing'')"
    using assms(1,4) cs by (simp add: setExecutionOutput_def op_then_def op_bind_def fileExists_def)
  moreover have "setCompilationOutput c2 s = (s1, Inl (StringExn ''Compilation already saved''))"
    if "readInfo s = (s1, Inr d1)" "w_files s1 = w_files (put_file ?C c t1)" "m_processControlPath s1 = m_processControlPath t1"
    for s s1 d1 c2
  proof -
    have "getProcessControlPath s1 ''compilation'' = ?C" using that(3) by (simp add: getProcessControlPath_def)
    then show ?thesis using that(1,2) cs
      by (simp add: setCompilationOutput_def op_then_def op_bind_def Let_def fileExists_def)
  qed
  ultimately show ?thesis by blast
qed

section \<open>The state reported\<close>

text \<open>What a nap leaves alone.\<close>

definition same_task :: "task \<Rightarrow> task \<Rightarrow> bool" where
  "same_task t s \<longleftrightarrow> m_runner_pid s = m_runner_pid t \<and> m_compiler_pid s = m_compiler_pid t \<and>
     m_interactive s = m_interactive t \<and> m_cleaning s = m_cleaning t \<and> m_prisoner s = m_prisoner t \<and>
     m_processControlPath s = m_processControlPath t"

lemma same_put: "same_task t s \<Longrightarrow> same_task t (put_file n x s)"
  by (simp add: same_task_def put_file_def)

lemma same_nap: "same_task t s \<Longrightarrow> same_task t (nap s)"
proof -
  assume s: "same_task t s"
  have f: "same_task t u \<Longrightarrow> same_task t (fold (\<lambda>(n, d). put_file n d) ps u)" for u ps
    by (induction ps arbitrary: u) (auto simp: same_put)
  show ?thesis
  proof (cases "w_pending s")
    case Nil
    with s show ?thesis by (simp add: nap_def)
  next
    case (Cons now later)
    have "same_task t (s\<lparr>w_pending := later\<rparr>)" using s by (simp add: same_task_def)
    with f Cons show ?thesis by (simp add: nap_def)
  qed
qed

lemma same_wait: "same_task t s \<Longrightarrow> same_task t (wait_rounds n name s)"
  by (induction n name s rule: wait_rounds.induct) (simp_all add: same_nap)

text \<open>
  What each answer says of the task as the caller then sees it. Of a task that is stopped: neither its compiler nor its program runs,
  and there is no result to fetch.
\<close>

definition nothing_runs :: "task \<Rightarrow> bool" where
  "nothing_runs t \<longleftrightarrow> (if m_runner_pid t = 0 then \<not> processExistsAndRunning t (m_compiler_pid t)
     else \<not> processExistsAndRunning t (m_runner_pid t))"

definition nothing_to_fetch :: "task \<Rightarrow> bool" where
  "nothing_to_fetch t \<longleftrightarrow> (if m_runner_pid t = 0 then \<not> m_interactive t \<and> \<not> controlFileExists t ''compilation''
     else m_interactive t \<or> \<not> controlFileExists t ''execution'')"

definition within_time :: "task \<Rightarrow> bool" where
  "within_time t \<longleftrightarrow> w_now t \<le> m_startTime t + maxtime (m_limits t) + jail_harvest_timeout"

definition state_true :: "task \<Rightarrow> processState \<Rightarrow> bool" where
  "state_true t s = (case s of
      running \<Rightarrow> m_runner_pid t \<noteq> 0 \<and> processExistsAndRunning t (m_runner_pid t) \<and> within_time t
    | compiling \<Rightarrow> m_runner_pid t = 0 \<and> (processExistsAndRunning t (m_compiler_pid t) \<or>
        (controlFileExists t ''compilation'' \<and> FileExists t ''vpl_execution''))
    | beforeRunning \<Rightarrow> m_interactive t \<and> m_runner_pid t = 0 \<and> \<not> processExistsAndRunning t (m_compiler_pid t)
    | retrieve \<Rightarrow> \<not> m_interactive t \<and> (controlFileExists t ''compilation'' \<or> controlFileExists t ''execution'')
    | starting \<Rightarrow> m_compiler_pid t = 0 \<or> m_startTime t = 0 \<or> m_startTime t > w_now t
    | stopped \<Rightarrow> nothing_to_fetch t
    | prestarting \<Rightarrow> False)"

lemma state_true_simps:
  "state_true t running \<longleftrightarrow> m_runner_pid t \<noteq> 0 \<and> processExistsAndRunning t (m_runner_pid t) \<and> within_time t"
  "state_true t compiling \<longleftrightarrow> m_runner_pid t = 0 \<and> (processExistsAndRunning t (m_compiler_pid t) \<or>
     (controlFileExists t ''compilation'' \<and> FileExists t ''vpl_execution''))"
  "state_true t beforeRunning \<longleftrightarrow>
     m_interactive t \<and> m_runner_pid t = 0 \<and> \<not> processExistsAndRunning t (m_compiler_pid t)"
  "state_true t retrieve \<longleftrightarrow>
     \<not> m_interactive t \<and> (controlFileExists t ''compilation'' \<or> controlFileExists t ''execution'')"
  "state_true t starting \<longleftrightarrow> m_compiler_pid t = 0 \<or> m_startTime t = 0 \<or> m_startTime t > w_now t"
  "state_true t stopped \<longleftrightarrow> nothing_to_fetch t"
  by (simp_all add: state_true_def)

text \<open>The tasks that are stopped at once: nothing of them is on disk, they are being cleaned, or it is time to clean them.\<close>

definition no_task :: "task \<Rightarrow> bool" where
  "no_task t \<longleftrightarrow> \<not> dirExists t (m_processControlPath t) \<or> \<not> fileExists t (getProcessConfigFile t)"

definition due_for_cleaning :: "task \<Rightarrow> bool" where
  "due_for_cleaning t \<longleftrightarrow> \<not> within_time t \<or>
     w_now t - m_startTime t > jail_monitorstart_timeout \<and> m_monitor_pid t = 0 \<and> (hasMonitorTicket t \<or> m_runner_pid t = 0) \<and>
     \<not> (m_runner_pid t = 0 \<and> processExistsAndRunning t (m_compiler_pid t))"

text \<open>\<open>u\<close> is the task as it is read, \<open>t'\<close> as it is left.\<close>

definition reported_true :: "task \<Rightarrow> task \<Rightarrow> task \<Rightarrow> processState \<Rightarrow> bool" where
  "reported_true t u t' s \<longleftrightarrow> (if s = stopped
     then no_task t \<or> m_cleaning u \<or> (due_for_cleaning u \<and> t' = cleanTask u) \<or> (nothing_runs u \<and> \<not> due_for_cleaning u \<and> state_true t' s)
     else \<not> no_task t \<and> \<not> m_cleaning u \<and> state_true t' s \<and> (s = starting \<or> \<not> due_for_cleaning u))"

lemma stopped_or_retrieve_true:
  assumes "stopped_or_retrieve name t = (t', Inr s)" "\<not> m_interactive t"
    "name = (if m_runner_pid t = 0 then ''compilation'' else ''execution'')"
  shows "state_true t' s" "s \<noteq> starting"
proof -
  have t': "t' = wait_rounds (2 * 10) name t" using assms(1) by (simp add: stopped_or_retrieve_def waitExistFile_def Let_def)
  have "same_task t t'" unfolding t' by (rule same_wait) (simp add: same_task_def)
  then show "state_true t' s" "s \<noteq> starting" using assms
    by (auto simp: stopped_or_retrieve_def waitExistFile_def Let_def t' [symmetric] state_true_def same_task_def nothing_to_fetch_def
        split: if_splits)
qed

lemma state_now_true:
  assumes "state_now u = (t', Inr s)" "\<not> no_task t" "\<not> m_cleaning u"
  shows "reported_true t u t' s"
proof (cases "m_compiler_pid u = 0 \<or> m_startTime u > w_now u \<or> m_startTime u = 0")
  case True
  then have "t' = u \<and> s = starting" using assms(1) by (auto simp: state_now_def split: if_splits)
  then show ?thesis using True assms(2,3) by (auto simp: reported_true_def state_true_simps)
next
  case started: False
  show ?thesis
  proof (cases "due_for_cleaning u")
    case True
    then have "t' = cleanTask u \<and> s = stopped"
      using started assms(1) by (auto simp: state_now_def Let_def finish_clean_def due_for_cleaning_def within_time_def split: if_splits)
    then show ?thesis using True by (simp add: reported_true_def)
  next
    case False
    then have time: "within_time u" "\<not> (m_startTime u + maxtime (m_limits u) + jail_harvest_timeout < w_now u)"
      by (auto simp: due_for_cleaning_def within_time_def)
    have stop: "reported_true t u t' s"
      if "stopped_or_retrieve (if m_runner_pid u = 0 then ''compilation'' else ''execution'') u = (t', Inr s)" "\<not> m_interactive u" "nothing_runs u"
      using stopped_or_retrieve_true [OF that(1,2) refl] that(3) assms(2,3) False by (auto simp: reported_true_def)
    have same: "reported_true t u u s'" if "state_true u s'" "s' \<noteq> stopped" for s'
      using that assms(2,3) False by (simp add: reported_true_def)
    have rest: "reported_true t u u stopped" if "m_interactive u" "m_runner_pid u \<noteq> 0" "nothing_runs u"
      using that False by (simp add: reported_true_def state_true_simps nothing_to_fetch_def)
    show ?thesis
    proof (cases "m_runner_pid u = 0")
      case True
      then show ?thesis
        using started time assms(1) stop same [of compiling] same [of beforeRunning] False
        by (auto simp: state_now_def Let_def due_for_cleaning_def state_true_simps nothing_runs_def finish_clean_def split: if_splits)
    next
      case no: False
      then show ?thesis
        using started time assms(1) stop same [of running] rest False
        by (auto simp: state_now_def Let_def due_for_cleaning_def state_true_simps nothing_runs_def finish_clean_def split: if_splits)
    qed
  qed
qed

text \<open>A configuration file that cannot be read is no task that is being cleaned.\<close>

lemma parse_lines_error: "parse_lines acc ls = Inl e \<Longrightarrow> e \<noteq> TaskCleaning"
proof (induction ls arbitrary: acc)
  case (Cons l ls)
  then show ?case by (cases "parseConfigLine acc l") (auto simp: parseConfigLine_def split: option.splits)
qed simp

lemma load_config_error: "snd (load_config n d t) = Inl e \<Longrightarrow> e \<noteq> TaskCleaning"
  using parse_lines_error [of "[]" "file_lines (the (map_of (w_files t) (c_str n)))" e]
  by (cases "parse_lines [] (file_lines (the (map_of (w_files t) (c_str n))))") (auto simp: load_config_def readConfiguration_def split: option.splits)


section \<open>Cleaning\<close>

text \<open>Files that are absent stay absent while a task is cleaned.\<close>

definition absent :: "string \<Rightarrow> task \<Rightarrow> bool" where
  "absent F t \<longleftrightarrow> map_of (w_files t) F = None"

lemma delete_file_same [simp]:
  "w_dirs (delete_file n t) = w_dirs t" "w_conf (delete_file n t) = w_conf t" "w_proc (delete_file n t) = w_proc t"
  "w_fails (delete_file n t) = w_fails t" "m_prisoner (delete_file n t) = m_prisoner t"
  "w_dies (delete_file n t) = w_dies t" "w_proc_readable (delete_file n t) = w_proc_readable t"
  by (simp_all add: delete_file_def drop_file_def)

lemma absent_delete: "absent F t \<Longrightarrow> absent F (delete_file n t)"
  by (simp add: absent_def delete_file_def)

lemma absent_removeTicketFile: "absent F t \<Longrightarrow> absent F (removeTicketFile k t)"
  by (simp add: removeTicketFile_def absent_delete)

lemma absent_removeTickets: "absent F t \<Longrightarrow> absent F (fold removeTicketFile ks t)"
  by (induction ks arbitrary: t) (simp_all add: absent_removeTicketFile)

lemma absent_removeDir: "absent F t \<Longrightarrow> absent F (removeDir d u f t)"
  by (auto simp: absent_def removeDir_def map_of_eq_None_iff)

lemma removeTicketFile_same:
  "w_dirs (removeTicketFile k t) = w_dirs t" "w_conf (removeTicketFile k t) = w_conf t"
  "w_proc (removeTicketFile k t) = w_proc t" "w_fails (removeTicketFile k t) = w_fails t"
  "m_prisoner (removeTicketFile k t) = m_prisoner t" "w_dies (removeTicketFile k t) = w_dies t"
  "w_proc_readable (removeTicketFile k t) = w_proc_readable t"
  by (simp_all add: removeTicketFile_def)

lemma removeTickets_same:
  "w_dirs (fold removeTicketFile ks t) = w_dirs t \<and> w_conf (fold removeTicketFile ks t) = w_conf t \<and>
   w_proc (fold removeTicketFile ks t) = w_proc t \<and> w_fails (fold removeTicketFile ks t) = w_fails t \<and>
   m_prisoner (fold removeTicketFile ks t) = m_prisoner t \<and> w_dies (fold removeTicketFile ks t) = w_dies t \<and>
   w_proc_readable (fold removeTicketFile ks t) = w_proc_readable t"
  by (induction ks arbitrary: t) (simp_all add: removeTicketFile_same)

lemma removed_ticket:
  assumes "k \<in> set ks" "k \<noteq> []" "F = cpath (controlPath t) k" "correctPath F" "\<not> w_fails t Unlink F"
  shows "absent F (fold removeTicketFile ks t)"
  using assms
proof (induction ks arbitrary: t)
  case (Cons a ks)
  show ?case
  proof (cases "a = k")
    case True
    then have "absent F (removeTicketFile a t)"
      using Cons.prems by (simp add: removeTicketFile_def delete_file_def absent_def)
    then show ?thesis by (simp add: absent_removeTickets)
  next
    case False
    have c: "controlPath (removeTicketFile a t) = controlPath t"
      by (simp add: controlPath_def removeTicketFile_same)
    show ?thesis using Cons.IH [of "removeTicketFile a t"] Cons.prems False
      by (simp add: c removeTicketFile_same)
  qed
qed simp

lemma mark_cleaning_cases:
  assumes "mark_cleaning f t = (t', data)"
  shows "t' = t \<or> (\<exists>x. t' = put_file f x t \<and> fileExists t f)"
proof (cases "fileExists t f")
  case False
  then show ?thesis using assms by (simp add: mark_cleaning_def)
next
  case True
  show ?thesis
  proof (cases "snd (load_config f [] t)")
    case (Inl e)
    then have "load_config f [] t = (t, Inl e)" by (simp add: load_config_def)
    then show ?thesis using assms True by (simp add: mark_cleaning_def)
  next
    case (Inr d)
    then have "load_config f [] t = (t, Inr d)" by (simp add: load_config_def)
    then have "t' = fst (store_config f (cd_set d ''CLEANING'' ''1'') t)"
      using assms True by (auto simp: mark_cleaning_def Let_def)
    then show ?thesis using True store_config_cases [of f "cd_set d ''CLEANING'' ''1''" t] by (metis fst_conv)
  qed
qed

lemma mark_cleaning_same:
  assumes "mark_cleaning f t = (t', data)"
  shows "w_dirs t' = w_dirs t" "w_conf t' = w_conf t" "w_proc t' = w_proc t" "w_fails t' = w_fails t"
    "m_prisoner t' = m_prisoner t" "w_dies t' = w_dies t" "w_proc_readable t' = w_proc_readable t"
    "m_adminticket t' = m_adminticket t" "m_executionticket t' = m_executionticket t"
    "m_monitorticket t' = m_monitorticket t" "m_httpPassthroughticket t' = m_httpPassthroughticket t"
  using mark_cleaning_cases [OF assms] by (auto simp: put_file_def)

lemma absent_mark_cleaning:
  assumes "mark_cleaning f t = (t', data)" "absent F t" "nul \<notin> set f"
  shows "absent F t'"
  using mark_cleaning_cases [OF assms(1)] assms(2,3) by (auto simp: absent_def fileExists_def c_str_id)

section \<open>Processes\<close>

lemma kill_same:
  "w_dirs (kill_pid b p t) = w_dirs t" "w_conf (kill_pid b p t) = w_conf t" "w_files (kill_pid b p t) = w_files t"
  "w_fails (kill_pid b p t) = w_fails t" "m_prisoner (kill_pid b p t) = m_prisoner t" "w_dies (kill_pid b p t) = w_dies t"
  "w_proc_readable (kill_pid b p t) = w_proc_readable t"
  by (simp_all add: kill_pid_def)

lemma kills_same:
  "w_dirs (fold (kill_pid b) ps t) = w_dirs t \<and> w_conf (fold (kill_pid b) ps t) = w_conf t \<and>
   w_files (fold (kill_pid b) ps t) = w_files t \<and> w_fails (fold (kill_pid b) ps t) = w_fails t \<and>
   m_prisoner (fold (kill_pid b) ps t) = m_prisoner t \<and> w_dies (fold (kill_pid b) ps t) = w_dies t \<and>
   w_proc_readable (fold (kill_pid b) ps t) = w_proc_readable t"
  by (induction ps arbitrary: t) (simp_all add: kill_same)

lemma stop_same:
  assumes "stopPrisonerProcess u b t = (t', n)"
  shows "w_dirs t' = w_dirs t \<and> w_conf t' = w_conf t \<and> w_files t' = w_files t \<and> w_fails t' = w_fails t \<and>
    m_prisoner t' = m_prisoner t \<and> w_dies t' = w_dies t \<and> w_proc_readable t' = w_proc_readable t"
  using assms kills_same by (auto simp: stopPrisonerProcess_def Let_def split: if_splits)

lemma stop_retries_same:
  "w_dirs (stop_retries n u t) = w_dirs t \<and> w_conf (stop_retries n u t) = w_conf t \<and>
   w_files (stop_retries n u t) = w_files t \<and> w_fails (stop_retries n u t) = w_fails t \<and>
   m_prisoner (stop_retries n u t) = m_prisoner t \<and> w_dies (stop_retries n u t) = w_dies t \<and>
   w_proc_readable (stop_retries n u t) = w_proc_readable t"
proof (induction n arbitrary: t)
  case 0
  obtain t' p where "stopPrisonerProcess u False t = (t', p)" by fastforce
  with stop_same [OF this] show ?case by (simp add: stop_retries.simps)
next
  case (Suc n)
  obtain t' p where s: "stopPrisonerProcess u False t = (t', p)" by fastforce
  then show ?case using stop_same [OF s] Suc.IH [of t'] by (simp add: stop_retries.simps [of "Suc n"])
qed

lemma no_status_no_uid: "proc_status t (itos pid) = [] \<Longrightarrow> getProcessUID t pid = -1"
proof -
  have "vplregex_search reg_uid [] 2 = None" by code_simp
  then show "proc_status t (itos pid) = [] \<Longrightarrow> getProcessUID t pid = -1" by (simp add: getProcessUID_def)
qed

lemma kills_proc:
  assumes "\<forall>p \<in> set ps. w_dies t b p"
  shows "map_of (w_proc (fold (kill_pid b) ps t)) k = (if k \<in> itos ` set ps then None else map_of (w_proc t) k)"
  using assms
proof (induction ps arbitrary: t)
  case (Cons p ps)
  have "w_proc (kill_pid b p t) = AList.delete (itos p) (w_proc t)" using Cons.prems by (simp add: kill_pid_def)
  moreover have "map_of (w_proc (fold (kill_pid b) ps (kill_pid b p t))) k =
      (if k \<in> itos ` set ps then None else map_of (w_proc (kill_pid b p t)) k)"
    using Cons.prems by (intro Cons.IH) (simp add: kill_same)
  ultimately show ?case by (auto simp: delete_conv')
qed simp

lemma kills_keys: "fst ` set (w_proc (fold (kill_pid b) ps t)) \<subseteq> fst ` set (w_proc t)"
proof (induction ps arbitrary: t)
  case (Cons p ps)
  have "fst ` set (w_proc (kill_pid b p t)) \<subseteq> fst ` set (w_proc t)"
    using dom_delete_subset [of "itos p" "w_proc t"] by (simp add: kill_pid_def)
  then show ?case using Cons.IH [of "kill_pid b p t"] by auto
qed simp

text \<open>One round of kills that work leaves no process of the prisoner.\<close>

lemma killed_all:
  assumes "\<forall>p. w_dies t False p" "u \<noteq> -1"
  shows "getPrisonerProcesses u (fold (kill_pid False) (getPrisonerProcesses u t) t) = []"
proof (cases "w_proc_readable t")
  case False
  then show ?thesis using kills_same by (simp add: getPrisonerProcesses_def)
next
  case True
  let ?ps = "getPrisonerProcesses u t"
  let ?t' = "fold (kill_pid False) ?ps t"
  have k: "map_of (w_proc ?t') k = (if k \<in> itos ` set ?ps then None else map_of (w_proc t) k)"
for k
    using kills_proc [of ?ps t False k] assms(1) by simp
  have "getProcessUID ?t' pid \<noteq> u" if pid: "pid \<in> set (map (\<lambda>e. c_atoi (fst e)) (w_proc ?t'))" "pid > 0" for pid
  proof (cases "pid \<in> set ?ps")
    case True
    then have "proc_status ?t' (itos pid) = []" using k by (simp add: proc_status_def)
    then show ?thesis using no_status_no_uid assms(2) by simp
  next
    case False
    have "pid \<in> c_atoi ` fst ` set (w_proc ?t')" using pid(1) by (simp add: image_image)
    then have "pid \<in> c_atoi ` fst ` set (w_proc t)" using kills_keys by blast
    then have "pid \<in> set (map (\<lambda>e. c_atoi (fst e)) (w_proc t))" by (simp add: image_image)
    then have ne: "getProcessUID t pid \<noteq> u" using False pid(2) True by (auto simp: getPrisonerProcesses_def)
    show ?thesis
    proof (cases "itos pid \<in> itos ` set ?ps")
      case True
      then have "proc_status ?t' (itos pid) = []" using k by (simp add: proc_status_def)
      then show ?thesis using no_status_no_uid assms(2) by simp
    next
      case False
      then have "proc_status ?t' (itos pid) = proc_status t (itos pid)" using k by (simp add: proc_status_def)
      then show ?thesis using ne by (simp add: getProcessUID_def)
    qed
  qed
  then have "filter (\<lambda>pid. pid > 0 \<and> getProcessUID ?t' pid = u) (map (\<lambda>e. c_atoi (fst e)) (w_proc ?t')) = []"
    unfolding filter_empty_conv by blast
  then show ?thesis unfolding getPrisonerProcesses_def [of u ?t'] by simp
qed

lemma stop_kills_all:
  assumes "\<forall>p. w_dies t False p" "u \<noteq> -1" "isPrisonerUID (w_conf t) u" "stopPrisonerProcess u False t = (t', n)"
  shows "getPrisonerProcesses u t' = []"
proof -
  let ?ps = "getPrisonerProcesses u t"
  have same: "filter (\<lambda>pid. getProcessUID t pid = u) ?ps = ?ps"
    by (auto simp: getPrisonerProcesses_def intro!: filter_True)
  have e: "getPrisonerProcesses u (fold (kill_pid False) ?ps t) = []" by (rule killed_all [OF assms(1,2)])
  show ?thesis using assms(3,4) e by (auto simp: stopPrisonerProcess_def same Let_def split: if_splits)
qed

lemma retries_kill_all:
  assumes "\<forall>p. w_dies t False p" "u \<noteq> -1" "isPrisonerUID (w_conf t) u"
  shows "getPrisonerProcesses u (stop_retries n u t) = []"
  using assms
proof (induction n arbitrary: t)
  case 0
  obtain t' p where s: "stopPrisonerProcess u False t = (t', p)" by fastforce
  with stop_kills_all [OF 0 s] show ?case by (simp add: stop_retries.simps)
next
  case (Suc n)
  obtain t' p where s: "stopPrisonerProcess u False t = (t', p)" by fastforce
  have "getPrisonerProcesses u (stop_retries n u t') = []"
    using stop_same [OF s] Suc.prems by (intro Suc.IH) simp_all
  with stop_kills_all [OF Suc.prems s] s show ?case by (simp add: stop_retries.simps [of "Suc n"])
qed

section \<open>A cleaned task\<close>

text \<open>Nothing at or below a directory.\<close>

definition empty_below :: "string \<Rightarrow> task \<Rightarrow> bool" where
  "empty_below d t \<longleftrightarrow> (\<forall>p. at_or_below d p \<longrightarrow> p \<notin> set (w_dirs t) \<and> absent p t)"

lemma removeDir_all:
  "dirExists t d \<Longrightarrow> c_str d = d \<Longrightarrow> d \<noteq> [path_sep] \<Longrightarrow> empty_below d (removeDir d u True t)"
  by (auto simp: empty_below_def removeDir_def removable_def absent_def map_of_eq_None_iff)

lemma removeDir_less: "q \<notin> set (w_dirs t) \<Longrightarrow> q \<notin> set (w_dirs (removeDir d u f t))"
  by (auto simp: removeDir_def)

lemma empty_below_removeDir: "empty_below d t \<Longrightarrow> empty_below d (removeDir d2 u f t)"
  by (simp add: empty_below_def removeDir_less absent_removeDir)

lemma cleanPrisonerFilesLocked_effect:
  fixes pdir s
  defines "s' \<equiv> cleanPrisonerFilesLocked pdir s" and "C \<equiv> cpath (controlPath s) pdir"
    and "H \<equiv> jailPath s @ ''/home/'' @ pdir"
  assumes ap: "paths_apart (w_conf s)" and pd: "path_sep \<notin> set pdir" "nul \<notin> set pdir" "pdir \<noteq> []"
    and ex: "dirExists s C" and log: "cf_logLevel (w_conf s) \<le> 7"
  shows "empty_below C s'" and "dirExists s H \<Longrightarrow> empty_below H s'" and "absent F s \<Longrightarrow> absent F s'"
proof -
  obtain s1 data where m: "mark_cleaning (cpath C ''config'') s = (s1, data)" by fastforce
  define s2 where "s2 = fold removeTicketFile (config_tickets data) s1"
  define s3 where "s3 = removeDir H (uid_of_name pdir) True s2"
  define s4 where "s4 = removeDir (jailPath s @ ''/tmp'') (uid_of_name pdir) False s3"
  have conf: "w_conf s1 = w_conf s" "w_conf s2 = w_conf s" "w_dirs s2 = w_dirs s"
    using mark_cleaning_same [OF m] removeTickets_same by (simp_all add: s2_def)
  have jp: "jailPath x = jailPath s" "controlPath x = controlPath s" if "w_conf x = w_conf s" for x
    using that by (simp_all add: jailPath_def controlPath_def)
  have s': "s' = removeDir C 0 True s4"
    unfolding s'_def cleanPrisonerFilesLocked_def Let_def
    using m log conf jp [OF conf(1)] jp [OF conf(2)]
    by (simp add: C_def H_def s2_def s3_def s4_def)
  have nulC: "nul \<notin> set C" using ap pd by (simp add: C_def cpath_def paths_apart_def controlPath_def)
  have Cne: "C \<noteq> [path_sep]" using pd(3) by (cases "controlPath s") (simp_all add: C_def cpath_def)
  have sub: "at_or_below (jailPath s @ ''/home'') C \<Longrightarrow> False" "at_or_below (jailPath s @ ''/tmp'') C \<Longrightarrow> False"
    using ap pd(1) by (auto simp: C_def paths_apart_def jailPath_def controlPath_def)
  have H: "H = (jailPath s @ ''/home'') @ path_sep # pdir" by (simp add: H_def path_sep_def)
  have "C \<in> set (w_dirs s2)" using ex nulC conf(3) by (simp add: dirExists_def c_str_id)
  then have "C \<in> set (w_dirs s3)"
    unfolding s3_def using sub(1) at_or_below_up [of "jailPath s @ ''/home''" pdir C] H
    by (intro removeDir_keeps) auto
  then have "C \<in> set (w_dirs s4)"
    unfolding s4_def using sub(2) by (intro removeDir_keeps) auto
  then have "dirExists s4 C" using nulC by (simp add: dirExists_def c_str_id)
  then show "empty_below C s'" unfolding s' using nulC Cne by (intro removeDir_all) (simp_all add: c_str_id)
  show "empty_below H s'" if "dirExists s H"
  proof -
    have "nul \<notin> set H"
      using ap pd(2) nul_path_sep(2) by (simp add: H paths_apart_def jailPath_def) (simp add: nul_def)
    moreover have "H \<noteq> [path_sep]" by (simp add: H)
    moreover have "dirExists s2 H" using that conf(3) by (simp add: dirExists_def)
    ultimately have "empty_below H s3" unfolding s3_def by (intro removeDir_all) (simp_all add: c_str_id)
    then show ?thesis by (simp add: s' s4_def empty_below_removeDir)
  qed
  show "absent F s'" if "absent F s"
  proof -
    have "nul \<notin> set (cpath C ''config'')" using nulC config_no_sep(2) by (simp add: cpath_def)
    then have "absent F s1" using absent_mark_cleaning [OF m that] by simp
    then show ?thesis by (simp add: s' s4_def s3_def s2_def absent_removeDir absent_removeTickets)
  qed
qed

text \<open>A task as its constructors leave it, in a system where a killed process dies.\<close>

definition cleanable :: "task \<Rightarrow> bool" where
  "cleanable t \<longleftrightarrow> isPrisonerUID (w_conf t) (m_prisoner t) \<and> m_prisoner t \<le> int_max \<and>
     m_processControlPath t = cpath (controlPath t) (getPrisonerName t) \<and> dirExists t (m_processControlPath t) \<and>
     paths_apart (w_conf t) \<and> 0 \<le> getMinPrisoner (w_conf t) \<and> (\<forall>p. w_dies t False p) \<and>
     cf_logLevel (w_conf t) \<le> 7"

lemma getHomePath_below: "getHomePath s = jailPath s @ ''/home/'' @ getPrisonerName s"
  by (simp add: getHomePath_def getRelativeHomePath_def)

lemma cleanTask_effect:
  assumes c: "cleanable t"
  shows "empty_below (m_processControlPath t) (cleanTask t)"
    and "dirExists t (getHomePath t) \<Longrightarrow> empty_below (getHomePath t) (cleanTask t)"
    and "k \<in> {m_adminticket t, m_executionticket t, m_monitorticket t, m_httpPassthroughticket t} \<Longrightarrow> k \<noteq> [] \<Longrightarrow>
      correctPath (cpath (controlPath t) k) \<Longrightarrow> \<not> w_fails t Unlink (cpath (controlPath t) k) \<Longrightarrow>
      absent (cpath (controlPath t) k) (cleanTask t)"
proof -
  let ?u = "to_int32 (m_prisoner t)"
  have pos: "0 \<le> m_prisoner t" "m_prisoner t \<le> int_max"
    using c by (auto simp: cleanable_def isPrisonerUID_def)
  then have u: "?u = m_prisoner t" "?u \<noteq> -1" by (simp_all add: to_int32_id)
  obtain t1 data where m: "mark_cleaning (getProcessConfigFile t) (t\<lparr>m_cleaning := True\<rparr>) = (t1, data)" by fastforce
  define t2 where "t2 = fold removeTicketFile (config_tickets data) t1"
  define t3 where "t3 = fold removeTicketFile [m_adminticket t, m_executionticket t, m_monitorticket t, m_httpPassthroughticket t] t2"
  obtain t4 n where s4: "stopPrisonerProcess ?u True t3 = (t4, n)" by fastforce
  define t5 where "t5 = stop_retries 10 ?u t4"
  note f1 = mark_cleaning_same [OF m, simplified]
  have f2: "w_conf t2 = w_conf t" "w_dirs t2 = w_dirs t" "m_prisoner t2 = m_prisoner t" "w_dies t2 = w_dies t" "w_fails t2 = w_fails t"
    using f1 removeTickets_same by (simp_all add: t2_def)
  have f3: "w_conf t3 = w_conf t" "w_dirs t3 = w_dirs t" "m_prisoner t3 = m_prisoner t" "w_dies t3 = w_dies t"
    using f2 removeTickets_same [of "[m_adminticket t, m_executionticket t, m_monitorticket t, m_httpPassthroughticket t]" t2]
    unfolding t3_def by metis+
  have f4: "w_conf t4 = w_conf t" "w_dirs t4 = w_dirs t" "m_prisoner t4 = m_prisoner t" "w_dies t4 = w_dies t" "w_files t4 = w_files t3"
    using f3 stop_same [OF s4] by simp_all
  have f5: "w_conf t5 = w_conf t" "w_dirs t5 = w_dirs t" "m_prisoner t5 = m_prisoner t" "w_files t5 = w_files t3"
    using f4 stop_retries_same by (simp_all add: t5_def)
  have "getPrisonerProcesses ?u t5 = []"
    unfolding t5_def using c f4 u by (intro retries_kill_all) (simp_all add: cleanable_def)
  then have na: "\<not> activeProcesses ?u t5" by (simp add: activeProcesses_def)
  define s' where "s' = cleanPrisonerFilesLocked (getPrisonerName t) t5"
  have names: "m_adminticket t2 = m_adminticket t \<and> m_executionticket t2 = m_executionticket t \<and>
      m_monitorticket t2 = m_monitorticket t \<and> m_httpPassthroughticket t2 = m_httpPassthroughticket t"
  proof -
    have "m_adminticket (fold removeTicketFile ks x) = m_adminticket x \<and>
        m_executionticket (fold removeTicketFile ks x) = m_executionticket x \<and>
        m_monitorticket (fold removeTicketFile ks x) = m_monitorticket x \<and>
        m_httpPassthroughticket (fold removeTicketFile ks x) = m_httpPassthroughticket x" for ks x
      by (induction ks arbitrary: x) (simp_all add: removeTicketFile_def delete_file_def drop_file_def)
    then show ?thesis using f1 by (simp add: t2_def)
  qed
  have pn: "getPrisonerName t5 = getPrisonerName t" using f5 by (simp add: getPrisonerName_def)
  have run: "w_files (cleanTask t) = w_files s' \<and> w_dirs (cleanTask t) = w_dirs s'"
    unfolding cleanTask_def Let_def using u(2) m s4 na names pn
    by (simp add: t2_def [symmetric] t3_def [symmetric] t5_def [symmetric] s'_def [symmetric] cleanPrisonerFiles_def
        del: fold.simps)
  have same: "controlPath t5 = controlPath t" "jailPath t5 = jailPath t"
    using f5 by (simp_all add: controlPath_def jailPath_def)
  have pre: "paths_apart (w_conf t5)" "path_sep \<notin> set (getPrisonerName t)" "nul \<notin> set (getPrisonerName t)"
    "getPrisonerName t \<noteq> []" "cf_logLevel (w_conf t5) \<le> 7"
    using c f5 prisoner_name_plain by (simp_all add: cleanable_def getPrisonerName_def)
  have ex: "dirExists t5 (cpath (controlPath t5) (getPrisonerName t))"
    using c f5 same by (metis cleanable_def dirExists_def)
  note loc = cleanPrisonerFilesLocked_effect [OF pre(1-4) ex pre(5), folded s'_def]
  have eb: "empty_below d (cleanTask t) = empty_below d s'" for d
    using run by (simp add: empty_below_def absent_def)
  show "empty_below (m_processControlPath t) (cleanTask t)"
    using loc(1) c same unfolding eb by (simp add: cleanable_def)
  show "empty_below (getHomePath t) (cleanTask t)" if "dirExists t (getHomePath t)"
    using loc(2) that f5 same unfolding eb getHomePath_below by (simp add: dirExists_def)
  show "absent (cpath (controlPath t) k) (cleanTask t)"
    if "k \<in> {m_adminticket t, m_executionticket t, m_monitorticket t, m_httpPassthroughticket t}" "k \<noteq> []"
      "correctPath (cpath (controlPath t) k)" "\<not> w_fails t Unlink (cpath (controlPath t) k)"
  proof -
    have "absent (cpath (controlPath t) k) t3"
      unfolding t3_def using that f2
      by (intro removed_ticket [of k]) (auto simp: controlPath_def)
    then have "absent (cpath (controlPath t) k) t5" using f5 by (simp add: absent_def)
    from loc(3) [OF this] show ?thesis using run by (simp add: absent_def)
  qed
qed

text \<open>
  C3: a task whose time is over is cleaned by the first process that asks for its state: the answer is stopped,
  and then nothing is left at or below its control and home directories, and none of its tickets opens
  anything, provided that the system kills what it is told to kill.
\<close>

theorem expired_task_is_cleaned:
  assumes "dirExists t (m_processControlPath t)" "fileExists t (getProcessConfigFile t)"
    and "readInfo t = (t1, Inr data)" "m_compiler_pid t1 \<noteq> 0" "m_startTime t1 \<noteq> 0" "0 \<le> maxtime (m_limits t1)"
    and "m_startTime t1 + maxtime (m_limits t1) + 30 < w_now t1" and "cleanable t1"
  shows "\<exists>t'. getState t = (t', Inr stopped) \<and> empty_below (m_processControlPath t1) t' \<and>
    (dirExists t1 (getHomePath t1) \<longrightarrow> empty_below (getHomePath t1) t') \<and>
    (\<forall>k \<in> {m_adminticket t1, m_executionticket t1, m_monitorticket t1, m_httpPassthroughticket t1}.
      k \<noteq> [] \<and> correctPath (cpath (controlPath t1) k) \<and> \<not> w_fails t1 Unlink (cpath (controlPath t1) k) \<longrightarrow>
      absent (cpath (controlPath t1) k) t')"
proof -
  have "getState t = (cleanTask t1, Inr stopped)"
    using assms(1-7) by (simp add: getState_def state_now_def Let_def finish_clean_def jail_harvest_timeout_def)
  then show ?thesis using cleanTask_effect [OF assms(8)] by auto
qed

end
