(* ===== verification/Task_Examples.thy ===== *)
theory Task_Examples
  imports Task_Lifecycle
begin

text \<open>
  A concrete task of prisoner 10001 in a small system, and the properties of tasks applied to it: what
  their hypotheses ask for can be had.
\<close>

definition demo_conf :: configuration where
  "demo_conf = \<lparr>cf_jailLimits = \<lparr>maxtime = 60, maxfilesize = 1000, maxmemory = 0, maxprocesses = 10\<rparr>,
     cf_jailPath = ''/jail'', cf_cleanPATH = ''/bin'', cf_controlPath = ''/c'', cf_minPrisoner = 10000,
     cf_maxPrisoner = 20000, cf_taskOnlyFrom = [], cf_interface = [], cf_URLPath = ''/'', cf_port = 80, cf_sport = 443,
     cf_logLevel = 0, cf_fail2ban = 0, cf_HSTSMaxAge = -1, cf_SSLCipherList = [], cf_SSLCipherSuites = [],
     cf_SSLCertFile = [], cf_SSLKeyFile = [], cf_certbotWebrootPath = [], cf_useCgroup = False,
     cf_useNamespace = False, cf_requestMaxSize = 2048, cf_resultMaxSize = 1024\<rparr>"

definition demo_object :: task where
  "demo_object = \<lparr>m_prisoner = 10001, m_compiler_pid = 7, m_runner_pid = 0, m_monitor_pid = 0,
     m_adminticket = ''11'', m_monitorticket = ''13'', m_executionticket = ''12'', m_httpPassthroughticket = [],
     m_localwebserver = [], m_interactive = False, m_cleaning = False, m_lang = ''C'', m_startTime = 100,
     m_limits = \<lparr>maxtime = 60, maxfilesize = 1000, maxmemory = 0, maxprocesses = 10\<rparr>, m_security = sec_admin,
     m_processControlPath = ''/c/p10001'', m_homePath = ''/jail/home/p10001'',
     w_conf = demo_conf, w_files = [], w_dirs = [''/c'', ''/c/p10001'', ''/jail/home'', ''/jail/home/p10001''],
     w_owned = (\<lambda>_ _. False), w_mtime = (\<lambda>_. 0), w_fails = (\<lambda>_ _. False), w_io = (\<lambda>_. NoFailure), w_pending = [],
     w_now = 1000, w_random = (\<lambda>n. 127 * int n), w_draws = 0, w_pid = 5, w_uid = 0, w_proc = [], w_proc_readable = True,
     w_dies = (\<lambda>_ _. True), w_child = (\<lambda>_. False), w_fork_fails = False, w_alive = (\<lambda>_. False),
     w_running = (\<lambda>_. False), w_cgroup_available = False, w_cgroups = [], w_cgroup_oom = (\<lambda>_. Inr []),
     w_cgroup_usage = (\<lambda>_. Inr 0)\<rparr>"

definition demo_info :: config_data where
  "demo_info = set_pairs (info_pairs demo_object) []"

definition demo_ticket :: config_data where
  "demo_ticket = [(''SECURITY'', ''2''), (''USER_ID'', ''10001'')]"

definition demo_task :: task where
  "demo_task = demo_object\<lparr>w_files := [(''/c/p10001/config'', config_text demo_info), (''/c/12'', config_text demo_ticket),
     (''/c/p10001/compilation'', ''ok''), (''/c/p10001/execution'', ''42'')]\<rparr>"

lemma demo_names: "itos 10001 = ''10001''" "itos 10128 = ''10128''"
proof -
  have "char_of (48::nat) = CHR ''0''" "char_of (49::nat) = CHR ''1''" "char_of (50::nat) = CHR ''2''"
    "char_of (56::nat) = CHR ''8''"
    by code_simp+
  then show "itos 10001 = ''10001''" "itos 10128 = ''10128''" by (simp_all add: itos_def nat_digits.simps)
qed

lemma demo_ok: "info_ok demo_object" "disk_ok demo_object"
proof -
  have p: "plain_value ''11''" "plain_value ''12''" "plain_value ''13''" "plain_value []" "plain_value ''C''"
    by code_simp+
  then show "info_ok demo_object"
    by (simp add: info_ok_def demo_object_def int32_ok_def int64_ok_def int_max_def llong_min_def llong_max_def)
  have "c_str ''/c/p10001'' = ''/c/p10001''" by code_simp
  then show "disk_ok demo_object"
    by (simp add: disk_ok_def demo_object_def dirExists_def nul_def)
qed

lemma demo_info_ok: "storable demo_info" "holds_info demo_info demo_task"
proof -
  have "\<forall>p \<in> set (info_pairs demo_object). plain_value (snd p)"
    using demo_ok(1) by (simp add: info_pairs_def info_ok_def)
  then show "storable demo_info"
    unfolding demo_info_def using info_keys_plain storable_Nil by (intro storable_set_pairs) auto
  have "holds_info demo_info demo_object"
    unfolding holds_info_def demo_info_def cd_get_set_pairs [OF info_keys_distinct]
    by (auto simp: map_of_is_SomeI [OF info_keys_distinct])
  then show "holds_info demo_info demo_task"
    by (simp add: holds_info_def info_pairs_def demo_task_def)
qed

theorem task_state_round_trip_witness:
  "\<exists>t' data. writeInfo [] demo_object = (t', Inr ()) \<and> readInfo t' = (copy_info demo_object t', Inr data)"
proof -
  obtain t' data where *: "writeInfo [] demo_object = (t', Inr ())"
    "\<forall>s. m_processControlPath s = m_processControlPath demo_object \<and> w_files s = w_files t' \<longrightarrow>
      readInfo s = (copy_info demo_object s, if m_cleaning demo_object then Inl TaskCleaning else Inr data)"
    using task_state_round_trip [OF demo_ok(2,1)] by blast
  have "m_processControlPath (fst (writeInfo [] demo_object)) = m_processControlPath demo_object"
    by (rule writeInfo_cases [of "[]" demo_object]) simp_all
  then have "m_processControlPath t' = m_processControlPath demo_object" using *(1) by simp
  moreover have "\<not> m_cleaning demo_object" by (simp add: demo_object_def)
  ultimately show ?thesis using * by auto
qed

lemma demo_paths: "paths_apart demo_conf"
proof -
  have "\<not> is_prefix (''/jail/home'' @ [path_sep]) (cpath ''/c'' n)" "\<not> is_prefix (''/jail/tmp'' @ [path_sep]) (cpath ''/c'' n)"
    "cpath ''/c'' n \<noteq> ''/jail/home''" "cpath ''/c'' n \<noteq> ''/jail/tmp''" for n
    by (simp_all add: cpath_def)
  then show ?thesis by (simp add: paths_apart_def demo_conf_def at_or_below_def nul_def)
qed

lemma demo_select: "\<exists>t'. selectPrisoner (demo_object\<lparr>w_draws := 1\<rparr>) = (t', Inr ())"
proof -
  let ?d = "demo_object\<lparr>w_draws := 1\<rparr>"
  have c: "c_str ''/c/p10128'' = ''/c/p10128''" "c_str ''/jail/home/p10128'' = ''/jail/home/p10128''"
    "to_int32 127 = 127" "to_int32 10000 = 10000" "to_int32 10128 = 10128"
    by code_simp+
  have up: "[0..10000 - 1 :: int] = 0 # [1..9999]" by (subst upto.simps) simp
  have sp: "setPrisonerID 10128 (demo_object\<lparr>w_draws := 2\<rparr>) =
      (demo_object\<lparr>w_draws := 2, m_prisoner := 10128, m_processControlPath := ''/c/p10128''\<rparr>, Inr ())"
    by (simp add: setPrisonerID_def setProcessControlPath_def getPrisonerName_def controlPath_def cpath_def demo_names
        demo_object_def demo_conf_def getHomeDirOwnerUid_def getMinPrisoner_def getMaxPrisoner_def path_sep_def)
  have u: "to_uid (10001 + c_rem (c_abs (to_int32 127)) 10000) = 10128"
    by (simp add: c c_abs_def c_rem_def c_div_def to_uid_def)
  have "\<exists>t'. create_prisoner_dirs (demo_object\<lparr>w_draws := 2, m_prisoner := 10128, m_processControlPath := ''/c/p10128''\<rparr>) = (t', Inr True)"
    by (simp add: create_prisoner_dirs_def make_dir_def dirExists_def fileExists_def demo_object_def c create_home_def
        prisonerHomePath_def prisonerRelativeHomePath_def jailPath_def demo_conf_def demo_names give_home_def op_then_def
        op_bind_def op_return_def Let_def)
  then have "\<exists>t'. select_loop 10000 (0 # [1..9999]) ?d = (t', Inr ())"
  proof -
    let ?s = "demo_object\<lparr>w_draws := 2\<rparr>"
    have r: "op_bind util_random f ?d = f 127 ?s" for f :: "int \<Rightarrow> (task, unit) op"
      by (simp add: op_bind_def util_random_def demo_object_def numeral_2_eq_2)
    have m: "getMinPrisoner (w_conf ?s) = 10001"
      by (simp add: demo_object_def demo_conf_def getMinPrisoner_def)
    obtain t' where "create_prisoner_dirs (demo_object\<lparr>w_draws := 2, m_prisoner := 10128, m_processControlPath := ''/c/p10128''\<rparr>) = (t', Inr True)"
      using \<open>\<exists>t'. create_prisoner_dirs _ = _\<close> by blast
    with sp u m show ?thesis unfolding select_loop.simps r
      by (simp add: op_bind_def op_return_def)
  qed
  moreover have "getMinPrisoner (w_conf ?d) = 10001" "getMaxPrisoner (w_conf ?d) = 20000"
    by (simp_all add: demo_object_def demo_conf_def getMinPrisoner_def getMaxPrisoner_def)
  then have "selectPrisoner ?d = select_loop 10000 (0 # [1..9999]) ?d"
    unfolding selectPrisoner_def Let_def
    using up by (simp add: c jail_min_prisoner_uid_def jail_max_prisoner_uid_def del: select_loop.simps)
  ultimately show ?thesis by simp
qed

theorem prisoner_is_exclusive_witness:
  "\<exists>t'. selectPrisoner (demo_object\<lparr>w_draws := 1\<rparr>) = (t', Inr ()) \<and> isPrisonerUID demo_conf (m_prisoner t') \<and>
    dirExists t' (m_processControlPath t')"
proof -
  obtain t' where run: "selectPrisoner (demo_object\<lparr>w_draws := 1\<rparr>) = (t', Inr ())" using demo_select by blast
  have "w_conf (demo_object\<lparr>w_draws := 1\<rparr>) = demo_conf" "w_uid (demo_object\<lparr>w_draws := 1\<rparr>) = 0"
    by (simp_all add: demo_object_def)
  with prisoner_is_exclusive [OF run] demo_paths run show ?thesis by auto
qed

text \<open>The task opened with its execution ticket, which is used.\<close>

definition demo_consumed :: task where
  "demo_consumed = drop_file ''/c/12'' ((new_object demo_task)\<lparr>m_prisoner := 10001,
     m_processControlPath := ''/c/p10001'', m_security := sec_execute\<rparr>)"

lemma demo_open_run:
  "processMonitor1 ''12'' demo_task = (copy_info demo_task demo_consumed, Inr ())"
  "readInfo demo_consumed = (copy_info demo_task demo_consumed, Inr demo_info)"
proof -
  have st: "storable demo_ticket" unfolding demo_ticket_def by code_simp
  have c: "c_str ''/c/12'' = ''/c/12''" "c_str ''/c/p10001/config'' = ''/c/p10001/config''" 
    "trimAndRemoveQuotes ''12'' = ''12''" "c_atoi ''10001'' = 10001" "c_atoi ''2'' = 2"
    "vplregex_search ticket_reg ''12'' (Suc 0) = Some [''12'']"
    by code_simp+
  note c = c demo_names
  have l: "load_config ''/c/12'' [(''SECURITY'', ''5''), (''USER_ID'', ''0'')] t = (t, Inr demo_ticket)"
    if "w_files t = w_files demo_task" for t
  proof -
    have "add_defaults demo_ticket [(''SECURITY'', ''5''), (''USER_ID'', ''0'')] = demo_ticket" by code_simp
    then show ?thesis using st that by (simp add: load_config_def readConfiguration_def read_written demo_task_def c)
  qed
  define t3 where "t3 = demo_consumed"
  note t3_eq = t3_def
  note t3_def = t3_def [unfolded demo_consumed_def]
  have r: "readInfo t3 = (copy_info demo_task t3, Inr demo_info)"
  proof -
    have "map_of (w_files t3) (getProcessConfigFile t3) = Some (config_text demo_info)"
      by (simp add: t3_def new_object_def demo_task_def getProcessConfigFile_def getProcessControlPath_def cpath_def path_sep_def)
    moreover have "info_ok demo_task" using demo_ok(1) by (simp add: info_ok_def demo_task_def)
    moreover have "nul \<notin> set (m_processControlPath t3)" by (simp add: t3_def nul_def)
    ultimately show ?thesis
      using readInfo_written [OF demo_info_ok, of t3] by (simp add: demo_task_def demo_object_def)
  qed
  have p: "correctPath ''/c/12''" by code_simp
  have "processMonitor1 ''12'' demo_task = (copy_info demo_task t3, Inr ())"
  proof -
    have f: "fileExists (new_object demo_task) ''/c/12''"
      by (simp add: fileExists_def c new_object_def demo_task_def)
    have cp: "cpath (controlPath (new_object demo_task)) ''12'' = ''/c/12''"
      by (simp add: cpath_def controlPath_def new_object_def demo_task_def demo_object_def demo_conf_def path_sep_def)
    have nf: "w_files (new_object demo_task) = w_files demo_task" by (simp add: new_object_def)
    have s: "setPrisonerID 10001 (new_object demo_task) = ((new_object demo_task)\<lparr>m_prisoner := 10001,
        m_processControlPath := ''/c/p10001''\<rparr>, Inr ())"
      by (simp add: setPrisonerID_def setProcessControlPath_def getPrisonerName_def controlPath_def cpath_def c
          new_object_def demo_task_def demo_object_def demo_conf_def getHomeDirOwnerUid_def getMinPrisoner_def
          getMaxPrisoner_def path_sep_def)
    have k: "consume_ticket ''/c/12'' sec_execute ((new_object demo_task)\<lparr>m_prisoner := 10001,
        m_processControlPath := ''/c/p10001''\<rparr>) = (t3, Inr ())"
      using p by (simp add: consume_ticket_def Let_def delete_file_def t3_def new_object_def demo_task_def demo_object_def)
    have e: "fileExists t3 (getProcessConfigFile t3)"
      by (simp add: fileExists_def t3_def new_object_def demo_task_def getProcessConfigFile_def getProcessControlPath_def
          cpath_def path_sep_def c)
    then have o: "open_info t3 = (copy_info demo_task t3, Inr ())"
      by (simp add: open_info_def op_then_def op_bind_def op_return_def r)
    have sec: "m_security (copy_info demo_task t3) = sec_execute"
      by (simp add: copy_info_def t3_def drop_file_def)
    have "use_ticket ''/c/12'' demo_ticket (new_object demo_task) = (copy_info demo_task t3, Inr ())"
      by (simp add: use_ticket_def demo_ticket_def cd_index_def c to_uid_def security_of_def op_then_def op_bind_def
          op_return_def op_when_def s k o sec)
    then show ?thesis
      using f l [of "new_object demo_task"] nf
      by (simp add: processMonitor1_def op_then_def op_bind_def op_modify_def Let_def c cp)
  qed
  then show "processMonitor1 ''12'' demo_task = (copy_info demo_task demo_consumed, Inr ())"
    "readInfo demo_consumed = (copy_info demo_task demo_consumed, Inr demo_info)"
    using r by (simp_all only: t3_eq)
qed

lemma demo_open: "\<exists>t1. processMonitor1 ''12'' demo_task = (t1, Inr ()) \<and> m_security t1 = sec_execute"
  using demo_open_run(1) by (auto simp: copy_info_def demo_consumed_def drop_file_def)

lemma demo_expired: "\<exists>t2. getState (copy_info demo_task demo_consumed) = (t2, Inr stopped)"
proof -
  let ?t = "copy_info demo_task demo_consumed"
  have c: "c_str ''/c/p10001'' = ''/c/p10001''" "c_str ''/c/p10001/config'' = ''/c/p10001/config''" by code_simp+
  note d = copy_info_def demo_consumed_def drop_file_def new_object_def demo_task_def demo_object_def
  have i: "info_ok demo_task" using demo_ok(1) by (simp add: info_ok_def demo_task_def)
  have "map_of (w_files ?t) (getProcessConfigFile ?t) = Some (config_text demo_info)"
    "nul \<notin> set (m_processControlPath ?t)" "\<not> m_cleaning demo_task" "copy_info demo_task ?t = ?t"
    by (simp_all add: d getProcessConfigFile_def getProcessControlPath_def cpath_def path_sep_def nul_def)
  then have r: "readInfo ?t = (?t, Inr demo_info)" using readInfo_written [OF demo_info_ok i, of ?t] by simp
  have "dirExists ?t (m_processControlPath ?t)" "fileExists ?t (getProcessConfigFile ?t)"
    by (simp_all add: d c dirExists_def fileExists_def getProcessConfigFile_def getProcessControlPath_def cpath_def path_sep_def)
  then have "getState ?t = state_now ?t" by (simp add: getState_def r)
  also have "\<dots> = finish_clean ?t" by (simp add: state_now_def d jail_harvest_timeout_def)
  finally show ?thesis by (simp add: finish_clean_def)
qed

theorem ticket_used_once_witness:
  "\<exists>t1. processMonitor1 ''12'' demo_task = (t1, Inr ()) \<and>
    snd (processMonitor1 '' 12 '' t1) = Inl (HttpExn NotFoundCode ''Ticket not found'' [])"
proof -
  obtain t1 where t1: "processMonitor1 ''12'' demo_task = (t1, Inr ())" "m_security t1 = sec_execute"
    using demo_open by blast
  have e: "trimAndRemoveQuotes ''12'' = ''12''" "trimAndRemoveQuotes '' 12 '' = ''12''" "correctPath ''/c/12''"
    by code_simp+
  have cp: "cpath (controlPath demo_task) ''12'' = ''/c/12''" "w_fails demo_task = (\<lambda>_ _. False)"
    by (simp_all add: cpath_def controlPath_def demo_task_def demo_object_def demo_conf_def path_sep_def)
  from ticket_used_once [OF t1(1) disjI2 [OF t1(2)], of t1 "'' 12 ''"] e cp t1 show ?thesis by auto
qed

theorem limitResultSize_correct_witness:
  "length (limitResultSize 4 ''abcdef'') \<le> 224"
proof -
  have "(4 :: nat) < 10 ^ 20" "length ''abcdef'' < 10 ^ 20" by simp_all
  from limitResultSize_correct [OF this] show ?thesis by linarith
qed

lemma demo_control_files: "control_file demo_task ''compilation''" "control_file demo_task ''execution''"
proof -
  have "correctPath ''/c/p10001/compilation''" "correctPath ''/c/p10001/execution''" by code_simp+
  then show "control_file demo_task ''compilation''" "control_file demo_task ''execution''"
    by (simp_all add: control_file_def getProcessControlPath_def cpath_def path_sep_def demo_task_def demo_object_def)
qed

theorem results_delivered_once_witness:
  "\<exists>t'. getResult demo_task = (t', Inr (''ok'', ''42'', True)) \<and> getResult t' = (t', Inr (no_compilation, [], False))"
proof -
  have l: "limitResultSize 2048 ''ok'' = ''ok''" "limitResultSize 2048 ''42'' = ''42''"
    by (simp_all add: limitResultSize_def)
  have "map_of (w_files demo_task) (getProcessControlPath demo_task ''compilation'') = Some ''ok''"
    "map_of (w_files demo_task) (getProcessControlPath demo_task ''execution'') = Some ''42''"
    "m_security demo_task = sec_admin" "\<not> m_interactive demo_task" "2048 = request_limit (w_conf demo_task)"
    by (simp_all add: getProcessControlPath_def cpath_def path_sep_def demo_task_def demo_object_def demo_conf_def request_limit_def)
  with results_delivered_once [of demo_task "''ok''" "Some ''42''" 2048] demo_control_files l show ?thesis by simp
qed

text \<open>A task that has not been compiled yet.\<close>

definition demo_uncompiled :: task where
  "demo_uncompiled = demo_task\<lparr>w_files := [(''/c/p10001/config'', config_text demo_info)]\<rparr>"

lemma demo_read: "readInfo demo_uncompiled = (demo_uncompiled, Inr demo_info)"
proof -
  have "info_ok demo_task" using demo_ok(1) by (simp add: info_ok_def demo_task_def)
  moreover have "map_of (w_files demo_uncompiled) (getProcessConfigFile demo_uncompiled) = Some (config_text demo_info)"
    "nul \<notin> set (m_processControlPath demo_uncompiled)" "\<not> m_cleaning demo_task"
    "copy_info demo_task demo_uncompiled = demo_uncompiled"
    by (simp_all add: demo_uncompiled_def getProcessConfigFile_def getProcessControlPath_def cpath_def path_sep_def
        demo_task_def demo_object_def nul_def copy_info_def)
  ultimately show ?thesis using readInfo_written [OF demo_info_ok, of demo_uncompiled] by simp
qed

lemma demo_uncompiled_files: "control_file demo_uncompiled ''compilation''"
  "map_of (w_files demo_uncompiled) (getProcessControlPath demo_uncompiled ''compilation'') = None"
  "dirExists demo_uncompiled (m_processControlPath demo_uncompiled)"
proof -
  have "c_str ''/c/p10001'' = ''/c/p10001''" by code_simp
  with demo_control_files(1) show "control_file demo_uncompiled ''compilation''"
    "map_of (w_files demo_uncompiled) (getProcessControlPath demo_uncompiled ''compilation'') = None"
    "dirExists demo_uncompiled (m_processControlPath demo_uncompiled)"
    by (simp_all add: demo_uncompiled_def control_file_def getProcessControlPath_def cpath_def path_sep_def
        demo_task_def demo_object_def dirExists_def)
qed

theorem outputs_saved_once_witness:
  "snd (setCompilationOutput ''err'' demo_uncompiled) = Inr () \<and>
   snd (setExecutionOutput ''42'' True demo_uncompiled) = Inl (StringExn ''Execution not saved because compilation is missing'')"
  using outputs_saved_once [OF demo_read demo_uncompiled_files(1,3,2)] by simp


theorem expired_task_is_cleaned_witness:
  "\<exists>t'. getState demo_uncompiled = (t', Inr stopped) \<and> empty_below ''/c/p10001'' t'"
proof -
  have c: "c_str ''/c/p10001'' = ''/c/p10001''" "c_str ''/c/p10001/config'' = ''/c/p10001/config''" by code_simp+
  have f: "fileExists demo_uncompiled (getProcessConfigFile demo_uncompiled)" "w_conf demo_uncompiled = demo_conf"
    "m_compiler_pid demo_uncompiled = 7" "m_startTime demo_uncompiled = 100" "w_now demo_uncompiled = 1000"
    "maxtime (m_limits demo_uncompiled) = 60" "m_processControlPath demo_uncompiled = ''/c/p10001''"
    by (simp_all add: c fileExists_def demo_uncompiled_def getProcessConfigFile_def getProcessControlPath_def cpath_def
        path_sep_def demo_task_def demo_object_def)
  have "cleanable demo_uncompiled"
    using demo_paths demo_uncompiled_files(3)
    by (simp add: cleanable_def f(2) isPrisonerUID_def getMinPrisoner_def getMaxPrisoner_def)
      (simp add: demo_uncompiled_def demo_task_def demo_object_def demo_conf_def int_max_def getPrisonerName_def
        controlPath_def demo_names cpath_def path_sep_def)
  from expired_task_is_cleaned [OF demo_uncompiled_files(3) f(1) demo_read _ _ _ _ this] f show ?thesis by auto
qed

end
