(* ===== verification/Request_Message.thy ===== *)
theory Request_Message
  imports Util_Strings "HOL-Library.Char_ord" "HOL-Library.List_Lexorder"
begin

text \<open>
  The classes \<open>TreeNode\<close> and \<open>RequestMessage\<close>: what both message formats parse to. A node names a part
  of the raw text by position; its content is read from the text when it is asked for. \<open>mapstruct\<close> is a
  \<open>std::map\<close> from names to nodes: a list kept sorted by name, in the order the code iterates.
\<close>

datatype tree = Node (t_tag: string) (t_offset: nat) (t_len: nat) (t_children: "tree list")

definition bad_request :: "string \<Rightarrow> exn" where
  "bad_request m = HttpExn BadRequestCode m []"

definition bad_request_log :: "string \<Rightarrow> string \<Rightarrow> exn" where
  "bad_request_log m l = HttpExn BadRequestCode m l"

definition getRawContent :: "string \<Rightarrow> tree \<Rightarrow> string" where
  "getRawContent raw n = substr raw (t_offset n) (t_len n)"

definition nchild :: "tree \<Rightarrow> nat" where
  "nchild n = length (t_children n)"

definition child_at :: "nat \<Rightarrow> tree \<Rightarrow> tree result" where
  "child_at i n = (if i \<ge> nchild n then
       Inl (bad_request_log ''Message data structure error'' ''The index of child requested does not exist'')
     else Inr (t_children n ! i))"

definition child_named :: "string \<Rightarrow> tree \<Rightarrow> tree result" where
  "child_named stag n = (case filter (\<lambda>c. t_tag c = stag) (t_children n) of
      [] \<Rightarrow> Inl (bad_request (''The child or attribute name requested does not exist '' @ stag))
    | c # cs \<Rightarrow> Inr c)"

text \<open>\<open>long long\<close> to \<open>int\<close>, clamped from above only.\<close>

definition clamp_int :: "int \<Rightarrow> int" where
  "clamp_int v = (if v > int_max then int_max else to_int32 v)"

text \<open>
  \<open>TreeNode::getInt\<close> and \<open>getLong\<close>, of XML messages. \<open>dbl\<close> reads a decimal fraction and drops what is behind
  the point: \<open>atof\<close> and the conversion of a \<open>double\<close> that is within the range of the type.
\<close>

definition xml_getInt :: "(string \<Rightarrow> int) \<Rightarrow> string \<Rightarrow> tree \<Rightarrow> int result" where
  "xml_getInt dbl raw n =
     (if t_tag n = ''int'' then Inr (clamp_int (strtoll (getRawContent raw n)))
      else if t_tag n = ''double'' then
        (let v = dbl (getRawContent raw n) in Inr (if v \<ge> int_max then int_max else to_int32 v))
      else Inl (bad_request_log ''Message data type error'' (''Expected int found '' @ t_tag n)))"

definition xml_getLong :: "(string \<Rightarrow> int) \<Rightarrow> string \<Rightarrow> tree \<Rightarrow> int result" where
  "xml_getLong dbl raw n =
     (if t_tag n = ''int'' then Inr (strtoll (getRawContent raw n))
      else if t_tag n = ''double'' then
        (let v = dbl (getRawContent raw n) in Inr (if v \<ge> int_max then int_max else v))
      else Inl (bad_request_log ''Message data type error'' (''Expected int found '' @ t_tag n)))"

section \<open>Structures\<close>

type_synonym mapstruct = "(string \<times> tree) list"

fun ms_set :: "mapstruct \<Rightarrow> string \<Rightarrow> tree \<Rightarrow> mapstruct" where
  "ms_set [] k v = [(k, v)]"
| "ms_set ((a, w) # m) k v =
     (if k < a then (k, v) # (a, w) # m else if k = a then (k, v) # m else (a, w) # ms_set m k v)"

definition ms_get :: "mapstruct \<Rightarrow> string \<Rightarrow> tree option" where
  "ms_get m k = map_of m k"

text \<open>\<open>data["files"]\<close> of a name that is not there is a null pointer, and using it is undefined.\<close>

definition ms_index :: "mapstruct \<Rightarrow> string \<Rightarrow> tree result" where
  "ms_index m k = (case ms_get m k of Some n \<Rightarrow> Inr n | None \<Rightarrow> Inl (UndefinedBehaviour ''null TreeNode''))"

lemma ms_get_set [simp]: "ms_get (ms_set m k v) a = (if a = k then Some v else ms_get m a)"
  by (induction m k v rule: ms_set.induct) (auto simp: ms_get_def)

lemma ms_set_sorted: "sorted_wrt (<) (map fst m) \<Longrightarrow> sorted_wrt (<) (map fst (ms_set m k v))"
proof (induction m k v rule: ms_set.induct)
  case (2 a w m k v)
  have keys: "fst ` set (ms_set m k v) = insert k (fst ` set m)" for k v and m :: mapstruct
    by (induction m k v rule: ms_set.induct) auto
  show ?case using 2 by (auto simp: keys)
qed simp

lemma child_named_first:
  "t_children n = pre @ c # post \<Longrightarrow> t_tag c = k \<Longrightarrow> \<forall>d \<in> set pre. t_tag d \<noteq> k \<Longrightarrow> child_named k n = Inr c"
  by (simp add: child_named_def)

end
