(* ===== verification/Xml.thy ===== *)
theory Xml
  imports Request_Message Utf8
begin

text \<open>
  The class \<open>XML\<close>: tags are found in the raw text, a node holds what is between its two tags, and a tag with
  nothing between the angles is read before its start. Proved: the recursion ends for every text; the tree of a
  printed document is read back from it; and a text that is encoded and decoded comes back cleaned.
\<close>

section \<open>Tags and nodes\<close>

definition nextTag :: "string \<Rightarrow> nat \<Rightarrow> (string \<times> nat \<times> nat) option result" where
  "nextTag raw offset = (case find_char (CHR ''<'') raw offset of
      None \<Rightarrow> Inr None
    | Some b \<Rightarrow> (case find_char (CHR ''>'') raw b of
        None \<Rightarrow> Inl (bad_request ''XML parse error: unexpected end of XML'')
      | Some e \<Rightarrow> Inr (Some (substr raw (b + 1) (e - (b + 1)), e + 1, b))))"

datatype tag_kind = EndTag string | EmptyTag string | StartTag string

text \<open>\<open>ntag[l - 1]\<close> of an empty tag is in front of the string.\<close>

definition kind_of_tag :: "string \<Rightarrow> tag_kind result" where
  "kind_of_tag ntag =
     (if ntag = [] then Inl (UndefinedBehaviour ''ntag[-1]'')
      else if hd ntag = CHR ''/'' then Inr (EndTag (tl ntag))
      else if last ntag = CHR ''/'' then Inr (EmptyTag (butlast ntag))
      else Inr (StartTag ntag))"

lemma nextTag_Some:
  assumes "nextTag raw offset = Inr (Some (t, o2, b))"
  shows "offset \<le> b" "b < o2" "o2 \<le> length raw"
proof -
  obtain e where "find_char (CHR ''<'') raw offset = Some b" "find_char (CHR ''>'') raw b = Some e" "o2 = e + 1"
    using assms by (auto simp: nextTag_def split: option.splits)
  then show "offset \<le> b" "b < o2" "o2 \<le> length raw"
    using find_char_split [of "CHR ''<''" raw offset b] find_char_split [of "CHR ''>''" raw b e] by simp_all
qed

lemma nextTag_bounds: "nextTag raw offset = Inr (Some (t, o2, b)) \<Longrightarrow> offset < o2 \<and> offset < length raw"
  using nextTag_Some [of raw offset t o2 b] by simp

text \<open>
  \<open>processNode\<close> of the node that has the name and the start: the loop with the position and the children found,
  newest first. A child is read by the same function. The position after a child is always behind the one before
  it, which \<open>xml_node_unfold\<close> proves, so that the test of it is always passed.
\<close>

function xml_node :: "string \<Rightarrow> string \<Rightarrow> nat \<Rightarrow> nat \<Rightarrow> tree list \<Rightarrow> (tree \<times> nat) result" where
  "xml_node raw name start offset cs =
     (case nextTag raw offset of
        Inl e \<Rightarrow> Inl e
      | Inr None \<Rightarrow> Inl (bad_request ''XML parse error: end tag not found'')
      | Inr (Some (ntag, o2, ontag)) \<Rightarrow>
        (case kind_of_tag ntag of
           Inl e \<Rightarrow> Inl e
         | Inr (EndTag t) \<Rightarrow>
             (if name = t then Inr (Node name start (ontag - start) (rev cs), o2)
              else Inl (bad_request_log ''XML parse error: unexpected end of tag'' t))
         | Inr (EmptyTag t) \<Rightarrow> xml_node raw name start o2 (Node t o2 0 [] # cs)
         | Inr (StartTag t) \<Rightarrow>
             (case xml_node raw t o2 o2 [] of
                Inl e \<Rightarrow> Inl e
              | Inr (child, o3) \<Rightarrow>
                if offset < o3 then xml_node raw name start o3 (child # cs)
                else Inl (UndefinedBehaviour ''no progress''))))"
  by pat_completeness auto
termination
  by (relation "measure (\<lambda>(raw, name, start, offset, cs). length raw - offset)")
    (auto dest!: nextTag_bounds)

declare xml_node.simps [simp del]

definition xml_parse :: "string \<Rightarrow> tree result" where
  "xml_parse raw = bind_result (nextTag raw 0) (\<lambda>t1. case t1 of
      None \<Rightarrow> Inl (bad_request ''XML parse error: start tag not found'')
    | Some (u, o1, v) \<Rightarrow> bind_result (nextTag raw o1) (\<lambda>t2. case t2 of
        None \<Rightarrow> Inl (bad_request ''XML parse error: start tag not found'')
      | Some (tag, o2, w) \<Rightarrow> bind_result (xml_node raw tag o2 o2 []) (\<lambda>(n, e). Inr n)))"

lemma xml_node_progress: "xml_node raw name start offset cs = Inr (n, e) \<Longrightarrow> offset < e"
proof (induction raw name start offset cs arbitrary: n e rule: xml_node.induct)
  case (1 raw name start offset cs)
  obtain ntag o2 b where t: "nextTag raw offset = Inr (Some (ntag, o2, b))"
    using "1.prems" by (subst (asm) xml_node.simps) (auto split: sum.splits option.splits)
  obtain k where k: "kind_of_tag ntag = Inr k"
    using "1.prems" t by (subst (asm) xml_node.simps) (auto split: sum.splits)
  have o2: "offset < o2" using nextTag_Some [OF t] by simp
  show ?case
  proof (cases k)
    case (EndTag x)
    with "1.prems" t k o2 show ?thesis by (subst (asm) xml_node.simps) (auto split: if_splits)
  next
    case (EmptyTag x)
    then have "xml_node raw name start o2 (Node x o2 0 [] # cs) = Inr (n, e)"
      using "1.prems" t k by (subst (asm) xml_node.simps) simp
    with "1.IH"(1) [OF t refl refl refl k] EmptyTag o2 show ?thesis by fastforce
  next
    case (StartTag x)
    then obtain c o3 where c: "xml_node raw x o2 o2 [] = Inr (c, o3)" "offset < o3"
        "xml_node raw name start o3 (c # cs) = Inr (n, e)"
      using "1.prems" t k by (subst (asm) xml_node.simps) (auto split: sum.splits if_splits)
    with "1.IH"(3) [OF t refl refl refl k StartTag c(1) refl c(2)] show ?thesis by fastforce
  qed
qed

text \<open>
  The function that is proved to end obeys the equations of the code, in which a node is read by reading its
  children one after the other wherever they end: the recursion of the XML parser ends for every text.
\<close>

lemma xml_node_unfold:
  "xml_node raw name start offset cs =
     (case nextTag raw offset of
        Inl e \<Rightarrow> Inl e
      | Inr None \<Rightarrow> Inl (bad_request ''XML parse error: end tag not found'')
      | Inr (Some (ntag, o2, ontag)) \<Rightarrow>
        (case kind_of_tag ntag of
           Inl e \<Rightarrow> Inl e
         | Inr (EndTag t) \<Rightarrow>
             (if name = t then Inr (Node name start (ontag - start) (rev cs), o2)
              else Inl (bad_request_log ''XML parse error: unexpected end of tag'' t))
         | Inr (EmptyTag t) \<Rightarrow> xml_node raw name start o2 (Node t o2 0 [] # cs)
         | Inr (StartTag t) \<Rightarrow> bind_result (xml_node raw t o2 o2 []) (\<lambda>(child, o3). xml_node raw name start o3 (child # cs))))"
proof -
  have "offset < o3" if "nextTag raw offset = Inr (Some (ntag, o2, b))" "xml_node raw t o2 o2 [] = Inr (c, o3)" for ntag o2 b t c o3
    using nextTag_Some [OF that(1)] xml_node_progress [OF that(2)] by simp
  then show ?thesis
    by (subst xml_node.simps) (auto split: sum.splits option.splits tag_kind.splits)
qed

section \<open>Texts\<close>

definition encode_xml_char :: "char \<Rightarrow> string" where
  "encode_xml_char c = (if c = CHR ''&'' then ''&amp;'' else if c = CHR ''<'' then ''&lt;''
     else if c = CHR ''>'' then ''&gt;'' else if c = squote then ''&apos;'' else if c = dquote then ''&quot;'' else [c])"

definition encodeXML :: "string \<Rightarrow> string" where
  "encodeXML rawdata = concat (map encode_xml_char (get_clean_utf8 rawdata))"

definition xml_decode_error :: exn where
  "xml_decode_error = bad_request ''XML string decode error''"

definition decode_entity :: "string \<Rightarrow> char result" where
  "decode_entity code =
     (if code \<noteq> [] \<and> hd code = CHR ''#'' then Inr (char_of (nat (c_atoi (tl code) mod 256)))
      else if code = ''amp'' then Inr (CHR ''&'') else if code = ''lt'' then Inr (CHR ''<'')
      else if code = ''gt'' then Inr (CHR ''>'') else if code = ''apos'' then Inr squote
      else if code = ''quot'' then Inr dquote else Inl xml_decode_error)"

function decodeXML :: "string \<Rightarrow> string result" where
  "decodeXML [] = Inr []"
| "decodeXML (c # cs) =
     (if c = CHR ''&'' then
        (case dropWhile (\<lambda>d. d \<noteq> CHR '';'') cs of
           [] \<Rightarrow> Inl xml_decode_error
         | semicolon # rest \<Rightarrow>
           bind_result (decode_entity (takeWhile (\<lambda>d. d \<noteq> CHR '';'') cs)) (\<lambda>d.
           bind_result (decodeXML rest) (\<lambda>ds. Inr (d # ds))))
      else bind_result (decodeXML cs) (\<lambda>ds. Inr (c # ds)))"
  by pat_completeness auto
termination
proof (relation "measure length")
  fix cs rest :: string and semicolon :: char
  assume "dropWhile (\<lambda>d. d \<noteq> CHR '';'') cs = semicolon # rest"
  then have "length (semicolon # rest) \<le> length cs" by (metis length_dropWhile_le)
  then show "(rest, c # cs) \<in> measure length" for c by simp
qed auto

definition xml_getString :: "string \<Rightarrow> tree \<Rightarrow> string result" where
  "xml_getString raw n = (if t_tag n = ''string'' \<or> t_tag n = ''name'' then decodeXML (getRawContent raw n)
     else Inl (bad_request_log ''Message data type error'' (''Expected string and found '' @ t_tag n)))"

lemma decode_encoded_char: "decodeXML (encode_xml_char c @ s) = bind_result (decodeXML s) (\<lambda>ds. Inr (c # ds))"
proof -
  consider "c \<in> {CHR ''&'', CHR ''<'', CHR ''>'', squote, dquote}" | "c \<notin> {CHR ''&'', CHR ''<'', CHR ''>'', squote, dquote}"
    by blast
  then show ?thesis
    by cases (auto simp: encode_xml_char_def decode_entity_def char_names)
qed

text \<open>A text that is encoded has no markup left, and decodes to the clean text.\<close>

lemma xml_text_round_trip:
  "decodeXML (encodeXML s) = Inr (get_clean_utf8 s) \<and> (\<forall>c \<in> set (encodeXML s). c \<notin> {CHR ''<'', CHR ''>'', dquote, squote})"
proof
  have "decodeXML (concat (map encode_xml_char s)) = Inr s" for s
    by (induction s) (simp_all add: decode_encoded_char)
  then show "decodeXML (encodeXML s) = Inr (get_clean_utf8 s)" by (simp add: encodeXML_def)
  have "\<forall>d \<in> set (encode_xml_char c). d \<notin> {CHR ''<'', CHR ''>'', dquote, squote}" for c
    by (auto simp: encode_xml_char_def char_names)
  then show "\<forall>c \<in> set (encodeXML s). c \<notin> {CHR ''<'', CHR ''>'', dquote, squote}" by (auto simp: encodeXML_def)
qed

section \<open>Documents\<close>

text \<open>An element: its tag, the text before its children, the children, and the text behind its end tag.\<close>

datatype elem = Elem (e_tag: string) (e_text: string) (e_children: "elem list") (e_tail: string)

definition tag_text :: "string \<Rightarrow> string" where "tag_text t = CHR ''<'' # t @ ''>''"

definition end_tag :: "string \<Rightarrow> string" where "end_tag t = tag_text (CHR ''/'' # t)"

fun show_elem :: "elem \<Rightarrow> string" and show_forest :: "elem list \<Rightarrow> string" where
  "show_elem (Elem t s es u) = tag_text t @ s @ show_forest es @ end_tag t @ u"
| "show_forest [] = []"
| "show_forest (e # es) = show_elem e @ show_forest es"

definition text_ok :: "string \<Rightarrow> bool" where "text_ok s \<longleftrightarrow> CHR ''<'' \<notin> set s"

definition tag_ok :: "string \<Rightarrow> bool" where
  "tag_ok t \<longleftrightarrow> t \<noteq> [] \<and> hd t \<noteq> CHR ''/'' \<and> last t \<noteq> CHR ''/'' \<and> CHR ''>'' \<notin> set t"

fun elem_ok :: "elem \<Rightarrow> bool" and forest_ok :: "elem list \<Rightarrow> bool" where
  "elem_ok (Elem t s es u) \<longleftrightarrow> tag_ok t \<and> text_ok s \<and> text_ok u \<and> forest_ok es"
| "forest_ok [] \<longleftrightarrow> True"
| "forest_ok (e # es) \<longleftrightarrow> elem_ok e \<and> forest_ok es"

fun is_elem :: "string \<Rightarrow> tree \<Rightarrow> elem \<Rightarrow> bool" and is_forest :: "string \<Rightarrow> tree list \<Rightarrow> elem list \<Rightarrow> bool" where
  "is_elem raw n (Elem t s es u) \<longleftrightarrow> t_tag n = t \<and> getRawContent raw n = s @ show_forest es \<and> is_forest raw (t_children n) es"
| "is_forest raw ns [] \<longleftrightarrow> ns = []"
| "is_forest raw ns (e # es) \<longleftrightarrow> (case ns of [] \<Rightarrow> False | n # ns \<Rightarrow> is_elem raw n e \<and> is_forest raw ns es)"

lemma find_char_at:
  assumes "raw = pre @ s @ c # post" "c \<notin> set s"
  shows "find_char c raw (length pre) = Some (length pre + length s)"
proof -
  have "takeWhile (\<lambda>d. d \<noteq> c) (s @ c # post) = s" using assms(2) by (intro takeWhile_append_stop) auto
  moreover have "takeWhile (\<lambda>d. d \<noteq> c) (s @ c # post) = takeWhile (\<lambda>d. \<not> d = c) (s @ c # post)" by simp
  ultimately show ?thesis using assms(1) by (simp add: find_char_def index_from_takeWhile)
qed

lemma nextTag_at:
  assumes "raw = pre @ s @ tag_text t @ post" "text_ok s" "CHR ''>'' \<notin> set t"
  shows "nextTag raw (length pre) = Inr (Some (t, length pre + length s + length (tag_text t), length pre + length s))"
proof -
  have 1: "find_char (CHR ''<'') raw (length pre) = Some (length pre + length s)"
    using find_char_at [of raw pre s "CHR ''<''" "t @ CHR ''>'' # post"] assms by (simp add: tag_text_def text_ok_def)
  have "find_char (CHR ''>'') raw (length (pre @ s)) = Some (length (pre @ s) + length (CHR ''<'' # t))"
    using assms by (intro find_char_at) (auto simp: tag_text_def)
  then have "find_char (CHR ''>'') raw (length pre + length s) = Some (length pre + length s + length t + 1)" by simp
  with 1 show ?thesis using assms(1) by (simp add: nextTag_def substr_def tag_text_def)
qed

lemma kind_of_tags:
  "tag_ok t \<Longrightarrow> kind_of_tag t = Inr (StartTag t)" "kind_of_tag (CHR ''/'' # t) = Inr (EndTag t)"
  by (simp_all add: kind_of_tag_def tag_ok_def)

lemma end_tag_ok: "tag_ok t \<Longrightarrow> CHR ''>'' \<notin> set (CHR ''/'' # t)"
  by (simp add: tag_ok_def)

text \<open>The loop of a node from the text in front of some of its children on.\<close>

definition reads_forest :: "elem list \<Rightarrow> bool" where
  "reads_forest es \<longleftrightarrow> (\<forall>raw pre s name post start cs.
     raw = pre @ s @ show_forest es @ end_tag name @ post \<and> text_ok s \<and> forest_ok es \<and> tag_ok name \<longrightarrow>
     (\<exists>ns. xml_node raw name start (length pre) cs = Inr (Node name start (length pre + length s + length (show_forest es) - start)
         (rev cs @ ns), length pre + length s + length (show_forest es) + length (end_tag name)) \<and> is_forest raw ns es))"

lemma reads_forestD:
  "reads_forest es \<Longrightarrow> raw = pre @ s @ show_forest es @ end_tag name @ post \<Longrightarrow> text_ok s \<Longrightarrow> forest_ok es \<Longrightarrow> tag_ok name \<Longrightarrow>
   \<exists>ns. xml_node raw name start (length pre) cs = Inr (Node name start (length pre + length s + length (show_forest es) - start)
         (rev cs @ ns), length pre + length s + length (show_forest es) + length (end_tag name)) \<and> is_forest raw ns es"
  unfolding reads_forest_def by blast

lemma reads_forest_Nil: "reads_forest []"
  unfolding reads_forest_def
proof (intro allI impI, elim conjE)
  fix raw pre s name post and start :: nat and cs
  assume r: "raw = pre @ s @ show_forest [] @ end_tag name @ post" and s: "text_ok s" and n: "tag_ok name"
  have "nextTag raw (length pre) = Inr (Some (CHR ''/'' # name, length pre + length s + length (end_tag name), length pre + length s))"
    using nextTag_at [of raw pre s "CHR ''/'' # name" post] r s end_tag_ok [OF n] by (simp add: end_tag_def)
  then show "\<exists>ns. xml_node raw name start (length pre) cs = Inr (Node name start (length pre + length s + length (show_forest []) - start)
         (rev cs @ ns), length pre + length s + length (show_forest []) + length (end_tag name)) \<and> is_forest raw ns []"
    by (subst xml_node_unfold) (simp add: kind_of_tags)
qed

lemma reads_forest_Cons:
  assumes inner: "reads_forest xs" and rest: "reads_forest es"
  shows "reads_forest (Elem t s' xs u # es)"
  unfolding reads_forest_def
proof (intro allI impI, elim conjE)
  fix raw pre s name post and start :: nat and cs
  let ?e = "Elem t s' xs u"
  assume r: "raw = pre @ s @ show_forest (?e # es) @ end_tag name @ post" and s: "text_ok s"
    and ok: "forest_ok (?e # es)" and n: "tag_ok name"
  define p2 where "p2 = pre @ s @ tag_text t"
  define p3 where "p3 = p2 @ s' @ show_forest xs @ end_tag t"
  have t: "tag_ok t" "text_ok s'" "text_ok u" "forest_ok xs" "forest_ok es" using ok by simp_all
  have "nextTag raw (length pre) = Inr (Some (t, length p2, length pre + length s))"
    using nextTag_at [of raw pre s t] r s t(1) by (simp add: p2_def tag_ok_def)
  moreover have r2: "raw = p2 @ s' @ show_forest xs @ end_tag t @ (u @ show_forest es @ end_tag name @ post)"
    using r by (simp add: p2_def)
  then obtain ns where ns: "xml_node raw t (length p2) (length p2) [] = Inr (Node t (length p2)
      (length s' + length (show_forest xs)) ns, length p3)" "is_forest raw ns xs"
    using reads_forestD [OF inner r2 t(2,4,1), of "length p2" "[]"] by (auto simp: p3_def)
  moreover have r3: "raw = p3 @ u @ show_forest es @ end_tag name @ post" using r2 by (simp add: p3_def)
  then obtain ms where ms: "xml_node raw name start (length p3) (Node t (length p2) (length s' + length (show_forest xs)) ns # cs) =
      Inr (Node name start (length p3 + length u + length (show_forest es) - start)
       (rev (Node t (length p2) (length s' + length (show_forest xs)) ns # cs) @ ms),
       length p3 + length u + length (show_forest es) + length (end_tag name))" "is_forest raw ms es"
    using reads_forestD [OF rest r3 t(3,5) n] by blast
  moreover have "getRawContent raw (Node t (length p2) (length s' + length (show_forest xs)) ns) = s' @ show_forest xs"
    using r2 by (simp add: getRawContent_def substr_def)
  moreover have "length p3 + length u + length (show_forest es) = length pre + length s + length (show_forest (?e # es))"
    by (simp add: p3_def p2_def)
  ultimately show "\<exists>ns. xml_node raw name start (length pre) cs = Inr (Node name start
         (length pre + length s + length (show_forest (?e # es)) - start)
         (rev cs @ ns), length pre + length s + length (show_forest (?e # es)) + length (end_tag name)) \<and>
       is_forest raw ns (?e # es)"
    using kind_of_tags(1) [OF t(1)]
    by (subst xml_node_unfold)
      (intro exI [of _ "Node t (length p2) (length s' + length (show_forest xs)) ns # ms"], simp)
qed

lemma every_forest_reads: "reads_forest (e_children e)" "reads_forest es"
proof (induction e and es rule: show_elem_show_forest.induct)
  case (3 e es)
  then show ?case using reads_forest_Cons by (cases e) auto
qed (simp_all add: reads_forest_Nil)

text \<open>A document with one tag in front, as the declaration of XML, is read to the tree it shows.\<close>

lemma xml_parse_print:
  assumes "text_ok before" "CHR ''>'' \<notin> set decl" "text_ok between" "elem_ok e"
  shows "\<exists>n. xml_parse (before @ tag_text decl @ between @ show_elem e) = Inr n \<and>
    is_elem (before @ tag_text decl @ between @ show_elem e) n e"
proof -
  obtain t s es u where e: "e = Elem t s es u" by (cases e)
  let ?raw = "before @ tag_text decl @ between @ show_elem e"
  define p1 where "p1 = before @ tag_text decl"
  define p2 where "p2 = p1 @ between @ tag_text t"
  have ok: "tag_ok t" "text_ok s" "forest_ok es" using assms(4) e by simp_all
  have 1: "nextTag ?raw 0 = Inr (Some (decl, length p1, length before))"
    using nextTag_at [of ?raw "[]" before decl] assms by (simp add: p1_def)
  have 2: "nextTag ?raw (length p1) = Inr (Some (t, length p2, length p1 + length between))"
    using nextTag_at [of ?raw p1 between t] assms ok e by (simp add: p1_def p2_def tag_ok_def)
  have r: "?raw = p2 @ s @ show_forest es @ end_tag t @ u" using e by (simp add: p1_def p2_def)
  obtain ns where ns: "xml_node ?raw t (length p2) (length p2) [] = Inr (Node t (length p2) (length s + length (show_forest es)) ns,
      length p2 + length s + length (show_forest es) + length (end_tag t))" "is_forest ?raw ns es"
    using reads_forestD [OF every_forest_reads(2) r ok(2,3,1), of "length p2" "[]"] by auto
  have "getRawContent ?raw (Node t (length p2) (length s + length (show_forest es)) ns) = s @ show_forest es"
    unfolding getRawContent_def substr_def r by simp
  then have "is_elem ?raw (Node t (length p2) (length s + length (show_forest es)) ns) e" using ns(2) by (simp add: e)
  moreover have "xml_parse ?raw = Inr (Node t (length p2) (length s + length (show_forest es)) ns)"
    using 1 2 ns(1) by (simp add: xml_parse_def)
  ultimately show ?thesis by blast
qed

end
