(* ===== verification/Json.thy ===== *)
theory Json
  imports Request_Message
begin

text \<open>
  The class \<open>JSON\<close>: a recursive descent parser over positions of the raw text, and the encoder and decoder
  of strings. The parser recurses once for every level and every member; \<open>fuel\<close> bounds the recursion,
  \<open>None\<close> is running out of it, and twice the length of the text is proved to be enough for every text. Proved
  too: whatever string is encoded, decoding gives it back; and a value printed in the form the responses
  use is parsed to a tree of that value.
\<close>

section \<open>Strings\<close>

definition hex_digit :: "nat \<Rightarrow> char" where
  "hex_digit n = (if n < 10 then char_of (48 + n) else char_of (87 + n))"

text \<open>\<open>setw(4)\<close> and \<open>setfill('0')\<close> of a byte.\<close>

definition char_to_hex :: "nat \<Rightarrow> string" where
  "char_to_hex c = [backslash, CHR ''u'', CHR ''0'', CHR ''0'', hex_digit (c div 16), hex_digit (c mod 16)]"

definition encode_char :: "char \<Rightarrow> string" where
  "encode_char c =
     (if byte_val c \<ge> 128 then [c]
      else if c = dquote then [backslash, dquote]
      else if c = backslash then [backslash, backslash]
      else if c = CHR ''/'' then [backslash, CHR ''/'']
      else if c = CHR 0x08 then [backslash, CHR ''b'']
      else if c = CHR 0x0C then [backslash, CHR ''f'']
      else if c = lf then [backslash, CHR ''n'']
      else if c = cr then [backslash, CHR ''r'']
      else if c = tab then [backslash, CHR ''t'']
      else if byte_val c = 127 then char_to_hex (byte_val c)
      else if byte_val c \<le> 31 then char_to_hex (byte_val c)
      else [c])"

definition encodeJSONString :: "string \<Rightarrow> string" where
  "encodeJSONString data = concat (map encode_char data)"

text \<open>
  \<open>ss >> hex >> unicode\<close> on at most four bytes: blanks, a sign, \<open>0x\<close>, digits up to another byte; no
  digits give 0, and a text of blanks only leaves the variable as it was, without a value.
\<close>

definition is_hex :: "char \<Rightarrow> bool" where
  "is_hex c \<longleftrightarrow> is_digit c \<or> (65 \<le> byte_val c \<and> byte_val c \<le> 70) \<or> (97 \<le> byte_val c \<and> byte_val c \<le> 102)"

definition hex_number :: "string \<Rightarrow> nat" where
  "hex_number s = foldl (\<lambda>a c. 16 * a + hex_value c) 0 (takeWhile is_hex s)"

definition scan_hex :: "string \<Rightarrow> nat option" where
  "scan_hex s0 = (let s = dropWhile is_c_space s0 in
     if s = [] then None
     else let neg = (hd s = CHR ''-'');
         s = (if hd s = CHR ''-'' \<or> hd s = CHR ''+'' then tl s else s);
         s = (if is_prefix ''0x'' s \<or> is_prefix ''0X'' s then drop 2 s else s);
         n = hex_number s in
       Some (if neg then (18446744073709551616 - n) mod 18446744073709551616 else n))"

definition replacement :: string where "replacement = [CHR 0xEF, CHR 0xBF, CHR 0xBD]"

definition utf8_bytes :: "nat list \<Rightarrow> string" where "utf8_bytes ns = map (\<lambda>n. char_of (n mod 256)) ns"

definition utf8_3 :: "nat \<Rightarrow> string" where
  "utf8_3 u = utf8_bytes [(drop_bit 12 u AND 15) OR 224, (drop_bit 6 u AND 63) OR 128, (u AND 63) OR 128]"

definition utf8_4 :: "nat \<Rightarrow> string" where
  "utf8_4 u = utf8_bytes [(drop_bit 18 u AND 7) OR 240, (drop_bit 12 u AND 63) OR 128, (drop_bit 6 u AND 63) OR 128,
     (u AND 63) OR 128]"

text \<open>\<open>decodeHexaUnicodeToUTF8\<close>: the text for the escape at \<open>i\<close> and the position of its last byte.\<close>

definition no_value :: exn where "no_value = UndefinedBehaviour ''uninitialised unicode''"

definition decodeHexaUnicodeToUTF8 :: "string \<Rightarrow> nat \<Rightarrow> (string \<times> nat) result" where
  "decodeHexaUnicodeToUTF8 data i =
     (if i + 4 > length data then Inr (replacement, length data - 1)
      else case scan_hex (substr data i 4) of
        None \<Rightarrow> Inl no_value
      | Some unicode \<Rightarrow>
        if unicode \<le> 127 then Inr (utf8_bytes [unicode], i + 3)
        else if unicode \<le> 2047 then
          Inr (utf8_bytes [(drop_bit 6 unicode AND 31) OR 192, (unicode AND 63) OR 128], i + 3)
        else if 55296 \<le> unicode \<and> unicode < 56320 then
          (if substr data (i + 4) 2 \<noteq> [backslash, CHR ''u''] \<or> i + 10 > length data then Inr (replacement, i + 3)
           else case scan_hex (substr data (i + 6) 4) of
             None \<Rightarrow> Inl no_value
           | Some low \<Rightarrow>
             if \<not> (56320 \<le> low \<and> low \<le> 57343) then Inr (replacement @ replacement, i + 6)
             else Inr (utf8_4 ((push_bit 10 (unicode AND 1023) OR (low AND 1023)) + 65536), i + 9))
        else if 56320 \<le> unicode \<and> unicode \<le> 57343 then Inr (replacement, i + 3)
        else Inr (utf8_3 unicode, i + 3))"

definition simple_escape :: "char \<Rightarrow> char option" where
  "simple_escape c = (if c = backslash then Some backslash else if c = dquote then Some dquote
     else if c = CHR ''/'' then Some (CHR ''/'') else if c = CHR ''b'' then Some (CHR 0x08)
     else if c = CHR ''f'' then Some (CHR 0x0C) else if c = CHR ''n'' then Some lf
     else if c = CHR ''r'' then Some cr else if c = CHR ''t'' then Some tab else None)"

definition bad_escape :: exn where "bad_escape = bad_request ''JSON coding error: bad escape sequence''"

text \<open>
  The loop of \<open>decodeJSONString\<close>. The decoder of a hexadecimal escape moves \<open>i\<close> to the last byte it has
  used, which is never before the \<open>u\<close>; the test of that makes the recursion plainly decreasing.
\<close>

function decode_from :: "string \<Rightarrow> nat \<Rightarrow> nat \<Rightarrow> string \<Rightarrow> string result" where
  "decode_from data limit i ret =
     (if limit \<le> i then Inr ret
      else let c = data ! i in
        if c = backslash then
          (if i + 1 \<ge> limit then Inr ret
           else let e = data ! (i + 1) in
             if e = CHR ''u'' then
               (case decodeHexaUnicodeToUTF8 data (i + 2) of
                  Inl x \<Rightarrow> Inl x
                | Inr (t, j) \<Rightarrow> if i + 1 \<le> j then decode_from data limit (j + 1) (ret @ t) else Inr (ret @ t))
             else case simple_escape e of
                Some d \<Rightarrow> decode_from data limit (i + 2) (ret @ [d])
              | None \<Rightarrow> Inl bad_escape)
        else if c = dquote then Inr ret
        else decode_from data limit (i + 1) (ret @ [c]))"
  by pat_completeness auto
termination
  by (relation "measure (\<lambda>(data, limit, i, ret). limit - i)") auto

declare decode_from.simps [simp del]

definition decodeJSONString :: "string \<Rightarrow> nat \<Rightarrow> nat \<Rightarrow> string result" where
  "decodeJSONString data i len = decode_from data (min (i + len) (length data)) i []"

definition json_getString :: "string \<Rightarrow> tree \<Rightarrow> string result" where
  "json_getString raw n = (if nchild n > 0 then Inr ''Object/Array'' else decodeJSONString raw (t_offset n) (t_len n))"

definition json_getInt :: "string \<Rightarrow> tree \<Rightarrow> int" where
  "json_getInt raw n = clamp_int (strtoll (getRawContent raw n))"

definition json_getLong :: "string \<Rightarrow> tree \<Rightarrow> int" where
  "json_getLong raw n = strtoll (getRawContent raw n)"

section \<open>The parser\<close>

definition isWhiteSpace :: "char \<Rightarrow> bool" where
  "isWhiteSpace c \<longleftrightarrow> c \<in> {blank, lf, cr, tab}"

definition json_error :: "string \<Rightarrow> exn" where
  "json_error m = bad_request (''JSON parse error: '' @ m)"

function skip_white :: "string \<Rightarrow> nat \<Rightarrow> nat" where
  "skip_white raw offset = (if offset < length raw \<and> isWhiteSpace (raw ! offset) then skip_white raw (offset + 1) else offset)"
  by pat_completeness auto
termination
  by (relation "measure (\<lambda>(raw, offset). length raw - offset)") auto

declare skip_white.simps [simp del]

definition ignoreWhiteSpaces :: "string \<Rightarrow> nat \<Rightarrow> nat result" where
  "ignoreWhiteSpaces raw offset = (let o' = skip_white raw offset in
     if o' \<ge> length raw then Inl (json_error ''unexpected en of JSON'') else Inr o')"

text \<open>\<open>processStringNode\<close>: the position of the closing quote.\<close>

function string_end :: "string \<Rightarrow> nat \<Rightarrow> nat result" where
  "string_end raw offset =
     (if offset < length raw then
        (if raw ! offset = backslash then
           (if offset + 1 \<ge> length raw then Inl (json_error ''trailing backslash in string'')
            else if raw ! (offset + 1) = CHR ''u'' \<and> offset + 1 + 4 < length raw then string_end raw (offset + 6)
            else string_end raw (offset + 2))
         else if raw ! offset = dquote then Inr offset
         else string_end raw (offset + 1))
      else Inl (json_error ''end of string not found''))"
  by pat_completeness auto
termination
  by (relation "measure (\<lambda>(raw, offset). length raw - offset)") auto

declare string_end.simps [simp del]

definition processStringNode :: "string \<Rightarrow> nat \<Rightarrow> (tree \<times> nat) result" where
  "processStringNode raw offset = bind_result (string_end raw (offset + 1)) (\<lambda>q.
     Inr (Node ''string'' (offset + 1) (q - (offset + 1)) [], q + 1))"

function number_end :: "string \<Rightarrow> nat \<Rightarrow> nat" where
  "number_end raw offset = (if offset < length raw \<and> raw ! offset \<notin> {CHR '','', CHR ''}'', CHR '']''}
     then number_end raw (offset + 1) else offset)"
  by pat_completeness auto
termination
  by (relation "measure (\<lambda>(raw, offset). length raw - offset)") auto

declare number_end.simps [simp del]

text \<open>The nodes without members: strings, numbers and the three names.\<close>

definition json_scalar :: "string \<Rightarrow> nat \<Rightarrow> (tree \<times> nat) result" where
  "json_scalar raw offset = (let c = raw ! offset in
     if c = dquote then processStringNode raw offset
     else if c = CHR ''-'' \<or> is_digit c then
       (let e = number_end raw offset in Inr (Node ''number'' offset (e - offset) [], e))
     else if substr raw offset 4 = ''true'' then Inr (Node ''boolean'' offset 4 [], offset + 4)
     else if substr raw offset 5 = ''false'' then Inr (Node ''boolean'' offset 5 [], offset + 5)
     else if substr raw offset 4 = ''null'' then Inr (Node ''null'' offset 4 [], offset + 4)
     else Inl (bad_request_log ''JSON parse error: unexpected value'' (''Error found at offset '' @ itos (int offset))))"

text \<open>
  The name of a member, the colon, and the position of its value: \<open>processNode(&name)\<close> on a quote is a
  string node. The name is decoded after the value has been parsed.
\<close>

definition member_name :: "string \<Rightarrow> nat \<Rightarrow> (tree \<times> nat) result" where
  "member_name raw offset = bind_result (processStringNode raw offset) (\<lambda>(name, offset).
     bind_result (ignoreWhiteSpaces raw offset) (\<lambda>offset.
     if raw ! offset \<noteq> CHR '':'' then Inl (json_error (''expected '' @ [squote, CHR '':'', squote] @ '' not found''))
     else bind_result (ignoreWhiteSpaces raw (offset + 1)) (\<lambda>offset. Inr (name, offset))))"

definition after_value :: "string \<Rightarrow> char \<Rightarrow> string \<Rightarrow> nat \<Rightarrow> nat result" where
  "after_value raw close what offset = bind_result (ignoreWhiteSpaces raw offset) (\<lambda>offset.
     if raw ! offset = CHR '','' then Inr (offset + 1)
     else if raw ! offset \<noteq> close then Inl (json_error (what @ '' bad format''))
     else Inr offset)"

definition lift_none :: "'a result \<Rightarrow> ('a \<Rightarrow> 'b result option) \<Rightarrow> 'b result option" where
  "lift_none r f = (case r of Inl e \<Rightarrow> Some (Inl e) | Inr x \<Rightarrow> f x)"

definition then_result :: "'a result option \<Rightarrow> ('a \<Rightarrow> 'b result option) \<Rightarrow> 'b result option" where
  "then_result r f = (case r of None \<Rightarrow> None | Some r \<Rightarrow> lift_none r f)"

lemma then_result_cong [fundef_cong]:
  "r = r' \<Longrightarrow> (\<And>x. r' = Some (Inr x) \<Longrightarrow> f x = g x) \<Longrightarrow> then_result r f = then_result r' g"
  by (auto simp: then_result_def lift_none_def split: option.splits sum.splits)

lemma lift_none_cong [fundef_cong]:
  "r = r' \<Longrightarrow> (\<And>x. r' = Inr x \<Longrightarrow> f x = g x) \<Longrightarrow> lift_none r f = lift_none r' g"
  by (auto simp: lift_none_def split: sum.splits)

definition set_tag :: "string \<Rightarrow> tree \<Rightarrow> tree" where
  "set_tag k n = Node k (t_offset n) (t_len n) (t_children n)"

fun processNode :: "nat \<Rightarrow> string \<Rightarrow> nat \<Rightarrow> (tree \<times> nat) result option"
  and object_loop :: "nat \<Rightarrow> string \<Rightarrow> nat \<Rightarrow> nat \<Rightarrow> tree list \<Rightarrow> (tree \<times> nat) result option"
  and array_loop :: "nat \<Rightarrow> string \<Rightarrow> nat \<Rightarrow> nat \<Rightarrow> tree list \<Rightarrow> (tree \<times> nat) result option"
where
  "processNode 0 raw offset = None"
| "processNode (Suc fuel) raw offset =
     (if raw ! offset = CHR ''{'' then object_loop fuel raw offset (offset + 1) []
      else if raw ! offset = CHR ''['' then array_loop fuel raw offset (offset + 1) []
      else Some (json_scalar raw offset))"
| "object_loop 0 raw start offset cs = None"
| "object_loop (Suc fuel) raw start offset cs =
     (if \<not> offset < length raw then Some (Inl (json_error ''end of object not found''))
      else lift_none (ignoreWhiteSpaces raw offset) (\<lambda>offset.
        if raw ! offset = CHR ''}'' then Some (Inr (Node ''object'' start (offset - start) (rev cs), offset + 1))
        else if raw ! offset = dquote then
          lift_none (member_name raw offset) (\<lambda>(name, offset).
          then_result (processNode fuel raw offset) (\<lambda>(value, offset).
          lift_none (json_getString raw name) (\<lambda>k.
          lift_none (after_value raw (CHR ''}'') ''Object'' offset) (\<lambda>offset.
            object_loop fuel raw start offset (set_tag k value # cs)))))
        else Some (Inl (json_error (''unexpected char in object. Offset '' @ itos (int offset))))))"
| "array_loop 0 raw start offset cs = None"
| "array_loop (Suc fuel) raw start offset cs =
     (if \<not> offset < length raw then Some (Inl (json_error ''end of array not found''))
      else lift_none (ignoreWhiteSpaces raw offset) (\<lambda>offset.
        if raw ! offset = CHR '']'' then Some (Inr (Node ''array'' start (offset - start) (rev cs), offset + 1))
        else then_result (processNode fuel raw offset) (\<lambda>(value, offset).
          lift_none (after_value raw (CHR '']'') ''Array'' offset) (\<lambda>offset.
            array_loop fuel raw start offset (value # cs)))))"

definition json_parse_fuel :: "nat \<Rightarrow> string \<Rightarrow> tree result option" where
  "json_parse_fuel fuel raw = lift_none (ignoreWhiteSpaces raw 0) (\<lambda>offset.
     then_result (processNode fuel raw offset) (\<lambda>(n, e). Some (Inr n)))"

text \<open>The constructor \<open>JSON(raw)\<close>, with the fuel that \<open>json_fuel_enough\<close> proves to suffice.\<close>

definition json_parse :: "string \<Rightarrow> tree result" where
  "json_parse raw = (case json_parse_fuel (2 * length raw + 2) raw of
     Some r \<Rightarrow> r | None \<Rightarrow> Inl (UndefinedBehaviour ''recursion''))"

section \<open>Enough fuel\<close>

lemma skip_white_ge: "offset \<le> skip_white raw offset"
proof (induction raw offset rule: skip_white.induct)
  case (1 raw offset)
  then show ?case by (subst skip_white.simps) (auto simp: Suc_leD)
qed

lemma ignoreWhiteSpaces_Inr: "ignoreWhiteSpaces raw o1 = Inr o2 \<Longrightarrow> o1 \<le> o2 \<and> o2 < length raw"
  using skip_white_ge [of o1 raw] by (auto simp: ignoreWhiteSpaces_def Let_def split: if_splits)

lemma string_end_Inr: "string_end raw offset = Inr q \<Longrightarrow> offset \<le> q \<and> q < length raw"
proof (induction raw offset rule: string_end.induct)
  case (1 raw offset)
  have s: "string_end raw offset =
     (if offset < length raw then
        (if raw ! offset = backslash then
           (if offset + 1 \<ge> length raw then Inl (json_error ''trailing backslash in string'')
            else if raw ! (offset + 1) = CHR ''u'' \<and> offset + 1 + 4 < length raw then string_end raw (offset + 6)
            else string_end raw (offset + 2))
         else if raw ! offset = dquote then Inr offset
         else string_end raw (offset + 1))
      else Inl (json_error ''end of string not found''))"
    by (rule string_end.simps)
  show ?case
  proof (cases "offset < length raw")
    case False
    with 1 s show ?thesis by simp
  next
    case lt: True
    consider "raw ! offset = backslash" "offset + 1 < length raw" "raw ! (offset + 1) = CHR ''u'' \<and> offset + 1 + 4 < length raw"
      | "raw ! offset = backslash" "offset + 1 < length raw" "\<not> (raw ! (offset + 1) = CHR ''u'' \<and> offset + 1 + 4 < length raw)"
      | "raw ! offset = backslash" "\<not> offset + 1 < length raw"
      | "raw ! offset \<noteq> backslash" "raw ! offset = dquote"
      | "raw ! offset \<noteq> backslash" "raw ! offset \<noteq> dquote" by blast
    then show ?thesis
    proof cases
      case 1
      with "1.IH"(1) "1.prems" s lt show ?thesis by simp
    next
      case 2
      then have "string_end raw offset = string_end raw (offset + 2)" using s lt by auto
      moreover have "string_end raw (offset + 2) = Inr q \<Longrightarrow> offset + 2 \<le> q \<and> q < length raw"
        using "1.IH"(2) 2 lt by simp
      ultimately show ?thesis using "1.prems" by simp
    next
      case 3
      with "1.prems" s lt show ?thesis by simp
    next
      case 4
      with "1.prems" s lt show ?thesis by simp
    next
      case 5
      with "1.IH"(3) "1.prems" s lt show ?thesis by simp
    qed
  qed
qed

lemma processStringNode_Inr: "processStringNode raw o1 = Inr (n, o2) \<Longrightarrow> o1 < o2"
  by (auto simp: processStringNode_def bind_result_Inr_iff dest: string_end_Inr)

lemma number_end_ge: "offset \<le> number_end raw offset"
proof (induction raw offset rule: number_end.induct)
  case (1 raw offset)
  then show ?case by (subst number_end.simps) (auto simp: Suc_leD)
qed

lemma number_end_progress:
  assumes "offset < length raw" "raw ! offset = CHR ''-'' \<or> is_digit (raw ! offset)"
  shows "offset < number_end raw offset"
proof -
  have "raw ! offset \<notin> {CHR '','', CHR ''}'', CHR '']''}" using assms(2) by (auto simp: is_digit_def)
  then show ?thesis
    using assms(1) number_end_ge [of "offset + 1" raw] by (subst number_end.simps) simp
qed

lemma json_scalar_Inr: "json_scalar raw o1 = Inr (n, o2) \<Longrightarrow> o1 < length raw \<Longrightarrow> o1 < o2"
  by (auto simp: json_scalar_def Let_def number_end_progress dest: processStringNode_Inr split: if_splits)

lemma member_name_Inr: "member_name raw o1 = Inr (n, o2) \<Longrightarrow> o1 < o2 \<and> o2 < length raw"
  by (fastforce simp: member_name_def bind_result_Inr_iff split: if_splits
      dest: processStringNode_Inr ignoreWhiteSpaces_Inr)

lemma after_value_Inr: "after_value raw c w o1 = Inr o2 \<Longrightarrow> o1 \<le> o2 \<and> o2 \<le> length raw"
  by (fastforce simp: after_value_def bind_result_Inr_iff split: if_splits dest: ignoreWhiteSpaces_Inr)

definition ends_after :: "nat \<Rightarrow> (tree \<times> nat) result option \<Rightarrow> bool" where
  "ends_after o1 r \<longleftrightarrow> (\<exists>x. r = Some x \<and> (\<forall>n o2. x = Inr (n, o2) \<longrightarrow> o1 < o2))"

lemma ends_after_lift:
  "(\<And>x. r = Inr x \<Longrightarrow> ends_after k (f x)) \<Longrightarrow> ends_after k (lift_none r f)"
  by (cases r) (auto simp: lift_none_def ends_after_def)

lemma ends_after_then:
  "ends_after j r \<Longrightarrow> (\<And>n o2. r = Some (Inr (n, o2)) \<Longrightarrow> j < o2 \<Longrightarrow> ends_after k (f (n, o2))) \<Longrightarrow>
    ends_after k (then_result r f)"
  by (auto simp: then_result_def lift_none_def ends_after_def split: sum.splits)

lemma ends_after_less: "ends_after j r \<Longrightarrow> k \<le> j \<Longrightarrow> ends_after k r"
  by (force simp: ends_after_def)

lemma ends_after_Inl [simp]: "ends_after k (Some (Inl e))"
  by (simp add: ends_after_def)

lemma ends_after_Inr [simp]: "ends_after k (Some (Inr (n, o2))) \<longleftrightarrow> k < o2"
  by (simp add: ends_after_def)

lemma json_fuel:
  "(offset < length raw \<longrightarrow> 2 * (length raw - offset) + 2 \<le> fuel \<longrightarrow> ends_after offset (processNode fuel raw offset)) \<and>
   (2 * (length raw - offset) + 3 \<le> fuel \<longrightarrow> ends_after offset (object_loop fuel raw start offset cs)) \<and>
   (2 * (length raw - offset) + 3 \<le> fuel \<longrightarrow> ends_after offset (array_loop fuel raw start offset cs))"
proof (induction fuel arbitrary: offset start cs)
  case 0
  then show ?case by simp
next
  case (Suc fuel)
  have node: "ends_after o2 (processNode fuel raw o2)" if "o2 < length raw" "2 * (length raw - o2) + 2 \<le> fuel" for o2
    using Suc.IH that by blast
  have loops: "ends_after o2 (object_loop fuel raw s o2 xs)" "ends_after o2 (array_loop fuel raw s o2 xs)"
    if "2 * (length raw - o2) + 3 \<le> fuel" for s o2 xs
    using Suc.IH that by blast+
  have "ends_after offset (processNode (Suc fuel) raw offset)"
    if "offset < length raw" "2 * (length raw - offset) + 2 \<le> Suc fuel"
  proof -
    have f: "2 * (length raw - (offset + 1)) + 3 \<le> fuel" using that by simp
    show ?thesis
    proof (cases "json_scalar raw offset")
      case (Inl e)
      then show ?thesis using loops [OF f] ends_after_less [of "offset + 1"] by auto
    next
      case (Inr p)
      obtain n o2 where p: "p = (n, o2)" by force
      then show ?thesis using loops [OF f] ends_after_less [of "offset + 1"] json_scalar_Inr [of raw offset n o2] Inr that
        by auto
    qed
  qed
  moreover have "ends_after offset (object_loop (Suc fuel) raw start offset cs)"
    if f: "2 * (length raw - offset) + 3 \<le> Suc fuel"
  proof (cases "offset < length raw")
    case True
    show ?thesis
      unfolding object_loop.simps using True
      apply (simp del: One_nat_def)
      apply (rule ends_after_lift)
      subgoal premises w for o2
      proof -
        have o2: "offset \<le> o2" "o2 < length raw" using ignoreWhiteSpaces_Inr [OF w(2)] by simp_all
        have "ends_after offset (lift_none (member_name raw o2) (\<lambda>(name, offset).
          then_result (processNode fuel raw offset) (\<lambda>(value, offset).
          lift_none (json_getString raw name) (\<lambda>k.
          lift_none (after_value raw (CHR ''}'') ''Object'' offset) (\<lambda>offset.
            object_loop fuel raw start offset (set_tag k value # cs))))))"
          apply (rule ends_after_lift)
          subgoal premises m for x
          proof -
            obtain name o3 where x: "x = (name, o3)" by force
            have o3: "o2 < o3" "o3 < length raw" using member_name_Inr [of raw o2 name o3] m x by simp_all
            have n: "ends_after o3 (processNode fuel raw o3)" using o2 o3 f by (intro node) auto
            show ?thesis unfolding x prod.case
              apply (rule ends_after_then [OF n])
              apply (simp only: prod.case)
              apply (rule ends_after_lift)+
              subgoal premises a for nd o4 k o5
              proof -
                have "o4 \<le> o5" using after_value_Inr [OF a(4)] by simp
                with o2 o3 a(2) have "offset < o5" by simp
                then show ?thesis using ends_after_less [OF loops(1)] True f by auto
              qed
              done
          qed
          done
        then show ?thesis using o2 by (auto simp: less_Suc_eq_le)
      qed
      done
  qed simp
  moreover have "ends_after offset (array_loop (Suc fuel) raw start offset cs)"
    if f: "2 * (length raw - offset) + 3 \<le> Suc fuel"
  proof (cases "offset < length raw")
    case True
    show ?thesis
      unfolding array_loop.simps using True
      apply (simp del: One_nat_def)
      apply (rule ends_after_lift)
      subgoal premises w for o2
      proof -
        have o2: "offset \<le> o2" "o2 < length raw" using ignoreWhiteSpaces_Inr [OF w(2)] by simp_all
        have n: "ends_after o2 (processNode fuel raw o2)" using o2 f by (intro node) auto
        have "ends_after offset (then_result (processNode fuel raw o2) (\<lambda>(value, offset).
          lift_none (after_value raw (CHR '']'') ''Array'' offset) (\<lambda>offset.
            array_loop fuel raw start offset (value # cs))))"
          apply (rule ends_after_then [OF n])
          apply (simp only: prod.case)
          apply (rule ends_after_lift)
          subgoal premises a for nd o4 o5
          proof -
            have "o4 \<le> o5" using after_value_Inr [OF a(3)] by simp
            with o2 a(2) have "offset < o5" by simp
            then show ?thesis using ends_after_less [OF loops(2)] True f by auto
          qed
          done
        then show ?thesis using o2 by (auto simp: less_Suc_eq_le)
      qed
      done
  qed simp
  ultimately show ?case by blast
qed

text \<open>
  The parser of JSON returns, with a tree or with an error, for every text whatever: the recursion over levels
  and members never goes deeper than twice the length of the text.
\<close>

lemma json_fuel_enough: "json_parse_fuel (2 * length raw + 2) raw \<noteq> None"
proof (cases "ignoreWhiteSpaces raw 0")
  case (Inr offset)
  have "ends_after offset (processNode (2 * length raw + 2) raw offset)"
    using json_fuel [of offset raw "2 * length raw + 2"] ignoreWhiteSpaces_Inr [OF Inr] by simp
  then obtain r where "processNode (2 * length raw + 2) raw offset = Some r" unfolding ends_after_def by blast
  then show ?thesis
    using Inr by (cases r) (simp_all add: json_parse_fuel_def lift_none_def then_result_def split: prod.split)
qed (simp add: json_parse_fuel_def lift_none_def)

section \<open>What is encoded is decoded\<close>

lemma hex_digit_facts:
  assumes "n < 16"
  shows "is_hex (hex_digit n)" "hex_value (hex_digit n) = n"
proof -
  have v: "byte_val (hex_digit n) = (if n < 10 then 48 + n else 87 + n)"
    using assms by (simp add: hex_digit_def)
  show "is_hex (hex_digit n)" "hex_value (hex_digit n) = n"
    using assms by (simp_all add: is_hex_def is_digit_def hex_value_def Let_def v)
qed

lemma hex_zero: "is_hex (CHR ''0'')" "hex_value (CHR ''0'') = 0" "\<not> is_c_space (CHR ''0'')"
  by (simp_all add: is_hex_def is_digit_def hex_value_def is_c_space_def char_names)

lemma control_escape:
  assumes "n < 256"
  shows "scan_hex [CHR ''0'', CHR ''0'', hex_digit (n div 16), hex_digit (n mod 16)] = Some n"
proof -
  have d: "n div 16 < 16" "n mod 16 < 16" using assms by auto
  show ?thesis
    by (simp add: scan_hex_def hex_number_def hex_zero hex_digit_facts [OF d(1)] hex_digit_facts [OF d(2)])
qed

text \<open>What an encoded character looks like.\<close>

lemma encode_char_cases:
  obtains (plain) "encode_char c = [c]" "c \<noteq> backslash" "c \<noteq> dquote"
  | (escape) e where "encode_char c = [backslash, e]" "simple_escape e = Some c" "e \<noteq> CHR ''u''"
  | (hex) "encode_char c = char_to_hex (byte_val c)" "byte_val c < 128"
proof -
  consider "c \<in> {dquote, backslash, CHR ''/'', CHR 0x08, CHR 0x0C, lf, cr, tab}"
    | "c \<notin> {dquote, backslash, CHR ''/'', CHR 0x08, CHR 0x0C, lf, cr, tab}" by blast
  then show thesis
  proof cases
    case 1
    have "encode_char dquote = [backslash, dquote]" "encode_char backslash = [backslash, backslash]"
      "encode_char (CHR ''/'') = [backslash, CHR ''/'']" "encode_char (CHR 0x08) = [backslash, CHR ''b'']"
      "encode_char (CHR 0x0C) = [backslash, CHR ''f'']" "encode_char lf = [backslash, CHR ''n'']"
      "encode_char cr = [backslash, CHR ''r'']" "encode_char tab = [backslash, CHR ''t'']"
      by code_simp+
    moreover have "simple_escape dquote = Some dquote" "simple_escape backslash = Some backslash"
      "simple_escape (CHR ''/'') = Some (CHR ''/'')" "simple_escape (CHR ''b'') = Some (CHR 0x08)"
      "simple_escape (CHR ''f'') = Some (CHR 0x0C)" "simple_escape (CHR ''n'') = Some lf"
      "simple_escape (CHR ''r'') = Some cr" "simple_escape (CHR ''t'') = Some tab"
      by code_simp+
    moreover have "dquote \<noteq> CHR ''u''" "backslash \<noteq> CHR ''u''" by (simp_all add: char_names)
    ultimately show thesis using 1 escape by auto
  next
    case 2
    then have ne: "c \<noteq> dquote" "c \<noteq> backslash" "c \<noteq> CHR ''/''" "c \<noteq> CHR 0x08" "c \<noteq> CHR 0x0C" "c \<noteq> lf" "c \<noteq> cr" "c \<noteq> tab"
      by simp_all
    consider "byte_val c < 32" | "byte_val c = 127" | "\<not> byte_val c < 32" "byte_val c \<noteq> 127" by blast
    then show thesis
    proof cases
      case 1
      then have "encode_char c = char_to_hex (byte_val c)" by (simp add: encode_char_def ne)
      with 1 show thesis using hex by simp
    next
      case 2
      then have "encode_char c = char_to_hex (byte_val c)" by (simp add: encode_char_def ne)
      with 2 show thesis using hex by simp
    next
      case 3
      then have "encode_char c = [c]" by (simp add: encode_char_def ne)
      with ne show thesis using plain by simp
    qed
  qed
qed

lemma at_pos:
  "data = pre @ x @ post \<Longrightarrow> k < length x \<Longrightarrow> data ! (length pre + k) = x ! k"
  "data = pre @ x @ post \<Longrightarrow> k + n \<le> length x \<Longrightarrow> substr data (length pre + k) n = take n (drop k x)"
  by (simp_all add: nth_append substr_def)

lemma char_to_hex_decoded:
  assumes "data = pre @ char_to_hex n @ post" "n < 128"
  shows "decodeHexaUnicodeToUTF8 data (length pre + 2) = Inr ([char_of n], length pre + 5)"
proof -
  have "substr data (length pre + 2) 4 = [CHR ''0'', CHR ''0'', hex_digit (n div 16), hex_digit (n mod 16)]"
    using at_pos(2) [OF assms(1), of 2 4] by (simp add: char_to_hex_def numeral_2_eq_2)
  then show ?thesis
    using assms control_escape [of n] by (simp add: decodeHexaUnicodeToUTF8_def char_to_hex_def utf8_bytes_def)
qed

lemma decode_step:
  assumes d: "data = pre @ encode_char c @ post" and l: "length pre + length (encode_char c) \<le> limit" "limit \<le> length data"
  shows "decode_from data limit (length pre) ret = decode_from data limit (length pre + length (encode_char c)) (ret @ [c])"
proof (cases rule: encode_char_cases [of c])
  case plain
  then have "data ! length pre = c" "length pre < limit" using d l by simp_all
  then show ?thesis using plain by (subst decode_from.simps) simp
next
  case (escape e)
  then have "data ! length pre = backslash" "data ! (length pre + 1) = e" "length pre + 1 < limit"
    using d l by (simp_all add: nth_append)
  then show ?thesis using escape by (subst decode_from.simps) (simp add: char_names)
next
  case hex
  then have "data ! length pre = backslash" "data ! (length pre + 1) = CHR ''u''" "length pre + 5 < limit"
    using d l by (simp_all add: nth_append char_to_hex_def)
  moreover have "decodeHexaUnicodeToUTF8 data (length pre + 2) = Inr ([c], length pre + 5)"
    using char_to_hex_decoded [of data pre "byte_val c" post] d hex by simp
  moreover have "length (encode_char c) = 6" using hex by (simp add: char_to_hex_def)
  ultimately show ?thesis by (subst decode_from.simps) (simp add: char_names add.commute)
qed

lemma encodeJSONString_simps [simp]:
  "encodeJSONString [] = []" "encodeJSONString (c # s) = encode_char c @ encodeJSONString s"
  by (simp_all add: encodeJSONString_def)

lemma decode_encoded:
  "data = pre @ encodeJSONString s @ post \<Longrightarrow> limit = length pre + length (encodeJSONString s) \<Longrightarrow>
    decode_from data limit (length pre) ret = Inr (ret @ s)"
proof (induction s arbitrary: pre ret)
  case Nil
  then show ?case by (subst decode_from.simps) simp
next
  case (Cons c s)
  have "decode_from data limit (length pre) ret = decode_from data limit (length (pre @ encode_char c)) (ret @ [c])"
    using decode_step [of data pre c "encodeJSONString s @ post" limit ret] Cons.prems by simp
  also have "\<dots> = Inr ((ret @ [c]) @ s)" using Cons.prems by (intro Cons.IH) simp_all
  finally show ?case by simp
qed

lemma string_end_step:
  assumes d: "raw = pre @ encode_char c @ post" and p: "post \<noteq> []"
  shows "string_end raw (length pre) = string_end raw (length pre + length (encode_char c))"
proof (cases rule: encode_char_cases [of c])
  case plain
  then show ?thesis using d by (subst string_end.simps) simp
next
  case (escape e)
  then have "raw ! length pre = backslash" "raw ! (length pre + 1) = e" "length pre + 1 < length raw"
    using d by (simp_all add: nth_append)
  then show ?thesis using escape by (subst string_end.simps) simp
next
  case hex
  then have "raw ! length pre = backslash" "raw ! (length pre + 1) = CHR ''u''" "length pre + 6 < length raw"
    using d p by (simp_all add: nth_append char_to_hex_def)
  then have "string_end raw (length pre) = string_end raw (length pre + 6)" by (subst string_end.simps) simp
  moreover have "length (encode_char c) = 6" using hex(1) by (simp add: char_to_hex_def)
  ultimately show ?thesis by simp
qed

lemma string_end_encoded:
  "raw = pre @ encodeJSONString s @ dquote # post \<Longrightarrow>
    string_end raw (length pre) = Inr (length pre + length (encodeJSONString s))"
proof (induction s arbitrary: pre)
  case Nil
  then show ?case by (subst string_end.simps) (simp add: char_names)
next
  case (Cons c s)
  have "string_end raw (length pre) = string_end raw (length (pre @ encode_char c))"
    using string_end_step [of raw pre c "encodeJSONString s @ dquote # post"] Cons.prems by simp
  also have "\<dots> = Inr (length (pre @ encode_char c) + length (encodeJSONString s))"
    using Cons.prems by (intro Cons.IH) simp
  finally show ?case by simp
qed

text \<open>
  Whatever bytes a string has, its encoding, put between quotation marks within any text, ends for the parser
  at the closing mark, and is decoded to the string.
\<close>

lemma json_string_round_trip:
  "decodeJSONString (pre @ encodeJSONString s @ dquote # post) (length pre) (length (encodeJSONString s)) = Inr s \<and>
   string_end (pre @ encodeJSONString s @ dquote # post) (length pre) = Inr (length pre + length (encodeJSONString s))"
proof
  show "decodeJSONString (pre @ encodeJSONString s @ dquote # post) (length pre) (length (encodeJSONString s)) = Inr s"
    using decode_encoded [of "pre @ encodeJSONString s @ dquote # post" pre s "dquote # post"
        "length pre + length (encodeJSONString s)" "[]"]
    by (simp add: decodeJSONString_def)
qed (rule string_end_encoded [OF refl])

section \<open>What is printed is parsed\<close>

text \<open>The values the responses are made of, and how they are printed.\<close>

datatype jval = JStr string | JNum int | JObj "(string \<times> jval) list" | JArr "jval list"

definition quoted :: "string \<Rightarrow> string" where
  "quoted s = dquote # encodeJSONString s @ [dquote]"

fun show_json :: "jval \<Rightarrow> string" and show_members :: "(string \<times> jval) list \<Rightarrow> string"
  and show_elems :: "jval list \<Rightarrow> string" where
  "show_json (JStr s) = quoted s"
| "show_json (JNum n) = itos n"
| "show_json (JObj ms) = CHR ''{'' # show_members ms @ [CHR ''}'']"
| "show_json (JArr vs) = CHR ''['' # show_elems vs @ [CHR '']'']"
| "show_members [] = []"
| "show_members ((k, v) # ms) = quoted k @ CHR '':'' # show_json v @ (if ms = [] then [] else CHR '','' # show_members ms)"
| "show_elems [] = []"
| "show_elems (v # vs) = show_json v @ (if vs = [] then [] else CHR '','' # show_elems vs)"

text \<open>A node of the parsed text stands for a value.\<close>

fun represents :: "string \<Rightarrow> tree \<Rightarrow> jval \<Rightarrow> bool" and rep_members :: "string \<Rightarrow> tree list \<Rightarrow> (string \<times> jval) list \<Rightarrow> bool"
  and rep_elems :: "string \<Rightarrow> tree list \<Rightarrow> jval list \<Rightarrow> bool" where
  "represents raw n (JStr s) \<longleftrightarrow> json_getString raw n = Inr s"
| "represents raw n (JNum i) \<longleftrightarrow> getRawContent raw n = itos i"
| "represents raw n (JObj ms) \<longleftrightarrow> rep_members raw (t_children n) ms"
| "represents raw n (JArr vs) \<longleftrightarrow> rep_elems raw (t_children n) vs"
| "rep_members raw ns [] \<longleftrightarrow> ns = []"
| "rep_members raw ns ((k, v) # ms) \<longleftrightarrow> (case ns of [] \<Rightarrow> False
     | n # ns \<Rightarrow> t_tag n = k \<and> represents raw n v \<and> rep_members raw ns ms)"
| "rep_elems raw ns [] \<longleftrightarrow> ns = []"
| "rep_elems raw ns (v # vs) \<longleftrightarrow> (case ns of [] \<Rightarrow> False | n # ns \<Rightarrow> represents raw n v \<and> rep_elems raw ns vs)"

lemma represents_set_tag [simp]: "represents raw (set_tag k n) v = represents raw n v"
  by (cases v) (simp_all add: set_tag_def json_getString_def nchild_def getRawContent_def)

lemma set_tag_tag [simp]: "t_tag (set_tag k n) = k"
  by (simp add: set_tag_def)

definition stops_number :: "char \<Rightarrow> bool" where
  "stops_number c \<longleftrightarrow> c \<in> {CHR '','', CHR ''}'', CHR '']''}"

lemma number_end_at:
  "raw = pre @ s @ c # post \<Longrightarrow> \<forall>d \<in> set s. \<not> stops_number d \<Longrightarrow> stops_number c \<Longrightarrow>
    number_end raw (length pre) = length pre + length s"
proof (induction s arbitrary: pre)
  case Nil
  then show ?case by (subst number_end.simps) (simp add: stops_number_def)
next
  case (Cons d s)
  have "number_end raw (length pre) = number_end raw (length (pre @ [d]))"
    using Cons.prems by (subst number_end.simps) (simp add: stops_number_def)
  also have "\<dots> = length (pre @ [d]) + length s" using Cons.prems by (intro Cons.IH) simp_all
  finally show ?case by simp
qed

lemma ignore_at:
  "raw = pre @ c # post \<Longrightarrow> \<not> isWhiteSpace c \<Longrightarrow> ignoreWhiteSpaces raw (length pre) = Inr (length pre)"
  using skip_white.simps [of raw "length pre"] by (simp add: ignoreWhiteSpaces_def Let_def)

lemma json_itos_chars: "c \<in> set (itos n) \<Longrightarrow> c = CHR ''-'' \<or> is_digit c"
  using nat_digits_all_digits by (auto simp: itos_def split: if_splits)

lemma digit_plain: "is_digit c \<Longrightarrow> \<not> stops_number c \<and> \<not> isWhiteSpace c \<and> c \<noteq> dquote \<and> c \<noteq> CHR ''{'' \<and> c \<noteq> CHR ''[''"
  by (auto simp: is_digit_def stops_number_def isWhiteSpace_def char_names)

lemma show_json_hd:
  obtains c t where "show_json v = c # t" "\<not> isWhiteSpace c" "c \<noteq> CHR '']''"
proof (cases v)
  case (JNum n)
  obtain c t where ct: "itos n = c # t" by (cases "itos n") (auto simp: itos_def split: if_splits)
  then have "c = CHR ''-'' \<or> is_digit c" using json_itos_chars [of c n] by simp
  then have "\<not> isWhiteSpace c" "c \<noteq> CHR '']''" using digit_plain [of c]
    by (auto simp: isWhiteSpace_def char_names is_digit_def stops_number_def)
  with JNum ct that show thesis by simp
qed (auto simp: that quoted_def isWhiteSpace_def char_names)

lemma quoted_processed:
  "raw = pre @ quoted s @ post \<Longrightarrow>
    \<exists>n. processStringNode raw (length pre) = Inr (n, length pre + length (quoted s)) \<and> json_getString raw n = Inr s \<and>
      raw ! length pre = dquote"
proof -
  assume d: "raw = pre @ quoted s @ post"
  then have r: "raw = (pre @ [dquote]) @ encodeJSONString s @ dquote # post" by (simp add: quoted_def)
  have "string_end raw (length pre + 1) = Inr (length pre + 1 + length (encodeJSONString s))"
    using string_end_encoded [OF r] by simp
  moreover have "decodeJSONString raw (length pre + 1) (length (encodeJSONString s)) = Inr s"
    using decode_encoded [OF r, of "length pre + 1 + length (encodeJSONString s)" "[]"] r by (simp add: decodeJSONString_def)
  ultimately show ?thesis
    using d by (simp add: processStringNode_def json_getString_def nchild_def quoted_def)
qed

lemma member_name_read:
  assumes d: "raw = pre @ quoted k @ CHR '':'' # c # post" and c: "\<not> isWhiteSpace c"
  shows "\<exists>n. member_name raw (length pre) = Inr (n, length pre + length (quoted k) + 1) \<and> json_getString raw n = Inr k"
proof -
  obtain n where n: "processStringNode raw (length pre) = Inr (n, length pre + length (quoted k))" "json_getString raw n = Inr k"
    using quoted_processed [OF d] by blast
  have "ignoreWhiteSpaces raw (length pre + length (quoted k)) = Inr (length pre + length (quoted k))"
    using ignore_at [of raw "pre @ quoted k" "CHR '':''" "c # post"] d by (simp add: isWhiteSpace_def char_names)
  moreover have "raw ! (length pre + length (quoted k)) = CHR '':''" using d by (simp add: nth_append)
  moreover have "ignoreWhiteSpaces raw (length pre + length (quoted k) + 1) = Inr (length pre + length (quoted k) + 1)"
    using ignore_at [of raw "pre @ quoted k @ [CHR '':'']" c post] d c by simp
  ultimately show ?thesis using n by (simp add: member_name_def)
qed

lemma after_value_read:
  assumes "raw = pre @ c # post" "c = CHR '','' \<or> c = close" "\<not> isWhiteSpace close"
  shows "after_value raw close what (length pre) = Inr (length pre + (if c = CHR '','' then 1 else 0))"
proof -
  have "\<not> isWhiteSpace c" using assms by (auto simp: isWhiteSpace_def char_names)
  then have "ignoreWhiteSpaces raw (length pre) = Inr (length pre)" using ignore_at assms by blast
  then show ?thesis using assms by (auto simp: after_value_def)
qed

text \<open>
  The whole text of a member's value is read, whichever fuel there is from twice its length on, when a number
  is followed by a byte that ends it.
\<close>

definition follows :: "jval \<Rightarrow> string \<Rightarrow> bool" where
  "follows v post \<longleftrightarrow> (\<forall>n. v = JNum n \<longrightarrow> post \<noteq> [] \<and> stops_number (hd post))"

definition reads :: "jval \<Rightarrow> bool" where
  "reads v \<longleftrightarrow> (\<forall>raw pre post fuel. raw = pre @ show_json v @ post \<and> follows v post \<and> 2 * length (show_json v) \<le> fuel \<longrightarrow>
     (\<exists>n. processNode fuel raw (length pre) = Some (Inr (n, length pre + length (show_json v))) \<and> represents raw n v))"

lemma readsD:
  "reads v \<Longrightarrow> raw = pre @ show_json v @ post \<Longrightarrow> follows v post \<Longrightarrow> 2 * length (show_json v) \<le> fuel \<Longrightarrow>
    \<exists>n. processNode fuel raw (length pre) = Some (Inr (n, length pre + length (show_json v))) \<and> represents raw n v"
  unfolding reads_def by blast

definition reads_members :: "(string \<times> jval) list \<Rightarrow> bool" where
  "reads_members ms \<longleftrightarrow> (\<forall>raw pre post fuel start cs. raw = pre @ show_members ms @ CHR ''}'' # post \<and>
      2 * length (show_members ms) + 1 \<le> fuel \<longrightarrow>
     (\<exists>ns. object_loop fuel raw start (length pre) cs = Some (Inr (Node ''object'' start
         (length pre + length (show_members ms) - start) (rev cs @ ns), length pre + length (show_members ms) + 1)) \<and>
       rep_members raw ns ms))"

definition reads_elems :: "jval list \<Rightarrow> bool" where
  "reads_elems vs \<longleftrightarrow> (\<forall>raw pre post fuel start cs. raw = pre @ show_elems vs @ CHR '']'' # post \<and>
      2 * length (show_elems vs) + 1 \<le> fuel \<longrightarrow>
     (\<exists>ns. array_loop fuel raw start (length pre) cs = Some (Inr (Node ''array'' start
         (length pre + length (show_elems vs) - start) (rev cs @ ns), length pre + length (show_elems vs) + 1)) \<and>
       rep_elems raw ns vs))"

lemma reads_string: "reads (JStr s)"
  unfolding reads_def
proof (intro allI impI, elim conjE)
  fix raw pre post and fuel :: nat
  assume d: "raw = pre @ show_json (JStr s) @ post" and f: "2 * length (show_json (JStr s)) \<le> fuel"
  obtain g where g: "fuel = Suc g" using f by (cases fuel) (auto simp: quoted_def)
  obtain n where n: "processStringNode raw (length pre) = Inr (n, length pre + length (quoted s))"
    "json_getString raw n = Inr s" "raw ! length pre = dquote" using quoted_processed [of raw pre s post] d by auto
  have "dquote \<noteq> CHR ''{''" "dquote \<noteq> CHR ''[''" by (simp_all add: char_names)
  then show "\<exists>n. processNode fuel raw (length pre) = Some (Inr (n, length pre + length (show_json (JStr s)))) \<and>
      represents raw n (JStr s)"
    using n by (simp add: g json_scalar_def)
qed

lemma reads_number: "reads (JNum i)"
  unfolding reads_def
proof (intro allI impI, elim conjE)
  fix raw pre post and fuel :: nat
  assume d: "raw = pre @ show_json (JNum i) @ post" and f: "2 * length (show_json (JNum i)) \<le> fuel" and "follows (JNum i) post"
  then obtain c t where c: "post = c # t" "stops_number c" by (cases post) (auto simp: follows_def)
  obtain h u where ht: "itos i = h # u" by (cases "itos i") (auto simp: itos_def split: if_splits)
  obtain g where g: "fuel = Suc g" using f ht by (cases fuel) auto
  have h: "h = CHR ''-'' \<or> is_digit h" using json_itos_chars [of h i] ht by simp
  have r: "raw ! length pre = h" using d ht by simp
  have ne: "h \<noteq> dquote" "h \<noteq> CHR ''{''" "h \<noteq> CHR ''[''" using h digit_plain [of h] by (auto simp: char_names)
  have "\<forall>d \<in> set (itos i). \<not> stops_number d" using json_itos_chars digit_plain by (fastforce simp: stops_number_def)
  then have "number_end raw (length pre) = length pre + length (itos i)"
    using number_end_at [of raw pre "itos i" c t] d c by simp
  moreover have "substr raw (length pre) (length (itos i)) = itos i" using d by (simp add: substr_def)
  ultimately show "\<exists>n. processNode fuel raw (length pre) = Some (Inr (n, length pre + length (show_json (JNum i)))) \<and>
      represents raw n (JNum i)"
    using h ne r by (simp add: g json_scalar_def getRawContent_def)
qed

lemma reads_object:
  assumes "reads_members ms"
  shows "reads (JObj ms)"
  unfolding reads_def
proof (intro allI impI, elim conjE)
  fix raw pre post and fuel :: nat
  assume d: "raw = pre @ show_json (JObj ms) @ post" and f: "2 * length (show_json (JObj ms)) \<le> fuel"
  obtain g where g: "fuel = Suc g" using f by (cases fuel) auto
  have r: "raw = (pre @ [CHR ''{'']) @ show_members ms @ CHR ''}'' # post" using d by simp
  have "2 * length (show_members ms) + 1 \<le> g" using f g by simp
  with assms r obtain ns where ns: "object_loop g raw (length pre) (length (pre @ [CHR ''{''])) [] =
      Some (Inr (Node ''object'' (length pre) (length (pre @ [CHR ''{'']) + length (show_members ms) - length pre) (rev [] @ ns),
        length (pre @ [CHR ''{'']) + length (show_members ms) + 1))" "rep_members raw ns ms"
    unfolding reads_members_def by blast
  have "raw ! length pre = CHR ''{''" using d by simp
  then show "\<exists>n. processNode fuel raw (length pre) = Some (Inr (n, length pre + length (show_json (JObj ms)))) \<and>
      represents raw n (JObj ms)"
    using ns by (simp add: g)
qed

lemma reads_array:
  assumes "reads_elems vs"
  shows "reads (JArr vs)"
  unfolding reads_def
proof (intro allI impI, elim conjE)
  fix raw pre post and fuel :: nat
  assume d: "raw = pre @ show_json (JArr vs) @ post" and f: "2 * length (show_json (JArr vs)) \<le> fuel"
  obtain g where g: "fuel = Suc g" using f by (cases fuel) auto
  have r: "raw = (pre @ [CHR ''['']) @ show_elems vs @ CHR '']'' # post" using d by simp
  have "2 * length (show_elems vs) + 1 \<le> g" using f g by simp
  with assms r obtain ns where ns: "array_loop g raw (length pre) (length (pre @ [CHR ''[''])) [] =
      Some (Inr (Node ''array'' (length pre) (length (pre @ [CHR ''['']) + length (show_elems vs) - length pre) (rev [] @ ns),
        length (pre @ [CHR ''['']) + length (show_elems vs) + 1))" "rep_elems raw ns vs"
    unfolding reads_elems_def by blast
  have "raw ! length pre = CHR ''[''" using d by simp
  then show "\<exists>n. processNode fuel raw (length pre) = Some (Inr (n, length pre + length (show_json (JArr vs)))) \<and>
      represents raw n (JArr vs)"
    using ns by (simp add: g)
qed

lemma reads_members_Nil: "reads_members []"
  unfolding reads_members_def
proof (intro allI impI, elim conjE)
  fix raw pre post start cs and fuel :: nat
  assume d: "raw = pre @ show_members [] @ CHR ''}'' # post" and f: "2 * length (show_members []) + 1 \<le> fuel"
  obtain g where g: "fuel = Suc g" using f by (cases fuel) auto
  have "ignoreWhiteSpaces raw (length pre) = Inr (length pre)"
    using ignore_at [of raw pre "CHR ''}''" post] d by (simp add: isWhiteSpace_def char_names)
  then show "\<exists>ns. object_loop fuel raw start (length pre) cs = Some (Inr (Node ''object'' start
      (length pre + length (show_members []) - start) (rev cs @ ns), length pre + length (show_members []) + 1)) \<and>
       rep_members raw ns []"
    using d by (simp add: g lift_none_def)
qed

lemma reads_elems_Nil: "reads_elems []"
  unfolding reads_elems_def
proof (intro allI impI, elim conjE)
  fix raw pre post start cs and fuel :: nat
  assume d: "raw = pre @ show_elems [] @ CHR '']'' # post" and f: "2 * length (show_elems []) + 1 \<le> fuel"
  obtain g where g: "fuel = Suc g" using f by (cases fuel) auto
  have "ignoreWhiteSpaces raw (length pre) = Inr (length pre)"
    using ignore_at [of raw pre "CHR '']''" post] d by (simp add: isWhiteSpace_def char_names)
  then show "\<exists>ns. array_loop fuel raw start (length pre) cs = Some (Inr (Node ''array'' start
      (length pre + length (show_elems []) - start) (rev cs @ ns), length pre + length (show_elems []) + 1)) \<and>
       rep_elems raw ns []"
    using d by (simp add: g lift_none_def)
qed

lemma lift_none_simps [simp]:
  "lift_none (Inr x) f = f x" "then_result (Some (Inr x)) f = f x"
  by (simp_all add: lift_none_def then_result_def)

lemma reads_members_Cons:
  assumes v: "reads v" and "ms \<noteq> [] \<Longrightarrow> reads_members ms"
  shows "reads_members ((k, v) # ms)"
  unfolding reads_members_def
proof (intro allI impI, elim conjE)
  fix raw pre post start cs and fuel :: nat
  have ms: "reads_members ms" using assms(2) reads_members_Nil by blast
  let ?all = "show_members ((k, v) # ms)"
  define rest where "rest = (if ms = [] then [] else CHR '','' # show_members ms)"
  define d where "d = (if ms = [] then CHR ''}'' else CHR '','')"
  assume r: "raw = pre @ ?all @ CHR ''}'' # post" and f: "2 * length ?all + 1 \<le> fuel"
  obtain g where g: "fuel = Suc g" using f by (cases fuel) auto
  define p2 where "p2 = pre @ quoted k @ [CHR '':'']"
  obtain t where t: "rest @ CHR ''}'' # post = d # t" by (cases "ms = []") (auto simp: rest_def d_def)
  obtain c u where cu: "show_json v = c # u" "\<not> isWhiteSpace c" by (rule show_json_hd)
  have r1: "raw = pre @ quoted k @ CHR '':'' # c # u @ rest @ CHR ''}'' # post" using r cu by (simp add: rest_def)
  have r2: "raw = p2 @ show_json v @ d # t" using r1 cu t by (simp add: p2_def)
  have p2: "length p2 = length pre + length (quoted k) + 1" by (simp add: p2_def)
  obtain name where name: "member_name raw (length pre) = Inr (name, length p2)" "json_getString raw name = Inr k"
    using member_name_read [OF r1 cu(2)] p2 by auto
  have d: "stops_number d" "d = CHR '','' \<or> d = CHR ''}''" by (simp_all add: d_def stops_number_def)
  have f2: "2 * length (show_json v) \<le> g" "2 * length rest \<le> g" using f g by (simp_all add: rest_def)
  obtain n where n: "processNode g raw (length p2) = Some (Inr (n, length p2 + length (show_json v)))" "represents raw n v"
    using readsD [OF v r2 _ f2(1)] d(1) by (auto simp: follows_def)
  define p3 where "p3 = p2 @ show_json v @ (if ms = [] then [] else [CHR '',''])"
  have av: "after_value raw (CHR ''}'') ''Object'' (length p2 + length (show_json v)) = Inr (length p3)"
    using after_value_read [of raw "p2 @ show_json v" d t "CHR ''}''"] r2 d
    by (simp add: p3_def d_def isWhiteSpace_def char_names)
  have r3: "raw = p3 @ show_members ms @ CHR ''}'' # post"
    using r2 t by (simp add: p3_def rest_def d_def split: if_splits)
  have "2 * length (show_members ms) + 1 \<le> g" using f2(2) f g by (simp add: rest_def split: if_splits)
  with ms r3 obtain ns where ns: "object_loop g raw start (length p3) (set_tag k n # cs) = Some (Inr (Node ''object'' start
      (length p3 + length (show_members ms) - start) (rev (set_tag k n # cs) @ ns), length p3 + length (show_members ms) + 1))"
    "rep_members raw ns ms" unfolding reads_members_def by blast
  have len: "length p3 + length (show_members ms) = length pre + length ?all" by (simp add: p3_def p2_def)
  have q: "raw ! length pre = dquote" "length pre < length raw" using r1 by (simp_all add: quoted_def)
  have w: "ignoreWhiteSpaces raw (length pre) = Inr (length pre)"
    using ignore_at [of raw pre dquote] r1 by (simp add: quoted_def isWhiteSpace_def char_names)
  have "dquote \<noteq> CHR ''}''" by (simp add: char_names)
  then have "object_loop fuel raw start (length pre) cs = object_loop g raw start (length p3) (set_tag k n # cs)"
    using q w name n(1) av by (simp add: g)
  then show "\<exists>ns. object_loop fuel raw start (length pre) cs = Some (Inr (Node ''object'' start
      (length pre + length ?all - start) (rev cs @ ns), length pre + length ?all + 1)) \<and> rep_members raw ns ((k, v) # ms)"
    using ns n(2) len by (intro exI [of _ "set_tag k n # ns"]) (simp add: set_tag_tag)
qed

lemma reads_elems_Cons:
  assumes v: "reads v" and "vs \<noteq> [] \<Longrightarrow> reads_elems vs"
  shows "reads_elems (v # vs)"
  unfolding reads_elems_def
proof (intro allI impI, elim conjE)
  fix raw pre post start cs and fuel :: nat
  have vs: "reads_elems vs" using assms(2) reads_elems_Nil by blast
  let ?all = "show_elems (v # vs)"
  define rest where "rest = (if vs = [] then [] else CHR '','' # show_elems vs)"
  define d where "d = (if vs = [] then CHR '']'' else CHR '','')"
  assume r: "raw = pre @ ?all @ CHR '']'' # post" and f: "2 * length ?all + 1 \<le> fuel"
  obtain g where g: "fuel = Suc g" using f by (cases fuel) auto
  obtain t where t: "rest @ CHR '']'' # post = d # t" by (cases "vs = []") (auto simp: rest_def d_def)
  obtain c u where cu: "show_json v = c # u" "\<not> isWhiteSpace c" "c \<noteq> CHR '']''" by (rule show_json_hd)
  have r1: "raw = pre @ show_json v @ rest @ CHR '']'' # post" using r by (simp add: rest_def)
  have r2: "raw = pre @ show_json v @ d # t" using r1 t by simp
  have d: "stops_number d" "d = CHR '','' \<or> d = CHR '']''" by (simp_all add: d_def stops_number_def)
  have f2: "2 * length (show_json v) \<le> g" "2 * length rest + 2 * length (show_json v) \<le> g"
    using f g by (simp_all add: rest_def)
  obtain n where n: "processNode g raw (length pre) = Some (Inr (n, length pre + length (show_json v)))" "represents raw n v"
    using readsD [OF v r2 _ f2(1)] d(1) by (auto simp: follows_def)
  define p3 where "p3 = pre @ show_json v @ (if vs = [] then [] else [CHR '',''])"
  have av: "after_value raw (CHR '']'') ''Array'' (length pre + length (show_json v)) = Inr (length p3)"
    using after_value_read [of raw "pre @ show_json v" d t "CHR '']''"] r2 d
    by (simp add: p3_def d_def isWhiteSpace_def char_names)
  have r3: "raw = p3 @ show_elems vs @ CHR '']'' # post"
    using r2 t by (simp add: p3_def rest_def d_def split: if_splits)
  have "2 * length (show_elems vs) + 1 \<le> g" using f2(2) f g cu(1) by (simp add: rest_def split: if_splits)
  with vs r3 obtain ns where ns: "array_loop g raw start (length p3) (n # cs) = Some (Inr (Node ''array'' start
      (length p3 + length (show_elems vs) - start) (rev (n # cs) @ ns), length p3 + length (show_elems vs) + 1))"
    "rep_elems raw ns vs" unfolding reads_elems_def by blast
  have len: "length p3 + length (show_elems vs) = length pre + length ?all" by (simp add: p3_def)
  have q: "raw ! length pre \<noteq> CHR '']''" "length pre < length raw" using r1 cu by simp_all
  have w: "ignoreWhiteSpaces raw (length pre) = Inr (length pre)"
    using ignore_at [of raw pre c] r1 cu by simp
  have "array_loop fuel raw start (length pre) cs = array_loop g raw start (length p3) (n # cs)"
    using q w n(1) av by (simp add: g)
  then show "\<exists>ns. array_loop fuel raw start (length pre) cs = Some (Inr (Node ''array'' start
      (length pre + length ?all - start) (rev cs @ ns), length pre + length ?all + 1)) \<and> rep_elems raw ns (v # vs)"
    using ns n(2) len by (intro exI [of _ "n # ns"]) simp
qed

lemma everything_reads: "reads v" "reads_members ms" "reads_elems vs"
  by (induction v and ms and vs rule: show_json_show_members_show_elems.induct)
    (simp_all add: reads_string reads_number reads_object reads_array reads_members_Nil reads_elems_Nil
       reads_members_Cons reads_elems_Cons)

text \<open>A printed object is parsed to a tree that stands for it, whatever follows it.\<close>

lemma json_parse_print:
  "\<exists>n. json_parse (show_json (JObj ms) @ post) = Inr n \<and> t_tag n = ''object'' \<and>
     represents (show_json (JObj ms) @ post) n (JObj ms)"
proof -
  let ?raw = "show_json (JObj ms) @ post"
  have "\<exists>n. processNode (2 * length ?raw + 2) ?raw (length ([]::string)) =
      Some (Inr (n, length ([]::string) + length (show_json (JObj ms)))) \<and> represents ?raw n (JObj ms)"
    by (rule readsD [OF everything_reads(1)]) (simp_all add: follows_def)
  then obtain n e where n: "processNode (2 * length ?raw + 2) ?raw 0 = Some (Inr (n, e))" "represents ?raw n (JObj ms)"
    by auto
  have hd: "?raw ! 0 = CHR ''{''" by simp
  have "ignoreWhiteSpaces ?raw 0 = Inr 0"
    using ignore_at [of ?raw "[]" "CHR ''{''" "show_members ms @ CHR ''}'' # post"]
    by (simp add: isWhiteSpace_def char_names)
  moreover have "t_tag n = ''object''"
  proof -
    have "?raw = [CHR ''{''] @ show_members ms @ CHR ''}'' # post" "2 * length (show_members ms) + 1 \<le> 2 * length ?raw + 1"
      by simp_all
    with everything_reads(2) [of ms] have "\<exists>ns. object_loop (2 * length ?raw + 1) ?raw 0 (length [CHR ''{'']) [] = Some (Inr (Node ''object'' 0
        (length [CHR ''{''] + length (show_members ms) - 0) (rev [] @ ns), length [CHR ''{''] + length (show_members ms) + 1)) \<and>
       rep_members ?raw ns ms"
      unfolding reads_members_def by blast
    then have "\<exists>l ns. object_loop (2 * length ?raw + 1) ?raw 0 1 [] = Some (Inr (Node ''object'' 0 l ns, l + 1))"
      by (auto simp del: object_loop.simps show_json.simps)
    moreover have "processNode (Suc (2 * length ?raw + 1)) ?raw 0 = object_loop (2 * length ?raw + 1) ?raw 0 (0 + 1) []"
      unfolding processNode.simps(2) using hd by (simp only: if_True refl)
    moreover have "2 * length ?raw + 2 = Suc (2 * length ?raw + 1)" by simp
    ultimately have "\<exists>l ns. Some (Inr (n, e)) = (Some (Inr (Node ''object'' 0 l ns, l + 1)) :: (tree \<times> nat) result option)"
      using n(1) by (metis add.left_neutral)
    then show ?thesis by auto
  qed
  ultimately show ?thesis using n by (simp add: json_parse_def json_parse_fuel_def del: show_json.simps processNode.simps)
qed

end
