(* ===== verification/Json_Rpc.thy ===== *)
theory Json_Rpc
  imports Json
begin

text \<open>
  The class \<open>JSONRPC\<close>: what a request is read to, and the responses that are printed. Proved: a request that is
  a printed object is read to its method, its id and its parameters; every response is a printed object, so that
  a reader gets back the values it was made of, when the id of the request has nothing to escape; and an id with a
  quotation mark adds members to the response.
\<close>

record jsonrpc_msg =
  jm_raw :: string
  jm_method :: string
  jm_id :: string
  jm_data :: mapstruct

definition getStructMembers :: "tree \<Rightarrow> mapstruct" where
  "getStructMembers st = fold (\<lambda>c m. ms_set m (t_tag c) c) (t_children st) []"

definition jsonrpc_version_ok :: "string \<Rightarrow> tree \<Rightarrow> bool result" where
  "jsonrpc_version_ok raw root = (if nchild root = 4
     then bind_result (child_named ''jsonrpc'' root) (\<lambda>v. bind_result (json_getString raw v) (\<lambda>v. Inr (v = ''2.0'')))
     else Inr False)"

definition processRoot :: "string \<Rightarrow> tree \<Rightarrow> jsonrpc_msg result" where
  "processRoot raw root =
     (if t_tag root \<noteq> ''object'' then Inl (bad_request ''JSONRPC root must be object'')
      else bind_result (child_named ''method'' root) (\<lambda>m.
        bind_result (json_getString raw m) (\<lambda>method.
        bind_result (child_named ''params'' root) (\<lambda>p.
        bind_result (child_named ''id'' root) (\<lambda>i.
        bind_result (json_getString raw i) (\<lambda>id.
        bind_result (jsonrpc_version_ok raw root) (\<lambda>ok.
        if \<not> ok \<and> nchild root \<noteq> 3 then Inl (bad_request ''JSONRPC root must have 4 attributes'')
        else Inr \<lparr>jm_raw = raw, jm_method = method, jm_id = id, jm_data = getStructMembers p\<rparr>)))))))"

text \<open>The constructor \<open>JSONRPC(rawData)\<close>.\<close>

definition JSONRPC :: "string \<Rightarrow> jsonrpc_msg result" where
  "JSONRPC raw = bind_result (json_parse raw) (processRoot raw)"

definition json_getFiles :: "jsonrpc_msg \<Rightarrow> mapstruct result" where
  "json_getFiles m = bind_result (ms_index (jm_data m) ''files'') (\<lambda>n. Inr (getStructMembers n))"

definition json_getFileEncoding :: "jsonrpc_msg \<Rightarrow> mapstruct" where
  "json_getFileEncoding m = (case ms_get (jm_data m) ''fileencoding'' of None \<Rightarrow> [] | Some n \<Rightarrow> getStructMembers n)"

definition json_getFileToDelete :: "jsonrpc_msg \<Rightarrow> mapstruct" where
  "json_getFileToDelete m = (case ms_get (jm_data m) ''filestodelete'' of None \<Rightarrow> [] | Some n \<Rightarrow> getStructMembers n)"

section \<open>Responses\<close>

definition responseWraper :: "string \<Rightarrow> string \<Rightarrow> string" where
  "responseWraper response rid =
     ''{'' @ [dquote] @ ''jsonrpc'' @ [dquote] @ '':'' @ [dquote] @ ''2.0'' @ [dquote] @ '','' @ [dquote] @ ''result'' @ [dquote] @ '':''
     @ response @ '','' @ [dquote] @ ''id'' @ [dquote] @ '':'' @ [dquote] @ rid @ [dquote] @ ''}''"

definition responseMember :: "string \<Rightarrow> string \<Rightarrow> string" where
  "responseMember name v = dquote # name @ [dquote, CHR '':'', dquote] @ encodeJSONString v @ [dquote]"

definition responseMemberInt :: "string \<Rightarrow> int \<Rightarrow> string" where
  "responseMemberInt name v = dquote # name @ [dquote, CHR '':''] @ itos v"

definition json_availableResponse :: "string \<Rightarrow> string \<Rightarrow> int \<Rightarrow> int \<Rightarrow> int \<Rightarrow> int \<Rightarrow> int \<Rightarrow> int \<Rightarrow> string" where
  "json_availableResponse rid status load maxtime maxfilesize maxmemory maxprocesses secureport =
     responseWraper (''{'' @ responseMember ''status'' status @ '','' @ responseMemberInt ''load'' load @ '',''
       @ responseMemberInt ''maxtime'' maxtime @ '','' @ responseMemberInt ''maxfilesize'' maxfilesize @ '',''
       @ responseMemberInt ''maxmemory'' maxmemory @ '','' @ responseMemberInt ''maxprocesses'' maxprocesses @ '',''
       @ responseMemberInt ''secureport'' secureport @ ''}'') rid"

definition json_requestResponse :: "string \<Rightarrow> string \<Rightarrow> string \<Rightarrow> string \<Rightarrow> int \<Rightarrow> int \<Rightarrow> string" where
  "json_requestResponse rid adminticket monitorticket executionticket port secuport =
     responseWraper (''{'' @ responseMember ''adminticket'' adminticket @ '','' @ responseMember ''monitorticket'' monitorticket @ '',''
       @ responseMember ''executionticket'' executionticket @ '','' @ responseMemberInt ''port'' port @ '',''
       @ responseMemberInt ''secureport'' secuport @ ''}'') rid"

definition json_directRunResponse :: "string \<Rightarrow> string \<Rightarrow> string \<Rightarrow> string \<Rightarrow> int \<Rightarrow> int \<Rightarrow> string" where
  "json_directRunResponse rid homepath adminticket executionticket port secuport =
     responseWraper (''{'' @ responseMember ''homepath'' homepath @ '','' @ responseMember ''adminticket'' adminticket @ '',''
       @ responseMember ''executionticket'' executionticket @ '','' @ responseMemberInt ''port'' port @ '',''
       @ responseMemberInt ''secureport'' secuport @ ''}'') rid"

definition json_getResultResponse :: "string \<Rightarrow> string \<Rightarrow> string \<Rightarrow> bool \<Rightarrow> bool \<Rightarrow> string" where
  "json_getResultResponse rid compilation execution executed interactive =
     responseWraper (''{'' @ responseMember ''compilation'' compilation @ '','' @ responseMember ''execution'' execution @ '',''
       @ responseMemberInt ''executed'' (if executed then 1 else 0) @ '',''
       @ responseMemberInt ''interactive'' (if interactive then 1 else 0) @ ''}'') rid"

definition json_updateResponse :: "string \<Rightarrow> bool \<Rightarrow> string" where
  "json_updateResponse rid ok = responseWraper (''{'' @ responseMemberInt ''update'' (if ok then 1 else 0) @ ''}'') rid"

definition json_runningResponse :: "string \<Rightarrow> bool \<Rightarrow> string" where
  "json_runningResponse rid running = responseWraper (''{'' @ responseMemberInt ''running'' (if running then 1 else 0) @ ''}'') rid"

definition json_stopResponse :: "string \<Rightarrow> string" where
  "json_stopResponse rid = responseWraper (''{'' @ responseMemberInt ''stop'' 1 @ ''}'') rid"

section \<open>A request is read to its parts\<close>

lemma rep_child:
  "rep_members raw ns ms \<Longrightarrow> map_of ms k = Some v \<Longrightarrow>
    \<exists>c cs. filter (\<lambda>c. t_tag c = k) ns = c # cs \<and> represents raw c v"
proof (induction ms arbitrary: ns)
  case (Cons p ms)
  obtain a w where p: "p = (a, w)" by force
  then obtain n ns' where n: "ns = n # ns'" "t_tag n = a" "represents raw n w" "rep_members raw ns' ms"
    using Cons.prems by (auto split: list.splits)
  show ?case
  proof (cases "a = k")
    case True
    with Cons.prems n p show ?thesis by simp
  next
    case False
    then have "map_of ms k = Some v" using Cons.prems p by simp
    then show ?thesis using Cons.IH [OF n(4)] n False by simp
  qed
qed simp

lemma child_represents:
  "represents raw n (JObj ms) \<Longrightarrow> map_of ms k = Some v \<Longrightarrow> \<exists>c. child_named k n = Inr c \<and> represents raw c v"
  using rep_child [of raw "t_children n" ms k v] by (auto simp: child_named_def)

lemma rep_members_tags: "rep_members raw ns ms \<Longrightarrow> map t_tag ns = map fst ms"
proof (induction ms arbitrary: ns)
  case (Cons p ms)
  obtain a w where "p = (a, w)" by force
  with Cons show ?case by (auto split: list.splits)
qed simp

lemma struct_fold:
  "distinct (map t_tag ns) \<Longrightarrow>
    ms_get (fold (\<lambda>c m. ms_set m (t_tag c) c) ns m) k = (case filter (\<lambda>c. t_tag c = k) ns of [] \<Rightarrow> ms_get m k | c # cs \<Rightarrow> Some c)"
proof (induction ns arbitrary: m)
  case (Cons n ns)
  have f: "filter (\<lambda>c. t_tag c = k) ns = []" if "t_tag n = k"
    unfolding filter_empty_conv using Cons.prems that by (auto simp: image_iff)
  show ?case using Cons f by (auto split: list.splits)
qed simp

lemma members_represent:
  assumes "represents raw n (JObj ms)" "distinct (map fst ms)"
  shows "map_of ms k = Some v \<Longrightarrow> \<exists>c. ms_get (getStructMembers n) k = Some c \<and> represents raw c v"
    and "map_of ms k = None \<Longrightarrow> ms_get (getStructMembers n) k = None"
proof -
  have r: "rep_members raw (t_children n) ms" using assms by simp
  then have d: "distinct (map t_tag (t_children n))" using rep_members_tags assms(2) by metis
  show "map_of ms k = Some v \<Longrightarrow> \<exists>c. ms_get (getStructMembers n) k = Some c \<and> represents raw c v"
    using rep_child [OF r, of k v] struct_fold [OF d, of "[]" k] by (auto simp: getStructMembers_def)
  assume "map_of ms k = None"
  then have "k \<notin> t_tag ` set (t_children n)" using rep_members_tags [OF r] by (metis list.set_map map_of_eq_None_iff)
  then have "filter (\<lambda>c. t_tag c = k) (t_children n) = []" by (auto simp: filter_empty_conv)
  then show "ms_get (getStructMembers n) k = None"
    using struct_fold [OF d, of "[]" k] by (simp add: getStructMembers_def ms_get_def)
qed

text \<open>A request as the clients send it.\<close>

definition request_value :: "string \<Rightarrow> string \<Rightarrow> (string \<times> jval) list \<Rightarrow> jval" where
  "request_value method rid params =
     JObj [(''jsonrpc'', JStr ''2.0''), (''method'', JStr method), (''params'', JObj params), (''id'', JStr rid)]"

lemma rep_members_length: "rep_members raw ns ms \<Longrightarrow> length ns = length ms"
  using rep_members_tags [of raw ns ms] by (metis length_map)

text \<open>
  A request printed as JSON is read to its method, its id and its parameters, each name to the node of its
  value and no other name to anything, when no name comes twice.
\<close>

lemma jsonrpc_request_read:
  assumes "distinct (map fst params)"
  shows "\<exists>m. JSONRPC (show_json (request_value method rid params)) = Inr m \<and> jm_method m = method \<and> jm_id m = rid \<and>
    (\<forall>k. case map_of params k of None \<Rightarrow> ms_get (jm_data m) k = None
       | Some v \<Rightarrow> \<exists>n. ms_get (jm_data m) k = Some n \<and> represents (jm_raw m) n v)"
proof -
  define ms where "ms = [(''jsonrpc'', JStr ''2.0''), (''method'', JStr method), (''params'', JObj params), (''id'', JStr rid)]"
  define raw where "raw = show_json (JObj ms)"
  obtain root where root: "json_parse raw = Inr root" "t_tag root = ''object''" "represents raw root (JObj ms)"
    using json_parse_print [of ms "[]"] unfolding raw_def by (auto simp del: represents.simps show_json.simps)
  have n: "nchild root = 4" using rep_members_length [of raw "t_children root" ms] root(3) by (simp add: nchild_def ms_def)
  note child = child_represents [OF root(3)]
  obtain v where v: "child_named ''jsonrpc'' root = Inr v" "represents raw v (JStr ''2.0'')"
    using child [of "''jsonrpc''" "JStr ''2.0''"] by (auto simp: ms_def)
  obtain mt where mt: "child_named ''method'' root = Inr mt" "represents raw mt (JStr method)"
    using child [of "''method''" "JStr method"] by (auto simp: ms_def)
  obtain p where p: "child_named ''params'' root = Inr p" "represents raw p (JObj params)"
    using child [of "''params''" "JObj params"] by (auto simp: ms_def)
  obtain i where i: "child_named ''id'' root = Inr i" "represents raw i (JStr rid)"
    using child [of "''id''" "JStr rid"] by (auto simp: ms_def)
  have "JSONRPC raw = Inr \<lparr>jm_raw = raw, jm_method = method, jm_id = rid, jm_data = getStructMembers p\<rparr>"
    using root v mt p(1) i n by (simp add: JSONRPC_def processRoot_def jsonrpc_version_ok_def)
  moreover have "case map_of params k of None \<Rightarrow>
         ms_get (jm_data \<lparr>jm_raw = raw, jm_method = method, jm_id = rid, jm_data = getStructMembers p\<rparr>) k = None
       | Some v \<Rightarrow> \<exists>n. ms_get (jm_data \<lparr>jm_raw = raw, jm_method = method, jm_id = rid, jm_data = getStructMembers p\<rparr>) k = Some n
           \<and> represents (jm_raw \<lparr>jm_raw = raw, jm_method = method, jm_id = rid, jm_data = getStructMembers p\<rparr>) n v" for k
    using members_represent [OF p(2) assms] by (auto split: option.splits)
  moreover have "show_json (request_value method rid params) = raw" by (simp only: request_value_def raw_def ms_def)
  ultimately show ?thesis by simp
qed

lemma jsonrpc_request_read_witness:
  "\<exists>m. JSONRPC (show_json (request_value ''stop'' ''1'' [(''adminticket'', JStr ''7'')])) = Inr m \<and> jm_method m = ''stop'' \<and>
    jm_id m = ''1'' \<and> (\<forall>k. case map_of [(''adminticket'', JStr ''7'')] k of None \<Rightarrow> ms_get (jm_data m) k = None
       | Some v \<Rightarrow> \<exists>n. ms_get (jm_data m) k = Some n \<and> represents (jm_raw m) n v)"
  by (rule jsonrpc_request_read) simp

section \<open>Responses are what they were made of\<close>

definition plain_char :: "char \<Rightarrow> bool" where
  "plain_char c \<longleftrightarrow> encode_char c = [c]"

definition plain :: "string \<Rightarrow> bool" where
  "plain s \<longleftrightarrow> (\<forall>c \<in> set s. plain_char c)"

lemma plain_encoded: "plain s \<Longrightarrow> encodeJSONString s = s"
  by (induction s) (simp_all add: plain_def plain_char_def)

lemma letters:
  "plain_char (CHR ''a'')" "plain_char (CHR ''b'')" "plain_char (CHR ''c'')" "plain_char (CHR ''d'')" "plain_char (CHR ''e'')"
  "plain_char (CHR ''f'')" "plain_char (CHR ''g'')" "plain_char (CHR ''h'')" "plain_char (CHR ''i'')" "plain_char (CHR ''j'')"
  "plain_char (CHR ''k'')" "plain_char (CHR ''l'')" "plain_char (CHR ''m'')" "plain_char (CHR ''n'')" "plain_char (CHR ''o'')"
  "plain_char (CHR ''p'')" "plain_char (CHR ''q'')" "plain_char (CHR ''r'')" "plain_char (CHR ''s'')" "plain_char (CHR ''t'')"
  "plain_char (CHR ''u'')" "plain_char (CHR ''v'')" "plain_char (CHR ''w'')" "plain_char (CHR ''x'')" "plain_char (CHR ''y'')"
  "plain_char (CHR ''z'')"
  by (simp_all add: plain_char_def encode_char_def char_names)

lemma plain_Nil: "plain []"
  by (simp add: plain_def)

lemma plain_Cons: "plain (c # s) \<longleftrightarrow> plain_char c \<and> plain s"
  by (simp add: plain_def)

lemma plain_names:
  "plain ''jsonrpc''" "plain ''result''" "plain ''id''" "plain ''status''" "plain ''load''" "plain ''maxtime''"
  "plain ''maxfilesize''" "plain ''maxmemory''" "plain ''maxprocesses''" "plain ''secureport''" "plain ''adminticket''"
  "plain ''monitorticket''" "plain ''executionticket''" "plain ''port''" "plain ''homepath''" "plain ''compilation''"
  "plain ''execution''" "plain ''executed''" "plain ''interactive''" "plain ''update''" "plain ''running''" "plain ''stop''"
  by (simp_all add: plain_Cons letters plain_Nil)

lemma plain_version: "encodeJSONString ''2.0'' = ''2.0''"
  by (simp add: encode_char_def char_names)

lemma responseMember_shown: "plain k \<Longrightarrow> responseMember k v = quoted k @ CHR '':'' # show_json (JStr v)"
  by (simp add: responseMember_def quoted_def plain_encoded)

lemma responseMemberInt_shown: "plain k \<Longrightarrow> responseMemberInt k v = quoted k @ CHR '':'' # show_json (JNum v)"
  by (simp add: responseMemberInt_def quoted_def plain_encoded)

definition response_value :: "(string \<times> jval) list \<Rightarrow> string \<Rightarrow> jval" where
  "response_value ms rid = JObj [(''jsonrpc'', JStr ''2.0''), (''result'', JObj ms), (''id'', JStr rid)]"

lemma responseWraper_shown:
  "plain rid \<Longrightarrow> responseWraper (''{'' @ show_members ms @ ''}'') rid = show_json (response_value ms rid)"
  using plain_names(1-3) by (simp add: responseWraper_def response_value_def quoted_def plain_encoded plain_version del: encodeJSONString_simps)

lemma show_members_simps:
  "show_members [(k, v)] = quoted k @ CHR '':'' # show_json v"
  "show_members ((k, v) # m # ms) = (quoted k @ CHR '':'' # show_json v) @ '','' @ show_members (m # ms)"
  by simp_all

text \<open>The seven responses are printed objects of the values they carry.\<close>

lemma json_responses_are_json:
  assumes "plain rid"
  shows "json_availableResponse rid status load maxtime maxfilesize maxmemory maxprocesses secureport = show_json (response_value
      [(''status'', JStr status), (''load'', JNum load), (''maxtime'', JNum maxtime), (''maxfilesize'', JNum maxfilesize),
       (''maxmemory'', JNum maxmemory), (''maxprocesses'', JNum maxprocesses), (''secureport'', JNum secureport)] rid) \<and>
   json_requestResponse rid adminticket monitorticket executionticket port secuport = show_json (response_value
      [(''adminticket'', JStr adminticket), (''monitorticket'', JStr monitorticket), (''executionticket'', JStr executionticket),
       (''port'', JNum port), (''secureport'', JNum secuport)] rid) \<and>
   json_directRunResponse rid homepath adminticket executionticket port secuport = show_json (response_value
      [(''homepath'', JStr homepath), (''adminticket'', JStr adminticket), (''executionticket'', JStr executionticket),
       (''port'', JNum port), (''secureport'', JNum secuport)] rid) \<and>
   json_getResultResponse rid compilation execution executed interactive = show_json (response_value
      [(''compilation'', JStr compilation), (''execution'', JStr execution), (''executed'', JNum (if executed then 1 else 0)),
       (''interactive'', JNum (if interactive then 1 else 0))] rid) \<and>
   json_updateResponse rid ok = show_json (response_value [(''update'', JNum (if ok then 1 else 0))] rid) \<and>
   json_runningResponse rid run = show_json (response_value [(''running'', JNum (if run then 1 else 0))] rid) \<and>
   json_stopResponse rid = show_json (response_value [(''stop'', JNum 1)] rid)"
  unfolding responseWraper_shown [OF assms, symmetric] show_members_simps
  by (simp only: json_availableResponse_def json_requestResponse_def json_directRunResponse_def json_getResultResponse_def
      json_updateResponse_def json_runningResponse_def json_stopResponse_def responseMember_shown responseMemberInt_shown
      plain_names append_assoc)

text \<open>
  C37: a client reads the results back: the members of the result of \<open>getResultResponse\<close>, whatever text the programs
  of the students have printed.
\<close>

lemma json_results_read:
  assumes "plain rid"
  shows "\<exists>root r c e. json_parse (json_getResultResponse rid compilation execution executed interactive) = Inr root \<and>
     child_named ''result'' root = Inr r \<and> child_named ''compilation'' r = Inr c \<and> child_named ''execution'' r = Inr e \<and>
     json_getString (json_getResultResponse rid compilation execution executed interactive) c = Inr compilation \<and>
     json_getString (json_getResultResponse rid compilation execution executed interactive) e = Inr execution"
proof -
  let ?raw = "json_getResultResponse rid compilation execution executed interactive"
  define ms where "ms = [(''compilation'', JStr compilation), (''execution'', JStr execution),
     (''executed'', JNum (if executed then 1 else 0)), (''interactive'', JNum (if interactive then 1 else 0))]"
  have shown: "?raw = show_json (response_value ms rid)"
    using json_responses_are_json [OF assms] unfolding ms_def by blast
  obtain root where root: "json_parse ?raw = Inr root" "represents ?raw root (response_value ms rid)"
    using json_parse_print [of "[(''jsonrpc'', JStr ''2.0''), (''result'', JObj ms), (''id'', JStr rid)]" "[]"]
    unfolding shown response_value_def by (auto simp del: represents.simps show_json.simps)
  obtain r where r: "child_named ''result'' root = Inr r" "represents ?raw r (JObj ms)"
    using child_represents [OF root(2) [unfolded response_value_def], of "''result''" "JObj ms"] by auto
  obtain c where "child_named ''compilation'' r = Inr c" "represents ?raw c (JStr compilation)"
    using child_represents [OF r(2), of "''compilation''" "JStr compilation"] by (auto simp: ms_def)
  moreover obtain e where "child_named ''execution'' r = Inr e" "represents ?raw e (JStr execution)"
    using child_represents [OF r(2), of "''execution''" "JStr execution"] by (auto simp: ms_def)
  ultimately show ?thesis using root(1) r(1) by auto
qed

lemma json_results_read_witness:
  "\<exists>root r c e. json_parse (json_getResultResponse ''ab'' [dquote] ''x'' True False) = Inr root \<and>
     child_named ''result'' root = Inr r \<and> child_named ''compilation'' r = Inr c \<and> child_named ''execution'' r = Inr e \<and>
     json_getString (json_getResultResponse ''ab'' [dquote] ''x'' True False) c = Inr [dquote] \<and>
     json_getString (json_getResultResponse ''ab'' [dquote] ''x'' True False) e = Inr ''x''"
  by (rule json_results_read) (simp add: plain_Cons plain_Nil letters)

text \<open>
  The id of the request is put into the response as it came: an id with quotation marks, which a request may
  well have escaped, adds a member of the sender's choice to the response.
\<close>

lemma response_id_injects:
  assumes "plain a" "plain k" "plain v"
  shows "responseWraper (''{'' @ show_members ms @ ''}'') (a @ [dquote, CHR '','', dquote] @ k @ [dquote, CHR '':'', dquote] @ v) =
    show_json (JObj [(''jsonrpc'', JStr ''2.0''), (''result'', JObj ms), (''id'', JStr a), (k, JStr v)])"
  using plain_names(1-3) assms by (simp add: responseWraper_def quoted_def plain_encoded plain_version del: encodeJSONString_simps)

lemma response_id_injects_witness:
  "responseWraper (''{'' @ show_members [] @ ''}'') (''a'' @ [dquote, CHR '','', dquote] @ ''b'' @ [dquote, CHR '':'', dquote] @ ''c'') =
    show_json (JObj [(''jsonrpc'', JStr ''2.0''), (''result'', JObj []), (''id'', JStr ''a''), (''b'', JStr ''c'')])"
  by (rule response_id_injects) (simp_all add: plain_Cons plain_Nil letters)

end
