(* ===== verification/Xml_Rpc.thy ===== *)
theory Xml_Rpc
  imports Xml Json_Rpc
begin

text \<open>
  The class \<open>XMLRPC\<close>: what a request is read to, and the responses that are printed. How a large number is
  printed, \<open>sprintf("%lg")\<close>, is a parameter. Proved: a response is a document, and the results in it are read back
  as the clean text of what was sent, by the same parser that reads the requests.
\<close>

fun xml_members :: "string \<Rightarrow> tree list \<Rightarrow> mapstruct \<Rightarrow> mapstruct result" where
  "xml_members raw [] m = Inr m"
| "xml_members raw (c # cs) m =
     bind_result (child_named ''value'' c) (\<lambda>v. bind_result (child_at 0 v) (\<lambda>x.
     bind_result (child_named ''name'' c) (\<lambda>n. bind_result (xml_getString raw n) (\<lambda>k.
       xml_members raw cs (ms_set m k x)))))"

definition xml_getStructMembers :: "string \<Rightarrow> tree \<Rightarrow> mapstruct result" where
  "xml_getStructMembers raw st =
     (if t_tag st = ''struct'' then xml_members raw (t_children st) []
      else if t_tag st = ''array'' \<and> nchild st = 0 then Inr []
      else Inl (bad_request (''RPC/XML getStructMembers parse error '' @ t_tag st @ '' '' @ getRawContent raw st)))"

record xmlrpc_msg =
  xm_raw :: string
  xm_method :: tree
  xm_data :: mapstruct

definition xml_processRoot :: "string \<Rightarrow> tree \<Rightarrow> xmlrpc_msg result" where
  "xml_processRoot raw root =
     (if t_tag root = ''methodCall'' then
        (if nchild root \<noteq> 2 then Inl (bad_request ''RPC/XML root must have 2 attributes'')
         else bind_result (child_named ''methodName'' root) (\<lambda>m.
           bind_result (child_named ''params'' root) (\<lambda>ps. bind_result (child_named ''param'' ps) (\<lambda>p.
           bind_result (child_named ''value'' p) (\<lambda>v. bind_result (child_named ''struct'' v) (\<lambda>st.
           bind_result (xml_getStructMembers raw st) (\<lambda>d.
             Inr \<lparr>xm_raw = raw, xm_method = m, xm_data = d\<rparr>)))))))
      else Inl (bad_request ''RPC/XML methodName parse error''))"

definition XMLRPC :: "string \<Rightarrow> xmlrpc_msg result" where
  "XMLRPC raw = bind_result (xml_parse raw) (xml_processRoot raw)"

definition xml_getMethodName :: "xmlrpc_msg \<Rightarrow> string" where
  "xml_getMethodName m = getRawContent (xm_raw m) (xm_method m)"

definition xml_getFiles :: "xmlrpc_msg \<Rightarrow> mapstruct result" where
  "xml_getFiles m = bind_result (ms_index (xm_data m) ''files'') (xml_getStructMembers (xm_raw m))"

definition xml_getFileEncoding :: "xmlrpc_msg \<Rightarrow> mapstruct result" where
  "xml_getFileEncoding m = (case ms_get (xm_data m) ''fileencoding'' of
     None \<Rightarrow> Inr [] | Some n \<Rightarrow> xml_getStructMembers (xm_raw m) n)"

definition xml_getFileToDelete :: "xmlrpc_msg \<Rightarrow> mapstruct result" where
  "xml_getFileToDelete m = (case ms_get (xm_data m) ''filestodelete'' of
     None \<Rightarrow> Inr [] | Some n \<Rightarrow> xml_getStructMembers (xm_raw m) n)"

section \<open>Responses\<close>

definition xml_declaration :: string where
  "xml_declaration = ''?xml version='' @ [dquote] @ ''1.0'' @ [dquote] @ '' encoding='' @ [dquote] @ ''UTF-8'' @ [dquote] @ ''?''"

definition xml_responseWraper :: "string \<Rightarrow> string" where
  "xml_responseWraper response = ''<'' @ xml_declaration @ ''>'' @ [lf] @ ''<methodResponse>'' @ [lf] @ ''<params>'' @ [lf]
     @ ''<param>'' @ [lf] @ ''<struct>'' @ [lf] @ response
     @ ''</struct>'' @ [lf] @ ''</param>'' @ [lf] @ ''</params>'' @ [lf] @ ''</methodResponse>'' @ [lf]"

definition xml_responseMember :: "string \<Rightarrow> string \<Rightarrow> string" where
  "xml_responseMember name v = ''<member><name>'' @ encodeXML name @ ''</name>'' @ [lf] @ ''<value><string>'' @ encodeXML v
     @ ''</string></value>'' @ [lf] @ ''</member>'' @ [lf]"

definition xml_responseMemberInt :: "(int \<Rightarrow> string) \<Rightarrow> string \<Rightarrow> int \<Rightarrow> string" where
  "xml_responseMemberInt dtos name v =
     (if v \<le> int_max then ''<member><name>'' @ encodeXML name @ ''</name>'' @ [lf] @ ''<value><int>'' @ itos v
        @ ''</int></value>'' @ [lf] @ ''</member>'' @ [lf]
      else ''<member><name>'' @ encodeXML name @ ''</name>'' @ [lf] @ ''<value><double>'' @ dtos v
        @ ''</double></value>'' @ [lf] @ ''</member>'' @ [lf])"

definition xml_availableResponse ::
    "(int \<Rightarrow> string) \<Rightarrow> string \<Rightarrow> int \<Rightarrow> int \<Rightarrow> int \<Rightarrow> int \<Rightarrow> int \<Rightarrow> int \<Rightarrow> string" where
  "xml_availableResponse dtos status load maxtime maxfilesize maxmemory maxprocesses secureport =
     xml_responseWraper (xml_responseMember ''status'' status @ xml_responseMemberInt dtos ''load'' load
       @ xml_responseMemberInt dtos ''maxtime'' maxtime @ xml_responseMemberInt dtos ''maxfilesize'' maxfilesize
       @ xml_responseMemberInt dtos ''maxmemory'' maxmemory @ xml_responseMemberInt dtos ''maxprocesses'' maxprocesses
       @ xml_responseMemberInt dtos ''secureport'' secureport)"

definition xml_requestResponse :: "(int \<Rightarrow> string) \<Rightarrow> string \<Rightarrow> string \<Rightarrow> string \<Rightarrow> int \<Rightarrow> int \<Rightarrow> string" where
  "xml_requestResponse dtos adminticket monitorticket executionticket port secuport =
     xml_responseWraper (xml_responseMember ''adminticket'' adminticket @ xml_responseMember ''monitorticket'' monitorticket
       @ xml_responseMember ''executionticket'' executionticket @ xml_responseMemberInt dtos ''port'' port
       @ xml_responseMemberInt dtos ''secureport'' secuport)"

definition xml_directRunResponse :: "(int \<Rightarrow> string) \<Rightarrow> string \<Rightarrow> string \<Rightarrow> string \<Rightarrow> int \<Rightarrow> int \<Rightarrow> string" where
  "xml_directRunResponse dtos homepath adminticket executionticket port secuport =
     xml_responseWraper (xml_responseMember ''homepath'' homepath @ xml_responseMember ''adminticket'' adminticket
       @ xml_responseMember ''executionticket'' executionticket @ xml_responseMemberInt dtos ''port'' port
       @ xml_responseMemberInt dtos ''secureport'' secuport)"

definition xml_getResultResponse :: "(int \<Rightarrow> string) \<Rightarrow> string \<Rightarrow> string \<Rightarrow> bool \<Rightarrow> bool \<Rightarrow> string" where
  "xml_getResultResponse dtos compilation execution executed interactive =
     xml_responseWraper (xml_responseMember ''compilation'' compilation @ xml_responseMember ''execution'' execution
       @ xml_responseMemberInt dtos ''executed'' (if executed then 1 else 0)
       @ xml_responseMemberInt dtos ''interactive'' (if interactive then 1 else 0))"

definition xml_updateResponse :: "(int \<Rightarrow> string) \<Rightarrow> bool \<Rightarrow> string" where
  "xml_updateResponse dtos ok = xml_responseWraper (xml_responseMemberInt dtos ''update'' (if ok then 1 else 0))"

definition xml_runningResponse :: "(int \<Rightarrow> string) \<Rightarrow> bool \<Rightarrow> string" where
  "xml_runningResponse dtos running = xml_responseWraper (xml_responseMemberInt dtos ''running'' (if running then 1 else 0))"

definition xml_stopResponse :: "(int \<Rightarrow> string) \<Rightarrow> string" where
  "xml_stopResponse dtos = xml_responseWraper (xml_responseMemberInt dtos ''stop'' 1)"

section \<open>Responses are documents\<close>

text \<open>A member whose name is letters, with the value in an element of the given type.\<close>

definition member_elem :: "string \<Rightarrow> string \<Rightarrow> string \<Rightarrow> elem" where
  "member_elem name type v = Elem ''member'' [] [Elem ''name'' (encodeXML name) [] [lf],
     Elem ''value'' [] [Elem type v [] []] [lf]] [lf]"

definition response_elem :: "elem list \<Rightarrow> elem" where
  "response_elem ms = Elem ''methodResponse'' [lf] [Elem ''params'' [lf] [Elem ''param'' [lf] [Elem ''struct'' [lf] ms [lf]] [lf]] [lf]] [lf]"

lemma responseMember_elem: "xml_responseMember name v = show_elem (member_elem name ''string'' (encodeXML v))"
  by (simp add: xml_responseMember_def member_elem_def tag_text_def end_tag_def)

lemma responseMemberInt_elem:
  "v \<le> int_max \<Longrightarrow> xml_responseMemberInt dtos name v = show_elem (member_elem name ''int'' (itos v))"
  by (simp add: xml_responseMemberInt_def member_elem_def tag_text_def end_tag_def)

lemma responseWraper_elem:
  "xml_responseWraper (show_forest ms) = [] @ tag_text xml_declaration @ [lf] @ show_elem (response_elem ms)"
  by (simp add: xml_responseWraper_def response_elem_def tag_text_def end_tag_def)

lemma xml_declaration_ok: "CHR ''>'' \<notin> set xml_declaration"
  by (simp add: xml_declaration_def char_names)

lemma encodeXML_ok: "text_ok (encodeXML s)"
  using xml_text_round_trip [of s] by (auto simp: text_ok_def)

lemma itos_ok: "text_ok (itos n)"
  using nat_digits_all_digits by (force simp: text_ok_def itos_def is_digit_def)

lemma member_elem_ok: "tag_ok t \<Longrightarrow> text_ok v \<Longrightarrow> elem_ok (member_elem name t v)"
  using encodeXML_ok by (simp add: member_elem_def tag_ok_def text_ok_def char_names)

lemma response_elem_ok: "forest_ok ms \<Longrightarrow> elem_ok (response_elem ms)"
  by (simp add: response_elem_def tag_ok_def text_ok_def char_names)

lemma response_parsed:
  assumes "forest_ok ms"
  shows "\<exists>root. xml_parse (xml_responseWraper (show_forest ms)) = Inr root \<and>
    is_elem (xml_responseWraper (show_forest ms)) root (response_elem ms)"
  unfolding responseWraper_elem
  using assms by (intro xml_parse_print response_elem_ok xml_declaration_ok) (simp_all add: text_ok_def char_names)

text \<open>The client's reading of a member, with the functions of the code itself.\<close>

lemma is_forest_Cons: "is_forest raw ns (e # es) \<longleftrightarrow> (\<exists>n ns'. ns = n # ns' \<and> is_elem raw n e \<and> is_forest raw ns' es)"
  by (cases ns) simp_all

lemma member_read:
  assumes "is_elem raw n (member_elem k t v)"
  shows "\<exists>x. t_tag x = t \<and> getRawContent raw x = v \<and>
    xml_members raw (n # ns) m = xml_members raw ns (ms_set m (get_clean_utf8 k) x)"
proof -
  obtain nm vl where c: "t_children n = [nm, vl]" "is_elem raw nm (Elem ''name'' (encodeXML k) [] [lf])"
      "is_elem raw vl (Elem ''value'' [] [Elem t v [] []] [lf])"
    using assms by (auto simp: member_elem_def is_forest_Cons simp del: show_elem.simps show_forest.simps is_forest.simps(2))
  obtain x where x: "t_children vl = [x]" "t_tag x = t" "getRawContent raw x = v"
    using c(3) by (auto simp: is_forest_Cons simp del: is_forest.simps(2))
  have "xml_getString raw nm = Inr (get_clean_utf8 k)"
    using c(2) xml_text_round_trip [of k] by (simp add: xml_getString_def)
  then have "xml_members raw (n # ns) m = xml_members raw ns (ms_set m (get_clean_utf8 k) x)"
    using c x by (simp add: child_named_def child_at_def nchild_def)
  with x show ?thesis by blast
qed

text \<open>
  The response with the results is a document whose struct has the outputs of the compilation and of the
  execution as the clean text of what the programs printed, whatever that was.
\<close>

lemma xml_results_read:
  "\<exists>root ps p st m c e. xml_parse (xml_getResultResponse dtos compilation execution executed interactive) = Inr root \<and>
     child_named ''params'' root = Inr ps \<and> child_named ''param'' ps = Inr p \<and> child_named ''struct'' p = Inr st \<and>
     xml_getStructMembers (xml_getResultResponse dtos compilation execution executed interactive) st = Inr m \<and>
     ms_get m ''compilation'' = Some c \<and> ms_get m ''execution'' = Some e \<and>
     xml_getString (xml_getResultResponse dtos compilation execution executed interactive) c = Inr (get_clean_utf8 compilation) \<and>
     xml_getString (xml_getResultResponse dtos compilation execution executed interactive) e = Inr (get_clean_utf8 execution)"
proof -
  define ms where "ms = [member_elem ''compilation'' ''string'' (encodeXML compilation), member_elem ''execution'' ''string'' (encodeXML execution),
     member_elem ''executed'' ''int'' (itos (if executed then 1 else 0)), member_elem ''interactive'' ''int'' (itos (if interactive then 1 else 0))]"
  define raw where "raw = xml_getResultResponse dtos compilation execution executed interactive"
  have raw: "raw = xml_responseWraper (show_forest ms)"
    by (simp add: raw_def ms_def xml_getResultResponse_def responseMember_elem responseMemberInt_elem int_max_def
        del: show_elem.simps)
  have "tag_ok ''string''" "tag_ok ''int''" by (simp_all add: tag_ok_def)
  then have "forest_ok ms" unfolding ms_def by (simp add: member_elem_ok encodeXML_ok itos_ok)
  then obtain root where root: "xml_parse raw = Inr root" "is_elem raw root (response_elem ms)"
    using response_parsed unfolding raw by blast
  obtain ps p st where path: "t_children root = [ps]" "t_tag ps = ''params''" "t_children ps = [p]" "t_tag p = ''param''"
      "t_children p = [st]" "t_tag st = ''struct''" "is_forest raw (t_children st) ms"
    using root(2) by (auto simp: response_elem_def is_forest_Cons simp del: show_elem.simps show_forest.simps is_forest.simps(2))
  obtain n1 n2 n3 n4 where n: "t_children st = [n1, n2, n3, n4]"
      "is_elem raw n1 (member_elem ''compilation'' ''string'' (encodeXML compilation))"
      "is_elem raw n2 (member_elem ''execution'' ''string'' (encodeXML execution))"
      "is_elem raw n3 (member_elem ''executed'' ''int'' (itos (if executed then 1 else 0)))"
      "is_elem raw n4 (member_elem ''interactive'' ''int'' (itos (if interactive then 1 else 0)))"
    using path(7) unfolding ms_def is_forest_Cons by (auto simp del: is_elem.simps is_forest.simps(2))
  have names: "get_clean_utf8 ''compilation'' = ''compilation''" "get_clean_utf8 ''execution'' = ''execution''"
    "get_clean_utf8 ''executed'' = ''executed''" "get_clean_utf8 ''interactive'' = ''interactive''"
    by code_simp+
  obtain c where c: "t_tag c = ''string''" "getRawContent raw c = encodeXML compilation"
      "xml_members raw [n1, n2, n3, n4] [] = xml_members raw [n2, n3, n4] (ms_set [] ''compilation'' c)"
    using member_read [OF n(2), of "[n2, n3, n4]" "[]"] names by auto
  obtain e where e: "t_tag e = ''string''" "getRawContent raw e = encodeXML execution"
      "xml_members raw [n2, n3, n4] (ms_set [] ''compilation'' c) =
       xml_members raw [n3, n4] (ms_set (ms_set [] ''compilation'' c) ''execution'' e)"
    using member_read [OF n(3), of "[n3, n4]" "ms_set [] ''compilation'' c"] names by auto
  obtain x where x: "xml_members raw [n3, n4] (ms_set (ms_set [] ''compilation'' c) ''execution'' e) =
       xml_members raw [n4] (ms_set (ms_set (ms_set [] ''compilation'' c) ''execution'' e) ''executed'' x)"
    using member_read [OF n(4), of "[n4]" "ms_set (ms_set [] ''compilation'' c) ''execution'' e"] names by auto
  define m3 where "m3 = ms_set (ms_set (ms_set [] ''compilation'' c) ''execution'' e) ''executed'' x"
  obtain y where y: "xml_members raw [n4] m3 = Inr (ms_set m3 ''interactive'' y)"
    using member_read [OF n(5), of "[]" m3] names by auto
  have "xml_getStructMembers raw st = Inr (ms_set m3 ''interactive'' y)"
    using path(6) n(1) c(3) e(3) x y by (simp add: xml_getStructMembers_def m3_def)
  moreover have "ms_get (ms_set m3 ''interactive'' y) ''compilation'' = Some c" "ms_get (ms_set m3 ''interactive'' y) ''execution'' = Some e"
    unfolding m3_def by (simp_all only: ms_get_set) simp_all
  moreover have "xml_getString raw c = Inr (get_clean_utf8 compilation)" "xml_getString raw e = Inr (get_clean_utf8 execution)"
    using c(1,2) e(1,2) xml_text_round_trip by (simp_all add: xml_getString_def)
  moreover have "child_named ''params'' root = Inr ps" "child_named ''param'' ps = Inr p" "child_named ''struct'' p = Inr st"
    using path by (simp_all add: child_named_def)
  ultimately show ?thesis using root(1) unfolding raw_def by blast
qed

end
