(* ===== verification/Http_Server.thy ===== *)
theory Http_Server
  imports Socket Xml Configuration
begin

text \<open>
  The class \<open>HttpJailServer\<close>: the check of the URL of a request, the reading of its body, and the responses.
  The version of the program, set by its build, is a parameter. Proved: what is sent names the length of what
  follows the headers; nothing is sent over a connection that has become a websocket; after a response the
  socket is closed; and the text of an error is shown without markup.
\<close>

section \<open>Requests\<close>

record http =
  h_socket :: sock
  h_authenticated :: bool

definition newHttp :: "sock \<Rightarrow> http" where
  "newHttp k = \<lparr>h_socket = k, h_authenticated = False\<rparr>"

definition http_on_socket :: "(sock, 'a) net \<Rightarrow> (http, 'a) net" where
  "http_on_socket = on_part h_socket (\<lambda>k h. h\<lparr>h_socket := k\<rparr>)"

definition setAuthenticated :: "http \<Rightarrow> http" where
  "setAuthenticated h = h\<lparr>h_authenticated := True\<rparr>"

definition validateRequest :: "string \<Rightarrow> sock \<Rightarrow> unit result" where
  "validateRequest expected_path k =
     (if sk_method k \<noteq> ''POST'' then Inl (HttpExn NotImplementedCode ''http METHOD not implemented'' [])
      else let expected_path = (if expected_path = [] then ''/'' else expected_path);
          URLPath = (if sk_URLPath k = [] then ''/'' else sk_URLPath k) in
        if \<not> compareConstantTime expected_path URLPath
        then Inl (HttpExn NotFoundCode ''http request URL path not found'' []) else Inr ())"

section \<open>Responses\<close>

definition content_type :: "string \<Rightarrow> string" where
  "content_type load =
     (if is_prefix ''<?xml '' load then ''text/xml''
      else if is_prefix ''{'' load then ''application/json''
      else if is_prefix ''<!DOCTYPE svg'' load \<or> is_prefix ''<svg'' load then ''image/svg+xml''
      else if is_prefix ''<!DOCTYPE html'' load \<or> is_prefix ''<html'' load then ''text/html''
      else ''text/plain'')"

definition status_line :: "int \<Rightarrow> string \<Rightarrow> string" where
  "status_line code codeText = ''HTTP/1.1 '' @ itos code @ '' '' @ codeText @ crlf"

text \<open>The headers of a response that is not 100, the empty line included.\<close>

definition response_headers :: "string \<Rightarrow> configuration \<Rightarrow> bool \<Rightarrow> string \<Rightarrow> string \<Rightarrow> string" where
  "response_headers version conf authenticated load extraHeader =
     (if authenticated then ''Server: vpl-jail-system '' @ version @ crlf else []) @
     ''Connection: close'' @ crlf @ extraHeader @
     ''Content-Length: '' @ itos (int (length load)) @ crlf @
     (if cf_HSTSMaxAge conf \<ge> 0 then ''Strict-Transport-Security: max-age='' @ itos (cf_HSTSMaxAge conf) @ crlf else []) @
     ''Content-Type: '' @ content_type load @ ''; charset=utf-8'' @ crlf @ crlf"

definition prepare_HTTP :: "string \<Rightarrow> configuration \<Rightarrow> bool \<Rightarrow> int \<Rightarrow> string \<Rightarrow> string \<Rightarrow> bool \<Rightarrow> string \<Rightarrow> string" where
  "prepare_HTTP version conf authenticated code codeText load headMethod extraHeader =
     status_line code codeText @
     (if code \<noteq> 100 then response_headers version conf authenticated load extraHeader @ (if headMethod then [] else load)
      else crlf)"

definition http_send :: "string \<Rightarrow> configuration \<Rightarrow> int \<Rightarrow> string \<Rightarrow> string \<Rightarrow> bool \<Rightarrow> string \<Rightarrow> (http, unit) net" where
  "http_send version conf code codeText load headMethod extraHeader h =
     (if sk_websocketProtocol (h_socket h) then net_modify (\<lambda>h. h\<lparr>h_socket := socket_close (h_socket h)\<rparr>) h
      else net_bind (http_on_socket (socket_send
           (prepare_HTTP version conf (h_authenticated h) code codeText load headMethod extraHeader) False))
         (\<lambda>_. if code \<noteq> 100 then net_modify (\<lambda>h. h\<lparr>h_socket := socket_close (h_socket h)\<rparr>) else net_return ()) h)"

definition send200 :: "string \<Rightarrow> configuration \<Rightarrow> string \<Rightarrow> bool \<Rightarrow> string \<Rightarrow> (http, unit) net" where
  "send200 version conf response headMethod extraHeader = http_send version conf 200 ''OK'' response headMethod extraHeader"

fun code_text :: "code_number \<Rightarrow> string" where
  "code_text ContinueCode = ''Continue''"
| "code_text BadRequestCode = ''Bad Request''"
| "code_text NotFoundCode = ''Not Found''"
| "code_text MethodNotAllowedCode = ''Not Allowed''"
| "code_text RequestTimeoutCode = ''Request Time-out''"
| "code_text RequestEntityTooLargeCode = ''Request Entity Too Large''"
| "code_text InternalServerErrorCode = ''Internal Server Error''"
| "code_text NotImplementedCode = ''Not Implemented''"

definition error_page :: "code_number \<Rightarrow> string \<Rightarrow> string" where
  "error_page code t =
     (if code = ContinueCode then []
      else let status = itos (code_value code) @ '' '' @ code_text code in
        ''<html>'' @ crlf @ ''<head><title>'' @ status @ ''</title></head>'' @ crlf @ ''<body>'' @ crlf @
        ''<center><h1>'' @ status @ ''</h1></center>'' @ crlf @ ''<hr><center>nginx</center>'' @ crlf @
        (if t \<noteq> [] then ''<p>'' @ encodeXML t @ ''</p>'' @ crlf else []) @
        ''</body>'' @ crlf @ ''</html>'' @ crlf)"

definition sendCode :: "string \<Rightarrow> configuration \<Rightarrow> code_number \<Rightarrow> string \<Rightarrow> (http, unit) net" where
  "sendCode version conf code t h =
     (if sk_websocketProtocol (h_socket h) then net_modify (\<lambda>h. h\<lparr>h_socket := socket_close (h_socket h)\<rparr>) h
      else http_send version conf (code_value code) (code_text code) (error_page code t) False [] h)"

text \<open>\<open>receive\<close>: \<open>100-continue\<close> is answered first; the length is what \<open>atoi\<close> makes of the header.\<close>

definition http_receive :: "string \<Rightarrow> configuration \<Rightarrow> (http, string) net" where
  "http_receive version conf h =
     net_bind (if getHeader (h_socket h) ''Expect'' = ''100-continue'' then sendCode version conf ContinueCode []
               else net_return ())
      (\<lambda>_ h. let sizeToRead = c_atoi (getHeader (h_socket h) ''Content-Length'') in
         if sizeToRead = 0 then net_return [] h
         else if sizeToRead > cf_requestMaxSize conf then
           net_throw (HttpExn RequestEntityTooLargeCode ''http Request size too large'' (getHeader (h_socket h) ''Content-Length'')) h
         else http_on_socket (receive_from sizeToRead) h) h"

section \<open>What a client reads\<close>

text \<open>A client of the protocol: lines up to an empty line, and the rest.\<close>

fun crlf_line :: "string \<Rightarrow> string \<times> string" where
  "crlf_line [] = ([], [])"
| "crlf_line (c # cs) = (if c = cr \<and> cs \<noteq> [] \<and> hd cs = lf then ([], tl cs)
     else case crlf_line cs of (l, r) \<Rightarrow> (c # l, r))"

lemma crlf_line_rest: "fst (crlf_line s) \<noteq> [] \<Longrightarrow> length (snd (crlf_line s)) < length s"
proof -
  have le: "length (snd (crlf_line s)) \<le> length s" for s
    by (induction s) (auto split: prod.splits)
  assume "fst (crlf_line s) \<noteq> []"
  then obtain c cs where "s = c # cs" "snd (crlf_line s) = snd (crlf_line cs)"
    by (cases s) (auto split: prod.splits if_splits)
  then show ?thesis using le [of cs] by simp
qed

function client_read :: "string \<Rightarrow> string list \<times> string" where
  "client_read s = (let l = fst (crlf_line s); r = snd (crlf_line s) in
     if l = [] then ([], r) else case client_read r of (ls, b) \<Rightarrow> (l # ls, b))"
  by pat_completeness auto
termination
  by (relation "measure length") (simp_all add: crlf_line_rest)

declare client_read.simps [simp del]

definition one_line :: "string \<Rightarrow> bool" where
  "one_line l \<longleftrightarrow> cr \<notin> set l"

lemma crlf_line_at: "one_line l \<Longrightarrow> crlf_line (l @ crlf @ r) = (l, r)"
  by (induction l) (auto simp: one_line_def crlf_def split: prod.splits)

lemma client_read_line: "one_line l \<Longrightarrow> l \<noteq> [] \<Longrightarrow> client_read (l @ crlf @ r) = (l # fst (client_read r), snd (client_read r))"
  by (subst client_read.simps) (simp add: crlf_line_at split: prod.splits)

lemma client_read_end: "client_read (crlf @ b) = ([], b)"
  using crlf_line_at [of "[]" b] by (subst client_read.simps) (simp add: one_line_def)

definition lines_text :: "string list \<Rightarrow> string" where
  "lines_text ls = concat (map (\<lambda>l. l @ crlf) ls)"

lemma client_read_lines:
  "\<forall>l \<in> set ls. one_line l \<and> l \<noteq> [] \<Longrightarrow> client_read (lines_text ls @ crlf @ b) = (ls, b)"
proof (induction ls)
  case (Cons l ls)
  then show ?case using client_read_line [of l "lines_text ls @ crlf @ b"] by (simp add: lines_text_def)
qed (simp add: lines_text_def client_read_end)

definition header_lines_of :: "string \<Rightarrow> configuration \<Rightarrow> bool \<Rightarrow> string \<Rightarrow> string list \<Rightarrow> string list" where
  "header_lines_of version conf authenticated load extra =
     (if authenticated then [''Server: vpl-jail-system '' @ version] else []) @ [''Connection: close''] @ extra @
     [''Content-Length: '' @ itos (int (length load))] @
     (if cf_HSTSMaxAge conf \<ge> 0 then [''Strict-Transport-Security: max-age='' @ itos (cf_HSTSMaxAge conf)] else []) @
     [''Content-Type: '' @ content_type load @ ''; charset=utf-8'']"

lemma response_headers_lines:
  "response_headers version conf authenticated load (lines_text extra) =
     lines_text (header_lines_of version conf authenticated load extra) @ crlf"
  by (simp add: response_headers_def header_lines_of_def lines_text_def)

lemma one_line_itos: "one_line (itos n)"
  using nat_digits_all_digits by (force simp: one_line_def itos_def is_digit_def char_names)

lemma one_line_simps: "one_line []" "one_line (c # s) \<longleftrightarrow> c \<noteq> cr \<and> one_line s" "one_line (s @ t) \<longleftrightarrow> one_line s \<and> one_line t"
  by (auto simp: one_line_def)

lemma one_line_type: "one_line (content_type load)"
  by (simp add: content_type_def one_line_simps char_names)

lemma header_lines_ok:
  assumes "one_line version" "\<forall>l \<in> set extra. one_line l \<and> l \<noteq> []"
  shows "\<forall>l \<in> set (header_lines_of version conf authenticated load extra). one_line l \<and> l \<noteq> []"
proof -
  have "one_line ''Server: vpl-jail-system ''" "one_line ''Connection: close''" "one_line ''Content-Length: ''"
    "one_line ''Strict-Transport-Security: max-age=''" "one_line ''Content-Type: ''" "one_line ''; charset=utf-8''"
    by (simp_all add: one_line_simps char_names)
  then show ?thesis using assms one_line_itos one_line_type
    by (auto simp: header_lines_of_def one_line_simps(3) simp del: append_Cons)
qed

text \<open>
  A client that reads a response line by line, up to the empty line, gets the status, the headers, with any
  extra ones among them, and then the payload, byte for byte, or nothing for HEAD; the length it is told is
  that of the payload.
\<close>

lemma response_is_framed:
  assumes "one_line version" "one_line codeText" "\<forall>l \<in> set extra. one_line l \<and> l \<noteq> []" "code \<noteq> 100"
  shows "\<exists>lines. client_read (prepare_HTTP version conf authenticated code codeText load headMethod (lines_text extra)) =
      ((''HTTP/1.1 '' @ itos code @ '' '' @ codeText) # lines, if headMethod then [] else load) \<and>
    (''Content-Length: '' @ itos (int (length load))) \<in> set lines \<and> set extra \<subseteq> set lines"
proof -
  let ?ls = "header_lines_of version conf authenticated load extra"
  have "one_line (''HTTP/1.1 '' @ itos code @ '' '' @ codeText)"
    using assms(2) one_line_itos by (simp add: one_line_simps char_names)
  then have "client_read (prepare_HTTP version conf authenticated code codeText load headMethod (lines_text extra)) =
      ((''HTTP/1.1 '' @ itos code @ '' '' @ codeText) # ?ls, if headMethod then [] else load)"
    using client_read_line [of "''HTTP/1.1 '' @ itos code @ '' '' @ codeText" "lines_text ?ls @ crlf @ (if headMethod then [] else load)"]
      client_read_lines [OF header_lines_ok [OF assms(1,3)], of conf authenticated load "if headMethod then [] else load"] assms(4)
    by (simp add: prepare_HTTP_def status_line_def response_headers_lines)
  moreover have "set extra \<subseteq> set ?ls" "(''Content-Length: '' @ itos (int (length load))) \<in> set ?ls"
    by (auto simp: header_lines_of_def)
  ultimately show ?thesis by blast
qed

lemma response_is_framed_witness:
  "\<forall>conf. \<exists>lines. client_read (prepare_HTTP ''4.1'' conf True 200 ''OK'' ''{}'' False (lines_text [''Location: /''])) =
      ((''HTTP/1.1 '' @ itos 200 @ '' '' @ ''OK'') # lines, if False then [] else ''{}'') \<and>
    (''Content-Length: '' @ itos (int (length ''{}''))) \<in> set lines \<and> set [''Location: /''] \<subseteq> set lines"
  by (intro allI, rule response_is_framed) (simp_all add: one_line_simps char_names)

section \<open>What a response leaves\<close>

lemma http_send_websocket:
  "sk_websocketProtocol (h_socket h) \<Longrightarrow>
    http_send version conf code codeText load headMethod extraHeader h rs = Some ((h\<lparr>h_socket := socket_close (h_socket h)\<rparr>, Inr ()), rs)"
  by (simp add: http_send_def net_modify_def)

lemma http_send_closed:
  assumes "http_send version conf code codeText load headMethod extraHeader h rs = Some ((h', Inr u), rs')" "code \<noteq> 100"
  shows "sk_closed (h_socket h')"
proof (cases "sk_websocketProtocol (h_socket h)")
  case True
  then show ?thesis using assms(1) by (auto simp: http_send_websocket socket_close_def closeFlag_def)
next
  case False
  then show ?thesis
    using assms by (auto simp: http_send_def net_bind_def net_modify_def socket_close_def closeFlag_def
      split: option.splits prod.splits sum.splits)
qed

text \<open>
  An answer to an error leaves the connection closed; over a connection that has become a websocket it
  sends nothing at all; and the page it sends elsewhere has no angle bracket or quotation mark from the text.
\<close>

lemma error_answer:
  "sendCode version conf code t h rs = Some ((h', Inr u), rs') \<Longrightarrow> code \<noteq> ContinueCode \<Longrightarrow>
     sk_closed (h_socket h') \<and>
     (sk_websocketProtocol (h_socket h) \<longrightarrow> sk_wire (h_socket h') = sk_wire (h_socket h) \<and> rs' = rs) \<and>
     (t \<noteq> [] \<longrightarrow> (\<exists>a e b. error_page code t = a @ e @ b \<and> decodeXML e = Inr (get_clean_utf8 t) \<and>
        set e \<inter> {CHR ''<'', CHR ''>'', dquote, squote} = {} \<and> error_page code ''x'' = a @ ''x'' @ b))"
proof -
  assume r: "sendCode version conf code t h rs = Some ((h', Inr u), rs')" and c: "code \<noteq> ContinueCode"
  have "code_value code \<noteq> 100" using c by (cases code) simp_all
  then have "sk_closed (h_socket h')"
    using r http_send_closed by (auto simp: sendCode_def net_modify_def socket_close_def closeFlag_def split: if_splits)
  moreover have "sk_websocketProtocol (h_socket h) \<longrightarrow> sk_wire (h_socket h') = sk_wire (h_socket h) \<and> rs' = rs"
    using r by (auto simp: sendCode_def net_modify_def socket_close_def closeFlag_def)
  moreover have "\<exists>a e b. error_page code t = a @ e @ b \<and> decodeXML e = Inr (get_clean_utf8 t) \<and>
        set e \<inter> {CHR ''<'', CHR ''>'', dquote, squote} = {} \<and> error_page code ''x'' = a @ ''x'' @ b" if "t \<noteq> []"
  proof -
    have x: "encodeXML ''x'' = ''x''" by code_simp
    define status where "status = itos (code_value code) @ '' '' @ code_text code"
    define a where "a = ''<html>'' @ crlf @ ''<head><title>'' @ status @ ''</title></head>'' @ crlf @ ''<body>'' @ crlf @
        ''<center><h1>'' @ status @ ''</h1></center>'' @ crlf @ ''<hr><center>nginx</center>'' @ crlf @ ''<p>''"
    define b where "b = ''</p>'' @ crlf @ ''</body>'' @ crlf @ ''</html>'' @ crlf"
    have page: "error_page code s = a @ encodeXML s @ b" if "s \<noteq> []" for s
      using c that by (simp add: error_page_def a_def b_def status_def Let_def)
    have "set (encodeXML t) \<inter> {CHR ''<'', CHR ''>'', dquote, squote} = {}" using xml_text_round_trip [of t] by auto
    then show ?thesis using page [OF that] page [of "''x''"] x xml_text_round_trip [of t] by (metis not_Cons_self2)
  qed
  ultimately show ?thesis by blast
qed

lemma error_answer_witness:
  "\<forall>conf. \<exists>h'. sendCode ''4.1'' conf NotFoundCode ''<b>'' (newHttp (markWebSocketProtocol (newSocket 0 100))) [] = Some ((h', Inr ()), []) \<and>
     sk_closed (h_socket h') \<and> sk_wire (h_socket h') = [] \<and>
     (\<exists>a e b. error_page NotFoundCode ''<b>'' = a @ e @ b \<and> decodeXML e = Inr (get_clean_utf8 ''<b>'') \<and>
        set e \<inter> {CHR ''<'', CHR ''>'', dquote, squote} = {} \<and> error_page NotFoundCode ''x'' = a @ ''x'' @ b)"
proof
  fix conf
  let ?h = "newHttp (markWebSocketProtocol (newSocket 0 100))"
  let ?h' = "?h\<lparr>h_socket := socket_close (h_socket ?h)\<rparr>"
  have ws: "sk_websocketProtocol (h_socket ?h)" "sk_wire (h_socket ?h) = []"
    by (simp_all add: newHttp_def markWebSocketProtocol_def newSocket_def)
  then have r: "sendCode ''4.1'' conf NotFoundCode ''<b>'' ?h [] = Some ((?h', Inr ()), [])"
    by (simp add: sendCode_def net_modify_def)
  show "\<exists>h'. sendCode ''4.1'' conf NotFoundCode ''<b>'' ?h [] = Some ((h', Inr ()), []) \<and>
     sk_closed (h_socket h') \<and> sk_wire (h_socket h') = [] \<and>
     (\<exists>a e b. error_page NotFoundCode ''<b>'' = a @ e @ b \<and> decodeXML e = Inr (get_clean_utf8 ''<b>'') \<and>
        set e \<inter> {CHR ''<'', CHR ''>'', dquote, squote} = {} \<and> error_page NotFoundCode ''x'' = a @ ''x'' @ b)"
    using error_answer [OF r] r ws by (intro exI [of _ ?h']) simp
qed

end
