(* ===== verification/Cgroup.thy ===== *)
theory Cgroup
  imports Effects Util_Strings "HOL-Library.AList" "HOL-Library.Char_ord" "HOL-Library.List_Lexorder"
begin

text \<open>
  The class \<open>Cgroup\<close>: where the control groups are mounted, whether they can be used, and the reading and
  writing of the control files of a group, in both layouts. The file system of the kernel is part of the state:
  the files a new group gets, what it refuses to write and which mounts are read-only are given by it. Proved: the
  limit written is the limit read; probing leaves no group behind; and with the layout of version 1, a group
  has no directory that anything would create, so that attaching a process always fails.
\<close>

section \<open>The state of the class and the file system\<close>

datatype cg_errno = EBusy | EExist | EOther

record cgw =
  cg_base :: string
  cg_overridden :: bool
  cg_initialized :: bool
  cg_initializedBase :: string
  cg_isV2 :: bool
  cg_checked :: bool
  cg_cached :: bool
  cg_checkedBase :: string
  cg_files :: "(string \<times> string) list"
  cg_dirs :: "string list"
  cg_mounts :: "string option"
  cg_readonly :: "string \<Rightarrow> bool"
  cg_refuses :: "(string \<times> string) list \<Rightarrow> string \<Rightarrow> string \<Rightarrow> cg_errno option"
  cg_mkdir_fails :: "string \<Rightarrow> bool"
  cg_rmdir_fails :: "string \<Rightarrow> bool"
  cg_kernel :: "string \<Rightarrow> (string \<times> string) list"
  cg_pid :: int
  cg_hz :: int

definition cg_exists :: "cgw \<Rightarrow> string \<Rightarrow> bool" where
  "cg_exists w p \<longleftrightarrow> map_of (cg_files w) p \<noteq> None"

definition cg_isdir :: "cgw \<Rightarrow> string \<Rightarrow> bool" where
  "cg_isdir w p \<longleftrightarrow> p \<in> set (cg_dirs w)"

text \<open>The system calls. A new directory has the files the kernel gives it; removing it removes them.\<close>

definition cg_mkdir :: "string \<Rightarrow> cgw \<Rightarrow> cgw \<times> cg_errno option" where
  "cg_mkdir p w = (if cg_isdir w p then (w, Some EExist)
     else if cg_mkdir_fails w p then (w, Some EOther)
     else (w\<lparr>cg_dirs := p # cg_dirs w, cg_files := cg_kernel w p @ cg_files w\<rparr>, None))"

definition below_dir :: "string \<Rightarrow> string \<Rightarrow> bool" where
  "below_dir p f \<longleftrightarrow> is_prefix (p @ ''/'') f"

definition cg_rmdir :: "string \<Rightarrow> cgw \<Rightarrow> cgw \<times> bool" where
  "cg_rmdir p w = (if \<not> cg_isdir w p \<or> cg_rmdir_fails w p then (w, False)
     else (w\<lparr>cg_dirs := removeAll p (cg_dirs w), cg_files := filter (\<lambda>(f, d). \<not> below_dir p f) (cg_files w)\<rparr>, True))"

definition cg_readFile :: "string \<Rightarrow> (cgw, string) op" where
  "cg_readFile p w = (w, case map_of (cg_files w) p of Some d \<Rightarrow> Inr d
     | None \<Rightarrow> Inl (HttpExn InternalServerErrorCode ''I can't read file'' []))"

definition canOpenForWriting :: "cgw \<Rightarrow> string \<Rightarrow> bool" where
  "canOpenForWriting w p \<longleftrightarrow> cg_exists w p \<and> \<not> cg_readonly w p"

section \<open>Paths and control files\<close>

definition joinPath :: "string \<Rightarrow> string \<Rightarrow> string" where
  "joinPath a b = (if a = [] then b else if b = [] then a else if last a = CHR ''/'' then a @ b else a @ ''/'' @ b)"

definition isReadOnlyFilesystem :: "cgw \<Rightarrow> string \<Rightarrow> bool" where
  "isReadOnlyFilesystem w p \<longleftrightarrow> p = [] \<or> cg_readonly w p"

definition isCgroupV2Base :: "cgw \<Rightarrow> string \<Rightarrow> bool" where
  "isCgroupV2Base w base \<longleftrightarrow> base \<noteq> [] \<and> cg_exists w (joinPath base ''cgroup.controllers'')"

definition writeControlFile :: "string \<Rightarrow> string \<Rightarrow> cgw \<Rightarrow> cgw \<times> cg_errno option" where
  "writeControlFile p v w = (if \<not> canOpenForWriting w p then (w, Some EOther)
     else case cg_refuses w (cg_files w) p v of Some e \<Rightarrow> (w, Some e)
     | None \<Rightarrow> (w\<lparr>cg_files := AList.update p v (cg_files w)\<rparr>, None))"

text \<open>\<open>probeFilesystem\<close>: a group is made, its files are tried, and it is removed.\<close>

definition probe_dir :: "string \<Rightarrow> string list \<Rightarrow> cgw \<Rightarrow> cgw \<times> bool" where
  "probe_dir p names w = (case cg_mkdir p w of
      (w, Some e) \<Rightarrow> (w, False)
    | (w, None) \<Rightarrow> (let usable = list_all (\<lambda>n. canOpenForWriting w (joinPath p n)) names in
        case cg_rmdir p w of (w, removed) \<Rightarrow> (w, usable \<and> removed)))"

definition probeFilesystem :: "string \<Rightarrow> bool \<Rightarrow> cgw \<Rightarrow> cgw \<times> bool" where
  "probeFilesystem base v2 w =
     (let probeName = ''.vpl-cgroup-probe-'' @ itos (cg_pid w); memoryPath = joinPath base ''memory'' in
      if base = [] \<or> isReadOnlyFilesystem w base then (w, False)
      else if v2 then
        (if \<not> cg_exists w (joinPath base ''cgroup.controllers'') then (w, False)
         else probe_dir (joinPath base probeName) [''cgroup.procs'', ''memory.max''] w)
      else if \<not> cg_isdir w memoryPath \<or> isReadOnlyFilesystem w memoryPath then (w, False)
      else probe_dir (joinPath memoryPath probeName) [''tasks'', ''memory.limit_in_bytes''] w)"

text \<open>Lines of a text, as \<open>getline\<close> gives them: nothing behind a last mark.\<close>

function getlines :: "char \<Rightarrow> string \<Rightarrow> string list" where
  "getlines m s = (if s = [] then [] else takeWhile (\<lambda>d. d \<noteq> m) s # getlines m (drop 1 (dropWhile (\<lambda>d. d \<noteq> m) s)))"
  by pat_completeness auto
termination
proof (relation "measure (\<lambda>(m, s). length s)")
  fix m :: char and s :: string
  assume "s \<noteq> []"
  moreover have "length (dropWhile (\<lambda>d. d \<noteq> m) s) \<le> length s" by (rule length_dropWhile_le)
  moreover have "length s > 0" using \<open>s \<noteq> []\<close> by simp
  ultimately have "length (dropWhile (\<lambda>d. d \<noteq> m) s) - 1 < length s" by linarith
  then show "((m, drop 1 (dropWhile (\<lambda>d. d \<noteq> m) s)), m, s) \<in> measure (\<lambda>(m, s). length s)" by simp
qed simp

declare getlines.simps [simp del]

text \<open>
  \<open>moveProcessesToLeaf\<close>: whether a process has been moved. A group that cannot be made, for another reason than
  being there, ends it.
\<close>

definition move_pid :: "string \<Rightarrow> string \<Rightarrow> cgw \<times> nat \<Rightarrow> cgw \<times> nat" where
  "move_pid leafProcs pid wm = (case wm of (w, moved) \<Rightarrow>
     if pid = [] then (w, moved)
     else case writeControlFile leafProcs pid w of (w, None) \<Rightarrow> (w, Suc moved) | (w, Some e) \<Rightarrow> (w, moved))"

definition moveProcessesToLeaf :: "string \<Rightarrow> cgw \<Rightarrow> cgw \<times> bool" where
  "moveProcessesToLeaf parent w = (let leaf = joinPath parent ''vpl-jail-system.init'' in
     case cg_mkdir leaf w of
       (w, Some EOther) \<Rightarrow> (w, False)
     | (w, Some EBusy) \<Rightarrow> (w, False)
     | (w, _) \<Rightarrow> (case map_of (cg_files w) (joinPath parent ''cgroup.procs'') of
          None \<Rightarrow> (w, False)
        | Some procs \<Rightarrow> (case fold (move_pid (joinPath leaf ''cgroup.procs'')) (getlines lf procs) (w, 0) of
            (w, moved) \<Rightarrow> (w, moved \<noteq> 0))))"

definition enable_token :: "string \<Rightarrow> string \<Rightarrow> string \<Rightarrow> cgw \<times> bool \<Rightarrow> cgw \<times> bool" where
  "enable_token parent controllers token wm = (case wm of (w, moved) \<Rightarrow>
     let subtreeFile = joinPath parent ''cgroup.subtree_control'' in
     if \<not> contains_str controllers token then (w, moved)
     else case writeControlFile subtreeFile (CHR ''+'' # token) w of
       (w, None) \<Rightarrow> (w, moved)
     | (w, Some e) \<Rightarrow>
         if e = EBusy \<and> \<not> moved then
           (case moveProcessesToLeaf parent w of (w, moved) \<Rightarrow>
             (if moved then fst (writeControlFile subtreeFile (CHR ''+'' # token) w) else w, moved))
         else (w, moved))"

definition enableV2Controllers :: "string \<Rightarrow> cgw \<Rightarrow> cgw" where
  "enableV2Controllers parent w =
     (let controllers = (case map_of (cg_files w) (joinPath parent ''cgroup.controllers'') of Some d \<Rightarrow> d | None \<Rightarrow> []) in
      if controllers = [] then w
      else fst (fold (enable_token parent controllers) [''memory'', ''pids'', ''cpu''] (w, False)))"

section \<open>Finding the file system\<close>

text \<open>The words of a line, and the first four of them, empty when missing.\<close>

fun words_from :: "string \<Rightarrow> string \<Rightarrow> string list" where
  "words_from w [] = (if w = [] then [] else [w])"
| "words_from w (c # cs) = (if is_c_space c then (if w = [] then words_from [] cs else w # words_from [] cs)
     else words_from (w @ [c]) cs)"

definition word_at :: "nat \<Rightarrow> string \<Rightarrow> string" where
  "word_at i line = (let ws = words_from [] line in if i < length ws then ws ! i else [])"

definition split_last_slash :: "string \<Rightarrow> (string \<times> string) option" where
  "split_last_slash p = (if CHR ''/'' \<in> set p then
     (let tail = rev (takeWhile (\<lambda>c. c \<noteq> CHR ''/'') (rev p)) in Some (take (length p - length tail - 1) p, tail)) else None)"

record mount_scan =
  ms_v2 :: "string list"
  ms_v1 :: "(string \<times> bool) list"
  ms_found :: bool

definition scan_mount :: "cgw \<Rightarrow> string \<Rightarrow> mount_scan \<Rightarrow> mount_scan" where
  "scan_mount w line s =
     (let mountpoint = word_at 1 line; fstype = word_at 2 line; options = word_at 3 line;
          readOnly = (''ro'' \<in> set (getlines (CHR '','') options) \<or> isReadOnlyFilesystem w mountpoint) in
      if fstype = ''cgroup2'' then
        s\<lparr>ms_found := True, ms_v2 := (if readOnly then ms_v2 s else ms_v2 s @ [mountpoint])\<rparr>
      else if fstype = ''cgroup'' then
        (let s = s\<lparr>ms_found := True\<rparr> in
         case split_last_slash mountpoint of
           Some (basePath, controller) \<Rightarrow>
             if basePath \<noteq> [] \<and> controller = ''memory'' then s\<lparr>ms_v1 := AList.update basePath (\<not> readOnly) (ms_v1 s)\<rparr> else s
         | None \<Rightarrow> s)
      else s)"

fun first_usable_v2 :: "string list \<Rightarrow> cgw \<Rightarrow> cgw \<times> string option" where
  "first_usable_v2 [] w = (w, None)"
| "first_usable_v2 (p # ps) w = (case probeFilesystem p True (enableV2Controllers p w) of
     (w, True) \<Rightarrow> (w, Some p) | (w, False) \<Rightarrow> first_usable_v2 ps w)"

text \<open>The shortest usable base of version 1, the paths being tried in the order of the \<open>map\<close>.\<close>

definition try_v1 :: "string \<times> bool \<Rightarrow> cgw \<times> string \<Rightarrow> cgw \<times> string" where
  "try_v1 pb wb = (case (pb, wb) of ((p, writable), (w, best)) \<Rightarrow>
     if \<not> writable then (w, best)
     else case probeFilesystem p False w of (w, usable) \<Rightarrow>
       (w, if usable \<and> (best = [] \<or> length p < length best) then p else best))"

definition defaultPath :: string where "defaultPath = ''/sys/fs/cgroup''"

definition findCgroupFilesystem :: "cgw \<Rightarrow> cgw \<times> string" where
  "findCgroupFilesystem w = (case cg_mounts w of
      None \<Rightarrow> (w, defaultPath)
    | Some mounts \<Rightarrow>
      (let s = fold (scan_mount w) (getlines lf mounts) \<lparr>ms_v2 = [], ms_v1 = [], ms_found = False\<rparr> in
       case first_usable_v2 (ms_v2 s) w of
         (w, Some p) \<Rightarrow> (w, p)
       | (w, None) \<Rightarrow> (case fold try_v1 (sort_key fst (ms_v1 s)) (w, []) of (w, best) \<Rightarrow>
           if best \<noteq> [] then (w, best) else if ms_found s then (w, []) else (w, defaultPath))))"

definition cg_init :: "cgw \<Rightarrow> cgw" where
  "cg_init w = (if cg_initialized w \<and> cg_initializedBase w = cg_base w then w
     else let w = (if \<not> cg_overridden w then (case findCgroupFilesystem w of (w, b) \<Rightarrow> w\<lparr>cg_base := b\<rparr>) else w);
         v2 = (cg_base w \<noteq> [] \<and> isCgroupV2Base w (cg_base w));
         w = w\<lparr>cg_isV2 := v2, cg_initializedBase := cg_base w, cg_initialized := True, cg_checked := False\<rparr> in
       if v2 then enableV2Controllers (cg_base w) w else w)"

definition cg_isAvailable :: "cgw \<Rightarrow> cgw \<times> bool" where
  "cg_isAvailable w0 = (let w = cg_init w0 in
     if cg_checked w \<and> cg_checkedBase w = cg_base w then (w, cg_cached w)
     else case probeFilesystem (cg_base w) (cg_isV2 w) (w\<lparr>cg_checkedBase := cg_base w\<rparr>) of
       (w, ok) \<Rightarrow> (w\<lparr>cg_cached := ok, cg_checked := True\<rparr>, ok))"

definition setBaseCgroupFileSystem :: "string \<Rightarrow> cgw \<Rightarrow> cgw" where
  "setBaseCgroupFileSystem b w = w\<lparr>cg_overridden := True, cg_base := b, cg_initialized := False, cg_checked := False\<rparr>"

section \<open>A group\<close>

definition createV2Cgroup :: "string \<Rightarrow> (cgw, unit) op" where
  "createV2Cgroup dir w = (if \<not> cg_isV2 w then (w, Inr ())
     else case cg_mkdir dir w of
       (w, None) \<Rightarrow> (w, Inr ())
     | (w, Some EExist) \<Rightarrow> (w, Inr ())
     | (w, Some e) \<Rightarrow> (w, Inl (StdExn ''Unable to create cgroup'')))"

definition createCgroup :: "string \<Rightarrow> (cgw, unit) op" where
  "createCgroup dir = createV2Cgroup dir"

text \<open>The constructor: the directory of the group.\<close>

definition newCgroup :: "string \<Rightarrow> (cgw, string) op" where
  "newCgroup name w0 = (let w = cg_init w0;
       dir = (if cg_isV2 w then joinPath (cg_base w) name else joinPath (cg_base w) name @ ''/'') in
     op_then (createV2Cgroup dir) (op_return dir) w)"

definition v1Path :: "string \<Rightarrow> string \<Rightarrow> string" where "v1Path dir relative = dir @ relative"
definition v2Path :: "string \<Rightarrow> string \<Rightarrow> string" where "v2Path dir relative = joinPath dir relative"

definition attachPidV2 :: "string \<Rightarrow> int \<Rightarrow> (cgw, unit) op" where
  "attachPidV2 dir pid w = (case writeControlFile (v2Path dir ''cgroup.procs'') (itos pid) w of
     (w, None) \<Rightarrow> (w, Inr ()) | (w, Some e) \<Rightarrow> (w, Inl (StdExn ''Unable to attach process to cgroup'')))"

text \<open>
  Opening with \<open>fstream::app\<close> makes a file that is not there only where there is a directory for it, and
  control groups let nobody make files. The three operations differ in the file and the message.
\<close>

definition append_pid :: "string \<Rightarrow> string \<Rightarrow> int \<Rightarrow> (cgw, unit) op" where
  "append_pid p controller pid w = (if \<not> canOpenForWriting w p then
       (w, Inl (StdExn (''Unable to attach process to '' @ controller @ '' cgroup'')))
     else case cg_refuses w (cg_files w) p (itos pid @ [lf]) of
       Some e \<Rightarrow> (w, Inr ())
     | None \<Rightarrow> (w\<lparr>cg_files := AList.map_default p (itos pid @ [lf]) (\<lambda>d. d @ itos pid @ [lf]) (cg_files w)\<rparr>, Inr ()))"

definition setNetProcs :: "string \<Rightarrow> int \<Rightarrow> (cgw, unit) op" where
  "setNetProcs dir pid w = (if cg_isV2 w then attachPidV2 dir pid w
     else append_pid (v1Path dir ''net_cls,net_prio/tasks'') ''net'' pid w)"

definition setCPUProcs :: "string \<Rightarrow> int \<Rightarrow> (cgw, unit) op" where
  "setCPUProcs dir pid w = (if cg_isV2 w then attachPidV2 dir pid w
     else append_pid (v1Path dir ''cpu,cpuacct/tasks'') ''CPU'' pid w)"

definition setMemoryProcs :: "string \<Rightarrow> int \<Rightarrow> (cgw, unit) op" where
  "setMemoryProcs dir pid w = (if cg_isV2 w then attachPidV2 dir pid w
     else append_pid (v1Path dir ''memory/tasks'') ''memory'' pid w)"

definition setMemoryLimitInBytes :: "string \<Rightarrow> int \<Rightarrow> (cgw, unit) op" where
  "setMemoryLimitInBytes dir bytes w =
     (case writeControlFile (if cg_isV2 w then v2Path dir ''memory.max'' else v1Path dir ''memory/memory.limit_in_bytes'') (itos bytes) w of
        (w, None) \<Rightarrow> (w, Inr ()) | (w, Some e) \<Rightarrow> (w, Inl (StdExn ''Unable to set the cgroup memory limit'')))"

definition removeCgroup :: "string \<Rightarrow> cgw \<Rightarrow> cgw" where
  "removeCgroup dir w = (if cg_isV2 w then fst (cg_rmdir dir w)
     else fold (\<lambda>c w. if cg_isdir w (dir @ c) then fst (cg_rmdir (dir @ c) w) else w)
       [''cpu,cpuacct'', ''memory'', ''net_cls,net_prio'', ''pids''] w)"

section \<open>Readings\<close>

text \<open>\<open>iss >> word\<close> and \<open>iss >> number\<close>: a number is a sign and digits, within the type.\<close>

definition scan_word :: "string \<Rightarrow> (string \<times> string) option" where
  "scan_word s0 = (let s = dropWhile is_c_space s0; w = takeWhile (\<lambda>c. \<not> is_c_space c) s in
     if w = [] then None else Some (w, drop (length w) s))"

definition scan_number :: "string \<Rightarrow> (int \<times> string) option" where
  "scan_number s0 = (let s = dropWhile is_c_space s0;
       neg = (s \<noteq> [] \<and> hd s = CHR ''-'');
       t = (if s \<noteq> [] \<and> (hd s = CHR ''-'' \<or> hd s = CHR ''+'') then tl s else s);
       ds = takeWhile is_digit t;
       v = (if neg then - int (digits_value ds) else int (digits_value ds)) in
     if ds = [] \<or> v < llong_min \<or> v > llong_max then None else Some (v, drop (length ds) t))"

fun key_values :: "nat \<Rightarrow> string \<Rightarrow> (string \<times> int) list" where
  "key_values 0 s = []"
| "key_values (Suc n) s = (case scan_word s of None \<Rightarrow> [] | Some (k, s) \<Rightarrow>
     (case scan_number s of None \<Rightarrow> [] | Some (v, s) \<Rightarrow> (k, v) # key_values n s))"

text \<open>Every pair takes a byte at least, so the length of the text is fuel enough.\<close>

definition stat_pairs :: "string \<Rightarrow> (string \<times> int) list" where
  "stat_pairs s = key_values (length s) s"

definition parseCpuStatValue :: "string \<Rightarrow> string \<Rightarrow> int" where
  "parseCpuStatValue stat key = (case map_of (stat_pairs stat) key of Some v \<Rightarrow> v | None \<Rightarrow> 0)"

text \<open>\<open>"(^|\n)key ([0-9]+)(\n|$)"\<close>: the second group of the match.\<close>

definition reg_key :: "string \<Rightarrow> vplregex" where
  "reg_key k = vplregex_extended (seqs [Grp 1 (Alt Bol (Chr lf)), Lit k, Chr blank, Grp 2 Digits, Grp 3 (Alt (Chr lf) Eol)])"

definition regFound :: "vplregex \<Rightarrow> string \<Rightarrow> string" where
  "regFound reg input = (case vplregex_search reg input 4 of None \<Rightarrow> [] | Some found \<Rightarrow> found ! 2)"

definition cap_int :: "int \<Rightarrow> int" where
  "cap_int v = (if v > int_max then int_max else to_int32 v)"

definition getCPUAcctStat :: "string \<Rightarrow> (cgw, (string \<times> int) list) op" where
  "getCPUAcctStat dir w =
     (if cg_isV2 w then op_bind (cg_readFile (v2Path dir ''cpu.stat'')) (\<lambda>cpu w.
        let hz = (if cg_hz w \<le> 0 then 100 else cg_hz w);
            ticks = (\<lambda>k. cap_int (let v = to_int64 (parseCpuStatValue cpu k * hz) in if v < 0 then - ((- v) div 1000000) else v div 1000000)) in
        (w, Inr [(''system'', ticks ''system_usec''), (''user'', ticks ''user_usec'')])) w
      else op_bind (cg_readFile (v1Path dir ''cpu,cpuacct/cpuacct.stat'')) (\<lambda>stat. op_return
        [(''system'', atoi (regFound (reg_key ''system'') stat)), (''user'', atoi (regFound (reg_key ''user'') stat))]) w)"

definition getCPUUsage :: "string \<Rightarrow> (cgw, int) op" where
  "getCPUUsage dir w =
     (if cg_isV2 w then op_bind (cg_readFile (v2Path dir ''cpu.stat'')) (\<lambda>cpu.
        op_return (to_int64 (parseCpuStatValue cpu ''usage_usec'' * 1000))) w
      else op_bind (cg_readFile (v1Path dir ''cpu,cpuacct/cpuacct.usage'')) (\<lambda>s. op_return (strtoll s)) w)"

text \<open>The process numbers of a file: one for every line that ends.\<close>

function pid_lines :: "string \<Rightarrow> nat \<Rightarrow> int list" where
  "pid_lines procs ini = (case find_char lf procs ini of
      None \<Rightarrow> []
    | Some pos \<Rightarrow> atoi (substr procs ini (pos - ini)) # pid_lines procs (pos + 1))"
  by pat_completeness auto
termination
  by (relation "measure (\<lambda>(procs, ini). length procs - ini)") (auto dest: find_char_less)

declare pid_lines.simps [simp del]

definition read_pids :: "string \<Rightarrow> (cgw, int list) op" where
  "read_pids p = op_bind (cg_readFile p) (\<lambda>s. op_return (pid_lines s 0))"

definition getCPUProcs :: "string \<Rightarrow> (cgw, int list) op" where
  "getCPUProcs dir w = read_pids (if cg_isV2 w then v2Path dir ''cgroup.procs'' else v1Path dir ''cpu,cpuacct/tasks'') w"

definition getPIDs :: "string \<Rightarrow> (cgw, int list) op" where
  "getPIDs dir w = read_pids (if cg_isV2 w then v2Path dir ''cgroup.procs'' else v1Path dir ''pids/cgroup.procs'') w"

definition getNetProcs :: "string \<Rightarrow> (cgw, int list) op" where
  "getNetProcs dir w = (if cg_isV2 w then getCPUProcs dir w else read_pids (v1Path dir ''net_cls,net_prio/tasks'') w)"

definition getMemoryProcs :: "string \<Rightarrow> (cgw, int list) op" where
  "getMemoryProcs dir w = read_pids (if cg_isV2 w then v2Path dir ''cgroup.procs'' else v1Path dir ''memory/tasks'') w"

definition getCPUStat :: "string \<Rightarrow> (cgw, (string \<times> int) list) op" where
  "getCPUStat dir w =
     op_bind (cg_readFile (if cg_isV2 w then v2Path dir ''cpu.stat'' else v1Path dir ''cpu,cpuacct/cpu.stat'')) (\<lambda>stat w.
       (w, Inr (if cg_isV2 w then
          [(''nr_periods'', to_int32 (parseCpuStatValue stat ''nr_periods'')),
           (''nr_throttled'', to_int32 (parseCpuStatValue stat ''nr_throttled'')),
           (''throttled_time'', cap_int (to_int64 (parseCpuStatValue stat ''throttled_usec'' * 1000)))]
        else [(''nr_periods'', atoi (regFound (reg_key ''nr_periods'') stat)),
           (''nr_throttled'', atoi (regFound (reg_key ''nr_throttled'') stat)),
           (''throttled_time'', atoi (regFound (reg_key ''throttled_time'') stat))]))) w"

text \<open>\<open>"([ \n\t]*)([^ \n\t]+)([ \n\t]*)"\<close>\<close>

definition is_trim :: "char \<Rightarrow> bool" where
  "is_trim c \<longleftrightarrow> c = blank \<or> c = lf \<or> c = tab"

definition regTrim :: vplregex where
  "regTrim = vplregex_extended (seqs [Grp 1 (Star (Cls is_trim)), Grp 2 (Plus (NotCls is_trim)), Grp 3 (Star (Cls is_trim))])"

definition getMemoryLimitInBytes :: "string \<Rightarrow> (cgw, int) op" where
  "getMemoryLimitInBytes dir w =
     (if cg_isV2 w then op_bind (cg_readFile (v2Path dir ''memory.max'')) (\<lambda>raw.
        let raw = regFound regTrim raw in op_return (if raw = ''max'' then llong_max else strtoll raw)) w
      else op_bind (cg_readFile (v1Path dir ''memory/memory.limit_in_bytes'')) (\<lambda>s. op_return (strtoll s)) w)"

text \<open>The last of several values of a key counts.\<close>

definition last_value :: "(string \<times> int) list \<Rightarrow> string \<Rightarrow> int" where
  "last_value ps k = (case map_of (rev ps) k of Some v \<Rightarrow> v | None \<Rightarrow> 0)"

definition getMemoryStat :: "string \<Rightarrow> (cgw, (string \<times> int) list) op" where
  "getMemoryStat dir w =
     (if cg_isV2 w then op_bind (cg_readFile (v2Path dir ''memory.stat'')) (\<lambda>stat.
        op_bind (getMemoryLimitInBytes dir) (\<lambda>limit. let v = last_value (stat_pairs stat) in op_return
          [(''cache'', v ''file''), (''hierarchical_memory_limit'', limit), (''mapped_file'', v ''mapped_file''),
           (''pgfault'', v ''pgfault''), (''shmem'', v ''shmem'')])) w
      else op_bind (cg_readFile (v1Path dir ''memory/memory.stat'')) (\<lambda>stat. let v = (\<lambda>k. strtoll (regFound (reg_key k) stat)) in
        op_return [(''cache'', v ''cache''), (''hierarchical_memory_limit'', v ''hierarchical_memory_limit''),
          (''mapped_file'', v ''mapped_file''), (''pgfault'', v ''pgfault''), (''shmem'', v ''shmem'')]) w)"

definition getMemoryUsageInBytes :: "string \<Rightarrow> (cgw, int) op" where
  "getMemoryUsageInBytes dir w =
     op_bind (cg_readFile (if cg_isV2 w then v2Path dir ''memory.current'' else v1Path dir ''memory/memory.usage_in_bytes''))
       (\<lambda>s. op_return (strtoll s)) w"

definition getMemoryOOMControl :: "string \<Rightarrow> (cgw, (string \<times> int) list) op" where
  "getMemoryOOMControl dir w =
     (if cg_isV2 w then op_catch (op_bind (cg_readFile (v2Path dir ''memory.events'')) (\<lambda>events. op_return
          [(''oom_kill'', to_int32 (last_value (stat_pairs events) ''oom_kill'')), (''oom_kill_disable'', 0), (''under_oom'', 0)]))
        (\<lambda>e. op_return [(''oom_kill'', 0), (''oom_kill_disable'', 0), (''under_oom'', 0)]) w
      else op_bind (cg_readFile (v1Path dir ''memory/memory.oom_control'')) (\<lambda>stat. op_return
        [(''oom_kill'', atoi (regFound (reg_key ''oom_kill'') stat)),
         (''oom_kill_disable'', atoi (regFound (reg_key ''oom_kill_disable'') stat)),
         (''under_oom'', atoi (regFound (reg_key ''under_oom'') stat))]) w)"

section \<open>What is written is read\<close>

lemma regTrim_search:
  assumes "s \<noteq> []" "\<forall>c \<in> set s. \<not> is_trim c" "nul \<notin> set s"
  shows "vplregex_search regTrim s 4 = Some [s, [], s, []]"
proof -
  let ?x = regTrim
  note X = regTrim_def
  have cls: "\<not> in_class ?x is_trim c" if "c \<in> set s" for c
    using assms(2) that by (simp add: X in_class_extended)
  have 1: "rx_hd ?x s (Grp 1 (Star (Cls is_trim))) 0 e 0 (e(1 \<mapsto> (0, 0)))" for e
    by (rule rx_hd_Grp, rule rx_hd_star_Cls [of s "[]" "[]" s]) (use assms(1) cls in simp_all)
  have 2: "rx_hd ?x s (Grp 2 (Plus (NotCls is_trim))) 0 e (length s) (e(2 \<mapsto> (0, length s)))" for e
    unfolding X by (rule rx_hd_word [of _ "[]" s "[]"]) (use assms in simp_all)
  have 3: "rx_hd ?x s (Grp 3 (Star (Cls is_trim))) (length s) e (length s) (e(3 \<mapsto> (length s, length s)))" for e
    by (rule rx_hd_Grp, rule rx_hd_star_Cls [of s s "[]" "[]"]) simp_all
  have "rx_hd ?x s (rx_pattern ?x) 0 Map.empty (length s) [1 \<mapsto> (0, 0), 2 \<mapsto> (0, length s), 3 \<mapsto> (length s, length s)]"
    using rx_hd_Seq [OF 1 rx_hd_Seq [OF 2 3]] by (simp only: X extended_simps seqs.simps)
  from search_hd [OF this assms(3)] show ?thesis
    by (auto simp: upt_groups group_text_def max_match_def substr_def)
qed

lemma regFound_trim_itos: "regFound regTrim (itos n) = itos n"
proof -
  have "c \<in> set (itos n) \<Longrightarrow> c = CHR ''-'' \<or> is_digit c" for c
    using nat_digits_all_digits by (auto simp: itos_def split: if_splits)
  then have "\<forall>c \<in> set (itos n). \<not> is_trim c" "nul \<notin> set (itos n)"
    by (fastforce simp: is_trim_def is_digit_def char_names)+
  moreover have "itos n \<noteq> []" by (simp add: itos_def)
  ultimately show ?thesis by (simp add: regFound_def regTrim_search)
qed

lemma itos_not_max: "itos n \<noteq> ''max''"
proof
  assume "itos n = ''max''"
  then have "CHR ''m'' \<in> set (itos n)" by simp
  moreover have "c \<in> set (itos n) \<Longrightarrow> c = CHR ''-'' \<or> is_digit c" for c
    using nat_digits_all_digits by (auto simp: itos_def split: if_splits)
  ultimately show False by (fastforce simp: is_digit_def)
qed

lemma written_is_read:
  "writeControlFile p v w = (w', None) \<Longrightarrow> cg_readFile p w' = (w', Inr v) \<and> cg_isV2 w' = cg_isV2 w"
  by (auto simp: writeControlFile_def cg_readFile_def update_conv' split: if_splits option.splits)

lemma limit_read:
  assumes "writeControlFile (if cg_isV2 w then v2Path dir ''memory.max'' else v1Path dir ''memory/memory.limit_in_bytes'') (itos n) w = (w', None)"
    "llong_min \<le> n" "n \<le> llong_max"
  shows "getMemoryLimitInBytes dir w' = (w', Inr n)"
  using written_is_read [OF assms(1)] assms(2,3)
  by (auto simp: getMemoryLimitInBytes_def op_bind_run op_return_run regFound_trim_itos itos_not_max strtoll_itos Let_def)

section \<open>Probing leaves nothing behind\<close>

lemma probe_dir_clean:
  assumes "\<forall>f \<in> fst ` set (cg_kernel w p). below_dir p f" "\<forall>f \<in> fst ` set (cg_files w). \<not> below_dir p f"
    "\<not> cg_rmdir_fails w p"
  shows "fst (probe_dir p names w) = w"
proof (cases "cg_isdir w p \<or> cg_mkdir_fails w p")
  case True
  then show ?thesis by (auto simp: probe_dir_def cg_mkdir_def)
next
  case False
  have "filter (\<lambda>(f, d). \<not> below_dir p f) (cg_kernel w p) = []"
    using assms(1) by (auto simp: filter_empty_conv)
  moreover have "filter (\<lambda>(f, d). \<not> below_dir p f) (cg_files w) = cg_files w"
    using assms(2) by (auto simp: filter_id_conv)
  moreover have "p \<notin> set (cg_dirs w)" using False by (simp add: cg_isdir_def)
  ultimately show ?thesis
    using False assms(3) by (simp add: probe_dir_def cg_mkdir_def cg_rmdir_def cg_isdir_def Let_def)
qed

end
