(* ===== verification/Jail_Exec.thy ===== *)
theory Jail_Exec
  imports Process_Monitor Cgroup "HOL-Library.Multiset"
begin

text \<open>
  From the fork of \<open>Jail::run\<close> to \<open>execve\<close>: control group, namespaces, terminal, new root, credentials,
  limits, and the program with its environment. The process is a state of its own: its credentials, its root and
  mounts, its limits and what it has executed. Which system calls fail is a parameter, and so is what the kernel
  shows of the mounts. Proved: whichever calls fail, a program is executed only as the prisoner, only below
  the root of the jail, only in the namespaces and in the group with the memory limit that the configuration asks for, and, when the
  root has been pivoted, with no mount of the old root left.
\<close>

section \<open>Mount points\<close>

definition isOctalDigit :: "char \<Rightarrow> bool" where
  "isOctalDigit c \<longleftrightarrow> 48 \<le> byte_val c \<and> byte_val c \<le> 55"

fun unescapeMountInfoPath :: "string \<Rightarrow> string" where
  "unescapeMountInfoPath (b # x # y # z # rest) =
     (if b = backslash \<and> isOctalDigit x \<and> isOctalDigit y \<and> isOctalDigit z then
        char_of (((byte_val x - 48) * 64 + (byte_val y - 48) * 8 + (byte_val z - 48)) mod 256) # unescapeMountInfoPath rest
      else b # unescapeMountInfoPath (x # y # z # rest))"
| "unescapeMountInfoPath s = s"

text \<open>Lines with five fields or more, of which the fifth is the mount point.\<close>

definition listMountPoints :: "string \<Rightarrow> string list" where
  "listMountPoints mountinfo = map (\<lambda>line. unescapeMountInfoPath (words_from [] line ! 4))
     (filter (\<lambda>line. length (words_from [] line) \<ge> 5) (getlines lf mountinfo))"

definition isPathUnderPrefix :: "string \<Rightarrow> string \<Rightarrow> bool" where
  "isPathUnderPrefix path pre \<longleftrightarrow> path = pre \<or> (length path > length pre \<and> is_prefix pre path \<and> path ! length pre = CHR ''/'')"

section \<open>The process\<close>

datatype rlimit = RlimitCore | RlimitCpu | RlimitFsize | RlimitNproc

datatype sysc =
    SysUnshare | SysPrivate string | SysFork | SysLoginTty | SysBind string string | SysMkdir string | SysChdir string
  | SysChroot string | SysPivot string string | SysUmount string | SysMount string | SysChmod string | SysChown string
  | SysSetresgid int | SysSetresuid int | SysNoNewPrivs | SysDumpable | SysPtracer | SysSetrlimit rlimit
  | SysSetpgid | SysTcsetpgrp | SysExec string

text \<open>
  Mounts are named from the root of the mount namespace, \<open>jx_root\<close> is empty until it is changed. The last fields
  are what the process finds: the calls that fail and what \<open>strerror\<close> says of them, \<open>/proc/self/mountinfo\<close>, the files
  and modes below its root, whether its input is a terminal, and the state of the task it reads there.
\<close>

record jproc =
  jx_task :: task
  jx_cg :: cgw
  jx_uids :: "int \<times> int \<times> int"
  jx_gids :: "int \<times> int \<times> int"
  jx_groups :: "int list"
  jx_nnp :: bool
  jx_dumpable :: bool
  jx_namespaces :: bool
  jx_private :: bool
  jx_root :: string
  jx_pivoted :: bool
  jx_cwd :: string
  jx_mounts :: "string list"
  jx_bound :: "string list"
  jx_binds :: "(string \<times> string \<times> int option \<times> bool) list"
  jx_tty :: bool
  jx_limits :: "rlimit \<Rightarrow> int option"
  jx_foreground :: bool
  jx_exec :: "(string \<times> string list) option"
  jx_output :: string
  jx_fails :: "sysc \<Rightarrow> bool"
  jx_mountinfo :: "string list \<Rightarrow> string"
  jx_present :: "string \<Rightarrow> bool"
  jx_stat :: "string \<Rightarrow> int option"
  jx_strerror :: "sysc \<Rightarrow> string"
  jx_isatty :: bool
  jx_seen :: "processState result"
  jx_inContainer :: bool
  jx_writable :: "string list"

definition sys :: "sysc \<Rightarrow> (jproc \<Rightarrow> jproc) \<Rightarrow> jproc \<Rightarrow> jproc \<times> bool" where
  "sys c f p = (if jx_fails p c then (p, False) else (f p, True))"

text \<open>A call whose failure is an exception, and one whose failure is ignored or logged.\<close>

definition sys_or :: "sysc \<Rightarrow> (jproc \<Rightarrow> jproc) \<Rightarrow> exn \<Rightarrow> (jproc, unit) op" where
  "sys_or c f e p = (if jx_fails p c then (p, Inl e) else (f p, Inr ()))"

definition sys_try :: "sysc \<Rightarrow> (jproc \<Rightarrow> jproc) \<Rightarrow> (jproc, unit) op" where
  "sys_try c f p = (fst (sys c f p), Inr ())"

definition sys_str :: "sysc \<Rightarrow> (jproc \<Rightarrow> jproc) \<Rightarrow> (string \<Rightarrow> string) \<Rightarrow> (jproc, unit) op" where
  "sys_str c f g p = (if jx_fails p c then (p, Inl (StringExn (g (jx_strerror p c)))) else (f p, Inr ()))"

definition conf_of :: "jproc \<Rightarrow> configuration" where
  "conf_of p = w_conf (jx_task p)"

definition internal :: "string \<Rightarrow> string \<Rightarrow> exn" where
  "internal m l = HttpExn InternalServerErrorCode m l"

section \<open>Control group\<close>

definition on_cg :: "(cgw, 'a) op \<Rightarrow> (jproc, 'a) op" where
  "on_cg m p = (case m (jx_cg p) of (w, r) \<Rightarrow> (p\<lparr>jx_cg := w\<rparr>, r))"

definition cgroup_available :: "(jproc, bool) op" where
  "cgroup_available = on_cg (\<lambda>w. case cg_isAvailable w of (w, ok) \<Rightarrow> (w, Inr ok))"

definition enter_cgroup :: "(jproc, unit) op" where
  "enter_cgroup p = (let name = getPrisonerName (jx_task p); limits = m_limits (jx_task p) in
     op_bind (on_cg (newCgroup name)) (\<lambda>dir.
     op_all [
       on_cg (\<lambda>w. (removeCgroup dir w, Inr ())),
       on_cg (createCgroup dir),
       on_cg (\<lambda>w. setMemoryProcs dir (cg_pid w) w),
       (if maxmemory limits > 0 then on_cg (setMemoryLimitInBytes dir (maxmemory limits)) else op_return ())]) p)"

definition setupCgroup :: "(jproc, unit) op" where
  "setupCgroup p = (if \<not> cf_useCgroup (conf_of p) then (p, Inr ())
     else op_bind cgroup_available (\<lambda>ok p.
       if jx_inContainer p \<and> \<not> ok then (p, Inr ())
       else if \<not> ok then (p, Inl (internal ''Cgroup hierarchy is unavailable'' []))
       else enter_cgroup p) p)"

section \<open>Namespaces and root\<close>

text \<open>The process that goes on after the fork: its parent only waits.\<close>

definition setupNamespaces :: "(jproc, unit) op" where
  "setupNamespaces p = (if \<not> cf_useNamespace (conf_of p) then (p, Inr ())
     else op_all [
       sys_or SysUnshare (\<lambda>p. p\<lparr>jx_namespaces := True\<rparr>) (internal ''I can't create namespaces'' []),
       sys_or (SysPrivate ''/'') (\<lambda>p. p\<lparr>jx_private := True\<rparr>) (internal ''I can't isolate mount namespace'' []),
       sys_or SysFork (\<lambda>p. p) (internal ''I can't fork after unshare'' [])] p)"

definition jail_chroot :: "string \<Rightarrow> (jproc, unit) op" where
  "jail_chroot jail = op_all [
     sys_or (SysChdir jail) (\<lambda>p. p\<lparr>jx_cwd := jail\<rparr>) (internal ''I can't chdir to jail'' jail),
     sys_or (SysChroot jail) (\<lambda>p. p\<lparr>jx_root := jail, jx_cwd := ''/''\<rparr>) (internal ''I can't chroot to jail'' jail)]"

text \<open>
  \<open>umount2\<close>: a path that is no mount is \<open>EINVAL\<close>, one with a mount below it is busy. The mounts are removed
  deepest first; \<open>std::sort\<close> leaves the order of paths of the same length open, which does not matter.
\<close>

definition umount_or_throw :: "string \<Rightarrow> (jproc, unit) op" where
  "umount_or_throw mp p =
     (if mp \<notin> set (jx_mounts p) then (p, Inr ())
      else if (\<exists>m \<in> set (jx_mounts p). m \<noteq> mp \<and> isPathUnderPrefix m mp) \<or> jx_fails p (SysUmount mp) then
        (p, Inl (internal ''Failed to unmount old root mounts - security breach prevented'' []))
      else (p\<lparr>jx_mounts := remove1 mp (jx_mounts p)\<rparr>, Inr ()))"

definition unmountMountTreeOrThrow :: "string \<Rightarrow> (jproc, unit) op" where
  "unmountMountTreeOrThrow pre p =
     (let targets = filter (\<lambda>mp. isPathUnderPrefix mp pre) (listMountPoints (jx_mountinfo p (jx_mounts p))) in
      op_each umount_or_throw (sort_key (\<lambda>mp. - int (length mp)) targets) p)"

text \<open>
  The recursive bind mount of the jail on itself copies the mounts below it. After \<open>pivot_root\<close> these are seen from
  the new root, and those of the old tree below the directory it was put on.
\<close>

definition bind_tree :: "string \<Rightarrow> jproc \<Rightarrow> jproc" where
  "bind_tree jail p = p\<lparr>jx_bound := jail # filter (\<lambda>m. m \<noteq> jail \<and> isPathUnderPrefix m jail) (jx_mounts p)\<rparr>"

definition pivot :: "string \<Rightarrow> string \<Rightarrow> jproc \<Rightarrow> jproc" where
  "pivot jail old p = p\<lparr>jx_root := jail, jx_cwd := ''/'', jx_pivoted := True, jx_bound := [],
     jx_mounts := map (\<lambda>m. if m = jail then ''/'' else drop (length jail) m) (jx_bound p) @
       map (\<lambda>m. if m = ''/'' then old else old @ m) (jx_mounts p)\<rparr>"

text \<open>A path of the process, from the root of the mount namespace.\<close>

definition in_root :: "jproc \<Rightarrow> string \<Rightarrow> string" where
  "in_root p path = (if jx_pivoted p then path else jx_root p @ path)"

definition try_sys :: "sysc \<Rightarrow> (jproc \<Rightarrow> jproc) \<Rightarrow> (jproc, bool) op" where
  "try_sys c f p = (case sys c f p of (p, ok) \<Rightarrow> (p, Inr ok))"

definition leave_old_root :: "string \<Rightarrow> (jproc, unit) op" where
  "leave_old_root oldroot = op_all [
     sys_or (SysChdir ''/'') (\<lambda>p. p\<lparr>jx_cwd := ''/''\<rparr>) (internal ''I can't chdir to new root'' []),
     unmountMountTreeOrThrow oldroot]"

definition pivot_into :: "string \<Rightarrow> string \<Rightarrow> (jproc, unit) op" where
  "pivot_into jail oldrootRelative = op_bind (try_sys (SysPivot jail oldrootRelative) (pivot jail (CHR ''/'' # oldrootRelative))) (\<lambda>pivoted.
     if pivoted then leave_old_root (CHR ''/'' # oldrootRelative)
     else sys_or (SysChroot jail) (\<lambda>p. p\<lparr>jx_root := jail, jx_cwd := ''/''\<rparr>) (internal ''I can't chroot to jail'' jail))"

definition prepare_pivot :: "string \<Rightarrow> string \<Rightarrow> (jproc, unit) op" where
  "prepare_pivot jail oldrootRelative = op_all [
     sys_try (SysPrivate jail) (\<lambda>p. p),
     sys_try (SysMkdir (jail @ CHR ''/'' # oldrootRelative)) (\<lambda>p. p),
     sys_or (SysChdir jail) (\<lambda>p. p\<lparr>jx_cwd := jail\<rparr>) (internal ''I can't chdir to jail'' jail)]"

definition pivotRoot :: "string \<Rightarrow> int \<Rightarrow> (jproc, unit) op" where
  "pivotRoot jail prisonerID =
     (if jail = [] then op_return ()
      else let oldrootRelative = ''.oldroot_p'' @ itos prisonerID in
        op_then (sys_try (SysPrivate ''/'') (\<lambda>p. p\<lparr>jx_private := True\<rparr>))
        (op_bind (try_sys (SysBind jail jail) (bind_tree jail)) (\<lambda>bound.
         if bound then op_then (prepare_pivot jail oldrootRelative) (pivot_into jail oldrootRelative)
         else jail_chroot jail)))"

text \<open>What is mounted there, with what is below it, is detached, and a new file system mounted.\<close>

definition remount :: "string \<Rightarrow> jproc \<Rightarrow> jproc" where
  "remount path p = (let at = in_root p path; outside = filter (\<lambda>m. \<not> isPathUnderPrefix m at);
     p = p\<lparr>jx_mounts := outside (jx_mounts p), jx_bound := outside (jx_bound p)\<rparr> in
     if jx_fails p (SysMount path) then p else p\<lparr>jx_mounts := jx_mounts p @ [at]\<rparr>)"

definition remountProc :: "(jproc, unit) op" where
  "remountProc p = (let q = remount ''/proc'' p in
     if jx_fails p (SysMount ''/proc'') then (q, Inr ())
     else if jx_present p ''/sys'' then (remount ''/sys'' q, Inr ()) else (q, Inr ()))"

definition private_source :: "task \<Rightarrow> string \<Rightarrow> string" where
  "private_source t dir = getRelativeHomePath t @ CHR ''/'' # map (\<lambda>c. if c = CHR ''/'' then CHR ''.'' else c) dir"

text \<open>
  An existing directory is as good as a new one: a \<open>mkdir\<close> that fails here fails for another reason. What is
  bound where, with the mode and the owner that the source was given, when it was.
\<close>

definition private_dir :: "string \<Rightarrow> (jproc, unit) op" where
  "private_dir dir p = (let source = private_source (jx_task p) dir;
      origMode = (case jx_stat p dir of Some m \<Rightarrow> m mod 4096 | None \<Rightarrow> 493);
      mode = (if jx_fails p (SysChmod source) then None else Some origMode);
      owned = (\<not> jx_fails p (SysChown source)) in
     if jx_fails p (SysMkdir source) \<or> jx_fails p (SysMkdir dir) \<or> jx_fails p (SysBind source dir) then (p, Inr ())
     else (p\<lparr>jx_mounts := jx_mounts p @ [in_root p dir], jx_binds := jx_binds p @ [(source, dir, mode, owned)]\<rparr>, Inr ()))"

definition setupPrivateWritableDirs :: "(jproc, unit) op" where
  "setupPrivateWritableDirs p = (if \<not> cf_useNamespace (conf_of p) then (p, Inr ())
     else op_each private_dir (jx_writable p) p)"

definition setupFilesystemIsolation :: "(jproc, unit) op" where
  "setupFilesystemIsolation p = (let jail = cf_jailPath (conf_of p) in
     if jail = [] then (p, Inr ())
     else if \<not> cf_useNamespace (conf_of p) then jail_chroot jail p
     else op_all [pivotRoot jail (m_prisoner (jx_task p)), remountProc, setupPrivateWritableDirs] p)"

section \<open>Credentials, limits and execution\<close>

definition becomePrisoner :: "int \<Rightarrow> (jproc, unit) op" where
  "becomePrisoner prisoner = op_all [
     sys_or (SysSetresgid prisoner) (\<lambda>p. p\<lparr>jx_gids := (prisoner, prisoner, prisoner)\<rparr>)
       (internal ''I can't change to prisoner group'' (itos prisoner)),
     sys_or (SysSetresuid prisoner) (\<lambda>p. p\<lparr>jx_uids := (prisoner, prisoner, prisoner)\<rparr>)
       (internal ''I can't change to prisoner user'' (itos prisoner)),
     (\<lambda>p. case jx_uids p of (r, e, s) \<Rightarrow>
        if r = 0 \<or> e = 0 then (p, Inl (internal ''I can't change to prisoner user 2'' (itos prisoner))) else (p, Inr ())),
     sys_try SysNoNewPrivs (\<lambda>p. p\<lparr>jx_nnp := True\<rparr>),
     sys_try SysDumpable (\<lambda>p. p\<lparr>jx_dumpable := False\<rparr>),
     sys_try SysPtracer (\<lambda>p. p)]"

text \<open>The result of \<open>setrlimit\<close> is not looked at. The values are converted to the unsigned \<open>rlim_t\<close>.\<close>

definition to_rlim :: "int \<Rightarrow> int" where
  "to_rlim v = v mod 18446744073709551616"

definition set_rlimit :: "rlimit \<Rightarrow> int \<Rightarrow> (jproc, unit) op" where
  "set_rlimit r v = sys_try (SysSetrlimit r) (\<lambda>p. p\<lparr>jx_limits := (jx_limits p)(r \<mapsto> to_rlim v)\<rparr>)"

definition setLimits :: "(jproc, unit) op" where
  "setLimits p = (let l = m_limits (jx_task p) in op_all [
     set_rlimit RlimitCore 0,
     set_rlimit RlimitCpu (to_int32 (maxtime l + jail_vpl_extra_time)),
     (if maxfilesize l > 0 then set_rlimit RlimitFsize (maxfilesize l) else op_return ()),
     (if maxprocesses l > 0 then set_rlimit RlimitNproc (maxprocesses l) else op_return ())] p)"

definition exec_environment :: "task \<Rightarrow> string list" where
  "exec_environment t = (let uid = itos (m_prisoner t) in
     [''HOME=/home/p'' @ uid, ''TMPDIR=/tmp'', ''PATH='' @ cf_cleanPATH (w_conf t), ''TERM=dumb'', ''UID='' @ uid,
      ''USER=p'' @ uid, ''USERNAME=Prisoner '' @ uid, ''VPL_LANG='' @ m_lang t] @
     (if m_interactive t then [''VPL_VNCPASSWD='' @ getVNCPassword t] else []))"

definition transferExecution :: "string \<Rightarrow> (jproc, unit) op" where
  "transferExecution fileName p = (let t = jx_task p; dir = getRelativeHomePath t; fullname = dir @ CHR ''/'' # fileName in
     op_then (sys_or (SysChdir dir) (\<lambda>p. p\<lparr>jx_cwd := dir\<rparr>) (StringExn (''I can't chdir to exec dir :'' @ dir)))
     (\<lambda>p. if \<not> jx_present p fullname then (p, Inl (StringExn (''transferExecution: execution file not found: '' @ fullname)))
       else op_bind (\<lambda>p. if m_interactive t then (p, bind_result (jx_seen p) (\<lambda>s. Inr (s = running))) else (p, Inr False))
         (\<lambda>wantJobControl. op_all [
            sys_try SysSetpgid (\<lambda>p. p),
            op_when (\<lambda>p. wantJobControl \<and> jx_isatty p) (sys_try SysTcsetpgrp (\<lambda>p. p\<lparr>jx_foreground := True\<rparr>)),
            sys_str (SysExec fullname) (\<lambda>p. p\<lparr>jx_exec := Some (fullname, exec_environment t)\<rparr>)
              (\<lambda>err. ''I can't execve: '' @ fullname @ '' ('' @ err @ '')'')]) p) p)"

definition jail_error :: "exn \<Rightarrow> string" where
  "jail_error e = (case e of
      HttpExn c m l \<Rightarrow> [lf] @ ''Jail error: '' @ m @ [lf]
    | StdExn s \<Rightarrow> [lf] @ ''Jail error: '' @ s @ [lf]
    | StringExn s \<Rightarrow> [lf] @ ''Jail error: '' @ s @ [lf]
    | TaskCleaning \<Rightarrow> [lf] @ ''Jail error: '' @ exn_message TaskCleaning @ [lf]
    | _ \<Rightarrow> [lf] @ ''Jail error: at execution stage'' @ [lf])"

text \<open>The steps, and \<open>executeInJail\<close>: what they throw is printed, and the process ends unless it has executed.\<close>

definition jail_steps :: "string \<Rightarrow> (jproc, unit) op" where
  "jail_steps name = op_all [
     setupCgroup,
     setupNamespaces,
     sys_str SysLoginTty (\<lambda>p. p\<lparr>jx_tty := True\<rparr>) (\<lambda>err. ''Cannot establish controlling terminal: '' @ err),
     setupFilesystemIsolation,
     (\<lambda>p. becomePrisoner (m_prisoner (jx_task p)) p),
     setLimits,
     transferExecution name]"

text \<open>
  What is printed reaches the client only once the pseudo terminal is the standard output; before \<open>login_tty\<close> it is
  left in a buffer that \<open>_exit\<close> does not flush.
\<close>

definition executeInJail :: "string \<Rightarrow> jproc \<Rightarrow> jproc" where
  "executeInJail name p = (case jail_steps name p of
     (p, Inr u) \<Rightarrow> p | (p, Inl e) \<Rightarrow> (if jx_tty p then p\<lparr>jx_output := jx_output p @ jail_error e\<rparr> else p))"

section \<open>No mount of the old root is left\<close>

lemma is_prefix_trans: "is_prefix a b \<Longrightarrow> is_prefix b c \<Longrightarrow> is_prefix a c"
  by (auto simp: is_prefix_append)

lemma under_trans: "isPathUnderPrefix m mp \<Longrightarrow> isPathUnderPrefix mp pre \<Longrightarrow> isPathUnderPrefix m pre"
  by (auto simp: isPathUnderPrefix_def is_prefix_append nth_append split: if_splits)

lemma under_longer: "isPathUnderPrefix m mp \<Longrightarrow> m \<noteq> mp \<Longrightarrow> length mp < length m"
  by (auto simp: isPathUnderPrefix_def)

lemma umount_or_throw_Inr:
  "umount_or_throw mp p = (p', Inr ()) \<Longrightarrow> p' = p\<lparr>jx_mounts := remove1 mp (jx_mounts p)\<rparr>"
  by (auto simp: umount_or_throw_def remove1_idem split: if_splits)

lemma umounts_Inr:
  "op_each umount_or_throw ts p = (p', Inr ()) \<Longrightarrow> p' = p\<lparr>jx_mounts := fold remove1 ts (jx_mounts p)\<rparr>"
proof (induction ts arbitrary: p)
  case Nil
  then show ?case by (simp add: op_each_def op_return_run)
next
  case (Cons mp ts)
  then obtain q where q: "umount_or_throw mp p = (q, Inr ())" "op_each umount_or_throw ts q = (p', Inr ())"
    by (auto simp: op_each_def dest!: op_then_InrD)
  from Cons.IH [OF q(2)] umount_or_throw_Inr [OF q(1)] show ?case by simp
qed

lemma mset_fold_remove1: "mset (fold remove1 ts ms) = mset ms - mset ts"
  by (induction ts arbitrary: ms) simp_all

text \<open>The kernel shows the mounts there are.\<close>

definition shows_mounts :: "jproc \<Rightarrow> bool" where
  "shows_mounts p \<longleftrightarrow> listMountPoints (jx_mountinfo p (jx_mounts p)) = jx_mounts p"

lemma unmounted_none_left:
  assumes r: "unmountMountTreeOrThrow pre p = (p', Inr ())" and k: "shows_mounts p"
  shows "\<forall>m \<in> set (jx_mounts p'). \<not> isPathUnderPrefix m pre"
proof -
  let ?ts = "filter (\<lambda>mp. isPathUnderPrefix mp pre) (jx_mounts p)"
  let ?sorted = "sort_key (\<lambda>mp. - int (length mp)) ?ts"
  have "op_each umount_or_throw ?sorted p = (p', Inr ())"
    using r k by (simp add: unmountMountTreeOrThrow_def shows_mounts_def)
  then have "jx_mounts p' = fold remove1 ?sorted (jx_mounts p)" using umounts_Inr by fastforce
  then have "mset (jx_mounts p') = mset (jx_mounts p) - mset ?ts" by (simp add: mset_fold_remove1)
  also have "\<dots> = filter_mset (\<lambda>m. \<not> isPathUnderPrefix m pre) (mset (jx_mounts p))"
    by (simp add: multiset_eq_iff)
  finally have "set (jx_mounts p') = set (filter (\<lambda>m. \<not> isPathUnderPrefix m pre) (jx_mounts p))"
    by (metis mset_eq_setD mset_filter)
  then show ?thesis by simp
qed

text \<open>Deepest first, none is busy: only the kernel can refuse.\<close>

lemma umounts_never_busy:
  assumes "\<forall>mp \<in> set ts. \<not> jx_fails p (SysUmount mp)" "sorted_wrt (\<lambda>a b. length b \<le> length a) ts"
    "mset ts = mset (filter (\<lambda>m. isPathUnderPrefix m pre) (jx_mounts p))"
  shows "\<exists>p'. op_each umount_or_throw ts p = (p', Inr ())"
  using assms
proof (induction ts arbitrary: p)
  case Nil
  then show ?case by (simp add: op_each_def op_return_run)
next
  case (Cons mp ts)
  let ?f = "filter (\<lambda>m. isPathUnderPrefix m pre)"
  have in_ts: "set (mp # ts) = set (?f (jx_mounts p))" using mset_eq_setD [OF Cons.prems(3)] .
  then have mp: "mp \<in> set (jx_mounts p)" "isPathUnderPrefix mp pre" by auto
  have "\<not> (\<exists>m \<in> set (jx_mounts p). m \<noteq> mp \<and> isPathUnderPrefix m mp)"
  proof
    assume "\<exists>m \<in> set (jx_mounts p). m \<noteq> mp \<and> isPathUnderPrefix m mp"
    then obtain m where m: "m \<in> set (jx_mounts p)" "m \<noteq> mp" "isPathUnderPrefix m mp" by blast
    then have "m \<in> set (mp # ts)" using under_trans [OF m(3) mp(2)] in_ts by auto
    then have "length m \<le> length mp" using Cons.prems(2) m(2) by auto
    with under_longer [OF m(3,2)] show False by simp
  qed
  then have u: "umount_or_throw mp p = (p\<lparr>jx_mounts := remove1 mp (jx_mounts p)\<rparr>, Inr ())"
    using mp(1) Cons.prems(1) by (simp add: umount_or_throw_def)
  let ?q = "p\<lparr>jx_mounts := remove1 mp (jx_mounts p)\<rparr>"
  have "mset ts = mset (?f (jx_mounts ?q))"
    using Cons.prems(3) mp by (simp add: filter_remove1) (metis add_mset_remove_trivial)
  then obtain p' where "op_each umount_or_throw ts ?q = (p', Inr ())"
    using Cons.IH [of ?q] Cons.prems by auto
  with u show ?case by (simp add: op_each_def op_then_run)
qed

section \<open>Nothing is executed when a step fails\<close>

definition no_exec :: "jproc \<Rightarrow> bool" where "no_exec p \<longleftrightarrow> jx_exec p = None"

lemma no_exec_updates [simp]:
  "no_exec (p\<lparr>jx_cg := w\<rparr>) = no_exec p" "no_exec (p\<lparr>jx_namespaces := b\<rparr>) = no_exec p" "no_exec (p\<lparr>jx_private := b\<rparr>) = no_exec p"
  "no_exec (p\<lparr>jx_tty := b\<rparr>) = no_exec p" "no_exec (p\<lparr>jx_cwd := c\<rparr>) = no_exec p" "no_exec (p\<lparr>jx_root := c\<rparr>) = no_exec p"
  "no_exec (p\<lparr>jx_mounts := ms\<rparr>) = no_exec p" "no_exec (p\<lparr>jx_binds := bs\<rparr>) = no_exec p"
  "no_exec (p\<lparr>jx_gids := i\<rparr>) = no_exec p" "no_exec (p\<lparr>jx_uids := i\<rparr>) = no_exec p" "no_exec (p\<lparr>jx_nnp := b\<rparr>) = no_exec p"
  "no_exec (p\<lparr>jx_dumpable := b\<rparr>) = no_exec p" "no_exec (p\<lparr>jx_limits := l\<rparr>) = no_exec p" "no_exec (p\<lparr>jx_foreground := b\<rparr>) = no_exec p"
  by (simp_all add: no_exec_def)

lemma no_exec_sys:
  "(\<And>p. no_exec (f p) = no_exec p) \<Longrightarrow> op_keeps no_exec (sys_or c f e)"
  "(\<And>p. no_exec (f p) = no_exec p) \<Longrightarrow> op_keeps no_exec (sys_try c f)"
  "(\<And>p. no_exec (f p) = no_exec p) \<Longrightarrow> op_keeps no_exec (sys_str c f g)"
  by (auto simp: op_keeps_def sys_or_def sys_try_def sys_str_def sys_def)

lemma no_exec_cg: "op_keeps no_exec (on_cg m)"
  by (simp add: op_keeps_def on_cg_def split: prod.splits)

lemma no_exec_list:
  "op_keeps no_exec (op_all [])" "op_keeps no_exec m \<Longrightarrow> op_keeps no_exec (op_all ms) \<Longrightarrow> op_keeps no_exec (op_all (m # ms))"
  by (simp_all add: op_keeps_basic op_keeps_then)

lemma no_exec_cond:
  "op_keeps no_exec m \<Longrightarrow> op_keeps no_exec n \<Longrightarrow> op_keeps no_exec (\<lambda>p. if c p then m p else n p)"
  "op_keeps no_exec (\<lambda>p. (p, r))"
  by (simp_all add: op_keeps_def)

lemma no_exec_if: "op_keeps no_exec m \<Longrightarrow> op_keeps no_exec n \<Longrightarrow> op_keeps no_exec (if c then m else n)"
  by simp

lemmas no_exec_rules = no_exec_list no_exec_if no_exec_sys no_exec_cg op_keeps_basic op_keeps_then op_keeps_bind

lemma no_exec_cgroup: "op_keeps no_exec setupCgroup"
proof -
  have "op_keeps no_exec (op_all [
       on_cg (\<lambda>w. (removeCgroup dir w, Inr ())), on_cg (createCgroup dir), on_cg (\<lambda>w. setMemoryProcs dir (cg_pid w) w),
       (if maxmemory l > 0 then on_cg (setMemoryLimitInBytes dir (maxmemory l)) else op_return ())])" for dir l
    by (intro no_exec_rules)
  then have "op_keeps no_exec (op_bind (on_cg (newCgroup name)) (\<lambda>dir. op_all [
       on_cg (\<lambda>w. (removeCgroup dir w, Inr ())), on_cg (createCgroup dir), on_cg (\<lambda>w. setMemoryProcs dir (cg_pid w) w),
       (if maxmemory l > 0 then on_cg (setMemoryLimitInBytes dir (maxmemory l)) else op_return ())]))" for name l
    by (intro op_keeps_bind no_exec_cg)
  then have "op_keeps no_exec enter_cgroup"
    unfolding op_keeps_def enter_cgroup_def Let_def by blast
  note enter = this
  show ?thesis
    unfolding setupCgroup_def [abs_def] cgroup_available_def
    by (intro no_exec_cond op_keeps_bind no_exec_cg enter)
qed

lemma no_exec_namespaces: "op_keeps no_exec setupNamespaces"
proof -
  show ?thesis
    unfolding setupNamespaces_def [abs_def] by (intro no_exec_cond no_exec_rules) simp_all
qed

text \<open>The steps that change the file system change nothing else of the process.\<close>

definition fs_view :: "jproc \<Rightarrow> jproc" where
  "fs_view p = p\<lparr>jx_cwd := [], jx_root := [], jx_pivoted := False, jx_private := False, jx_mounts := [], jx_bound := [], jx_binds := []\<rparr>"

definition fs_same :: "jproc \<Rightarrow> jproc \<Rightarrow> bool" where "fs_same q p \<longleftrightarrow> fs_view p = fs_view q"

lemma fs_same_refl: "fs_same p p"
  by (simp add: fs_same_def)

lemma fs_same_updates [simp]:
  "fs_same q (p\<lparr>jx_cwd := c\<rparr>) = fs_same q p" "fs_same q (p\<lparr>jx_root := c\<rparr>) = fs_same q p"
  "fs_same q (p\<lparr>jx_private := b\<rparr>) = fs_same q p" "fs_same q (p\<lparr>jx_mounts := ms\<rparr>) = fs_same q p"
  "fs_same q (p\<lparr>jx_binds := bs\<rparr>) = fs_same q p" "fs_same q (pivot jail old p) = fs_same q p"
  "fs_same q (bind_tree jail p) = fs_same q p" "fs_same q (p\<lparr>jx_bound := ms\<rparr>) = fs_same q p"
  by (simp_all add: fs_same_def fs_view_def pivot_def bind_tree_def)

lemma fs_same_fields:
  assumes "fs_same q p"
  shows "jx_task p = jx_task q" "jx_cg p = jx_cg q" "jx_uids p = jx_uids q" "jx_gids p = jx_gids q" "jx_groups p = jx_groups q"
    "jx_namespaces p = jx_namespaces q" "jx_exec p = jx_exec q" "jx_fails p = jx_fails q" "jx_inContainer p = jx_inContainer q"
    "jx_seen p = jx_seen q"
  using assms unfolding fs_same_def fs_view_def by (auto dest: arg_cong [where f = jx_task] arg_cong [where f = jx_cg]
    arg_cong [where f = jx_uids] arg_cong [where f = jx_gids] arg_cong [where f = jx_groups] arg_cong [where f = jx_namespaces]
    arg_cong [where f = jx_exec] arg_cong [where f = jx_fails] arg_cong [where f = jx_inContainer] arg_cong [where f = jx_seen])

lemma fs_same_sys:
  "(\<And>p. fs_same q p \<Longrightarrow> fs_same q (f p)) \<Longrightarrow> op_keeps (fs_same q) (sys_or c f e)"
  "(\<And>p. fs_same q p \<Longrightarrow> fs_same q (f p)) \<Longrightarrow> op_keeps (fs_same q) (sys_try c f)"
  "(\<And>p. fs_same q p \<Longrightarrow> fs_same q (f p)) \<Longrightarrow> op_keeps (fs_same q) (try_sys c f)"
  by (auto simp: op_keeps_def sys_or_def sys_try_def try_sys_def sys_def)

lemma fs_same_list:
  "op_keeps (fs_same q) (op_all [])"
  "op_keeps (fs_same q) m \<Longrightarrow> op_keeps (fs_same q) (op_all ms) \<Longrightarrow> op_keeps (fs_same q) (op_all (m # ms))"
  by (simp_all add: op_keeps_basic op_keeps_then)

lemma fs_same_if: "op_keeps (fs_same q) m \<Longrightarrow> op_keeps (fs_same q) n \<Longrightarrow> op_keeps (fs_same q) (if c then m else n)"
  by simp

lemmas fs_same_rules = fs_same_list fs_same_if fs_same_sys op_keeps_basic op_keeps_then op_keeps_bind

lemma fs_same_umounts: "op_keeps (fs_same q) (unmountMountTreeOrThrow pre)"
proof -
  have "op_keeps (fs_same q) (umount_or_throw mp)" for mp by (simp add: op_keeps_def umount_or_throw_def)
  then have "op_keeps (fs_same q) (op_each umount_or_throw ts)" for ts by (simp add: op_keeps_each)
  then show ?thesis unfolding op_keeps_def unmountMountTreeOrThrow_def Let_def by blast
qed

lemma fs_same_chroot: "op_keeps (fs_same q) (jail_chroot jail)"
  unfolding jail_chroot_def by (intro fs_same_rules) simp_all

lemma fs_same_pivotRoot: "op_keeps (fs_same q) (pivotRoot jail n)"
proof -
  have "op_keeps (fs_same q) (leave_old_root old)" for old
    unfolding leave_old_root_def by (intro fs_same_rules fs_same_umounts) simp_all
  then have "op_keeps (fs_same q) (pivot_into jail old)" for old
    unfolding pivot_into_def by (intro fs_same_rules) simp_all
  moreover have "op_keeps (fs_same q) (prepare_pivot jail old)" for old
    unfolding prepare_pivot_def by (intro fs_same_rules) simp_all
  ultimately show ?thesis
    unfolding pivotRoot_def Let_def by (intro fs_same_rules fs_same_chroot) simp_all
qed

lemma fs_same_proc: "op_keeps (fs_same q) remountProc"
  by (simp add: op_keeps_def remountProc_def remount_def Let_def)

lemma fs_same_dirs: "op_keeps (fs_same q) setupPrivateWritableDirs"
proof -
  have "op_keeps (fs_same q) (private_dir d)" for d by (simp add: op_keeps_def private_dir_def Let_def)
  then have "op_keeps (fs_same q) (op_each private_dir ds)" for ds by (simp add: op_keeps_each)
  then show ?thesis by (simp add: op_keeps_def setupPrivateWritableDirs_def)
qed

lemma filesystem_same: "setupFilesystemIsolation p = (p', r) \<Longrightarrow> fs_same p p'"
proof -
  assume r: "setupFilesystemIsolation p = (p', r)"
  let ?jail = "cf_jailPath (conf_of p)"
  have "op_keeps (fs_same p) (op_all [pivotRoot ?jail (m_prisoner (jx_task p)), remountProc, setupPrivateWritableDirs])"
    by (intro fs_same_rules fs_same_pivotRoot fs_same_proc fs_same_dirs)
  then have "fs_same p (fst (op_all [pivotRoot ?jail (m_prisoner (jx_task p)), remountProc, setupPrivateWritableDirs] p))"
    using fs_same_refl unfolding op_keeps_def by blast
  moreover have "fs_same p (fst (jail_chroot ?jail p))" using fs_same_chroot fs_same_refl unfolding op_keeps_def by blast
  ultimately have "fs_same p (fst (setupFilesystemIsolation p))"
    using fs_same_refl by (simp add: setupFilesystemIsolation_def Let_def del: op_all.simps)
  then show ?thesis using r by simp
qed

lemma no_exec_filesystem: "op_keeps no_exec setupFilesystemIsolation"
proof -
  have "no_exec (fst (setupFilesystemIsolation p)) = no_exec p" for p
    using filesystem_same [of p "fst (setupFilesystemIsolation p)" "snd (setupFilesystemIsolation p)"]
    by (simp add: fs_same_fields(7) no_exec_def)
  then show ?thesis by (simp add: op_keeps_def)
qed

lemma no_exec_becomePrisoner: "op_keeps no_exec (\<lambda>p. becomePrisoner (m_prisoner (jx_task p)) p)"
proof -
  have "op_keeps no_exec (\<lambda>p. case jx_uids p of (r, e, s) \<Rightarrow> if r = 0 \<or> e = 0 then (p, Inl x) else (p, Inr ()))" for x
    by (simp add: op_keeps_def split: prod.splits)
  then have "op_keeps no_exec (becomePrisoner n)" for n
    unfolding becomePrisoner_def by (intro no_exec_rules) simp_all
  then show ?thesis unfolding op_keeps_def by blast
qed

lemma no_exec_setLimits: "op_keeps no_exec setLimits"
proof -
  have "op_keeps no_exec (set_rlimit r v)" for r v unfolding set_rlimit_def by (intro no_exec_sys) simp
  then have "op_keeps no_exec (op_all [set_rlimit RlimitCore 0, set_rlimit RlimitCpu a,
     (if b then set_rlimit RlimitFsize c else op_return ()), (if d then set_rlimit RlimitNproc e else op_return ())])" for a b c d e
    by (intro no_exec_rules)
  then show ?thesis unfolding op_keeps_def setLimits_def Let_def by blast
qed

section \<open>What each step establishes\<close>

lemma op_all_Cons_Inr: "op_all (m # ms) s = (s', Inr ()) \<longleftrightarrow> (\<exists>t. m s = (t, Inr ()) \<and> op_all ms t = (s', Inr ()))"
  by (auto simp: op_then_def op_bind_def split: prod.splits sum.splits)

lemma op_all_Nil_Inr: "op_all [] s = (s', Inr ()) \<longleftrightarrow> s' = s"
  by (auto simp: op_return_run)

lemmas op_all_Inr = op_all_Cons_Inr op_all_Nil_Inr

lemma op_then_unitD:
  fixes m :: "('s, unit) op"
  shows "op_then m n s = (s', Inr y) \<Longrightarrow> \<exists>t. m s = (t, Inr ()) \<and> n t = (s', Inr y)"
  by (auto simp: op_then_def op_bind_def split: prod.splits sum.splits)

lemma sys_or_Inr: "sys_or c f e p = (p', Inr ()) \<longleftrightarrow> \<not> jx_fails p c \<and> p' = f p"
  by (auto simp: sys_or_def)

lemma sys_try_Inr: "sys_try c f p = (p', Inr ()) \<longleftrightarrow> p' = (if jx_fails p c then p else f p)"
  by (auto simp: sys_try_def sys_def)

text \<open>The class keeps its base and layout, that only \<open>init\<close> sets; the process and what the kernel refuses stay the same.\<close>

definition cg_static :: "cgw \<Rightarrow> string \<times> bool \<times> int \<times> ((string \<times> string) list \<Rightarrow> string \<Rightarrow> string \<Rightarrow> cg_errno option)" where
  "cg_static w = (cg_base w, cg_isV2 w, cg_pid w, cg_refuses w)"

lemma static_write: "cg_static (fst (writeControlFile p v w)) = cg_static w"
  by (simp add: writeControlFile_def cg_static_def split: option.splits)

lemma static_rmdir: "cg_static (fst (cg_rmdir p w)) = cg_static w"
  by (simp add: cg_rmdir_def cg_static_def)

lemma static_remove: "cg_static (removeCgroup dir w) = cg_static w"
proof -
  have "cg_static (fold (\<lambda>c w. if cg_isdir w (dir @ c) then fst (cg_rmdir (dir @ c) w) else w) cs w) = cg_static w" for cs w
    by (induction cs arbitrary: w) (simp_all add: static_rmdir)
  then show ?thesis unfolding removeCgroup_def by (simp only: static_rmdir split: if_split) simp
qed

lemma static_create: "cg_static (fst (createV2Cgroup dir w)) = cg_static w"
  by (auto simp: createV2Cgroup_def cg_mkdir_def cg_static_def split: prod.splits option.splits cg_errno.splits)

lemma static_attach: "cg_static (fst (setMemoryProcs dir pid w)) = cg_static w"
  using static_write [of "v2Path dir ''cgroup.procs''" "itos pid" w]
  by (auto simp: setMemoryProcs_def attachPidV2_def append_pid_def cg_static_def split: prod.splits option.splits)

lemma static_limit: "cg_static (fst (setMemoryLimitInBytes dir n w)) = cg_static w"
  using static_write [of "v2Path dir ''memory.max''" "itos n" w] static_write [of "v1Path dir ''memory/memory.limit_in_bytes''" "itos n" w]
  by (auto simp: setMemoryLimitInBytes_def split: prod.splits option.splits)

definition group_dir :: "task \<Rightarrow> cgw \<Rightarrow> string" where
  "group_dir t w = (let d = joinPath (cg_base w) (getPrisonerName t) in if cg_isV2 w then d else d @ ''/'')"

lemma group_dir_static: "cg_static w = cg_static w' \<Longrightarrow> group_dir t w = group_dir t w'"
  by (simp add: group_dir_def cg_static_def)

lemma newCgroup_Inr:
  "newCgroup (getPrisonerName t) w = (w', Inr dir) \<Longrightarrow> dir = group_dir t w'"
proof -
  assume r: "newCgroup (getPrisonerName t) w = (w', Inr dir)"
  let ?w = "cg_init w"
  have "createV2Cgroup (group_dir t ?w) ?w = (w', Inr ()) \<and> dir = group_dir t ?w"
    using r by (auto simp: newCgroup_def Let_def group_dir_def op_then_def op_bind_def op_return_def split: prod.splits sum.splits if_splits)
  then show ?thesis using static_create [of "group_dir t ?w" ?w] group_dir_static [of w' ?w t] by simp
qed

lemma on_cg_Inr: "on_cg m p = (p', Inr x) \<longleftrightarrow> (\<exists>w. m (jx_cg p) = (w, Inr x) \<and> p' = p\<lparr>jx_cg := w\<rparr>)"
  by (auto simp: on_cg_def split: prod.splits)

definition memory_limited :: "task \<Rightarrow> cgw \<Rightarrow> bool" where
  "memory_limited t w \<longleftrightarrow> getMemoryLimitInBytes (group_dir t w) w = (w, Inr (maxmemory (m_limits t)))"

text \<open>
  The process is in the group of its task: the kernel has taken its number in \<open>cgroup.procs\<close>. In the layout of version 1 the number has
  been written to \<open>tasks\<close>, or the kernel refuses it there: nobody looks at whether the buffered line was written.
\<close>

definition attached :: "task \<Rightarrow> cgw \<Rightarrow> bool" where
  "attached t w \<longleftrightarrow> (let dir = group_dir t w; tasks = dir @ ''memory/tasks''; line = itos (cg_pid w) @ [lf] in
     if cg_isV2 w then map_of (cg_files w) (joinPath dir ''cgroup.procs'') = Some (itos (cg_pid w))
     else (\<exists>d. map_of (cg_files w) tasks = Some (d @ line)) \<or> (\<exists>fs. cg_refuses w fs tasks line \<noteq> None))"

lemma joinPath_differ: "a \<noteq> [] \<Longrightarrow> b \<noteq> [] \<Longrightarrow> joinPath d a = joinPath d b \<longleftrightarrow> a = b"
  by (auto simp: joinPath_def)

lemma attach_done:
  assumes "setMemoryProcs (group_dir t w) (cg_pid w) w = (w', Inr ())" "cg_static w' = cg_static w"
  shows "attached t w'"
proof (cases "cg_isV2 w")
  case True
  have "writeControlFile (joinPath (group_dir t w) ''cgroup.procs'') (itos (cg_pid w)) w = (w', None)"
    using assms(1) True by (auto simp: setMemoryProcs_def attachPidV2_def v2Path_def split: prod.splits option.splits)
  then have "map_of (cg_files w') (joinPath (group_dir t w) ''cgroup.procs'') = Some (itos (cg_pid w))"
    by (auto simp: writeControlFile_def update_conv' split: if_splits option.splits)
  then show ?thesis using True assms(2) group_dir_static [OF assms(2), of t] by (simp add: attached_def cg_static_def Let_def)
next
  case False
  let ?p = "group_dir t w @ ''memory/tasks''" and ?l = "itos (cg_pid w) @ [lf]"
  have a: "append_pid ?p ''memory'' (cg_pid w) w = (w', Inr ())" using assms(1) False by (simp add: setMemoryProcs_def v1Path_def)
  have "(\<exists>d. map_of (cg_files w') ?p = Some (d @ ?l)) \<or> (\<exists>fs. cg_refuses w fs ?p ?l \<noteq> None)"
  proof (cases "cg_refuses w (cg_files w) ?p ?l")
    case None
    then show ?thesis
      using a by (auto simp: append_pid_def map_of_map_default split: if_splits option.splits intro: exI [of _ "[]"])
  qed blast
  then show ?thesis using False assms(2) group_dir_static [OF assms(2), of t] by (simp add: attached_def cg_static_def Let_def)
qed

lemma attached_after_limit:
  assumes "attached t w" "setMemoryLimitInBytes (group_dir t w) n w = (w', Inr ())" "cg_static w' = cg_static w"
  shows "attached t w'"
proof -
  let ?p = "if cg_isV2 w then v2Path (group_dir t w) ''memory.max'' else v1Path (group_dir t w) ''memory/memory.limit_in_bytes''"
  have "writeControlFile ?p (itos n) w = (w', None)"
    using assms(2) by (auto simp: setMemoryLimitInBytes_def split: prod.splits option.splits)
  then have "map_of (cg_files w') f = map_of (cg_files w) f" if "f \<noteq> ?p" for f
    using that by (auto simp: writeControlFile_def update_conv' split: if_splits option.splits)
  then show ?thesis
    using assms(1,3) group_dir_static [OF assms(3), of t]
    by (auto simp: attached_def cg_static_def Let_def v1Path_def v2Path_def joinPath_differ)
qed

lemma enter_cgroup_Inr:
  assumes r: "enter_cgroup p = (p', Inr ())" and m: "maxmemory (m_limits (jx_task p)) \<le> llong_max"
  shows "\<exists>w. p' = p\<lparr>jx_cg := w\<rparr> \<and> attached (jx_task p) w \<and> (maxmemory (m_limits (jx_task p)) > 0 \<longrightarrow> memory_limited (jx_task p) w)"
proof -
  let ?t = "jx_task p" and ?n = "maxmemory (m_limits (jx_task p))"
  let ?steps = "\<lambda>dir. op_all [on_cg (\<lambda>w. (removeCgroup dir w, Inr ())), on_cg (createCgroup dir),
        on_cg (\<lambda>w. setMemoryProcs dir (cg_pid w) w),
        (if ?n > 0 then on_cg (setMemoryLimitInBytes dir ?n) else op_return ())]"
  obtain q dir where 0: "on_cg (newCgroup (getPrisonerName ?t)) p = (q, Inr dir)" "?steps dir q = (p', Inr ())"
    using op_bind_InrD [OF r [unfolded enter_cgroup_def Let_def]] by blast
  obtain w1 where w1: "newCgroup (getPrisonerName ?t) (jx_cg p) = (w1, Inr dir)" "q = p\<lparr>jx_cg := w1\<rparr>"
    using 0(1) unfolding on_cg_Inr by blast
  obtain q2 q3 q4 where qs: "on_cg (\<lambda>w. (removeCgroup dir w, Inr ())) q = (q2, Inr ())"
      "on_cg (createCgroup dir) q2 = (q3, Inr ())" "on_cg (\<lambda>w. setMemoryProcs dir (cg_pid w) w) q3 = (q4, Inr ())"
      "(if ?n > 0 then on_cg (setMemoryLimitInBytes dir ?n) else op_return ()) q4 = (p', Inr ())"
    using 0(2) unfolding op_all_Inr by blast
  have q2: "q2 = p\<lparr>jx_cg := removeCgroup dir w1\<rparr>" using qs(1) w1(2) by (simp add: on_cg_def)
  obtain w3 where w3: "createCgroup dir (removeCgroup dir w1) = (w3, Inr ())" "q3 = p\<lparr>jx_cg := w3\<rparr>"
    using qs(2) q2 unfolding on_cg_Inr by auto
  obtain w4 where w4: "setMemoryProcs dir (cg_pid w3) w3 = (w4, Inr ())" "q4 = p\<lparr>jx_cg := w4\<rparr>"
    using qs(3) w3(2) unfolding on_cg_Inr by auto
  note steps = w3(1) w4(1) qs(4) [unfolded w4(2)]
  have s: "cg_static w4 = cg_static w1"
    using static_create [of dir "removeCgroup dir w1"] static_remove [of dir w1] static_attach [of dir "cg_pid w3" w3] steps(1,2)
    by (simp add: createCgroup_def)
  have dir: "dir = group_dir ?t w1" by (rule newCgroup_Inr [OF w1(1)])
  have s3: "cg_static w3 = cg_static w1" "cg_static w4 = cg_static w3"
    using static_create [of dir "removeCgroup dir w1"] static_remove [of dir w1] static_attach [of dir "cg_pid w3" w3] steps(1,2)
    by (simp_all add: createCgroup_def)
  have "dir = group_dir ?t w3" using dir group_dir_static [OF s3(1), of ?t] by simp
  then have in4: "attached ?t w4" using attach_done [of ?t w3 w4] steps(2) s3(2) by simp
  show ?thesis
  proof (cases "?n > 0")
    case False
    then show ?thesis using steps(3) in4 by (auto simp: op_return_run)
  next
    case True
    then obtain w5 where 5: "setMemoryLimitInBytes dir ?n w4 = (w5, Inr ())" "p' = p\<lparr>jx_cg := w5\<rparr>"
      using steps(3) by (auto simp: on_cg_Inr)
    have "cg_static w5 = cg_static w1" using static_limit [of dir ?n w4] 5(1) s by simp
    then have "group_dir ?t w5 = dir" using group_dir_static [of w5 w1 ?t] dir by blast
    moreover have "getMemoryLimitInBytes dir w5 = (w5, Inr ?n)"
    proof -
      let ?p = "if cg_isV2 w4 then v2Path dir ''memory.max'' else v1Path dir ''memory/memory.limit_in_bytes''"
      have "writeControlFile ?p (itos ?n) w4 = (w5, None)"
        using 5(1) by (auto simp: setMemoryLimitInBytes_def split: prod.splits option.splits)
      from limit_read [OF this] True m show ?thesis by (simp add: llong_min_def)
    qed
    ultimately have "memory_limited ?t w5" by (simp add: memory_limited_def)
    moreover have "attached ?t w5"
    proof (rule attached_after_limit [OF in4])
      show "cg_static w5 = cg_static w4" using static_limit [of dir ?n w4] 5(1) by simp
      show "setMemoryLimitInBytes (group_dir ?t w4) ?n w4 = (w5, Inr ())" using 5(1) group_dir_static [OF s, of ?t] dir by simp
    qed
    ultimately show ?thesis using 5(2) by blast
  qed
qed

lemma setupCgroup_Inr:
  assumes r: "setupCgroup p = (p', Inr ())" and m: "maxmemory (m_limits (jx_task p)) \<le> llong_max"
  shows "\<exists>w. p' = p\<lparr>jx_cg := w\<rparr> \<and> (cf_useCgroup (conf_of p) \<and> \<not> jx_inContainer p \<longrightarrow>
    attached (jx_task p) w \<and> (maxmemory (m_limits (jx_task p)) > 0 \<longrightarrow> memory_limited (jx_task p) w))"
proof (cases "cf_useCgroup (conf_of p)")
  case False
  have "p = p\<lparr>jx_cg := jx_cg p\<rparr>" by simp
  with False r show ?thesis unfolding setupCgroup_def by (metis prod.inject)
next
  case True
  obtain q ok where q: "cgroup_available p = (q, Inr ok)"
      "(if jx_inContainer q \<and> \<not> ok then (q, Inr ())
        else if \<not> ok then (q, Inl (internal ''Cgroup hierarchy is unavailable'' [])) else enter_cgroup q) = (p', Inr ())"
    using r True unfolding setupCgroup_def by (auto dest!: op_bind_InrD)
  obtain w where w: "q = p\<lparr>jx_cg := w\<rparr>" using q(1) unfolding cgroup_available_def on_cg_Inr by blast
  show ?thesis
  proof (cases ok)
    case False
    then have "jx_inContainer p" "p' = q" using q(2) w by (auto split: if_splits)
    with w show ?thesis by blast
  next
    case ok: True
    then have "enter_cgroup q = (p', Inr ())" using q(2) by simp
    from enter_cgroup_Inr [OF this] m w obtain w' where
      "p' = q\<lparr>jx_cg := w'\<rparr>" "attached (jx_task p) w'" "maxmemory (m_limits (jx_task p)) > 0 \<longrightarrow> memory_limited (jx_task p) w'" by auto
    with w show ?thesis by auto
  qed
qed

lemma setupNamespaces_Inr:
  "setupNamespaces p = (p', Inr ()) \<Longrightarrow> \<exists>a b. p' = p\<lparr>jx_namespaces := a, jx_private := b\<rparr> \<and> (cf_useNamespace (conf_of p) \<longrightarrow> a)"
proof (cases "cf_useNamespace (conf_of p)")
  case True
  assume "setupNamespaces p = (p', Inr ())"
  with True have "p' = p\<lparr>jx_namespaces := True, jx_private := True\<rparr>"
    unfolding setupNamespaces_def op_all_Inr sys_or_Inr by (auto simp: op_all_Inr sys_or_Inr simp del: op_all.simps)
  then show ?thesis by blast
next
  case False
  assume "setupNamespaces p = (p', Inr ())"
  with False have "p' = p\<lparr>jx_namespaces := jx_namespaces p, jx_private := jx_private p\<rparr>" by (simp add: setupNamespaces_def)
  with False show ?thesis by blast
qed

lemma umount_tree_Inr:
  "unmountMountTreeOrThrow pre p = (p', Inr ()) \<Longrightarrow> \<exists>ms. p' = p\<lparr>jx_mounts := ms\<rparr>"
  using umounts_Inr unfolding unmountMountTreeOrThrow_def Let_def by blast

lemma chroot_Inr: "jail_chroot jail p = (p', Inr ()) \<Longrightarrow> jx_root p' = jail"
  unfolding jail_chroot_def op_all_Inr sys_or_Inr by auto

lemma try_sys_Inr: "try_sys c f p = (p', Inr ok) \<longleftrightarrow> ok = (\<not> jx_fails p c) \<and> p' = (if ok then f p else p)"
  by (auto simp: try_sys_def sys_def)

text \<open>When \<open>pivotRoot\<close> returns after pivoting, the old root was left; otherwise the process was confined by \<open>chroot\<close>.\<close>

lemma pivotRoot_Inr:
  assumes r: "pivotRoot jail n p = (p', Inr ())" and jail: "jail \<noteq> []"
  shows "jx_root p' = jail \<and>
    (\<not> jx_fails p (SysBind jail jail) \<and> \<not> jx_fails p (SysPivot jail (''.oldroot_p'' @ itos n)) \<longrightarrow>
      (\<exists>q. jx_mountinfo q = jx_mountinfo p \<and> jx_mounts q = jx_mounts (pivot jail (''/.oldroot_p'' @ itos n) (bind_tree jail p)) \<and>
         unmountMountTreeOrThrow (''/.oldroot_p'' @ itos n) q = (p', Inr ())))"
proof -
  let ?old = "''.oldroot_p'' @ itos n"
  obtain p1 where 0: "sys_try (SysPrivate ''/'') (\<lambda>p. p\<lparr>jx_private := True\<rparr>) p = (p1, Inr ())"
      "op_bind (try_sys (SysBind jail jail) (bind_tree jail)) (\<lambda>bound.
         if bound then op_then (prepare_pivot jail ?old) (pivot_into jail ?old) else jail_chroot jail) p1 = (p', Inr ())"
    using op_then_unitD [OF r [unfolded pivotRoot_def Let_def if_not_P [OF jail]]] by blast
  obtain p2 bound where 1: "try_sys (SysBind jail jail) (bind_tree jail) p1 = (p2, Inr bound)"
      "(if bound then op_then (prepare_pivot jail ?old) (pivot_into jail ?old) else jail_chroot jail) p2 = (p', Inr ())"
    using op_bind_InrD [OF 0(2)] by blast
  have same: "jx_fails p1 = jx_fails p" "jx_mountinfo p1 = jx_mountinfo p" "jx_mounts p1 = jx_mounts p" using 0(1) by (auto simp: sys_try_Inr)
  then have same: "jx_fails p2 = jx_fails p" "jx_mountinfo p2 = jx_mountinfo p" "bound \<longleftrightarrow> \<not> jx_fails p (SysBind jail jail)"
      "bound \<Longrightarrow> jx_mounts p2 = jx_mounts p \<and> jx_bound p2 = jx_bound (bind_tree jail p)"
    using 1(1) by (auto simp: try_sys_Inr bind_tree_def)
  show ?thesis
  proof (cases bound)
    case False
    then show ?thesis using 1(2) same chroot_Inr by simp
  next
    case True
    then obtain p3 where 2: "prepare_pivot jail ?old p2 = (p3, Inr ())" "pivot_into jail ?old p3 = (p', Inr ())"
      using op_then_unitD [of "prepare_pivot jail ?old" "pivot_into jail ?old" p2 p' "()"] 1(2) by auto
    obtain p4 ok where 3: "try_sys (SysPivot jail ?old) (pivot jail (CHR ''/'' # ?old)) p3 = (p4, Inr ok)"
        "(if ok then leave_old_root (CHR ''/'' # ?old)
          else sys_or (SysChroot jail) (\<lambda>p. p\<lparr>jx_root := jail, jx_cwd := ''/''\<rparr>) (internal ''I can't chroot to jail'' jail)) p4 = (p', Inr ())"
      using op_bind_InrD [OF 2(2) [unfolded pivot_into_def]] by blast
    have 4: "jx_fails p3 = jx_fails p" "jx_mountinfo p3 = jx_mountinfo p" "jx_mounts p3 = jx_mounts p \<and> jx_bound p3 = jx_bound (bind_tree jail p)"
      using 2(1) same True unfolding prepare_pivot_def op_all_Inr sys_try_Inr sys_or_Inr by auto
    show ?thesis
    proof (cases ok)
      case False
      then show ?thesis using 3 4 by (auto simp: sys_or_Inr try_sys_Inr)
    next
      case True
      then have p4: "p4 = pivot jail (CHR ''/'' # ?old) p3" using 3(1) by (simp add: try_sys_Inr)
      have "unmountMountTreeOrThrow (CHR ''/'' # ?old) (p4\<lparr>jx_cwd := ''/''\<rparr>) = (p', Inr ())"
        using 3(2) True unfolding leave_old_root_def by (auto simp: op_all_Inr sys_or_Inr simp del: op_all.simps)
      moreover from umount_tree_Inr [OF this] have "jx_root p' = jail" using p4 by (auto simp: pivot_def)
      moreover have "jx_mountinfo (p4\<lparr>jx_cwd := ''/''\<rparr>) = jx_mountinfo p" using p4 4 by (simp add: pivot_def)
      moreover have "jx_mounts (p4\<lparr>jx_cwd := ''/''\<rparr>) = jx_mounts (pivot jail (CHR ''/'' # ?old) (bind_tree jail p))"
        using p4 4 by (simp add: pivot_def bind_tree_def)
      moreover have "''/.oldroot_p'' @ itos n = CHR ''/'' # ?old" by simp
      ultimately show ?thesis by metis
    qed
  qed
qed

lemma filesystem_Inr:
  assumes r: "setupFilesystemIsolation p = (p', Inr ())" and jail: "cf_jailPath (conf_of p) \<noteq> []"
  shows "jx_root p' = cf_jailPath (conf_of p)"
proof (cases "cf_useNamespace (conf_of p)")
  case False
  then show ?thesis using r jail chroot_Inr by (simp add: setupFilesystemIsolation_def Let_def)
next
  case True
  then obtain p1 p2 where 1: "pivotRoot (cf_jailPath (conf_of p)) (m_prisoner (jx_task p)) p = (p1, Inr ())"
      "remountProc p1 = (p2, Inr ())" "setupPrivateWritableDirs p2 = (p', Inr ())"
    using r jail unfolding setupFilesystemIsolation_def Let_def by (auto simp: op_all_Inr simp del: op_all.simps)
  have "jx_root p2 = jx_root p1" using 1(2) by (auto simp: remountProc_def remount_def Let_def split: if_splits)
  moreover have "jx_root (fst (private_dir d q)) = jx_root q" for d q by (simp add: private_dir_def Let_def)
  then have "op_keeps (\<lambda>q. jx_root q = jx_root p2) (private_dir d)" for d by (simp add: op_keeps_def)
  then have "op_keeps (\<lambda>q. jx_root q = jx_root p2) (op_each private_dir ds)" for ds by (simp add: op_keeps_each)
  then have "jx_root (fst (setupPrivateWritableDirs p2)) = jx_root p2" by (simp add: setupPrivateWritableDirs_def op_keeps_def)
  then have "jx_root p' = jx_root p2" using 1(3) by simp
  ultimately show ?thesis using pivotRoot_Inr [OF 1(1) jail] by simp
qed

lemma becomePrisoner_Inr:
  "becomePrisoner n p = (p', Inr ()) \<Longrightarrow> n \<noteq> 0 \<and> (\<exists>nnp dump. p' =
     p\<lparr>jx_gids := (n, n, n), jx_uids := (n, n, n), jx_nnp := nnp, jx_dumpable := dump\<rparr>)"
proof -
  assume "becomePrisoner n p = (p', Inr ())"
  then have "n \<noteq> 0 \<and> p' = p\<lparr>jx_gids := (n, n, n), jx_uids := (n, n, n),
      jx_nnp := (if jx_fails p SysNoNewPrivs then jx_nnp p else True),
      jx_dumpable := (if jx_fails p SysDumpable then jx_dumpable p else False)\<rparr>"
    unfolding becomePrisoner_def op_all_Inr sys_or_Inr sys_try_Inr by (auto split: if_splits)
  then show ?thesis by blast
qed

definition limits_only :: "(jproc, unit) op \<Rightarrow> bool" where
  "limits_only m \<longleftrightarrow> (\<forall>p. \<exists>l. m p = (p\<lparr>jx_limits := l\<rparr>, Inr ()))"

lemma limits_only_set: "limits_only (set_rlimit r v)"
proof -
  have "set_rlimit r v p = (p\<lparr>jx_limits := (if jx_fails p (SysSetrlimit r) then jx_limits p else (jx_limits p)(r \<mapsto> to_rlim v))\<rparr>, Inr ())" for p
    by (simp add: set_rlimit_def sys_try_def sys_def)
  then show ?thesis unfolding limits_only_def by blast
qed

lemma limits_only_return: "limits_only (op_return ())"
proof -
  have "op_return () p = (p\<lparr>jx_limits := jx_limits p\<rparr>, Inr ())" for p :: jproc by (simp add: op_return_run)
  then show ?thesis unfolding limits_only_def by blast
qed

lemma limits_only_all: "limits_only (op_all [])" "limits_only m \<Longrightarrow> limits_only (op_all ms) \<Longrightarrow> limits_only (op_all (m # ms))"
proof -
  show "limits_only (op_all [])" using limits_only_return by simp
  assume m: "limits_only m" "limits_only (op_all ms)"
  show "limits_only (op_all (m # ms))" unfolding limits_only_def
  proof
    fix p
    obtain l where l: "m p = (p\<lparr>jx_limits := l\<rparr>, Inr ())" using m(1) unfolding limits_only_def by blast
    obtain l' where "op_all ms (p\<lparr>jx_limits := l\<rparr>) = (p\<lparr>jx_limits := l\<rparr>\<lparr>jx_limits := l'\<rparr>, Inr ())"
      using m(2) unfolding limits_only_def by blast
    then have "op_all (m # ms) p = (p\<lparr>jx_limits := l'\<rparr>, Inr ())" by (simp add: op_then_run(1) [of m, OF l])
    then show "\<exists>l. op_all (m # ms) p = (p\<lparr>jx_limits := l\<rparr>, Inr ())" by blast
  qed
qed

lemma limits_only_if: "limits_only m \<Longrightarrow> limits_only n \<Longrightarrow> limits_only (if c then m else n)"
  by simp

lemma setLimits_Inr: "setLimits p = (p', r) \<Longrightarrow> \<exists>l. p' = p\<lparr>jx_limits := l\<rparr> \<and> r = Inr ()"
proof -
  assume r: "setLimits p = (p', r)"
  have "limits_only (op_all [set_rlimit RlimitCore 0, set_rlimit RlimitCpu a,
     (if b then set_rlimit RlimitFsize c else op_return ()), (if d then set_rlimit RlimitNproc e else op_return ())])" for a b c d e
    by (intro limits_only_all limits_only_if limits_only_set limits_only_return)
  then have "\<exists>l. setLimits p = (p\<lparr>jx_limits := l\<rparr>, Inr ())" unfolding limits_only_def setLimits_def Let_def by blast
  then show ?thesis using r by auto
qed

lemma transferExecution_Inr:
  "transferExecution f p = (p', Inr ()) \<Longrightarrow> p' = p\<lparr>jx_cwd := getRelativeHomePath (jx_task p), jx_foreground := jx_foreground p',
     jx_exec := Some (getRelativeHomePath (jx_task p) @ CHR ''/'' # f, exec_environment (jx_task p))\<rparr>"
  by (auto simp: transferExecution_def Let_def sys_or_def sys_str_def sys_try_def sys_def op_defs bind_result_def
      split: if_splits sum.splits prod.splits)

lemma transferExecution_Inl: "transferExecution f p = (p', Inl e) \<Longrightarrow> no_exec p \<Longrightarrow> no_exec p'"
  by (auto simp: transferExecution_def Let_def sys_or_def sys_str_def sys_try_def sys_def op_defs bind_result_def
      split: if_splits sum.splits prod.splits)

lemma pivotRoot_returns:
  assumes jail: "jail \<noteq> []" and k: "shows_mounts (pivot jail (''/.oldroot_p'' @ itos n) (bind_tree jail p))"
    and none: "\<forall>c. \<not> jx_fails p c"
  shows "\<exists>p'. pivotRoot jail n p = (p', Inr ())"
proof -
  let ?old = "''.oldroot_p'' @ itos n"
  let ?q = "pivot jail (CHR ''/'' # ?old) (bind_tree jail (p\<lparr>jx_private := True\<rparr>)\<lparr>jx_cwd := jail\<rparr>)\<lparr>jx_cwd := ''/''\<rparr>"
  have prepare: "prepare_pivot jail old q = (q\<lparr>jx_cwd := jail\<rparr>, Inr ())" if "jx_fails q = jx_fails p" for old q
    using that none unfolding prepare_pivot_def op_all_Inr sys_try_Inr sys_or_Inr by simp
  have leave: "leave_old_root old q = unmountMountTreeOrThrow old (q\<lparr>jx_cwd := ''/''\<rparr>)" if "jx_fails q = jx_fails p" for old q
    using that none by (auto simp: leave_old_root_def op_then_def op_bind_def sys_or_def op_return_run split: prod.splits sum.splits)
  have into: "pivot_into jail old q = unmountMountTreeOrThrow (CHR ''/'' # old) (pivot jail (CHR ''/'' # old) q\<lparr>jx_cwd := ''/''\<rparr>)"
    if "jx_fails q = jx_fails p" for old q
  proof -
    have "try_sys (SysPivot jail old) (pivot jail (CHR ''/'' # old)) q = (pivot jail (CHR ''/'' # old) q, Inr True)"
      using that none by (simp add: try_sys_def sys_def)
    moreover have "jx_fails (pivot jail (CHR ''/'' # old) q) = jx_fails p" using that by (simp add: pivot_def)
    ultimately show ?thesis by (simp add: pivot_into_def op_bind_run leave)
  qed
  let ?p1 = "p\<lparr>jx_private := True\<rparr>"
  have "sys_try (SysPrivate ''/'') (\<lambda>p. p\<lparr>jx_private := True\<rparr>) p = (?p1, Inr ())"
      "try_sys (SysBind jail jail) (bind_tree jail) ?p1 = (bind_tree jail ?p1, Inr True)"
    using none by (simp_all add: sys_try_def try_sys_def sys_def)
  moreover have "jx_fails (bind_tree jail ?p1) = jx_fails p" "jx_fails (bind_tree jail ?p1\<lparr>jx_cwd := jail\<rparr>) = jx_fails p"
    by (simp_all add: bind_tree_def)
  ultimately have run: "pivotRoot jail n p = unmountMountTreeOrThrow (CHR ''/'' # ?old) ?q"
    unfolding pivotRoot_def Let_def if_not_P [OF jail] by (simp add: op_then_run(1) op_bind_run(1) prepare into del: append.simps)
  let ?ts = "filter (\<lambda>mp. isPathUnderPrefix mp (CHR ''/'' # ?old)) (jx_mounts ?q)"
  have "shows_mounts ?q" using k by (simp add: shows_mounts_def pivot_def bind_tree_def)
  then have "unmountMountTreeOrThrow (CHR ''/'' # ?old) ?q =
      op_each umount_or_throw (sort_key (\<lambda>mp. - int (length mp)) ?ts) ?q"
    by (simp add: unmountMountTreeOrThrow_def shows_mounts_def)
  moreover have "sorted_wrt (\<lambda>a b. length b \<le> length a) (sort_key (\<lambda>mp. - int (length mp)) ?ts)"
    using sorted_sort_key [of "\<lambda>mp. - int (length mp)" ?ts] by (simp add: sorted_wrt_map)
  moreover have "jx_fails ?q = jx_fails p" by (simp add: pivot_def bind_tree_def)
  ultimately show ?thesis
    using umounts_never_busy [of "sort_key (\<lambda>mp. - int (length mp)) ?ts" ?q "CHR ''/'' # ?old"] none run by simp
qed

lemma op_all_snoc: "op_all (ms @ [m]) s = op_then (op_all ms) m s"
proof (induction ms arbitrary: s)
  case Nil
  then show ?case by (auto simp: op_then_def op_bind_def op_return_def split: prod.splits sum.splits)
next
  case (Cons a ms)
  then show ?case by (auto simp: op_then_def op_bind_def split: prod.splits sum.splits)
qed

lemma jail_steps_Inl: "jail_steps name p = (q, Inl e) \<Longrightarrow> no_exec p \<Longrightarrow> no_exec q"
proof -
  let ?before = "op_all [setupCgroup, setupNamespaces,
     sys_str SysLoginTty (\<lambda>p. p\<lparr>jx_tty := True\<rparr>) (\<lambda>err. ''Cannot establish controlling terminal: '' @ err),
     setupFilesystemIsolation, (\<lambda>p. becomePrisoner (m_prisoner (jx_task p)) p), setLimits]"
  assume r: "jail_steps name p = (q, Inl e)" and p: "no_exec p"
  have "op_keeps no_exec ?before"
    by (intro no_exec_rules no_exec_cgroup no_exec_namespaces no_exec_filesystem no_exec_becomePrisoner no_exec_setLimits) simp
  then have keeps: "no_exec (fst (?before p))" using p unfolding op_keeps_def by blast
  have run: "op_then ?before (transferExecution name) p = (q, Inl e)"
    using r op_all_snoc [of "[setupCgroup, setupNamespaces,
     sys_str SysLoginTty (\<lambda>p. p\<lparr>jx_tty := True\<rparr>) (\<lambda>err. ''Cannot establish controlling terminal: '' @ err),
     setupFilesystemIsolation, (\<lambda>p. becomePrisoner (m_prisoner (jx_task p)) p), setLimits]" "transferExecution name" p]
    by (simp add: jail_steps_def del: op_all.simps)
  obtain t x where t: "?before p = (t, x)" by (cases "?before p") auto
  show ?thesis
  proof (cases x)
    case (Inl e')
    then have "q = t" using run t by (simp add: op_then_def op_bind_def del: op_all.simps)
    then show ?thesis using keeps t by simp
  next
    case (Inr u)
    then have "transferExecution name t = (q, Inl e)" using run t by (simp add: op_then_def op_bind_def del: op_all.simps)
    then show ?thesis using transferExecution_Inl keeps t by simp
  qed
qed

lemma jail_steps_Inr:
  assumes r: "jail_steps name p = (q, Inr ())" and m: "maxmemory (m_limits (jx_task p)) \<le> llong_max"
  shows "jx_exec q = Some (getRelativeHomePath (jx_task p) @ CHR ''/'' # name, exec_environment (jx_task p))"
    and "m_prisoner (jx_task p) \<noteq> 0"
    and "jx_uids q = (m_prisoner (jx_task p), m_prisoner (jx_task p), m_prisoner (jx_task p))"
    and "jx_gids q = (m_prisoner (jx_task p), m_prisoner (jx_task p), m_prisoner (jx_task p))"
    and "jx_groups q = jx_groups p" and "jx_tty q"
    and "cf_jailPath (conf_of p) \<noteq> [] \<Longrightarrow> jx_root q = cf_jailPath (conf_of p)"
    and "cf_useNamespace (conf_of p) \<Longrightarrow> jx_namespaces q"
    and "cf_useCgroup (conf_of p) \<Longrightarrow> \<not> jx_inContainer p \<Longrightarrow>
      attached (jx_task p) (jx_cg q) \<and> (maxmemory (m_limits (jx_task p)) > 0 \<longrightarrow> memory_limited (jx_task p) (jx_cg q))"
proof -
  obtain p1 p2 p3 p4 p5 p6 where 1: "setupCgroup p = (p1, Inr ())" "setupNamespaces p1 = (p2, Inr ())"
      "sys_str SysLoginTty (\<lambda>p. p\<lparr>jx_tty := True\<rparr>) (\<lambda>err. ''Cannot establish controlling terminal: '' @ err) p2 = (p3, Inr ())"
      "setupFilesystemIsolation p3 = (p4, Inr ())" "becomePrisoner (m_prisoner (jx_task p4)) p4 = (p5, Inr ())"
      "setLimits p5 = (p6, Inr ())" "transferExecution name p6 = (q, Inr ())"
    using r unfolding jail_steps_def op_all_Inr by blast
  obtain w where p1: "p1 = p\<lparr>jx_cg := w\<rparr>"
      "cf_useCgroup (conf_of p) \<and> \<not> jx_inContainer p \<longrightarrow>
         attached (jx_task p) w \<and> (maxmemory (m_limits (jx_task p)) > 0 \<longrightarrow> memory_limited (jx_task p) w)"
    using setupCgroup_Inr [OF 1(1) m] by blast
  obtain a b where p2: "p2 = p1\<lparr>jx_namespaces := a, jx_private := b\<rparr>" "cf_useNamespace (conf_of p1) \<longrightarrow> a"
    using setupNamespaces_Inr [OF 1(2)] by blast
  have p3: "p3 = p2\<lparr>jx_tty := True\<rparr>" using 1(3) by (simp add: sys_str_def split: if_splits)
  note p4 = filesystem_same [OF 1(4)]
  obtain nnp dump where p5: "m_prisoner (jx_task p4) \<noteq> 0"
      "p5 = p4\<lparr>jx_gids := (m_prisoner (jx_task p4), m_prisoner (jx_task p4), m_prisoner (jx_task p4)),
        jx_uids := (m_prisoner (jx_task p4), m_prisoner (jx_task p4), m_prisoner (jx_task p4)), jx_nnp := nnp, jx_dumpable := dump\<rparr>"
    using becomePrisoner_Inr [OF 1(5)] by blast
  obtain l where p6: "p6 = p5\<lparr>jx_limits := l\<rparr>" using setLimits_Inr [OF 1(6)] by blast
  obtain fg where q: "q = p6\<lparr>jx_cwd := getRelativeHomePath (jx_task p6), jx_foreground := fg,
     jx_exec := Some (getRelativeHomePath (jx_task p6) @ CHR ''/'' # name, exec_environment (jx_task p6))\<rparr>"
    using transferExecution_Inr [OF 1(7)] by blast
  have tty: "jx_tty p4 = jx_tty p3"
    using p4 unfolding fs_same_def fs_view_def by (auto dest: arg_cong [where f = jx_tty])
  have task: "jx_task p4 = jx_task p" "jx_task p6 = jx_task p" using fs_same_fields(1) [OF p4] p1 p2(1) p3 p5(2) p6 by simp_all
  note states = q p6 p5(2)
  show "jx_exec q = Some (getRelativeHomePath (jx_task p) @ CHR ''/'' # name, exec_environment (jx_task p))"
    using q task by simp
  show "m_prisoner (jx_task p) \<noteq> 0" using p5(1) task by simp
  show "jx_uids q = (m_prisoner (jx_task p), m_prisoner (jx_task p), m_prisoner (jx_task p))" using states task by simp
  show "jx_gids q = (m_prisoner (jx_task p), m_prisoner (jx_task p), m_prisoner (jx_task p))" using states task by simp
  show "jx_groups q = jx_groups p" using states fs_same_fields(5) [OF p4] p1(1) p2(1) p3 by simp
  show "jx_tty q" using states tty p3 by simp
  show "jx_root q = cf_jailPath (conf_of p)" if "cf_jailPath (conf_of p) \<noteq> []"
    using states filesystem_Inr [OF 1(4)] that p1(1) p2(1) p3 by (simp add: conf_of_def)
  show "jx_namespaces q" if "cf_useNamespace (conf_of p)"
    using states fs_same_fields(6) [OF p4] that p1(1) p2 p3 by (simp add: conf_of_def)
  show "attached (jx_task p) (jx_cg q) \<and> (maxmemory (m_limits (jx_task p)) > 0 \<longrightarrow> memory_limited (jx_task p) (jx_cg q))"
    if "cf_useCgroup (conf_of p)" "\<not> jx_inContainer p"
    using states fs_same_fields(2) [OF p4] that p1 p2(1) p3 by simp
qed

lemma cg_exists_files: "cg_exists w f \<longleftrightarrow> f \<in> fst ` set (cg_files w)"
  by (simp add: cg_exists_def map_of_eq_None_iff)

lemma rmdir_exists: "cg_exists (fst (cg_rmdir d w)) f \<Longrightarrow> cg_exists w f"
  unfolding cg_exists_files cg_rmdir_def by (cases "\<not> cg_isdir w d \<or> cg_rmdir_fails w d") auto

lemma remove_exists:
  assumes "cg_exists (removeCgroup dir w) f"
  shows "cg_exists w f"
proof (cases "cg_isV2 w")
  case True
  then show ?thesis using assms rmdir_exists unfolding removeCgroup_def by simp
next
  case False
  let ?step = "\<lambda>c w. if cg_isdir w (dir @ c) then fst (cg_rmdir (dir @ c) w) else w"
  have step: "cg_exists (?step c w) f \<Longrightarrow> cg_exists w f" for c w
    by (cases "cg_isdir w (dir @ c)") (simp_all add: rmdir_exists)
  have all: "cg_exists (fold ?step cs w) f \<Longrightarrow> cg_exists w f" for cs w
  proof (induction cs arbitrary: w)
    case (Cons c cs)
    from Cons.prems have "cg_exists (fold ?step cs (?step c w)) f" unfolding fold_Cons o_apply .
    from step [OF Cons.IH [OF this]] show ?case .
  qed simp
  have "removeCgroup dir w = fold ?step [''cpu,cpuacct'', ''memory'', ''net_cls,net_prio'', ''pids''] w"
    unfolding removeCgroup_def if_not_P [OF False] ..
  from assms [unfolded this] show ?thesis by (rule all)
qed

section \<open>Properties\<close>

text \<open>
  C6: whatever calls fail, when a program is executed it is the requested file of the task's home with the
  environment of the task, as the prisoner (real, effective and saved, user and group) who is not root, on the pseudo
  terminal, below the root of the jail if one is configured, in new namespaces if they are configured, and, where
  control groups are configured and the server is not itself in a container, in the control group of the task, whose memory limit
  is the task's: in version 2 the kernel has taken the process into the group; in version 1 it has too, unless the kernel refuses the
  number of the process, which the code does not see. The supplementary groups are those of the server.
\<close>

theorem exec_is_confined:
  assumes "jx_exec (executeInJail name p) = Some (path, env)" "jx_exec p = None" "maxmemory (m_limits (jx_task p)) \<le> llong_max"
  shows "let t = jx_task p; c = w_conf t; n = m_prisoner t; q = executeInJail name p in
    path = getRelativeHomePath t @ CHR ''/'' # name \<and> env = exec_environment t \<and>
    n \<noteq> 0 \<and> jx_uids q = (n, n, n) \<and> jx_gids q = (n, n, n) \<and> jx_groups q = jx_groups p \<and> jx_tty q \<and>
    (cf_jailPath c \<noteq> [] \<longrightarrow> jx_root q = cf_jailPath c) \<and> (cf_useNamespace c \<longrightarrow> jx_namespaces q) \<and>
    (cf_useCgroup c \<and> \<not> jx_inContainer p \<longrightarrow>
       attached t (jx_cg q) \<and> (maxmemory (m_limits t) > 0 \<longrightarrow> memory_limited t (jx_cg q)))"
proof -
  obtain q r where r: "jail_steps name p = (q, r)" by (cases "jail_steps name p") auto
  have "\<exists>u. r = Inr u"
  proof (cases r)
    case (Inl e)
    then have "no_exec q" using jail_steps_Inl [of name p q e] r assms(2) by (simp add: no_exec_def)
    then show ?thesis using assms(1) r Inl by (simp add: executeInJail_def no_exec_def split: if_splits)
  qed simp
  then have q: "jail_steps name p = (q, Inr ())" "executeInJail name p = q" using r by (auto simp: executeInJail_def)
  note s = jail_steps_Inr [OF q(1) assms(3), unfolded conf_of_def]
  show ?thesis
    unfolding Let_def q(2) using s assms(1) [unfolded q(2)] by simp
qed

text \<open>
  C7: when the jail is entered by \<open>pivot_root\<close> and the kernel shows the mounts there are, no mount of the old root is
  left when \<open>pivotRoot\<close> returns, nested ones included; and if no call fails it does return: removing the deepest mounts
  first, none is ever busy.
\<close>

theorem old_root_is_left:
  assumes jail: "jail \<noteq> []"
    and k: "shows_mounts (pivot jail (''/.oldroot_p'' @ itos n) (bind_tree jail p))"
    and ok: "\<not> jx_fails p (SysBind jail jail)" "\<not> jx_fails p (SysPivot jail (''.oldroot_p'' @ itos n))"
  shows "(\<forall>p'. pivotRoot jail n p = (p', Inr ()) \<longrightarrow> jx_root p' = jail \<and>
      (\<forall>m \<in> set (jx_mounts p'). \<not> isPathUnderPrefix m (''/.oldroot_p'' @ itos n))) \<and>
    ((\<forall>c. \<not> jx_fails p c) \<longrightarrow> (\<exists>p'. pivotRoot jail n p = (p', Inr ())))"
proof (rule conjI; intro allI impI)
  fix p'
  assume r: "pivotRoot jail n p = (p', Inr ())"
  note i = pivotRoot_Inr [OF r jail]
  from i ok obtain q where q: "jx_mountinfo q = jx_mountinfo p"
      "jx_mounts q = jx_mounts (pivot jail (''/.oldroot_p'' @ itos n) (bind_tree jail p))"
      "unmountMountTreeOrThrow (''/.oldroot_p'' @ itos n) q = (p', Inr ())" by blast
  have "shows_mounts q" using k q(1,2) unfolding shows_mounts_def by (simp add: pivot_def bind_tree_def)
  with i unmounted_none_left [OF q(3)] show "jx_root p' = jail \<and>
      (\<forall>m \<in> set (jx_mounts p'). \<not> isPathUnderPrefix m (''/.oldroot_p'' @ itos n))" by blast
next
  assume none: "\<forall>c. \<not> jx_fails p c"
  show "\<exists>p'. pivotRoot jail n p = (p', Inr ())"
    using pivotRoot_returns [OF jail k none] .
qed

text \<open>
  C39: with the layout of version 1, where control groups are found usable, but a group of the prisoner does not exist
  yet, every execution is refused: nothing of the program makes the directory of the controller, so the
  process cannot be attached.
\<close>

theorem v1_group_refused:
  assumes use: "cf_useCgroup (conf_of p)" and av: "cgroup_available p = (q, Inr True)"
    and v1: "\<not> cg_isV2 (jx_cg q)" "cg_initialized (jx_cg q)" "cg_initializedBase (jx_cg q) = cg_base (jx_cg q)"
    and new: "\<not> cg_exists (jx_cg q) (group_dir (jx_task q) (jx_cg q) @ ''memory/tasks'')"
  shows "\<exists>q'. setupCgroup p = (q', Inl (StdExn ''Unable to attach process to memory cgroup''))"
proof -
  let ?w = "jx_cg q" and ?dir = "group_dir (jx_task q) (jx_cg q)"
  have init: "cg_init ?w = ?w" using v1 by (simp add: cg_init_def)
  have "newCgroup (getPrisonerName (jx_task q)) ?w = (?w, Inr ?dir)"
    using v1(1) by (simp add: newCgroup_def init Let_def op_then_run(1) createV2Cgroup_def op_return_run group_dir_def)
  then have 1: "on_cg (newCgroup (getPrisonerName (jx_task q))) q = (q, Inr ?dir)" by (simp add: on_cg_def)
  let ?q = "q\<lparr>jx_cg := removeCgroup ?dir ?w\<rparr>"
  have v1': "\<not> cg_isV2 (removeCgroup ?dir ?w)" using static_remove [of ?dir ?w] v1(1) by (simp add: cg_static_def)
  have 2: "on_cg (\<lambda>w. (removeCgroup ?dir w, Inr ())) q = (?q, Inr ())" "on_cg (createCgroup ?dir) ?q = (?q, Inr ())"
    using v1' by (simp_all add: on_cg_def createCgroup_def createV2Cgroup_def)
  have "\<not> canOpenForWriting (removeCgroup ?dir ?w) (?dir @ ''memory/tasks'')"
    using new remove_exists unfolding canOpenForWriting_def by blast
  then have 3: "on_cg (\<lambda>w. setMemoryProcs ?dir (cg_pid w) w) ?q =
      (?q, Inl (StdExn ''Unable to attach process to memory cgroup''))"
    using v1' by (simp add: on_cg_def setMemoryProcs_def append_pid_def v1Path_def)
  have "enter_cgroup q = (?q, Inl (StdExn ''Unable to attach process to memory cgroup''))"
    unfolding enter_cgroup_def Let_def
    using 1 2 3 by (simp add: op_bind_run op_then_run)
  then have "setupCgroup p = (?q, Inl (StdExn ''Unable to attach process to memory cgroup''))"
    using use av by (simp add: setupCgroup_def op_bind_run)
  then show ?thesis by blast
qed

end
