(* ===== verification/Jail_Examples.thy ===== *)
theory Jail_Examples
  imports Task_Examples Jail_Exec
begin

text \<open>
  The process forked for the example task, in a jail with a mounted \<open>/proc\<close>, and the properties of the jail applied to it.
\<close>

definition demo_mountinfo :: "string list \<Rightarrow> string" where
  "demo_mountinfo ms = concat (map (\<lambda>m. ''1 2 0:1 / '' @ m @ '' rw'' @ [lf]) ms)"

definition demo_cgw :: cgw where
  "demo_cgw = \<lparr>cg_base = ''/sys/fs/cgroup'', cg_overridden = False, cg_initialized = False, cg_initializedBase = [],
     cg_isV2 = False, cg_checked = False, cg_cached = False, cg_checkedBase = [], cg_files = [], cg_dirs = [],
     cg_mounts = None, cg_readonly = (\<lambda>_. False), cg_refuses = (\<lambda>_ _ _. None), cg_mkdir_fails = (\<lambda>_. False),
     cg_rmdir_fails = (\<lambda>_. False), cg_kernel = (\<lambda>_. []), cg_pid = 9, cg_hz = 100\<rparr>"

definition demo_jproc :: jproc where
  "demo_jproc = \<lparr>jx_task = demo_object, jx_cg = demo_cgw, jx_uids = (0, 0, 0), jx_gids = (0, 0, 0), jx_groups = [0],
     jx_nnp = False, jx_dumpable = True, jx_namespaces = False, jx_private = False, jx_root = [], jx_pivoted = False,
     jx_cwd = ''/'', jx_mounts = [''/'', ''/proc'', ''/jail/proc''], jx_bound = [], jx_binds = [], jx_tty = False,
     jx_limits = (\<lambda>_. None), jx_foreground = False, jx_exec = None, jx_output = [], jx_fails = (\<lambda>_. False),
     jx_mountinfo = demo_mountinfo, jx_present = (\<lambda>_. True), jx_stat = (\<lambda>_. None), jx_strerror = (\<lambda>_. []),
     jx_isatty = True, jx_seen = Inr beforeRunning, jx_inContainer = False, jx_writable = [''/tmp'']\<rparr>"

theorem exec_is_confined_witness:
  "jx_exec (executeInJail ''vpl_execution'' demo_jproc) = Some (''/home/p10001/vpl_execution'', exec_environment demo_object) \<and>
   jx_uids (executeInJail ''vpl_execution'' demo_jproc) = (10001, 10001, 10001) \<and>
   jx_root (executeInJail ''vpl_execution'' demo_jproc) = ''/jail''"
proof -
  have home: "getRelativeHomePath demo_object = ''/home/p10001''"
    using demo_names by (simp add: getRelativeHomePath_def demo_object_def getPrisonerName_def)
  have n: "jx_exec demo_jproc = None" "jx_task demo_jproc = demo_object" "w_conf demo_object = demo_conf"
      "cf_jailPath demo_conf = ''/jail''" "m_prisoner demo_object = 10001" "maxmemory (m_limits demo_object) = 0"
    by (simp_all add: demo_jproc_def demo_object_def demo_conf_def)
  have none: "jx_fails demo_jproc = (\<lambda>_. False)" "jx_present demo_jproc = (\<lambda>_. True)" by (simp_all add: demo_jproc_def)
  let ?same = "\<lambda>q. jx_task q = demo_object \<and> jx_fails q = (\<lambda>_. False) \<and> jx_present q = (\<lambda>_. True)"
  have conf: "\<not> cf_useCgroup (conf_of q) \<and> \<not> cf_useNamespace (conf_of q) \<and> cf_jailPath (conf_of q) = ''/jail''" if "?same q" for q
    using that n by (simp add: conf_of_def demo_conf_def)
  have group: "setupCgroup q = (q, Inr ())" "setupNamespaces q = (q, Inr ())" if "?same q" for q
    using conf [OF that] by (simp_all add: setupCgroup_def setupNamespaces_def)
  have fs: "setupFilesystemIsolation q = (q\<lparr>jx_cwd := ''/'', jx_root := ''/jail''\<rparr>, Inr ())" if "?same q" for q
    using that conf [OF that] by (simp add: setupFilesystemIsolation_def jail_chroot_def sys_or_def op_defs)
  have prisoner: "becomePrisoner 10001 q = (q\<lparr>jx_gids := (10001, 10001, 10001), jx_uids := (10001, 10001, 10001),
      jx_nnp := True, jx_dumpable := False\<rparr>, Inr ())" if "?same q" for q
    using that by (simp add: becomePrisoner_def sys_or_def sys_try_def sys_def op_defs)
  have limits: "\<exists>l. setLimits q = (q\<lparr>jx_limits := l\<rparr>, Inr ())" for q
    using setLimits_Inr [of q "fst (setLimits q)" "snd (setLimits q)"] by (metis prod.collapse)
  have "m_interactive demo_object = False" by (simp add: demo_object_def)
  then have exec: "jx_exec (fst (transferExecution ''vpl_execution'' q)) = Some (''/home/p10001/vpl_execution'', exec_environment demo_object) \<and>
      snd (transferExecution ''vpl_execution'' q) = Inr ()" if "?same q" for q
    using that by (simp add: transferExecution_def Let_def sys_or_def sys_try_def sys_str_def sys_def op_defs home)
  let ?p = "demo_jproc\<lparr>jx_tty := True, jx_cwd := ''/'', jx_root := ''/jail'', jx_gids := (10001, 10001, 10001),
      jx_uids := (10001, 10001, 10001), jx_nnp := True, jx_dumpable := False\<rparr>"
  obtain l where l: "setLimits ?p = (?p\<lparr>jx_limits := l\<rparr>, Inr ())" using limits by blast
  have "jail_steps ''vpl_execution'' demo_jproc = transferExecution ''vpl_execution'' (?p\<lparr>jx_limits := l\<rparr>)"
    using l by (simp add: jail_steps_def op_then_run(1) group fs prisoner sys_str_def n none)
      (simp add: op_then_def op_bind_def op_return_def split: prod.splits sum.splits)
  then have e: "jx_exec (executeInJail ''vpl_execution'' demo_jproc) = Some (''/home/p10001/vpl_execution'', exec_environment demo_object)"
    using exec [of "?p\<lparr>jx_limits := l\<rparr>"] n none by (auto simp: executeInJail_def split: prod.splits sum.splits)
  have "maxmemory (m_limits (jx_task demo_jproc)) \<le> llong_max" by (simp add: n llong_max_def)
  from exec_is_confined [OF e n(1) this] e show ?thesis by (simp add: n Let_def)
qed

theorem old_root_is_left_witness:
  "\<exists>p'. pivotRoot ''/jail'' 10001 demo_jproc = (p', Inr ()) \<and> jx_root p' = ''/jail'' \<and>
    (\<forall>m \<in> set (jx_mounts p'). \<not> isPathUnderPrefix m ''/.oldroot_p10001'')"
proof -
  have o: "''/.oldroot_p'' @ itos 10001 = ''/.oldroot_p10001''" using demo_names(1) by simp
  have ms: "jx_mounts (pivot ''/jail'' ''/.oldroot_p10001'' (bind_tree ''/jail'' demo_jproc)) =
      [''/'', ''/proc'', ''/.oldroot_p10001'', ''/.oldroot_p10001/proc'', ''/.oldroot_p10001/jail/proc'']"
    by (simp add: pivot_def bind_tree_def demo_jproc_def isPathUnderPrefix_def is_prefix_append)
  have "listMountPoints (demo_mountinfo [''/'', ''/proc'', ''/.oldroot_p10001'', ''/.oldroot_p10001/proc'', ''/.oldroot_p10001/jail/proc'']) =
      [''/'', ''/proc'', ''/.oldroot_p10001'', ''/.oldroot_p10001/proc'', ''/.oldroot_p10001/jail/proc'']"
    by code_simp
  then have k: "shows_mounts (pivot ''/jail'' (''/.oldroot_p'' @ itos 10001) (bind_tree ''/jail'' demo_jproc))"
    unfolding shows_mounts_def o ms by (simp add: pivot_def bind_tree_def demo_jproc_def)
  have none: "\<forall>c. \<not> jx_fails demo_jproc c" by (simp add: demo_jproc_def)
  from old_root_is_left [of "''/jail''", OF _ k] none show ?thesis unfolding o by blast
qed

theorem v1_group_refused_witness:
  "\<exists>p q'. cf_useCgroup (conf_of p) \<and> setupCgroup p = (q', Inl (StdExn ''Unable to attach process to memory cgroup''))"
proof -
  let ?t = "demo_object\<lparr>w_conf := demo_conf\<lparr>cf_useCgroup := True\<rparr>\<rparr>"
  let ?w = "demo_cgw\<lparr>cg_initialized := True, cg_initializedBase := ''/sys/fs/cgroup'', cg_checked := True,
     cg_checkedBase := ''/sys/fs/cgroup'', cg_cached := True\<rparr>"
  let ?p = "demo_jproc\<lparr>jx_task := ?t, jx_cg := ?w\<rparr>"
  have w: "cg_init ?w = ?w" "cg_isAvailable ?w = (?w, True)"
    by (simp_all add: cg_init_def demo_cgw_def cg_isAvailable_def Let_def)
  have "cgroup_available ?p = (?p, Inr True)"
    unfolding cgroup_available_def on_cg_def by (simp add: w(2) del: jproc.update_convs)
  then have "\<exists>q'. setupCgroup ?p = (q', Inl (StdExn ''Unable to attach process to memory cgroup''))"
    by (rule v1_group_refused [rotated])
      (simp_all add: conf_of_def demo_cgw_def cg_exists_def)
  moreover have "cf_useCgroup (conf_of ?p)" by (simp add: conf_of_def)
  ultimately show ?thesis by blast
qed

end
