(* ===== verification/Rpc.thy ===== *)
theory Rpc
  imports Json_Rpc Xml_Rpc Base64 Paths
begin

text \<open>
  The class \<open>RPC\<close>: one interface for the requests of both formats. A request is one of the two messages and each
  virtual function goes to its class. What the server relies on is stated as a locale, interpreted on both formats and on
  their sum: the maps of a request are \<open>std::map\<close>s, so a name comes once, in the order of names.
\<close>

section \<open>Maps of a request\<close>

definition is_map :: "mapstruct \<Rightarrow> bool" where
  "is_map m \<longleftrightarrow> sorted_wrt (<) (map fst m)"

lemma is_map_Nil [simp]: "is_map []"
  by (simp add: is_map_def)

lemma is_map_set: "is_map m \<Longrightarrow> is_map (ms_set m k v)"
  by (simp add: is_map_def ms_set_sorted)

lemma is_map_distinct: "is_map m \<Longrightarrow> distinct (map fst m)"
  by (simp add: is_map_def strict_sorted_iff)

lemma is_map_members: "is_map (getStructMembers n)"
proof -
  have "is_map m \<Longrightarrow> is_map (fold (\<lambda>c m. ms_set m (t_tag c) c) cs m)" for cs m
    by (induction cs arbitrary: m) (simp_all add: is_map_set)
  then show ?thesis by (simp add: getStructMembers_def)
qed

lemma is_map_xml_members: "xml_getStructMembers raw n = Inr m \<Longrightarrow> is_map m"
proof -
  have "xml_members raw cs m = Inr m' \<Longrightarrow> is_map m \<Longrightarrow> is_map m'" for cs m m'
    by (induction raw cs m rule: xml_members.induct) (auto simp: bind_result_Inr_iff is_map_set)
  then show "xml_getStructMembers raw n = Inr m \<Longrightarrow> is_map m"
    by (auto simp: xml_getStructMembers_def split: if_splits)
qed

section \<open>The interface\<close>

locale rpc_request =
  fixes method_name :: "'m \<Rightarrow> string" and data_of :: "'m \<Rightarrow> mapstruct" and files_of :: "'m \<Rightarrow> mapstruct result"
    and encoding_of :: "'m \<Rightarrow> mapstruct result" and delete_of :: "'m \<Rightarrow> mapstruct result"
    and well_formed :: "'m \<Rightarrow> bool"
  assumes data_map: "well_formed m \<Longrightarrow> is_map (data_of m)"
    and files_map: "well_formed m \<Longrightarrow> files_of m = Inr fs \<Longrightarrow> is_map fs"
    and encoding_map: "well_formed m \<Longrightarrow> encoding_of m = Inr fs \<Longrightarrow> is_map fs"
    and delete_map: "well_formed m \<Longrightarrow> delete_of m = Inr fs \<Longrightarrow> is_map fs"
    and files_needed: "ms_get (data_of m) ''files'' = None \<Longrightarrow> files_of m = Inl (UndefinedBehaviour ''null TreeNode'')"
    and delete_optional: "ms_get (data_of m) ''filestodelete'' = None \<Longrightarrow> delete_of m = Inr []"
    and encoding_optional: "ms_get (data_of m) ''fileencoding'' = None \<Longrightarrow> encoding_of m = Inr []"
begin

lemma file_once: "well_formed m \<Longrightarrow> files_of m = Inr fs \<Longrightarrow> (n, v) \<in> set fs \<Longrightarrow> (n, w) \<in> set fs \<Longrightarrow> v = w"
  using is_map_distinct [OF files_map] by (metis Some_eq_map_of_iff option.inject)

lemma file_found: "well_formed m \<Longrightarrow> files_of m = Inr fs \<Longrightarrow> ms_get fs n = Some v \<longleftrightarrow> (n, v) \<in> set fs"
  using is_map_distinct [OF files_map] by (simp add: ms_get_def Some_eq_map_of_iff)

end

text \<open>The two formats.\<close>

definition json_well_formed :: "jsonrpc_msg \<Rightarrow> bool" where "json_well_formed m \<longleftrightarrow> is_map (jm_data m)"
definition xml_well_formed :: "xmlrpc_msg \<Rightarrow> bool" where "xml_well_formed m \<longleftrightarrow> is_map (xm_data m)"

interpretation json_request: rpc_request jm_method jm_data json_getFiles "\<lambda>m. Inr (json_getFileEncoding m)"
    "\<lambda>m. Inr (json_getFileToDelete m)" json_well_formed
  by unfold_locales (auto simp: json_well_formed_def json_getFiles_def json_getFileEncoding_def json_getFileToDelete_def
    bind_result_Inr_iff ms_index_def is_map_members split: option.splits)

interpretation xml_request: rpc_request xml_getMethodName xm_data xml_getFiles xml_getFileEncoding xml_getFileToDelete
    xml_well_formed
  by unfold_locales (auto simp: xml_well_formed_def xml_getFiles_def xml_getFileEncoding_def xml_getFileToDelete_def
    bind_result_Inr_iff ms_index_def dest: is_map_xml_members split: option.splits)

section \<open>A request of either format\<close>

datatype rpc = JsonMsg jsonrpc_msg | XmlMsg xmlrpc_msg

text \<open>A text whose first byte is \<open><\<close> is XML; of an empty text the first byte is the terminating zero.\<close>

definition newRPC :: "string \<Rightarrow> rpc result" where
  "newRPC data = (if data \<noteq> [] \<and> hd data = CHR ''<''
     then bind_result (XMLRPC data) (\<lambda>m. Inr (XmlMsg m))
     else bind_result (JSONRPC data) (\<lambda>m. Inr (JsonMsg m)))"

fun rpc_getMethodName :: "rpc \<Rightarrow> string" where
  "rpc_getMethodName (JsonMsg m) = jm_method m"
| "rpc_getMethodName (XmlMsg m) = xml_getMethodName m"

fun rpc_getData :: "rpc \<Rightarrow> mapstruct" where
  "rpc_getData (JsonMsg m) = jm_data m"
| "rpc_getData (XmlMsg m) = xm_data m"

fun rpc_getFiles :: "rpc \<Rightarrow> mapstruct result" where
  "rpc_getFiles (JsonMsg m) = json_getFiles m"
| "rpc_getFiles (XmlMsg m) = xml_getFiles m"

fun rpc_getFileEncoding :: "rpc \<Rightarrow> mapstruct result" where
  "rpc_getFileEncoding (JsonMsg m) = Inr (json_getFileEncoding m)"
| "rpc_getFileEncoding (XmlMsg m) = xml_getFileEncoding m"

fun rpc_getFileToDelete :: "rpc \<Rightarrow> mapstruct result" where
  "rpc_getFileToDelete (JsonMsg m) = Inr (json_getFileToDelete m)"
| "rpc_getFileToDelete (XmlMsg m) = xml_getFileToDelete m"

text \<open>
  The value of a node, and of a parameter: \<open>parsedata["name"]->getString()\<close>. How C reads a decimal fraction,
  and how it prints a number as one, are parameters.
\<close>

record numbers =
  nm_read :: "string \<Rightarrow> int"
  nm_print :: "int \<Rightarrow> string"

fun node_string :: "rpc \<Rightarrow> tree \<Rightarrow> string result" where
  "node_string (JsonMsg m) n = json_getString (jm_raw m) n"
| "node_string (XmlMsg m) n = xml_getString (xm_raw m) n"

fun node_int :: "numbers \<Rightarrow> rpc \<Rightarrow> tree \<Rightarrow> int result" where
  "node_int nm (JsonMsg m) n = Inr (json_getInt (jm_raw m) n)"
| "node_int nm (XmlMsg m) n = xml_getInt (nm_read nm) (xm_raw m) n"

fun node_long :: "numbers \<Rightarrow> rpc \<Rightarrow> tree \<Rightarrow> int result" where
  "node_long nm (JsonMsg m) n = Inr (json_getLong (jm_raw m) n)"
| "node_long nm (XmlMsg m) n = xml_getLong (nm_read nm) (xm_raw m) n"

definition param_string :: "rpc \<Rightarrow> string \<Rightarrow> string result" where
  "param_string m k = bind_result (ms_index (rpc_getData m) k) (node_string m)"

definition param_int :: "numbers \<Rightarrow> rpc \<Rightarrow> string \<Rightarrow> int result" where
  "param_int nm m k = bind_result (ms_index (rpc_getData m) k) (node_int nm m)"

definition param_long :: "numbers \<Rightarrow> rpc \<Rightarrow> string \<Rightarrow> int result" where
  "param_long nm m k = bind_result (ms_index (rpc_getData m) k) (node_long nm m)"

text \<open>The responses.\<close>

fun rpc_availableResponse :: "numbers \<Rightarrow> rpc \<Rightarrow> string \<Rightarrow> int \<Rightarrow> int \<Rightarrow> int \<Rightarrow> int \<Rightarrow> int \<Rightarrow> int \<Rightarrow> string" where
  "rpc_availableResponse nm (JsonMsg m) = json_availableResponse (jm_id m)"
| "rpc_availableResponse nm (XmlMsg m) = xml_availableResponse (nm_print nm)"

fun rpc_requestResponse :: "numbers \<Rightarrow> rpc \<Rightarrow> string \<Rightarrow> string \<Rightarrow> string \<Rightarrow> int \<Rightarrow> int \<Rightarrow> string" where
  "rpc_requestResponse nm (JsonMsg m) = json_requestResponse (jm_id m)"
| "rpc_requestResponse nm (XmlMsg m) = xml_requestResponse (nm_print nm)"

fun rpc_directRunResponse :: "numbers \<Rightarrow> rpc \<Rightarrow> string \<Rightarrow> string \<Rightarrow> string \<Rightarrow> int \<Rightarrow> int \<Rightarrow> string" where
  "rpc_directRunResponse nm (JsonMsg m) = json_directRunResponse (jm_id m)"
| "rpc_directRunResponse nm (XmlMsg m) = xml_directRunResponse (nm_print nm)"

fun rpc_getResultResponse :: "numbers \<Rightarrow> rpc \<Rightarrow> string \<Rightarrow> string \<Rightarrow> bool \<Rightarrow> bool \<Rightarrow> string" where
  "rpc_getResultResponse nm (JsonMsg m) = json_getResultResponse (jm_id m)"
| "rpc_getResultResponse nm (XmlMsg m) = xml_getResultResponse (nm_print nm)"

fun rpc_updateResponse :: "numbers \<Rightarrow> rpc \<Rightarrow> bool \<Rightarrow> string" where
  "rpc_updateResponse nm (JsonMsg m) = json_updateResponse (jm_id m)"
| "rpc_updateResponse nm (XmlMsg m) = xml_updateResponse (nm_print nm)"

fun rpc_runningResponse :: "numbers \<Rightarrow> rpc \<Rightarrow> bool \<Rightarrow> string" where
  "rpc_runningResponse nm (JsonMsg m) = json_runningResponse (jm_id m)"
| "rpc_runningResponse nm (XmlMsg m) = xml_runningResponse (nm_print nm)"

fun rpc_stopResponse :: "numbers \<Rightarrow> rpc \<Rightarrow> string" where
  "rpc_stopResponse nm (JsonMsg m) = json_stopResponse (jm_id m)"
| "rpc_stopResponse nm (XmlMsg m) = xml_stopResponse (nm_print nm)"

section \<open>Every request that is read is well formed\<close>

fun rpc_well_formed :: "rpc \<Rightarrow> bool" where
  "rpc_well_formed (JsonMsg m) = json_well_formed m"
| "rpc_well_formed (XmlMsg m) = xml_well_formed m"

interpretation request: rpc_request rpc_getMethodName rpc_getData rpc_getFiles rpc_getFileEncoding rpc_getFileToDelete
    rpc_well_formed
proof
  fix m :: rpc and fs
  show "rpc_well_formed m \<Longrightarrow> is_map (rpc_getData m)"
    by (cases m) (simp_all add: json_request.data_map xml_request.data_map)
  show "rpc_well_formed m \<Longrightarrow> rpc_getFiles m = Inr fs \<Longrightarrow> is_map fs"
    by (cases m) (simp_all add: json_request.files_map xml_request.files_map)
  show "rpc_well_formed m \<Longrightarrow> rpc_getFileEncoding m = Inr fs \<Longrightarrow> is_map fs"
    by (cases m) (auto dest: json_request.encoding_map xml_request.encoding_map)
  show "rpc_well_formed m \<Longrightarrow> rpc_getFileToDelete m = Inr fs \<Longrightarrow> is_map fs"
    by (cases m) (auto dest: json_request.delete_map xml_request.delete_map)
  show "ms_get (rpc_getData m) ''files'' = None \<Longrightarrow> rpc_getFiles m = Inl (UndefinedBehaviour ''null TreeNode'')"
    by (cases m) (simp_all add: json_request.files_needed xml_request.files_needed)
  show "ms_get (rpc_getData m) ''filestodelete'' = None \<Longrightarrow> rpc_getFileToDelete m = Inr []"
    by (cases m) (simp_all add: xml_request.delete_optional json_getFileToDelete_def)
  show "ms_get (rpc_getData m) ''fileencoding'' = None \<Longrightarrow> rpc_getFileEncoding m = Inr []"
    by (cases m) (simp_all add: xml_request.encoding_optional json_getFileEncoding_def)
qed

lemma newRPC_well_formed: "newRPC data = Inr m \<Longrightarrow> rpc_well_formed m"
  by (auto simp: newRPC_def JSONRPC_def XMLRPC_def processRoot_def xml_processRoot_def bind_result_Inr_iff
    json_well_formed_def xml_well_formed_def is_map_members dest: is_map_xml_members split: if_splits)

end
