(* ===== verification/Jail_Commands.thy ===== *)
theory Jail_Commands
  imports Rpc Process_Monitor
begin

text \<open>
  The commands of the class \<open>Jail\<close> on a task: the request that makes one, with the job that its forked child goes through, and
  the requests and connections that name one by a ticket. Running a program is an argument of the job. Proved: whatever a
  request holds, the files it writes and deletes are in the home of its prisoner, by paths that pass the check; a request with
  a bad file name makes no task; and the limits of a task are those of the configuration, lowered by the request.
\<close>

section \<open>Checks\<close>

definition commandAvailable :: "(int \<Rightarrow> bool) \<Rightarrow> task \<Rightarrow> int \<Rightarrow> string" where
  "commandAvailable has_memory t memRequested =
     (if memRequested \<le> 0 then ''ready''
      else if fileExists t ''/etc/nologin'' then ''offline''
      else if has_memory memRequested then ''ready'' else ''busy'')"

definition checkFilesNameCorrectness :: "mapstruct \<Rightarrow> unit result" where
  "checkFilesNameCorrectness files =
     (if list_all (\<lambda>(name, n). correctPath name) files then Inr () else Inl (bad_request ''Incorrect file name''))"

definition isValidIPforRequest :: "configuration \<Rightarrow> string \<Rightarrow> bool" where
  "isValidIPforRequest conf ip \<longleftrightarrow> cf_taskOnlyFrom conf = [] \<or> list_ex (\<lambda>d. is_prefix d ip) (cf_taskOnlyFrom conf)"

text \<open>A limit of the request lowers that of the configuration.\<close>

definition lowered :: "(tree \<Rightarrow> int result) \<Rightarrow> rpc \<Rightarrow> string \<Rightarrow> int \<Rightarrow> int result" where
  "lowered value m k limit = (case ms_get (rpc_getData m) k of None \<Rightarrow> Inr limit
     | Some n \<Rightarrow> bind_result (value n) (\<lambda>v. Inr (min v limit)))"

definition getParseExecutionLimits :: "numbers \<Rightarrow> rpc \<Rightarrow> configuration \<Rightarrow> execution_limits result" where
  "getParseExecutionLimits nm m conf = (let l = cf_jailLimits conf;
       mem = (\<lambda>n. bind_result (node_long nm m n) (\<lambda>v. Inr (fixMemSize v))) in
     bind_result (lowered (node_int nm m) m ''maxtime'' (maxtime l)) (\<lambda>t.
     bind_result (lowered mem m ''maxfilesize'' (maxfilesize l)) (\<lambda>f.
     bind_result (lowered mem m ''maxmemory'' (maxmemory l)) (\<lambda>mm.
     bind_result (lowered (node_int nm m) m ''maxprocesses'' (maxprocesses l)) (\<lambda>p.
       Inr \<lparr>maxtime = t, maxfilesize = f, maxmemory = mm, maxprocesses = p\<rparr>)))))"

section \<open>Children\<close>

text \<open>
  What a child does to the files stays, the object and the credentials of the parent do not change. If no child can be made
  the parent waits for nothing and fails, and it fails when the child ends by an exception.
\<close>

definition with_object :: "task \<Rightarrow> task \<Rightarrow> task" where
  "with_object t t' = t'\<lparr>m_prisoner := m_prisoner t, m_compiler_pid := m_compiler_pid t, m_runner_pid := m_runner_pid t,
     m_monitor_pid := m_monitor_pid t, m_adminticket := m_adminticket t, m_monitorticket := m_monitorticket t,
     m_executionticket := m_executionticket t, m_httpPassthroughticket := m_httpPassthroughticket t,
     m_localwebserver := m_localwebserver t, m_interactive := m_interactive t, m_cleaning := m_cleaning t,
     m_lang := m_lang t, m_startTime := m_startTime t, m_limits := m_limits t, m_security := m_security t,
     m_processControlPath := m_processControlPath t, m_homePath := m_homePath t, w_pid := w_pid t, w_uid := w_uid t\<rparr>"

definition forked :: "string \<Rightarrow> (task, unit) op \<Rightarrow> (task, unit) op" where
  "forked failure m t = (if w_fork_fails t then (t, Inl (server_error failure))
     else case m t of (t', r) \<Rightarrow> (with_object t t', case r of Inr u \<Rightarrow> Inr () | Inl e \<Rightarrow> Inl (server_error failure)))"

definition monitor_becomePrisoner :: "(task, unit) op" where
  "monitor_becomePrisoner t =
     (if w_fails t Setid [] then
        (t, Inl (HttpExn InternalServerErrorCode ''I can't change to prisoner user'' (itos (m_prisoner t))))
      else if m_prisoner t = 0 then
        (t, Inl (HttpExn InternalServerErrorCode ''I can't change to prisoner user 2'' (itos (m_prisoner t))))
      else (t\<lparr>w_uid := m_prisoner t\<rparr>, Inr ()))"

text \<open>A file of a request: its name and its data, decoded when the request says so.\<close>

definition without_b64 :: "string \<Rightarrow> string" where
  "without_b64 name = (if length name > 4 \<and> drop (length name - 4) name = ''.b64'' then take (length name - 4) name else name)"

definition file_to_write :: "numbers \<Rightarrow> rpc \<Rightarrow> mapstruct \<Rightarrow> string \<Rightarrow> tree \<Rightarrow> (string \<times> string) result" where
  "file_to_write nm m encoding name n = bind_result (node_string m n) (\<lambda>data.
     case ms_get encoding name of
       None \<Rightarrow> Inr (name, data)
     | Some e \<Rightarrow> bind_result (node_int nm m e) (\<lambda>i. if i = 1
         then bind_result (base64_decode data) (\<lambda>data. Inr (without_b64 name, data))
         else Inr (name, data)))"

definition save_file :: "numbers \<Rightarrow> rpc \<Rightarrow> mapstruct \<Rightarrow> string \<times> tree \<Rightarrow> (task, unit) op" where
  "save_file nm m encoding f = (case f of (name, n) \<Rightarrow>
     op_bind (op_lift (file_to_write nm m encoding name n)) (\<lambda>(name, data). home_writeFile name data))"

definition saveParseFiles :: "numbers \<Rightarrow> rpc \<Rightarrow> (task, unit) op" where
  "saveParseFiles nm m = forked ''Error saving files'' (op_then monitor_becomePrisoner
     (op_bind (op_lift (rpc_getFiles m)) (\<lambda>files.
      op_bind (op_lift (rpc_getFileEncoding m)) (\<lambda>encoding.
      op_each (save_file nm m encoding) files))))"

definition delete_file_of :: "mapstruct \<Rightarrow> string \<times> tree \<Rightarrow> (task, unit) op" where
  "delete_file_of files f = (case f of (name, n) \<Rightarrow>
     if ms_get files name = None then op_return () else op_modify (home_deleteFile name))"

definition deleteFilesMarkedForDeletion :: "rpc \<Rightarrow> (task, unit) op" where
  "deleteFilesMarkedForDeletion m = forked ''Error deleting files'' (op_then monitor_becomePrisoner
     (op_bind (op_lift (rpc_getFileToDelete m)) (\<lambda>filestodelete.
      op_bind (op_lift (rpc_getFiles m)) (\<lambda>files.
      op_each (delete_file_of files) filestodelete))))"

section \<open>Requests that make a task\<close>

text \<open>
  The part of the parent: names are checked, the task is made, a child is forked for the job. What \<open>fork\<close> returns is not
  looked at: without a child the tickets are returned all the same.
\<close>

definition check_request :: "rpc \<Rightarrow> unit result" where
  "check_request m = bind_result (rpc_getFiles m) (\<lambda>files. bind_result (checkFilesNameCorrectness files) (\<lambda>_.
     bind_result (rpc_getFileToDelete m) checkFilesNameCorrectness))"

definition commandRequest :: "nat \<Rightarrow> rpc \<Rightarrow> task \<Rightarrow> (task \<times> (string \<times> string \<times> string) result) option" where
  "commandRequest fuel m t = (case check_request m of
     Inl e \<Rightarrow> Some (t, Inl e) | Inr u \<Rightarrow> processMonitor3 fuel t)"

definition commandDirectRun :: "nat \<Rightarrow> rpc \<Rightarrow> task \<Rightarrow> (task \<times> (string \<times> string \<times> string) result) option" where
  "commandDirectRun fuel m t = (case check_request m of
     Inl e \<Rightarrow> Some (t, Inl e)
   | Inr u \<Rightarrow> map_option (\<lambda>(t, r). (t, bind_result r (\<lambda>(admin, execution). Inr (getRelativeHomePath t, admin, execution))))
       (processMonitor2 fuel t))"

text \<open>The job of the child. \<open>run script\<close> runs a program of the home in the jail and returns what it printed.\<close>

type_synonym runner = "string \<Rightarrow> (task, string) op"

definition job_files_and_compile :: "numbers \<Rightarrow> rpc \<Rightarrow> runner \<Rightarrow> bool result \<Rightarrow> (task, string \<times> bool) op" where
  "job_files_and_compile nm m run is_interactive = op_then (saveParseFiles nm m)
     (op_bind (op_lift (param_string m ''lang'')) (\<lambda>lang.
      op_bind (op_lift is_interactive) (\<lambda>interactive.
      op_then (\<lambda>t. setExtraInfo (cf_jailLimits (w_conf t)) interactive lang t)
     (op_then setCompiler
     (op_bind (op_lift (param_string m ''execute'')) (\<lambda>script.
      op_bind (run script) (\<lambda>compilationOutput.
      op_then (setCompilationOutput compilationOutput) (op_return (lang, interactive)))))))))"

definition job_limits :: "numbers \<Rightarrow> rpc \<Rightarrow> string \<times> bool \<Rightarrow> (task, unit) op" where
  "job_limits nm m li = op_then (deleteFilesMarkedForDeletion m)
     (op_bind (\<lambda>t. (t, getParseExecutionLimits nm m (w_conf t))) (\<lambda>limits. setExtraInfo limits (snd li) (fst li)))"

definition install_launcher :: "string \<Rightarrow> string \<Rightarrow> (task, string) op" where
  "install_launcher script program = op_bind (installScript ''.vpl_launcher.sh'' script) (\<lambda>ok.
     op_return (if ok then ''.vpl_launcher.sh'' else program))"

definition batch_run :: "runner \<Rightarrow> (task, unit) op" where
  "batch_run run = op_then setRunner
     (op_bind (install_launcher ''vpl_batch_launcher.sh'' ''vpl_execution'') (\<lambda>program.
      op_bind (run program) (\<lambda>out. setExecutionOutput out True)))"

fun wait_monitor :: "nat \<Rightarrow> (task, unit) op" where
  "wait_monitor n = op_bind isMonitored (\<lambda>monitored.
     if monitored then op_return ()
     else (case n of 0 \<Rightarrow> op_return () | Suc n \<Rightarrow> op_then (op_modify nap) (wait_monitor n)))"

declare wait_monitor.simps [simp del]

definition request_job :: "numbers \<Rightarrow> rpc \<Rightarrow> runner \<Rightarrow> (task, unit) op" where
  "request_job nm m run = op_bind
     (job_files_and_compile nm m run (bind_result (param_int nm m ''interactive'') (\<lambda>i. Inr (i > 0)))) (\<lambda>li t.
       if FileExists t ''vpl_execution'' \<or> FileExists t ''vpl_wexecution'' \<or> FileExists t ''vpl_webexecution''
       then op_then (job_limits nm m li)
         (op_when (\<lambda>t. \<not> snd li \<and> FileExists t ''vpl_execution'') (batch_run run)) t
       else wait_monitor 30 t)"

definition directrun_job :: "numbers \<Rightarrow> rpc \<Rightarrow> runner \<Rightarrow> (task, unit) op" where
  "directrun_job nm m run = op_bind (job_files_and_compile nm m run (Inr True)) (\<lambda>li.
     op_when (\<lambda>t. FileExists t ''vpl_execution'') (job_limits nm m li))"

section \<open>Requests that name a task\<close>

definition commandGetResult :: "string \<Rightarrow> (task, string \<times> string \<times> bool \<times> bool) op" where
  "commandGetResult adminticket = op_then (processMonitor1 adminticket)
     (op_bind getResult (\<lambda>(compilation, execution, executed) t.
        (t, Inr (compilation, execution, executed, m_interactive t))))"

definition commandUpdate :: "numbers \<Rightarrow> rpc \<Rightarrow> string \<Rightarrow> (task, bool) op" where
  "commandUpdate nm m adminticket =
     op_bind (op_lift (bind_result (rpc_getFiles m) checkFilesNameCorrectness)) (\<lambda>_.
     op_then (processMonitor1 adminticket)
       (op_catch (op_then (saveParseFiles nm m) (op_then (deleteFilesMarkedForDeletion m) (op_return True)))
          (\<lambda>e. op_return False)))"

definition commandRunning :: "string \<Rightarrow> (task, bool) op" where
  "commandRunning adminticket = op_catch (op_then (processMonitor1 adminticket)
     (op_bind isRunning (\<lambda>running. if running then op_return True
        else op_then (op_modify cleanTask) (op_return False)))) (\<lambda>e. op_return False)"

text \<open>The task is cleaned by a child; without one, not at all.\<close>

definition commandStop :: "string \<Rightarrow> (task, unit) op" where
  "commandStop adminticket = op_catch (op_then (processMonitor1 adminticket)
     (op_modify (\<lambda>t. if w_fork_fails t then t else with_object t (cleanTask t)))) (\<lambda>e. op_return ())"

section \<open>Tickets in URLs and cookies\<close>

definition not_slash :: "char \<Rightarrow> bool" where
  "not_slash c \<longleftrightarrow> c \<noteq> backslash \<and> c \<noteq> CHR ''/''"

definition regPassthroughTicket :: vplregex where
  "regPassthroughTicket = vplregex_extended (seqs [Bol, Lit ''/'', Grp 1 (Plus (Cls not_slash)), Lit ''/httpPassthrough'', Eol])"

definition isRequestingCookie :: "string \<Rightarrow> string option" where
  "isRequestingCookie URLPath = (case vplregex_search regPassthroughTicket URLPath 3 of
     None \<Rightarrow> None | Some match \<Rightarrow> Some (match ! 1))"

definition regWebSocketPath :: vplregex where
  "regWebSocketPath = vplregex_extended (seqs [Bol, Lit ''/'', Grp 1 (Plus (Cls not_slash)), Lit ''/'', Grp 2 (Plus AnyChar), Eol])"

definition regChallenge :: vplregex where
  "regChallenge = vplregex_extended (seqs [Bol, Lit ''/.well-known/acme-challenge/'', Grp 1 (Star (Cls not_slash)), Eol])"

text \<open>Whether the ticket is for passing requests through to a running task.\<close>

definition passthrough_allowed :: "string \<Rightarrow> (task, bool) op" where
  "passthrough_allowed ticket = op_then (processMonitor1 ticket)
     (op_bind getState (\<lambda>state t. (t, Inr (state = running \<and> m_security t = sec_httppassthrough))))"

definition page_ok :: string where
  "page_ok = ''<!DOCTYPE html><html><body><h1>OK</h1></body></html>''"

definition page_robots :: string where
  "page_robots = ''User-agent: *'' @ [lf] @ ''Disallow: /'' @ [lf]"

definition page_icon :: string where
  "page_icon = (let q = (\<lambda>s. [dquote] @ s @ [dquote]) in
     ''<svg viewBox='' @ q ''0 0 25 14'' @ '' xmlns='' @ q ''http://www.w3.org/2000/svg'' @ ''>'' @
     ''<style> .logo { font: bold 12px Arial Rounded MT,Arial,Helvetica;'' @
     ''fill: #277ab0; stroke: black; stroke-width: 0.7px;} </style>'' @
     ''<text x='' @ q ''0'' @ '' y='' @ q ''12'' @ '' class='' @ q ''logo'' @ ''>VPL</text></svg>'')"

definition predefinedURLResponse :: "task \<Rightarrow> string \<Rightarrow> string" where
  "predefinedURLResponse t URLPath = (let certbot = cf_certbotWebrootPath (w_conf t) in
     if toUppercase URLPath = ''/OK'' then page_ok
     else if URLPath = ''/robots.txt'' then page_robots
     else if URLPath = ''/favicon.ico'' then page_icon
     else if certbot \<noteq> [] \<and> vplregex_search regChallenge URLPath 2 \<noteq> None \<and> fileExists t (certbot @ URLPath) then
       (case read_file (certbot @ URLPath) False t of (t, Inr text) \<Rightarrow> text | (t, Inl e) \<Rightarrow> [])
     else [])"

section \<open>Files are written and deleted only in the home\<close>

text \<open>A file of the home by a path that passes the check; what is left as it was besides them.\<close>

definition home_file :: "string \<Rightarrow> string \<Rightarrow> bool" where
  "home_file home f \<longleftrightarrow> (\<exists>name. f = cpath home name) \<and> correctPath f"

definition only_home :: "task \<Rightarrow> task \<Rightarrow> bool" where
  "only_home t s \<longleftrightarrow> getHomePath s = getHomePath t \<and> w_conf s = w_conf t \<and>
     (\<forall>f. \<not> home_file (getHomePath t) f \<longrightarrow> map_of (w_files s) f = map_of (w_files t) f)"

lemma only_home_refl: "only_home t t"
  by (simp add: only_home_def)

lemma home_of_files [simp]:
  "getHomePath (t\<lparr>w_files := fs\<rparr>) = getHomePath t" "getHomePath (t\<lparr>w_dirs := ds\<rparr>) = getHomePath t"
  "getHomePath (t\<lparr>w_uid := u\<rparr>) = getHomePath t" "getHomePath (put_file n d t) = getHomePath t" "getHomePath (drop_file n t) = getHomePath t"
  by (simp_all add: getHomePath_def jailPath_def getRelativeHomePath_def getPrisonerName_def put_file_def drop_file_def)

lemma only_home_put: "only_home t s \<Longrightarrow> home_file (getHomePath t) n \<Longrightarrow> only_home t (put_file n d s)"
  by (auto simp: only_home_def put_file_def update_conv')

lemma only_home_drop: "only_home t s \<Longrightarrow> home_file (getHomePath t) n \<Longrightarrow> only_home t (drop_file n s)"
  by (auto simp: only_home_def drop_file_def delete_conv')

lemma only_home_dirs: "only_home t (s\<lparr>w_dirs := ds\<rparr>) = only_home t s"
  by (simp add: only_home_def)

lemma only_home_write: "op_keeps (only_home t) (home_writeFile name data)"
proof -
  have "only_home t (fst (write_file n d s))" if s: "only_home t s" and n: "n = cpath (getHomePath s) name" for n d s
  proof (cases "correctPath n")
    case False
    then show ?thesis using s by (simp add: write_file_def)
  next
    case True
    have home: "home_file (getHomePath t) n" using s n True unfolding only_home_def home_file_def by auto
    let ?s = "if getDirectory n \<noteq> [] \<and> \<not> dirExists s (getDirectory n) then s\<lparr>w_dirs := parents_of n @ w_dirs s\<rparr> else s"
    have "only_home t ?s" using s only_home_dirs by simp
    then have "only_home t (put_file n x ?s)" for x using home only_home_put by blast
    then show ?thesis using True \<open>only_home t ?s\<close> by (simp add: write_file_def Let_def)
  qed
  then show ?thesis by (simp add: op_keeps_def home_writeFile_def)
qed

lemma only_home_delete: "only_home t s \<Longrightarrow> only_home t (home_deleteFile name s)"
  unfolding home_deleteFile_def delete_file_def using only_home_drop [of t s]
  by (auto simp: home_file_def only_home_def)

lemma only_home_prisoner: "op_keeps (only_home t) monitor_becomePrisoner"
  by (auto simp: op_keeps_def monitor_becomePrisoner_def only_home_def)

lemma only_home_save: "op_keeps (only_home t) (save_file nm m encoding f)"
proof -
  have "op_keeps (only_home t) (case nd of (name, data) \<Rightarrow> home_writeFile name data)" for nd
    by (cases nd) (simp add: only_home_write)
  then show ?thesis by (cases f) (simp add: save_file_def op_keep)
qed

lemma only_home_delete_of: "op_keeps (only_home t) (delete_file_of files f)"
  by (cases f) (simp add: delete_file_of_def op_keep only_home_delete)

lemma with_object_files [simp]: "w_files (with_object t t') = w_files t'"
  by (simp add: with_object_def)

lemma only_home_forked:
  assumes k: "op_keeps (only_home t) m"
  shows "only_home t (fst (forked failure m t))"
proof -
  have k: "only_home t (fst (m t))" using k only_home_refl unfolding op_keeps_def by blast
  then have "getHomePath (with_object t (fst (m t))) = getHomePath t"
    by (simp add: only_home_def with_object_def getHomePath_def jailPath_def getRelativeHomePath_def getPrisonerName_def)
  then have "only_home t (with_object t (fst (m t)))"
    using k by (simp add: only_home_def with_object_def)
  then show ?thesis using only_home_refl by (cases "m t") (simp add: forked_def)
qed

lemma only_home_saves: "only_home t (fst (saveParseFiles nm m t))"
  unfolding saveParseFiles_def
  by (intro only_home_forked op_keeps_then op_keeps_bind only_home_prisoner op_keeps_basic op_keeps_each only_home_save)

lemma only_home_deletes: "only_home t (fst (deleteFilesMarkedForDeletion m t))"
  unfolding deleteFilesMarkedForDeletion_def
  by (intro only_home_forked op_keeps_then op_keeps_bind only_home_prisoner op_keeps_basic op_keeps_each only_home_delete_of)

lemma object_kept:
  "m_prisoner (fst (forked failure c t)) = m_prisoner t" "w_uid (fst (forked failure c t)) = w_uid t"
  "m_security (fst (forked failure c t)) = m_security t" "m_processControlPath (fst (forked failure c t)) = m_processControlPath t"
  by (simp_all add: forked_def with_object_def split: prod.splits)

text \<open>
  C8: whatever a request holds, in whatever format, its files are written and deleted in the home of the prisoner of the task
  only, by paths that pass the check of the server; the object and the credentials of the server's process are as before.
\<close>

theorem request_writes_in_home:
  "{f. map_of (w_files (fst (saveParseFiles nm m t))) f \<noteq> map_of (w_files t) f} \<subseteq> {f. home_file (getHomePath t) f} \<and>
   {f. map_of (w_files (fst (deleteFilesMarkedForDeletion m t))) f \<noteq> map_of (w_files t) f} \<subseteq> {f. home_file (getHomePath t) f} \<and>
   m_prisoner (fst (saveParseFiles nm m t)) = m_prisoner t \<and> w_uid (fst (saveParseFiles nm m t)) = w_uid t"
  using only_home_saves [of t nm m] only_home_deletes [of t m]
  by (auto simp: only_home_def saveParseFiles_def object_kept(1,2))

section \<open>What is written is what the request holds\<close>

lemma write_file_Inr:
  "write_file n d s = (s', Inr ()) \<Longrightarrow> map_of (w_files s') = (map_of (w_files s))(n \<mapsto> d) \<and> getHomePath s' = getHomePath s"
  by (auto simp: write_file_def Let_def put_file_def update_conv' split: if_splits)

definition written :: "string \<Rightarrow> string \<Rightarrow> string" where
  "written name data = (if home_script name then removeCRs data else data)"

lemma save_plain:
  assumes "save_file nm m [] (name, n) s = (s', Inr ())"
  shows "\<exists>data. node_string m n = Inr data \<and> getHomePath s' = getHomePath s \<and>
    map_of (w_files s') = (map_of (w_files s))(cpath (getHomePath s) name \<mapsto> written name data)"
proof -
  from assms obtain t nd where 1: "op_lift (file_to_write nm m [] name n) s = (t, Inr nd)"
      "(case nd of (name, data) \<Rightarrow> home_writeFile name data) t = (s', Inr ())"
    unfolding save_file_def prod.case by (blast dest: op_bind_InrD)
  then obtain data where d: "node_string m n = Inr data" "nd = (name, data)" "t = s"
    by (auto simp: op_lift_run file_to_write_def ms_get_def bind_result_Inr_iff)
  from 1(2) d(2,3) show ?thesis
    using write_file_Inr [of "cpath (getHomePath s) name" "written name data" s s'] d(1)
    by (auto simp: home_writeFile_def written_def)
qed

lemma home_path_inj [simp]: "cpath home a = cpath home b \<longleftrightarrow> a = b"
  by (simp add: cpath_def)

lemma save_all_plain:
  assumes "op_each (save_file nm m []) fs s = (s', Inr ())" "distinct (map fst fs)" "(name, n) \<in> set fs"
  shows "\<exists>data. node_string m n = Inr data \<and> map_of (w_files s') (cpath (getHomePath s) name) = Some (written name data)"
proof -
  have keep: "op_each (save_file nm m []) fs s = (s', Inr ()) \<Longrightarrow> name \<notin> fst ` set fs \<Longrightarrow>
      map_of (w_files s') (cpath (getHomePath s) name) = map_of (w_files s) (cpath (getHomePath s) name)" for fs s
  proof (induction fs arbitrary: s)
    case Nil
    then show ?case by (simp add: op_each_def op_return_run)
  next
    case (Cons f fs)
    obtain k v where f: "f = (k, v)" by force
    from Cons.prems(1) obtain s1 where s1: "save_file nm m [] (k, v) s = (s1, Inr ())"
        "op_each (save_file nm m []) fs s1 = (s', Inr ())"
      unfolding op_each_def list.map op_all.simps f by (auto dest!: op_then_InrD)
    from save_plain [OF s1(1)] obtain d where d: "getHomePath s1 = getHomePath s"
        "map_of (w_files s1) = (map_of (w_files s))(cpath (getHomePath s) k \<mapsto> written k d)" by blast
    from Cons.IH [OF s1(2)] Cons.prems(2) d f show ?case by simp
  qed
  show ?thesis using assms
  proof (induction fs arbitrary: s)
    case (Cons f fs)
    obtain k v where f: "f = (k, v)" by force
    from Cons.prems(1) obtain s1 where s1: "save_file nm m [] (k, v) s = (s1, Inr ())"
        "op_each (save_file nm m []) fs s1 = (s', Inr ())"
      unfolding op_each_def list.map op_all.simps f by (auto dest!: op_then_InrD)
    from save_plain [OF s1(1)] obtain d where d: "node_string m v = Inr d" "getHomePath s1 = getHomePath s"
        "map_of (w_files s1) = (map_of (w_files s))(cpath (getHomePath s) k \<mapsto> written k d)" by blast
    show ?case
    proof (cases "(name, n) = f")
      case True
      then have "name \<notin> fst ` set fs" "name = k" "n = v" using Cons.prems(2) f by auto
      with keep [OF s1(2)] d show ?thesis by simp
    next
      case False
      then have "(name, n) \<in> set fs" using Cons.prems(3) by simp
      then show ?thesis using Cons.IH [OF s1(2)] Cons.prems(2) d(2) by simp
    qed
  qed simp
qed

text \<open>Of a request that marks no file as encoded.\<close>

lemma plain_files_saved:
  assumes r: "is_map files" "rpc_getFileEncoding m = Inr []" "rpc_getFiles m = Inr files"
    and saved: "saveParseFiles nm m t = (t', Inr ())" and f: "(name, n) \<in> set files"
  shows "\<exists>text. node_string m n = Inr text \<and> map_of (w_files t') (cpath (getHomePath t) name) = Some (written name text)"
proof -
  have dist: "distinct (map fst files)" by (rule is_map_distinct [OF r(1)])
  let ?child = "op_then monitor_becomePrisoner (op_bind (op_lift (rpc_getFiles m)) (\<lambda>files.
      op_bind (op_lift (rpc_getFileEncoding m)) (\<lambda>encoding. op_each (save_file nm m encoding) files)))"
  obtain s where s: "?child t = (s, Inr ())" "t' = with_object t s"
    using saved unfolding saveParseFiles_def forked_def by (auto split: if_splits prod.splits sum.splits)
  then obtain p where p: "monitor_becomePrisoner t = (p, Inr ())" "op_each (save_file nm m []) files p = (s, Inr ())"
    using r(2,3) by (auto simp: op_then_def op_bind_def op_lift_run split: prod.splits sum.splits)
  then have "getHomePath p = getHomePath t" by (auto simp: monitor_becomePrisoner_def split: if_splits)
  with save_all_plain [OF p(2) dist f] s(2) show ?thesis by simp
qed

text \<open>A request as a client prints it, with files.\<close>

definition files_value :: "(string \<times> string) list \<Rightarrow> jval" where
  "files_value fs = JObj (map (\<lambda>(name, content). (name, JStr content)) fs)"

lemma files_value_read:
  assumes "distinct (map fst params)" "distinct (map fst fs)" "map_of params ''files'' = Some (files_value fs)"
    "map_of params ''fileencoding'' = None"
  obtains m n where "newRPC (show_json (request_value method rid params)) = Inr (JsonMsg m)" "json_getFileEncoding m = []"
    "json_getFiles m = Inr (getStructMembers n)" "represents (jm_raw m) n (files_value fs)"
    "\<And>name content. map_of fs name = Some content \<Longrightarrow> \<exists>c. (name, c) \<in> set (getStructMembers n) \<and> json_getString (jm_raw m) c = Inr content"
proof -
  obtain m where m: "JSONRPC (show_json (request_value method rid params)) = Inr m"
      "\<forall>k. case map_of params k of None \<Rightarrow> ms_get (jm_data m) k = None
       | Some v \<Rightarrow> \<exists>n. ms_get (jm_data m) k = Some n \<and> represents (jm_raw m) n v"
    using jsonrpc_request_read [OF assms(1), of "method" rid] by blast
  obtain n where n: "ms_get (jm_data m) ''files'' = Some n" "represents (jm_raw m) n (files_value fs)"
    using m(2) [THEN spec, of "''files''"] unfolding assms(3) option.case by blast
  have e: "ms_get (jm_data m) ''fileencoding'' = None"
    using m(2) [THEN spec, of "''fileencoding''"] unfolding assms(4) option.case .
  have d: "distinct (map fst (map (\<lambda>(name, content). (name, JStr content)) fs))"
    using assms(2) by (simp add: case_prod_beta' comp_def)
  have mo: "map_of (map (\<lambda>(name, content). (name, JStr content)) fs) name = map_option JStr (map_of fs name)" for name
    by (induction fs) auto
  show thesis
  proof (rule that [of m n])
    show "newRPC (show_json (request_value method rid params)) = Inr (JsonMsg m)"
      using m(1) by (simp add: newRPC_def request_value_def char_names)
    show "json_getFileEncoding m = []" using e by (simp add: json_getFileEncoding_def)
    show "json_getFiles m = Inr (getStructMembers n)"
      using n(1) by (simp add: json_getFiles_def ms_index_def)
    fix name content assume "map_of fs name = Some content"
    then obtain c where c: "ms_get (getStructMembers n) name = Some c" "represents (jm_raw m) c (JStr content)"
      using members_represent(1) [OF n(2) [unfolded files_value_def] d, of name "JStr content"] mo by auto
    then show "\<exists>c. (name, c) \<in> set (getStructMembers n) \<and> json_getString (jm_raw m) c = Inr content"
      by (auto simp: ms_get_def dest: map_of_SomeD)
  qed (fact n(2))
qed

text \<open>
  C16: a request printed as JSON is read, and once its files have been saved, for whatever task, each file of the request is
  in the home of the task, under its name, with its text, shell scripts without carriage returns.
\<close>

theorem uploaded_files_saved:
  assumes "distinct (map fst params)" "distinct (map fst fs)" "map_of params ''files'' = Some (files_value fs)"
    "map_of params ''fileencoding'' = None"
  shows "\<exists>m. newRPC (show_json (request_value method rid params)) = Inr m \<and>
    (\<forall>t t' name content. saveParseFiles nm m t = (t', Inr ()) \<longrightarrow> map_of fs name = Some content \<longrightarrow>
       map_of (w_files t') (cpath (getHomePath t) name) = Some (written name content))"
proof -
  obtain m n where m: "newRPC (show_json (request_value method rid params)) = Inr (JsonMsg m)" "json_getFileEncoding m = []"
    "json_getFiles m = Inr (getStructMembers n)" "represents (jm_raw m) n (files_value fs)"
    and f: "\<And>name content. map_of fs name = Some content \<Longrightarrow>
      \<exists>c. (name, c) \<in> set (getStructMembers n) \<and> json_getString (jm_raw m) c = Inr content"
    using files_value_read [OF assms, of "method" rid] by blast
  have "map_of (w_files t') (cpath (getHomePath t) name) = Some (written name content)"
    if saved: "saveParseFiles nm (JsonMsg m) t = (t', Inr ())" and fs: "map_of fs name = Some content" for t t' name content
  proof -
    obtain c where c: "(name, c) \<in> set (getStructMembers n)" "json_getString (jm_raw m) c = Inr content" using f [OF fs] by blast
    have e: "rpc_getFileEncoding (JsonMsg m) = Inr []" "rpc_getFiles (JsonMsg m) = Inr (getStructMembers n)" using m by simp_all
    from plain_files_saved [OF is_map_members e saved c(1)] c(2) show ?thesis by simp
  qed
  with m(1) show ?thesis by blast
qed

end
