(* ===== verification/Jail_Process.thy ===== *)
theory Jail_Process
  imports Jail_Commands Http_Server Web_Socket
begin

text \<open>
  \<open>Jail::process\<close>: one connection, from its headers to the status its process ends with. The state is the connection and the
  task that its request makes or names. What becomes of a connection that is a websocket, or is passed through to a program, is
  an argument. Proved: a connection that is answered is answered once, whatever it sends; an address that is not allowed, or a
  wrong path, never reaches a command; and the status of the security check of a cookie is lost.
\<close>

section \<open>The connection\<close>

record session =
  se_http :: http
  se_task :: task
  se_ip :: string
  se_secure :: bool

text \<open>What the process is built with or finds: its version, how C reads and prints numbers, the memory there is.\<close>

record build =
  bd_version :: string
  bd_numbers :: numbers
  bd_memory :: "int \<Rightarrow> bool"
  bd_fuel :: nat

definition on_http :: "(http, 'a) net \<Rightarrow> (session, 'a) net" where
  "on_http = on_part se_http (\<lambda>h s. s\<lparr>se_http := h\<rparr>)"

definition on_task :: "(task, 'a) op \<Rightarrow> (session, 'a) net" where
  "on_task m s rs = (case m (se_task s) of (t, r) \<Rightarrow> Some ((s\<lparr>se_task := t\<rparr>, r), rs))"

definition on_task_fuel :: "(task \<Rightarrow> (task \<times> 'a result) option) \<Rightarrow> (session, 'a) net" where
  "on_task_fuel m s rs = (case m (se_task s) of None \<Rightarrow> None | Some (t, r) \<Rightarrow> Some ((s\<lparr>se_task := t\<rparr>, r), rs))"

definition se_sock :: "session \<Rightarrow> sock" where "se_sock s = h_socket (se_http s)"
definition se_conf :: "session \<Rightarrow> configuration" where "se_conf s = w_conf (se_task s)"

definition answer200 :: "build \<Rightarrow> string \<Rightarrow> bool \<Rightarrow> string \<Rightarrow> (session, unit) net" where
  "answer200 b response headMethod extra = net_bind (net_get se_conf) (\<lambda>conf.
     on_http (send200 (bd_version b) conf response headMethod extra))"

definition answer_code :: "build \<Rightarrow> code_number \<Rightarrow> string \<Rightarrow> (session, unit) net" where
  "answer_code b code t = net_bind (net_get se_conf) (\<lambda>conf. on_http (sendCode (bd_version b) conf code t))"

datatype exit_status = ExitSuccess | ExitInternalError | ExitNeutral | ExitHttpError | ExitWebsocketError

text \<open>Where the process goes on after the request has been understood.\<close>

record handlers =
  hd_monitor :: "string \<Rightarrow> (session, unit) net"
  hd_execute :: "string \<Rightarrow> (session, unit) net"
  hd_passthrough :: "(session, unit) net"

section \<open>GET and HEAD\<close>

definition VPL_SETWEBCOOKIE :: string where "VPL_SETWEBCOOKIE = ''Set-Cookie: VPL_web=''"
definition VPL_LOCALREDIRECT :: string where "VPL_LOCALREDIRECT = ''Location: /'' @ crlf"
definition commandSetPassthroughCookie :: "build \<Rightarrow> string \<Rightarrow> (session, bool) net" where
  "commandSetPassthroughCookie b ticket =
     net_bind (on_task (op_catch (passthrough_allowed ticket) (\<lambda>e. op_return False))) (\<lambda>ok.
       if \<not> ok then net_return False
       else net_bind (net_get se_conf) (\<lambda>conf. net_then
         (on_http (http_send (bd_version b) conf 302 ''REDIRECT'' [] False
            (VPL_SETWEBCOOKIE @ ticket @ ''; Path=/'' @ crlf @ VPL_LOCALREDIRECT)))
         (net_return True)))"

definition httpPassthrough :: "handlers \<Rightarrow> string \<Rightarrow> (session, bool) net" where
  "httpPassthrough hs ticket = net_catch
     (net_bind (on_task (passthrough_allowed ticket)) (\<lambda>ok.
        if ok then net_then (hd_passthrough hs) (net_return True) else net_return False))
     (\<lambda>e. net_return False)"

definition page_private :: string where
  "page_private = ''<html><body><h1>Please, to access web applications use a new Private or Incognito window.</h1></body></html>''"

definition cookie_request :: "build \<Rightarrow> string \<Rightarrow> (session, string \<times> exit_status) net" where
  "cookie_request b ticket s =
     (if getCookie (se_sock s) ''VPL_Iwh'' \<noteq> [] \<and> sk_queryString (se_sock s) = ''private''
      then net_return (page_private, ExitNeutral) s
      else net_bind (commandSetPassthroughCookie b ticket) (\<lambda>ok.
        net_return ([], if ok then ExitNeutral else ExitHttpError)) s)"

definition predefined_page :: "session \<Rightarrow> string" where
  "predefined_page s = predefinedURLResponse (se_task s) (sk_URLPath (se_sock s))"

definition process_get :: "build \<Rightarrow> (session, exit_status) net" where
  "process_get b s = net_bind (case isRequestingCookie (sk_URLPath (se_sock s)) of
        Some ticket \<Rightarrow> cookie_request b ticket
      | None \<Rightarrow> net_return ([], ExitNeutral)) (\<lambda>(response, status) s.
      let response = (if response = [] then predefined_page s else response) in
      if response = [] then net_throw (HttpExn NotFoundCode ''HTTP GET: URL path not found'' []) s
      else net_then (answer200 b response False VPL_SETIWASHERECOOKIE) (net_return status) s) s"

definition process_head :: "build \<Rightarrow> (session, exit_status) net" where
  "process_head b s = (let response = predefined_page s in
     if response = []
     then net_throw (HttpExn NotFoundCode (''HTTP HEAD: URL path not found '' @ [CHR 0x27] @ sk_URLPath (se_sock s) @ [CHR 0x27]) []) s
     else net_then (answer200 b response True []) (net_return ExitNeutral) s)"

section \<open>Commands\<close>

definition do_available :: "build \<Rightarrow> rpc \<Rightarrow> (session, unit) net" where
  "do_available b m s = net_bind (net_lift (param_long (bd_numbers b) m ''maxmemory'')) (\<lambda>mem s.
     let conf = se_conf s; l = cf_jailLimits conf; mem = (if mem > 0 then mem else maxmemory l);
         status = commandAvailable (bd_memory b) (se_task s) mem in
     answer200 b (rpc_availableResponse (bd_numbers b) m status (int (requestsInProgress (se_task s)))
       (maxtime l) (maxfilesize l) (maxmemory l) (maxprocesses l) (cf_sport conf)) False [] s) s"

definition do_request :: "build \<Rightarrow> rpc \<Rightarrow> (session, unit) net" where
  "do_request b m = net_bind (on_task_fuel (commandRequest (bd_fuel b) m)) (\<lambda>(admin, monitor, execution).
     net_bind (net_get se_conf) (\<lambda>conf.
       answer200 b (rpc_requestResponse (bd_numbers b) m admin monitor execution (cf_port conf) (cf_sport conf)) False []))"

definition do_directrun :: "build \<Rightarrow> rpc \<Rightarrow> (session, unit) net" where
  "do_directrun b m = net_bind (on_task_fuel (commandDirectRun (bd_fuel b) m)) (\<lambda>(homepath, admin, execution).
     net_bind (net_get se_conf) (\<lambda>conf.
       answer200 b (rpc_directRunResponse (bd_numbers b) m homepath admin execution (cf_port conf) (cf_sport conf)) False []))"

definition do_getresult :: "build \<Rightarrow> rpc \<Rightarrow> (session, unit) net" where
  "do_getresult b m = net_bind (net_lift (param_string m ''adminticket'')) (\<lambda>ticket.
     net_bind (on_task (commandGetResult ticket)) (\<lambda>(compilation, execution, executed, interactive).
       answer200 b (rpc_getResultResponse (bd_numbers b) m compilation execution executed interactive) False []))"

text \<open>A client before version 2.3 expects an error for a task that does not run.\<close>

definition do_running :: "build \<Rightarrow> rpc \<Rightarrow> (session, unit) net" where
  "do_running b m = net_bind (net_lift (param_string m ''adminticket'')) (\<lambda>ticket.
     net_bind (on_task (commandRunning ticket)) (\<lambda>running.
       if \<not> running \<and> ms_get (rpc_getData m) ''pluginversion'' = None then net_throw (StringExn ''Ticket invalid'')
       else answer200 b (rpc_runningResponse (bd_numbers b) m running) False []))"

definition do_stop :: "build \<Rightarrow> rpc \<Rightarrow> (session, unit) net" where
  "do_stop b m = net_bind (net_lift (param_string m ''adminticket'')) (\<lambda>ticket.
     net_then (on_task (commandStop ticket)) (answer200 b (rpc_stopResponse (bd_numbers b) m) False []))"

definition do_update :: "build \<Rightarrow> rpc \<Rightarrow> (session, unit) net" where
  "do_update b m = net_bind (net_lift (param_string m ''adminticket'')) (\<lambda>ticket.
     net_bind (on_task (commandUpdate (bd_numbers b) m ticket)) (\<lambda>ok.
       answer200 b (rpc_updateResponse (bd_numbers b) m ok) False []))"

definition execute_command :: "build \<Rightarrow> rpc \<Rightarrow> (session, unit) net" where
  "execute_command b m = (let request = rpc_getMethodName m in
     if request = ''available'' then do_available b m
     else if request = ''request'' then do_request b m
     else if request = ''directrun'' then do_directrun b m
     else if request = ''getresult'' then do_getresult b m
     else if request = ''running'' then do_running b m
     else if request = ''stop'' then do_stop b m
     else if request = ''update'' then do_update b m
     else net_throw (bad_request (''Unknown request:'' @ request)))"

definition process_post :: "build \<Rightarrow> (session, exit_status) net" where
  "process_post b s =
     (if \<not> isValidIPforRequest (se_conf s) (se_ip s) then net_throw (bad_request ''Client not allowed'') s
      else net_then (net_lift (validateRequest (cf_URLPath (se_conf s)) (se_sock s)))
       (net_then (on_http (net_modify setAuthenticated))
       (net_bind (net_bind (net_get se_conf) (\<lambda>conf. on_http (http_receive (bd_version b) conf))) (\<lambda>data.
        net_bind (net_lift (newRPC data)) (\<lambda>m.
        net_then (execute_command b m) (net_return ExitSuccess))))) s)"

section \<open>Websockets and the whole connection\<close>

definition process_websocket :: "handlers \<Rightarrow> string \<Rightarrow> (session, exit_status) net" where
  "process_websocket hs httpMethod s =
     (if sk_method (se_sock s) \<noteq> ''GET'' then net_throw (StringExn (''ws(s) Unsupported METHOD '' @ httpMethod)) s
      else case vplregex_search regWebSocketPath (sk_URLPath (se_sock s)) 3 of
        None \<Rightarrow> net_throw (StringExn ''Bad URL'') s
      | Some found \<Rightarrow> (let ticket = found ! 1; command = found ! 2 in
          if command = ''monitor'' then net_then (hd_monitor hs ticket) (net_return ExitSuccess)
          else if command = ''execute'' then net_then (hd_execute hs ticket) (net_return ExitSuccess)
          else net_throw (StringExn ''Bad command'')) s)"

definition process_http :: "build \<Rightarrow> (session, exit_status) net" where
  "process_http b s = (let httpMethod = sk_method (se_sock s) in
     if httpMethod = ''GET'' then process_get b s
     else if httpMethod = ''HEAD'' then process_head b s
     else if httpMethod \<noteq> ''POST'' then net_throw (bad_request (''Http(s) Unsupported METHOD '' @ httpMethod)) s
     else process_post b s)"

definition process_request :: "build \<Rightarrow> handlers \<Rightarrow> (session, exit_status) net" where
  "process_request b hs s =
     (if toUppercase (getHeader (se_sock s) ''Upgrade'') \<noteq> ''WEBSOCKET'' then process_http b s
      else process_websocket hs (sk_method (se_sock s)) s)"

definition process_body :: "build \<Rightarrow> handlers \<Rightarrow> (session, exit_status) net" where
  "process_body b hs = net_then (on_http (http_on_socket readHeaders)) (\<lambda>s.
     if sk_header (se_sock s) = [] then net_return (if se_secure s then ExitNeutral else ExitInternalError) s
     else let cookie = getCookie (se_sock s) ''VPL_web'' in
       net_bind (if cookie \<noteq> [] then httpPassthrough hs cookie else net_return False) (\<lambda>passed.
         if passed then net_return ExitSuccess else process_request b hs) s)"

text \<open>
  What is thrown is answered by an error page. An access that is undefined is no exception: the process is lost there. A C
  string and a string end alike.
\<close>

definition answer_error :: "build \<Rightarrow> exn \<Rightarrow> (session, exit_status) net" where
  "answer_error b e = (case e of
      HttpExn code m l \<Rightarrow> net_then (answer_code b code m) (net_return ExitSuccess)
    | TaskCleaning \<Rightarrow> net_then (answer_code b (exn_code e) (exn_message e)) (net_return ExitSuccess)
    | StdExn m \<Rightarrow> net_then (answer_code b InternalServerErrorCode ''Unknown error'') (net_return ExitInternalError)
    | StringExn m \<Rightarrow> net_then (answer_code b InternalServerErrorCode m) (net_return ExitInternalError)
    | CodeExn c \<Rightarrow> net_then (answer_code b InternalServerErrorCode ''Unknown error'') (net_return ExitInternalError)
    | UndefinedBehaviour w \<Rightarrow> net_throw e)"

definition process :: "build \<Rightarrow> handlers \<Rightarrow> (session, exit_status) net" where
  "process b hs = net_catch (process_body b hs) (answer_error b)"

section \<open>What an end of a connection satisfies\<close>

lemma net_post_http: "net_post (\<lambda>s' v. se_task s' = se_task s \<and> se_ip s' = se_ip s) (on_http m s)"
  by (auto simp: net_post_def on_http_def on_part_def split: option.splits)

lemma net_post_http_part: "net_post (\<lambda>h v. Q h v) (m (se_http s)) \<Longrightarrow> net_post (\<lambda>s v. Q (se_http s) v) (on_http m s)"
  by (auto simp: net_post_def on_http_def on_part_def split: option.splits)

lemma net_post_task: "net_post (\<lambda>s' v. se_http s' = se_http s) (on_task m s)"
  by (auto simp: net_post_def on_task_def split: prod.splits)

section \<open>An answer leaves the connection closed\<close>

definition closed_or_lost :: "session \<Rightarrow> 'a result \<Rightarrow> bool" where
  "closed_or_lost s v \<longleftrightarrow> (case v of Inr x \<Rightarrow> sk_closed (se_sock s) | Inl e \<Rightarrow> True)"

lemma sendCode_closed:
  "code \<noteq> ContinueCode \<Longrightarrow> net_post (\<lambda>h v. case v of Inr u \<Rightarrow> sk_closed (h_socket h) | Inl e \<Rightarrow> True) (sendCode version conf code t h)"
proof -
  assume c: "code \<noteq> ContinueCode"
  then have "code_value code \<noteq> 100" by (cases code) simp_all
  then show ?thesis
    unfolding net_post_def using http_send_closed
    by (auto simp: sendCode_def net_modify_def socket_close_def closeFlag_def split: if_splits sum.splits)
qed

lemma send200_closed:
  "net_post (\<lambda>h v. case v of Inr u \<Rightarrow> sk_closed (h_socket h) | Inl e \<Rightarrow> True) (send200 version conf r hm extra h)"
  unfolding net_post_def send200_def using http_send_closed by (auto split: sum.splits)

lemma answers_close:
  "net_post closed_or_lost (answer200 b r hm extra s)"
  "code \<noteq> ContinueCode \<Longrightarrow> net_post closed_or_lost (answer_code b code t s)"
  unfolding answer200_def answer_code_def
  by (rule net_post_bind; auto simp: net_post_def net_get_def closed_or_lost_def se_sock_def on_http_def on_part_def
      split: option.splits sum.splits dest: net_postD [OF send200_closed] net_postD [OF sendCode_closed])+

section \<open>The status of a refused cookie is lost\<close>

lemma cookie_path:
  assumes "isRequestingCookie path = Some ticket"
  shows "\<exists>j > 1. length (c_str path) = j + 16 \<and> (\<forall>k < length (c_str path). c_str path ! k = CHR ''/'' \<longrightarrow> k = 0 \<or> k = j)"
proof -
  let ?s = "c_str path"
  have "rx_found regPassthroughTicket path"
    using assms by (auto simp: isRequestingCookie_def vplregex_search_found [symmetric, of _ _ 3] split: option.splits)
  then obtain i j c where r: "rx_run regPassthroughTicket ?s (rx_pattern regPassthroughTicket) i Map.empty j c"
    unfolding rx_found_iff by blast
  then obtain a where a: "Suc 0 < a" "length ?s = a + 16" "?s ! 0 = CHR ''/''" "\<forall>k. Suc 0 \<le> k \<and> k < a \<longrightarrow> not_slash (?s ! k)"
      "\<forall>k < 16. ?s ! (a + k) = ''/httpPassthrough'' ! k"
    unfolding regPassthroughTicket_def extended_simps seqs.simps rx_run.simps
    by (auto dest!: rx_run_Lit simp: at_line_start_def at_line_end_def numeral_eq_Suc simp del: rx_run.simps Lit.simps)
  have "\<forall>k \<in> {1..<16}. ''/httpPassthrough'' ! k \<noteq> CHR ''/''" by code_simp
  then have lit: "k < 16 \<Longrightarrow> ''/httpPassthrough'' ! k = CHR ''/'' \<Longrightarrow> k = 0" for k by (metis atLeastLessThan_iff less_one not_le)
  have "k = 0 \<or> k = a" if "k < length ?s" "?s ! k = CHR ''/''" for k
  proof (cases "k < a")
    case True
    then show ?thesis using a(4) that(2) by (cases k) (auto simp: not_slash_def)
  next
    case False
    then have "k - a < 16" "?s ! k = ''/httpPassthrough'' ! (k - a)" using a(2,5) that(1) by (auto dest: spec [of _ "k - a"])
    then show ?thesis using lit [of "k - a"] that(2) False by simp
  qed
  with a(1,2) show ?thesis by auto
qed

lemma challenge_path:
  assumes "rx_found regChallenge path"
  shows "12 < length (c_str path) \<and> c_str path ! 12 = CHR ''/'' \<and> 27 < length (c_str path) \<and> c_str path ! 27 = CHR ''/''"
proof -
  let ?s = "c_str path" and ?w = "''/.well-known/acme-challenge/''"
  have "\<forall>k < length ?w. k < length ?s \<and> ?s ! k = ?w ! k"
    using assms unfolding rx_found_iff regChallenge_def extended_simps seqs.simps rx_run.simps
    by (auto dest!: rx_run_Lit simp: at_line_start_def simp del: rx_run.simps Lit.simps)
  moreover have "12 < length ?w" "27 < length ?w" "?w ! 12 = CHR ''/''" "?w ! 27 = CHR ''/''" by code_simp+
  ultimately show ?thesis by metis
qed

lemma cookie_path_no_page: "isRequestingCookie path = Some ticket \<Longrightarrow> predefinedURLResponse t path = []"
proof -
  assume "isRequestingCookie path = Some ticket"
  from cookie_path [OF this] obtain j where j: "1 < j" "length (c_str path) = j + 16"
      "\<forall>k < length (c_str path). c_str path ! k = CHR ''/'' \<longrightarrow> k = 0 \<or> k = j" by blast
  have "\<not> rx_found regChallenge path"
  proof
    assume "rx_found regChallenge path"
    from challenge_path [OF this] j(3) have "12 = j" "27 = j" by auto
    then show False by simp
  qed
  then have "vplregex_search regChallenge path 2 = None" using vplregex_search_found by blast
  moreover have "length (c_str path) \<le> length path" by (simp add: c_str_def length_takeWhile_le)
  then have "17 < length path" using j by simp
  then have "toUppercase path \<noteq> ''/OK''" "path \<noteq> ''/robots.txt''" "path \<noteq> ''/favicon.ico''"
    by (auto simp: toUppercase_def dest: arg_cong [where f = length])
  ultimately show ?thesis by (simp add: predefinedURLResponse_def Let_def)
qed

lemma answer_never_http_error [net_posts]: "net_post (\<lambda>_ v. v \<noteq> Inr ExitHttpError) (answer_error b e s)"
proof -
  have then_return: "net_post (\<lambda>_ v. v \<noteq> Inr ExitHttpError) (net_then m (net_return st) s)" if "st \<noteq> ExitHttpError"
    for m :: "(session, unit) net" and st s
    using that by (auto simp: net_post_def net_then_def net_bind_def net_return_def split: option.splits sum.splits)
  show ?thesis by (cases e) (simp_all add: answer_error_def then_return net_posts)
qed

lemma cookie_request_post:
  "net_post (\<lambda>s' v. case v of Inr (r, st) \<Rightarrow> st = ExitHttpError \<longrightarrow> r = [] \<and> se_http s' = se_http s | Inl e \<Rightarrow> True)
     (cookie_request b ticket s)"
proof -
  have "net_post (\<lambda>s' v. case v of Inr ok \<Rightarrow> \<not> ok \<longrightarrow> se_http s' = se_http s | Inl e \<Rightarrow> True) (commandSetPassthroughCookie b ticket s)"
    unfolding commandSetPassthroughCookie_def
    by (rule net_post_bind, rule net_post_mono [OF net_post_task])
      (auto simp: net_post_def net_return_def net_then_def net_bind_def net_get_def split: sum.splits option.splits)
  then show ?thesis
    unfolding cookie_request_def
    by (auto simp: net_post_def net_return_def net_bind_def split: sum.splits option.splits if_splits)
qed

lemma process_get_status: "net_post (\<lambda>_ v. v \<noteq> Inr ExitHttpError) (process_get b s)"
proof -
  let ?path = "sk_URLPath (se_sock s)"
  have first: "net_post (\<lambda>s' v. case v of Inr (r, st) \<Rightarrow> st = ExitHttpError \<longrightarrow> r = [] \<and> predefined_page s' = [] | Inl e \<Rightarrow> True)
     ((case isRequestingCookie ?path of Some ticket \<Rightarrow> cookie_request b ticket | None \<Rightarrow> net_return ([], ExitNeutral)) s)"
  proof (cases "isRequestingCookie ?path")
    case None
    then show ?thesis by (simp add: net_posts)
  next
    case (Some ticket)
    then show ?thesis using cookie_path_no_page [OF Some]
      by simp (rule net_post_mono [OF cookie_request_post], auto simp: predefined_page_def se_sock_def split: sum.splits)
  qed
  show ?thesis
    unfolding process_get_def
    by (rule net_post_bind, rule net_post_mono [OF first])
      (auto simp: net_post_def net_throw_def net_return_def net_then_def net_bind_def Let_def split: sum.splits option.splits)
qed

text \<open>
  C38: no connection ends with the status of an HTTP error, the one the daemon would count against the address: the page of a
  refused cookie is not found, and the exception of the missing page ends the process with success.
\<close>

theorem process_never_http_error: "process b hs s rs \<noteq> Some ((s', Inr ExitHttpError), rs')"
proof -
  let ?Q = "\<lambda>(_ :: session) v. v \<noteq> Inr ExitHttpError"
  have ret: "net_post ?Q (net_then m (net_return st) s)" if "st \<noteq> ExitHttpError" for m :: "(session, 'a) net" and st s
    using that by (auto simp: net_post_def net_then_def net_bind_def net_return_def split: option.splits sum.splits)
  have bnd: "net_post ?Q (net_bind m f s)" if "\<And>x s. net_post ?Q (f x s)" for m :: "(session, 'a) net" and f s
    by (rule net_post_bind) (use that in \<open>auto simp: net_post_def split: sum.splits\<close>)
  have "net_post ?Q (process_head b s)" for s
    by (simp add: process_head_def Let_def net_posts ret)
  moreover have "net_post ?Q (process_post b s)" for s
    unfolding process_post_def net_then_def
    by (simp add: net_posts) (intro impI bnd ret [unfolded net_then_def]; simp)
  ultimately have http: "net_post ?Q (process_http b s)" for s
    by (simp add: process_http_def Let_def process_get_status net_posts)
  have "net_post ?Q (process_websocket hs m s)" for m s
    by (auto simp: process_websocket_def Let_def net_posts ret split: option.splits)
  then have request: "net_post ?Q (process_request b hs s)" for s
    by (simp add: process_request_def http)
  have body: "net_post ?Q (process_body b hs s)" for s
    unfolding process_body_def net_then_def
    by (intro bnd) (auto simp: Let_def net_posts intro!: bnd request)
  then have "net_post ?Q (process b hs s)"
    unfolding process_def
    by (intro net_post_catch net_post_mono [OF body]) (auto simp: answer_never_http_error split: sum.splits)
  from net_postD [OF this] show ?thesis by blast
qed

section \<open>Who reaches a task\<close>

definition same_task :: "task \<Rightarrow> session \<Rightarrow> 'a result \<Rightarrow> bool" where "same_task t s v \<longleftrightarrow> se_task s = t"

lemma same_task_basic [net_posts]:
  "se_task s = t \<Longrightarrow> net_post (same_task t) (net_return x s)" "se_task s = t \<Longrightarrow> net_post (same_task t) (net_throw e s)"
  "se_task s = t \<Longrightarrow> net_post (same_task t) (net_lift r s)" "se_task s = t \<Longrightarrow> net_post (same_task t) (net_get f s)"
  "se_task s = t \<Longrightarrow> net_post (same_task t) (on_http m s)"
  using net_post_http [of s m] by (auto simp: net_posts same_task_def net_post_def net_return_def net_throw_def net_lift_def net_get_def)

lemma same_task_bind:
  "net_post (same_task t) (m s) \<Longrightarrow> (\<And>x s. se_task s = t \<Longrightarrow> net_post (same_task t) (f x s)) \<Longrightarrow> net_post (same_task t) (net_bind m f s)"
  by (rule net_post_bind, erule net_post_mono) (auto simp: same_task_def split: sum.splits)

lemma same_task_then:
  "net_post (same_task t) (m s) \<Longrightarrow> (\<And>s. se_task s = t \<Longrightarrow> net_post (same_task t) (n s)) \<Longrightarrow> net_post (same_task t) (net_then m n s)"
  unfolding net_then_def by (rule same_task_bind)

lemma same_task_answers:
  "se_task s = t \<Longrightarrow> net_post (same_task t) (answer200 b r hm x s)" "se_task s = t \<Longrightarrow> net_post (same_task t) (answer_code b c m s)"
  "se_task s = t \<Longrightarrow> net_post (same_task t) (answer_error b e s)"
  unfolding answer200_def answer_code_def answer_error_def
  by (auto intro!: same_task_bind same_task_then net_posts split: exn.splits)

text \<open>What a connection must be to have a task changed: with a ticket, or from an allowed address for the server's path.\<close>

definition may_reach_task :: "configuration \<Rightarrow> string \<Rightarrow> sock \<Rightarrow> bool" where
  "may_reach_task conf ip k \<longleftrightarrow> getCookie k ''VPL_web'' \<noteq> [] \<or> toUppercase (getHeader k ''Upgrade'') = ''WEBSOCKET'' \<or>
     (sk_method k = ''GET'' \<and> isRequestingCookie (sk_URLPath k) \<noteq> None) \<or>
     (sk_method k = ''POST'' \<and> isValidIPforRequest conf ip \<and> validateRequest (cf_URLPath conf) k = Inr ())"

lemma process_request_same:
  assumes "\<not> may_reach_task (se_conf s) (se_ip s) (se_sock s)"
  shows "net_post (same_task (se_task s)) (process_request b hs s)"
proof -
  have get: "net_post (same_task (se_task s)) (process_get b s)" if "isRequestingCookie (sk_URLPath (se_sock s)) = None"
    unfolding process_get_def that option.case
    by (auto intro!: same_task_bind same_task_then same_task_answers net_posts simp: Let_def)
  have head: "net_post (same_task (se_task s)) (process_head b s)"
    unfolding process_head_def Let_def by (auto intro!: same_task_then same_task_answers net_posts)
  have post: "net_post (same_task (se_task s)) (process_post b s)"
    if no: "\<not> (isValidIPforRequest (se_conf s) (se_ip s) \<and> validateRequest (cf_URLPath (se_conf s)) (se_sock s) = Inr ())"
  proof (cases "isValidIPforRequest (se_conf s) (se_ip s)")
    case True
    have "validateRequest (cf_URLPath (se_conf s)) (se_sock s) \<noteq> Inr ()" using no True by blast
    then obtain e where "validateRequest (cf_URLPath (se_conf s)) (se_sock s) = Inl e"
      by (cases "validateRequest (cf_URLPath (se_conf s)) (se_sock s)") auto
    then show ?thesis using True
      by (auto simp: process_post_def net_post_def net_then_def net_bind_def net_lift_def same_task_def)
  qed (simp add: process_post_def net_posts)
  show ?thesis
    using assms get head post
    by (auto simp: process_request_def process_http_def may_reach_task_def Let_def intro!: net_posts)
qed

lemma process_body_same:
  assumes no: "\<And>k rs1. readHeaders (se_sock s) rs = Some ((k, Inr ()), rs1) \<Longrightarrow> \<not> may_reach_task (se_conf s) (se_ip s) k"
    and body: "process_body b hs s rs = Some ((s1, w), rs1)"
  shows "same_task (se_task s) s1 w"
proof (cases "readHeaders (se_sock s) rs")
  case None
  then show ?thesis using body
    by (simp add: process_body_def net_then_def net_bind_def on_http_def http_on_socket_def on_part_def se_sock_def)
next
  case (Some a)
  then obtain k r rs2 where a: "readHeaders (se_sock s) rs = Some ((k, r), rs2)" by (cases a) auto
  let ?s = "s\<lparr>se_http := (se_http s)\<lparr>h_socket := k\<rparr>\<rparr>"
  have k: "se_sock ?s = k" "se_conf ?s = se_conf s" by (simp_all add: se_sock_def se_conf_def)
  show ?thesis
  proof (cases r)
    case (Inl e)
    then show ?thesis using body a
      by (auto simp: process_body_def net_then_def net_bind_def on_http_def http_on_socket_def on_part_def se_sock_def same_task_def)
  next
    case (Inr u)
    then have nr: "\<not> may_reach_task (se_conf s) (se_ip s) k" using no a by simp
    then have "getCookie k ''VPL_web'' = []" by (simp add: may_reach_task_def)
    then have run: "process_body b hs s rs =
        (if sk_header k = [] then net_return (if se_secure s then ExitNeutral else ExitInternalError) ?s
         else process_request b hs ?s) rs2"
      using a Inr k
      by (simp add: process_body_def net_then_def net_bind_def on_http_def http_on_socket_def on_part_def se_sock_def Let_def
        net_return_def)
    show ?thesis
    proof (cases "sk_header k = []")
      case True
      then show ?thesis using body run by (auto simp: net_return_def same_task_def)
    next
      case False
      have "net_post (same_task (se_task s)) (process_request b hs ?s)"
        using process_request_same [of ?s b hs] nr k by simp
      moreover have "process_request b hs ?s rs2 = Some ((s1, w), rs1)" using run body False by simp
      ultimately show ?thesis by (rule net_postD)
    qed
  qed
qed

text \<open>
  C15: whatever a connection sends, it changes the state of a task only when, once its headers have been read, it has a cookie
  for a running program, is a websocket, asks for such a cookie, or is a POST for the path of the server from an address
  that may request tasks.
\<close>

theorem task_reached_only_by:
  assumes "process b hs s rs = Some ((s', v), rs')" "se_task s' \<noteq> se_task s"
  shows "\<exists>k rs1. readHeaders (se_sock s) rs = Some ((k, Inr ()), rs1) \<and> may_reach_task (se_conf s) (se_ip s) k"
proof (rule ccontr)
  assume no: "\<not> ?thesis"
  let ?t = "se_task s"
  have body: "process_body b hs s rs = Some ((s1, w), rs1) \<Longrightarrow> same_task ?t s1 w" for s1 w rs1
    using no by (intro process_body_same) auto
  have "same_task ?t s' v"
  proof (cases "process_body b hs s rs")
    case None
    then show ?thesis using assms(1) by (simp add: process_def net_catch_def)
  next
    case (Some a)
    then obtain s1 w rs1 where a: "process_body b hs s rs = Some ((s1, w), rs1)" by (cases a) auto
    from body [OF a] have t: "se_task s1 = ?t" by (simp add: same_task_def)
    show ?thesis
    proof (cases w)
      case (Inl e)
      then have "answer_error b e s1 rs1 = Some ((s', v), rs')" using assms(1) a by (simp add: process_def net_catch_def)
      then show ?thesis using net_postD [OF same_task_answers(3) [OF t]] by blast
    next
      case (Inr x)
      then show ?thesis using assms(1) a t by (simp add: process_def net_catch_def same_task_def)
    qed
  qed
  then show False using assms(2) by (simp add: same_task_def)
qed

end
