(* ===== verification/Request_Examples.thy ===== *)
theory Request_Examples
  imports Task_Examples Jail_Process
begin

text \<open>
  A request with a file for the example task, a connection that monitors it, and the properties of requests applied to them.
\<close>

definition demo_params :: "(string \<times> jval) list" where
  "demo_params = [(''files'', files_value [(''a.c'', ''x'')]), (''lang'', JStr ''C'')]"

definition demo_numbers :: numbers where
  "demo_numbers = \<lparr>nm_read = c_atoi, nm_print = itos\<rparr>"

lemma demo_home: "getHomePath demo_object = ''/jail/home/p10001''"
  using demo_names by (simp add: getHomePath_def getRelativeHomePath_def demo_object_def demo_conf_def getPrisonerName_def jailPath_def)

lemma write_succeeds: "correctPath n \<Longrightarrow> w_fails t = (\<lambda>_ _. False) \<Longrightarrow> \<exists>s. write_file n d t = (s, Inr ())"
  by (simp add: write_file_def Let_def)

theorem uploaded_files_saved_witness:
  "\<exists>m t'. newRPC (show_json (request_value ''request'' ''1'' demo_params)) = Inr m \<and>
    saveParseFiles demo_numbers m demo_object = (t', Inr ()) \<and>
    map_of (w_files t') ''/jail/home/p10001/a.c'' = Some (written ''a.c'' ''x'')"
proof -
  have p: "distinct (map fst demo_params)" "distinct (map fst [(''a.c'', ''x'')])"
    "map_of demo_params ''files'' = Some (files_value [(''a.c'', ''x'')])" "map_of demo_params ''fileencoding'' = None"
    by (simp_all add: demo_params_def)
  obtain m n where m: "newRPC (show_json (request_value ''request'' ''1'' demo_params)) = Inr (JsonMsg m)"
    "json_getFileEncoding m = []" "json_getFiles m = Inr (getStructMembers n)"
    "represents (jm_raw m) n (files_value [(''a.c'', ''x'')])"
    by (rule files_value_read [OF p, of "''request''" "''1''"])
  from m(4) have "rep_members (jm_raw m) (t_children n) [(''a.c'', JStr ''x'')]"
    unfolding files_value_def represents.simps list.map prod.case .
  then obtain c where c: "t_children n = [c]" "t_tag c = ''a.c''" "json_getString (jm_raw m) c = Inr ''x''"
    by (cases "t_children n") auto
  then have files: "rpc_getFiles (JsonMsg m) = Inr [(''a.c'', c)]"
    using m(3) by (simp add: getStructMembers_def)
  let ?p = "demo_object\<lparr>w_uid := 10001\<rparr>"
  have p1: "monitor_becomePrisoner demo_object = (?p, Inr ())"
    by (simp add: monitor_becomePrisoner_def demo_object_def)
  have "correctPath ''/jail/home/p10001/a.c''" by code_simp
  moreover have "w_fails ?p = (\<lambda>_ _. False)" by (simp add: demo_object_def)
  ultimately obtain s where "write_file ''/jail/home/p10001/a.c'' (if home_script ''a.c'' then removeCRs ''x'' else ''x'') ?p = (s, Inr ())"
    using write_succeeds by blast
  then have s: "home_writeFile ''a.c'' ''x'' ?p = (s, Inr ())"
    unfolding home_writeFile_def home_of_files(3) demo_home by (simp add: cpath_def path_sep_def)
  then have w: "save_file demo_numbers (JsonMsg m) [] (''a.c'', c) ?p = (s, Inr ())"
    using c(3) by (simp add: save_file_def file_to_write_def op_bind_def op_lift_run ms_get_def)
  have e: "rpc_getFileEncoding (JsonMsg m) = Inr []" by (simp add: m(2))
  have "op_each (save_file demo_numbers (JsonMsg m) []) [(''a.c'', c)] ?p = (s, Inr ())"
    using w by (simp add: op_each_def op_then_def op_bind_def op_return_def)
  then have "op_then monitor_becomePrisoner (op_bind (op_lift (rpc_getFiles (JsonMsg m))) (\<lambda>files.
      op_bind (op_lift (rpc_getFileEncoding (JsonMsg m))) (\<lambda>encoding.
      op_each (save_file demo_numbers (JsonMsg m) encoding) files))) demo_object = (s, Inr ())"
    using p1 files e by (simp add: op_then_def op_bind_def op_lift_run)
  moreover have "\<not> w_fork_fails demo_object" by (simp add: demo_object_def)
  ultimately have "saveParseFiles demo_numbers (JsonMsg m) demo_object = (with_object demo_object s, Inr ())"
    unfolding saveParseFiles_def forked_def by simp
  moreover have "cpath (getHomePath demo_object) ''a.c'' = ''/jail/home/p10001/a.c''"
    unfolding demo_home by (simp add: cpath_def path_sep_def)
  moreover obtain m' where m': "newRPC (show_json (request_value ''request'' ''1'' demo_params)) = Inr m'"
    "\<And>t t' name content. saveParseFiles demo_numbers m' t = (t', Inr ()) \<Longrightarrow> map_of [(''a.c'', ''x'')] name = Some content \<Longrightarrow>
       map_of (w_files t') (cpath (getHomePath t) name) = Some (written name content)"
    using uploaded_files_saved [OF p, of "''request''" "''1''" demo_numbers] by (elim exE conjE) blast
  moreover have "m' = JsonMsg m" using trans [OF m'(1) [symmetric] m(1)] by (rule Inr_inject)
  ultimately show ?thesis using m'(2) [of demo_object "with_object demo_object s" "''a.c''" "''x''"]
    by (intro exI [of _ m'] exI [of _ "with_object demo_object s"]) simp
qed

definition demo_session :: session where
  "demo_session = \<lparr>se_http = newHttp ((newSocket 1 2048)\<lparr>sk_method := ''GET'', sk_URLPath := ''/13/monitor'',
     sk_header := ''GET /13/monitor HTTP/1.1'', sk_headers := [''UPGRADE'' \<mapsto> ''websocket'']\<rparr>),
     se_task = demo_object, se_ip = ''10.0.0.1'', se_secure = True\<rparr>"

definition demo_handlers :: handlers where
  "demo_handlers = \<lparr>hd_monitor = (\<lambda>ticket s rs. Some ((s\<lparr>se_task := (se_task s)\<lparr>m_security := sec_monitor\<rparr>\<rparr>, Inr ()), rs)),
     hd_execute = (\<lambda>ticket. net_return ()), hd_passthrough = net_return ()\<rparr>"

theorem task_reached_only_by_witness:
  "\<forall>b. \<exists>s'. process b demo_handlers demo_session [] = Some ((s', Inr ExitSuccess), []) \<and> se_task s' \<noteq> se_task demo_session \<and>
    may_reach_task (se_conf demo_session) (se_ip demo_session) (se_sock demo_session)"
proof
  fix b
  let ?s = "demo_session\<lparr>se_task := demo_object\<lparr>m_security := sec_monitor\<rparr>\<rparr>"
  have w: "toUppercase ''websocket'' = ''WEBSOCKET''" "toUppercase ''Upgrade'' = ''UPGRADE''"
    "vplregex_search regWebSocketPath ''/13/monitor'' 3 = Some [''/13/monitor'', ''13'', ''monitor'']"
    by code_simp+
  have r: "process b demo_handlers demo_session [] = Some ((?s, Inr ExitSuccess), [])"
    by (simp add: process_def process_body_def net_catch_def net_then_def net_bind_def on_http_def on_part_def http_on_socket_def
      demo_session_def newHttp_def readHeaders_def se_sock_def getCookie_def newSocket_def net_return_def process_request_def
      getHeader_def w process_websocket_def demo_handlers_def Let_def)
  moreover have ne: "se_task ?s \<noteq> se_task demo_session" by (simp add: demo_session_def demo_object_def)
  ultimately show "\<exists>s'. process b demo_handlers demo_session [] = Some ((s', Inr ExitSuccess), []) \<and> se_task s' \<noteq> se_task demo_session \<and>
      may_reach_task (se_conf demo_session) (se_ip demo_session) (se_sock demo_session)"
    using task_reached_only_by [OF r ne] by (auto simp: readHeaders_def demo_session_def se_sock_def newHttp_def)
qed

end
