(* ===== verification/Redirector.thy ===== *)
theory Redirector
  imports Web_Socket Util_Strings
begin

text \<open>
  The class \<open>Redirector\<close> and its four subclasses (redirector.h, redirector.cpp): the state machines that carry the bytes between
  a program, or a server a program has started, and the client. The state is that of the object, the answers the kernel will
  give, and what has been given to the program. A step that asks for more answers than there are has not returned. Proved:
  every machine only goes forward, so \<open>advance\<close> returns; the buffers, but for that of a web server, are bounded; the output of a batch run keeps its two ends;
  and what a client types reaches the program whole and in order.
\<close>

section \<open>The world of a redirector\<close>

text \<open>The flags of \<open>revents\<close>, and the answers of a \<open>poll\<close> and of the calls after it.\<close>

record events =
  ev_in :: bool
  ev_pri :: bool
  ev_out :: bool
  ev_err :: bool
  ev_hup :: bool
  ev_nval :: bool

definition POLLREAD :: "events \<Rightarrow> bool" where "POLLREAD e \<longleftrightarrow> ev_in e \<or> ev_pri e"
definition POLLBAD :: "events \<Rightarrow> bool" where "POLLBAD e \<longleftrightarrow> ev_err e \<or> ev_hup e \<or> ev_nval e"

datatype prog_read = ReadBytes string | ReadFails bool

record poll_answer =
  pa_poll :: poll_result
  pa_program :: events
  pa_client :: events
  pa_read :: prog_read
  pa_write :: "nat option"

datatype rstate = Begin | Connecting | Connected | Ending | End | Error

text \<open>
  \<open>red_fd_ok\<close>: the descriptor of the terminal, or the new socket, is not negative. \<open>red_connects\<close>: for each \<open>connect\<close> whether it
  succeeds, and the clock after it. \<open>red_written\<close> is what the program, or its server, has been given, and \<open>red_taken\<close> what
  has been taken from the client; of a batch run, from the program.
\<close>

record redirector =
  red_state :: rstate
  red_timeout :: int
  red_messageBuf :: string
  red_programbuf :: string
  red_netbuf :: string
  red_noOutput :: bool
  red_outputBufferCuted :: bool
  red_fd_ok :: bool
  red_answers :: "poll_answer list"
  red_connects :: "(bool \<times> int) list"
  red_peer :: "(nat list \<times> int) option"
  red_written :: string
  red_taken :: string

definition isActive :: "'a redirector_scheme \<Rightarrow> bool" where
  "isActive r \<longleftrightarrow> red_state r \<noteq> Error \<and> red_state r \<noteq> End"

definition red_stop :: "'a redirector_scheme \<Rightarrow> 'a redirector_scheme" where
  "red_stop r = r\<lparr>red_state := Ending\<rparr>"

definition isSilent :: "'a redirector_scheme \<Rightarrow> bool" where "isSilent r \<longleftrightarrow> red_noOutput r"

definition isOutputBufferFull :: "'a redirector_scheme \<Rightarrow> bool" where
  "isOutputBufferFull r \<longleftrightarrow> length (red_netbuf r) \<ge> jail_output_buffer_size"

section \<open>Buffers\<close>

definition red_addMessage :: "string \<Rightarrow> 'a redirector_scheme \<Rightarrow> 'a redirector_scheme" where
  "red_addMessage toAdd r = r\<lparr>red_messageBuf := (if red_messageBuf r = [] then crlf else red_messageBuf r) @ ''Jail: '' @ toAdd @ crlf\<rparr>"

definition cut_limit :: string where "cut_limit = bytesToMemSize (int jail_output_buffer_size)"

definition cut_text :: string where
  "cut_text = lf # ''=============== output cut to '' @ cut_limit @ '' ============='' @ [lf]"

definition addOutput :: "string \<Rightarrow> 'a redirector_scheme \<Rightarrow> 'a redirector_scheme" where
  "addOutput toAdd r = (if toAdd = [] then r else let r = r\<lparr>red_noOutput := False\<rparr>; limit = jail_output_buffer_size in
     if length (red_netbuf r) + length toAdd > 2 * limit then
       (let overflow = red_netbuf r @ toAdd; ofsize = length overflow;
          r = r\<lparr>red_netbuf := substr overflow 0 (limit div 2) @ cut_text @ substr overflow (ofsize - limit div 2) (limit div 2)\<rparr> in
        if \<not> red_outputBufferCuted r then (red_addMessage (''program output has been limited to '' @ cut_limit) r)\<lparr>red_outputBufferCuted := True\<rparr>
        else r)
     else r\<lparr>red_netbuf := red_netbuf r @ toAdd\<rparr>)"

definition addInput :: "string \<Rightarrow> 'a redirector_scheme \<Rightarrow> 'a redirector_scheme \<times> bool" where
  "addInput toAdd r = (if length toAdd + length (red_programbuf r) > jail_websocket_frame_size_limit
     then (red_addMessage ''input buffer limit reached; terminal session closed.'' r, False)
     else (r\<lparr>red_programbuf := red_programbuf r @ toAdd, red_taken := red_taken r @ toAdd\<rparr>, True))"

definition addVNCInput :: "string \<Rightarrow> 'a redirector_scheme \<Rightarrow> 'a redirector_scheme \<times> bool" where
  "addVNCInput toAdd r = (if length toAdd + length (red_netbuf r) > jail_websocket_frame_size_limit then (r, False)
     else (r\<lparr>red_netbuf := red_netbuf r @ toAdd, red_taken := red_taken r @ toAdd\<rparr>, True))"

section \<open>Steps and their repetition\<close>

text \<open>Pieces of a step, each telling whether the next is done: a \<open>break\<close> ends them.\<close>

fun in_turn :: "('s, bool) net list \<Rightarrow> ('s, unit) net" where
  "in_turn [] = net_return ()"
| "in_turn (m # ms) = net_bind m (\<lambda>go. if go then in_turn ms else net_return ())"

definition go_to :: "rstate \<Rightarrow> ('a redirector_scheme, unit) net" where
  "go_to st = net_modify (\<lambda>r. r\<lparr>red_state := st\<rparr>)"

definition leave_to :: "rstate \<Rightarrow> ('a redirector_scheme, bool) net" where
  "leave_to st = net_then (go_to st) (net_return False)"

definition red_poll :: "('a redirector_scheme, poll_answer) net" where
  "red_poll r rs = (case red_answers r of [] \<Rightarrow> None | a # as \<Rightarrow> Some ((r\<lparr>red_answers := as\<rparr>, Inr a), rs))"

text \<open>The loop of \<open>advance\<close>: the step again for as long as it has changed the state.\<close>

fun until_still :: "nat \<Rightarrow> ('a redirector_scheme, unit) net \<Rightarrow> ('a redirector_scheme, unit) net" where
  "until_still 0 step r rs = None"
| "until_still (Suc n) step r rs = (case step r rs of
      None \<Rightarrow> None
    | Some ((r', Inl e), rs') \<Rightarrow> Some ((r', Inl e), rs')
    | Some ((r', Inr u), rs') \<Rightarrow> if red_state r' = red_state r then Some ((r', Inr ()), rs') else until_still n step r' rs')"

section \<open>Batch\<close>

definition batch_redirector :: "bool \<Rightarrow> poll_answer list \<Rightarrow> redirector" where
  "batch_redirector ok answers = \<lparr>red_state = Begin, red_timeout = 0, red_messageBuf = [], red_programbuf = [], red_netbuf = [],
     red_noOutput = True, red_outputBufferCuted = False, red_fd_ok = ok, red_answers = answers, red_connects = [], red_peer = None,
     red_written = [], red_taken = []\<rparr>"

definition batch_addMessage :: "string \<Rightarrow> redirector \<Rightarrow> redirector" where
  "batch_addMessage toAdd r = r\<lparr>red_messageBuf := red_messageBuf r @ ''- Jail: '' @ toAdd @ [lf]\<rparr>"

definition batch_getMessage :: "redirector \<Rightarrow> string" where
  "batch_getMessage r = (if red_messageBuf r = [] then [] else lf # ''<|--'' @ [lf] @ red_messageBuf r @ ''--|>'' @ [lf])"

definition batch_getOutput :: "redirector \<Rightarrow> string" where
  "batch_getOutput r = red_netbuf r @ batch_getMessage r"

definition batch_getOutputSize :: "redirector \<Rightarrow> nat" where
  "batch_getOutputSize r = length (red_netbuf r) + length (batch_getMessage r)"

definition begin_terminal :: "('a redirector_scheme, unit) net" where
  "begin_terminal r = (if \<not> red_fd_ok r then go_to Error r else go_to Connected r)"

definition batch_take :: "string \<Rightarrow> redirector \<Rightarrow> redirector" where
  "batch_take b r = (addOutput b r)\<lparr>red_taken := red_taken r @ b\<rparr>"

definition batch_read :: "prog_read \<Rightarrow> (redirector, unit) net" where
  "batch_read a = (case a of
      ReadBytes b \<Rightarrow> if b = [] then go_to End else net_modify (batch_take (take jail_net_buffer_size b))
    | ReadFails eio \<Rightarrow> if eio then go_to End else go_to Error)"

definition batch_connected :: "(redirector, unit) net" where
  "batch_connected = net_bind red_poll (\<lambda>a. let e = pa_program a in
     if pa_poll a = PollFail then go_to Error
     else if pa_poll a = PollIdle then net_return ()
     else if ev_err e then go_to Error
     else if ev_nval e then go_to Error
     else if ev_hup e \<and> \<not> POLLREAD e then go_to End
     else if POLLREAD e then batch_read (pa_read a)
     else net_return ())"

definition batch_step :: "(redirector, unit) net" where
  "batch_step r = (case red_state r of
      Begin \<Rightarrow> begin_terminal r
    | Connecting \<Rightarrow> go_to Connected r
    | Connected \<Rightarrow> batch_connected r
    | Ending \<Rightarrow> go_to End r
    | End \<Rightarrow> net_return () r
    | Error \<Rightarrow> net_return () r)"

definition batch_advance :: "(redirector, unit) net" where
  "batch_advance = until_still 5 batch_step"

section \<open>Terminal\<close>

record terminal = redirector +
  red_ws :: wsock

definition terminal_redirector :: "bool \<Rightarrow> poll_answer list \<Rightarrow> wsock \<Rightarrow> terminal" where
  "terminal_redirector ok answers w = redirector.extend (batch_redirector ok answers) \<lparr>red_ws = w\<rparr>"

definition on_ws :: "(wsock, 'a) net \<Rightarrow> ('b terminal_scheme, 'a) net" where
  "on_ws = on_part red_ws (\<lambda>w r. r\<lparr>red_ws := w\<rparr>)"

definition ask_ws :: "(wsock \<Rightarrow> bool) \<Rightarrow> ('b terminal_scheme, bool) net" where
  "ask_ws p r = net_return (p (red_ws r)) r"

text \<open>A piece done when a condition holds; what the client has sent is taken, or the redirector ends.\<close>

definition piece_if :: "bool \<Rightarrow> ('s, bool) net \<Rightarrow> ('s, bool) net" where
  "piece_if b m = (if b then m else net_return True)"

definition take_input :: "(string \<Rightarrow> 'b terminal_scheme \<Rightarrow> 'b terminal_scheme \<times> bool) \<Rightarrow> ('b terminal_scheme, bool) net" where
  "take_input add = net_bind (on_ws ws_receive) (\<lambda>got r. case add got r of (r, ok) \<Rightarrow> if ok then net_return True r else leave_to Ending r)"

text \<open>\<open>read\<close> a program's output; nothing or an error ends the redirector.\<close>

definition take_output :: "prog_read \<Rightarrow> (string \<Rightarrow> ('a redirector_scheme, unit) net) \<Rightarrow> ('a redirector_scheme, bool) net" where
  "take_output a out = (case a of
      ReadFails eio \<Rightarrow> leave_to Ending
    | ReadBytes b \<Rightarrow> if b = [] then leave_to Ending else net_then (out (take jail_net_buffer_size b)) (net_return True))"

definition program_write :: "nat option \<Rightarrow> ('a redirector_scheme, bool) net" where
  "program_write a r = (case a of None \<Rightarrow> leave_to Ending r
     | Some n \<Rightarrow> let n = min n (length (red_programbuf r)) in
        if n = 0 then leave_to Ending r
        else net_return True (r\<lparr>red_programbuf := drop n (red_programbuf r), red_written := red_written r @ take n (red_programbuf r)\<rparr>))"

text \<open>\<open>POLLOUT\<close> is asked for only when there is something to write when \<open>poll\<close> is called.\<close>

definition terminal_answer :: "bool \<Rightarrow> poll_answer \<Rightarrow> (terminal, unit) net" where
  "terminal_answer wanted a = (let e = pa_program a in
     if pa_poll a = PollFail then go_to Error
     else if pa_poll a = PollIdle then net_return ()
     else in_turn [
       piece_if (POLLBAD (pa_client a)) (leave_to Ending),
       (\<lambda>r. piece_if (POLLREAD e \<and> \<not> isOutputBufferFull r)
          (take_output (pa_read a) (\<lambda>b. net_then (net_modify (\<lambda>r. r\<lparr>red_noOutput := False\<rparr>)) (on_ws (ws_send b TEXT_FRAME)))) r),
       piece_if (POLLREAD (pa_client a)) (take_input addInput),
       (\<lambda>r. piece_if (red_programbuf r \<noteq> [] \<and> wanted \<and> ev_out e) (program_write (pa_write a)) r),
       piece_if (POLLBAD e \<and> \<not> POLLREAD e) (leave_to Ending)])"

definition terminal_connected :: "(terminal, unit) net" where
  "terminal_connected = in_turn [
     net_bind (ask_ws ws_isReadBuffered) (\<lambda>b. piece_if b (take_input addInput)),
     (\<lambda>r. net_bind red_poll (\<lambda>a. net_then (terminal_answer (red_programbuf r \<noteq> []) a) (net_return True)) r)]"

definition terminal_end :: "(terminal, unit) net" where
  "terminal_end = net_then (net_modify (\<lambda>r. if isSilent r then red_addMessage ''program terminated with no output.'' r else r))
     (net_then (\<lambda>r. if red_messageBuf r \<noteq> [] then
          net_then (on_ws (ws_send (red_messageBuf r) TEXT_FRAME)) (net_modify (\<lambda>r. r\<lparr>red_messageBuf := []\<rparr>)) r
        else net_return () r)
     (net_bind (ask_ws ws_isClosed) (\<lambda>closed. if closed then net_return () else on_ws (ws_close []))))"

definition terminal_step :: "(terminal, unit) net" where
  "terminal_step r = (case red_state r of
      Begin \<Rightarrow> begin_terminal r
    | Connecting \<Rightarrow> go_to Connected r
    | Connected \<Rightarrow> terminal_connected r
    | Ending \<Rightarrow> go_to End r
    | End \<Rightarrow> terminal_end r
    | Error \<Rightarrow> terminal_end r)"

definition terminal_advance :: "(terminal, unit) net" where
  "terminal_advance = until_still 5 terminal_step"

section \<open>VNC\<close>

record vnc = terminal +
  vnc_port :: int

text \<open>A server is given ten seconds from \<open>now\<close> to accept a connection.\<close>

definition vnc_redirector :: "bool \<Rightarrow> poll_answer list \<Rightarrow> (bool \<times> int) list \<Rightarrow> int \<Rightarrow> wsock \<Rightarrow> int \<Rightarrow> vnc" where
  "vnc_redirector ok answers connects now w port = terminal.extend
     ((terminal_redirector ok answers w)\<lparr>red_timeout := now + 10, red_connects := connects\<rparr>) \<lparr>vnc_port = port\<rparr>"

definition begin_socket :: "('a redirector_scheme, unit) net" where
  "begin_socket r = (if \<not> red_fd_ok r then go_to Error r else go_to Connecting r)"

text \<open>
  \<open>inet_pton(AF_INET, text, &sin_addr)\<close>: four numbers of up to three digits, without a zero in front, none above 255. Its result is not
  looked at: where the text is no address the bytes stay those that \<open>memset\<close> has put there.
\<close>

primrec dotted :: "string \<Rightarrow> string \<Rightarrow> string list" where
  "dotted w [] = [w]"
| "dotted w (c # cs) = (if c = CHR ''.'' then w # dotted [] cs else dotted (w @ [c]) cs)"

definition is_octet :: "string \<Rightarrow> bool" where
  "is_octet w \<longleftrightarrow> w \<noteq> [] \<and> length w \<le> 3 \<and> (\<forall>c \<in> set w. is_digit c) \<and> (hd w = CHR ''0'' \<longrightarrow> length w = 1) \<and> digits_value w \<le> 255"

definition inet_pton :: "string \<Rightarrow> nat list option" where
  "inet_pton text = (let parts = dotted [] text in
     if length parts = 4 \<and> (\<forall>w \<in> set parts. is_octet w) then Some (map digits_value parts) else None)"

definition sin_addr :: "string \<Rightarrow> nat list" where
  "sin_addr text = (case inet_pton text of Some a \<Rightarrow> a | None \<Rightarrow> [0, 0, 0, 0])"

text \<open>\<open>connect\<close>: what is done when it succeeds, and the state otherwise.\<close>

definition try_connect :: "nat list \<times> int \<Rightarrow> ('a redirector_scheme \<Rightarrow> 'a redirector_scheme) \<Rightarrow> ('a redirector_scheme, unit) net" where
  "try_connect peer ready r rs = (case red_connects r of
      [] \<Rightarrow> None
    | (ok, now) # later \<Rightarrow> (let r = r\<lparr>red_connects := later\<rparr> in
        if ok then net_then (net_modify (\<lambda>r. ready (r\<lparr>red_peer := Some peer\<rparr>))) (go_to Connected) r rs
        else if red_timeout r < now then go_to Error r rs
        else net_return () r rs))"

text \<open>The port of an address has sixteen bits.\<close>

definition htons :: "int \<Rightarrow> int" where "htons port = port mod 65536"

definition net_write :: "nat option \<Rightarrow> ('a redirector_scheme, bool) net" where
  "net_write a r = (case a of None \<Rightarrow> leave_to Ending r
     | Some n \<Rightarrow> let n = min n (length (red_netbuf r)) in
        if n = 0 then leave_to Ending r
        else net_return True (r\<lparr>red_netbuf := drop n (red_netbuf r), red_written := red_written r @ take n (red_netbuf r)\<rparr>))"

text \<open>The answer of a \<open>poll\<close> on a server and the client, for both kinds of server.\<close>

definition server_answer :: "(string \<Rightarrow> ('a redirector_scheme, unit) net) \<Rightarrow> ('a redirector_scheme, bool) net \<Rightarrow> bool \<Rightarrow> poll_answer \<Rightarrow>
    ('a redirector_scheme, unit) net" where
  "server_answer out input wanted a = (let e = pa_program a in
     if pa_poll a = PollFail then go_to Error
     else if pa_poll a = PollIdle then net_return ()
     else in_turn [
       piece_if (POLLREAD e) (take_output (pa_read a) out),
       piece_if (POLLREAD (pa_client a)) input,
       (\<lambda>r. piece_if (red_netbuf r \<noteq> [] \<and> wanted \<and> ev_out e) (net_write (pa_write a)) r),
       piece_if (POLLBAD e \<and> \<not> POLLREAD e) (leave_to Ending)])"

definition server_connected :: "('a redirector_scheme \<Rightarrow> bool) \<Rightarrow> ('a redirector_scheme \<Rightarrow> bool) \<Rightarrow> (string \<Rightarrow> ('a redirector_scheme, unit) net) \<Rightarrow>
    ('a redirector_scheme, bool) net \<Rightarrow> ('a redirector_scheme, unit) net" where
  "server_connected closed buffered out input = in_turn [
     (\<lambda>r. piece_if (closed r) (leave_to End) r),
     (\<lambda>r. piece_if (buffered r) input r),
     (\<lambda>r. net_bind red_poll (\<lambda>a. net_then (server_answer out input (red_netbuf r \<noteq> []) a) (net_return True)) r)]"

definition vnc_connected :: "(vnc, unit) net" where
  "vnc_connected = server_connected (\<lambda>r. ws_isClosed (red_ws r)) (\<lambda>r. ws_isReadBuffered (red_ws r))
     (\<lambda>b. on_ws (ws_send b BINARY_FRAME)) (take_input addVNCInput)"

definition vnc_end :: "(vnc, unit) net" where
  "vnc_end = net_bind (ask_ws ws_isClosed) (\<lambda>closed. if closed then net_return () else on_ws (ws_close []))"

definition vnc_step :: "(vnc, unit) net" where
  "vnc_step r = (case red_state r of
      Begin \<Rightarrow> begin_socket r
    | Connecting \<Rightarrow> try_connect (sin_addr ''127.0.0.1'', htons (vnc_port r)) (\<lambda>r. r) r
    | Connected \<Rightarrow> vnc_connected r
    | Ending \<Rightarrow> go_to End r
    | End \<Rightarrow> vnc_end r
    | Error \<Rightarrow> vnc_end r)"

definition vnc_advance :: "(vnc, unit) net" where
  "vnc_advance = until_still 5 vnc_step"

section \<open>Web server\<close>

record web = redirector +
  web_client :: sock
  web_serverAddress :: string

definition web_redirector :: "bool \<Rightarrow> poll_answer list \<Rightarrow> (bool \<times> int) list \<Rightarrow> int \<Rightarrow> sock \<Rightarrow> string \<Rightarrow> web" where
  "web_redirector ok answers connects now k address = redirector.extend
     ((batch_redirector ok answers)\<lparr>red_timeout := now + 10, red_connects := connects\<rparr>) \<lparr>web_client = k, web_serverAddress = address\<rparr>"

definition on_client :: "(sock, 'a) net \<Rightarrow> (web, 'a) net" where
  "on_client = on_part web_client (\<lambda>k r. r\<lparr>web_client := k\<rparr>)"

definition regServerAddress :: vplregex where
  "regServerAddress = vplregex_extended (seqs [Grp 1 (seqs [Lit ''127.'', Digits, Lit ''.'', Digits, Lit ''.'', Digits]),
     Lit '':'', Grp 2 Digits])"

definition web_connecting :: "(web, unit) net" where
  "web_connecting r = (case vplregex_search regServerAddress (web_serverAddress r) 3 of
      None \<Rightarrow> go_to Error r
    | Some match \<Rightarrow> try_connect (sin_addr (match ! 1), htons (atoi (match ! 2)))
        (\<lambda>r. r\<lparr>red_netbuf := sk_header (web_client r), red_taken := sk_header (web_client r)\<rparr>) r)"

definition web_input :: "(web, bool) net" where
  "web_input = net_bind (on_client (receive_from 0)) (\<lambda>got. net_then
     (net_modify (\<lambda>r. r\<lparr>red_netbuf := red_netbuf r @ got, red_taken := red_taken r @ got\<rparr>)) (net_return True))"

definition web_connected :: "(web, unit) net" where
  "web_connected = server_connected (\<lambda>r. sk_closed (web_client r)) (\<lambda>r. sk_readBuffer (web_client r) \<noteq> [])
     (\<lambda>b. on_client (socket_send b False)) web_input"

definition web_end :: "(web, unit) net" where
  "web_end = net_modify (\<lambda>r. if sk_closed (web_client r) then r else r\<lparr>web_client := socket_close (web_client r)\<rparr>)"

definition web_step :: "(web, unit) net" where
  "web_step r = (case red_state r of
      Begin \<Rightarrow> begin_socket r
    | Connecting \<Rightarrow> web_connecting r
    | Connected \<Rightarrow> web_connected r
    | Ending \<Rightarrow> go_to End r
    | End \<Rightarrow> web_end r
    | Error \<Rightarrow> web_end r)"

definition web_advance :: "(web, unit) net" where
  "web_advance = until_still 5 web_step"

section \<open>Every machine goes forward\<close>

fun rank :: "rstate \<Rightarrow> nat" where
  "rank Begin = 0"
| "rank Connecting = 1"
| "rank Connected = 2"
| "rank Ending = 3"
| "rank End = 4"
| "rank Error = 4"

definition forward :: "rstate \<Rightarrow> rstate \<Rightarrow> bool" where
  "forward a b \<longleftrightarrow> a = b \<or> rank a < rank b"

lemma rank_le: "rank s \<le> 4"
  by (cases s) simp_all

lemma forward_trans: "forward a b \<Longrightarrow> forward b c \<Longrightarrow> forward a c"
  by (auto simp: forward_def)

lemma forward_refl [simp]: "forward a a"
  by (simp add: forward_def)

text \<open>What one step reaches from one state and answers of the network.\<close>

definition moves :: "('s, unit) net \<Rightarrow> 's \<times> round list \<Rightarrow> 's \<times> round list \<Rightarrow> bool" where
  "moves step c d \<longleftrightarrow> step (fst c) (snd c) = Some ((fst d, Inr ()), snd d)"

locale state_machine =
  fixes step :: "('a redirector_scheme, unit) net"
  assumes step_forward: "step r rs = Some ((r', v), rs') \<Longrightarrow> forward (red_state r) (red_state r')"
begin

lemma fuel_same: "4 < n + rank (red_state r) \<Longrightarrow> 4 < m + rank (red_state r) \<Longrightarrow> until_still n step r rs = until_still m step r rs"
proof (induction n arbitrary: m r rs)
  case 0
  then show ?case using rank_le [of "red_state r"] by simp
next
  case (Suc n)
  then obtain k where m: "m = Suc k" using rank_le [of "red_state r"] by (cases m) auto
  have "until_still n step r' rs' = until_still k step r' rs'"
    if "step r rs = Some ((r', Inr u), rs')" "red_state r' \<noteq> red_state r" for r' u rs'
    using step_forward [OF that(1)] that(2) Suc.prems unfolding m by (intro Suc.IH) (auto simp: forward_def)
  then show ?case unfolding m by (auto split: option.splits sum.splits)
qed

text \<open>So five steps are enough: the loop ends, or a step of it waits for an answer.\<close>

lemma advance_returns:
  "until_still n step r rs = None \<Longrightarrow> 4 < n + rank (red_state r) \<Longrightarrow>
    \<exists>c. (moves step)\<^sup>*\<^sup>* (r, rs) c \<and> step (fst c) (snd c) = None"
proof (induction n arbitrary: r rs)
  case 0
  then show ?case using rank_le [of "red_state r"] by simp
next
  case (Suc n)
  show ?case
  proof (cases "step r rs")
    case None
    then show ?thesis by (intro exI [of _ "(r, rs)"]) simp
  next
    case (Some a)
    then obtain r' u rs' where a: "step r rs = Some ((r', Inr u), rs')" "red_state r' \<noteq> red_state r" "until_still n step r' rs' = None"
      using Suc.prems(1) by (auto split: prod.splits sum.splits if_splits)
    then have "4 < n + rank (red_state r')" using step_forward [OF a(1)] Suc.prems(2) by (auto simp: forward_def)
    from Suc.IH [OF a(3) this] obtain c where c: "(moves step)\<^sup>*\<^sup>* (r', rs') c" "step (fst c) (snd c) = None" by blast
    have "moves step (r, rs) (r', rs')" using a(1) by (simp add: moves_def)
    with c show ?thesis by (blast intro: converse_rtranclp_into_rtranclp)
  qed
qed

lemma advance_keeps:
  assumes "\<And>r. P r \<Longrightarrow> net_ends P (step r)" "P r"
  shows "net_ends P (until_still n step r)"
  using assms(2)
proof (induction n arbitrary: r)
  case (Suc n)
  have s: "P r'" if "step r rs = Some ((r', v), rs')" for r' v rs rs'
    using net_endsD [OF assms(1) [OF Suc.prems] that] .
  show ?case
    unfolding net_ends_def
  proof (intro allI impI)
    fix rs r'' v rs'' assume run: "until_still (Suc n) step r rs = Some ((r'', v), rs'')"
    then obtain r' w rs' where a: "step r rs = Some ((r', w), rs')" by (auto split: option.splits)
    show "P r''"
    proof (cases w)
      case (Inl e)
      with run a have "r'' = r'" by simp
      then show ?thesis using s [OF a] by simp
    next
      case (Inr u)
      then show ?thesis using run a s [OF a] net_endsD [OF Suc.IH [OF s [OF a]]] by (auto split: if_splits)
    qed
  qed
qed (simp add: net_ends_def)

lemma advance_forward: "until_still n step r rs = Some ((r', v), rs') \<Longrightarrow> forward (red_state r) (red_state r')"
proof -
  have "net_ends (\<lambda>r'. forward (red_state r) (red_state r')) (until_still n step r)"
    by (rule advance_keeps) (auto simp: net_ends_def dest!: step_forward intro: forward_trans)
  then show "until_still n step r rs = Some ((r', v), rs') \<Longrightarrow> forward (red_state r) (red_state r')" by (rule net_endsD)
qed

lemma inactive_for_good: "until_still n step r rs = Some ((r', v), rs') \<Longrightarrow> \<not> isActive r \<Longrightarrow> red_state r' = red_state r"
  by (drule advance_forward, cases "red_state r'") (auto simp: forward_def isActive_def)

end

section \<open>Rules for the pieces of a step\<close>

lemma ends_go_to [net_rules]: "P (r\<lparr>red_state := st\<rparr>) \<Longrightarrow> net_ends P (go_to st r)"
  unfolding go_to_def by (rule net_ends_modify)

lemma ends_leave_to [net_rules]: "P (r\<lparr>red_state := st\<rparr>) \<Longrightarrow> net_ends P (leave_to st r)"
  unfolding leave_to_def by (intro net_rules)

lemma ends_poll [net_rules]: "(\<And>as. P (r\<lparr>red_answers := as\<rparr>)) \<Longrightarrow> net_ends P (red_poll r)"
  by (auto simp: net_ends_def red_poll_def split: list.splits)

lemma ends_on_ws [net_rules]: "(\<And>w. P (r\<lparr>red_ws := w\<rparr>)) \<Longrightarrow> net_ends P (on_ws m r)"
  unfolding on_ws_def by (rule net_ends_part)

lemma ends_on_client [net_rules]: "(\<And>k. P (r\<lparr>web_client := k\<rparr>)) \<Longrightarrow> net_ends P (on_client m r)"
  unfolding on_client_def by (rule net_ends_part)

lemma ends_ask_ws [net_rules]: "P r \<Longrightarrow> net_ends P (ask_ws q r)"
  unfolding ask_ws_def by (rule net_ends_return)

lemma ends_piece_if [net_rules]: "P r \<Longrightarrow> (b \<Longrightarrow> net_ends P (m r)) \<Longrightarrow> net_ends P (piece_if b m r)"
  by (simp add: piece_if_def net_rules)

lemma ends_in_turn: "(\<And>m r. m \<in> set ms \<Longrightarrow> P r \<Longrightarrow> net_ends P (m r)) \<Longrightarrow> P r \<Longrightarrow> net_ends P (in_turn ms r)"
  by (induction ms arbitrary: r) (auto intro!: net_ends_return net_ends_bind)

text \<open>
  What a step from the connected state keeps. A property of the buffers that does not look at the state, the answers or the
  messages is kept when taking input, writing it and sending output keep it.
\<close>

definition blind :: "('a redirector_scheme \<Rightarrow> bool) \<Rightarrow> bool" where
  "blind P \<longleftrightarrow> (\<forall>r as. P r \<longrightarrow> P (r\<lparr>red_answers := as\<rparr>)) \<and> (\<forall>r. P r \<longrightarrow> P (r\<lparr>red_state := Ending\<rparr>)) \<and>
     (\<forall>r. P r \<longrightarrow> P (r\<lparr>red_state := End\<rparr>)) \<and> (\<forall>r. P r \<longrightarrow> P (r\<lparr>red_state := Error\<rparr>)) \<and>
     (\<forall>r m. P r \<longrightarrow> P (r\<lparr>red_messageBuf := m\<rparr>)) \<and> (\<forall>r n. P r \<longrightarrow> P (r\<lparr>red_noOutput := n\<rparr>))"

lemma blindD:
  assumes "blind P" "P r"
  shows "P (r\<lparr>red_answers := as\<rparr>)" "P (r\<lparr>red_state := Ending\<rparr>)" "P (r\<lparr>red_state := End\<rparr>)" "P (r\<lparr>red_state := Error\<rparr>)"
    "P (r\<lparr>red_messageBuf := m\<rparr>)" "P (r\<lparr>red_noOutput := n\<rparr>)"
  using assms by (simp_all add: blind_def)

lemma ends_take_output:
  assumes P: "blind P" and r: "P r" and out: "\<And>b r. P r \<Longrightarrow> net_ends P (out b r)"
  shows "net_ends P (take_output a out r)"
  unfolding take_output_def using r by (cases a) (auto intro!: net_rules blindD [OF P] out)

lemma ends_take_input:
  assumes P: "blind P" and r: "P r" and ws: "\<And>r w. P r \<Longrightarrow> P (r\<lparr>red_ws := w\<rparr>)" and add: "\<And>b r. P r \<Longrightarrow> P (fst (add b r))"
  shows "net_ends P (take_input add r)"
  unfolding take_input_def
proof (rule net_ends_bind)
  show "net_ends P (on_ws ws_receive r)" by (rule ends_on_ws) (rule ws [OF r])
  fix got r' assume "P r'"
  then have "P (fst (add got r'))" by (rule add)
  then show "net_ends P (case add got r' of (r, ok) \<Rightarrow> if ok then net_return True r else leave_to Ending r)"
    by (auto intro!: net_rules blindD [OF P] split: prod.splits)
qed

lemma ends_answer_cases:
  assumes P: "blind P" and r: "P r" and ms: "\<And>m r. m \<in> set ms \<Longrightarrow> P r \<Longrightarrow> net_ends P (m r)"
  shows "net_ends P ((if pa_poll a = PollFail then go_to Error else if pa_poll a = PollIdle then net_return () else in_turn ms) r)"
  using r by (auto intro!: net_rules ends_in_turn ms blindD [OF P])

lemma ends_terminal_connected:
  fixes P :: "terminal \<Rightarrow> bool"
  assumes P: "blind P" and r: "P r" and ws: "\<And>r w. P r \<Longrightarrow> P (r\<lparr>red_ws := w\<rparr>)" and add: "\<And>b r. P r \<Longrightarrow> P (fst (addInput b r))"
    and wr: "\<And>a r. P r \<Longrightarrow> net_ends P (program_write a r)"
  shows "net_ends P (terminal_connected r)"
proof -
  have input: "net_ends P (take_input addInput r)" if "P r" for r by (rule ends_take_input [OF P that ws add])
  have send: "net_ends P (net_then (net_modify (\<lambda>r. r\<lparr>red_noOutput := False\<rparr>)) (on_ws (ws_send b TEXT_FRAME)) r)" if "P r" for b r
    using that by (intro net_rules ws blindD [OF P])
  have out: "net_ends P (take_output x (\<lambda>b. net_then (net_modify (\<lambda>r. r\<lparr>red_noOutput := False\<rparr>)) (on_ws (ws_send b TEXT_FRAME))) r)"
    if "P r" for x r
    by (rule ends_take_output [OF P that send])
  have answer: "net_ends P (terminal_answer wanted a r)" if "P r" for wanted a r
    unfolding terminal_answer_def Let_def
    by (rule ends_answer_cases [OF P that])
      (auto intro!: ends_piece_if ends_leave_to input out wr blindD(2) [OF P])
  show ?thesis
    unfolding terminal_connected_def
    by (rule ends_in_turn [of _ P, OF _ r])
      (auto intro!: net_ends_bind ends_piece_if ends_ask_ws net_ends_then ends_poll net_ends_return input answer blindD(1) [OF P])
qed

lemma ends_server_connected:
  assumes P: "blind P" and r: "P r" and out: "\<And>b r. P r \<Longrightarrow> net_ends P (out b r)" and input: "\<And>r. P r \<Longrightarrow> net_ends P (input r)"
    and wr: "\<And>a r. P r \<Longrightarrow> net_ends P (net_write a r)"
  shows "net_ends P (server_connected closed buffered out input r)"
proof -
  have o: "net_ends P (take_output x out r)" if "P r" for x r by (rule ends_take_output [OF P that out])
  have answer: "net_ends P (server_answer out input wanted a r)" if "P r" for wanted a r
    unfolding server_answer_def Let_def
    by (rule ends_answer_cases [OF P that])
      (auto intro!: ends_piece_if ends_leave_to input o wr blindD(2) [OF P])
  show ?thesis
    unfolding server_connected_def
    by (rule ends_in_turn [of _ P, OF _ r])
      (auto intro!: net_ends_bind ends_piece_if ends_leave_to net_ends_then ends_poll net_ends_return input answer blindD [OF P])
qed

text \<open>The steps go forward.\<close>

definition ahead :: "rstate \<Rightarrow> 'a redirector_scheme \<Rightarrow> bool" where
  "ahead st r \<longleftrightarrow> forward st (red_state r)"

lemma ahead_blind: "rank st \<le> 2 \<Longrightarrow> blind (ahead st)"
  by (auto simp: blind_def ahead_def forward_def)

lemma ahead_basic [simp]:
  "ahead st (r\<lparr>red_answers := as\<rparr>) = ahead st r" "ahead st (r\<lparr>red_state := s\<rparr>) = forward st s"
  "ahead st (r\<lparr>red_messageBuf := m\<rparr>) = ahead st r" "ahead st (r\<lparr>red_noOutput := n\<rparr>) = ahead st r"
  "ahead st (r\<lparr>red_netbuf := b\<rparr>) = ahead st r" "ahead st (r\<lparr>red_taken := b\<rparr>) = ahead st r"
  "ahead st (r\<lparr>red_programbuf := b\<rparr>) = ahead st r" "ahead st (r\<lparr>red_written := b\<rparr>) = ahead st r"
  "ahead st (r\<lparr>red_outputBufferCuted := c\<rparr>) = ahead st r" "ahead st (r\<lparr>red_connects := cs\<rparr>) = ahead st r"
  "ahead st (r\<lparr>red_peer := q\<rparr>) = ahead st r"
  by (simp_all add: ahead_def)

lemma ahead_parts [simp]: "ahead st (r\<lparr>red_ws := w\<rparr>) = ahead st r" "ahead st (v\<lparr>web_client := k\<rparr>) = ahead st v"
  by (simp_all add: ahead_def)

lemma ahead_add [simp]:
  "ahead st (fst (addInput b r)) = ahead st r" "ahead st (fst (addVNCInput b r)) = ahead st r" "ahead st (addOutput b r) = ahead st r"
  "ahead st (red_addMessage m r) = ahead st r"
  by (simp_all add: ahead_def addInput_def addVNCInput_def addOutput_def red_addMessage_def Let_def)

lemma ahead_write: "rank st \<le> 2 \<Longrightarrow> ahead st r \<Longrightarrow> net_ends (ahead st) (program_write a r)"
    "rank st \<le> 2 \<Longrightarrow> ahead st r \<Longrightarrow> net_ends (ahead st) (net_write a r)"
  by (cases a; auto simp: program_write_def net_write_def Let_def forward_def intro!: net_rules)+

lemma ahead_connect: "rank st \<le> 1 \<Longrightarrow> ahead st r \<Longrightarrow> (\<And>r. ahead st (f r) = ahead st r) \<Longrightarrow> net_ends (ahead st) (try_connect q f r)"
  by (auto simp: try_connect_def net_ends_def Let_def net_then_def net_bind_def net_modify_def go_to_def net_return_def
    forward_def split: list.splits prod.splits if_splits)

lemma step_forwardI: "net_ends (ahead (red_state r)) (step r) \<Longrightarrow> step r rs = Some ((r', v), rs') \<Longrightarrow> forward (red_state r) (red_state r')"
  by (auto dest!: net_endsD simp: ahead_def)

lemma batch_connected_ahead: "ahead Connected r \<Longrightarrow> net_ends (ahead Connected) (batch_connected r)"
proof -
  have read: "net_ends (ahead Connected) (batch_read a r)" if "ahead Connected r" for a r
    using that by (cases a) (auto simp: batch_read_def batch_take_def forward_def intro!: net_rules)
  show "ahead Connected r \<Longrightarrow> net_ends (ahead Connected) (batch_connected r)"
    unfolding batch_connected_def Let_def by (auto simp: forward_def intro!: net_rules read)
qed

lemma begin_ahead: "red_state r = Begin \<Longrightarrow> net_ends (ahead Begin) (begin_terminal r)" "red_state r = Begin \<Longrightarrow> net_ends (ahead Begin) (begin_socket r)"
  by (auto simp: begin_terminal_def begin_socket_def forward_def intro!: net_rules)

lemma batch_step_ahead: "net_ends (ahead (red_state r)) (batch_step r)"
  using batch_connected_ahead [of r] begin_ahead(1) [of r]
  by (cases "red_state r") (auto simp: batch_step_def ahead_def forward_def intro!: net_rules)

interpretation batch: state_machine batch_step
  by unfold_locales (rule step_forwardI [OF batch_step_ahead])

lemma ahead_go: "forward a b \<Longrightarrow> net_ends (ahead a) (go_to b r)"
  by (rule ends_go_to) simp

lemma ahead_same: "net_ends (\<lambda>r'. red_state r' = red_state r) c \<Longrightarrow> red_state r = st \<Longrightarrow> net_ends (ahead st) c"
  by (simp add: net_ends_def ahead_def)

lemma ahead_self: "red_state r = st \<Longrightarrow> ahead st r"
  by (simp add: ahead_def)

lemma terminal_end_ahead: "net_ends (\<lambda>r'. red_state r' = red_state r) (terminal_end r)"
proof -
  have m: "red_state (red_addMessage m r) = red_state r" for m and r :: terminal by (simp add: red_addMessage_def)
  show ?thesis
    unfolding terminal_end_def by (auto simp: m intro!: net_rules)
qed

lemma terminal_step_ahead: "net_ends (ahead (red_state r)) (terminal_step r)"
proof -
  have c: "net_ends (ahead Connected) (terminal_connected r)" if "ahead Connected r"
    by (rule ends_terminal_connected [OF ahead_blind that]) (auto intro: ahead_write)
  show ?thesis
  proof (cases "red_state r")
    case Begin
    then show ?thesis using begin_ahead(1) [of r] by (simp add: terminal_step_def)
  next
    case Connecting
    then show ?thesis using ahead_go [of Connecting Connected r] by (simp add: terminal_step_def forward_def)
  next
    case Connected
    then show ?thesis using c ahead_self [OF Connected] by (simp add: terminal_step_def)
  next
    case Ending
    then show ?thesis using ahead_go [of Ending End r] by (simp add: terminal_step_def forward_def)
  next
    case End
    then show ?thesis using ahead_same [OF terminal_end_ahead End] by (simp add: terminal_step_def)
  next
    case Error
    then show ?thesis using ahead_same [OF terminal_end_ahead Error] by (simp add: terminal_step_def)
  qed
qed

interpretation terminal: state_machine terminal_step
  by unfold_locales (rule step_forwardI [OF terminal_step_ahead])

lemma connecting_ahead:
  "red_state r = Connecting \<Longrightarrow> (\<And>r. ahead Connecting (f r) = ahead Connecting r) \<Longrightarrow> net_ends (ahead Connecting) (try_connect q f r)"
  by (rule ahead_connect) (simp_all add: ahead_def)

lemma vnc_step_ahead: "net_ends (ahead (red_state r)) (vnc_step r)"
proof -
  have c: "net_ends (ahead Connected) (vnc_connected r)" if "ahead Connected r"
    unfolding vnc_connected_def
    by (rule ends_server_connected [OF ahead_blind that])
      (auto intro!: ahead_write ends_on_ws ends_take_input [OF ahead_blind])
  have e: "net_ends (\<lambda>r'. red_state r' = red_state r) (vnc_end r)"
    unfolding vnc_end_def by (auto intro!: net_rules)
  show ?thesis
  proof (cases "red_state r")
    case Begin
    then show ?thesis using begin_ahead(2) [of r] by (simp add: vnc_step_def)
  next
    case Connecting
    then show ?thesis using connecting_ahead [of r "\<lambda>r. r"] by (simp add: vnc_step_def forward_def)
  next
    case Connected
    then show ?thesis using c ahead_self [OF Connected] by (simp add: vnc_step_def)
  next
    case Ending
    then show ?thesis using ahead_go [of Ending End r] by (simp add: vnc_step_def forward_def)
  next
    case End
    then show ?thesis using ahead_same [OF e End] by (simp add: vnc_step_def)
  next
    case Error
    then show ?thesis using ahead_same [OF e Error] by (simp add: vnc_step_def)
  qed
qed

interpretation vnc: state_machine vnc_step
  by unfold_locales (rule step_forwardI [OF vnc_step_ahead])

lemma web_step_ahead: "net_ends (ahead (red_state r)) (web_step r)"
proof -
  have i: "net_ends (ahead Connected) (web_input r)" if "ahead Connected r" for r
    using that unfolding web_input_def by (auto intro!: net_rules)
  have c: "net_ends (ahead Connected) (web_connected r)" if "ahead Connected r"
    unfolding web_connected_def
    by (rule ends_server_connected [OF ahead_blind that]) (auto intro!: ahead_write ends_on_client i)
  have g: "net_ends (ahead Connecting) (web_connecting r)" if "red_state r = Connecting"
    using that unfolding web_connecting_def
    by (auto intro!: connecting_ahead net_rules simp: forward_def split: option.split)
  have e: "net_ends (\<lambda>r'. red_state r' = red_state r) (web_end r)"
    unfolding web_end_def by (auto intro!: net_rules)
  show ?thesis
  proof (cases "red_state r")
    case Begin
    then show ?thesis using begin_ahead(2) [of r] by (simp add: web_step_def)
  next
    case Connecting
    then show ?thesis using g by (simp add: web_step_def forward_def)
  next
    case Connected
    then show ?thesis using c ahead_self [OF Connected] by (simp add: web_step_def)
  next
    case Ending
    then show ?thesis using ahead_go [of Ending End r] by (simp add: web_step_def forward_def)
  next
    case End
    then show ?thesis using ahead_same [OF e End] by (simp add: web_step_def)
  next
    case Error
    then show ?thesis using ahead_same [OF e Error] by (simp add: web_step_def)
  qed
qed

interpretation web: state_machine web_step
  by unfold_locales (rule step_forwardI [OF web_step_ahead])

section \<open>The output of a batch run\<close>

text \<open>
  What is kept of a text: the text, when it is within twice the limit; otherwise at most that, beginning and ending with what
  the text begins and ends with.
\<close>

definition kept_output :: "nat \<Rightarrow> string \<Rightarrow> string \<Rightarrow> bool" where
  "kept_output limit s out \<longleftrightarrow> length out \<le> 2 * limit \<and>
     (if length s \<le> 2 * limit then out = s
      else limit div 2 \<le> length out \<and> take (limit div 2) out = take (limit div 2) s \<and>
        drop (length out - limit div 2) out = drop (length s - limit div 2) s)"

lemma drop_suffix:
  assumes "h \<le> length a" "h \<le> length s" "drop (length a - h) a = drop (length s - h) s"
  shows "drop (length (a @ b) - h) (a @ b) = drop (length (s @ b) - h) (s @ b)"
proof -
  define t where "t = drop (length s - h) s"
  have t: "length t = h" using assms(2) by (simp add: t_def)
  obtain a' s' where "a = a' @ t" "s = s' @ t"
    using assms(3) by (metis append_take_drop_id t_def)
  moreover have "drop (length (c @ t @ b) - h) (c @ t @ b) = drop (length b) (t @ b)" for c
    using t by simp
  ultimately show ?thesis by simp
qed

lemma three_parts:
  assumes "length p = h" "length w = h"
  shows "take h (p @ q @ w) = p" "length (p @ q @ w) = h + length q + h" "drop (length (p @ q @ w) - h) (p @ q @ w) = w"
  using assms by simp_all

lemma length_cut_text: "length cut_text \<le> 100"
proof -
  have c: "cut_limit = itos 10240 @ ''K''"
    by (simp add: cut_limit_def jail_output_buffer_size_def bytesToMemSize_def gb_def mb_def kb_def)
  have "length (itos 10240) = 5" by (simp add: itos_def nat_digits.simps)
  then have "length cut_limit = 6" unfolding c by simp
  then show ?thesis by (simp add: cut_text_def)
qed

lemma kept_addOutput:
  assumes "kept_output jail_output_buffer_size s (red_netbuf r)"
  shows "kept_output jail_output_buffer_size (s @ b) (red_netbuf (addOutput b r))"
proof (cases "b = []")
  case True
  then show ?thesis using assms by (simp add: addOutput_def)
next
  case False
  let ?L = jail_output_buffer_size and ?n = "red_netbuf r"
  let ?h = "?L div 2" and ?o = "?n @ b"
  have big: "100 \<le> ?L" by (simp add: jail_output_buffer_size_def)
  show ?thesis
  proof (cases "length ?n + length b > 2 * ?L")
    case True
    have n: "red_netbuf (addOutput b r) = take ?h ?o @ cut_text @ drop (length ?o - ?h) ?o"
      using True False by (simp add: addOutput_def Let_def red_addMessage_def substr_def)
    have l: "?h \<le> length ?o" "?h \<le> length ?n + length b" using True by simp_all
    have "length s \<le> 2 * ?L \<or> ?h \<le> length ?n" using assms by (auto simp: kept_output_def split: if_splits)
    have s: "length (s @ b) > 2 * ?L"
      using assms True by (auto simp: kept_output_def split: if_splits)
    have keep: "take ?h ?o = take ?h (s @ b) \<and> drop (length ?o - ?h) ?o = drop (length (s @ b) - ?h) (s @ b)"
    proof (cases "length s \<le> 2 * ?L")
      case True
      then show ?thesis using assms by (simp add: kept_output_def)
    next
      case False
      then have k: "?h \<le> length ?n" "take ?h ?n = take ?h s" "drop (length ?n - ?h) ?n = drop (length s - ?h) s" "?h \<le> length s"
        using assms by (simp_all add: kept_output_def)
      then show ?thesis using drop_suffix [OF k(1,4,3), of b] by simp
    qed
    have p: "length (take ?h ?o) = ?h" "length (drop (length ?o - ?h) ?o) = ?h" using l(1) by simp_all
    note out = three_parts [OF p, of cut_text, folded n]
    have "length (red_netbuf (addOutput b r)) \<le> 2 * ?L" "?h \<le> length (red_netbuf (addOutput b r))"
      using out(2) big length_cut_text by linarith+
    moreover have "\<not> length (s @ b) \<le> 2 * ?L" using s by simp
    ultimately show ?thesis unfolding kept_output_def out(1,3) using keep by presburger
  next
    case le: False
    then have n: "red_netbuf (addOutput b r) = ?o" using False by (simp add: addOutput_def Let_def)
    show ?thesis
    proof (cases "length s \<le> 2 * ?L")
      case True
      then show ?thesis using assms le n by (simp add: kept_output_def)
    next
      case False
      then have k: "?h \<le> length ?n" "take ?h ?n = take ?h s" "drop (length ?n - ?h) ?n = drop (length s - ?h) s" "?h \<le> length s"
        using assms by (simp_all add: kept_output_def)
      then show ?thesis using drop_suffix [OF k(1,4,3), of b] False le unfolding kept_output_def n by simp
    qed
  qed
qed

text \<open>What the code does with the redirector of a batch run.\<close>

inductive batch_reachable :: "redirector \<Rightarrow> bool" where
  batch_new: "batch_reachable (batch_redirector ok answers)"
| batch_advanced: "batch_reachable r \<Longrightarrow> batch_advance r rs = Some ((r', v), rs') \<Longrightarrow> batch_reachable r'"
| batch_told: "batch_reachable r \<Longrightarrow> batch_reachable (batch_addMessage m r)"
| batch_stopped: "batch_reachable r \<Longrightarrow> batch_reachable (red_stop r)"

definition batch_ok :: "redirector \<Rightarrow> bool" where
  "batch_ok r \<longleftrightarrow> kept_output jail_output_buffer_size (red_taken r) (red_netbuf r)"

lemma batch_ok_basic [simp]:
  "batch_ok (r\<lparr>red_answers := as\<rparr>) = batch_ok r" "batch_ok (r\<lparr>red_state := st\<rparr>) = batch_ok r"
  "batch_ok (r\<lparr>red_messageBuf := m\<rparr>) = batch_ok r"
  by (simp_all add: batch_ok_def)

lemma batch_ok_take: "batch_ok r \<Longrightarrow> batch_ok (batch_take b r)"
  using kept_addOutput [of "red_taken r" r b] by (simp add: batch_ok_def batch_take_def)

lemma batch_ok_step: "batch_ok r \<Longrightarrow> net_ends batch_ok (batch_step r)"
proof -
  assume ok: "batch_ok r"
  have read: "net_ends batch_ok (batch_read a r)" if "batch_ok r" for a r
    using that by (cases a) (auto simp: batch_read_def intro!: net_rules batch_ok_take)
  have c: "net_ends batch_ok (batch_connected r)"
    unfolding batch_connected_def Let_def using ok by (auto intro!: net_rules read)
  show ?thesis
    using ok c by (cases "red_state r") (simp_all add: batch_step_def begin_terminal_def net_rules)
qed

lemma batch_reachable_ok: "batch_reachable r \<Longrightarrow> batch_ok r"
proof (induction rule: batch_reachable.induct)
  case (batch_new ok answers)
  then show ?case by (simp add: batch_ok_def batch_redirector_def kept_output_def)
next
  case (batch_advanced r rs r' v rs')
  have "net_ends batch_ok (until_still 5 batch_step r)" by (rule batch.advance_keeps [OF batch_ok_step batch_advanced(3)])
  from net_endsD [OF this batch_advanced(2) [unfolded batch_advance_def]] show ?case .
qed (simp_all add: batch_addMessage_def red_stop_def)

section \<open>Input is passed on whole and in order\<close>

inductive terminal_reachable :: "terminal \<Rightarrow> bool" where
  terminal_new: "terminal_reachable (terminal_redirector ok answers w)"
| terminal_advanced: "terminal_reachable r \<Longrightarrow> terminal_advance r rs = Some ((r', v), rs') \<Longrightarrow> terminal_reachable r'"
| terminal_told: "terminal_reachable r \<Longrightarrow> terminal_reachable (red_addMessage m r)"
| terminal_stopped: "terminal_reachable r \<Longrightarrow> terminal_reachable (red_stop r)"

inductive vnc_reachable :: "vnc \<Rightarrow> bool" where
  vnc_new: "vnc_reachable (vnc_redirector ok answers connects now w port)"
| vnc_advanced: "vnc_reachable r \<Longrightarrow> vnc_advance r rs = Some ((r', v), rs') \<Longrightarrow> vnc_reachable r'"
| vnc_stopped: "vnc_reachable r \<Longrightarrow> vnc_reachable (red_stop r)"

inductive web_reachable :: "web \<Rightarrow> bool" where
  web_new: "web_reachable (web_redirector ok answers connects now k address)"
| web_advanced: "web_reachable r \<Longrightarrow> web_advance r rs = Some ((r', v), rs') \<Longrightarrow> web_reachable r'"
| web_stopped: "web_reachable r \<Longrightarrow> web_reachable (red_stop r)"

definition typed_ok :: "'a redirector_scheme \<Rightarrow> bool" where
  "typed_ok r \<longleftrightarrow> red_taken r = red_written r @ red_programbuf r \<and> length (red_programbuf r) \<le> jail_websocket_frame_size_limit"

definition passed_ok :: "'a redirector_scheme \<Rightarrow> bool" where
  "passed_ok r \<longleftrightarrow> red_taken r = red_written r @ red_netbuf r"

lemma typed_ok_basic [simp]:
  "typed_ok (r\<lparr>red_answers := as\<rparr>) = typed_ok r" "typed_ok (r\<lparr>red_state := st\<rparr>) = typed_ok r"
  "typed_ok (r\<lparr>red_messageBuf := m\<rparr>) = typed_ok r" "typed_ok (r\<lparr>red_noOutput := n\<rparr>) = typed_ok r"
  "typed_ok (t\<lparr>red_ws := w\<rparr>) = typed_ok t" "typed_ok (red_addMessage m r) = typed_ok r"
  by (simp_all add: typed_ok_def red_addMessage_def)

lemma typed_blind: "blind typed_ok"
  by (simp add: blind_def)

lemma typed_input: "typed_ok r \<Longrightarrow> typed_ok (fst (addInput b r))"
  by (auto simp: typed_ok_def addInput_def red_addMessage_def)

lemma typed_write: "typed_ok r \<Longrightarrow> net_ends typed_ok (program_write a r)"
  by (cases a) (auto simp: program_write_def typed_ok_def Let_def intro!: net_rules)

lemma terminal_typed: "typed_ok r \<Longrightarrow> net_ends typed_ok (terminal_step r)"
proof -
  assume r: "typed_ok r"
  have c: "net_ends typed_ok (terminal_connected r)"
    by (rule ends_terminal_connected [OF typed_blind r]) (auto intro: typed_input typed_write)
  have e: "net_ends typed_ok (terminal_end r)"
    unfolding terminal_end_def using r by (auto intro!: net_rules)
  show ?thesis using r c e by (cases "red_state r") (simp_all add: terminal_step_def begin_terminal_def net_rules)
qed

lemma terminal_reachable_typed: "terminal_reachable r \<Longrightarrow> typed_ok r"
proof (induction rule: terminal_reachable.induct)
  case (terminal_new ok answers w)
  then show ?case by (simp add: typed_ok_def terminal_redirector_def batch_redirector_def redirector.defs)
next
  case (terminal_advanced r rs r' v rs')
  have "net_ends typed_ok (until_still 5 terminal_step r)" by (rule terminal.advance_keeps [OF terminal_typed terminal_advanced(3)])
  from net_endsD [OF this terminal_advanced(2) [unfolded terminal_advance_def]] show ?case .
qed (simp_all add: red_stop_def)

text \<open>Input for a server is bounded only for VNC.\<close>

lemma passed_ok_basic [simp]:
  "passed_ok (r\<lparr>red_answers := as\<rparr>) = passed_ok r" "passed_ok (r\<lparr>red_state := st\<rparr>) = passed_ok r"
  "passed_ok (r\<lparr>red_messageBuf := m\<rparr>) = passed_ok r" "passed_ok (r\<lparr>red_noOutput := n\<rparr>) = passed_ok r"
  "passed_ok (r\<lparr>red_connects := cs\<rparr>) = passed_ok r" "passed_ok (r\<lparr>red_peer := q\<rparr>) = passed_ok r"
  "passed_ok (t\<lparr>red_ws := w\<rparr>) = passed_ok t" "passed_ok (u\<lparr>web_client := k\<rparr>) = passed_ok u"
  by (simp_all add: passed_ok_def)

definition vnc_ok :: "vnc \<Rightarrow> bool" where
  "vnc_ok r \<longleftrightarrow> passed_ok r \<and> length (red_netbuf r) \<le> jail_websocket_frame_size_limit \<and>
     (\<forall>ip port. red_peer r = Some (ip, port) \<longrightarrow> ip = [127, 0, 0, 1])"

lemma vnc_blind: "blind vnc_ok"
  by (simp add: blind_def vnc_ok_def)

lemma vnc_input: "vnc_ok r \<Longrightarrow> vnc_ok (fst (addVNCInput b r))"
  by (auto simp: vnc_ok_def passed_ok_def addVNCInput_def)

lemma vnc_write: "vnc_ok r \<Longrightarrow> net_ends vnc_ok (net_write a r)"
  by (cases a) (auto simp: net_write_def vnc_ok_def passed_ok_def Let_def intro!: net_rules)

lemma try_connect_ends:
  "(\<And>cs. P (r\<lparr>red_connects := cs\<rparr>)) \<Longrightarrow> (\<And>cs. P (r\<lparr>red_connects := cs, red_state := Error\<rparr>)) \<Longrightarrow>
    (\<And>cs. P ((f (r\<lparr>red_connects := cs, red_peer := Some q\<rparr>))\<lparr>red_state := Connected\<rparr>)) \<Longrightarrow> net_ends P (try_connect q f r)"
  by (auto simp: try_connect_def net_ends_def Let_def net_then_def net_bind_def net_modify_def go_to_def net_return_def
    split: list.splits prod.splits if_splits)

lemma localhost: "sin_addr ''127.0.0.1'' = [127, 0, 0, 1]"
  by code_simp

lemma vnc_step_ok: "vnc_ok r \<Longrightarrow> net_ends vnc_ok (vnc_step r)"
proof -
  assume r: "vnc_ok r"
  have w: "vnc_ok (r\<lparr>red_ws := w\<rparr>)" if "vnc_ok r" for r w using that by (simp add: vnc_ok_def)
  have c: "net_ends vnc_ok (vnc_connected r)"
    unfolding vnc_connected_def
    by (rule ends_server_connected [OF vnc_blind r])
      (auto intro!: vnc_write ends_on_ws w ends_take_input [OF vnc_blind] vnc_input)
  have e: "net_ends vnc_ok (vnc_end r)" unfolding vnc_end_def using r by (auto intro!: net_rules w)
  have k: "net_ends vnc_ok (try_connect (sin_addr ''127.0.0.1'', p) (\<lambda>r. r) r)" for p
    by (rule try_connect_ends) (use r in \<open>simp_all add: vnc_ok_def localhost\<close>)
  show ?thesis using r c e k
    by (cases "red_state r") (simp_all add: vnc_step_def begin_socket_def net_rules vnc_ok_def)
qed

lemma vnc_reachable_ok: "vnc_reachable r \<Longrightarrow> vnc_ok r"
proof (induction rule: vnc_reachable.induct)
  case (vnc_new ok answers connects now w port)
  then show ?case
    by (simp add: vnc_ok_def passed_ok_def vnc_redirector_def terminal_redirector_def batch_redirector_def redirector.defs terminal.defs)
next
  case (vnc_advanced r rs r' v rs')
  have "net_ends vnc_ok (until_still 5 vnc_step r)" by (rule vnc.advance_keeps [OF vnc_step_ok vnc_advanced(3)])
  from net_endsD [OF this vnc_advanced(2) [unfolded vnc_advance_def]] show ?case .
qed (simp_all add: red_stop_def vnc_ok_def)

section \<open>Requests are passed on to the machine itself\<close>

lemma server_address:
  assumes "vplregex_search regServerAddress address 3 = Some match"
  shows "is_prefix ''127.'' (match ! 1)"
proof -
  let ?s = "c_str address"
  obtain i j c where e: "regexec regServerAddress ?s = Some (i, j, c)" "match = map (group_text address i j c) [0..<3]"
    using assms by (auto simp: vplregex_search_def split: option.splits)
  have "rx_run regServerAddress ?s (rx_pattern regServerAddress) i Map.empty j c" by (rule regexec_Some(4) [OF e(1)])
  then obtain d where d: "c 1 = Some (i, d)" "i + 4 < d" "d \<le> length ?s" "\<forall>k < 4. ?s ! (i + k) = ''127.'' ! k"
    unfolding regServerAddress_def Digits_def extended_simps seqs.simps rx_run.simps
    by (auto dest!: rx_run_Lit simp: numeral_eq_Suc simp del: rx_run.simps Lit.simps)
  have l: "length ?s \<le> length address" by (simp add: c_str_def length_takeWhile_le)
  have n: "?s ! k = address ! k" if "k < length ?s" for k using that by (simp add: c_str_def takeWhile_nth)
  have m: "match ! 1 = take (d - i) (drop i address)"
    using e(2) d(1) by (simp add: upt_groups group_text_def max_match_def substr_def)
  have "take 4 (match ! 1) = ''127.''"
  proof (rule nth_equalityI)
    show "length (take 4 (match ! 1)) = length ''127.''" using d(2,3) l unfolding m by simp
    fix k assume "k < length (take 4 (match ! 1))"
    then have k: "k < 4" by simp
    then have "take 4 (match ! 1) ! k = address ! (i + k)" using d(2,3) l unfolding m by simp
    also have "\<dots> = ''127.'' ! k" using d(2,3,4) k n [of "i + k"] by simp
    finally show "take 4 (match ! 1) ! k = ''127.'' ! k" .
  qed
  then show ?thesis by (simp add: is_prefix_take numeral_eq_Suc)
qed

text \<open>An address of the machine itself: of the loopback network, or the one that stands for the machine when connected to.\<close>

definition local_address :: "nat list \<Rightarrow> bool" where
  "local_address a \<longleftrightarrow> (\<exists>b c d. a = [127, b, c, d] \<and> b \<le> 255 \<and> c \<le> 255 \<and> d \<le> 255) \<or> a = [0, 0, 0, 0]"

lemma sin_addr_local:
  assumes "is_prefix ''127.'' text"
  shows "local_address (sin_addr text)"
proof (cases "inet_pton text")
  case None
  then show ?thesis by (simp add: sin_addr_def local_address_def)
next
  case (Some a)
  from assms obtain r where r: "text = ''127.'' @ r" by (auto simp: is_prefix_append)
  define w where "w = map digits_value (dotted [] r)"
  have parts: "dotted [] text = ''127'' # dotted [] r" unfolding r by simp
  have v: "digits_value ''127'' = 127" by code_simp
  have a: "a = 127 # w" "length w = 3" "\<forall>x \<in> set w. x \<le> 255"
    using Some unfolding inet_pton_def Let_def parts w_def by (auto simp: v is_octet_def split: if_splits)
  then obtain b c d where "w = [b, c, d]" by (auto simp: numeral_3_eq_3 length_Suc_conv)
  then show ?thesis using a Some by (simp add: sin_addr_def local_address_def)
qed

definition web_ok :: "web \<Rightarrow> bool" where
  "web_ok r \<longleftrightarrow> passed_ok r \<and> (rank (red_state r) \<le> 1 \<longrightarrow> red_written r = []) \<and>
     (\<forall>ip port. red_peer r = Some (ip, port) \<longrightarrow> local_address ip)"

definition web_going :: "web \<Rightarrow> bool" where
  "web_going r \<longleftrightarrow> web_ok r \<and> 2 \<le> rank (red_state r)"

lemma web_client_ok: "web_ok r \<Longrightarrow> web_ok (r\<lparr>web_client := k\<rparr>)" "web_going r \<Longrightarrow> web_going (r\<lparr>web_client := k\<rparr>)"
  by (simp_all add: web_ok_def web_going_def)

lemma web_connected_ok: "web_going r \<Longrightarrow> net_ends web_going (web_connected r)"
proof -
  assume r: "web_going r"
  have P: "blind web_going" by (simp add: blind_def web_going_def web_ok_def)
  have w: "net_ends web_going (net_write a r)" if "web_going r" for a r
    using that by (cases a) (auto simp: net_write_def web_going_def web_ok_def passed_ok_def Let_def intro!: net_rules)
  have i: "net_ends web_going (web_input r)" if "web_going r" for r
    unfolding web_input_def
    by (rule net_ends_bind, rule ends_on_client, rule web_client_ok(2) [OF that])
      (auto intro!: net_rules simp: web_going_def web_ok_def passed_ok_def)
  show ?thesis
    unfolding web_connected_def
    by (rule ends_server_connected [OF P r]) (auto intro!: ends_on_client web_client_ok i w)
qed

lemma web_step_ok: "web_ok r \<Longrightarrow> net_ends web_ok (web_step r)"
proof -
  assume r: "web_ok r"
  have c: "net_ends web_ok (web_connected r)" if "red_state r = Connected"
    using web_connected_ok [of r] r that by (simp add: web_going_def net_ends_def)
  have e: "net_ends web_ok (web_end r)" unfolding web_end_def using r by (auto intro!: net_rules web_client_ok)
  have g: "net_ends web_ok (web_connecting r)" if "red_state r = Connecting"
  proof (cases "vplregex_search regServerAddress (web_serverAddress r) 3")
    case None
    then show ?thesis using r by (auto simp: web_connecting_def web_ok_def intro!: net_rules)
  next
    case (Some match)
    have "net_ends web_ok (try_connect (sin_addr (match ! 1), htons (atoi (match ! 2)))
        (\<lambda>r. r\<lparr>red_netbuf := sk_header (web_client r), red_taken := sk_header (web_client r)\<rparr>) r)"
      by (rule try_connect_ends) (use r that sin_addr_local [OF server_address [OF Some]] in \<open>simp_all add: web_ok_def passed_ok_def\<close>)
    then show ?thesis using Some by (simp add: web_connecting_def)
  qed
  show ?thesis using r c e g
    by (cases "red_state r") (simp_all add: web_step_def begin_socket_def net_rules web_ok_def)
qed

lemma web_reachable_ok: "web_reachable r \<Longrightarrow> web_ok r"
proof (induction rule: web_reachable.induct)
  case (web_new ok answers connects now k address)
  then show ?case
    by (simp add: web_ok_def passed_ok_def web_redirector_def batch_redirector_def redirector.defs)
next
  case (web_advanced r rs r' v rs')
  have "net_ends web_ok (until_still 5 web_step r)" by (rule web.advance_keeps [OF web_step_ok web_advanced(3)])
  from net_endsD [OF this web_advanced(2) [unfolded web_advance_def]] show ?case .
qed (simp_all add: red_stop_def web_ok_def)

section \<open>A stopped terminal is closed\<close>

lemma red_addMessage_state [simp]: "red_state (red_addMessage m r) = red_state r" "red_ws (red_addMessage m t) = red_ws t"
  by (simp_all add: red_addMessage_def)

lemma ws_close_sent: "ws_close t w rs = Some ((w', Inr ()), rs') \<Longrightarrow> ws_closeSent w'"
  by (auto simp: ws_close_def ws_sendClose_def net_defs split: if_splits option.splits sum.splits)

lemma terminal_end_closes:
  "terminal_end r rs = Some ((r', Inr ()), rs') \<Longrightarrow> ws_isClosed (red_ws r') \<or> ws_closeSent (red_ws r')"
  unfolding terminal_end_def net_then_def net_bind_def net_modify_def ask_ws_def net_return_def on_ws_def on_part_def
  by (auto split: option.splits sum.splits if_splits dest!: ws_close_sent)

text \<open>A step that returns from a state that has been left for good is the end of \<open>advance\<close>.\<close>

lemma stopped_terminal_ends:
  assumes "terminal_advance (red_stop r) rs = Some ((r', Inr ()), rs')"
  shows "red_state r' = End \<and> (ws_isClosed (red_ws r') \<or> ws_closeSent (red_ws r'))"
proof -
  let ?e = "r\<lparr>red_state := End\<rparr>"
  have 1: "terminal_step (red_stop r) rs = Some ((?e, Inr ()), rs)"
    by (simp add: terminal_step_def red_stop_def go_to_def net_modify_def)
  have "until_still 4 terminal_step ?e rs = Some ((r', Inr ()), rs')"
    using assms 1 by (simp add: terminal_advance_def numeral_eq_Suc red_stop_def)
  then obtain r1 rs1 where r1: "terminal_end ?e rs = Some ((r1, Inr ()), rs1)"
      "red_state r1 = End \<Longrightarrow> r' = r1"
    by (auto simp: numeral_eq_Suc terminal_step_def split: option.splits prod.splits sum.splits if_splits)
  have "red_state r1 = End" using net_endsD [OF terminal_end_ahead r1(1)] by simp
  then show ?thesis using r1 terminal_end_closes [OF r1(1)] by simp
qed

section \<open>Properties\<close>

lemma five_rounds: "until_still 5 step = until_still (Suc (Suc (Suc (Suc (Suc 0))))) step"
  by (simp add: numeral_eq_Suc)

text \<open>A terminal of which one read is ready.\<close>

definition no_events :: events where
  "no_events = \<lparr>ev_in = False, ev_pri = False, ev_out = False, ev_err = False, ev_hup = False, ev_nval = False\<rparr>"

definition demo_read :: "string \<Rightarrow> poll_answer" where
  "demo_read b = \<lparr>pa_poll = PollReady, pa_program = no_events\<lparr>ev_in := True\<rparr>, pa_client = no_events, pa_read = ReadBytes b, pa_write = None\<rparr>"

definition demo_client :: wsock where
  "demo_client = (fst (newWebSocket (\<lambda>s. s) 0 (newSocket 0 10)))\<lparr>ws_socket := closeFlag (newSocket 0 10)\<rparr>"

text \<open>
  C21: whatever a program run in batch prints, and whatever happens to its terminal, what the redirector holds is all that it has
  read when that is within twice the limit, and otherwise at most that, beginning and ending as what has been read.
\<close>

theorem batch_output_kept:
  "batch_reachable r \<Longrightarrow> length (red_netbuf r) \<le> 2 * jail_output_buffer_size \<and>
    kept_output jail_output_buffer_size (red_taken r) (red_netbuf r)"
  using batch_reachable_ok [of r] by (simp add: batch_ok_def kept_output_def)

theorem batch_output_kept_witness:
  "\<exists>r. batch_reachable r \<and> red_netbuf r = ''hi'' \<and> kept_output jail_output_buffer_size ''hi'' ''hi''"
proof -
  let ?r = "batch_redirector True [demo_read ''hi'']"
  have "\<exists>r. batch_advance ?r [] = Some ((r, Inr ()), []) \<and> red_netbuf r = ''hi'' \<and> red_taken r = ''hi''"
    by (simp add: batch_advance_def five_rounds batch_step_def batch_redirector_def begin_terminal_def go_to_def net_modify_def
      batch_connected_def net_bind_def red_poll_def demo_read_def no_events_def POLLREAD_def Let_def batch_read_def batch_take_def
      addOutput_def jail_output_buffer_size_def jail_net_buffer_size_def)
  then obtain r where r: "batch_reachable r" "red_netbuf r = ''hi''" "red_taken r = ''hi''"
    using batch_advanced [OF batch_new] by blast
  from batch_output_kept [OF r(1)] r show ?thesis by auto
qed

text \<open>
  C20: what the client of a terminal, of a VNC server or of a web server sends is passed on whole and in order: what has been
  taken is what has been written followed by what waits, and for a terminal and VNC no more waits than a frame may hold.
\<close>

theorem input_passed_in_order:
  "(terminal_reachable t \<longrightarrow> red_taken t = red_written t @ red_programbuf t \<and> length (red_programbuf t) \<le> jail_websocket_frame_size_limit) \<and>
   (vnc_reachable v \<longrightarrow> red_taken v = red_written v @ red_netbuf v \<and> length (red_netbuf v) \<le> jail_websocket_frame_size_limit) \<and>
   (web_reachable w \<longrightarrow> red_taken w = red_written w @ red_netbuf w)"
  using terminal_reachable_typed [of t] vnc_reachable_ok [of v] web_reachable_ok [of w]
  by (auto simp: typed_ok_def vnc_ok_def web_ok_def passed_ok_def)

text \<open>A web server that takes three bytes of the request that waits.\<close>

definition demo_write :: poll_answer where
  "demo_write = \<lparr>pa_poll = PollReady, pa_program = no_events\<lparr>ev_out := True\<rparr>, pa_client = no_events, pa_read = ReadBytes [], pa_write = Some 3\<rparr>"

definition demo_web :: "string \<Rightarrow> web" where
  "demo_web address = web_redirector True [demo_write] [(True, 5)] 0 ((newSocket 0 10)\<lparr>sk_header := ''GET /''\<rparr>) address"

lemma demo_web_run:
  assumes "vplregex_search regServerAddress address 3 = Some m"
  shows "\<exists>w. web_reachable w \<and> red_peer w = Some (sin_addr (m ! 1), htons (atoi (m ! 2))) \<and> red_written w = ''GET'' \<and> red_netbuf w = '' /''"
proof -
  have "\<exists>w. web_advance (demo_web address) [] = Some ((w, Inr ()), []) \<and> red_peer w = Some (sin_addr (m ! 1), htons (atoi (m ! 2))) \<and>
      red_written w = ''GET'' \<and> red_netbuf w = '' /''"
    by (simp add: demo_web_def web_advance_def five_rounds web_step_def web_redirector_def batch_redirector_def redirector.defs begin_socket_def
      go_to_def net_modify_def web_connecting_def assms try_connect_def net_then_def net_bind_def web_connected_def
      server_connected_def piece_if_def leave_to_def net_return_def newSocket_def web_end_def red_poll_def server_answer_def demo_write_def
      no_events_def POLLREAD_def POLLBAD_def net_write_def Let_def)
  then show ?thesis using web_advanced [OF web_new] unfolding demo_web_def by blast
qed

theorem input_passed_in_order_witness:
  "\<exists>w. web_reachable w \<and> red_written w = ''GET'' \<and> red_netbuf w = '' /'' \<and> red_taken w = ''GET /''"
proof -
  have "vplregex_search regServerAddress ''127.1.1.1:8080'' 3 = Some [''127.1.1.1:8080'', ''127.1.1.1'', ''8080'']" by code_simp
  from demo_web_run [OF this] obtain w where w: "web_reachable w" "red_written w = ''GET''" "red_netbuf w = '' /''" by blast
  from input_passed_in_order [where w = w] w show ?thesis by auto
qed

text \<open>
  C23: a redirector connects only to a server of the machine itself, whatever address the program has written in its file: a terminal
  of VNC to 127.0.0.1, a request to an address of the loopback network, or, where the numbers of the file are no address, to 0.0.0.0,
  which stands for the machine itself.
\<close>

theorem servers_are_local:
  "(vnc_reachable v \<longrightarrow> red_peer v = Some (ip, port) \<longrightarrow> ip = [127, 0, 0, 1]) \<and>
   (web_reachable w \<longrightarrow> red_peer w = Some (ip, port) \<longrightarrow>
     (\<exists>b c d. ip = [127, b, c, d] \<and> b \<le> 255 \<and> c \<le> 255 \<and> d \<le> 255) \<or> ip = [0, 0, 0, 0])"
  using vnc_reachable_ok [of v] web_reachable_ok [of w] by (auto simp: vnc_ok_def web_ok_def local_address_def)

theorem servers_are_local_witness:
  "(\<exists>w. web_reachable w \<and> red_peer w = Some ([127, 1, 1, 1], 8080)) \<and> (\<exists>w. web_reachable w \<and> red_peer w = Some ([0, 0, 0, 0], 80)) \<and>
   \<not> (\<exists>w. web_reachable w \<and> red_peer w = Some ([10, 0, 0, 1], 80))"
proof -
  have 1: "vplregex_search regServerAddress ''evil.org 127.1.1.1:8080'' 3 = Some [''127.1.1.1:8080'', ''127.1.1.1'', ''8080'']"
    "htons (atoi ''8080'') = 8080" "sin_addr ''127.1.1.1'' = [127, 1, 1, 1]" by code_simp+
  have 2: "vplregex_search regServerAddress ''127.300.1.1:80'' 3 = Some [''127.300.1.1:80'', ''127.300.1.1'', ''80'']"
    "htons (atoi ''80'') = 80" "sin_addr ''127.300.1.1'' = [0, 0, 0, 0]" by code_simp+
  have "\<not> (web_reachable w \<and> red_peer w = Some ([10, 0, 0, 1], 80))" for w using servers_are_local [where w = w and ip = "[10, 0, 0, 1]" and port = 80] by auto
  then show ?thesis using demo_web_run [OF 1(1)] demo_web_run [OF 2(1)] 1(2,3) 2(2,3) by auto
qed

text \<open>
  C22: every \<open>advance\<close> returns: its loop goes round at most five times, and when it has not returned one of its steps waits for
  an answer of the kernel or of the client.
\<close>

theorem redirectors_return:
  "(batch_advance b rs = None \<longrightarrow> (\<exists>c. (moves batch_step)\<^sup>*\<^sup>* (b, rs) c \<and> batch_step (fst c) (snd c) = None)) \<and>
   (terminal_advance t rs = None \<longrightarrow> (\<exists>c. (moves terminal_step)\<^sup>*\<^sup>* (t, rs) c \<and> terminal_step (fst c) (snd c) = None)) \<and>
   (vnc_advance v rs = None \<longrightarrow> (\<exists>c. (moves vnc_step)\<^sup>*\<^sup>* (v, rs) c \<and> vnc_step (fst c) (snd c) = None)) \<and>
   (web_advance w rs = None \<longrightarrow> (\<exists>c. (moves web_step)\<^sup>*\<^sup>* (w, rs) c \<and> web_step (fst c) (snd c) = None))"
  using batch.advance_returns [of 5 b rs] terminal.advance_returns [of 5 t rs] vnc.advance_returns [of 5 v rs] web.advance_returns [of 5 w rs]
  unfolding batch_advance_def terminal_advance_def vnc_advance_def web_advance_def by simp

theorem redirectors_return_witness:
  "batch_advance (batch_redirector True []) [] = None \<and> (\<exists>c. batch_step (fst c) (snd c) = None)"
proof -
  have "batch_advance (batch_redirector True []) [] = None"
    by (simp add: batch_advance_def five_rounds batch_step_def batch_redirector_def begin_terminal_def go_to_def net_modify_def
      batch_connected_def net_bind_def red_poll_def)
  with redirectors_return [of "batch_redirector True []" "[]"] show ?thesis by blast
qed

text \<open>
  Once a terminal has been stopped, its next \<open>advance\<close> ends it: the machine is at its end and the client has been told
  to close, or had closed.
\<close>

theorem stopped_terminal_closes:
  assumes "terminal_advance (red_stop r) rs = Some ((r', Inr ()), rs')"
  shows "\<not> isActive r' \<and> (ws_isClosed (red_ws r') \<or> ws_closeSent (red_ws r'))"
  using stopped_terminal_ends [OF assms] by (simp add: isActive_def)

theorem stopped_terminal_closes_witness:
  "\<exists>r'. terminal_advance (red_stop (terminal_redirector True [] demo_client)) [] = Some ((r', Inr ()), []) \<and> \<not> isActive r'"
proof -
  have "ws_isClosed demo_client" by (simp add: demo_client_def ws_isClosed_def closeFlag_def)
  then have "\<exists>r'. terminal_advance (red_stop (terminal_redirector True [] demo_client)) [] = Some ((r', Inr ()), [])"
    by (simp add: terminal_advance_def five_rounds terminal_step_def red_stop_def go_to_def net_modify_def terminal_end_def
      net_then_def net_bind_def ask_ws_def net_return_def terminal_redirector_def batch_redirector_def redirector.defs isSilent_def
      red_addMessage_def on_ws_def on_part_def ws_send_def Let_def on_socket_def socket_send_def ws_isClosed_def)
  with stopped_terminal_closes show ?thesis by blast
qed

end
