(* ===== verification/Task_Kept.thy ===== *)
theory Task_Kept
  imports Task_Lifecycle Jail_Commands
begin

text \<open>
  Whose task an object of \<open>processMonitor\<close> is about: the prisoner and the directory that its ticket has given it stay the same in
  every operation of a monitor, the cleaning included.
\<close>

text \<open>The prisoner of an object and the directory that controls it: what its ticket has given it, and no operation changes.\<close>

definition of_task :: "int \<Rightarrow> string \<Rightarrow> task \<Rightarrow> bool" where
  "of_task p d t \<longleftrightarrow> m_prisoner t = p \<and> m_processControlPath t = d"

lemma of_task_upd [simp]:
  "of_task p d (put_file n x t) = of_task p d t" "of_task p d (delete_file n t) = of_task p d t"
  "of_task p d (removeDir n u f t) = of_task p d t" "of_task p d (with_object t t2) = of_task p d t"
  "of_task p d (info_of data t) = of_task p d t" "of_task p d (kill_pid b pid t) = of_task p d t"
  "of_task p d (removeTicketFile k t) = of_task p d t"
  "of_task p d (t\<lparr>w_cgroups := g'\<rparr>) = of_task p d t" "of_task p d (t\<lparr>m_cleaning := b\<rparr>) = of_task p d t"
  "of_task p d (t\<lparr>w_draws := n'\<rparr>) = of_task p d t" "of_task p d (t\<lparr>w_pending := ps\<rparr>) = of_task p d t"
  "of_task p d (t\<lparr>m_httpPassthroughticket := k\<rparr>) = of_task p d t" "of_task p d (t\<lparr>w_dirs := ds\<rparr>) = of_task p d t"
  "of_task p d (t\<lparr>m_monitor_pid := n2\<rparr>) = of_task p d t" "of_task p d (t\<lparr>m_security := sec\<rparr>) = of_task p d t"
  by (simp_all add: of_task_def put_file_def delete_file_def drop_file_def removeDir_def with_object_def info_of_def
      Let_def kill_pid_def removeTicketFile_def)

lemma of_task_fold:
  "of_task p d (fold removeTicketFile ks t) = of_task p d t" "of_task p d (fold (kill_pid b) ps t) = of_task p d t"
  "of_task p d (fold (\<lambda>(n, x). put_file n x) fs t) = of_task p d t"
proof -
  show "of_task p d (fold removeTicketFile ks t) = of_task p d t" by (induction ks arbitrary: t) simp_all
  show "of_task p d (fold (kill_pid b) ps t) = of_task p d t" by (induction ps arbitrary: t) simp_all
  show "of_task p d (fold (\<lambda>(n, x). put_file n x) fs t) = of_task p d t"
    by (induction fs arbitrary: t) (simp_all add: split_beta)
qed

lemma of_task_nap: "of_task p d (nap t) = of_task p d t"
  by (simp add: nap_def of_task_fold split: list.split)

lemma of_task_wait: "of_task p d (wait_rounds n name t) = of_task p d t"
  by (induction n name t rule: wait_rounds.induct) (simp_all add: of_task_nap)

lemma of_task_store: "of_task p d (fst (store_config n x t)) = of_task p d t"
  by (auto simp: store_config_def Let_def split: prod.splits option.splits)

lemma of_task_mark: "mark_cleaning f t = (t', data) \<Longrightarrow> of_task p d t' = of_task p d t"
  using mark_cleaning_cases [of f t t' data] by auto

lemma of_task_stop: "stopPrisonerProcess u b t = (t', n) \<Longrightarrow> of_task p d t' = of_task p d t"
  by (auto simp: stopPrisonerProcess_def Let_def of_task_fold split: if_splits)

lemma of_task_retries: "of_task p d (stop_retries n u t) = of_task p d t"
proof (induction n arbitrary: t)
  case 0
  show ?case by (cases "stopPrisonerProcess u False t") (simp add: stop_retries.simps of_task_stop)
next
  case (Suc n)
  show ?case by (cases "stopPrisonerProcess u False t") (simp add: stop_retries.simps [of "Suc n"] of_task_stop Suc.IH)
qed

lemma of_task_clean_locked: "of_task p d (cleanPrisonerFilesLocked n t) = of_task p d t"
proof -
  obtain t1 data where m: "mark_cleaning (cpath (cpath (controlPath t) n) ''config'') t = (t1, data)" by fastforce
  then show ?thesis by (simp add: cleanPrisonerFilesLocked_def Let_def of_task_mark [OF m] of_task_fold)
qed

lemma of_task_clean: "of_task p d (cleanTask t) = of_task p d t"
proof -
  obtain t1 data where m: "mark_cleaning (getProcessConfigFile t) (t\<lparr>m_cleaning := True\<rparr>) = (t1, data)" by fastforce
  obtain t4 n where 4: "stopPrisonerProcess (to_int32 (m_prisoner t)) True (fold removeTicketFile
      [m_adminticket (fold removeTicketFile (config_tickets data) t1), m_executionticket (fold removeTicketFile (config_tickets data) t1),
       m_monitorticket (fold removeTicketFile (config_tickets data) t1), m_httpPassthroughticket (fold removeTicketFile (config_tickets data) t1)]
      (fold removeTicketFile (config_tickets data) t1)) = (t4, n)" by fastforce
  show ?thesis
    using of_task_stop [OF 4, of p d] of_task_mark [OF m, of p d]
    by (simp add: cleanTask_def Let_def m 4 of_task_retries of_task_fold cleanPrisonerFiles_def of_task_clean_locked del: fold.simps)
qed

lemma keeps_of_task:
  "op_keeps (of_task p d) readInfo" "op_keeps (of_task p d) (writeInfo data)" "op_keeps (of_task p d) (op_modify cleanTask)"
  "op_keeps (of_task p d) (op_modify nap)" "op_keeps (of_task p d) two_parts" "op_keeps (of_task p d) (store_ticket k l)"
proof -
  show "op_keeps (of_task p d) readInfo"
    by (auto simp: op_keeps_def readInfo_def load_config_def op_bind_def op_then_def op_modify_def split: sum.splits if_splits)
  have "of_task p d (fst (writeInfo data t)) = of_task p d t" for t
    by (rule writeInfo_cases [of data t]) simp_all
  then show "op_keeps (of_task p d) (writeInfo data)" by (simp add: op_keeps_def)
  show "op_keeps (of_task p d) (op_modify cleanTask)" "op_keeps (of_task p d) (op_modify nap)"
    by (simp_all add: op_keeps_def op_modify_def of_task_clean of_task_nap)
  show "op_keeps (of_task p d) two_parts"
    by (simp add: op_keeps_def two_parts_def getPartialTicket_def util_random_def op_bind_def op_return_def)
  show "op_keeps (of_task p d) (store_ticket k l)"
    by (auto simp: op_keeps_def store_ticket_def Let_def of_task_store)
qed

lemma keeps_getState: "op_keeps (of_task p d) getState"
proof -
  have "of_task p d (fst (stopped_or_retrieve n t)) = of_task p d t" for n t
    by (simp add: stopped_or_retrieve_def Let_def waitExistFile_def of_task_wait)
  then have now: "of_task p d (fst (state_now t)) = of_task p d t" for t
    by (simp add: state_now_def Let_def finish_clean_def of_task_clean)
  have "of_task p d (fst (getState t)) = of_task p d t" for t
  proof (rule readInfo_cases [of t])
    fix e assume "readInfo t = (t, Inl e)"
    then show ?thesis by (simp add: getState_def split: exn.split)
  next
    fix data assume "readInfo t = (info_of data t, if m_cleaning (info_of data t) then Inl TaskCleaning else Inr data)"
    then show ?thesis by (simp add: getState_def now)
  qed
  then show ?thesis by (simp add: op_keeps_def)
qed

text \<open>A ticket that is accepted gives a prisoner of the configuration, and its directory.\<close>

lemma ticket_gives:
  assumes "processMonitor1 ticket t = (t1, Inr ())"
  shows "isPrisonerUID (w_conf t) (m_prisoner t1) \<and> m_processControlPath t1 = cpath (controlPath t) (getPrisonerName t1)"
proof -
  have n: "w_conf (new_object t) = w_conf t" "controlPath (new_object t) = controlPath t"
    by (simp_all add: new_object_def controlPath_def)
  obtain f data where "use_ticket f data (new_object t) = (t1, Inr ())"
    using assms by (auto simp: processMonitor1_def op_then_def op_bind_def op_modify_def load_config_def Let_def
        split: option.splits if_splits sum.splits)
  then obtain u sec where "op_all [setPrisonerID u, consume_ticket f sec, open_info, op_when (\<lambda>t. m_security t = sec_monitor) monitorize]
      (new_object t) = (t1, Inr ())"
    by (auto simp: use_ticket_def op_throw_def split: if_splits)
  from op_all_Cons_InrD [OF this] obtain a x where a: "setPrisonerID u (new_object t) = (a, Inr x)"
    and b: "op_all [consume_ticket f sec, open_info, op_when (\<lambda>t. m_security t = sec_monitor) monitorize] a = (t1, Inr ())" by blast
  let ?d = "cpath (controlPath t) (CHR ''p'' # itos u)"
  have c: "op_keeps (of_task u ?d) (consume_ticket f sec)" by (simp add: op_keeps_def consume_ticket_def Let_def)
  have o: "op_keeps (of_task u ?d) open_info"
    using op_keeps_then [OF keeps_of_task(1) op_keeps_basic(1) [of _ "()"], of u ?d] by (auto simp: op_keeps_def open_info_def)
  have m: "op_keeps (of_task u ?d) monitorize"
  proof -
    have "op_keeps (of_task u ?d) (\<lambda>t. if m_monitor_pid t \<noteq> 0 then (t, Inl (StringExn ''Process already monitorized''))
        else writeInfo [] (t\<lparr>m_monitor_pid := w_pid t\<rparr>))"
      using keeps_of_task(2) [of u ?d "[]"] by (auto simp: op_keeps_def)
    from op_keeps_then [OF keeps_of_task(1) this] show ?thesis unfolding op_keeps_def monitorize_def by auto
  qed
  have k: "op_keeps (of_task u ?d) (op_all [consume_ticket f sec, open_info, op_when (\<lambda>t. m_security t = sec_monitor) monitorize])"
    unfolding op_all.simps
    by (rule op_keeps_then [OF c op_keeps_then [OF o op_keeps_then [OF op_keeps_when [OF m] op_keeps_basic(1)]]])
  have "of_task u ?d a" using setPrisonerID_ok(1) [OF a] n by (simp add: of_task_def)
  from op_keepsD [OF k this b] have "of_task u ?d t1" .
  then show ?thesis using setPrisonerID_ok(2) [OF a] n by (simp add: of_task_def getPrisonerName_def)
qed

end
