(* ===== verification/Jail_Control.thy ===== *)
theory Jail_Control
  imports Redirector Task_Kept
begin

text \<open>
  The control of a running program, from the class \<open>Jail\<close>: the loops of \<open>run\<close> and \<open>runTerminal\<close>, that watch over time, memory
  and the monitor, and those of \<open>runVNC\<close> and \<open>runPassthrough\<close>. What the kernel and the other processes do is a list of ticks,
  one for each round of a loop. Proved: a program is signalled only when it is past a limit or not monitored, then it is
  signalled, first to end and then to be killed; a terminal leaves no child behind; and a connection that ends is closed, its
  task cleaned if it was a monitor's.
\<close>

section \<open>Rounds of a loop\<close>

text \<open>
  What \<open>waitpid\<close> tells, and what the others do to the system before it: the files, the processes and the clock. The object of
  this process is its own.
\<close>

datatype wait_result = ChildRunning | ChildExited int | ChildSignaled int | ChildUnknown | WaitOther | WaitError

record tick =
  tk_wait :: wait_result
  tk_world :: "task \<Rightarrow> task"

definition world_moves :: "(task \<Rightarrow> task) \<Rightarrow> task \<Rightarrow> task" where
  "world_moves f t = with_object t (f t)"

text \<open>
  The state of a loop with a redirector. \<open>rn_signals\<close> is what the group of the program has been sent, a kill or not; \<open>rn_stops\<close> is
  what \<open>stopPrisonerProcess\<close>, which signals every process of the prisoner, has been told by the loop: to be soft or not.
\<close>

record 'r runstate =
  rn_task :: task
  rn_red :: 'r
  rn_lastTime :: int
  rn_stopKill :: bool
  rn_newpid :: int
  rn_signals :: "bool list"
  rn_stops :: "bool list"

definition on_red :: "('r, 'a) net \<Rightarrow> ('r runstate, 'a) net" where
  "on_red = on_part rn_red (\<lambda>r s. s\<lparr>rn_red := r\<rparr>)"

definition on_rtask :: "(task, 'a) op \<Rightarrow> ('r runstate, 'a) net" where
  "on_rtask m s rs = (case m (rn_task s) of (t, r) \<Rightarrow> Some ((s\<lparr>rn_task := t\<rparr>, r), rs))"

definition upd_red :: "('r \<Rightarrow> 'r) \<Rightarrow> ('r runstate, unit) net" where
  "upd_red f = net_modify (\<lambda>s. s\<lparr>rn_red := f (rn_red s)\<rparr>)"

text \<open>
  The first time the program is asked to end, then it is killed. \<open>stopPrisonerProcess\<close> is told whether to be soft: in one
  place it gets the number of the signal, which counts as true.
\<close>

definition stop_program :: "bool \<Rightarrow> 'r runstate \<Rightarrow> 'r runstate" where
  "stop_program soft s = s\<lparr>rn_task := fst (stopPrisonerProcess (to_int32 (m_prisoner (rn_task s))) soft (rn_task s)),
     rn_signals := rn_signals s @ [rn_stopKill s], rn_stops := rn_stops s @ [soft], rn_stopKill := True\<rparr>"

definition elapsed_since :: "int \<Rightarrow> 'r runstate \<Rightarrow> int" where
  "elapsed_since start s = to_int32 (w_now (rn_task s) - start)"

text \<open>Whether nobody watches: only asked for after ten seconds.\<close>

definition not_monitored :: "int \<Rightarrow> ('r runstate, bool) net" where
  "not_monitored elapsed = (if elapsed > jail_monitorstart_timeout then net_bind (on_rtask isMonitored) (\<lambda>m. net_return (\<not> m))
     else net_return False)"

section \<open>Batch\<close>

definition exit_message :: "(int \<Rightarrow> string) \<Rightarrow> task \<Rightarrow> wait_result \<Rightarrow> string" where
  "exit_message strsignal t w =
     (if isOutOfMemory t then ''out of memory ('' @ getMemoryLimit t @ '')''
      else case w of
        ChildSignaled n \<Rightarrow> ''program terminated due to '' @ [dquote] @ strsignal n @ [dquote] @ '' ('' @ itos n @ '')''
      | ChildExited n \<Rightarrow> if n \<noteq> 0 then ''program terminated normally with exit code '' @ itos n @ ''.'' else []
      | _ \<Rightarrow> ''program terminated but unknown reason.'')"

definition batch_say :: "string \<Rightarrow> (redirector runstate, unit) net" where
  "batch_say m = upd_red (batch_addMessage m)"

text \<open>Say it the first time, stop the redirector the second.\<close>

definition say_or_stop :: "string \<Rightarrow> redirector runstate \<Rightarrow> redirector runstate" where
  "say_or_stop m s = s\<lparr>rn_red := (if \<not> rn_stopKill s then batch_addMessage m (rn_red s) else red_stop (rn_red s))\<rparr>"

definition batch_watch :: "int \<Rightarrow> (redirector runstate, unit) net" where
  "batch_watch limit s = (let elapsed = elapsed_since (m_startTime (rn_task s)) s in
     net_bind (not_monitored elapsed) (\<lambda>alone. net_modify (\<lambda>s.
       if alone then stop_program True (say_or_stop ''browser connection error.'' s)
       else if elapsed \<ge> limit then
         stop_program (\<not> rn_stopKill s) (say_or_stop (''execution time limit reached ('' @ itos limit @ '' seconds).'') s)
       else if isOutOfMemory (rn_task s) then
         stop_program (\<not> rn_stopKill s) (say_or_stop (''out of memory ('' @ getMemoryLimit (rn_task s) @ '')'') s)
       else s)) s)"

text \<open>The round after \<open>advance\<close>; it tells whether the loop goes on.\<close>

definition batch_round :: "(int \<Rightarrow> string) \<Rightarrow> int \<Rightarrow> bool \<Rightarrow> tick \<Rightarrow> (redirector runstate, bool) net" where
  "batch_round strsignal limit VNCLaunch tk s0 = (let s = s0\<lparr>rn_task := world_moves (tk_world tk) (rn_task s0)\<rparr> in
     (case tk_wait tk of
        WaitOther \<Rightarrow> net_return False
      | WaitError \<Rightarrow> net_return False
      | ChildRunning \<Rightarrow>
          if VNCLaunch \<and> batch_getOutputSize (rn_red s) > 0 then net_return False
          else let now = w_now (rn_task s) in
            if rn_lastTime s \<noteq> now
            then net_then (net_modify (\<lambda>s. s\<lparr>rn_lastTime := now\<rparr>)) (net_then (batch_watch limit) (net_return True))
            else net_return True
      | w \<Rightarrow> let m = exit_message strsignal (rn_task s) w in
          net_then (if m \<noteq> [] then batch_say m else net_return ()) (net_then (net_modify (\<lambda>s. s\<lparr>rn_newpid := -1\<rparr>)) (net_return False))) s)"

text \<open>A loop over ticks while the redirector is active; without a tick it has not returned.\<close>

primrec watch_loop :: "('r runstate \<Rightarrow> bool) \<Rightarrow> (tick \<Rightarrow> ('r runstate, bool) net) \<Rightarrow> tick list \<Rightarrow> ('r runstate, unit) net" where
  "watch_loop active body [] = (\<lambda>s rs. if \<not> active s then Some ((s, Inr ()), rs) else None)"
| "watch_loop active body (tk # ticks) = (\<lambda>s. if \<not> active s then net_return () s
     else net_bind (body tk) (\<lambda>go. if go then watch_loop active body ticks else net_return ()) s)"

primrec drain :: "('r runstate \<Rightarrow> bool) \<Rightarrow> ('r, unit) net \<Rightarrow> nat \<Rightarrow> ('r runstate, unit) net" where
  "drain active advance 0 = net_return ()"
| "drain active advance (Suc n) = (\<lambda>s. if \<not> active s then net_return () s
     else net_then (on_red advance) (drain active advance n) s)"

text \<open>What is found when a program is started: whether there is a terminal, the number of the child, and the answers.\<close>

record run_env =
  ev_pty :: bool
  ev_pid :: int
  ev_answers :: "poll_answer list"
  ev_ticks :: "tick list"
  ev_strsignal :: "int \<Rightarrow> string"

definition start_run :: "run_env \<Rightarrow> 'r \<Rightarrow> task \<Rightarrow> 'r runstate" where
  "start_run e r t = \<lparr>rn_task = t, rn_red = r, rn_lastTime = w_now t, rn_stopKill = False, rn_newpid = ev_pid e, rn_signals = [], rn_stops = []\<rparr>"

definition batch_body :: "run_env \<Rightarrow> int \<Rightarrow> bool \<Rightarrow> tick \<Rightarrow> (redirector runstate, bool) net" where
  "batch_body e limit VNCLaunch tk = net_then (on_red batch_advance) (batch_round (ev_strsignal e) limit VNCLaunch tk)"

definition batch_loops :: "run_env \<Rightarrow> int \<Rightarrow> bool \<Rightarrow> (redirector runstate, unit) net" where
  "batch_loops e limit VNCLaunch = net_then
     (watch_loop (\<lambda>s. isActive (rn_red s)) (batch_body e limit VNCLaunch) (ev_ticks e))
     (drain (\<lambda>s. isActive (rn_red s)) batch_advance (if VNCLaunch then 0 else 50))"

text \<open>\<open>run\<close>: the last state of its loops, and the text it returns. The child runs \<open>executeInJail\<close>.\<close>

definition run_maxtime :: "int \<Rightarrow> task \<Rightarrow> int" where
  "run_maxtime otherlimit t = (if otherlimit \<noteq> 0 then otherlimit else maxtime (m_limits t))"

definition jail_run :: "run_env \<Rightarrow> int \<Rightarrow> bool \<Rightarrow> (task, string) net" where
  "jail_run e otherlimit VNCLaunch t rs =
     (if \<not> ev_pty e then Some ((t, Inr ''- Jail: openpty error''), rs)
      else if w_fork_fails t then Some ((t, Inr ''- Jail: fork error''), rs)
      else case batch_loops e (run_maxtime otherlimit t) VNCLaunch (start_run e (batch_redirector True (ev_answers e)) t) rs of
        None \<Rightarrow> None
      | Some ((s, Inl x), rs) \<Rightarrow> Some ((rn_task s, Inl x), rs)
      | Some ((s, Inr u), rs) \<Rightarrow> Some ((rn_task s, Inr (batch_getOutput (rn_red s))), rs))"

section \<open>Terminal\<close>

definition terminal_say :: "string \<Rightarrow> terminal runstate \<Rightarrow> terminal runstate" where
  "terminal_say m s = (if \<not> rn_stopKill s then s\<lparr>rn_red := red_addMessage m (rn_red s)\<rparr> else s)"

definition terminal_quit :: "terminal runstate \<Rightarrow> terminal runstate" where
  "terminal_quit s = s\<lparr>rn_red := red_stop (rn_red s)\<rparr>"

definition terminal_watch :: "int \<Rightarrow> int \<Rightarrow> (terminal runstate, unit) net" where
  "terminal_watch limit start s = (let elapsed = elapsed_since start s in
     net_bind (not_monitored elapsed) (\<lambda>alone. net_modify (\<lambda>s.
       if alone then stop_program (\<not> rn_stopKill s) (terminal_quit (terminal_say ''process stopped.'' s))
       else if elapsed \<ge> limit then stop_program (\<not> rn_stopKill s) (terminal_quit (terminal_say ''execution time limit reached.'' s))
       else if isOutOfMemory (rn_task s) then
         stop_program (\<not> rn_stopKill s) (terminal_say (''out of memory ('' @ getMemoryLimit (rn_task s) @ '')'') s)
       else s)) s)"

definition child_gone :: "('r runstate, bool) net" where
  "child_gone = net_then (net_modify (\<lambda>s. s\<lparr>rn_newpid := -1\<rparr>)) (net_return False)"

definition terminal_round :: "int \<Rightarrow> int \<Rightarrow> tick \<Rightarrow> (terminal runstate, bool) net" where
  "terminal_round limit start tk s0 = (let s = s0\<lparr>rn_task := world_moves (tk_world tk) (rn_task s0)\<rparr> in
     (if tk_wait tk \<noteq> ChildRunning \<and> tk_wait tk \<noteq> WaitOther then child_gone
      else let now = w_now (rn_task s) in
        if rn_lastTime s \<noteq> now
        then net_then (net_modify (\<lambda>s. s\<lparr>rn_lastTime := now\<rparr>)) (net_then (terminal_watch limit start) (net_return True))
        else net_return True) s)"

definition terminal_open :: "terminal runstate \<Rightarrow> bool" where
  "terminal_open s \<longleftrightarrow> isActive (rn_red s) \<and> \<not> ws_isClosed (red_ws (rn_red s))"

definition terminal_body :: "int \<Rightarrow> int \<Rightarrow> tick \<Rightarrow> (terminal runstate, bool) net" where
  "terminal_body limit start tk = net_then (on_red terminal_advance) (terminal_round limit start tk)"

definition terminal_loops :: "run_env \<Rightarrow> int \<Rightarrow> int \<Rightarrow> (terminal runstate, unit) net" where
  "terminal_loops e limit start = net_then
     (watch_loop terminal_open (terminal_body limit start) (ev_ticks e)) (drain terminal_open terminal_advance 50)"

text \<open>A child that is still there is killed and waited for.\<close>

definition reap_child :: "'r runstate \<Rightarrow> 'r runstate" where
  "reap_child s = (if rn_newpid s \<noteq> -1 then s\<lparr>rn_signals := rn_signals s @ [True], rn_newpid := -1\<rparr> else s)"

definition clean_unmonitored :: "'r runstate \<Rightarrow> 'r runstate" where
  "clean_unmonitored s = (if \<not> hasMonitorTicket (rn_task s) then s\<lparr>rn_task := cleanTask (rn_task s)\<rparr> else s)"

text \<open>The loops of \<open>runTerminal\<close> and what follows them, whatever they throw.\<close>

definition terminal_session :: "run_env \<Rightarrow> int \<Rightarrow> int \<Rightarrow> (terminal runstate, unit) net" where
  "terminal_session e limit start = net_then (net_catch (terminal_loops e limit start) (\<lambda>x. net_return ()))
     (net_modify (\<lambda>s. clean_unmonitored (reap_child s)))"

section \<open>A connection with a task\<close>

record control =
  ct_task :: task
  ct_ws :: wsock

definition on_cws :: "(wsock, 'a) net \<Rightarrow> (control, 'a) net" where
  "on_cws = on_part ct_ws (\<lambda>w c. c\<lparr>ct_ws := w\<rparr>)"

definition on_ctask :: "(task, 'a) op \<Rightarrow> (control, 'a) net" where
  "on_ctask m c rs = (case m (ct_task c) of (t, r) \<Rightarrow> Some ((c\<lparr>ct_task := t\<rparr>, r), rs))"

definition runTerminal :: "run_env \<Rightarrow> (control, unit) net" where
  "runTerminal e c rs = (let t = ct_task c in
     if \<not> ev_pty e then Some ((c, Inr ()), rs)
     else if w_fork_fails t then Some ((c, Inr ()), rs)
     else case terminal_session e (maxtime (m_limits t)) (w_now t)
         (start_run e (terminal_redirector True (ev_answers e) (ct_ws c)) t) rs of
       None \<Rightarrow> None
     | Some ((s, v), rs) \<Rightarrow> Some ((c\<lparr>ct_task := rn_task s, ct_ws := red_ws (rn_red s)\<rparr>, v), rs))"

section \<open>VNC\<close>

record server_env =
  sv_socket :: bool
  sv_answers :: "poll_answer list"
  sv_connects :: "(bool \<times> int) list"
  sv_ticks :: "tick list"

text \<open>The watch of a VNC session: it tells whether the loop goes on, and leaves the redirector stopped otherwise.\<close>

definition vnc_stop :: "(vnc runstate, bool) net" where
  "vnc_stop = net_then (upd_red red_stop) (net_return False)"

definition vnc_watch :: "int \<Rightarrow> int \<Rightarrow> (vnc runstate, bool) net" where
  "vnc_watch limit start s = (let elapsed = elapsed_since start s in
     (if elapsed \<ge> limit then vnc_stop
      else if isOutOfMemory (rn_task s) then vnc_stop
      else net_bind (if elapsed \<ge> jail_monitorstart_timeout then on_rtask isMonitored else net_return True)
        (\<lambda>monitored. if monitored then net_return True else vnc_stop)) s)"

definition vnc_round :: "int \<Rightarrow> int \<Rightarrow> tick \<Rightarrow> (vnc runstate, bool) net" where
  "vnc_round limit start tk s0 = (let s = s0\<lparr>rn_task := world_moves (tk_world tk) (rn_task s0)\<rparr>; now = w_now (rn_task s) in
     (if rn_lastTime s \<noteq> now then net_then (net_modify (\<lambda>s. s\<lparr>rn_lastTime := now\<rparr>)) (vnc_watch limit start)
      else net_return True) s)"

definition vnc_open :: "vnc runstate \<Rightarrow> bool" where
  "vnc_open s \<longleftrightarrow> isActive (rn_red s) \<and> \<not> ws_isClosed (red_ws (rn_red s))"

definition vnc_body :: "int \<Rightarrow> int \<Rightarrow> tick \<Rightarrow> (vnc runstate, bool) net" where
  "vnc_body limit start tk = net_then (on_red vnc_advance) (vnc_round limit start tk)"

definition vnc_loops :: "server_env \<Rightarrow> int \<Rightarrow> int \<Rightarrow> (vnc runstate, unit) net" where
  "vnc_loops e limit start = net_then (watch_loop vnc_open (vnc_body limit start) (sv_ticks e))
     (drain (\<lambda>s. isActive (rn_red s)) vnc_advance 50)"

text \<open>A session with the server whose port the launcher has printed.\<close>

definition vnc_session :: "server_env \<Rightarrow> int \<Rightarrow> (control, unit) net" where
  "vnc_session e port c rs = (let t = ct_task c; r = vnc_redirector (sv_socket e) (sv_answers e) (sv_connects e) (w_now t) (ct_ws c) port in
     case vnc_loops e (maxtime (m_limits t)) (w_now t)
         \<lparr>rn_task = t, rn_red = r, rn_lastTime = w_now t, rn_stopKill = False, rn_newpid = -1, rn_signals = [], rn_stops = []\<rparr> rs of
       None \<Rightarrow> None
     | Some ((s, v), rs) \<Rightarrow> Some ((c\<lparr>ct_task := rn_task s, ct_ws := red_ws (rn_red s)\<rparr>, v), rs))"

text \<open>What running a program of a name finds.\<close>

record vnc_env =
  vn_run :: "string \<Rightarrow> run_env"
  vn_server :: server_env

definition run_in_control :: "(string \<Rightarrow> run_env) \<Rightarrow> string \<Rightarrow> int \<Rightarrow> bool \<Rightarrow> (control, string) net" where
  "run_in_control e name otherlimit VNCLaunch = on_part ct_task (\<lambda>t c. c\<lparr>ct_task := t\<rparr>) (jail_run (e name) otherlimit VNCLaunch)"

definition runVNC :: "vnc_env \<Rightarrow> string \<Rightarrow> (control, unit) net" where
  "runVNC e name = net_bind (run_in_control (vn_run e) name 10 True) (\<lambda>output.
     net_then (vnc_session (vn_server e) (atoi output))
     (net_bind (on_ctask (installScript ''.vpl_vnc_stopper.sh'' ''vpl_vnc_stopper.sh'')) (\<lambda>ok.
        if ok then net_then (run_in_control (vn_run e) ''.vpl_vnc_stopper.sh'' 5 False) (net_return ()) else net_return ())))"

section \<open>Passing a request through\<close>

record relay =
  ry_task :: task
  ry_sock :: sock

definition relay_over :: "int \<Rightarrow> web runstate \<Rightarrow> bool" where
  "relay_over start s \<longleftrightarrow> rn_lastTime s \<noteq> w_now (rn_task s) \<and> elapsed_since start s > jail_harvest_timeout"

definition relay_round :: "int \<Rightarrow> tick \<Rightarrow> (web runstate, bool) net" where
  "relay_round start tk s0 = (let s = s0\<lparr>rn_task := world_moves (tk_world tk) (rn_task s0)\<rparr> in
     (if relay_over start s
      then net_then (net_modify (\<lambda>s. s\<lparr>rn_lastTime := w_now (rn_task s)\<rparr>))
        (net_then (on_red (on_client (socket_send ''Execution time limit reached'' False)))
        (net_then (upd_red red_stop) (net_return False)))
      else net_then (net_modify (\<lambda>s. s\<lparr>rn_lastTime := w_now (rn_task s)\<rparr>)) (net_return True)) s)"

definition relay_body :: "int \<Rightarrow> tick \<Rightarrow> (web runstate, bool) net" where
  "relay_body start tk = net_then (on_red web_advance) (relay_round start tk)"

definition relay_open :: "web runstate \<Rightarrow> bool" where
  "relay_open s \<longleftrightarrow> isActive (rn_red s) \<and> \<not> sk_closed (web_client (rn_red s))"

definition relay_session :: "server_env \<Rightarrow> string \<Rightarrow> (relay, unit) net" where
  "relay_session e address c rs = (let t = ry_task c; r = web_redirector (sv_socket e) (sv_answers e) (sv_connects e) (w_now t) (ry_sock c) address in
     case watch_loop relay_open (relay_body (w_now t)) (sv_ticks e)
         \<lparr>rn_task = t, rn_red = r, rn_lastTime = w_now t, rn_stopKill = False, rn_newpid = -1, rn_signals = [], rn_stops = []\<rparr> rs of
       None \<Rightarrow> None
     | Some ((s, v), rs) \<Rightarrow> Some ((c\<lparr>ry_task := rn_task s, ry_sock := web_client (rn_red s)\<rparr>, v), rs))"

definition runPassthrough :: "server_env \<Rightarrow> (relay, unit) net" where
  "runPassthrough e = net_bind (\<lambda>c rs. case getLocalWebServer (ry_task c) of (t, r) \<Rightarrow> Some ((c\<lparr>ry_task := t\<rparr>, r), rs)) (relay_session e)"

section \<open>An execution connection\<close>

record exec_env =
  xe_waits :: "(task \<Rightarrow> task) list"
  xe_run :: "string \<Rightarrow> run_env"
  xe_vnc :: vnc_env

text \<open>The client may ask before the compilation has ended: the state is asked for again after each tenth of a second.\<close>

definition waits_for :: "processState \<Rightarrow> bool" where
  "waits_for st \<longleftrightarrow> st = starting \<or> st = compiling"

primrec wait_ready :: "(task \<Rightarrow> task) list \<Rightarrow> int \<Rightarrow> processState \<Rightarrow> (control, processState) net" where
  "wait_ready [] limit st = (\<lambda>c rs. if waits_for st \<and> w_now (ct_task c) < limit then None else Some ((c, Inr st), rs))"
| "wait_ready (f # fs) limit st = (\<lambda>c. if waits_for st \<and> w_now (ct_task c) < limit
     then net_then (net_modify (\<lambda>c. c\<lparr>ct_task := world_moves f (ct_task c)\<rparr>)) (net_bind (on_ctask getState) (wait_ready fs limit)) c
     else net_return st c)"

definition launch_terminal :: "exec_env \<Rightarrow> string \<Rightarrow> string \<Rightarrow> (control, unit) net" where
  "launch_terminal e script name = net_bind (on_ctask (install_launcher script name)) (\<lambda>program. runTerminal (xe_run e program))"

definition launch_vnc :: "exec_env \<Rightarrow> (control, unit) net" where
  "launch_vnc e = net_bind (on_ctask (installScript ''.vpl_launcher.sh'' ''vpl_vnc_launcher.sh'')) (\<lambda>ok.
     if ok then runVNC (xe_vnc e) ''.vpl_launcher.sh'' else net_return ())"

definition launch :: "exec_env \<Rightarrow> (control, unit) net" where
  "launch e c = (let t = ct_task c in
     (if FileExists t ''vpl_execution'' then launch_terminal e ''vpl_terminal_launcher.sh'' ''vpl_execution''
      else if FileExists t ''vpl_webexecution'' then launch_terminal e ''vpl_web_launcher.sh'' ''vpl_webexecution''
      else if FileExists t ''vpl_wexecution'' then launch_vnc e
      else net_return ()) c)"

definition wait_close :: "(control, unit) net" where
  "wait_close = on_cws (ws_closeAndWait 1000)"

definition execute_ready :: "exec_env \<Rightarrow> (control, unit) net" where
  "execute_ready e = net_then (on_ctask setRunner) (net_then (launch e) (net_then wait_close
     (net_bind (on_ctask hasActiveMonitor) (\<lambda>active.
        if active then net_return () else on_ctask (op_modify cleanTask)))))"

definition execute_body :: "exec_env \<Rightarrow> string \<Rightarrow> (control, unit) net" where
  "execute_body e ticket = net_then (on_ctask (processMonitor1 ticket)) (\<lambda>c.
     if m_security (ct_task c) \<noteq> sec_execute then net_throw (StringExn ''Internal server error'') c
     else net_bind (on_ctask getState) (\<lambda>st c.
       net_bind (wait_ready (xe_waits e) (w_now (ct_task c) + maxtime (m_limits (ct_task c)) + jail_harvest_timeout) st)
         (\<lambda>st. if st \<noteq> beforeRunning then wait_close else execute_ready e) c) c)"

text \<open>Of the exceptions only the one of a task that is being cleaned is caught.\<close>

definition catch_cleaning :: "(control, unit) net \<Rightarrow> (control, unit) net" where
  "catch_cleaning m = net_catch m (\<lambda>x. if x = TaskCleaning then wait_close else net_throw x)"

definition commandExecute :: "exec_env \<Rightarrow> string \<Rightarrow> (control, unit) net" where
  "commandExecute e ticket = catch_cleaning (execute_body e ticket)"

section \<open>A monitor connection\<close>

record monitor_run = control +
  mo_state :: processState
  mo_webserver :: bool
  mo_runBrowser :: bool
  mo_startTime :: int
  mo_lastMessageTime :: int
  mo_lastTime :: int
  mo_timeout :: int
  mo_lastMessage :: string

text \<open>What the others do before a round and while it waits for the client.\<close>

record monitor_tick =
  mt_before :: "task \<Rightarrow> task"
  mt_after :: "task \<Rightarrow> task"

text \<open>A round goes on, leaves the loop, or leaves the function.\<close>

datatype round_end = NextRound | LeaveLoop | LeaveAll

definition on_mws :: "(wsock, 'a) net \<Rightarrow> (monitor_run, 'a) net" where
  "on_mws = on_part ct_ws (\<lambda>w c. c\<lparr>ct_ws := w\<rparr>)"

definition on_mtask :: "(task, 'a) op \<Rightarrow> (monitor_run, 'a) net" where
  "on_mtask m c rs = (case m (ct_task c) of (t, r) \<Rightarrow> Some ((c\<lparr>ct_task := t\<rparr>, r), rs))"

definition m_send :: "string \<Rightarrow> (monitor_run, unit) net" where
  "m_send t = on_mws (ws_send t TEXT_FRAME)"

definition m_wait_close :: "(monitor_run, unit) net" where
  "m_wait_close = on_mws (ws_closeAndWait 1000)"

definition m_close_client :: "(monitor_run, unit) net" where
  "m_close_client = net_then (m_send ''close:'') m_wait_close"

text \<open>A state that shows a message and begins to count the time.\<close>

definition show_phase :: "string \<Rightarrow> int \<Rightarrow> int \<Rightarrow> (monitor_run, unit) net" where
  "show_phase message extra now = net_then (net_modify (\<lambda>m. m\<lparr>mo_startTime := now,
       mo_timeout := now + maxtime (m_limits (ct_task m)) + extra, mo_lastMessageTime := now, mo_lastMessage := message\<rparr>))
     (m_send message)"

definition nothing_to_run :: string where
  "nothing_to_run = ''compilation:The compilation process did not generate an executable nor error message.''"

definition m_nap :: "(monitor_run, unit) net" where
  "m_nap = on_mtask (op_modify nap)"

definition no_executable :: "(monitor_run, bool) net" where
  "no_executable = net_then m_nap (net_bind (on_mtask getCompilation) (\<lambda>out.
     net_then (m_send (if out = [] then nothing_to_run else ''compilation:'' @ out))
     (net_then m_close_client (net_then (on_mtask (op_modify cleanTask)) (net_return False)))))"

definition send_compilation :: "(monitor_run, bool) net" where
  "send_compilation = net_then m_nap (net_bind (on_mtask getCompilation) (\<lambda>out.
     net_then (m_send (''compilation:'' @ out)) (net_return True)))"

text \<open>Before a program runs the client is told how to run it; it tells whether the function goes on.\<close>

definition before_running :: "int \<Rightarrow> (monitor_run, bool) net" where
  "before_running now m0 = (let m = m0\<lparr>mo_timeout := now + jail_socket_timeout\<rparr>; t = ct_task m in
     (if FileExists t ''vpl_execution'' then net_then (m_send ''run:terminal'') send_compilation
      else if FileExists t ''vpl_webexecution'' then net_then (m_send ''run:webterminal'')
        (net_then (net_modify (\<lambda>m. m\<lparr>mo_webserver := True\<rparr>)) send_compilation)
      else if FileExists t ''vpl_wexecution'' then net_then (m_send (''run:vnc:'' @ getVNCPassword t)) send_compilation
      else no_executable) m)"

definition passthrough_ticket :: "nat \<Rightarrow> (monitor_run, string) net" where
  "passthrough_ticket fuel m rs = (case getHttpPassthroughTicket fuel (ct_task m) of
      None \<Rightarrow> None | Some (t, r) \<Rightarrow> Some ((m\<lparr>ct_task := t\<rparr>, r), rs))"

definition show_browser :: "nat \<Rightarrow> (monitor_run, unit) net" where
  "show_browser fuel m = (if mo_webserver m \<and> \<not> mo_runBrowser m \<and> FileExists (ct_task m) ''.vpl_localserveraddress''
     then net_then (net_modify (\<lambda>m. m\<lparr>mo_runBrowser := True\<rparr>))
       (net_bind (passthrough_ticket fuel) (\<lambda>ticket. m_send (''run:browser:'' @ ticket))) m
     else net_return () m)"

definition new_state :: "nat \<Rightarrow> int \<Rightarrow> processState \<Rightarrow> (monitor_run, bool) net" where
  "new_state fuel now st m0 = (let m = m0\<lparr>mo_state := st\<rparr>; go = (\<lambda>n. net_then n (net_return True)) in
     (case st of
        prestarting \<Rightarrow> net_return True
      | starting \<Rightarrow> go (show_phase ''message:starting'' 0 now)
      | compiling \<Rightarrow> go (show_phase ''message:compilation'' 0 now)
      | beforeRunning \<Rightarrow> before_running now
      | running \<Rightarrow> go (net_then (\<lambda>m. show_phase ''message:running'' (if m_interactive (ct_task m) then 0 else jail_harvest_timeout) now m)
          (show_browser fuel))
      | retrieve \<Rightarrow> go (net_then (net_modify (\<lambda>m. m\<lparr>mo_startTime := now, mo_timeout := now + jail_harvest_timeout\<rparr>))
          (m_send ''retrieve:''))
      | stopped \<Rightarrow> go m_close_client) m)"

text \<open>Every second the message is shown with the time.\<close>

definition show_time :: "int \<Rightarrow> (monitor_run, unit) net" where
  "show_time now m = (if mo_lastMessage m \<noteq> [] \<and> now \<noteq> mo_lastMessageTime m
     then net_then (m_send (mo_lastMessage m @ '': '' @ itos (now - mo_startTime m) @ '' sec''))
       (net_modify (\<lambda>m. m\<lparr>mo_lastMessageTime := now\<rparr>)) m
     else net_return () m)"

definition hear :: "(monitor_run, string) net" where
  "hear = net_bind (on_mws ws_wait) (\<lambda>idle. if idle then net_return [] else on_mws ws_receive)"

text \<open>The limits of the task: the client is told and closed.\<close>

definition tell_and_leave :: "string \<Rightarrow> (monitor_run, round_end) net" where
  "tell_and_leave message = net_then (m_send message) (net_then m_nap (net_then m_close_client (net_return LeaveLoop)))"

definition check_limits :: "int \<Rightarrow> (monitor_run, round_end) net" where
  "check_limits now m = (let t = ct_task m in
     if mo_state m \<noteq> starting \<and> mo_timeout m < w_now t then tell_and_leave ''message:timeout'' m
     else if m_interactive t \<and> mo_lastTime m \<noteq> now \<and> isOutOfMemory t then tell_and_leave (''message:outofmemory:'' @ getMemoryLimit t) m
     else net_return NextRound (m\<lparr>mo_lastTime := now\<rparr>))"

definition after_hearing :: "int \<Rightarrow> string \<Rightarrow> (monitor_run, round_end) net" where
  "after_hearing now got m =
     (if ws_isClosed (ct_ws m) then net_return (if mo_state m = retrieve \<and> mo_timeout m \<ge> w_now (ct_task m) then NextRound else LeaveLoop) m
      else if got \<noteq> [] then net_then (on_mws (ws_close [])) (net_return LeaveLoop) m
      else check_limits now m)"

definition monitor_round :: "nat \<Rightarrow> monitor_tick \<Rightarrow> (monitor_run, round_end) net" where
  "monitor_round fuel tk m0 = net_bind (on_mtask getState) (\<lambda>newstate m. let now = w_now (ct_task m) in
     net_bind (if newstate \<noteq> mo_state m then new_state fuel now newstate else net_return True) (\<lambda>go m.
       if \<not> go then net_return LeaveAll m
       else if mo_state m = stopped then net_return LeaveLoop m
       else net_then (show_time now) (net_bind hear (\<lambda>got m.
         after_hearing now got (m\<lparr>ct_task := world_moves (mt_after tk) (ct_task m)\<rparr>))) m) m)
     (m0\<lparr>ct_task := world_moves (mt_before tk) (ct_task m0)\<rparr>)"

definition monitor_over :: "(monitor_run, unit) net" where
  "monitor_over = net_then m_wait_close (on_mtask (op_modify cleanTask))"

primrec monitor_loop :: "nat \<Rightarrow> monitor_tick list \<Rightarrow> (monitor_run, unit) net" where
  "monitor_loop fuel [] = (\<lambda>m rs. None)"
| "monitor_loop fuel (tk # ticks) = net_bind (monitor_round fuel tk) (\<lambda>e. case e of
      NextRound \<Rightarrow> monitor_loop fuel ticks | LeaveLoop \<Rightarrow> monitor_over | LeaveAll \<Rightarrow> net_return ())"

definition start_monitor :: "control \<Rightarrow> monitor_run" where
  "start_monitor c = (let t = ct_task c in control.extend c
     \<lparr>mo_state = prestarting, mo_webserver = False, mo_runBrowser = False, mo_startTime = 0, mo_lastMessageTime = 0,
      mo_lastTime = m_startTime t, mo_timeout = m_startTime t + maxtime (m_limits t), mo_lastMessage = []\<rparr>)"

definition monitor_body :: "nat \<Rightarrow> monitor_tick list \<Rightarrow> string \<Rightarrow> (control, unit) net" where
  "monitor_body fuel ticks ticket = net_then (on_ctask (processMonitor1 ticket))
     (\<lambda>c rs. case monitor_loop fuel ticks (start_monitor c) rs of
        None \<Rightarrow> None
      | Some ((m, v), rs) \<Rightarrow> Some ((control.truncate m, v), rs))"

definition commandMonitor :: "nat \<Rightarrow> monitor_tick list \<Rightarrow> string \<Rightarrow> (control, unit) net" where
  "commandMonitor fuel ticks ticket = catch_cleaning (monitor_body fuel ticks ticket)"

section \<open>A connection is closed when its function returns\<close>

lemma post_any_bind: "(\<And>x s'. net_post Q (f x s')) \<Longrightarrow> (\<And>e s'. Q s' (Inl e)) \<Longrightarrow> net_post Q (net_bind m f s)"
  by (rule net_post_bind) (auto simp: net_post_def split: sum.splits)

lemma post_any_then: "(\<And>s'. net_post Q (n s')) \<Longrightarrow> (\<And>e s'. Q s' (Inl e)) \<Longrightarrow> net_post Q (net_then m n s)"
  unfolding net_then_def by (rule post_any_bind)

lemma post_last_bind:
  "net_post Q (m s) \<Longrightarrow> (\<And>x s'. Q s' (Inr x) \<Longrightarrow> net_post R (f x s')) \<Longrightarrow> (\<And>e s'. R s' (Inl e)) \<Longrightarrow> net_post R (net_bind m f s)"
  by (rule net_post_bind, erule net_post_mono) (auto split: sum.splits)

lemma post_last_then:
  "net_post Q (m s) \<Longrightarrow> (\<And>x s'. Q s' (Inr x) \<Longrightarrow> net_post R (n s')) \<Longrightarrow> (\<And>e s'. R s' (Inl e)) \<Longrightarrow> net_post R (net_then m n s)"
  unfolding net_then_def by (rule post_last_bind)

definition shut :: "'b control_scheme \<Rightarrow> 'a result \<Rightarrow> bool" where
  "shut c v \<longleftrightarrow> (case v of Inl e \<Rightarrow> True | Inr x \<Rightarrow> ws_isClosed (ct_ws c))"

lemma shut_simps [simp]: "shut c (Inl e)" "shut c (Inr x) \<longleftrightarrow> ws_isClosed (ct_ws c)"
  by (simp_all add: shut_def)

lemma closeAndWait_shut: "net_post (\<lambda>w v. case v of Inl e \<Rightarrow> True | Inr x \<Rightarrow> ws_isClosed w) (ws_closeAndWait n w)"
  unfolding ws_closeAndWait_def
  by (intro post_any_bind) (auto simp: ws_shut_def net_post_def net_modify_def ws_isClosed_def socket_close_def closeFlag_def)

lemma post_on_part: "net_post Q (m (get s)) \<Longrightarrow> (\<And>p v. Q p v \<Longrightarrow> R (put p s) v) \<Longrightarrow> net_post R (on_part get put m s)"
  by (auto simp: net_post_def on_part_def split: option.splits)

lemma wait_close_shut: "net_post shut (wait_close c)"
  unfolding wait_close_def on_cws_def
  by (rule post_on_part, rule closeAndWait_shut) (auto simp: shut_def split: sum.splits)

lemma m_wait_close_shut: "net_post shut (m_wait_close c)"
  unfolding m_wait_close_def on_mws_def
  by (rule post_on_part, rule closeAndWait_shut) (auto simp: shut_def split: sum.splits)

lemma ctask_ws: "net_post (\<lambda>c' v. ct_ws c' = ct_ws c) (on_ctask m c)"
  by (auto simp: net_post_def on_ctask_def split: prod.splits)

lemma ctask_shut: "ws_isClosed (ct_ws c) \<Longrightarrow> net_post shut (on_ctask m c)"
  by (rule net_post_mono [OF ctask_ws]) (auto simp: shut_def split: sum.splits)

lemma execute_ready_shut: "net_post shut (execute_ready e c)"
proof -
  have last: "net_post shut (net_bind (on_ctask hasActiveMonitor) (\<lambda>active. if active then net_return () else on_ctask (op_modify cleanTask)) s)"
    if "ws_isClosed (ct_ws s)" for s
    by (rule post_last_bind [where Q = shut], rule ctask_shut [OF that]) (auto intro!: net_post_basic ctask_shut)
  have "net_post shut (net_then wait_close (net_bind (on_ctask hasActiveMonitor)
      (\<lambda>active. if active then net_return () else on_ctask (op_modify cleanTask))) s)" for s
    by (rule post_last_then [where Q = shut, OF wait_close_shut]) (simp_all add: last)
  then show ?thesis unfolding execute_ready_def by - (rule post_any_then, rule post_any_then, simp_all)
qed

lemma execute_body_shut: "net_post shut (execute_body e ticket c)"
  unfolding execute_body_def
  by (intro post_any_then) (auto intro!: post_any_bind net_post_basic execute_ready_shut wait_close_shut)

lemma catch_cleaning_shut: "net_post shut (m c) \<Longrightarrow> net_post shut (catch_cleaning m c)"
  unfolding catch_cleaning_def
  by (rule net_post_catch, erule net_post_mono)
    (auto intro!: net_post_basic wait_close_shut split: sum.splits)

section \<open>The task of a monitor is cleaned\<close>

lemma of_task_world [simp]: "of_task p d (world_moves g t) = of_task p d t"
  by (simp add: world_moves_def)

text \<open>The connection is about this task.\<close>

definition about :: "int \<Rightarrow> string \<Rightarrow> 'b control_scheme \<Rightarrow> bool" where
  "about p d c \<longleftrightarrow> of_task p d (ct_task c)"

lemma about_upd [simp]:
  "about p d (c\<lparr>ct_ws := w\<rparr>) = about p d c" "about p d (c\<lparr>ct_task := t\<rparr>) = of_task p d t"
  "about p d (m\<lparr>mo_state := st\<rparr>) = about p d m" "about p d (m\<lparr>mo_webserver := b\<rparr>) = about p d m"
  "about p d (m\<lparr>mo_runBrowser := b\<rparr>) = about p d m" "about p d (m\<lparr>mo_startTime := n\<rparr>) = about p d m"
  "about p d (m\<lparr>mo_lastMessageTime := n\<rparr>) = about p d m" "about p d (m\<lparr>mo_lastTime := n\<rparr>) = about p d m"
  "about p d (m\<lparr>mo_timeout := n\<rparr>) = about p d m" "about p d (m\<lparr>mo_lastMessage := x\<rparr>) = about p d m"
  by (simp_all add: about_def)

named_theorems about_rules "operations that stay with their task"

lemmas [about_rules] = net_ends_bind net_ends_then net_ends_return net_ends_throw net_ends_modify net_ends_if

lemma about_mws [about_rules]: "about p d m \<Longrightarrow> net_ends (about p d) (on_mws f m)"
  unfolding on_mws_def by (rule net_ends_part) simp

lemma about_mtask: "op_keeps (of_task p d) f \<Longrightarrow> about p d m \<Longrightarrow> net_ends (about p d) (on_mtask f m)"
  by (auto simp: net_ends_def on_mtask_def about_def dest: op_keepsD split: prod.splits)

lemmas [about_rules] = about_mtask [OF keeps_of_task(3)] about_mtask [OF keeps_of_task(4)] about_mtask [OF keeps_getState]

lemma keeps_getCompilation: "op_keeps (of_task p d) getCompilation"
  by (auto simp: op_keeps_def getCompilation_def read_file_def Let_def split: option.splits)

lemmas [about_rules] = about_mtask [OF keeps_getCompilation]

lemma about_simple [about_rules]:
  "about p d m \<Longrightarrow> net_ends (about p d) (m_send x m)" "about p d m \<Longrightarrow> net_ends (about p d) (m_wait_close m)"
  "about p d m \<Longrightarrow> net_ends (about p d) (m_close_client m)" "about p d m \<Longrightarrow> net_ends (about p d) (m_nap m)"
  "about p d m \<Longrightarrow> net_ends (about p d) (hear m)"
  unfolding m_close_client_def hear_def by (auto intro!: about_rules simp: m_send_def m_wait_close_def m_nap_def)

lemma keeps_fresh: "of_task p d t \<Longrightarrow> fresh_passthrough fuel k t = Some (t', r) \<Longrightarrow> of_task p d t'"
proof (induction fuel arbitrary: k t)
  case 0
  then show ?case by (auto simp: fresh_passthrough.simps split: if_splits)
next
  case (Suc fuel)
  then show ?case
    using op_keepsD [OF keeps_of_task(5), of p d t]
    by (auto simp: fresh_passthrough.simps [of "Suc fuel"] split: if_splits prod.splits sum.splits)
qed

lemma about_passthrough [about_rules]: "about p d m \<Longrightarrow> net_ends (about p d) (passthrough_ticket fuel m)"
proof -
  have k: "op_keeps (of_task p d) (op_bind (op_lift r) (\<lambda>ticket. op_then (op_modify (\<lambda>t. t\<lparr>m_httpPassthroughticket := ticket\<rparr>))
      (op_then (store_ticket ticket l) (op_then (writeInfo []) (op_return ticket)))))" for r l
    by (rule op_keeps_bind [OF op_keeps_basic(3)],
      rule op_keeps_then [OF op_keeps_modify op_keeps_then [OF keeps_of_task(6) op_keeps_then [OF keeps_of_task(2) op_keeps_basic(1)]]]) simp
  have "of_task p d t'" if h: "getHttpPassthroughTicket fuel t = Some (t', v)" "of_task p d t" for t t' v
  proof -
    obtain t1 r1 where 1: "readInfo t = (t1, r1)" by fastforce
    have o1: "of_task p d t1" by (rule op_keepsD [OF keeps_of_task(1) h(2) 1])
    obtain t2 r2 where 2: "two_parts t1 = (t2, r2)" by fastforce
    have o2: "of_task p d t2" by (rule op_keepsD [OF keeps_of_task(5) o1 2])
    consider "t' = t1" | "t' = t2" | k' t3 r3 where "fresh_passthrough fuel k' t2 = Some (t3, r3)"
        "(t', v) = op_bind (op_lift r3) (\<lambda>ticket. op_then (op_modify (\<lambda>t. t\<lparr>m_httpPassthroughticket := ticket\<rparr>))
          (op_then (store_ticket ticket sec_httppassthrough) (op_then (writeInfo []) (op_return ticket)))) t3"
      using h(1) 1 2 by (auto simp: getHttpPassthroughTicket_def split: sum.splits if_splits)
    then show ?thesis
    proof cases
      case (3 k' t3 r3)
      show ?thesis by (rule op_keepsD [OF k keeps_fresh [OF o2 3(1)] 3(2) [symmetric]])
    qed (use o1 o2 in simp_all)
  qed
  then show "about p d m \<Longrightarrow> ?thesis"
    by (auto simp: net_ends_def passthrough_ticket_def about_def split: option.splits prod.splits)
qed

lemma about_steps [about_rules]:
  "about p d m \<Longrightarrow> net_ends (about p d) (show_phase x e n m)" "about p d m \<Longrightarrow> net_ends (about p d) (send_compilation m)"
  "about p d m \<Longrightarrow> net_ends (about p d) (show_browser fuel m)" "about p d m \<Longrightarrow> net_ends (about p d) (show_time n m)"
  "about p d m \<Longrightarrow> net_ends (about p d) (no_executable m)" "about p d m \<Longrightarrow> net_ends (about p d) (tell_and_leave x m)"
  unfolding show_phase_def send_compilation_def show_browser_def show_time_def no_executable_def tell_and_leave_def
  by (auto intro!: about_rules)

lemma about_more [about_rules]:
  "about p d m \<Longrightarrow> net_ends (about p d) (before_running now m)"
  "about p d m \<Longrightarrow> net_ends (about p d) (after_hearing now got m)"
  unfolding before_running_def after_hearing_def check_limits_def Let_def
  by (auto intro!: about_rules)

lemma about_new_state [about_rules]: "about p d m \<Longrightarrow> net_ends (about p d) (new_state fuel now st m)"
  unfolding new_state_def Let_def by (cases st) (auto intro!: about_rules)

lemma about_round: "about p d m \<Longrightarrow> net_ends (about p d) (monitor_round fuel tk m)"
  unfolding monitor_round_def Let_def by (auto intro!: about_rules) (auto simp: about_def)

lemma post_keep_bind:
  "net_ends I (m s) \<Longrightarrow> (\<And>x s'. I s' \<Longrightarrow> net_post Q (f x s')) \<Longrightarrow> (\<And>e s'. Q s' (Inl e)) \<Longrightarrow> net_post Q (net_bind m f s)"
proof (rule net_post_bind)
  assume a: "net_ends I (m s)" "\<And>x s'. I s' \<Longrightarrow> net_post Q (f x s')" "\<And>e s'. Q s' (Inl e)"
  then show "net_post (\<lambda>s v. case v of Inl e \<Rightarrow> Q s (Inl e) | Inr x \<Rightarrow> net_post Q (f x s)) (m s)"
    unfolding net_post_def [of "\<lambda>s v. case v of Inl e \<Rightarrow> Q s (Inl e) | Inr x \<Rightarrow> net_post Q (f x s)"]
    by (auto dest: net_endsD split: sum.split)
qed

lemma post_keep_then:
  "net_ends I (m s) \<Longrightarrow> (\<And>s'. I s' \<Longrightarrow> net_post Q (n s')) \<Longrightarrow> (\<And>e s'. Q s' (Inl e)) \<Longrightarrow> net_post Q (net_then m n s)"
  unfolding net_then_def by (rule post_keep_bind)

text \<open>A monitor that returns has closed its client and cleaned this task.\<close>

definition finished :: "int \<Rightarrow> string \<Rightarrow> 'b control_scheme \<Rightarrow> 'a result \<Rightarrow> bool" where
  "finished p d c v \<longleftrightarrow> (case v of Inl e \<Rightarrow> True | Inr x \<Rightarrow> ws_isClosed (ct_ws c) \<and> (\<exists>t. of_task p d t \<and> ct_task c = cleanTask t))"

definition ended_if :: "int \<Rightarrow> string \<Rightarrow> 'a \<Rightarrow> monitor_run \<Rightarrow> 'a result \<Rightarrow> bool" where
  "ended_if p d y m v \<longleftrightarrow> (case v of Inl e \<Rightarrow> True | Inr x \<Rightarrow> about p d m \<and> (x = y \<longrightarrow> finished p d m (Inr ())))"

definition shut_about :: "int \<Rightarrow> string \<Rightarrow> 'b control_scheme \<Rightarrow> 'a result \<Rightarrow> bool" where
  "shut_about p d c v \<longleftrightarrow> about p d c \<and> shut c v"

lemma finished_simps [simp]:
  "finished p d c (Inl e)" "finished p d c (Inr x) \<longleftrightarrow> ws_isClosed (ct_ws c) \<and> (\<exists>t. of_task p d t \<and> ct_task c = cleanTask t)"
  "ended_if p d y m (Inl e)"
  "ended_if p d y m (Inr x) \<longleftrightarrow> about p d m \<and> (x = y \<longrightarrow> ws_isClosed (ct_ws m) \<and> (\<exists>t. of_task p d t \<and> ct_task m = cleanTask t))"
  by (simp_all add: finished_def ended_if_def)

lemma shut_aboutI: "net_post shut r \<Longrightarrow> net_ends (about p d) r \<Longrightarrow> net_post (shut_about p d) r"
  unfolding net_post_def net_ends_def shut_about_def by blast

lemma close_client_shut: "net_post shut (m_close_client c)"
  unfolding m_close_client_def by (rule post_any_then) (simp_all add: m_wait_close_shut)

lemma clean_finished:
  "shut_about p d c (Inr x) \<Longrightarrow> net_post (\<lambda>c v. about p d c \<and> finished p d c v) (on_mtask (op_modify cleanTask) c)"
  by (auto simp: net_post_def on_mtask_def op_modify_def shut_about_def about_def of_task_clean finished_def)

lemma monitor_over_finished: "about p d c \<Longrightarrow> net_post (finished p d) (monitor_over c)"
  unfolding monitor_over_def
  by (rule post_last_then [OF shut_aboutI [OF m_wait_close_shut]], erule about_simple(2))
    (rule net_post_mono [OF clean_finished], assumption, simp_all)

lemma no_executable_ended: "about p d c \<Longrightarrow> net_post (ended_if p d False) (no_executable c)"
proof -
  have c: "net_post (ended_if p d False) (net_then (on_mtask (op_modify cleanTask)) (net_return False) s)" if "shut_about p d s (Inr ())" for s
    by (rule post_last_then, rule clean_finished [OF that]) (auto intro!: net_post_basic)
  have "net_post (ended_if p d False) (net_then m_close_client (net_then (on_mtask (op_modify cleanTask)) (net_return False)) s)"
    if "about p d s" for s
    by (rule post_last_then [OF shut_aboutI [OF close_client_shut]], rule about_simple(3) [OF that]) (auto intro: c)
  then show "about p d c \<Longrightarrow> ?thesis"
    unfolding no_executable_def
    by - (rule post_keep_then [where I = "about p d"], erule about_simple(4), rule post_keep_bind [where I = "about p d"],
      erule about_mtask [OF keeps_getCompilation], rule post_keep_then [where I = "about p d"], auto intro: about_simple)
qed

lemma goes_on: "net_ends (about p d) (n m) \<Longrightarrow> net_post (ended_if p d False) (net_then n (net_return True) m)"
  by (rule post_keep_then [where I = "about p d"]) (auto intro!: net_post_basic)

lemma before_running_ended: "about p d m \<Longrightarrow> net_post (ended_if p d False) (before_running now m)"
proof -
  have s: "net_post (ended_if p d False) (send_compilation m)" if "about p d m" for m
    unfolding send_compilation_def using that
    by (intro post_keep_then [where I = "about p d"] post_keep_bind [where I = "about p d"]) (auto intro!: about_rules net_post_basic)
  then show "about p d m \<Longrightarrow> ?thesis"
    unfolding before_running_def Let_def
    by (auto intro!: post_keep_then [where I = "about p d"] about_rules s no_executable_ended)
qed

lemma new_state_ended: "about p d m \<Longrightarrow> net_post (ended_if p d False) (new_state fuel now st m)"
  unfolding new_state_def Let_def by (cases st) (auto intro!: goes_on before_running_ended net_post_basic about_rules)

lemma after_hearing_ended: "about p d m \<Longrightarrow> net_post (ended_if p d LeaveAll) (after_hearing now got m)"
  unfolding after_hearing_def check_limits_def tell_and_leave_def Let_def
  by (auto intro!: post_keep_then [where I = "about p d"] net_post_basic about_rules)

lemma monitor_round_ended: "about p d m \<Longrightarrow> net_post (ended_if p d LeaveAll) (monitor_round fuel tk m)"
proof -
  assume a: "about p d m"
  have hears: "net_post (ended_if p d LeaveAll) (net_then (show_time now)
      (net_bind hear (\<lambda>got m. after_hearing now got (m\<lparr>ct_task := world_moves f (ct_task m)\<rparr>))) m)" if "about p d m" for now f m
    using that
    by (intro post_keep_then [where I = "about p d"] post_keep_bind [where I = "about p d"])
      (auto intro!: about_rules after_hearing_ended, simp add: about_def)
  have go: "net_post (ended_if p d LeaveAll) (if \<not> go then net_return LeaveAll m else if mo_state m = stopped then net_return LeaveLoop m
      else net_then (show_time now) (net_bind hear (\<lambda>got m. after_hearing now got (m\<lparr>ct_task := world_moves f (ct_task m)\<rparr>))) m)"
    if "ended_if p d False m (Inr go)" for go m now f
    using that by (auto intro!: net_post_basic hears)
  have new: "net_post (ended_if p d False) ((if st \<noteq> mo_state m then new_state fuel now st else net_return True) m)" if "about p d m" for st m now
    using that by (auto intro!: new_state_ended net_post_basic)
  have round: "net_post (ended_if p d LeaveAll) (net_bind (if st \<noteq> mo_state m then new_state fuel now st else net_return True) (\<lambda>go m.
       if \<not> go then net_return LeaveAll m
       else if mo_state m = stopped then net_return LeaveLoop m
       else net_then (show_time now) (net_bind hear (\<lambda>got m.
         after_hearing now got (m\<lparr>ct_task := world_moves (mt_after tk) (ct_task m)\<rparr>))) m) m)" if "about p d m" for st m now
    by (rule post_last_bind [where Q = "ended_if p d False"], rule new [OF that], erule go) simp
  show ?thesis
    unfolding monitor_round_def Let_def
  proof (rule post_keep_bind [where I = "about p d"])
    show "net_ends (about p d) (on_mtask getState (m\<lparr>ct_task := world_moves (mt_before tk) (ct_task m)\<rparr>))"
      using a by (intro about_mtask [OF keeps_getState]) (simp add: about_def)
  qed (rule round, assumption, simp)
qed

lemma monitor_loop_finished: "about p d m \<Longrightarrow> net_post (finished p d) (monitor_loop fuel ticks m)"
proof (induction ticks arbitrary: m)
  case (Cons tk ticks)
  show ?case
    unfolding monitor_loop.simps
    by (rule post_last_bind [where Q = "ended_if p d LeaveAll"], rule monitor_round_ended [OF Cons.prems])
      (auto intro!: Cons.IH monitor_over_finished net_post_basic split: round_end.split)
qed (simp add: net_post_def)

text \<open>What a monitor leaves when it returns: the task that its ticket opened, cleaned.\<close>

definition cleaned_own :: "string \<Rightarrow> control \<Rightarrow> control \<Rightarrow> bool" where
  "cleaned_own ticket c c' \<longleftrightarrow> (\<exists>t1 t. processMonitor1 ticket (ct_task c) = (t1, Inr ()) \<and>
     isPrisonerUID (w_conf (ct_task c)) (m_prisoner t1) \<and> of_task (m_prisoner t1) (m_processControlPath t1) t \<and> ct_task c' = cleanTask t)"

lemma monitor_body_finished:
  assumes "monitor_body fuel ticks ticket c rs = Some ((c', Inr ()), rs')"
  shows "ws_isClosed (ct_ws c') \<and> cleaned_own ticket c c'"
proof -
  obtain t1 where t1: "processMonitor1 ticket (ct_task c) = (t1, Inr ())"
    using assms by (cases "processMonitor1 ticket (ct_task c)")
      (auto simp: monitor_body_def net_then_def net_bind_def on_ctask_def split: sum.splits)
  let ?p = "m_prisoner t1" and ?d = "m_processControlPath t1"
  from assms t1 obtain m where m: "monitor_loop fuel ticks (start_monitor (c\<lparr>ct_task := t1\<rparr>)) rs = Some ((m, Inr ()), rs')"
      "c' = control.truncate m"
    by (auto simp: monitor_body_def net_then_def net_bind_def on_ctask_def split: option.splits sum.splits)
  have "about ?p ?d (start_monitor (c\<lparr>ct_task := t1\<rparr>))"
    by (simp add: about_def start_monitor_def Let_def control.extend_def of_task_def)
  from net_postD [OF monitor_loop_finished [OF this] m(1)]
  obtain t where "ws_isClosed (ct_ws m)" "of_task ?p ?d t" "ct_task m = cleanTask t" by auto
  then show ?thesis
    using t1 ticket_gives [OF t1] m(2) unfolding cleaned_own_def by (auto simp: control.truncate_def)
qed

section \<open>How a program is stopped\<close>

text \<open>Asked to end at most once, and first; then killed.\<close>

definition escalating :: "bool list \<Rightarrow> bool" where
  "escalating xs \<longleftrightarrow> (\<exists>k. xs = replicate k True \<or> xs = False # replicate k True)"

definition signals_ok :: "'r runstate \<Rightarrow> bool" where
  "signals_ok s \<longleftrightarrow> (if rn_stopKill s then \<exists>k. rn_signals s = False # replicate k True else rn_signals s = [])"

text \<open>Every process of the prisoner is stopped whenever the group is signalled, softly the first time.\<close>

definition stops_ok :: "'r runstate \<Rightarrow> bool" where
  "stops_ok s \<longleftrightarrow> signals_ok s \<and> length (rn_stops s) = length (rn_signals s) \<and> (rn_stops s \<noteq> [] \<longrightarrow> hd (rn_stops s))"

text \<open>In a terminal only the first time.\<close>

definition hard_stops :: "'r runstate \<Rightarrow> bool" where
  "hard_stops s \<longleftrightarrow> signals_ok s \<and> map Not (rn_stops s) = rn_signals s"

lemma signals_ok_basic [simp]:
  "signals_ok (s\<lparr>rn_task := t\<rparr>) = signals_ok s" "signals_ok (s\<lparr>rn_red := r\<rparr>) = signals_ok s"
  "signals_ok (s\<lparr>rn_lastTime := n\<rparr>) = signals_ok s" "signals_ok (s\<lparr>rn_newpid := p\<rparr>) = signals_ok s"
  by (simp_all add: signals_ok_def)

lemma signals_ok_stop: "signals_ok s \<Longrightarrow> signals_ok (stop_program b s)"
proof -
  have "replicate k True @ [True] = replicate (Suc k) True" for k by (simp add: replicate_append_same)
  then show "signals_ok s \<Longrightarrow> signals_ok (stop_program b s)"
    by (auto simp: signals_ok_def stop_program_def simp del: replicate.simps intro: exI [of _ 0] split: if_splits)
qed

lemma stops_basic [simp]:
  "stops_ok (s\<lparr>rn_task := t\<rparr>) = stops_ok s" "stops_ok (s\<lparr>rn_red := r\<rparr>) = stops_ok s"
  "stops_ok (s\<lparr>rn_lastTime := n\<rparr>) = stops_ok s" "stops_ok (s\<lparr>rn_newpid := p\<rparr>) = stops_ok s"
  "hard_stops (s\<lparr>rn_task := t\<rparr>) = hard_stops s" "hard_stops (s\<lparr>rn_red := r\<rparr>) = hard_stops s"
  "hard_stops (s\<lparr>rn_lastTime := n\<rparr>) = hard_stops s" "hard_stops (s\<lparr>rn_newpid := p\<rparr>) = hard_stops s"
  by (simp_all add: stops_ok_def hard_stops_def)

lemma stops_ok_stop: "stops_ok s \<Longrightarrow> \<not> rn_stopKill s \<longrightarrow> soft \<Longrightarrow> stops_ok (stop_program soft s)"
proof -
  assume a: "stops_ok s" "\<not> rn_stopKill s \<longrightarrow> soft"
  then have "signals_ok (stop_program soft s)" by (simp add: stops_ok_def signals_ok_stop)
  with a show ?thesis by (cases "rn_stops s") (auto simp: stops_ok_def stop_program_def signals_ok_def split: if_splits)
qed

lemma hard_stops_stop: "hard_stops s \<Longrightarrow> k = rn_stopKill s \<Longrightarrow> hard_stops (stop_program (\<not> k) s)"
  using signals_ok_stop [of s] by (auto simp: hard_stops_def stop_program_def)

lemma stops_say [simp]:
  "stops_ok (say_or_stop m s) = stops_ok s" "hard_stops (terminal_say m u) = hard_stops u" "hard_stops (terminal_quit u) = hard_stops u"
  by (simp_all add: say_or_stop_def terminal_say_def terminal_quit_def)

lemma say_signals [simp]:
  "rn_signals (say_or_stop m s) = rn_signals s" "rn_stopKill (say_or_stop m s) = rn_stopKill s" "rn_stops (say_or_stop m s) = rn_stops s"
  "rn_signals (terminal_say m u) = rn_signals u" "rn_stopKill (terminal_say m u) = rn_stopKill u" "rn_stops (terminal_say m u) = rn_stops u"
  "rn_signals (terminal_quit u) = rn_signals u" "rn_stopKill (terminal_quit u) = rn_stopKill u" "rn_stops (terminal_quit u) = rn_stops u"
  by (simp_all add: say_or_stop_def terminal_say_def terminal_quit_def)

lemma signals_escalate: "signals_ok s \<Longrightarrow> escalating (rn_signals s)" "signals_ok s \<Longrightarrow> escalating (rn_signals (clean_unmonitored (reap_child s)))"
proof -
  have r: "replicate k True @ [True] = replicate (Suc k) True" for k by (simp add: replicate_append_same)
  show "signals_ok s \<Longrightarrow> escalating (rn_signals s)"
    by (auto simp: signals_ok_def escalating_def intro: exI [of _ 0] split: if_splits)
  show "signals_ok s \<Longrightarrow> escalating (rn_signals (clean_unmonitored (reap_child s)))"
    by (auto simp: signals_ok_def escalating_def clean_unmonitored_def reap_child_def r simp del: replicate.simps
        intro: exI [of _ "Suc 0"] split: if_splits) (auto intro: exI [of _ "Suc 0"])
qed

lemma ends_on_red [net_rules]: "(\<And>r. P (s\<lparr>rn_red := r\<rparr>)) \<Longrightarrow> net_ends P (on_red m s)"
  unfolding on_red_def by (rule net_ends_part)

lemma ends_on_rtask [net_rules]: "(\<And>t. P (s\<lparr>rn_task := t\<rparr>)) \<Longrightarrow> net_ends P (on_rtask m s)"
  by (auto simp: net_ends_def on_rtask_def split: prod.splits)

lemma ends_not_monitored: "P s \<Longrightarrow> (\<And>t. P (s\<lparr>rn_task := t\<rparr>)) \<Longrightarrow> net_ends P (not_monitored e s)"
  unfolding not_monitored_def by (auto intro!: net_rules)

lemma ends_watch_loop:
  assumes "\<And>tk s. P s \<Longrightarrow> net_ends P (body tk s)"
  shows "P s \<Longrightarrow> net_ends P (watch_loop active body ticks s)"
proof (induction ticks arbitrary: s)
  case Nil
  then show ?case by (simp add: net_ends_def)
next
  case (Cons tk ticks)
  then show ?case by (auto intro!: net_ends_bind net_ends_return assms)
qed

lemma ends_drain: "(\<And>s r. P s \<Longrightarrow> P (s\<lparr>rn_red := r\<rparr>)) \<Longrightarrow> P s \<Longrightarrow> net_ends P (drain active adv n s)"
  by (induction n arbitrary: s) (auto intro!: net_rules)

lemma batch_watch_stops: "stops_ok s \<Longrightarrow> net_ends stops_ok (batch_watch limit s)"
  unfolding batch_watch_def Let_def
  by (auto intro!: net_ends_bind ends_not_monitored net_ends_modify stops_ok_stop)

lemma batch_round_stops: "stops_ok s \<Longrightarrow> net_ends stops_ok (batch_round f limit V tk s)"
  unfolding batch_round_def Let_def batch_say_def upd_red_def
  by (cases "tk_wait tk") (auto intro!: net_rules batch_watch_stops)

lemma batch_loops_stops: "stops_ok s \<Longrightarrow> net_ends stops_ok (batch_loops e limit V s)"
  unfolding batch_loops_def batch_body_def
  by (rule net_ends_then [OF ends_watch_loop]) (auto intro!: net_ends_then ends_on_red batch_round_stops ends_drain net_ends_return)

lemma terminal_watch_stops: "hard_stops s \<Longrightarrow> net_ends hard_stops (terminal_watch limit start s)"
  unfolding terminal_watch_def Let_def
  by (auto intro!: net_ends_bind ends_not_monitored net_ends_modify hard_stops_stop)

lemma terminal_round_stops: "hard_stops s \<Longrightarrow> net_ends hard_stops (terminal_round limit start tk s)"
  unfolding terminal_round_def Let_def child_gone_def
  by (auto intro!: net_rules terminal_watch_stops)

lemma terminal_loops_stops: "hard_stops s \<Longrightarrow> net_ends hard_stops (terminal_loops e limit start s)"
  unfolding terminal_loops_def terminal_body_def
  by (rule net_ends_then [OF ends_watch_loop]) (auto intro!: net_ends_then ends_on_red terminal_round_stops ends_drain)

text \<open>After a session of a terminal no child is left, whatever was thrown.\<close>

lemma terminal_session_reaped:
  assumes "hard_stops s" "terminal_session e limit start s rs = Some ((s', v), rs')"
  shows "v = Inr () \<and> rn_newpid s' = -1 \<and> escalating (rn_signals s') \<and> escalating (map Not (rn_stops s'))"
proof -
  obtain u w rs1 where u: "terminal_loops e limit start s rs = Some ((u, w), rs1)"
    using assms(2) by (auto simp: terminal_session_def net_then_def net_bind_def net_catch_def split: option.splits)
  then have s: "s' = clean_unmonitored (reap_child u) \<and> v = Inr ()"
    using assms(2) by (auto simp: terminal_session_def net_then_def net_bind_def net_catch_def net_return_def net_modify_def split: sum.splits)
  have h: "signals_ok u" "map Not (rn_stops u) = rn_signals u"
    using net_endsD [OF terminal_loops_stops [OF assms(1)] u] by (simp_all add: hard_stops_def)
  have "rn_stops s' = rn_stops u" "rn_newpid s' = -1" using s by (simp_all add: clean_unmonitored_def reap_child_def)
  then show ?thesis using s signals_escalate [OF h(1)] h(2) by simp
qed

text \<open>Whether a program is to be stopped: nobody watches, its time is over, or its memory.\<close>

definition asked :: "int \<Rightarrow> task \<Rightarrow> task \<times> bool result" where
  "asked elapsed t = (if elapsed > jail_monitorstart_timeout
     then (case isMonitored t of (t', r) \<Rightarrow> (t', bind_result r (\<lambda>m. Inr (\<not> m)))) else (t, Inr False))"

definition past_limits :: "int \<Rightarrow> int \<Rightarrow> task \<Rightarrow> bool" where
  "past_limits limit start t \<longleftrightarrow> (let elapsed = to_int32 (w_now t - start) in
     case asked elapsed t of (t', r) \<Rightarrow> r = Inr True \<or> elapsed \<ge> limit \<or> isOutOfMemory t')"

lemma not_monitored_run:
  "not_monitored elapsed s rs = Some ((s', v), rs') \<longleftrightarrow>
     rs' = rs \<and> s' = s\<lparr>rn_task := fst (asked elapsed (rn_task s))\<rparr> \<and> v = snd (asked elapsed (rn_task s))"
  by (auto simp: not_monitored_def asked_def net_bind_def on_rtask_def net_return_def split: prod.splits sum.splits)

lemma stop_program_signals [simp]:
  "rn_signals (stop_program b s) = rn_signals s @ [rn_stopKill s]" "rn_stops (stop_program b s) = rn_stops s @ [b]"
  by (simp_all add: stop_program_def)

text \<open>Nobody watches the program.\<close>

definition unwatched :: "int \<Rightarrow> task \<Rightarrow> bool" where
  "unwatched start t \<longleftrightarrow> snd (asked (to_int32 (w_now t - start)) t) = Inr True"

lemma batch_watch_run:
  assumes "batch_watch limit s rs = Some ((s', Inr u), rs')"
  shows "rn_signals s' = rn_signals s @ (if past_limits limit (m_startTime (rn_task s)) (rn_task s) then [rn_stopKill s] else []) \<and>
    rn_stops s' = rn_stops s @ (if past_limits limit (m_startTime (rn_task s)) (rn_task s)
      then [\<not> rn_stopKill s \<or> unwatched (m_startTime (rn_task s)) (rn_task s)] else [])"
proof -
  let ?e = "elapsed_since (m_startTime (rn_task s)) s"
  let ?a = "asked ?e (rn_task s)"
  from assms obtain alone where a: "snd ?a = Inr alone"
    by (auto simp: batch_watch_def Let_def net_bind_def not_monitored_run split: option.splits sum.splits)
  then have "not_monitored ?e s rs = Some ((s\<lparr>rn_task := fst ?a\<rparr>, Inr alone), rs)" by (simp add: not_monitored_run)
  then show ?thesis
    using assms a
    by (auto simp: batch_watch_def Let_def net_bind_def net_modify_def past_limits_def unwatched_def elapsed_since_def split: prod.splits)
qed

lemma terminal_watch_run:
  assumes "terminal_watch limit start s rs = Some ((s', Inr u), rs')"
  shows "rn_signals s' = rn_signals s @ (if past_limits limit start (rn_task s) then [rn_stopKill s] else [])"
proof -
  let ?e = "elapsed_since start s"
  let ?a = "asked ?e (rn_task s)"
  from assms obtain alone where a: "snd ?a = Inr alone"
    by (auto simp: terminal_watch_def Let_def net_bind_def not_monitored_run split: option.splits sum.splits)
  then have "not_monitored ?e s rs = Some ((s\<lparr>rn_task := fst ?a\<rparr>, Inr alone), rs)" by (simp add: not_monitored_run)
  then show ?thesis
    using assms a
    by (auto simp: terminal_watch_def Let_def net_bind_def net_modify_def past_limits_def elapsed_since_def split: prod.splits)
qed

lemma batch_round_run:
  assumes "batch_round f limit V tk s rs = Some ((s', Inr go), rs')" "t = world_moves (tk_world tk) (rn_task s)"
  shows "rn_signals s' = rn_signals s @
    (if tk_wait tk = ChildRunning \<and> \<not> (V \<and> batch_getOutputSize (rn_red s) > 0) \<and> w_now t \<noteq> rn_lastTime s \<and>
       past_limits limit (m_startTime t) t then [rn_stopKill s] else []) \<and>
    rn_stops s' = rn_stops s @
    (if tk_wait tk = ChildRunning \<and> \<not> (V \<and> batch_getOutputSize (rn_red s) > 0) \<and> w_now t \<noteq> rn_lastTime s \<and>
       past_limits limit (m_startTime t) t then [\<not> rn_stopKill s \<or> unwatched (m_startTime t) t] else [])"
proof (cases "tk_wait tk = ChildRunning \<and> \<not> (V \<and> batch_getOutputSize (rn_red s) > 0) \<and> w_now t \<noteq> rn_lastTime s")
  case True
  then obtain u r where "batch_watch limit (s\<lparr>rn_task := t, rn_lastTime := w_now t\<rparr>) rs = Some ((u, r), rs')" "s' = u" "r = Inr ()"
    using assms by (auto simp: batch_round_def Let_def net_then_def net_bind_def net_modify_def net_return_def split: option.splits sum.splits if_splits)
  with batch_watch_run [of limit "s\<lparr>rn_task := t, rn_lastTime := w_now t\<rparr>" rs u "()" rs'] True show ?thesis by simp
next
  case False
  then have "rn_signals s' = rn_signals s \<and> rn_stops s' = rn_stops s"
    using assms
    by (cases "tk_wait tk")
      (auto simp: batch_round_def Let_def net_then_def net_bind_def net_modify_def net_return_def batch_say_def upd_red_def split: if_splits)
  with False show ?thesis by auto
qed

lemma terminal_round_run:
  assumes "terminal_round limit start tk s rs = Some ((s', Inr go), rs')" "t = world_moves (tk_world tk) (rn_task s)"
  shows "rn_signals s' = rn_signals s @
    (if tk_wait tk \<in> {ChildRunning, WaitOther} \<and> w_now t \<noteq> rn_lastTime s \<and> past_limits limit start t then [rn_stopKill s] else [])"
proof (cases "tk_wait tk \<in> {ChildRunning, WaitOther} \<and> w_now t \<noteq> rn_lastTime s")
  case True
  then obtain u r where "terminal_watch limit start (s\<lparr>rn_task := t, rn_lastTime := w_now t\<rparr>) rs = Some ((u, r), rs')" "s' = u" "r = Inr ()"
    using assms by (auto simp: terminal_round_def Let_def net_then_def net_bind_def net_modify_def net_return_def split: option.splits sum.splits if_splits)
  with terminal_watch_run [of limit start "s\<lparr>rn_task := t, rn_lastTime := w_now t\<rparr>" rs u "()" rs'] True show ?thesis by simp
next
  case False
  then have "rn_signals s' = rn_signals s"
    using assms
    by (auto simp: terminal_round_def child_gone_def Let_def net_then_def net_bind_def net_modify_def net_return_def split: if_splits)
  with False show ?thesis by auto
qed

section \<open>Properties\<close>

text \<open>
  C17: in a round of the loop a program is signalled when, and only when, it still runs, the second has changed, and it is past
  a limit: its time is over, its memory is, or after ten seconds nobody monitors it; in batch and in a terminal.
\<close>

theorem program_stopped_iff:
  "(batch_round f limit V tk s rs = Some ((s', Inr go), rs') \<longrightarrow> t = world_moves (tk_world tk) (rn_task s) \<longrightarrow>
     rn_signals s' = rn_signals s @ (if tk_wait tk = ChildRunning \<and> \<not> (V \<and> batch_getOutputSize (rn_red s) > 0) \<and>
       w_now t \<noteq> rn_lastTime s \<and> past_limits limit (m_startTime t) t then [rn_stopKill s] else [])) \<and>
   (terminal_round limit start tk u rs = Some ((u', Inr go), rs') \<longrightarrow> t = world_moves (tk_world tk) (rn_task u) \<longrightarrow>
     rn_signals u' = rn_signals u @ (if tk_wait tk \<in> {ChildRunning, WaitOther} \<and> w_now t \<noteq> rn_lastTime u \<and>
       past_limits limit start t then [rn_stopKill u] else []))"
  using batch_round_run [of f limit V tk s rs s' go rs' t] terminal_round_run [of limit start tk u rs u' go rs' t] by blast

text \<open>
  C18: the group of a program is asked to end at most once, and first; after that it is only killed: in every run in batch, and in
  every session of a terminal, which moreover leaves no child that is not waited for, whatever it throws. Whenever the group is
  signalled the processes of the prisoner are stopped too, softly the first time; in a terminal softly only then, and in batch also
  later, whenever the reason is that nobody watches.
\<close>

theorem signals_are_escalated:
  "(batch_loops e limit V (start_run e r t) rs = Some ((s, v), rs') \<longrightarrow>
      escalating (rn_signals s) \<and> length (rn_stops s) = length (rn_signals s) \<and> (rn_stops s \<noteq> [] \<longrightarrow> hd (rn_stops s))) \<and>
   (batch_round f limit V tk s0 rs0 = Some ((s1, Inr go), rs1) \<longrightarrow> t1 = world_moves (tk_world tk) (rn_task s0) \<longrightarrow>
      rn_stops s1 = rn_stops s0 @ (if length (rn_signals s1) = length (rn_signals s0) then []
        else [\<not> rn_stopKill s0 \<or> unwatched (m_startTime t1) t1])) \<and>
   (terminal_session e limit start (start_run e r2 t) rs = Some ((s2, v2), rs2) \<longrightarrow>
      v2 = Inr () \<and> rn_newpid s2 = -1 \<and> escalating (rn_signals s2) \<and> escalating (map Not (rn_stops s2)))"
proof -
  have "stops_ok (start_run e r t)" "hard_stops (start_run e r2 t)"
    by (simp_all add: stops_ok_def hard_stops_def signals_ok_def start_run_def)
  then show ?thesis
    using net_endsD [OF batch_loops_stops, of "start_run e r t" e limit V rs s v rs'] terminal_session_reaped [of "start_run e r2 t" e limit start rs s2 v2 rs2]
      batch_round_run [of f limit V tk s0 rs0 s1 go rs1 t1] signals_escalate(1) [of s]
    by (auto simp: stops_ok_def)
qed

text \<open>
  C19: when the function of an execution or of a monitor returns, the websocket of the client is closed. A monitor that returns
  has cleaned the task that its ticket opened, of a prisoner of the configuration, unless it ended because somebody is cleaning it.
  That cleaning leaves nothing at or below the directory that controls the task, if it is the prisoner's and the system kills what
  it is told to kill.
\<close>

theorem control_connections_end:
  "(commandExecute e ticket c rs = Some ((c3, Inr ()), rs3) \<longrightarrow> ws_isClosed (ct_ws c3)) \<and>
   (commandMonitor fuel ticks ticket c rs = Some ((c1, Inr ()), rs1) \<longrightarrow> ws_isClosed (ct_ws c1) \<and>
     ((\<exists>t1 t. processMonitor1 ticket (ct_task c) = (t1, Inr ()) \<and> isPrisonerUID (w_conf (ct_task c)) (m_prisoner t1) \<and>
         m_prisoner t = m_prisoner t1 \<and> m_processControlPath t = m_processControlPath t1 \<and> ct_task c1 = cleanTask t \<and>
         (cleanable t \<longrightarrow> empty_below (m_processControlPath t1) (ct_task c1))) \<or>
      (\<exists>c2 rs2. monitor_body fuel ticks ticket c rs = Some ((c2, Inl TaskCleaning), rs2))))"
proof -
  have shut: "net_post shut (monitor_body fuel ticks ticket c)"
    using monitor_body_finished [of fuel ticks ticket c] by (fastforce simp: net_post_def shut_def split: sum.splits)
  have "net_post shut (commandExecute e ticket c)"
    unfolding commandExecute_def by (rule catch_cleaning_shut, rule execute_body_shut)
  moreover have "net_post shut (commandMonitor fuel ticks ticket c)" unfolding commandMonitor_def by (rule catch_cleaning_shut, rule shut)
  moreover have "cleaned_own ticket c c1 \<or> (\<exists>c2 rs2. monitor_body fuel ticks ticket c rs = Some ((c2, Inl TaskCleaning), rs2))"
    if "commandMonitor fuel ticks ticket c rs = Some ((c1, Inr ()), rs1)"
    using that monitor_body_finished [of fuel ticks ticket c rs c1 rs1]
    by (auto simp: commandMonitor_def catch_cleaning_def net_catch_def net_throw_def split: option.splits sum.splits if_splits)
  ultimately show ?thesis
    using net_postD [of shut] cleanTask_effect(1) unfolding cleaned_own_def of_task_def by fastforce
qed

end
