(* ===== verification/Control_Examples.thy ===== *)
theory Control_Examples
  imports Task_Examples Jail_Control
begin

text \<open>
  The properties of the control of a program applied to the demonstration task: its time is over, nobody has started to run
  it, and its client has left.
\<close>

definition demo_run :: "int \<Rightarrow> 'r \<Rightarrow> 'r runstate" where
  "demo_run seen r = \<lparr>rn_task = demo_object\<lparr>w_dirs := []\<rparr>, rn_red = r, rn_lastTime = seen, rn_stopKill = False, rn_newpid = 7,
     rn_signals = [], rn_stops = []\<rparr>"

definition demo_tick :: tick where
  "demo_tick = \<lparr>tk_wait = ChildRunning, tk_world = (\<lambda>t. t)\<rparr>"

definition demo_env :: run_env where
  "demo_env = \<lparr>ev_pty = True, ev_pid = 7, ev_answers = [], ev_ticks = [], ev_strsignal = (\<lambda>n. [])\<rparr>"

lemma demo_alone: "asked 900 (demo_object\<lparr>w_dirs := []\<rparr>) = (demo_object\<lparr>w_dirs := []\<rparr>, Inr True)"
  by (simp add: asked_def isMonitored_def dirExists_def jail_monitorstart_timeout_def)

lemma demo_late: "to_int32 900 = 900" "world_moves (\<lambda>t. t) t = t"
proof -
  show "to_int32 900 = 900" by code_simp
  show "world_moves (\<lambda>t. t) t = t" by (simp add: world_moves_def with_object_def)
qed

theorem program_stopped_iff_witness:
  "\<exists>s' u'. batch_round (\<lambda>n. []) 60 False demo_tick (demo_run 0 (batch_redirector True [])) [] = Some ((s', Inr True), []) \<and>
     rn_signals s' = [False] \<and>
     terminal_round 60 100 demo_tick (demo_run 0 (terminal_redirector True [] demo_client)) [] = Some ((u', Inr True), []) \<and>
     rn_signals u' = [False]"
proof -
  let ?t = "demo_object\<lparr>w_dirs := []\<rparr>"
  let ?s = "demo_run 0 (batch_redirector True [])" and ?u = "demo_run 0 (terminal_redirector True [] demo_client)"
  have d: "rn_task (demo_run n r) = ?t" "rn_signals (demo_run n r) = []" "rn_stopKill (demo_run n r) = False"
    "rn_lastTime (demo_run n r) = n" "w_now ?t = 1000" "m_startTime ?t = 100" for n and r :: 'r
    by (simp_all add: demo_run_def demo_object_def)
  have past: "past_limits 60 100 ?t" by (simp add: past_limits_def d demo_late demo_alone)
  have alone: "not_monitored 900 s [] = Some ((s\<lparr>rn_task := ?t\<rparr>, Inr True), [])" if "rn_task s = ?t" for s :: "'r runstate"
    by (simp add: not_monitored_run demo_alone that)
  have s: "\<exists>s'. batch_round (\<lambda>n. []) 60 False demo_tick ?s [] = Some ((s', Inr True), [])"
    by (simp add: batch_round_def demo_tick_def demo_late d batch_watch_def Let_def elapsed_since_def net_then_def net_bind_def
        net_modify_def net_return_def alone)
  have u: "\<exists>u'. terminal_round 60 100 demo_tick ?u [] = Some ((u', Inr True), [])"
    by (simp add: terminal_round_def demo_tick_def demo_late d terminal_watch_def Let_def elapsed_since_def net_then_def net_bind_def
        net_modify_def net_return_def alone)
  from s obtain s' where s': "batch_round (\<lambda>n. []) 60 False demo_tick ?s [] = Some ((s', Inr True), [])" by blast
  from u obtain u' where u': "terminal_round 60 100 demo_tick ?u [] = Some ((u', Inr True), [])" by blast
  have "tk_wait demo_tick = ChildRunning" "world_moves (tk_world demo_tick) ?t = ?t" by (simp_all add: demo_tick_def demo_late)
  with program_stopped_iff [of "\<lambda>n. []" 60 False demo_tick ?s "[]" s' True "[]" ?t 100 ?u u'] s' u' past
  have "rn_signals s' = [False]" "rn_signals u' = [False]" by (simp_all add: d)
  with s' u' show ?thesis by blast
qed

text \<open>A second of the clock passes before each of the first two rounds; then the program has ended.\<close>

definition demo_rounds :: "tick list" where
  "demo_rounds = [\<lparr>tk_wait = ChildRunning, tk_world = (\<lambda>t. t\<lparr>w_now := w_now t + 1\<rparr>)\<rparr>,
     \<lparr>tk_wait = ChildRunning, tk_world = (\<lambda>t. t\<lparr>w_now := w_now t + 1\<rparr>)\<rparr>, \<lparr>tk_wait = ChildExited 0, tk_world = (\<lambda>t. t)\<rparr>]"

definition demo_late_env :: run_env where
  "demo_late_env = (let idle = \<lparr>pa_poll = PollIdle, pa_program = no_events, pa_client = no_events, pa_read = ReadBytes [], pa_write = None\<rparr>
     in \<lparr>ev_pty = True, ev_pid = 7, ev_answers = [idle, idle], ev_ticks = demo_rounds, ev_strsignal = (\<lambda>n. [])\<rparr>)"

definition demo_batch :: "((redirector runstate \<times> unit result) \<times> round list) option" where
  "demo_batch = batch_loops demo_late_env 60 False
     (start_run demo_late_env (batch_redirector True (ev_answers demo_late_env)) (demo_object\<lparr>w_dirs := []\<rparr>)) []"

lemma evaluated:
  fixes r :: "(('s \<times> unit result) \<times> round list) option"
  assumes "case r of Some ((s, Inr u), rs) \<Rightarrow> P s rs | _ \<Rightarrow> False"
  shows "\<exists>s rs. r = Some ((s, Inr ()), rs) \<and> P s rs"
proof (cases r)
  case (Some x)
  obtain s v rs where x: "x = ((s, v), rs)" by (metis surj_pair)
  show ?thesis by (cases v) (use assms Some x in simp_all)
qed (use assms in simp)

lemma demo_batch_stops:
  "case demo_batch of Some ((s, Inr u), rs) \<Rightarrow> rs = [] \<and> rn_signals s = [False, True] \<and> rn_stops s = [True, True] | _ \<Rightarrow> False"
  by code_simp

text \<open>The user's other processes are asked to end a second time, because nobody watches; of the terminal the child is killed at the end.\<close>

theorem signals_are_escalated_witness:
  "\<exists>s s2. demo_batch = Some ((s, Inr ()), []) \<and> escalating (rn_signals s) \<and> rn_signals s = [False, True] \<and> rn_stops s = [True, True] \<and>
     terminal_session demo_env 60 100 (start_run demo_env (terminal_redirector True [] demo_client) demo_object) [] = Some ((s2, Inr ()), []) \<and>
     escalating (rn_signals s2) \<and> rn_signals s2 = [True] \<and> rn_newpid s2 = -1"
proof -
  have "ws_isClosed demo_client" by (simp add: demo_client_def ws_isClosed_def closeFlag_def)
  then have "\<not> terminal_open (start_run demo_env (terminal_redirector True [] demo_client) demo_object)"
    by (simp add: terminal_open_def start_run_def terminal_redirector_def redirector.extend_def)
  then obtain s2 where 2: "terminal_session demo_env 60 100 (start_run demo_env (terminal_redirector True [] demo_client) demo_object) [] =
      Some ((s2, Inr ()), [])" "rn_signals s2 = [True]"
    by (simp add: terminal_session_def terminal_loops_def demo_env_def net_then_def net_bind_def net_catch_def net_return_def
        net_modify_def numeral_eq_Suc reap_child_def clean_unmonitored_def start_run_def)
  obtain s where 1: "demo_batch = Some ((s, Inr ()), [])" "rn_signals s = [False, True]" "rn_stops s = [True, True]"
    using evaluated [OF demo_batch_stops] by blast
  note t = signals_are_escalated [of demo_late_env 60 False "batch_redirector True (ev_answers demo_late_env)" "demo_object\<lparr>w_dirs := []\<rparr>" "[]" s "Inr ()" "[]"]
  have "escalating (rn_signals s)" using t 1(1) unfolding demo_batch_def by blast
  moreover have "escalating (rn_signals s2) \<and> rn_newpid s2 = -1"
    using mp [OF conjunct2 [OF conjunct2 [OF signals_are_escalated]] 2(1)] by blast
  ultimately show ?thesis using 1 2 by blast
qed

text \<open>The client has sent its close and closed the connection.\<close>

definition demo_control :: control where
  "demo_control = \<lparr>ct_task = demo_task, ct_ws = demo_client\<lparr>ws_closeSent := True\<rparr>\<rparr>"

definition demo_exec :: exec_env where
  "demo_exec = \<lparr>xe_waits = [], xe_run = (\<lambda>n. demo_env), xe_vnc = \<lparr>vn_run = (\<lambda>n. demo_env),
     vn_server = \<lparr>sv_socket = False, sv_answers = [], sv_connects = [], sv_ticks = []\<rparr>\<rparr>\<rparr>"

text \<open>What the client of a connection that it has closed is sent is lost.\<close>

definition gone :: "wsock \<Rightarrow> bool" where
  "gone w \<longleftrightarrow> ws_isClosed w \<and> ws_closeSent w"

lemma demo_gone_sent: "\<exists>w'. ws_send ''close:'' TEXT_FRAME (demo_client\<lparr>ws_closeSent := True\<rparr>) [] = Some ((w', Inr ()), []) \<and> gone w'"
proof -
  have "case ws_send ''close:'' TEXT_FRAME (demo_client\<lparr>ws_closeSent := True\<rparr>) [] of
      Some ((w', Inr u), rs) \<Rightarrow> rs = [] \<and> gone w' | _ \<Rightarrow> False"
    by code_simp
  from evaluated [OF this] show ?thesis by blast
qed

lemma gone_closed: "gone w \<Longrightarrow> \<exists>w'. ws_closeAndWait 1000 w [] = Some ((w', Inr ()), []) \<and> gone w'"
proof -
  assume g: "gone w"
  then have "ws_poll_close n w = net_return () w" for n by (cases n) (simp_all add: gone_def)
  then show ?thesis
    using g by (simp add: gone_def ws_closeAndWait_def ws_close_def ws_shut_def net_bind_def net_return_def net_catch_def net_modify_def
        ws_isClosed_def socket_close_def closeFlag_def)
qed

text \<open>
  A monitor comes to an expired task: its client is told that it is over, and the task is left cleaned. The client of the execution
  finds the task stopped.
\<close>

theorem control_connections_end_witness:
  "\<exists>c' c1. commandExecute demo_exec ''12'' demo_control [] = Some ((c', Inr ()), []) \<and> ws_isClosed (ct_ws c') \<and>
    commandMonitor 0 [\<lparr>mt_before = (\<lambda>t. t), mt_after = (\<lambda>t. t)\<rparr>] ''12'' demo_control [] = Some ((c1, Inr ()), []) \<and>
    ws_isClosed (ct_ws c1) \<and> (\<exists>t. m_processControlPath t = ''/c/p10001'' \<and> m_prisoner t = 10001 \<and> ct_task c1 = cleanTask t)"
proof -
  let ?w = "demo_client\<lparr>ws_closeSent := True\<rparr>"
  let ?t = "copy_info demo_task demo_consumed"
  have "gone ?w" by (simp add: gone_def demo_client_def ws_isClosed_def closeFlag_def)
  from gone_closed [OF this] obtain w0 where w0: "ws_closeAndWait 1000 ?w [] = Some ((w0, Inr ()), [])" by blast
  obtain w1 where w1: "ws_send ''close:'' TEXT_FRAME ?w [] = Some ((w1, Inr ()), [])" "gone w1" using demo_gone_sent by blast
  from gone_closed [OF w1(2)] obtain w2 where w2: "ws_closeAndWait 1000 w1 [] = Some ((w2, Inr ()), [])" "gone w2" by blast
  from gone_closed [OF w2(2)] obtain w3 where w3: "ws_closeAndWait 1000 w2 [] = Some ((w3, Inr ()), [])" by blast
  obtain t2 where t2: "getState ?t = (t2, Inr stopped)" using demo_expired by blast
  have sec: "m_security ?t = sec_execute" by (simp add: copy_info_def demo_consumed_def drop_file_def)
  have 1: "\<exists>c'. commandExecute demo_exec ''12'' demo_control [] = Some ((c', Inr ()), [])"
    using w0
    by (auto simp: commandExecute_def catch_cleaning_def execute_body_def demo_control_def demo_exec_def net_then_def net_bind_def
        net_catch_def net_return_def on_ctask_def demo_open_run t2 sec waits_for_def wait_close_def on_cws_def on_part_def)
  have 2: "\<exists>c1. monitor_body 0 [\<lparr>mt_before = (\<lambda>t. t), mt_after = (\<lambda>t. t)\<rparr>] ''12'' demo_control [] = Some ((c1, Inr ()), [])"
    by (simp add: monitor_body_def demo_control_def net_then_def net_bind_def on_ctask_def demo_open_run start_monitor_def Let_def
        control.extend_def monitor_round_def on_mtask_def demo_late(2) t2 new_state_def m_close_client_def m_send_def m_wait_close_def
        on_mws_def on_part_def w1(1) w2(1) w3 net_return_def monitor_over_def op_modify_def)
  then have 3: "\<exists>c1. commandMonitor 0 [\<lparr>mt_before = (\<lambda>t. t), mt_after = (\<lambda>t. t)\<rparr>] ''12'' demo_control [] = Some ((c1, Inr ()), [])"
    by (auto simp: commandMonitor_def catch_cleaning_def net_catch_def)
  have p: "processMonitor1 ''12'' (ct_task demo_control) = (?t, Inr ())" by (simp add: demo_control_def demo_open_run)
  have m: "m_prisoner ?t = 10001" "m_processControlPath ?t = ''/c/p10001''"
    by (simp_all add: copy_info_def demo_consumed_def drop_file_def demo_task_def demo_object_def)
  from conjunct1 [OF control_connections_end] 1 have "\<exists>c'. commandExecute demo_exec ''12'' demo_control [] = Some ((c', Inr ()), []) \<and> ws_isClosed (ct_ws c')"
    by blast
  moreover obtain c1 where c1: "commandMonitor 0 [\<lparr>mt_before = (\<lambda>t. t), mt_after = (\<lambda>t. t)\<rparr>] ''12'' demo_control [] = Some ((c1, Inr ()), [])"
    using 3 by blast
  have "ws_isClosed (ct_ws c1) \<and> (\<exists>t. m_processControlPath t = ''/c/p10001'' \<and> m_prisoner t = 10001 \<and> ct_task c1 = cleanTask t)"
    using mp [OF conjunct2 [OF control_connections_end] c1] 2 p m by auto
  ultimately show ?thesis using c1 by blast
qed

end
