(* ===== verification/Tls.thy ===== *)
theory Tls
  imports Socket Configuration
begin

text \<open>
  The class \<open>SSLBase\<close> and the making of an \<open>SSLSocket\<close> (socket.h): the context of the server's certificate, made at the start and
  renewed when the files change, and the handshake of a connection. OpenSSL is an argument: which of its calls succeed. Proved:
  a context in use was accepted by OpenSSL and asks for TLS 1.2 at least; a renewal that fails keeps the context there is; and
  where there is none yet, a bad certificate ends the process that tries it.
\<close>

text \<open>The calls of OpenSSL on a new context, with what they are given; \<open>True\<close> is success.\<close>

record openssl =
  os_method :: bool
  os_new :: bool
  os_certificate :: "string \<Rightarrow> bool"
  os_private_key :: "string \<Rightarrow> bool"
  os_keys_match :: bool
  os_cipher_list :: "string \<Rightarrow> bool"
  os_cipher_suites :: "string \<Rightarrow> bool"

text \<open>A context: what it was given. \<open>tc_minimum\<close> is the version of TLS asked for at least, in tenths.\<close>

record tls_context =
  tc_certificate :: string
  tc_private_key :: string
  tc_cipher_list :: string
  tc_cipher_suites :: string
  tc_minimum :: nat
  tc_partial_write :: bool

record tls =
  tl_context :: "tls_context option"
  tl_keyTime :: int
  tl_certTime :: int

text \<open>The process ends, or goes on with a value.\<close>

datatype 'a outcome = ProcessEnds int | GoesOn 'a

text \<open>What a file says of itself: whether there is one, following links, and \<open>timeOfFileModification\<close>, 0 when it cannot be asked.\<close>

record tls_files =
  tf_exists :: "string \<Rightarrow> bool"
  tf_mtime :: "string \<Rightarrow> int option"

definition timeOfFileModification :: "tls_files \<Rightarrow> string \<Rightarrow> int" where
  "timeOfFileModification fs f = (case tf_mtime fs f of Some m \<Rightarrow> m | None \<Rightarrow> 0)"

definition context_fails :: "openssl \<Rightarrow> configuration \<Rightarrow> string \<Rightarrow> string \<Rightarrow> bool" where
  "context_fails os conf certFile keyFile =
     (if \<not> os_new os then True
      else if \<not> os_certificate os certFile then True
      else if \<not> os_private_key os keyFile then True
      else if \<not> os_keys_match os then True
      else if cf_SSLCipherList conf \<noteq> [] \<and> \<not> os_cipher_list os (cf_SSLCipherList conf) then True
      else if cf_SSLCipherSuites conf \<noteq> [] then \<not> os_cipher_suites os (cf_SSLCipherSuites conf)
      else False)"

definition newContext :: "openssl \<Rightarrow> tls_files \<Rightarrow> configuration \<Rightarrow> string \<Rightarrow> string \<Rightarrow> tls \<Rightarrow> tls outcome" where
  "newContext os fs conf certFile keyFile t =
     (if \<not> os_method os then ProcessEnds 1
      else if context_fails os conf certFile keyFile then (if tl_context t = None then ProcessEnds 1 else GoesOn t)
      else GoesOn \<lparr>tl_context = Some \<lparr>tc_certificate = certFile, tc_private_key = keyFile, tc_cipher_list = cf_SSLCipherList conf,
             tc_cipher_suites = cf_SSLCipherSuites conf, tc_minimum = 12, tc_partial_write = True\<rparr>,
           tl_keyTime = timeOfFileModification fs keyFile, tl_certTime = timeOfFileModification fs certFile\<rparr>)"

definition createUpdateContext :: "openssl \<Rightarrow> tls_files \<Rightarrow> configuration \<Rightarrow> tls \<Rightarrow> tls outcome" where
  "createUpdateContext os fs conf t = (let certFile = cf_SSLCertFile conf; keyFile = cf_SSLKeyFile conf in
     if cf_sport conf \<le> 0 then GoesOn t
     else if \<not> tf_exists fs certFile \<or> \<not> tf_exists fs keyFile then GoesOn t
     else if tl_keyTime t = timeOfFileModification fs keyFile \<and> tl_certTime t = timeOfFileModification fs certFile then GoesOn t
     else newContext os fs conf certFile keyFile t)"

definition no_tls :: tls where
  "no_tls = \<lparr>tl_context = None, tl_keyTime = 0, tl_certTime = 0\<rparr>"

definition newSSLBase :: "openssl \<Rightarrow> tls_files \<Rightarrow> configuration \<Rightarrow> tls outcome" where
  "newSSLBase os fs conf = createUpdateContext os fs conf no_tls"

text \<open>
  The constructor of \<open>SSLSocket\<close>: the answers of \<open>SSL_accept\<close> until the retry ends. A handshake that fails ends the process with
  the status that counts for nothing (2).
\<close>

fun accept_loop :: "int \<Rightarrow> ssl_answer list \<Rightarrow> unit outcome option" where
  "accept_loop timeLimit [] = None"
| "accept_loop timeLimit (a # rest) = (case SSLRetry_end False ''Error in SSL accept '' timeLimit a of
      Inl e \<Rightarrow> Some (ProcessEnds 2)
    | Inr None \<Rightarrow> accept_loop timeLimit rest
    | Inr (Some peerClosed) \<Rightarrow> Some (GoesOn ()))"

definition newSSLSocket :: "tls \<Rightarrow> int \<Rightarrow> ssl_answer list \<Rightarrow> unit outcome option" where
  "newSSLSocket t now answers = (if tl_context t = None then Some (ProcessEnds 1)
     else accept_loop (now + jail_socket_timeout) answers)"

section \<open>The contexts of a server\<close>

text \<open>
  What it is for OpenSSL to accept the configured certificate: every call about it succeeds, the private key is the certificate's,
  and the ciphers are taken, of those lists that are configured.
\<close>

definition openssl_accepts :: "openssl \<Rightarrow> configuration \<Rightarrow> bool" where
  "openssl_accepts os conf \<longleftrightarrow> os_new os \<and> os_certificate os (cf_SSLCertFile conf) \<and> os_private_key os (cf_SSLKeyFile conf) \<and>
     os_keys_match os \<and> (cf_SSLCipherList conf = [] \<or> os_cipher_list os (cf_SSLCipherList conf)) \<and>
     (cf_SSLCipherSuites conf = [] \<or> os_cipher_suites os (cf_SSLCipherSuites conf))"

text \<open>A renewal is tried: there is a secure port, both files are there, and one of them has another time than the context.\<close>

definition renewal_due :: "tls_files \<Rightarrow> configuration \<Rightarrow> tls \<Rightarrow> bool" where
  "renewal_due fs conf t \<longleftrightarrow> cf_sport conf > 0 \<and> tf_exists fs (cf_SSLCertFile conf) \<and> tf_exists fs (cf_SSLKeyFile conf) \<and>
     (timeOfFileModification fs (cf_SSLKeyFile conf) \<noteq> tl_keyTime t \<or> timeOfFileModification fs (cf_SSLCertFile conf) \<noteq> tl_certTime t)"

text \<open>
  The states of the context after any number of renewals, whatever OpenSSL and the files say each time, with what OpenSSL said:
  the last time first.
\<close>

inductive tls_history :: "configuration \<Rightarrow> openssl list \<Rightarrow> tls \<Rightarrow> bool" for conf where
  tls_new: "newSSLBase os fs conf = GoesOn t \<Longrightarrow> tls_history conf [os] t"
| tls_renewed: "tls_history conf said t \<Longrightarrow> createUpdateContext os fs conf t = GoesOn t' \<Longrightarrow> tls_history conf (os # said) t'"

definition good_context :: "configuration \<Rightarrow> openssl list \<Rightarrow> tls \<Rightarrow> bool" where
  "good_context conf said t \<longleftrightarrow> (case tl_context t of None \<Rightarrow> tl_keyTime t = 0 \<and> tl_certTime t = 0
     | Some c \<Rightarrow> tc_minimum c = 12 \<and> tc_partial_write c \<and> tc_certificate c = cf_SSLCertFile conf \<and>
         tc_private_key c = cf_SSLKeyFile conf \<and> tc_cipher_list c = cf_SSLCipherList conf \<and>
         tc_cipher_suites c = cf_SSLCipherSuites conf \<and> (\<exists>os \<in> set said. openssl_accepts os conf))"

lemma context_fails_iff: "context_fails os conf (cf_SSLCertFile conf) (cf_SSLKeyFile conf) \<longleftrightarrow> \<not> openssl_accepts os conf"
  by (auto simp: context_fails_def openssl_accepts_def)

text \<open>What a renewal gives, by what is there, what OpenSSL says and whether there is a context.\<close>

lemma renewal_result:
  "createUpdateContext os fs conf t =
     (if \<not> renewal_due fs conf t then GoesOn t
      else if \<not> os_method os then ProcessEnds 1
      else if openssl_accepts os conf then GoesOn \<lparr>tl_context = Some \<lparr>tc_certificate = cf_SSLCertFile conf, tc_private_key = cf_SSLKeyFile conf,
             tc_cipher_list = cf_SSLCipherList conf, tc_cipher_suites = cf_SSLCipherSuites conf, tc_minimum = 12, tc_partial_write = True\<rparr>,
           tl_keyTime = timeOfFileModification fs (cf_SSLKeyFile conf), tl_certTime = timeOfFileModification fs (cf_SSLCertFile conf)\<rparr>
      else if tl_context t = None then ProcessEnds 1 else GoesOn t)"
  by (auto simp: createUpdateContext_def newContext_def renewal_due_def context_fails_iff Let_def)

lemma renewal_ends_iff:
  "createUpdateContext os fs conf t = ProcessEnds n \<longleftrightarrow> n = 1 \<and> renewal_due fs conf t \<and>
     (\<not> os_method os \<or> \<not> openssl_accepts os conf \<and> tl_context t = None)"
  by (auto simp: renewal_result)

lemma good_context_renewed:
  "createUpdateContext os fs conf t = GoesOn t' \<Longrightarrow> good_context conf said t \<Longrightarrow> good_context conf (os # said) t'"
  by (auto simp: renewal_result good_context_def split: if_splits option.splits)

lemma tls_history_good: "tls_history conf said t \<Longrightarrow> good_context conf said t"
proof (induction rule: tls_history.induct)
  case (tls_new os fs t)
  moreover have "good_context conf [] no_tls" by (simp add: good_context_def no_tls_def)
  ultimately show ?case unfolding newSSLBase_def using good_context_renewed by blast
qed (rule good_context_renewed)

section \<open>Properties\<close>

text \<open>
  C27: a context in use is for TLS 1.2 or later, of the configured files, and OpenSSL accepted it whole at the start or at a
  renewal: the certificate, the private key, that the one is of the other, and the configured ciphers. Once there is a context,
  looking at the files never ends the process: the context is replaced by that of the new files when they have changed and
  OpenSSL accepts them whole, and is kept as it is otherwise. Before there is one, looking at them ends the process exactly when
  they have appeared and are not accepted.
\<close>

theorem tls_renewal_is_safe:
  assumes "tls_history conf said t" "os_method os"
  shows "(\<forall>c. tl_context t = Some c \<longrightarrow> tc_minimum c = 12 \<and> tc_certificate c = cf_SSLCertFile conf \<and> tc_private_key c = cf_SSLKeyFile conf \<and>
      (\<exists>o' \<in> set said. openssl_accepts o' conf)) \<and>
    (tl_context t \<noteq> None \<longrightarrow> (\<exists>t'. createUpdateContext os fs conf t = GoesOn t' \<and> tl_context t' \<noteq> None \<and>
      (if renewal_due fs conf t \<and> openssl_accepts os conf then \<not> renewal_due fs conf t' else t' = t))) \<and>
    (tl_context t = None \<longrightarrow> ((\<exists>n. createUpdateContext os fs conf t = ProcessEnds n) \<longleftrightarrow> renewal_due fs conf t \<and> \<not> openssl_accepts os conf))"
proof (intro conjI)
  show "\<forall>c. tl_context t = Some c \<longrightarrow> tc_minimum c = 12 \<and> tc_certificate c = cf_SSLCertFile conf \<and> tc_private_key c = cf_SSLKeyFile conf \<and>
      (\<exists>o' \<in> set said. openssl_accepts o' conf)"
    using tls_history_good [OF assms(1)] by (auto simp: good_context_def)
  show "tl_context t \<noteq> None \<longrightarrow> (\<exists>t'. createUpdateContext os fs conf t = GoesOn t' \<and> tl_context t' \<noteq> None \<and>
      (if renewal_due fs conf t \<and> openssl_accepts os conf then \<not> renewal_due fs conf t' else t' = t))"
    using assms(2) by (auto simp: renewal_result renewal_due_def)
  show "tl_context t = None \<longrightarrow> ((\<exists>n. createUpdateContext os fs conf t = ProcessEnds n) \<longleftrightarrow> renewal_due fs conf t \<and> \<not> openssl_accepts os conf)"
    using assms(2) by (auto simp: renewal_result)
qed

text \<open>
  A server that started without its certificate ends itself when a certificate appears that OpenSSL does not take: a file
  written while it looks is enough to stop it, its plain port included.
\<close>

theorem bad_first_certificate_ends_server:
  assumes "tls_history conf said t" "tl_context t = None" "cf_sport conf > 0"
    and "tf_exists fs (cf_SSLCertFile conf)" "tf_exists fs (cf_SSLKeyFile conf)"
    and "timeOfFileModification fs (cf_SSLCertFile conf) \<noteq> 0" "\<not> os_certificate os (cf_SSLCertFile conf)"
  shows "createUpdateContext os fs conf t = ProcessEnds 1"
  using assms tls_history_good [OF assms(1)]
  by (simp add: renewal_result renewal_due_def good_context_def openssl_accepts_def)

definition demo_openssl :: openssl where
  "demo_openssl = \<lparr>os_method = True, os_new = True, os_certificate = (\<lambda>f. True), os_private_key = (\<lambda>f. True), os_keys_match = True,
     os_cipher_list = (\<lambda>c. True), os_cipher_suites = (\<lambda>c. True)\<rparr>"

definition demo_files :: "bool \<Rightarrow> int \<Rightarrow> tls_files" where
  "demo_files there m = \<lparr>tf_exists = (\<lambda>f. there), tf_mtime = (\<lambda>f. Some m)\<rparr>"

text \<open>A context is made at the start; a private key that is not of the new certificate leaves it, and the right one replaces it.\<close>

theorem tls_renewal_is_safe_witness:
  "\<exists>t c t'. tls_history sample_configuration [demo_openssl] t \<and> tl_context t = Some c \<and> tc_minimum c = 12 \<and>
    createUpdateContext (demo_openssl\<lparr>os_keys_match := False\<rparr>) (demo_files True 6) sample_configuration t = GoesOn t \<and>
    createUpdateContext demo_openssl (demo_files True 6) sample_configuration t = GoesOn t' \<and> t' \<noteq> t"
proof -
  have "\<exists>t. newSSLBase demo_openssl (demo_files True 5) sample_configuration = GoesOn t \<and> tl_context t \<noteq> None \<and> tl_keyTime t = 5"
    by (simp add: newSSLBase_def renewal_result renewal_due_def openssl_accepts_def demo_openssl_def demo_files_def
        sample_configuration_def no_tls_def timeOfFileModification_def)
  then obtain t c where t: "tls_history sample_configuration [demo_openssl] t" "tl_context t = Some c" "tl_keyTime t = 5"
    using tls_new by blast
  have due: "renewal_due (demo_files True 6) sample_configuration t"
    using t(3) by (simp add: renewal_due_def demo_files_def sample_configuration_def timeOfFileModification_def)
  have ok: "openssl_accepts demo_openssl sample_configuration" "\<not> openssl_accepts (demo_openssl\<lparr>os_keys_match := False\<rparr>) sample_configuration"
    by (simp_all add: openssl_accepts_def demo_openssl_def)
  have m: "os_method demo_openssl" "os_method (demo_openssl\<lparr>os_keys_match := False\<rparr>)" by (simp_all add: demo_openssl_def)
  from tls_renewal_is_safe [OF t(1) m(2), of "demo_files True 6"] tls_renewal_is_safe [OF t(1) m(1), of "demo_files True 6"]
  show ?thesis using t due ok by auto
qed

theorem bad_first_certificate_ends_server_witness:
  "createUpdateContext (demo_openssl\<lparr>os_certificate := (\<lambda>f. False)\<rparr>) (demo_files True 6) sample_configuration no_tls = ProcessEnds 1"
proof -
  have "newSSLBase demo_openssl (demo_files False 0) sample_configuration = GoesOn no_tls"
    by (simp add: newSSLBase_def createUpdateContext_def demo_files_def Let_def)
  then have r: "tls_history sample_configuration [demo_openssl] no_tls" by (rule tls_new)
  show ?thesis
    by (rule bad_first_certificate_ends_server [OF r])
      (simp_all add: no_tls_def sample_configuration_def demo_files_def demo_openssl_def timeOfFileModification_def)
qed

end
