(* ===== verification/Daemon.thy ===== *)
theory Daemon
  imports Jail_Process Tls "HOL-Library.AList"
begin

text \<open>
  The class \<open>Daemon\<close> (vpl-jail-server.h): the checks at the start, the listening sockets, the loop that accepts connections, gives
  each a process, waits for those that have ended, and throttles addresses whose requests fail. What the kernel answers in a
  round is an argument. Proved: which addresses are turned away, against a plain list of what the connections ended with; every
  process that was started and not waited for is known, and no other; the server starts only over a jail that nobody else may
  write; and a \<open>fork\<close> that fails is never forgotten.
\<close>

section \<open>State\<close>

record ip_log =
  lg_requests :: int
  lg_errors :: int

record child =
  ch_IP :: string
  ch_start :: int

text \<open>
  The object, and the descriptors of the process that are open. \<open>dm_sockets\<close> are the \<open>nSockets\<close> sockets polled, each with
  \<open>isSecureSocket\<close>; \<open>dm_nextClear\<close> and \<open>dm_nextCheck\<close> are the static variables of \<open>cleanOld\<close> and \<open>periodicTasks\<close>.
\<close>

record daemon =
  dm_conf :: configuration
  dm_listenSocket :: int
  dm_secureListenSocket :: int
  dm_actualSocket :: int
  dm_sockets :: "(int \<times> bool) list"
  dm_requests :: int
  dm_errors :: int
  dm_rejected :: int
  dm_logs :: "(string \<times> ip_log) list"
  dm_children :: "(int \<times> child) list"
  dm_nextClear :: int
  dm_nextCheck :: int
  dm_tls :: tls
  dm_open :: "int list"

definition no_log :: ip_log where "no_log = \<lparr>lg_requests = 0, lg_errors = 0\<rparr>"

definition log_of :: "daemon \<Rightarrow> string \<Rightarrow> ip_log" where
  "log_of d ip = (case map_of (dm_logs d) ip of Some l \<Rightarrow> l | None \<Rightarrow> no_log)"

text \<open>The numbers of \<open>ExitStatus\<close>.\<close>

fun exit_code :: "exit_status \<Rightarrow> int" where
  "exit_code ExitSuccess = 0"
| "exit_code ExitInternalError = 1"
| "exit_code ExitNeutral = 2"
| "exit_code ExitHttpError = 3"
| "exit_code ExitWebsocketError = 4"

text \<open>\<open>ipToString\<close>: the bytes of an address in the order of the network, the first the lowest on this platform.\<close>

definition ip_byte :: "32 word \<Rightarrow> nat \<Rightarrow> nat" where
  "ip_byte a k = unat (and (drop_bit (8 * k) a) 0xff)"

definition ipToString :: "32 word \<Rightarrow> string" where
  "ipToString a = nat_digits (ip_byte a 0) @ ''.'' @ nat_digits (ip_byte a 1) @ ''.'' @ nat_digits (ip_byte a 2) @ ''.'' @ nat_digits (ip_byte a 3)"

section \<open>Counting requests\<close>

text \<open>The clock is read twice: \<open>now\<close> to compare, \<open>later\<close> to set the next time.\<close>

definition cleanOld :: "int \<Rightarrow> int \<Rightarrow> daemon \<Rightarrow> daemon" where
  "cleanOld now later d = (if dm_nextClear d > now then d else d\<lparr>dm_nextClear := later + 5 * 60, dm_logs := []\<rparr>)"

definition isBanned :: "int \<Rightarrow> int \<Rightarrow> string \<Rightarrow> daemon \<Rightarrow> daemon \<times> bool" where
  "isBanned now later ip d0 = (let d = cleanOld now later d0; f = cf_fail2ban (dm_conf d) in
     (d, if f = 0 \<or> map_of (dm_logs d) ip = None then False
         else let l = log_of d ip in lg_errors l > to_int32 (20 * f) \<and> lg_errors l > lg_requests l div 2))"

definition countRequest :: "string \<Rightarrow> int \<Rightarrow> daemon \<Rightarrow> daemon" where
  "countRequest ip es d =
     (if es = exit_code ExitNeutral then d
      else let l = log_of d ip; l = l\<lparr>lg_requests := lg_requests l + 1\<rparr> in
        if es \<noteq> exit_code ExitSuccess
        then d\<lparr>dm_errors := dm_errors d + 1, dm_logs := AList.update ip (l\<lparr>lg_errors := lg_errors l + 1\<rparr>) (dm_logs d)\<rparr>
        else d\<lparr>dm_logs := AList.update ip l (dm_logs d)\<rparr>)"

text \<open>An end of an unknown process is counted for the empty address, as \<open>children[pid]\<close> makes one.\<close>

definition processChildEnd :: "int \<Rightarrow> int \<Rightarrow> daemon \<Rightarrow> daemon" where
  "processChildEnd pid es d = (let ip = (case map_of (dm_children d) pid of Some c \<Rightarrow> ch_IP c | None \<Rightarrow> []) in
     countRequest ip es (d\<lparr>dm_children := AList.delete pid (dm_children d)\<rparr>))"

datatype child_status = Exited int | Signaled | OtherStatus

text \<open>What \<open>waitpid(-1, &status, WNOHANG)\<close> answers.\<close>

datatype wait_answer = AllRunning | WaitFails | Ended int child_status

definition child_ended :: "int \<Rightarrow> child_status \<Rightarrow> daemon \<Rightarrow> daemon" where
  "child_ended pid st d0 = (let d = d0\<lparr>dm_requests := dm_requests d0 + 1\<rparr> in
     case st of Signaled \<Rightarrow> processChildEnd pid (exit_code ExitInternalError) d
     | Exited n \<Rightarrow> processChildEnd pid n d
     | OtherStatus \<Rightarrow> d)"

primrec harvest :: "wait_answer list \<Rightarrow> daemon \<Rightarrow> daemon option" where
  "harvest [] d = (if dm_children d = [] then Some d else None)"
| "harvest (a # as) d = (if dm_children d = [] then Some d
     else case a of AllRunning \<Rightarrow> Some d | WaitFails \<Rightarrow> Some d | Ended pid st \<Rightarrow> harvest as (child_ended pid st d))"

section \<open>Connections\<close>

text \<open>
  A connection as the kernel gives it: the descriptor or a negative number, the address, what \<open>fork\<close> returns to the parent, and
  the clock at the three places it is read.
\<close>

record arrival =
  ar_fd :: int
  ar_addr :: "32 word"
  ar_pid :: int
  ar_now :: int
  ar_later :: int
  ar_start :: int

definition close_fd :: "int \<Rightarrow> daemon \<Rightarrow> daemon" where
  "close_fd fd d = d\<lparr>dm_open := remove1 fd (dm_open d)\<rparr>"

definition add_child :: "int \<Rightarrow> string \<Rightarrow> int \<Rightarrow> daemon \<Rightarrow> daemon" where
  "add_child pid ip start d = d\<lparr>dm_children := AList.update pid \<lparr>ch_IP = ip, ch_start = start\<rparr> (dm_children d)\<rparr>"

text \<open>\<open>launch\<close>, in the server's process: what \<open>fork\<close> returns is not looked at.\<close>

definition launch :: "arrival \<Rightarrow> daemon \<Rightarrow> daemon" where
  "launch a d0 = (let d = d0\<lparr>dm_actualSocket := ar_fd a\<rparr> in
     if ar_fd a < 0 then d
     else let d = d\<lparr>dm_open := ar_fd a # dm_open d\<rparr>; ip = ipToString (ar_addr a) in
       case isBanned (ar_now a) (ar_later a) ip d of (d, banned) \<Rightarrow>
         if banned then let d = close_fd (ar_fd a) d in
           countRequest ip (exit_code ExitInternalError) (d\<lparr>dm_rejected := dm_rejected d + 1\<rparr>)
         else add_child (ar_pid a) ip (ar_start a) (close_fd (ar_fd a) d))"

text \<open>In the process of the connection: the plain listening socket is closed, and its end is what the jail's process tells.\<close>

definition launch_child :: "arrival \<Rightarrow> daemon \<Rightarrow> daemon" where
  "launch_child a d0 = (let d = d0\<lparr>dm_actualSocket := ar_fd a, dm_open := ar_fd a # dm_open d0\<rparr> in close_fd (dm_listenSocket d) d)"

definition connection_status :: "exit_status result \<Rightarrow> child_status" where
  "connection_status v = (case v of Inr st \<Rightarrow> Exited (exit_code st) | Inl e \<Rightarrow> Signaled)"

text \<open>What \<open>poll\<close> answers: an error, with whether it was a signal, or for each socket the connection on it, if any.\<close>

datatype accept_answer = AcceptError bool string | AcceptIdle | AcceptReady "arrival option list"

definition daemon_accept :: "accept_answer \<Rightarrow> daemon \<Rightarrow> daemon result" where
  "daemon_accept ans d = (case ans of
      AcceptError eintr text \<Rightarrow> if eintr then Inr d else Inl (StringExn (''Error poll sockets in accept: '' @ text))
    | AcceptIdle \<Rightarrow> Inr d
    | AcceptReady as \<Rightarrow> Inr (fold (\<lambda>(s, a) d. case a of Some a \<Rightarrow> launch a d | None \<Rightarrow> d) (zip (dm_sockets d) as) d))"

section \<open>Listening sockets\<close>

text \<open>What making a listening socket meets: the descriptor, the answers of \<open>bind\<close>, and that of \<open>listen\<close>.\<close>

record listen_env =
  le_fd :: int
  le_bind :: "nat \<Rightarrow> bool"
  le_listen :: bool
  le_error :: string

text \<open>\<open>bind\<close> is tried until it succeeds, ten times at most; \<open>k\<close> tries have been made.\<close>

primrec bind_loop :: "nat \<Rightarrow> (nat \<Rightarrow> bool) \<Rightarrow> nat \<Rightarrow> bool" where
  "bind_loop 0 bound k = False"
| "bind_loop (Suc n) bound k = (if bound k then True else bind_loop n bound (Suc k))"

definition initSocket :: "listen_env \<Rightarrow> int \<Rightarrow> string \<Rightarrow> int result" where
  "initSocket e port what =
     (if port \<le> 0 then Inr (-1)
      else if le_fd e = -1 then Inl (StringExn ''socket() error'')
      else if \<not> bind_loop 10 (le_bind e) 0 then Inl (StringExn (''bind() to '' @ what @ '' error: '' @ le_error e))
      else if \<not> le_listen e then Inl (StringExn ''listen() error'')
      else Inr (le_fd e))"

definition socket_entry :: "int \<Rightarrow> bool \<Rightarrow> (int \<times> bool) list" where
  "socket_entry fd secure = (if fd \<ge> 0 then [(fd, secure)] else [])"

text \<open>Without a socket the process ends with a failure.\<close>

definition initSocketServer :: "listen_env \<Rightarrow> listen_env \<Rightarrow> daemon \<Rightarrow> daemon outcome result" where
  "initSocketServer e1 e2 d = bind_result (initSocket e1 (cf_port (dm_conf d)) ''http plain port'') (\<lambda>plain.
     bind_result (initSocket e2 (cf_sport (dm_conf d)) ''https secure port'') (\<lambda>secure.
       let sockets = socket_entry plain False @ socket_entry secure True in
       if sockets = [] then Inr (ProcessEnds 1)
       else Inr (GoesOn (d\<lparr>dm_listenSocket := plain, dm_secureListenSocket := secure, dm_sockets := sockets, dm_actualSocket := -1,
         dm_open := map fst sockets @ dm_open d\<rparr>))))"

section \<open>Checks at the start\<close>

text \<open>\<open>lstat\<close>: what a path is, if it can be asked.\<close>

definition owned_by_root :: "file_stat \<Rightarrow> bool" where
  "owned_by_root i \<longleftrightarrow> \<not> (st_uid i \<noteq> 0 \<or> st_gid i \<noteq> 0)"

definition check_account_file :: "file_stat option \<Rightarrow> string \<Rightarrow> unit result" where
  "check_account_file info name = (case info of
      None \<Rightarrow> Inl (StringExn (''Jail error: jail '' @ name @ '' not checkable''))
    | Some i \<Rightarrow>
        if \<not> owned_by_root i then Inl (StringExn (''Jail error: jail '' @ name @ '' not owned by root''))
        else if and (st_mode i) 27 \<noteq> 0 then
          Inl (StringExn (''Jail error: jail '' @ name @ '' with insecure permissions (group or others with write permission)''))
        else Inr ())"

definition checkJail :: "(string \<Rightarrow> file_stat option) \<Rightarrow> configuration \<Rightarrow> unit result" where
  "checkJail lstat conf = (let jailPath = cf_jailPath conf in
     if jailPath = [] then Inr ()
     else bind_result (case lstat (jailPath @ ''/etc'') of
         None \<Rightarrow> Inl (StringExn ''jail /etc not checkable (Running in container no privileged with JAILPATH != /?)'')
       | Some i \<Rightarrow>
           if \<not> owned_by_root i then Inl (StringExn ''jail /etc not owned by root'')
           else if and (st_mode i) 18 \<noteq> 0 then
             Inl (StringExn ''Jail error: jail /etc with insecure permissions (group or others with write permission)'')
           else Inr ()) (\<lambda>_.
     bind_result (check_account_file (lstat (jailPath @ ''/etc/passwd'')) ''/etc/passwd'') (\<lambda>_.
     bind_result (check_account_file (lstat (jailPath @ ''/etc/group'')) ''/etc/group'') (\<lambda>_.
     case lstat (jailPath @ ''/etc/shadow'') of
       None \<Rightarrow> Inr ()
     | Some i \<Rightarrow>
         if \<not> owned_by_root i then Inl (StringExn ''Jail error: jail /etc/shadow not owned by root'')
         else if and (st_mode i) 63 \<noteq> 0 then
           Inl (StringExn ''Jail error: jail /etc/shadow with insecure permissions (group or others with some permission)'')
         else Inr ()))))"

definition checkControlDir :: "(string \<Rightarrow> file_stat option) \<Rightarrow> configuration \<Rightarrow> unit result" where
  "checkControlDir lstat conf = (let cd = cf_controlPath conf in
     case lstat cd of
       None \<Rightarrow> Inl (StringExn (''control path not checkable: '' @ cd))
     | Some i \<Rightarrow>
         if \<not> owned_by_root i then Inl (StringExn (''control path not owned by root: '' @ cd))
         else if and (st_mode i) 18 \<noteq> 0 then Inl (StringExn ''control path with insecure permissions (must be 0x44)'')
         else Inr ())"

text \<open>What the server is made with: the configuration, the files, OpenSSL, and the two listening sockets.\<close>

record start_env =
  se_lstat :: "string \<Rightarrow> file_stat option"
  se_openssl :: openssl
  se_tls_files :: tls_files
  se_plain :: listen_env
  se_secured :: listen_env

definition idle_daemon :: "configuration \<Rightarrow> tls \<Rightarrow> daemon" where
  "idle_daemon conf t = \<lparr>dm_conf = conf, dm_listenSocket = -1, dm_secureListenSocket = -1, dm_actualSocket = -1, dm_sockets = [],
     dm_requests = 0, dm_errors = 0, dm_rejected = 0, dm_logs = [], dm_children = [], dm_nextClear = 0, dm_nextCheck = 0,
     dm_tls = t, dm_open = []\<rparr>"

definition newDaemon :: "start_env \<Rightarrow> configuration \<Rightarrow> daemon outcome result" where
  "newDaemon e conf = bind_result (checkJail (se_lstat e) conf) (\<lambda>_.
     bind_result (checkControlDir (se_lstat e) conf) (\<lambda>_.
     case newSSLBase (se_openssl e) (se_tls_files e) conf of
       ProcessEnds n \<Rightarrow> Inr (ProcessEnds n)
     | GoesOn t \<Rightarrow> initSocketServer (se_plain e) (se_secured e) (idle_daemon conf t)))"

section \<open>The loop\<close>

definition close_listening :: "int \<Rightarrow> daemon \<Rightarrow> daemon" where
  "close_listening fd d = (if fd > 0 then close_fd fd d else d)"

definition closeSockets :: "daemon \<Rightarrow> daemon" where
  "closeSockets d0 = (let d = close_listening (dm_actualSocket d0) (close_listening (dm_secureListenSocket d0)
       (close_listening (dm_listenSocket d0) d0)); closed = (\<lambda>fd. if fd > 0 then -1 else fd) in
     d\<lparr>dm_sockets := [], dm_listenSocket := closed (dm_listenSocket d), dm_secureListenSocket := closed (dm_secureListenSocket d),
       dm_actualSocket := closed (dm_actualSocket d)\<rparr>)"

text \<open>What a check every five minutes meets; the helper that cleans is a child like the others, whatever \<open>fork\<close> returns.\<close>

record period =
  pe_now :: int
  pe_openssl :: openssl
  pe_files :: tls_files
  pe_pid :: int
  pe_start :: int

definition periodicTasks :: "period \<Rightarrow> daemon \<Rightarrow> daemon outcome" where
  "periodicTasks p d = (if pe_now p \<ge> dm_nextCheck d
     then case createUpdateContext (pe_openssl p) (pe_files p) (dm_conf d) (dm_tls d) of
         ProcessEnds n \<Rightarrow> ProcessEnds n
       | GoesOn t \<Rightarrow> GoesOn (add_child (pe_pid p) ''127.0.0.1'' (pe_start p) (d\<lparr>dm_nextCheck := pe_now p + 5 * 60, dm_tls := t\<rparr>))
     else GoesOn d)"

record server_round =
  sr_finish :: bool
  sr_accept :: accept_answer
  sr_waits :: "wait_answer list"
  sr_period :: period

text \<open>The loop over rounds: without one more it has not returned; so has a \<open>harvest\<close> that is not told about its children.\<close>

fun daemon_loop :: "server_round list \<Rightarrow> daemon \<Rightarrow> daemon outcome result option" where
  "daemon_loop [] d = None"
| "daemon_loop (r # rs) d = (if sr_finish r then Some (Inr (GoesOn (closeSockets d)))
     else case daemon_accept (sr_accept r) d of
       Inl e \<Rightarrow> Some (Inl e)
     | Inr d \<Rightarrow> (case harvest (sr_waits r) d of
         None \<Rightarrow> None
       | Some d \<Rightarrow> (case periodicTasks (sr_period r) d of
           ProcessEnds n \<Rightarrow> Some (Inr (ProcessEnds n))
         | GoesOn d \<Rightarrow> daemon_loop rs d)))"

section \<open>Addresses are told apart by their text\<close>

lemma not_dot: "is_digit c \<Longrightarrow> c \<noteq> CHR ''.''"
  by (auto simp: is_digit_def)

lemma before_dot: "takeWhile (\<lambda>c. c \<noteq> CHR ''.'') (nat_digits n @ CHR ''.'' # x) = nat_digits n"
  using nat_digits_all_digits [of n] not_dot by (intro takeWhile_append_stop) auto

lemma dotted_inj: "nat_digits n @ CHR ''.'' # x = nat_digits m @ CHR ''.'' # y \<Longrightarrow> n = m \<and> x = y"
proof -
  assume e: "nat_digits n @ CHR ''.'' # x = nat_digits m @ CHR ''.'' # y"
  then have d: "nat_digits n = nat_digits m" using before_dot by metis
  then show ?thesis using e digits_value_nat_digits by (metis append_same_eq list.inject same_append_eq)
qed

lemma ipToString_inj: "ipToString a = ipToString b \<longleftrightarrow> a = b"
proof
  assume "ipToString a = ipToString b"
  then have "ip_byte a 0 = ip_byte b 0 \<and> ip_byte a 1 = ip_byte b 1 \<and> ip_byte a 2 = ip_byte b 2 \<and> nat_digits (ip_byte a 3) = nat_digits (ip_byte b 3)"
    unfolding ipToString_def by (auto dest!: dotted_inj)
  moreover from this have "ip_byte a 3 = ip_byte b 3" by (metis digits_value_nat_digits)
  ultimately have bytes: "ip_byte a k = ip_byte b k" if "k < 4" for k
    using that by (auto simp: less_Suc_eq numeral_eq_Suc)
  have bits: "bit a (8 * k + i) = bit b (8 * k + i)" if "k < 4" "i < 8" for k i
  proof -
    have "and (drop_bit (8 * k) a) 0xff = and (drop_bit (8 * k) b) (0xff :: 32 word)"
      using bytes [OF that(1)] unfolding ip_byte_def by (rule unsigned_word_eqI)
    moreover have "(0xff :: 32 word) = mask 8" by (simp add: mask_eq_exp_minus_1)
    ultimately have "bit (and (drop_bit (8 * k) a) (mask 8)) i = bit (and (drop_bit (8 * k) b) (mask 8)) i" by simp
    then show ?thesis using that by (simp add: bit_simps)
  qed
  have "bit a n = bit b n" if "n < 32" for n using bits [of "n div 8" "n mod 8"] that by simp
  then show "a = b" by (intro bit_word_eqI) simp
qed simp

section \<open>What a run of the server has seen\<close>

text \<open>Requests and errors of an address among those that have ended, each with its status.\<close>

definition requests_of :: "(string \<times> int) list \<Rightarrow> string \<Rightarrow> nat" where
  "requests_of h ip = length (filter (\<lambda>(i, es). i = ip \<and> es \<noteq> 2) h)"

definition errors_of :: "(string \<times> int) list \<Rightarrow> string \<Rightarrow> nat" where
  "errors_of h ip = length (filter (\<lambda>(i, es). i = ip \<and> es \<noteq> 2 \<and> es \<noteq> 0) h)"

definition throttled :: "int \<Rightarrow> (string \<times> int) list \<Rightarrow> string \<Rightarrow> bool" where
  "throttled f h ip \<longleftrightarrow> f \<noteq> 0 \<and> int (errors_of h ip) > to_int32 (20 * f) \<and> int (errors_of h ip) > int (requests_of h ip) div 2"

text \<open>What is remembered when a connection comes: nothing, every five minutes.\<close>

definition remembered :: "daemon \<Rightarrow> int \<Rightarrow> (string \<times> int) list \<Rightarrow> (string \<times> int) list" where
  "remembered d now h = (if dm_nextClear d > now then h else [])"

text \<open>\<open>fork\<close> gives the number of no process that has not been waited for, or fails.\<close>

definition new_pid :: "int \<Rightarrow> (int \<times> string) list \<Rightarrow> bool" where
  "new_pid pid live \<longleftrightarrow> pid = -1 \<or> pid > 0 \<and> pid \<notin> fst ` set live"

definition started :: "int \<Rightarrow> string \<Rightarrow> (int \<times> string) list \<Rightarrow> (int \<times> string) list" where
  "started pid ip live = (if pid = -1 then live else (pid, ip) # live)"

text \<open>
  The states of a server, with what has ended since the last clearing and the processes that have been started and not waited
  for: a connection, an \<open>accept\<close> that fails, the end of a process, the check of every five minutes.
\<close>

inductive daemon_run :: "configuration \<Rightarrow> daemon \<Rightarrow> (string \<times> int) list \<Rightarrow> (int \<times> string) list \<Rightarrow> bool" for conf where
  run_new: "newDaemon e conf = Inr (GoesOn d) \<Longrightarrow> daemon_run conf d [] []"
| run_refused: "daemon_run conf d h live \<Longrightarrow> ar_fd a < 0 \<Longrightarrow> daemon_run conf (launch a d) h live"
| run_connection: "daemon_run conf d h live \<Longrightarrow> ar_fd a \<ge> 0 \<Longrightarrow> new_pid (ar_pid a) live \<Longrightarrow>
    h' = remembered d (ar_now a) h \<Longrightarrow> ip = ipToString (ar_addr a) \<Longrightarrow>
    \<not> throttled (cf_fail2ban conf) h' ip \<Longrightarrow> daemon_run conf (launch a d) h' (started (ar_pid a) ip live)"
| run_banned: "daemon_run conf d h live \<Longrightarrow> ar_fd a \<ge> 0 \<Longrightarrow>
    h' = remembered d (ar_now a) h \<Longrightarrow> ip = ipToString (ar_addr a) \<Longrightarrow>
    throttled (cf_fail2ban conf) h' ip \<Longrightarrow> daemon_run conf (launch a d) (h' @ [(ip, 1)]) live"
| run_ended: "daemon_run conf d h live \<Longrightarrow> map_of live pid = Some ip \<Longrightarrow> (st, es) \<in> {(Signaled, 1), (Exited n, n)} \<Longrightarrow>
    daemon_run conf (child_ended pid st d) (h @ [(ip, es)]) (AList.delete pid live)"
| run_checked: "daemon_run conf d h live \<Longrightarrow> new_pid (pe_pid p) live \<Longrightarrow> periodicTasks p d = GoesOn d' \<Longrightarrow>
    live' = (if pe_now p \<ge> dm_nextCheck d then started (pe_pid p) ''127.0.0.1'' live else live) \<Longrightarrow> daemon_run conf d' h live'"

definition counts :: "daemon \<Rightarrow> (string \<times> int) list \<Rightarrow> bool" where
  "counts d h \<longleftrightarrow> (\<forall>ip. log_of d ip = \<lparr>lg_requests = int (requests_of h ip), lg_errors = int (errors_of h ip)\<rparr>)"

definition knows :: "daemon \<Rightarrow> (int \<times> string) list \<Rightarrow> bool" where
  "knows d live \<longleftrightarrow> (\<forall>pid. pid \<noteq> -1 \<longrightarrow> map_option ch_IP (map_of (dm_children d) pid) = map_of live pid) \<and> map_of live (-1) = None"

definition run_ok :: "configuration \<Rightarrow> daemon \<Rightarrow> (string \<times> int) list \<Rightarrow> (int \<times> string) list \<Rightarrow> bool" where
  "run_ok conf d h live \<longleftrightarrow> dm_conf d = conf \<and> counts d h \<and> knows d live"

lemma summary_Nil [simp]: "requests_of [] ip = 0" "errors_of [] ip = 0"
  by (simp_all add: requests_of_def errors_of_def)

lemma summary_snoc:
  "requests_of (h @ [(i, es)]) ip = requests_of h ip + (if i = ip \<and> es \<noteq> 2 then 1 else 0)"
  "errors_of (h @ [(i, es)]) ip = errors_of h ip + (if i = ip \<and> es \<noteq> 2 \<and> es \<noteq> 0 then 1 else 0)"
  by (simp_all add: requests_of_def errors_of_def)

lemma errors_le: "errors_of h ip \<le> requests_of h ip"
  unfolding errors_of_def requests_of_def by (induction h) (auto split: prod.splits)

lemma log_of_simps [simp]:
  "log_of (d\<lparr>dm_children := c\<rparr>) ip = log_of d ip" "log_of (d\<lparr>dm_open := fs\<rparr>) ip = log_of d ip"
  "log_of (d\<lparr>dm_actualSocket := fd\<rparr>) ip = log_of d ip" "log_of (d\<lparr>dm_rejected := n\<rparr>) ip = log_of d ip"
  "log_of (d\<lparr>dm_requests := n\<rparr>) ip = log_of d ip" "log_of (d\<lparr>dm_nextCheck := n\<rparr>) ip = log_of d ip"
  "log_of (d\<lparr>dm_tls := t\<rparr>) ip = log_of d ip" "log_of (d\<lparr>dm_nextClear := n\<rparr>) ip = log_of d ip"
  by (simp_all add: log_of_def)

lemma counts_countRequest: "counts d h \<Longrightarrow> counts (countRequest ip es d) (h @ [(ip, es)])"
  unfolding counts_def countRequest_def Let_def
  by (auto simp: summary_snoc log_of_def update_conv' split: option.splits)

lemma countRequest_same [simp]:
  "dm_conf (countRequest ip es d) = dm_conf d" "dm_children (countRequest ip es d) = dm_children d"
  "dm_rejected (countRequest ip es d) = dm_rejected d" "dm_open (countRequest ip es d) = dm_open d"
  by (simp_all add: countRequest_def Let_def)

lemma counts_cleaned: "counts d h \<Longrightarrow> counts (cleanOld now later d) (remembered d now h)"
  by (auto simp: counts_def cleanOld_def remembered_def log_of_def no_log_def)

lemma cleanOld_same [simp]:
  "dm_conf (cleanOld now later d) = dm_conf d" "dm_children (cleanOld now later d) = dm_children d"
  "dm_rejected (cleanOld now later d) = dm_rejected d" "dm_open (cleanOld now later d) = dm_open d"
  by (simp_all add: cleanOld_def)

text \<open>The answer of \<open>isBanned\<close> is that of the list of what has ended.\<close>

lemma isBanned_run:
  assumes "counts d h" "h' = remembered d now h"
  shows "isBanned now later ip d = (cleanOld now later d, throttled (cf_fail2ban (dm_conf d)) h' ip)"
proof -
  let ?d = "cleanOld now later d"
  have c: "log_of ?d ip = \<lparr>lg_requests = int (requests_of h' ip), lg_errors = int (errors_of h' ip)\<rparr>"
    using counts_cleaned [OF assms(1)] assms(2) by (simp add: counts_def)
  have "\<not> throttled (cf_fail2ban (dm_conf d)) h' ip" if "map_of (dm_logs ?d) ip = None"
  proof -
    have "log_of ?d ip = no_log" using that by (simp add: log_of_def)
    then have "errors_of h' ip = 0" "requests_of h' ip = 0" using c by (simp_all add: no_log_def)
    then show ?thesis by (simp add: throttled_def)
  qed
  then show ?thesis unfolding isBanned_def Let_def using c by (auto simp: throttled_def)
qed

lemma launch_run:
  assumes "counts d h" "ar_fd a \<ge> 0" "h' = remembered d (ar_now a) h" "ip = ipToString (ar_addr a)"
  defines "d' \<equiv> close_fd (ar_fd a) (cleanOld (ar_now a) (ar_later a) (d\<lparr>dm_actualSocket := ar_fd a, dm_open := ar_fd a # dm_open d\<rparr>))"
  shows "launch a d = (if throttled (cf_fail2ban (dm_conf d)) h' ip
    then countRequest ip 1 (d'\<lparr>dm_rejected := dm_rejected d + 1\<rparr>) else add_child (ar_pid a) ip (ar_start a) d')"
proof -
  let ?d = "d\<lparr>dm_actualSocket := ar_fd a, dm_open := ar_fd a # dm_open d\<rparr>"
  have "counts ?d h" "h' = remembered ?d (ar_now a) h" using assms by (simp_all add: counts_def remembered_def)
  from isBanned_run [OF this, of "ar_later a" ip] show ?thesis
    using assms by (simp add: launch_def Let_def close_fd_def)
qed

lemma counts_simps [simp]:
  "counts (close_fd fd d) h = counts d h" "counts (add_child pid ip start d) h = counts d h"
  "counts (d\<lparr>dm_rejected := n\<rparr>) h = counts d h" "counts (d\<lparr>dm_actualSocket := fd\<rparr>) h = counts d h"
  "counts (d\<lparr>dm_open := fs\<rparr>) h = counts d h" "counts (d\<lparr>dm_requests := n\<rparr>) h = counts d h"
  "counts (d\<lparr>dm_children := c\<rparr>) h = counts d h" "counts (d\<lparr>dm_nextCheck := n\<rparr>) h = counts d h" "counts (d\<lparr>dm_tls := t\<rparr>) h = counts d h"
  by (simp_all add: counts_def close_fd_def add_child_def)

lemma counts_launched:
  assumes "counts d h" "ar_fd a \<ge> 0" "h' = remembered d (ar_now a) h" "ip = ipToString (ar_addr a)"
  shows "counts (launch a d) (if throttled (cf_fail2ban (dm_conf d)) h' ip then h' @ [(ip, 1)] else h')"
proof -
  let ?d = "d\<lparr>dm_actualSocket := ar_fd a, dm_open := ar_fd a # dm_open d\<rparr>"
  have "counts (cleanOld (ar_now a) (ar_later a) ?d) h'"
    using counts_cleaned [of ?d h "ar_now a" "ar_later a"] assms by (simp add: remembered_def)
  then show ?thesis unfolding launch_run [OF assms] by (simp add: counts_countRequest)
qed

lemma knows_known: "knows d live \<Longrightarrow> map_of live pid = Some ip \<Longrightarrow> \<exists>c. map_of (dm_children d) pid = Some c \<and> ch_IP c = ip"
  unfolding knows_def by (cases "pid = -1") (auto dest!: spec [of _ pid])

lemma knows_started: "knows d live \<Longrightarrow> new_pid pid live \<Longrightarrow> knows (add_child pid ip start d) (started pid ip live)"
  by (auto simp: knows_def add_child_def started_def update_conv' new_pid_def)

lemma knows_ended: "knows d live \<Longrightarrow> knows (d\<lparr>dm_children := AList.delete pid (dm_children d)\<rparr>) (AList.delete pid live)"
  by (auto simp: knows_def delete_conv')

lemma knows_simps [simp]:
  "knows (close_fd fd d) live = knows d live" "knows (countRequest ip es d) live = knows d live"
  "knows (cleanOld now later d) live = knows d live" "knows (d\<lparr>dm_rejected := n\<rparr>) live = knows d live"
  "knows (d\<lparr>dm_actualSocket := fd\<rparr>) live = knows d live" "knows (d\<lparr>dm_open := fs\<rparr>) live = knows d live"
  "knows (d\<lparr>dm_requests := n\<rparr>) live = knows d live" "knows (d\<lparr>dm_nextCheck := n\<rparr>) live = knows d live"
  "knows (d\<lparr>dm_tls := t\<rparr>) live = knows d live"
  by (simp_all add: knows_def close_fd_def)

lemma child_ended_run:
  assumes "knows d live" "map_of live pid = Some ip" "(st, es) \<in> {(Signaled, 1), (Exited n, n)}"
  shows "child_ended pid st d = countRequest ip es (d\<lparr>dm_requests := dm_requests d + 1, dm_children := AList.delete pid (dm_children d)\<rparr>)"
  using knows_known [OF assms(1,2)] assms(3) by (auto simp: child_ended_def processChildEnd_def Let_def)

lemma newDaemon_idle:
  assumes "newDaemon e conf = Inr (GoesOn d)"
  shows "dm_conf d = conf \<and> dm_children d = [] \<and> dm_logs d = [] \<and> dm_rejected d = 0"
  using assms by (auto simp: newDaemon_def initSocketServer_def bind_result_Inr_iff Let_def idle_daemon_def split: outcome.splits if_splits)

lemma periodic_run:
  assumes "periodicTasks p d = GoesOn d'"
  shows "\<exists>t. d' = (if pe_now p \<ge> dm_nextCheck d
    then add_child (pe_pid p) ''127.0.0.1'' (pe_start p) (d\<lparr>dm_nextCheck := pe_now p + 5 * 60, dm_tls := t\<rparr>) else d)"
  using assms by (auto simp: periodicTasks_def split: outcome.splits if_splits)

lemma daemon_run_ok: "daemon_run conf d h live \<Longrightarrow> run_ok conf d h live"
proof (induction rule: daemon_run.induct)
  case (run_new e d)
  then show ?case using newDaemon_idle [OF run_new] by (simp add: run_ok_def counts_def knows_def log_of_def no_log_def)
next
  case (run_refused d h live a)
  then show ?case by (simp add: run_ok_def launch_def)
next
  case (run_connection d h live a h' ip)
  then have ok: "counts d h" "dm_conf d = conf" "knows d live" by (simp_all add: run_ok_def)
  have "counts (launch a d) h'"
    using counts_launched [OF ok(1) run_connection(2) run_connection(4,5)] run_connection(6) ok(2) by simp
  moreover have "knows (launch a d) (started (ar_pid a) ip live)" "dm_conf (launch a d) = conf"
    unfolding launch_run [OF ok(1) run_connection(2) run_connection(4,5)] using run_connection ok
    by (simp_all add: knows_started) (simp add: add_child_def close_fd_def)
  ultimately show ?case by (simp add: run_ok_def)
next
  case (run_banned d h live a h' ip)
  then have ok: "counts d h" "dm_conf d = conf" "knows d live" by (simp_all add: run_ok_def)
  have "counts (launch a d) (h' @ [(ip, 1)])"
    using counts_launched [OF ok(1) run_banned(2) run_banned(3,4)] run_banned(5) ok(2) by simp
  moreover have "knows (launch a d) live" "dm_conf (launch a d) = conf"
    unfolding launch_run [OF ok(1) run_banned(2) run_banned(3,4)] using run_banned ok by (simp_all add: close_fd_def)
  ultimately show ?case by (simp add: run_ok_def)
next
  case (run_ended d h live pid ip st es n)
  then have ok: "counts d h" "dm_conf d = conf" "knows d live" by (simp_all add: run_ok_def)
  show ?case
    unfolding child_ended_run [OF ok(3) run_ended(2,3)] using ok knows_ended [of "d\<lparr>dm_requests := dm_requests d + 1\<rparr>" live pid]
    by (simp add: run_ok_def counts_countRequest knows_ended)
next
  case (run_checked d h live p d' live')
  then obtain t where "d' = (if pe_now p \<ge> dm_nextCheck d
      then add_child (pe_pid p) ''127.0.0.1'' (pe_start p) (d\<lparr>dm_nextCheck := pe_now p + 5 * 60, dm_tls := t\<rparr>) else d)"
    using periodic_run by blast
  with run_checked show ?case by (auto simp: run_ok_def knows_started) (simp add: add_child_def)
qed

section \<open>A fork that fails\<close>

definition lost_child :: "daemon \<Rightarrow> bool" where
  "lost_child d \<longleftrightarrow> map_of (dm_children d) (-1) \<noteq> None"

lemma lost_simps [simp]:
  "lost_child (close_fd fd d) = lost_child d" "lost_child (countRequest ip es d) = lost_child d"
  "lost_child (cleanOld now later d) = lost_child d" "lost_child (d\<lparr>dm_rejected := n\<rparr>) = lost_child d"
  "lost_child (d\<lparr>dm_actualSocket := fd\<rparr>) = lost_child d" "lost_child (d\<lparr>dm_open := fs\<rparr>) = lost_child d"
  "lost_child (d\<lparr>dm_requests := n\<rparr>) = lost_child d" "lost_child (d\<lparr>dm_nextCheck := n\<rparr>) = lost_child d"
  "lost_child (d\<lparr>dm_tls := t\<rparr>) = lost_child d"
  by (simp_all add: lost_child_def close_fd_def)

lemma lost_child_kept:
  "lost_child d \<Longrightarrow> lost_child (add_child pid ip start d)" "lost_child (add_child (-1) ip start d)"
  "lost_child d \<Longrightarrow> pid \<noteq> -1 \<Longrightarrow> lost_child (child_ended pid st d)"
  by (auto simp: lost_child_def add_child_def update_conv' child_ended_def processChildEnd_def delete_conv' Let_def split: child_status.splits)

lemma lost_launch: "lost_child d \<Longrightarrow> lost_child (launch a d)"
  by (auto simp: launch_def Let_def isBanned_def lost_child_kept)

lemma lost_accept: "lost_child d \<Longrightarrow> daemon_accept ans d = Inr d' \<Longrightarrow> lost_child d'"
proof -
  have "lost_child d \<Longrightarrow> lost_child (fold (\<lambda>(s, a) d. case a of Some a \<Rightarrow> launch a d | None \<Rightarrow> d) xs d)" for xs d
    by (induction xs arbitrary: d) (auto simp: lost_launch split: option.splits)
  then show "lost_child d \<Longrightarrow> daemon_accept ans d = Inr d' \<Longrightarrow> lost_child d'"
    by (auto simp: daemon_accept_def split: accept_answer.splits if_splits)
qed

lemma lost_harvest: "lost_child d \<Longrightarrow> (\<forall>st. Ended (-1) st \<notin> set ws) \<Longrightarrow> harvest ws d = Some d' \<Longrightarrow> lost_child d'"
  by (induction ws arbitrary: d) (auto split: if_splits wait_answer.splits, metis lost_child_kept(3))

lemma lost_periodic: "lost_child d \<Longrightarrow> periodicTasks p d = GoesOn d' \<Longrightarrow> lost_child d'"
  using periodic_run [of p d d'] by (auto simp: lost_child_kept split: if_splits)

lemma lost_nonempty: "lost_child d \<Longrightarrow> dm_children d \<noteq> []"
  by (auto simp: lost_child_def)

text \<open>\<open>waitpid\<close> answers no process of the number \<open>-1\<close>: that is its error.\<close>

definition kernel_pids :: "server_round \<Rightarrow> bool" where
  "kernel_pids r \<longleftrightarrow> (\<forall>st. Ended (-1) st \<notin> set (sr_waits r))"

lemma closeSockets_same [simp]: "lost_child (closeSockets d) = lost_child d"
  by (simp add: closeSockets_def close_listening_def lost_child_def close_fd_def Let_def)

lemma lost_loop:
  "lost_child d \<Longrightarrow> \<forall>r \<in> set rs. kernel_pids r \<Longrightarrow> daemon_loop rs d = Some (Inr (GoesOn d')) \<Longrightarrow> lost_child d'"
proof (induction rs arbitrary: d)
  case (Cons r rs)
  show ?case
  proof (cases "sr_finish r")
    case True
    with Cons show ?thesis by auto
  next
    case False
    then obtain d1 d2 d3 where "daemon_accept (sr_accept r) d = Inr d1" "harvest (sr_waits r) d1 = Some d2"
        "periodicTasks (sr_period r) d2 = GoesOn d3" "daemon_loop rs d3 = Some (Inr (GoesOn d'))"
      using Cons.prems(3) by (auto split: sum.splits option.splits outcome.splits)
    with Cons show ?thesis using lost_accept lost_harvest lost_periodic by (metis kernel_pids_def list.set_intros(1,2))
  qed
qed simp

section \<open>Properties\<close>

text \<open>
  C25: a connection is turned away exactly when, of the requests of its address that have ended since the last clearing, more than
  half and more than twenty times the configured number have failed; the others get a process, whose address is remembered.
\<close>

theorem throttling_exact:
  assumes "daemon_run conf d h live" "ar_fd a \<ge> 0" "h' = remembered d (ar_now a) h" "ip = ipToString (ar_addr a)"
  shows "if throttled (cf_fail2ban conf) h' ip
    then dm_rejected (launch a d) = dm_rejected d + 1 \<and> dm_children (launch a d) = dm_children d
    else dm_rejected (launch a d) = dm_rejected d \<and>
      map_of (dm_children (launch a d)) (ar_pid a) = Some \<lparr>ch_IP = ip, ch_start = ar_start a\<rparr>"
proof -
  have ok: "counts d h" "dm_conf d = conf" using daemon_run_ok [OF assms(1)] by (simp_all add: run_ok_def)
  show ?thesis
    unfolding launch_run [OF ok(1) assms(2-4)] ok(2)
    by (simp add: close_fd_def add_child_def update_conv')
qed

text \<open>
  C26: the server knows every process it has started and not waited for, with its address, and no other, save the one of a
  \<open>fork\<close> that failed; and what it has counted for an address is what its requests ended with since the last clearing.
\<close>

theorem children_are_known:
  assumes "daemon_run conf d h live" "pid \<noteq> -1"
  shows "map_option ch_IP (map_of (dm_children d) pid) = map_of live pid \<and>
    log_of d ip = \<lparr>lg_requests = int (requests_of h ip), lg_errors = int (errors_of h ip)\<rparr>"
  using daemon_run_ok [OF assms(1)] assms(2) by (simp add: run_ok_def knows_def counts_def)

definition others_cannot_write :: "file_stat \<Rightarrow> bool" where
  "others_cannot_write i \<longleftrightarrow> st_uid i = 0 \<and> st_gid i = 0 \<and> \<not> bit (st_mode i) 4 \<and> \<not> bit (st_mode i) 1"

lemma no_write_bits: "and m 18 = 0 \<Longrightarrow> \<not> bit m 4 \<and> \<not> bit m (Suc 0)" "and m 27 = 0 \<Longrightarrow> \<not> bit m 4 \<and> \<not> bit m (Suc 0)"
  "and m 63 = 0 \<Longrightarrow> k < 6 \<Longrightarrow> \<not> bit m k" for m :: nat
proof -
  have bits: "bit (18::nat) 4" "bit (18::nat) (Suc 0)" "bit (27::nat) 4" "bit (27::nat) (Suc 0)" "\<forall>k < 6. bit (63::nat) k" by code_simp+
  have z: "and m n = 0 \<Longrightarrow> bit n k \<Longrightarrow> \<not> bit m k" for n k by (metis bit_0_eq bit_and_iff bot_apply bot_bool_def)
  show "and m 18 = 0 \<Longrightarrow> \<not> bit m 4 \<and> \<not> bit m (Suc 0)" "and m 27 = 0 \<Longrightarrow> \<not> bit m 4 \<and> \<not> bit m (Suc 0)"
    "and m 63 = 0 \<Longrightarrow> k < 6 \<Longrightarrow> \<not> bit m k"
    using z bits by blast+
qed

text \<open>
  C24: a server that starts has found the control directory, and in a jail \<open>/etc\<close> and its account files, to be of root and not
  to be written by anyone else, and the passwords to be of root alone; and it listens somewhere.
\<close>

theorem started_server_is_safe:
  assumes "newDaemon e conf = Inr (GoesOn d)"
  shows "dm_sockets d \<noteq> [] \<and> (\<exists>i. se_lstat e (cf_controlPath conf) = Some i \<and> others_cannot_write i) \<and>
    (cf_jailPath conf \<noteq> [] \<longrightarrow>
      (\<forall>f \<in> {''/etc'', ''/etc/passwd'', ''/etc/group''}. \<exists>i. se_lstat e (cf_jailPath conf @ f) = Some i \<and> others_cannot_write i) \<and>
      (\<forall>i. se_lstat e (cf_jailPath conf @ ''/etc/shadow'') = Some i \<longrightarrow> st_uid i = 0 \<and> st_gid i = 0 \<and> (\<forall>k < 6. \<not> bit (st_mode i) k)))"
proof -
  have ok: "checkJail (se_lstat e) conf = Inr ()" "checkControlDir (se_lstat e) conf = Inr ()" "dm_sockets d \<noteq> []"
    using assms by (auto simp: newDaemon_def initSocketServer_def bind_result_Inr_iff Let_def split: outcome.splits if_splits)
  from ok(2) have "\<exists>i. se_lstat e (cf_controlPath conf) = Some i \<and> others_cannot_write i"
    by (auto simp: checkControlDir_def Let_def owned_by_root_def others_cannot_write_def no_write_bits split: option.splits if_splits)
  with ok(1,3) show ?thesis
    by (auto simp: checkJail_def check_account_file_def Let_def bind_result_Inr_iff owned_by_root_def others_cannot_write_def
        no_write_bits split: option.splits if_splits)
qed

text \<open>
  A connection for which \<open>fork\<close> fails is closed without an answer, and the server waits for its process for ever: whatever
  happens afterwards, the number \<open>-1\<close> stays among its children.
\<close>

theorem failed_fork_is_kept:
  assumes "ar_fd a \<ge> 0" "ar_pid a = -1" "dm_rejected (launch a d) = dm_rejected d"
    and "\<forall>r \<in> set rs. kernel_pids r" "daemon_loop rs (launch a d) = Some (Inr (GoesOn d'))"
  shows "map_of (dm_children d') (-1) \<noteq> None"
proof -
  have "lost_child (launch a d)"
    using assms(1-3) by (auto simp: launch_def Let_def isBanned_def lost_child_kept close_fd_def split: if_splits)
  from lost_loop [OF this assms(4,5)] show ?thesis by (simp add: lost_child_def)
qed

section \<open>A small server\<close>

definition demo_stat :: "string \<Rightarrow> file_stat option" where
  "demo_stat f = Some \<lparr>st_uid = 0, st_gid = 0, st_mode = 448\<rparr>"

definition demo_listen :: "int \<Rightarrow> listen_env" where
  "demo_listen fd = \<lparr>le_fd = fd, le_bind = (\<lambda>k. k = 3), le_listen = True, le_error = []\<rparr>"

definition demo_start :: start_env where
  "demo_start = \<lparr>se_lstat = demo_stat, se_openssl = demo_openssl, se_tls_files = demo_files False 0, se_plain = demo_listen 3,
     se_secured = demo_listen 4\<rparr>"

definition demo_daemon :: daemon where
  "demo_daemon = (idle_daemon sample_configuration no_tls)\<lparr>dm_listenSocket := 3, dm_secureListenSocket := 4,
     dm_sockets := [(3, False), (4, True)], dm_open := [3, 4]\<rparr>"

definition demo_arrival :: "int \<Rightarrow> arrival" where
  "demo_arrival pid = \<lparr>ar_fd = 5, ar_addr = 0x0100007f, ar_pid = pid, ar_now = 10, ar_later = 10, ar_start = 10\<rparr>"

lemma demo_started: "newDaemon demo_start sample_configuration = Inr (GoesOn demo_daemon)"
proof -
  have m: "and (448::nat) 18 = 0" "and (448::nat) 27 = 0" "and (448::nat) 63 = 0" by code_simp+
  have "newSSLBase demo_openssl (demo_files False 0) sample_configuration = GoesOn no_tls"
    by (simp add: newSSLBase_def createUpdateContext_def demo_files_def Let_def)
  moreover have "bind_loop 10 (\<lambda>k. k = 3) 0" by code_simp
  ultimately show ?thesis
    by (simp add: newDaemon_def demo_start_def checkJail_def checkControlDir_def check_account_file_def demo_stat_def owned_by_root_def m
        initSocketServer_def initSocket_def demo_listen_def socket_entry_def demo_daemon_def sample_configuration_def idle_daemon_def)
qed

theorem started_server_is_safe_witness:
  "newDaemon demo_start sample_configuration = Inr (GoesOn demo_daemon) \<and>
    (\<exists>i. demo_stat ''/c'' = Some i \<and> others_cannot_write i)"
  using started_server_is_safe [OF demo_started] demo_started by (simp add: sample_configuration_def demo_start_def)

theorem throttling_exact_witness:
  "dm_rejected (launch (demo_arrival 9) demo_daemon) = 0 \<and>
   map_of (dm_children (launch (demo_arrival 9) demo_daemon)) 9 = Some \<lparr>ch_IP = ipToString 0x0100007f, ch_start = 10\<rparr>"
proof -
  have "\<not> throttled (cf_fail2ban sample_configuration) (remembered demo_daemon (ar_now (demo_arrival 9)) []) (ipToString (ar_addr (demo_arrival 9)))"
    by (simp add: throttled_def remembered_def)
  with throttling_exact [OF run_new [OF demo_started], of "demo_arrival 9"] show ?thesis
    by (simp add: demo_arrival_def demo_daemon_def idle_daemon_def)
qed

theorem children_are_known_witness:
  "map_option ch_IP (map_of (dm_children (launch (demo_arrival 9) demo_daemon)) 9) = Some (ipToString 0x0100007f)"
proof -
  have "daemon_run sample_configuration (launch (demo_arrival 9) demo_daemon) [] (started 9 (ipToString 0x0100007f) [])"
    using run_connection [OF run_new [OF demo_started], of "demo_arrival 9" "[]" "ipToString 0x0100007f"]
    by (simp add: demo_arrival_def new_pid_def remembered_def throttled_def)
  from children_are_known [OF this, of 9] show ?thesis by (simp add: started_def)
qed

definition demo_last_round :: server_round where
  "demo_last_round = \<lparr>sr_finish = True, sr_accept = AcceptIdle, sr_waits = [],
     sr_period = \<lparr>pe_now = 0, pe_openssl = demo_openssl, pe_files = demo_files False 0, pe_pid = 8, pe_start = 0\<rparr>\<rparr>"

theorem failed_fork_is_kept_witness:
  "\<exists>d'. daemon_loop [demo_last_round] (launch (demo_arrival (-1)) demo_daemon) = Some (Inr (GoesOn d')) \<and> map_of (dm_children d') (-1) \<noteq> None"
proof -
  have "dm_rejected (launch (demo_arrival (-1)) demo_daemon) = dm_rejected demo_daemon"
    by (simp add: launch_def isBanned_def demo_arrival_def demo_daemon_def idle_daemon_def cleanOld_def Let_def add_child_def close_fd_def)
  with failed_fork_is_kept [of "demo_arrival (-1)" demo_daemon "[demo_last_round]"] show ?thesis
    by (simp add: kernel_pids_def demo_arrival_def demo_last_round_def)
qed

end
