(* ===== verification/Logs_Locks.thy ===== *)
theory Logs_Locks
  imports Prelude
begin

text \<open>
  The classes \<open>Logger\<close> (log.h) and \<open>Lock\<close> (lock.h): the level and the targets of the log, the log of requests, and the files
  that processes lock. Proved: a request adds one line to its log, with the fields it was given and no others, whatever the client
  sent; and the locks of two tasks, or of a task and the whole system, are different files inside the directory of locks.
\<close>

section \<open>The log\<close>

text \<open>The static members, and what has been given to \<open>syslog\<close> and, in the foreground, to the error output too.\<close>

record logger =
  lo_level :: int
  lo_foreground :: bool
  lo_trace :: bool
  lo_syslog :: "(int \<times> string) list"
  lo_shown :: "(int \<times> string) list"

definition new_logger :: logger where
  "new_logger = \<lparr>lo_level = 3, lo_foreground = False, lo_trace = False, lo_syslog = [], lo_shown = []\<rparr>"

definition level_name :: "int \<Rightarrow> string" where
  "level_name l = [''EMERG'', ''ALERT'', ''CRIT'', ''ERR'', ''WARNING'', ''NOTICE'', ''INFO'', ''DEBUG''] ! nat l"

definition LOG_EMERG :: int where "LOG_EMERG = 0"
definition LOG_ERR :: int where "LOG_ERR = 3"
definition LOG_WARNING :: int where "LOG_WARNING = 4"
definition LOG_NOTICE :: int where "LOG_NOTICE = 5"
definition LOG_INFO :: int where "LOG_INFO = 6"
definition LOG_DEBUG :: int where "LOG_DEBUG = 7"

text \<open>A message of a level above that of the log is left out; one that is too long for the buffer of 1000 bytes is cut.\<close>

definition logger_log :: "int \<Rightarrow> string \<Rightarrow> logger \<Rightarrow> logger" where
  "logger_log level0 message lg = (let level = (if level0 > 7 \<or> level0 < 0 then 0 else level0) in
     if level > lo_level lg then lg
     else let m = (level, take 999 (c_str message)) in
       lg\<lparr>lo_syslog := lo_syslog lg @ [m], lo_shown := (if lo_foreground lg then lo_shown lg @ [m] else lo_shown lg)\<rparr>)"

definition setLogLevel :: "int \<Rightarrow> bool \<Rightarrow> logger \<Rightarrow> logger" where
  "setLogLevel level0 foreground lg = (let level = (if level0 > 7 \<or> level0 < 0 then 7 else level0) in
     logger_log LOG_INFO (''Set log mask up to LOG_'' @ level_name level)
       (lg\<lparr>lo_foreground := foreground, lo_trace := level0 \<ge> 8, lo_level := level\<rparr>))"

section \<open>The log of requests\<close>

definition escape_char :: "char \<Rightarrow> char" where
  "escape_char c = (if byte_val c < 0x20 \<or> byte_val c = 0x7f \<or> c = CHR 0x7C then blank else c)"

definition escapeLogField :: "string \<Rightarrow> string" where
  "escapeLogField value = map escape_char value"

definition log_separator :: string where "log_separator = [blank, CHR 0x7C, blank]"

definition request_line :: "string \<Rightarrow> string \<Rightarrow> bool \<Rightarrow> string \<Rightarrow> string \<Rightarrow> string" where
  "request_line dateTime clientIP secure request extra = dateTime @ log_separator @ escapeLogField clientIP @
     log_separator @ (if secure then ''s'' else ''n'') @ log_separator @ escapeLogField request @
     (if extra = [] then [] else log_separator @ escapeLogField extra) @ [lf]"

text \<open>What the directory and the file of the log are found to be: \<open>mkdir\<close>, \<open>stat\<close>, \<open>open\<close> with \<open>O_NOFOLLOW\<close>.\<close>

record log_dir =
  ld_made :: bool
  ld_stat :: "(bool \<times> int \<times> nat) option"
  ld_opens :: bool

text \<open>The file of the log after a request: \<open>write\<close> appends, all of it or less.\<close>

definition logRequest :: "log_dir \<Rightarrow> nat option \<Rightarrow> string \<Rightarrow> string \<Rightarrow> bool \<Rightarrow> string \<Rightarrow> string \<Rightarrow> string \<Rightarrow> string" where
  "logRequest dir written dateTime clientIP secure request extra contents =
     (if \<not> ld_made dir then contents
      else case ld_stat dir of None \<Rightarrow> contents
        | Some (isdir, uid, mode) \<Rightarrow>
          if \<not> isdir \<or> uid \<noteq> 0 \<or> and mode 18 \<noteq> 0 then contents
          else if \<not> ld_opens dir then contents
          else let line = request_line dateTime clientIP secure request extra in
            contents @ (case written of Some n \<Rightarrow> take n line | None \<Rightarrow> []))"

section \<open>Locks\<close>

definition lock_char :: "char \<Rightarrow> bool" where
  "lock_char c \<longleftrightarrow> (97 \<le> byte_val c \<and> byte_val c \<le> 122) \<or> (65 \<le> byte_val c \<and> byte_val c \<le> 90) \<or>
     (48 \<le> byte_val c \<and> byte_val c \<le> 57) \<or> c = CHR ''_''"

definition lock_name :: "string \<Rightarrow> bool" where
  "lock_name name \<longleftrightarrow> name \<noteq> [] \<and> length name \<le> 32 \<and> (\<forall>c \<in> set name. lock_char c)"

definition lock_dir :: "string \<Rightarrow> string" where "lock_dir controlPath = controlPath @ ''/locks''"

definition lock_file :: "string \<Rightarrow> string \<Rightarrow> string" where
  "lock_file controlPath name = lock_dir controlPath @ ''/'' @ name @ ''.lock''"

text \<open>What \<open>flock\<close> answers: it is called again after a signal.\<close>

datatype flock_answer = Locked | Interrupted | LockFails string

fun acquire :: "string \<Rightarrow> flock_answer list \<Rightarrow> string result option" where
  "acquire path [] = None"
| "acquire path (a # as) = (case a of
      Locked \<Rightarrow> Some (Inr path)
    | Interrupted \<Rightarrow> acquire path as
    | LockFails e \<Rightarrow> Some (Inl (StdExn (''Failed to acquire lock '' @ path @ '': '' @ e))))"

record lock_env =
  lk_dir :: bool
  lk_opens :: bool
  lk_answers :: "flock_answer list"

text \<open>The constructor: the file that is locked, or what is thrown; \<open>lk_dir\<close>, the directory is there or can be made.\<close>

definition newLock :: "lock_env \<Rightarrow> string \<Rightarrow> string \<Rightarrow> string result option" where
  "newLock e controlPath name =
     (if name = [] \<or> length name > 32 then Some (Inl (StdExn ''Invalid lock name''))
      else if \<not> (\<forall>c \<in> set name. lock_char c) then Some (Inl (StdExn ''Invalid lock name''))
      else if \<not> lk_dir e then Some (Inl (StdExn (''Failed to create lock directory: '' @ lock_dir controlPath)))
      else let filePath = lock_file controlPath name in
        if \<not> lk_opens e then Some (Inl (StdExn (''Failed to open lock: '' @ filePath)))
        else acquire filePath (lk_answers e))"

definition global_lock_name :: string where "global_lock_name = ''global''"
definition task_lock_name :: "int \<Rightarrow> string" where "task_lock_name taskId = ''task_'' @ itos taskId"

definition GlobalLock :: "lock_env \<Rightarrow> string \<Rightarrow> string result option" where
  "GlobalLock e controlPath = newLock e controlPath global_lock_name"

definition TaskLock :: "lock_env \<Rightarrow> string \<Rightarrow> int \<Rightarrow> string result option" where
  "TaskLock e controlPath taskId = newLock e controlPath (task_lock_name taskId)"

section \<open>Fields and lines\<close>

text \<open>How a line is read back: at the bars.\<close>

fun split_bars :: "string \<Rightarrow> string list" where
  "split_bars [] = [[]]"
| "split_bars (c # cs) = (if c = CHR 0x7C then [] # split_bars cs else case split_bars cs of [] \<Rightarrow> [[c]] | f # fs \<Rightarrow> (c # f) # fs)"

definition log_fields :: "string \<Rightarrow> bool \<Rightarrow> string \<Rightarrow> string \<Rightarrow> string list" where
  "log_fields clientIP secure request extra =
     [escapeLogField clientIP, if secure then ''s'' else ''n'', escapeLogField request] @ (if extra = [] then [] else [escapeLogField extra])"

definition plain_field :: "string \<Rightarrow> bool" where
  "plain_field f \<longleftrightarrow> (\<forall>c \<in> set f. c \<noteq> CHR 0x7C \<and> c \<noteq> lf)"

lemma split_bars_append: "CHR 0x7C \<notin> set f \<Longrightarrow> split_bars (f @ CHR 0x7C # rest) = f # split_bars rest"
  by (induction f) auto

lemma split_bars_last: "CHR 0x7C \<notin> set f \<Longrightarrow> split_bars f = [f]"
  by (induction f) auto

lemma escaped_char: "escape_char c \<noteq> CHR 0x7C" "escape_char c \<noteq> lf" "\<not> byte_val (escape_char c) < 0x20"
  by (auto simp: escape_char_def char_names)

lemma escaped_plain: "plain_field (escapeLogField f)"
  by (auto simp: plain_field_def escapeLogField_def escaped_char)

lemma length_escapeLogField [simp]: "length (escapeLogField f) = length f"
  by (simp add: escapeLogField_def)

lemma lock_char_range: "lock_char c \<Longrightarrow> c \<noteq> CHR ''/'' \<and> c \<noteq> nul \<and> c \<noteq> CHR ''.'' \<and> c \<noteq> CHR ''-''"
  by (auto simp: lock_char_def nul_def)

lemma digit_lock_char: "is_digit c \<Longrightarrow> lock_char c"
  by (auto simp: is_digit_def lock_char_def)

lemma task_name_chars: "0 \<le> a \<Longrightarrow> \<forall>c \<in> set (task_lock_name a). lock_char c"
proof -
  have "\<forall>c \<in> set ''task_''. lock_char c" by code_simp
  then show "0 \<le> a \<Longrightarrow> \<forall>c \<in> set (task_lock_name a). lock_char c"
    using nat_digits_all_digits digit_lock_char by (auto simp: task_lock_name_def itos_def)
qed

lemma task_name_ok: "0 \<le> a \<Longrightarrow> a \<le> int_max \<Longrightarrow> lock_name (task_lock_name a)"
proof -
  assume a: "0 \<le> a" "a \<le> int_max"
  then have "nat a < 10 ^ 10" by (simp add: int_max_def nat_less_iff)
  then have "length (nat_digits (nat a)) \<le> 10" using length_nat_digits [of "nat a" 9] by simp
  moreover have "length (task_lock_name a) = 5 + length (nat_digits (nat a))" using a(1) by (simp add: task_lock_name_def itos_def)
  ultimately have "length (task_lock_name a) \<le> 32" by linarith
  then show ?thesis using task_name_chars [OF a(1)] by (simp add: lock_name_def) (simp add: task_lock_name_def)
qed

lemma task_name_negative: "a < 0 \<Longrightarrow> \<not> lock_name (task_lock_name a)"
proof -
  have "\<not> lock_char (CHR ''-'')" by code_simp
  then show "a < 0 \<Longrightarrow> \<not> lock_name (task_lock_name a)" by (auto simp: lock_name_def task_lock_name_def itos_def)
qed

lemma newLock_valid:
  "newLock e controlPath name = (if \<not> lock_name name then Some (Inl (StdExn ''Invalid lock name''))
    else if \<not> lk_dir e then Some (Inl (StdExn (''Failed to create lock directory: '' @ lock_dir controlPath)))
    else if \<not> lk_opens e then Some (Inl (StdExn (''Failed to open lock: '' @ lock_file controlPath name)))
    else acquire (lock_file controlPath name) (lk_answers e))"
  by (auto simp: newLock_def lock_name_def Let_def not_le)

lemma lock_file_inj: "lock_file c n = lock_file c m \<longleftrightarrow> n = m"
  by (simp add: lock_file_def)

lemma acquired: "acquire path as = Some (Inr f) \<Longrightarrow> f = path"
  by (induction path as rule: acquire.induct) (auto split: flock_answer.splits)

lemma locked_file: "newLock e c name = Some (Inr f) \<Longrightarrow> lock_name name \<and> f = lock_file c name"
  by (auto simp: newLock_valid acquired split: if_splits)

section \<open>Properties\<close>

text \<open>
  C28: whatever a client has sent, its request adds one line to the log of requests, in which the fields are found again at the
  bars, each the text given with its control characters and bars blanked; where the log is not safe nothing is written.
\<close>

theorem request_log_one_line:
  assumes "plain_field dateTime" "line = request_line dateTime clientIP secure request extra" "fs = log_fields clientIP secure request extra"
  shows "filter (\<lambda>c. c = lf) line = [lf] \<and> last line = lf \<and>
    split_bars (butlast line) = (dateTime @ [blank]) # map (\<lambda>f. blank # f @ [blank]) (butlast fs) @ [blank # last fs] \<and>
    (logRequest dir (Some (length line)) dateTime clientIP secure request extra contents \<in> {contents, contents @ line}) \<and>
    (logRequest dir (Some (length line)) dateTime clientIP secure request extra contents = contents @ line \<longrightarrow>
      (\<exists>mode. ld_stat dir = Some (True, 0, mode) \<and> and mode 18 = 0))"
proof -
  note plain = assms(1) [unfolded plain_field_def] escaped_plain [unfolded plain_field_def]
  have marks: "CHR 0x7C \<noteq> blank" "blank \<noteq> CHR 0x7C" "blank \<noteq> lf" "lf \<noteq> CHR 0x7C" "CHR 0x7C \<noteq> lf" by (simp_all add: char_names)
  have no: "filter (\<lambda>c. c = lf) f = []" "CHR 0x7C \<notin> set f" if "plain_field f" for f
    using that by (auto simp: plain_field_def filter_empty_conv)
  have se: "plain_field ''s''" "plain_field ''n''" by code_simp+
  have "filter (\<lambda>c. c = lf) line = [lf]" "last line = lf"
    using no(1) [OF assms(1)] no(1) [OF escaped_plain] se [THEN no(1)] marks
    by (simp_all add: assms(2) request_line_def log_separator_def)
  moreover have "split_bars (butlast line) = (dateTime @ [blank]) # map (\<lambda>f. blank # f @ [blank]) (butlast fs) @ [blank # last fs]"
  proof -
    have cut: "split_bars (f @ blank # CHR 0x7C # rest) = (f @ [blank]) # split_bars rest" if "CHR 0x7C \<notin> set f" for f rest
      using split_bars_append [of "f @ [blank]" rest] that marks by simp
    have fields: "CHR 0x7C \<notin> set dateTime" "CHR 0x7C \<notin> set (escapeLogField f)" "CHR 0x7C \<notin> set (if secure then ''s'' else ''n'')" for f
      using no(2) [OF assms(1)] no(2) [OF escaped_plain] se [THEN no(2)] by simp_all
    have padded: "CHR 0x7C \<notin> set (blank # f)" if "CHR 0x7C \<notin> set f" for f using that marks by simp
    show ?thesis
      using cut [OF fields(1)] cut [OF padded [OF fields(2)]] cut [OF padded [OF fields(3)]] split_bars_last [OF padded [OF fields(2)]]
      by (simp add: assms(2) request_line_def log_separator_def butlast_append assms(3) log_fields_def del: split_bars.simps)
  qed
  moreover have "logRequest dir (Some (length line)) dateTime clientIP secure request extra contents =
      (if ld_made dir \<and> ld_opens dir \<and> (\<exists>mode. ld_stat dir = Some (True, 0, mode) \<and> and mode 18 = 0) then contents @ line else contents)"
    by (auto simp: logRequest_def Let_def assms(2) split: option.splits)
  moreover have "line \<noteq> []" by (simp add: assms(2) request_line_def)
  ultimately show ?thesis by auto
qed

theorem request_log_one_line_witness:
  "filter (\<lambda>c. c = lf) (request_line ''2024-01-01'' ''10.0.0.1'' False (''GET /a'' @ [lf] @ ''2024 | root'') []) = [lf]"
proof -
  have "plain_field ''2024-01-01''" by code_simp
  from request_log_one_line [OF this refl refl, of "''10.0.0.1''" False "''GET /a'' @ [lf] @ ''2024 | root''" "[]"] show ?thesis by blast
qed

text \<open>
  The locks of two tasks are two files, and none of them is that of the system; all are in the directory of locks; and every
  task has one, unless its number is negative.
\<close>

theorem task_locks_apart:
  assumes "TaskLock e controlPath a = Some (Inr f)" "TaskLock e' controlPath b = Some (Inr g)" "GlobalLock e'' controlPath = Some (Inr h)"
    and "a \<le> int_max" "b \<le> int_max"
  shows "0 \<le> a \<and> (f = g \<longleftrightarrow> a = b) \<and> f \<noteq> h \<and> (\<exists>n. f = lock_dir controlPath @ ''/'' @ n \<and> CHR ''/'' \<notin> set n)"
proof -
  have f: "lock_name (task_lock_name a)" "f = lock_file controlPath (task_lock_name a)" "g = lock_file controlPath (task_lock_name b)"
      "h = lock_file controlPath global_lock_name" "lock_name (task_lock_name b)"
    using assms(1-3) locked_file unfolding TaskLock_def GlobalLock_def by blast+
  have pos: "0 \<le> a" "0 \<le> b" using f(1,5) task_name_negative not_le by blast+
  have "c_atoi (itos a) = a" "c_atoi (itos b) = b" using pos assms(4,5) by (auto intro!: c_atoi_itos)
  then have "itos a = itos b \<longleftrightarrow> a = b" by metis
  then have "f = g \<longleftrightarrow> a = b" by (simp add: f lock_file_inj task_lock_name_def)
  moreover have "f \<noteq> h" by (simp add: f lock_file_inj task_lock_name_def global_lock_name_def)
  moreover have "CHR ''/'' \<notin> set (task_lock_name a @ ''.lock'')"
    using f(1) lock_char_range by (auto simp: lock_name_def)
  ultimately show ?thesis using pos(1) by (auto simp: f lock_file_def)
qed

definition demo_lock :: lock_env where
  "demo_lock = \<lparr>lk_dir = True, lk_opens = True, lk_answers = [Interrupted, Locked]\<rparr>"

theorem task_locks_apart_witness:
  "\<exists>f g. TaskLock demo_lock ''/c'' 10001 = Some (Inr f) \<and> TaskLock demo_lock ''/c'' 10002 = Some (Inr g) \<and> f \<noteq> g"
proof -
  have n: "lock_name global_lock_name" by code_simp
  have ok: "\<exists>f. newLock demo_lock ''/c'' name = Some (Inr f)" if "lock_name name" for name
    using that by (simp add: newLock_valid demo_lock_def)
  obtain f g h where r: "TaskLock demo_lock ''/c'' 10001 = Some (Inr f)" "TaskLock demo_lock ''/c'' 10002 = Some (Inr g)"
      "GlobalLock demo_lock ''/c'' = Some (Inr h)"
    using ok [OF task_name_ok, of 10001] ok [OF task_name_ok, of 10002] ok [OF n]
    by (auto simp: TaskLock_def GlobalLock_def int_max_def)
  from task_locks_apart [OF r] r show ?thesis by (simp add: int_max_def)
qed

end
