(* ===== verification/Writable_Dirs.thy ===== *)
theory Writable_Dirs
  imports Configuration
begin

text \<open>
  \<open>getWritableDirsInDir\<close> and \<open>findWritableDirsInJail\<close> (configuration.cpp): the directories of the jail that a prisoner may write, for
  each of which every task is later given a private one. The tree of the jail is an argument. Proved, with what it is to write a
  directory stated as the system decides it and not as the code does: whatever a prisoner may write lies in a listed directory,
  unless it could not be looked at or is opened by a group that the process keeps from root; and what is listed some prisoner may
  write, with one exception that is stated.
\<close>

text \<open>
  An entry of a directory: one that \<open>lstat\<close> cannot ask about, one that is no directory (a link to one is not), or a directory with
  its entries in the order of \<open>readdir\<close>, unless \<open>opendir\<close> fails.
\<close>

datatype jail_entry = NoStat | NoDirectory | Directory file_stat "(string \<times> jail_entry) list option"

definition S_IWOTH :: nat where "S_IWOTH = 2"
definition S_IWGRP :: nat where "S_IWGRP = 16"
definition S_IWUSR :: nat where "S_IWUSR = 128"

definition prisoner_writes :: "configuration \<Rightarrow> file_stat \<Rightarrow> bool" where
  "prisoner_writes conf i \<longleftrightarrow> and (st_mode i) S_IWOTH \<noteq> 0 \<or>
     and (st_mode i) S_IWGRP \<noteq> 0 \<and> st_gid i \<ge> getMinPrisoner conf \<and> st_gid i \<le> getMaxPrisoner conf \<or>
     and (st_mode i) S_IWUSR \<noteq> 0 \<and> st_uid i \<ge> getMinPrisoner conf \<and> st_uid i \<le> getMaxPrisoner conf"

fun writable_entry :: "configuration \<Rightarrow> string \<Rightarrow> jail_entry \<Rightarrow> string list"
  and writable_entries :: "configuration \<Rightarrow> string \<Rightarrow> (string \<times> jail_entry) list \<Rightarrow> string list" where
  "writable_entry conf path NoStat = []"
| "writable_entry conf path NoDirectory = []"
| "writable_entry conf path (Directory i entries) =
     (if prisoner_writes conf i then [drop (length (cf_jailPath conf)) path]
      else case entries of None \<Rightarrow> [] | Some es \<Rightarrow> writable_entries conf path es)"
| "writable_entries conf dirPath [] = []"
| "writable_entries conf dirPath ((name, e) # es) =
     (if name = ''.'' \<or> name = ''..'' then [] else writable_entry conf (dirPath @ ''/'' @ name) e) @ writable_entries conf dirPath es"

definition getWritableDirsInDir :: "configuration \<Rightarrow> string \<Rightarrow> (string \<times> jail_entry) list option \<Rightarrow> string list" where
  "getWritableDirsInDir conf dirPath entries = (case entries of None \<Rightarrow> [] | Some es \<Rightarrow> writable_entries conf dirPath es)"

definition findWritableDirsInJail :: "configuration \<Rightarrow> (string \<times> jail_entry) list option \<Rightarrow> string list" where
  "findWritableDirsInJail conf entries = (if cf_jailPath conf = [] then [] else getWritableDirsInDir conf (cf_jailPath conf) entries)"

section \<open>Which directories are found\<close>

text \<open>The directories that are below the entries of a directory, with their paths.\<close>

inductive dir_below :: "(string \<times> jail_entry) list \<Rightarrow> string \<Rightarrow> file_stat \<Rightarrow> bool" where
  entry_below: "(name, Directory i es) \<in> set entries \<Longrightarrow> name \<noteq> ''.'' \<Longrightarrow> name \<noteq> ''..'' \<Longrightarrow> dir_below entries (''/'' @ name) i"
| deeper_below: "(name, Directory i (Some es)) \<in> set entries \<Longrightarrow> name \<noteq> ''.'' \<Longrightarrow> name \<noteq> ''..'' \<Longrightarrow> dir_below es path j \<Longrightarrow>
    dir_below entries (''/'' @ name @ path) j"

lemmas below = dir_below.intros [simplified]

lemma dir_below_mono: "dir_below es p i \<Longrightarrow> set es \<subseteq> set fs \<Longrightarrow> dir_below fs p i"
  by (cases rule: dir_below.cases) (auto intro: below)

lemma writable_found:
  "w \<in> set (writable_entry conf path e) \<Longrightarrow> \<exists>q i. w = drop (length (cf_jailPath conf)) (path @ q) \<and> prisoner_writes conf i \<and>
     (q = [] \<and> (\<exists>es. e = Directory i es) \<or> (\<exists>j es. e = Directory j (Some es) \<and> dir_below es q i))"
  "w \<in> set (writable_entries conf path es) \<Longrightarrow> \<exists>q i. w = drop (length (cf_jailPath conf)) (path @ q) \<and> prisoner_writes conf i \<and> dir_below es q i"
proof (induction conf path e and conf path es rule: writable_entry_writable_entries.induct)
  case (3 conf path i entries)
  show ?case
  proof (cases "prisoner_writes conf i")
    case True
    then show ?thesis using 3(2) by (intro exI [of _ "[]"] exI [of _ i]) simp
  next
    case False
    then obtain es where es: "entries = Some es" "w \<in> set (writable_entries conf path es)" using 3(2) by (auto split: option.splits)
    from 3(1) [OF False es] es(1) show ?thesis by blast
  qed
next
  case (5 conf path name e es)
  show ?case
  proof (cases "w \<in> set (writable_entries conf path es)")
    case True
    then show ?thesis using 5(2) dir_below_mono [of es _ _ "(name, e) # es"] by fastforce
  next
    case False
    then have n: "name \<noteq> ''.''" "name \<noteq> ''..''" "w \<in> set (writable_entry conf (path @ ''/'' @ name) e)" using 5(3) by (auto split: if_splits)
    from 5(1) [OF _ n(3)] n(1,2) obtain q i where q: "w = drop (length (cf_jailPath conf)) ((path @ ''/'' @ name) @ q)" "prisoner_writes conf i"
      "q = [] \<and> (\<exists>es. e = Directory i es) \<or> (\<exists>j es. e = Directory j (Some es) \<and> dir_below es q i)" by blast
    then have "dir_below ((name, e) # es) (''/'' @ name @ q) i"
      using n(1,2) by (auto intro: below)
    with q(1,2) show ?thesis by (intro exI [of _ "''/'' @ name @ q"] exI [of _ i]) simp
  qed
qed simp_all

lemma writable_covered:
  "dir_below es p i \<Longrightarrow> prisoner_writes conf i \<Longrightarrow> length (cf_jailPath conf) \<le> length path \<Longrightarrow>
    \<exists>w \<in> set (writable_entries conf path es). \<exists>r. drop (length (cf_jailPath conf)) path @ p = w @ r \<and> (r = [] \<or> hd r = CHR ''/'')"
proof (induction arbitrary: path rule: dir_below.induct)
  case (entry_below name i es entries)
  then have "drop (length (cf_jailPath conf)) path @ ''/'' @ name \<in> set (writable_entries conf path entries)"
    by (induction entries) auto
  then show ?case by force
next
  case (deeper_below name i es entries p j)
  have e: "set (writable_entry conf (path @ ''/'' @ name) (Directory i (Some es))) \<subseteq> set (writable_entries conf path entries)"
    using deeper_below(1-3) by (induction entries) auto
  show ?case
  proof (cases "prisoner_writes conf i")
    case True
    have p: "p \<noteq> [] \<and> hd p = CHR ''/''" using deeper_below(4) by (cases rule: dir_below.cases) auto
    have "drop (length (cf_jailPath conf)) (path @ ''/'' @ name) \<in> set (writable_entries conf path entries)" using e True by simp
    moreover have "drop (length (cf_jailPath conf)) path @ ''/'' @ name @ p = drop (length (cf_jailPath conf)) (path @ ''/'' @ name) @ p"
      using deeper_below(7) by simp
    ultimately show ?thesis using p by blast
  next
    case False
    from deeper_below(5) [OF deeper_below(6), of "path @ ''/'' @ name"] deeper_below(7)
    obtain w r where "w \<in> set (writable_entries conf (path @ ''/'' @ name) es)"
      "drop (length (cf_jailPath conf)) (path @ ''/'' @ name) @ p = w @ r" "r = [] \<or> hd r = CHR ''/''" by auto
    moreover from this(1) have "w \<in> set (writable_entries conf path entries)" using e False by auto
    ultimately show ?thesis using deeper_below(7) by auto
  qed
qed

section \<open>Who may write\<close>

text \<open>
  Which bit of the mode decides for a process of the user \<open>u\<close> and the groups \<open>gs\<close>: the owner's for the owner, else the group's for
  a member of the group, else that of the others.
\<close>

definition may_write :: "int \<Rightarrow> int set \<Rightarrow> file_stat \<Rightarrow> bool" where
  "may_write u gs i \<longleftrightarrow> odd (st_mode i div (if st_uid i = u then 128 else if st_gid i \<in> gs then 16 else 2))"

definition prisoners :: "configuration \<Rightarrow> int set" where
  "prisoners conf = {getMinPrisoner conf .. getMaxPrisoner conf}"

lemma mode_bit: "and m (2 ^ n) \<noteq> 0 \<longleftrightarrow> odd (m div 2 ^ n)" for m n :: nat
  by (simp add: and_exp_eq_0_iff_not_bit bit_iff_odd)

lemma mode_bits:
  "and m 2 \<noteq> 0 \<longleftrightarrow> odd (m div 2)" "and m 16 \<noteq> 0 \<longleftrightarrow> odd (m div 16)" "and m 128 \<noteq> 0 \<longleftrightarrow> odd (m div 128)" for m :: nat
  using mode_bit [of m 1] mode_bit [of m 4] mode_bit [of m 7] by simp_all

lemma prisoner_writes_iff:
  "prisoner_writes conf i \<longleftrightarrow> odd (st_mode i div 2) \<or> odd (st_mode i div 16) \<and> st_gid i \<in> prisoners conf \<or>
     odd (st_mode i div 128) \<and> st_uid i \<in> prisoners conf"
  unfolding prisoner_writes_def S_IWOTH_def S_IWGRP_def S_IWUSR_def mode_bits prisoners_def by auto

lemma may_write_is_found:
  "u \<in> prisoners conf \<Longrightarrow> may_write u (insert u kept) i \<Longrightarrow> \<not> (st_gid i \<in> kept \<and> odd (st_mode i div 16)) \<Longrightarrow> prisoner_writes conf i"
  by (auto simp: may_write_def prisoner_writes_iff split: if_splits)

lemma found_may_write:
  assumes "prisoner_writes conf i" "getMinPrisoner conf + 2 \<le> getMaxPrisoner conf"
  shows "(\<exists>u \<in> prisoners conf. may_write u {u} i) \<or>
    st_uid i = st_gid i \<and> even (st_mode i div 128) \<and> odd (st_mode i div 16) \<and> even (st_mode i div 2)"
proof -
  consider "odd (st_mode i div 2)" | "odd (st_mode i div 16)" "st_gid i \<in> prisoners conf" "even (st_mode i div 2)"
    | "odd (st_mode i div 128)" "st_uid i \<in> prisoners conf"
    using assms(1) by (auto simp: prisoner_writes_iff)
  then show ?thesis
  proof cases
    case 1
    let ?m = "getMinPrisoner conf"
    have "?m \<in> prisoners conf" "?m + 1 \<in> prisoners conf" "?m + 2 \<in> prisoners conf" using assms(2) by (auto simp: prisoners_def)
    moreover have "\<exists>u \<in> {?m, ?m + 1, ?m + 2}. u \<noteq> st_uid i \<and> u \<noteq> st_gid i" by auto
    ultimately obtain u where "u \<in> prisoners conf" "u \<noteq> st_uid i" "u \<noteq> st_gid i" by auto
    then show ?thesis using 1 by (auto simp: may_write_def intro!: bexI [of _ u])
  next
    case 2
    then show ?thesis
      by (cases "st_uid i = st_gid i \<and> even (st_mode i div 128)") (auto simp: may_write_def intro!: bexI [of _ "st_gid i"])
  next
    case 3
    then show ?thesis by (auto simp: may_write_def intro!: bexI [of _ "st_uid i"])
  qed
qed

section \<open>Property\<close>

text \<open>
  C29: of the directories of the jail that can be looked at, each that its mode lets a prisoner write, whose process has its own
  group and the groups \<open>kept\<close> of the daemon, is one of those listed or lies in one, unless it is one of the kept groups that opens
  it; and each that is listed is one that some prisoner may write, or is a prisoner's own, closed to it and open to its group.
\<close>

theorem writable_dirs_exact:
  assumes "cf_jailPath conf \<noteq> []" "getMinPrisoner conf + 2 \<le> getMaxPrisoner conf" "W = set (findWritableDirsInJail conf (Some entries))"
  shows "(\<forall>p i u. dir_below entries p i \<longrightarrow> u \<in> prisoners conf \<longrightarrow> may_write u (insert u kept) i \<longrightarrow>
      (\<exists>w \<in> W. \<exists>r. p = w @ r \<and> (r = [] \<or> hd r = CHR ''/'')) \<or> st_gid i \<in> kept \<and> odd (st_mode i div 16)) \<and>
    (\<forall>w \<in> W. \<exists>i. dir_below entries w i \<and> ((\<exists>u \<in> prisoners conf. may_write u {u} i) \<or>
      st_uid i = st_gid i \<and> even (st_mode i div 128) \<and> odd (st_mode i div 16) \<and> even (st_mode i div 2)))"
proof -
  have W: "W = set (writable_entries conf (cf_jailPath conf) entries)"
    using assms by (simp add: findWritableDirsInJail_def getWritableDirsInDir_def)
  have "\<exists>w \<in> W. \<exists>r. p = w @ r \<and> (r = [] \<or> hd r = CHR ''/'')" if "dir_below entries p i" "prisoner_writes conf i" for p i
    using writable_covered [OF that, of "cf_jailPath conf"] unfolding W by simp
  moreover have "\<exists>i. dir_below entries w i \<and> prisoner_writes conf i" if "w \<in> W" for w
    using writable_found(2) [OF that [unfolded W]] by auto
  ultimately show ?thesis using may_write_is_found [of _ conf kept] found_may_write [OF _ assms(2)] by meson
qed

definition demo_tree :: "(string \<times> jail_entry) list" where
  "demo_tree = [(''.'', NoDirectory), (''tmp'', Directory \<lparr>st_uid = 0, st_gid = 0, st_mode = 511\<rparr> (Some [])),
     (''mine'', Directory \<lparr>st_uid = 10005, st_gid = 0, st_mode = 448\<rparr> (Some [])),
     (''var'', Directory \<lparr>st_uid = 0, st_gid = 0, st_mode = 493\<rparr> (Some [(''lock'', Directory \<lparr>st_uid = 0, st_gid = 0, st_mode = 511\<rparr> None)]))]"

text \<open>The directory of one prisoner only is listed, and so is what that prisoner may write.\<close>

theorem writable_dirs_exact_witness:
  "findWritableDirsInJail sample_configuration (Some demo_tree) = [''/tmp'', ''/mine'', ''/var/lock''] \<and>
    may_write 10005 {10005} \<lparr>st_uid = 10005, st_gid = 0, st_mode = 448\<rparr> \<and>
    (\<exists>w \<in> {''/tmp'', ''/mine'', ''/var/lock''}. \<exists>r. ''/mine'' = w @ r) \<and>
    (\<exists>i. dir_below demo_tree ''/var/lock'' i)"
proof -
  have f: "findWritableDirsInJail sample_configuration (Some demo_tree) = [''/tmp'', ''/mine'', ''/var/lock'']" by code_simp
  have c: "cf_jailPath sample_configuration \<noteq> []" "getMinPrisoner sample_configuration + 2 \<le> getMaxPrisoner sample_configuration"
    "10005 \<in> prisoners sample_configuration"
    by (simp_all add: sample_configuration_def prisoners_def getMinPrisoner_def getMaxPrisoner_def)
  have m: "may_write 10005 {10005} \<lparr>st_uid = 10005, st_gid = 0, st_mode = 448\<rparr>" by (simp add: may_write_def)
  have b: "dir_below demo_tree ''/mine'' \<lparr>st_uid = 10005, st_gid = 0, st_mode = 448\<rparr>"
    using below(1) [of "''mine''" "\<lparr>st_uid = 10005, st_gid = 0, st_mode = 448\<rparr>" "Some []" demo_tree] by (simp add: demo_tree_def)
  note t = writable_dirs_exact [OF c(1,2) refl, of demo_tree "{}", unfolded f]
  from t b c(3) m have "\<exists>w \<in> set [''/tmp'', ''/mine'', ''/var/lock'']. \<exists>r. ''/mine'' = w @ r" by fastforce
  with t f m show ?thesis by auto
qed

end
