(* ===== verification/Main_Program.thy ===== *)
theory Main_Program
  imports Daemon Logs_Locks Writable_Dirs
begin

text \<open>
  \<open>main\<close> and the class \<open>Main\<close> (main.cpp): the arguments, whether the server runs in a container, becoming a daemon, waiting for the
  jail, the warnings about an insecure configuration, and the status the process ends with. What the system answers is an
  argument. Proved: the server runs only where its jail says, the status tells how it ended, the private addresses are
  those of the standards, and the warnings are given exactly for the configurations that deserve them, whatever the level of the log.
\<close>

section \<open>Arguments\<close>

record arguments =
  ag_foreground :: bool
  ag_inContainer :: bool
  ag_version :: bool

text \<open>The arguments after the first; the version is asked for as soon as it is met.\<close>

fun read_arguments :: "string list \<Rightarrow> arguments \<Rightarrow> arguments" where
  "read_arguments [] g = g"
| "read_arguments (arg # args) g = (let
     g = (if arg = ''foreground'' then g\<lparr>ag_foreground := True\<rparr> else g);
     g = (if arg = ''in_container'' then g\<lparr>ag_inContainer := True\<rparr> else g) in
     if arg = ''version'' \<or> arg = ''-version'' then g\<lparr>ag_version := True\<rparr> else read_arguments args g)"

definition no_arguments :: arguments where
  "no_arguments = \<lparr>ag_foreground = False, ag_inContainer = False, ag_version = False\<rparr>"

section \<open>Containers\<close>

text \<open>The lines of the files that are looked at, none for a file that is not there, and whether \<open>/.dockerenv\<close> is.\<close>

record host_files =
  hf_mounts :: "string list"
  hf_mountinfo :: "string list"
  hf_cgroup :: "string list"
  hf_sched :: "string list"
  hf_dockerenv :: bool

definition overlay_mount :: "string \<Rightarrow> bool" where
  "overlay_mount line \<longleftrightarrow> is_prefix ''overlay / overlay'' line"

definition overlay_root :: "string \<Rightarrow> bool" where
  "overlay_root line \<longleftrightarrow> contains_str line '' / / '' \<and> contains_str line ''overlay''"

definition container_group :: "string \<Rightarrow> bool" where
  "container_group line \<longleftrightarrow> contains_str line ''docker'' \<or> contains_str line ''lxc'' \<or> contains_str line ''kubepods'' \<or>
     contains_str line ''libpod''"

definition isInContainer :: "host_files \<Rightarrow> bool" where
  "isInContainer h = (if list_ex overlay_mount (hf_mounts h) then True
     else if list_ex overlay_root (hf_mountinfo h) then True
     else if list_ex container_group (hf_cgroup h) then True
     else if (case hf_sched h of [] \<Rightarrow> False | line # _ \<Rightarrow> \<not> contains_str line ''init'' \<and> \<not> contains_str line ''systemd'') then True
     else hf_dockerenv h)"

definition detectContainerMode :: "host_files \<Rightarrow> string \<Rightarrow> bool" where
  "detectContainerMode h path = (if path \<noteq> [] then False else isInContainer h)"

section \<open>Addresses\<close>

text \<open>\<open>ntohl\<close>: the first byte of an address becomes the highest.\<close>

definition ntohl :: "32 word \<Rightarrow> 32 word" where
  "ntohl a = word_of_nat (ip_byte a 0 * 2 ^ 24 + ip_byte a 1 * 2 ^ 16 + ip_byte a 2 * 2 ^ 8 + ip_byte a 3)"

definition isPrivateIPv4 :: "32 word \<Rightarrow> bool" where
  "isPrivateIPv4 addr = (let ip = ntohl addr in
     if drop_bit 24 ip = 10 then True
     else if drop_bit 20 ip = 0xAC1 then True
     else if drop_bit 16 ip = 0xC0A8 then True
     else if drop_bit 24 ip = 127 then True
     else False)"

text \<open>
  The interfaces, each with its address if it has one of this family: whether some interface is no loopback, and whether one that
  is not has a public address.
\<close>

fun scan_interfaces :: "32 word option list \<Rightarrow> bool \<Rightarrow> bool \<times> bool" where
  "scan_interfaces [] hasNonLoopback = (hasNonLoopback, False)"
| "scan_interfaces (None # rest) hasNonLoopback = scan_interfaces rest hasNonLoopback"
| "scan_interfaces (Some a # rest) hasNonLoopback = (if drop_bit 24 (ntohl a) = 127 then scan_interfaces rest hasNonLoopback
     else if \<not> isPrivateIPv4 a then (True, True)
     else scan_interfaces rest True)"

definition private_message :: string where
  "private_message = ''Server is on a private network and not directly accessible from the internet.''"

text \<open>The level that the warning needs is not put back.\<close>

definition checkPrivateNetwork :: "string + 32 word option list \<Rightarrow> logger \<Rightarrow> logger" where
  "checkPrivateNetwork interfaces lg = (case interfaces of
      Inl errno \<Rightarrow> logger_log LOG_WARNING (''Unable to get network interfaces: '' @ errno) lg
    | Inr as \<Rightarrow> (case scan_interfaces as False of (hasNonLoopback, hasPublicIP) \<Rightarrow>
        if hasNonLoopback \<and> \<not> hasPublicIP
        then logger_log LOG_WARNING private_message (if lo_level lg < LOG_WARNING then setLogLevel LOG_WARNING (lo_foreground lg) lg else lg)
        else lg))"

section \<open>Warnings\<close>

definition default_url_message :: string where
  "default_url_message = ''URLPATH is set to the insecure default '' @ [squote] @ ''/'' @ [squote] @ ''. URLPATH acts as a password to accept tasks.'' @ [lf] @
     ''Without it, any Moodle or similar system can send task requests to this server.''"

definition plain_port_message :: string where
  "plain_port_message = ''URLPATH is set but unciphered port (HTTP) is enabled.'' @ [lf] @
     ''URLPATH is transmitted over HTTP from Moodle to this server and can be intercepted on the network.''"

definition any_server_message :: string where
  "any_server_message = ''TASK_ONLY_FROM is not set. Task requests are not restricted to servers'' @ [lf] @ ''with predefined (allowed) IP addresses.''"

definition improve_message :: string where
  "improve_message = ''Improve the security configuration: set URLPATH, TASK_ONLY_FROM, and PORT=0.'' @ [lf] @ ''See manual at https://vpl.dis.ulpgc.es/''"

definition security_warnings :: "configuration \<Rightarrow> string list" where
  "security_warnings conf = (let
     default_url = (cf_URLPath conf = ''/''); plain = (cf_URLPath conf \<noteq> ''/'' \<and> cf_port conf \<noteq> 0); insecure = (default_url \<or> plain) in
     (if default_url then [default_url_message] else []) @ (if plain then [plain_port_message] else []) @
     (if insecure \<and> cf_taskOnlyFrom conf = [] then [any_server_message] else []) @ (if insecure then [improve_message] else []))"

definition checkSecurityConfiguration :: "configuration \<Rightarrow> logger \<Rightarrow> logger" where
  "checkSecurityConfiguration conf lg0 = (let logLevel = lo_level lg0; foreground = lo_foreground lg0;
       logNeedAdapted = (logLevel < LOG_WARNING \<or> \<not> foreground);
       lg = (if logNeedAdapted then setLogLevel LOG_WARNING True lg0 else lg0);
       lg = fold (logger_log LOG_WARNING) (security_warnings conf) lg in
     if logNeedAdapted then setLogLevel logLevel foreground lg else lg)"

text \<open>What the control groups are found to be: not available, or their version and base.\<close>

definition checkCgroupAvailability :: "(bool \<times> string) option \<Rightarrow> configuration \<Rightarrow> logger \<Rightarrow> logger" where
  "checkCgroupAvailability available conf =
     (if \<not> cf_useCgroup conf then logger_log LOG_NOTICE ''Cgroup use is disabled by configuration (USE_CGROUP)''
      else case available of
        Some (v2, base) \<Rightarrow> logger_log LOG_NOTICE (''Cgroup '' @ (if v2 then ''v2'' else ''v1'') @ '' available at '' @ [squote] @ base @ [squote])
      | None \<Rightarrow> logger_log LOG_WARNING (''Cgroup hierarchy unavailable: tasks will run without cgroup memory control. Mount a writable '' @
          ''cgroup filesystem (e.g. run the container with --privileged or -v /sys/fs/cgroup:/sys/fs/cgroup:rw)''))"

section \<open>Becoming a daemon\<close>

text \<open>The file of the process number is written in three steps, each of which may fail.\<close>

record pid_env =
  pf_opens :: bool
  pf_prints :: bool
  pf_closes :: bool

definition write_pid :: "pid_env \<Rightarrow> unit outcome" where
  "write_pid e = (if \<not> pf_opens e then ProcessEnds 1 else if \<not> pf_prints e then ProcessEnds 1
     else if \<not> pf_closes e then ProcessEnds 1 else GoesOn ())"

text \<open>What a process meets: the two \<open>fork\<close>s, \<open>setsid\<close>, and what \<open>writeFile\<close> throws and leaves.\<close>

record daemon_env =
  de_fork1 :: int
  de_setsid :: bool
  de_fork2 :: int
  de_throws :: "exn option"
  de_written :: bool
  de_pid :: pid_env

definition daemonize :: "daemon_env \<Rightarrow> unit outcome result" where
  "daemonize e =
     (if de_fork1 e < 0 then Inr (ProcessEnds 1)
      else if de_fork1 e > 0 then Inr (ProcessEnds 0)
      else if \<not> de_setsid e then Inr (ProcessEnds 1)
      else if de_fork2 e < 0 then Inr (ProcessEnds 1)
      else if de_fork2 e > 0 then Inr (ProcessEnds 0)
      else case de_throws e of
        Some x \<Rightarrow> Inl x
      | None \<Rightarrow> if \<not> de_written e then Inr (ProcessEnds 1) else Inr (write_pid (de_pid e)))"

text \<open>Three hundred looks, a tenth of a second apart; \<open>there k\<close> is the answer of the \<open>k\<close>-th.\<close>

primrec wait_ready_file :: "nat \<Rightarrow> (nat \<Rightarrow> bool) \<Rightarrow> nat \<Rightarrow> unit outcome" where
  "wait_ready_file 0 there k = ProcessEnds 1"
| "wait_ready_file (Suc n) there k = (if there k then GoesOn () else wait_ready_file n there (Suc k))"

definition waitReadyFile :: "(nat \<Rightarrow> bool) \<Rightarrow> unit outcome" where
  "waitReadyFile there = wait_ready_file 300 there 0"

section \<open>The program\<close>

text \<open>\<open>Configuration()\<close>: the file is checked before it is read.\<close>

definition newConfiguration :: "(string \<Rightarrow> string) \<Rightarrow> file_stat option \<Rightarrow> string option \<Rightarrow> configuration result" where
  "newConfiguration getenv info file = (let configPath = ''/etc/vpl/vpl-jail-system.conf'' in
     bind_result (checkConfigFile info configPath ''Config file'') (\<lambda>_. readConfigFile getenv configPath file))"

text \<open>Everything the program meets from its start.\<close>

record main_env =
  me_getenv :: "string \<Rightarrow> string"
  me_confStat :: "file_stat option"
  me_confFile :: "string option"
  me_confAgain :: "string option"
  me_host :: host_files
  me_daemon :: daemon_env
  me_foreground :: pid_env
  me_ready :: "nat \<Rightarrow> bool"
  me_jail :: "(string \<times> jail_entry) list option"
  me_interfaces :: "string + 32 word option list"
  me_cgroup :: "(bool \<times> string) option"
  me_start :: start_env
  me_rounds :: "server_round list"

text \<open>The end of the program: a status, or an exception that nobody catches.\<close>

datatype main_end = Exits int | Aborts exn

definition exception_status :: "exn \<Rightarrow> int" where
  "exception_status e = (case e of HttpExn c m l \<Rightarrow> exit_code ExitHttpError | TaskCleaning \<Rightarrow> exit_code ExitHttpError | _ \<Rightarrow> 1)"

definition daemon_status :: "daemon outcome result \<Rightarrow> main_end" where
  "daemon_status v = (case v of
      Inl (UndefinedBehaviour w) \<Rightarrow> Aborts (UndefinedBehaviour w)
    | Inl e \<Rightarrow> Exits (exception_status e)
    | Inr (ProcessEnds n) \<Rightarrow> Exits n
    | Inr (GoesOn d) \<Rightarrow> Exits 0)"

definition run_server :: "main_env \<Rightarrow> configuration \<Rightarrow> main_end option" where
  "run_server e conf = (case newDaemon (me_start e) conf of
      Inr (GoesOn d) \<Rightarrow> map_option daemon_status (daemon_loop (me_rounds e) d)
    | v \<Rightarrow> Some (daemon_status v))"

text \<open>Where the log shows what it says, the configuration is read again.\<close>

definition reread :: "main_env \<Rightarrow> configuration \<Rightarrow> configuration result" where
  "reread e conf = (if cf_logLevel conf \<ge> LOG_INFO then readConfigFile (me_getenv e) ''/etc/vpl/vpl-jail-system.conf'' (me_confAgain e)
     else Inr conf)"

definition main_background :: "main_env \<Rightarrow> arguments \<Rightarrow> unit outcome result" where
  "main_background e g = (if ag_foreground g then Inr (write_pid (me_foreground e)) else daemonize (me_daemon e))"

definition main_program :: "main_env \<Rightarrow> string list \<Rightarrow> main_end option" where
  "main_program e args = (let g = read_arguments args no_arguments in
     if ag_version g then Some (Exits 0)
     else case newConfiguration (me_getenv e) (me_confStat e) (me_confFile e) of
       Inl x \<Rightarrow> Some (Aborts x)
     | Inr conf \<Rightarrow> (let runningInContainer = (detectContainerMode (me_host e) (cf_jailPath conf) \<or> ag_inContainer g) in
         if cf_jailPath conf = [] \<and> \<not> runningInContainer then Some (Exits 1)
         else if cf_jailPath conf \<noteq> [] \<and> runningInContainer then Some (Exits 1)
         else case main_background e g of
           Inl x \<Rightarrow> Some (Aborts x)
         | Inr (ProcessEnds n) \<Rightarrow> Some (Exits n)
         | Inr (GoesOn u) \<Rightarrow> (case waitReadyFile (me_ready e) of
             ProcessEnds n \<Rightarrow> Some (Exits n)
           | GoesOn u \<Rightarrow> (case reread e conf of
               Inl x \<Rightarrow> Some (Aborts x)
             | Inr conf \<Rightarrow> run_server e conf))))"

text \<open>What the checks before the server say.\<close>

definition main_checks :: "main_env \<Rightarrow> configuration \<Rightarrow> logger \<Rightarrow> logger" where
  "main_checks e conf lg = checkCgroupAvailability (me_cgroup e) conf (checkPrivateNetwork (me_interfaces e) (checkSecurityConfiguration conf lg))"

section \<open>Addresses of the standards\<close>

lemma ip_byte_less: "ip_byte a k < 256"
proof -
  have "and (drop_bit (8 * k) a) 0xff \<le> (0xff :: 32 word)" by (rule word_and_le1)
  then have "unat (and (drop_bit (8 * k) a) 0xff) \<le> unat (0xff :: 32 word)" by (simp add: word_le_nat_alt)
  then show ?thesis by (simp add: ip_byte_def)
qed

lemma unat_of_small: "n < 2 ^ 32 \<Longrightarrow> unat (word_of_nat n :: 32 word) = n"
  by (simp add: unsigned_of_nat take_bit_nat_eq_self)

lemma ntohl_parts:
  "unat (drop_bit 24 (ntohl a)) = ip_byte a 0"
  "unat (drop_bit 20 (ntohl a)) = ip_byte a 0 * 16 + ip_byte a 1 div 16"
  "unat (drop_bit 16 (ntohl a)) = ip_byte a 0 * 256 + ip_byte a 1"
proof -
  let ?b = "ip_byte a" and ?n = "ip_byte a 0 * 2 ^ 24 + ip_byte a 1 * 2 ^ 16 + ip_byte a 2 * 2 ^ 8 + ip_byte a 3"
  note b = ip_byte_less [of a 0] ip_byte_less [of a 1] ip_byte_less [of a 2] ip_byte_less [of a 3]
  have "?n < 2 ^ 32" using b by simp
  then have u: "unat (ntohl a) = ?n" unfolding ntohl_def by (rule unat_of_small)
  have dr: "unat (drop_bit k w) = unat w div 2 ^ k" for k and w :: "32 word" by (rule trans [OF unat_drop_bit_eq drop_bit_eq_div])
  have d: "?n div 2 ^ 24 = ?b 0" "?n div 2 ^ 16 = ?b 0 * 256 + ?b 1" using b by (intro div_nat_eqI; simp)+
  have "?n div 2 ^ 20 = (?n div 2 ^ 16) div 16" by (simp add: div_mult2_eq [symmetric])
  also have "\<dots> = ?b 0 * 16 + ?b 1 div 16" unfolding d(2) by simp
  finally show "unat (drop_bit 24 (ntohl a)) = ?b 0" "unat (drop_bit 20 (ntohl a)) = ?b 0 * 16 + ?b 1 div 16"
    "unat (drop_bit 16 (ntohl a)) = ?b 0 * 256 + ?b 1"
    unfolding dr u using d by simp_all
qed

lemma word_eq_unat: "w = v \<longleftrightarrow> unat w = unat v" for w v :: "32 word"
  by (simp add: word_unat_eq_iff)

text \<open>The blocks for private use (RFC 1918) and the loopback block, by the bytes of an address.\<close>

definition private_block :: "nat \<Rightarrow> nat \<Rightarrow> bool" where
  "private_block b0 b1 \<longleftrightarrow> b0 = 10 \<or> b0 = 172 \<and> 16 \<le> b1 \<and> b1 \<le> 31 \<or> b0 = 192 \<and> b1 = 168 \<or> b0 = 127"

text \<open>
  An address counts as private exactly when it is in one of the blocks 10/8, 172.16/12, 192.168/16 or 127/8.
\<close>

theorem private_addresses_exact:
  "isPrivateIPv4 a \<longleftrightarrow> private_block (ip_byte a 0) (ip_byte a 1)"
proof -
  have small: "ip_byte a 1 div 16 < 16" using ip_byte_less [of a 1] by simp
  have "x * 16 + z = 2753 \<longleftrightarrow> x = 172 \<and> z = 1" if "z < 16" for x z :: nat using that by arith
  moreover have "y div 16 = 1 \<longleftrightarrow> 16 \<le> y \<and> y \<le> 31" for y :: nat by arith
  ultimately have "ip_byte a 0 * 16 + ip_byte a 1 div 16 = 2753 \<longleftrightarrow> ip_byte a 0 = 172 \<and> 16 \<le> ip_byte a 1 \<and> ip_byte a 1 \<le> 31"
    using small by simp
  moreover have "x * 256 + z = 49320 \<longleftrightarrow> x = 192 \<and> z = 168" if "z < 256" for x z :: nat using that by arith
  then have "ip_byte a 0 * 256 + ip_byte a 1 = 49320 \<longleftrightarrow> ip_byte a 0 = 192 \<and> ip_byte a 1 = 168"
    using ip_byte_less [of a 1] by simp
  ultimately show ?thesis
    by (auto simp: isPrivateIPv4_def Let_def word_eq_unat ntohl_parts private_block_def)
qed

section \<open>Warnings\<close>

lemma warning_texts: "w \<in> set (security_warnings conf) \<Longrightarrow> c_str w = w \<and> length w \<le> 999"
proof -
  have "\<forall>w \<in> {default_url_message, plain_port_message, any_server_message, improve_message}. c_str w = w \<and> length w \<le> 999" by code_simp
  then show "w \<in> set (security_warnings conf) \<Longrightarrow> c_str w = w \<and> length w \<le> 999"
    by (auto simp: security_warnings_def Let_def split: if_splits)
qed

lemma log_all:
  "lo_level lg \<ge> LOG_WARNING \<Longrightarrow> lo_foreground lg \<Longrightarrow> \<forall>w \<in> set ws. c_str w = w \<and> length w \<le> 999 \<Longrightarrow>
    fold (logger_log LOG_WARNING) ws lg = lg\<lparr>lo_syslog := lo_syslog lg @ map (Pair LOG_WARNING) ws, lo_shown := lo_shown lg @ map (Pair LOG_WARNING) ws\<rparr>"
  by (induction ws arbitrary: lg) (auto simp: logger_log_def LOG_WARNING_def Let_def)

lemma setLogLevel_4: "setLogLevel LOG_WARNING True lg = lg\<lparr>lo_foreground := True, lo_trace := False, lo_level := LOG_WARNING\<rparr>"
  by (simp add: setLogLevel_def logger_log_def LOG_WARNING_def LOG_INFO_def)

lemma setLogLevel_back:
  "\<exists>added. lo_syslog (setLogLevel l f lg) = lo_syslog lg @ added \<and> lo_shown (setLogLevel l f lg) = lo_shown lg @ (if f then added else [])"
  "lo_foreground (setLogLevel l f lg) = f" "0 \<le> l \<Longrightarrow> l \<le> 7 \<Longrightarrow> lo_level (setLogLevel l f lg) = l"
  by (auto simp: setLogLevel_def logger_log_def Let_def)

text \<open>
  The warnings about an insecure configuration are logged and shown whatever the level of the log and wherever the server
  runs, each whole, and the log is as before afterwards; there is none exactly for a path of its own and no plain port.
\<close>

theorem security_warnings_given:
  assumes "0 \<le> lo_level lg" "lo_level lg \<le> 7" "lg' = checkSecurityConfiguration conf lg" "said = map (Pair LOG_WARNING) (security_warnings conf)"
  shows "lo_level lg' = lo_level lg \<and> lo_foreground lg' = lo_foreground lg \<and>
    (\<exists>after. lo_syslog lg' = lo_syslog lg @ said @ after) \<and> (\<exists>after. lo_shown lg' = lo_shown lg @ said @ after) \<and>
    (said = [] \<longleftrightarrow> cf_URLPath conf \<noteq> ''/'' \<and> cf_port conf = 0)"
proof -
  have none: "said = [] \<longleftrightarrow> cf_URLPath conf \<noteq> ''/'' \<and> cf_port conf = 0"
    unfolding assms(4) by (auto simp: security_warnings_def Let_def)
  have texts: "\<forall>w \<in> set (security_warnings conf). c_str w = w \<and> length w \<le> 999" using warning_texts by blast
  show ?thesis
  proof (cases "lo_level lg < LOG_WARNING \<or> \<not> lo_foreground lg")
    case True
    let ?lg = "lg\<lparr>lo_foreground := True, lo_trace := False, lo_level := LOG_WARNING\<rparr>"
    have "lg' = setLogLevel (lo_level lg) (lo_foreground lg) (?lg\<lparr>lo_syslog := lo_syslog lg @ said, lo_shown := lo_shown lg @ said\<rparr>)"
      using True log_all [OF _ _ texts, of ?lg] by (simp add: assms(3,4) checkSecurityConfiguration_def Let_def setLogLevel_4)
    then show ?thesis using setLogLevel_back [of "lo_level lg" "lo_foreground lg" "?lg\<lparr>lo_syslog := lo_syslog lg @ said, lo_shown := lo_shown lg @ said\<rparr>"] assms(1,2) none
      by auto
  next
    case False
    then have "lg' = lg\<lparr>lo_syslog := lo_syslog lg @ said, lo_shown := lo_shown lg @ said\<rparr>"
      using log_all [OF _ _ texts, of lg] by (simp add: assms(3,4) checkSecurityConfiguration_def Let_def)
    then show ?thesis using none by simp
  qed
qed

theorem security_warnings_given_witness:
  "\<exists>after. lo_shown (checkSecurityConfiguration sample_configuration new_logger) = map (Pair LOG_WARNING) (security_warnings sample_configuration) @ after"
  using security_warnings_given [OF _ _ refl refl, of new_logger sample_configuration] by (auto simp: new_logger_def)

lemma wait_ends_1: "wait_ready_file n there k = ProcessEnds m \<Longrightarrow> m = 1"
  by (induction n arbitrary: k) (auto split: if_splits)

lemma newDaemon_ends_1: "newDaemon e conf = Inr (ProcessEnds m) \<Longrightarrow> m = 1"
  by (auto simp: newDaemon_def initSocketServer_def newSSLBase_def bind_result_Inr_iff Let_def renewal_ends_iff
      split: outcome.splits if_splits)

lemma daemon_status_0: "daemon_status v = Exits 0 \<longleftrightarrow> v = Inr (ProcessEnds 0) \<or> (\<exists>d. v = Inr (GoesOn d))"
  by (auto simp: daemon_status_def exception_status_def split: sum.splits outcome.splits exn.splits)

lemma loop_ends_1: "daemon_loop rs d = Some (Inr (ProcessEnds m)) \<Longrightarrow> m = 1"
proof (induction rs d rule: daemon_loop.induct)
  case (2 r rs d)
  then show ?case
    by (auto simp: periodicTasks_def renewal_ends_iff split: if_splits sum.splits option.splits outcome.splits)
qed simp

section \<open>The end of the program\<close>

text \<open>
  In the foreground the program ends with success, if not asked for its version, only when a server made by its
  configuration was asked to stop, in a container if the jail is the whole system and outside one otherwise; where the jail and
  the container do not agree, it ends with a failure before anything else is done.
\<close>

theorem main_status_truthful:
  assumes "g = read_arguments args no_arguments" "\<not> ag_version g" "newConfiguration (me_getenv e) (me_confStat e) (me_confFile e) = Inr conf"
    and "inside = (detectContainerMode (me_host e) (cf_jailPath conf) \<or> ag_inContainer g)"
  shows "((cf_jailPath conf = []) \<noteq> inside \<longrightarrow> main_program e args = Some (Exits 1)) \<and>
    (ag_foreground g \<longrightarrow> main_program e args = Some (Exits 0) \<longrightarrow> (cf_jailPath conf = []) = inside \<and>
      (\<exists>c d d'. reread e conf = Inr c \<and> newDaemon (me_start e) c = Inr (GoesOn d) \<and> daemon_loop (me_rounds e) d = Some (Inr (GoesOn d'))))"
proof -
  have one: "write_pid p \<noteq> ProcessEnds 0" "waitReadyFile f \<noteq> ProcessEnds 0" "newDaemon m c \<noteq> Inr (ProcessEnds 0)"
      "daemon_loop rs d \<noteq> Some (Inr (ProcessEnds 0))" for p f m c rs d
    using wait_ends_1 [of 300 f 0 0] newDaemon_ends_1 [of m c 0] loop_ends_1 [of rs d 0] by (auto simp: write_pid_def waitReadyFile_def)
  have ran: "\<exists>d d'. newDaemon (me_start e) c = Inr (GoesOn d) \<and> daemon_loop (me_rounds e) d = Some (Inr (GoesOn d'))"
    if "run_server e c = Some (Exits 0)" for c
  proof -
    have "newDaemon (me_start e) c \<noteq> Inr (ProcessEnds 0)" "daemon_loop (me_rounds e) d \<noteq> Some (Inr (ProcessEnds 0))" for d
      using one by blast+
    with that show ?thesis
      by (cases "newDaemon (me_start e) c") (auto simp: run_server_def daemon_status_0 split: outcome.splits)
  qed
  show ?thesis
  proof (cases "(cf_jailPath conf = []) = inside")
    case False
    then show ?thesis using assms by (auto simp: main_program_def Let_def)
  next
    case True
    then have "main_program e args = (case main_background e g of
        Inl x \<Rightarrow> Some (Aborts x) | Inr (ProcessEnds n) \<Rightarrow> Some (Exits n)
      | Inr (GoesOn u) \<Rightarrow> (case waitReadyFile (me_ready e) of ProcessEnds n \<Rightarrow> Some (Exits n)
        | GoesOn u \<Rightarrow> (case reread e conf of Inl x \<Rightarrow> Some (Aborts x) | Inr conf \<Rightarrow> run_server e conf)))"
      using assms by (auto simp: main_program_def Let_def)
    then show ?thesis
      using True ran one(1,2)
      by (auto simp: main_background_def split: sum.splits outcome.splits)
  qed
qed

text \<open>A server of the whole system that is in a container by its argument, and asked to stop at once; and one that is in none.\<close>

definition demo_main :: main_env where
  "demo_main = \<lparr>me_getenv = (\<lambda>v. if v = ''VPL_JAIL_JAILPATH'' then ''/'' else []), me_confStat = Some \<lparr>st_uid = 0, st_gid = 0, st_mode = 384\<rparr>,
     me_confFile = Some [], me_confAgain = Some [],
     me_host = \<lparr>hf_mounts = [], hf_mountinfo = [], hf_cgroup = [''0::/''], hf_sched = [''systemd (1, #threads: 1)''], hf_dockerenv = False\<rparr>,
     me_daemon = \<lparr>de_fork1 = 0, de_setsid = True, de_fork2 = 0, de_throws = None, de_written = True,
       de_pid = \<lparr>pf_opens = True, pf_prints = True, pf_closes = True\<rparr>\<rparr>,
     me_foreground = \<lparr>pf_opens = True, pf_prints = True, pf_closes = True\<rparr>, me_ready = (\<lambda>k. k = 2), me_jail = None, me_interfaces = Inl [],
     me_cgroup = None, me_start = demo_start, me_rounds = [demo_last_round]\<rparr>"

lemma demo_configured:
  "\<exists>c. newConfiguration (me_getenv demo_main) (me_confStat demo_main) (me_confFile demo_main) = Inr c \<and> cf_jailPath c = []"
proof -
  let ?e = "me_getenv demo_main"
  define d where "d = readEnvironmentConfigVars ?e (add_defaults [] (configDefault []))"
  have i: "cd_index d k = (case cd_get (map (\<lambda>(k, v). (toUppercase k, v)) (configDefault [])) k of None \<Rightarrow> []
      | Some v \<Rightarrow> if k = ''JAILPATH'' then ''/'' else v)" for k
    by (simp add: cd_index_def cd_get_env cd_get_add_defaults d_def demo_main_def split: option.splits)
  have v: "cd_index d ''MIN_PRISONER_UGID'' = ''10000''" "cd_index d ''MAX_PRISONER_UGID'' = ''20000''"
     "cd_index d ''JAILPATH'' = ''/''" "cd_index d ''CONTROLPATH'' = ''/var/vpl-jail-system''"
    unfolding i by code_simp+
  have p: "correctPath ''/var/vpl-jail-system''" by code_simp
  have "char_of (48::nat) = CHR ''0''" "char_of (49::nat) = CHR ''1''" "char_of (50::nat) = CHR ''2''" by code_simp+
  then have "itos 10000 = ''10000''" "itos 20000 = ''20000''" by (simp_all add: itos_def nat_digits.simps)
  then have n: "c_atoi ''10000'' = 10000" "c_atoi ''20000'' = 20000" using c_atoi_itos [of 10000] c_atoi_itos [of 20000] by (simp_all add: int_max_def)
  have r: "prisoner_range d = Inr (10000, 20000)"
    unfolding prisoner_range_def v n to_uid_def jail_min_prisoner_uid_def jail_max_prisoner_uid_def Let_def by simp
  have c: "config_paths d = Inr ([], ''/var/vpl-jail-system'')"
    using p by (simp add: config_paths_def v absolute_path_def path_sep_def)
  have f: "checkConfigFile (me_confStat demo_main) f m = Inr ()" for f m
  proof -
    have "and (384::nat) 63 = 0" by code_simp
    then show ?thesis by (simp add: checkConfigFile_def demo_main_def)
  qed
  have e: "?e ''PATH'' = []" "me_confFile demo_main = Some []" by (simp_all add: demo_main_def)
  have "\<exists>c. readConfigFile ?e q (Some []) = Inr c \<and> cf_jailPath c = []" for q
    using r c unfolding readConfigFile_def readConfiguration_def e(1) d_def by (simp add: Let_def)
  then show ?thesis unfolding newConfiguration_def f e(2) Let_def by simp
qed

theorem main_status_truthful_witness:
  "main_program demo_main [''foreground''] = Some (Exits 1)"
proof -
  obtain c where c: "newConfiguration (me_getenv demo_main) (me_confStat demo_main) (me_confFile demo_main) = Inr c" "cf_jailPath c = []"
    using demo_configured by blast
  have "\<not> isInContainer (me_host demo_main)" by code_simp
  moreover have "\<not> ag_version (read_arguments [''foreground''] no_arguments)" "\<not> ag_inContainer (read_arguments [''foreground''] no_arguments)"
    by code_simp+
  ultimately show ?thesis using main_status_truthful [OF refl _ c(1) refl, of "[''foreground'']"] c(2) by (simp add: detectContainerMode_def)
qed

end
