(* ===== verification/Files.thy ===== *)
theory Files
  imports Paths
begin

text \<open>
  The file operations of \<open>Util\<close> (util.h) over the calls of the kernel: making directories, opening a file under a trusted
  prefix, writing, reading, deleting, and removing a tree. The server does them as root in directories where prisoners make links
  as they like, so what matters is where they end. The system of files is a graph of inodes, with links; any call may fail.
  The last section has what is below a directory, and where a search of the kernel may end.
\<close>

section \<open>Inodes and names\<close>

record attr =
  at_uid :: int
  at_gid :: int
  at_mode :: nat

text \<open>A directory has its parent and its entries; a link, its text, and an owner of its own.\<close>

datatype inode = Dir attr nat "(string \<times> nat) list" | Reg attr string | Symlink attr string | Special attr

text \<open>
  The calls are numbered as they are made; \<open>fs_fault k\<close> says that the \<open>k\<close>-th fails, for whatever reason. The numbers of inodes from
  \<open>fs_next\<close> on are free.
\<close>

record fsys =
  fs_node :: "nat \<Rightarrow> inode option"
  fs_next :: nat
  fs_root :: nat
  fs_cwd :: nat
  fs_fault :: "nat \<Rightarrow> bool"
  fs_calls :: nat

type_synonym 'a fop = "fsys \<Rightarrow> fsys \<times> 'a option"

definition syscall :: "'a fop \<Rightarrow> 'a fop" where
  "syscall f fs = (let fs' = fs\<lparr>fs_calls := Suc (fs_calls fs)\<rparr> in if fs_fault fs (fs_calls fs) then (fs', None) else f fs')"

definition fop_bind :: "'a fop \<Rightarrow> ('a \<Rightarrow> 'b fop) \<Rightarrow> 'b fop" where
  "fop_bind m k fs = (case m fs of (fs, None) \<Rightarrow> (fs, None) | (fs, Some x) \<Rightarrow> k x fs)"

definition set_node :: "nat \<Rightarrow> inode \<Rightarrow> fsys \<Rightarrow> fsys" where
  "set_node i v fs = fs\<lparr>fs_node := (fs_node fs)(i := Some v)\<rparr>"

definition is_dir :: "fsys \<Rightarrow> nat \<Rightarrow> bool" where
  "is_dir fs i \<longleftrightarrow> (case fs_node fs i of Some (Dir a p es) \<Rightarrow> True | _ \<Rightarrow> False)"

definition entries_of :: "fsys \<Rightarrow> nat \<Rightarrow> (string \<times> nat) list" where
  "entries_of fs d = (case fs_node fs d of Some (Dir a p es) \<Rightarrow> es | _ \<Rightarrow> [])"

definition entry :: "fsys \<Rightarrow> nat \<Rightarrow> string \<Rightarrow> nat option" where
  "entry fs d name = map_of (entries_of fs d) name"

definition parent_of :: "fsys \<Rightarrow> nat \<Rightarrow> nat" where
  "parent_of fs d = (case fs_node fs d of Some (Dir a p es) \<Rightarrow> p | _ \<Rightarrow> d)"

definition link_of :: "fsys \<Rightarrow> nat \<Rightarrow> string option" where
  "link_of fs i = (case fs_node fs i of Some (Symlink a t) \<Rightarrow> Some t | _ \<Rightarrow> None)"

definition attr_of :: "inode \<Rightarrow> attr" where
  "attr_of v = (case v of Dir a p es \<Rightarrow> a | Reg a c \<Rightarrow> a | Symlink a t \<Rightarrow> a | Special a \<Rightarrow> a)"

text \<open>The components of a path, each with the position of the separator after it; the empty ones are passed over.\<close>

fun path_parts :: "nat \<Rightarrow> string \<Rightarrow> string \<Rightarrow> (string \<times> nat) list" where
  "path_parts i cur [] = [(rev cur, i)]"
| "path_parts i cur (c # cs) = (if c = path_sep then (rev cur, i) # path_parts (Suc i) [] cs else path_parts (Suc i) (c # cur) cs)"

definition parts :: "string \<Rightarrow> (string \<times> nat) list" where
  "parts path = filter (\<lambda>(n, sep). n \<noteq> []) (path_parts 0 [] path)"

definition names :: "string \<Rightarrow> string list" where "names path = map fst (parts path)"

definition is_absolute :: "string \<Rightarrow> bool" where
  "is_absolute path \<longleftrightarrow> path \<noteq> [] \<and> hd path = path_sep"

definition start_dir :: "fsys \<Rightarrow> string \<Rightarrow> nat" where
  "start_dir fs path = (if is_absolute path then fs_root fs else fs_cwd fs)"

section \<open>The kernel's search for a path\<close>

text \<open>
  What a search ends with: an inode, a name that is missing in a directory, or nothing. Links are followed, forty at most; the one
  at the end only if \<open>follow\<close>. \<open>beneath\<close> is the search of \<open>openat2\<close> with \<open>RESOLVE_BENEATH\<close>: it may not leave the directory \<open>base\<close>, by
  its parent or by an absolute link.
\<close>

datatype found = Found nat | Absent nat string | Broken

function walk :: "bool \<Rightarrow> bool \<Rightarrow> nat \<Rightarrow> fsys \<Rightarrow> nat \<Rightarrow> nat \<Rightarrow> string list \<Rightarrow> found" where
  "walk beneath follow n fs base d [] = Found d"
| "walk beneath follow n fs base d (c # cs) =
     (if \<not> is_dir fs d then Broken
      else if c = ''.'' then walk beneath follow n fs base d cs
      else if c = ''..'' then (if beneath \<and> d = base then Broken else walk beneath follow n fs base (parent_of fs d) cs)
      else case entry fs d c of
        None \<Rightarrow> if cs = [] then Absent d c else Broken
      | Some i \<Rightarrow> (case link_of fs i of
          None \<Rightarrow> walk beneath follow n fs base i cs
        | Some t \<Rightarrow> if cs = [] \<and> \<not> follow then Broken
            else if n = 0 then Broken
            else if is_absolute t then (if beneath then Broken else walk beneath follow (n - 1) fs base (fs_root fs) (names t @ cs))
            else walk beneath follow (n - 1) fs base d (names t @ cs)))"
  by pat_completeness auto
termination
  by (relation "measures [\<lambda>(b, f, n, fs, base, d, cs). n, \<lambda>(b, f, n, fs, base, d, cs). length cs]") auto

declare walk.simps(2) [simp del]

text \<open>What is asked of \<open>open\<close>: a directory, to write, to make it, to empty it.\<close>

record how =
  o_directory :: bool
  o_write :: bool
  o_creat :: bool
  o_trunc :: bool

definition O_DIRECTORY :: how where "O_DIRECTORY = \<lparr>o_directory = True, o_write = False, o_creat = False, o_trunc = False\<rparr>"
definition O_RDONLY :: how where "O_RDONLY = \<lparr>o_directory = False, o_write = False, o_creat = False, o_trunc = False\<rparr>"
definition O_REPLACE :: how where "O_REPLACE = \<lparr>o_directory = False, o_write = True, o_creat = True, o_trunc = True\<rparr>"

definition root_attr :: "nat \<Rightarrow> attr" where "root_attr mode = \<lparr>at_uid = 0, at_gid = 0, at_mode = mode\<rparr>"

text \<open>A new inode with a name in a directory.\<close>

definition add_entry :: "nat \<Rightarrow> string \<Rightarrow> inode \<Rightarrow> fsys \<Rightarrow> fsys" where
  "add_entry d name v fs = (case fs_node fs d of
      Some (Dir a p es) \<Rightarrow> (set_node d (Dir a p (es @ [(name, fs_next fs)])) (set_node (fs_next fs) v fs))\<lparr>fs_next := Suc (fs_next fs)\<rparr>
    | _ \<Rightarrow> fs)"

definition emptied :: "nat \<Rightarrow> fsys \<Rightarrow> fsys" where
  "emptied i fs = (case fs_node fs i of Some (Reg a c) \<Rightarrow> set_node i (Reg a []) fs | _ \<Rightarrow> fs)"

definition finish_open :: "how \<Rightarrow> found \<Rightarrow> nat fop" where
  "finish_open h r fs = (case r of
      Found i \<Rightarrow> if o_directory h \<and> \<not> is_dir fs i then (fs, None)
        else if o_write h \<and> is_dir fs i then (fs, None)
        else (if o_trunc h then emptied i fs else fs, Some i)
    | Absent d name \<Rightarrow> if o_creat h then (add_entry d name (Reg (root_attr 384) []) fs, Some (fs_next fs)) else (fs, None)
    | Broken \<Rightarrow> (fs, None))"

definition k_open :: "how \<Rightarrow> string \<Rightarrow> nat fop" where
  "k_open h path = syscall (\<lambda>fs. if path = [] then (fs, None) else finish_open h (walk False True 40 fs 0 (start_dir fs path) (names path)) fs)"

definition k_openat :: "how \<Rightarrow> bool \<Rightarrow> nat \<Rightarrow> string \<Rightarrow> nat fop" where
  "k_openat h follow d name = syscall (\<lambda>fs. if name = [] then (fs, None) else finish_open h (walk False follow 40 fs 0 d [name]) fs)"

definition k_openat2 :: "how \<Rightarrow> bool \<Rightarrow> nat \<Rightarrow> string \<Rightarrow> nat fop" where
  "k_openat2 h follow d path = syscall (\<lambda>fs. if is_absolute path then (fs, None) else finish_open h (walk True follow 40 fs d d (names path)) fs)"

datatype mkdir_result = Made | Exists

text \<open>\<open>mkdirat\<close> of one name; what exists already, a link too, is told apart from a failure.\<close>

definition k_mkdirat :: "nat \<Rightarrow> string \<Rightarrow> mkdir_result fop" where
  "k_mkdirat d name = syscall (\<lambda>fs. if \<not> is_dir fs d then (fs, None)
     else if name = ''.'' \<or> name = ''..'' \<or> entry fs d name \<noteq> None then (fs, Some Exists)
     else (add_entry d name (Dir (root_attr 448) d []) fs, Some Made))"

definition with_attr :: "(attr \<Rightarrow> attr) \<Rightarrow> inode \<Rightarrow> inode" where
  "with_attr f v = (case v of Dir a p es \<Rightarrow> Dir (f a) p es | Reg a c \<Rightarrow> Reg (f a) c | Symlink a t \<Rightarrow> Symlink (f a) t | Special a \<Rightarrow> Special (f a))"

definition change_attr :: "(attr \<Rightarrow> attr) \<Rightarrow> nat \<Rightarrow> unit fop" where
  "change_attr f i = syscall (\<lambda>fs. case fs_node fs i of None \<Rightarrow> (fs, None) | Some v \<Rightarrow> (set_node i (with_attr f v) fs, Some ()))"

definition owned :: "int \<Rightarrow> attr \<Rightarrow> attr" where "owned user a = a\<lparr>at_uid := user, at_gid := user\<rparr>"

text \<open>\<open>fchownat\<close> of a name, not of what it may link to.\<close>

definition k_chownat :: "int \<Rightarrow> nat \<Rightarrow> string \<Rightarrow> unit fop" where
  "k_chownat user d name fs = (case entry fs d name of None \<Rightarrow> (fs\<lparr>fs_calls := Suc (fs_calls fs)\<rparr>, None)
     | Some i \<Rightarrow> change_attr (owned user) i fs)"

section \<open>Making directories\<close>

text \<open>The part of the path from \<open>pos\<close> on is not trusted: what is missing there is made, and no link is followed.\<close>

primrec create_loop :: "int \<Rightarrow> nat \<Rightarrow> (string \<times> nat) list \<Rightarrow> nat \<Rightarrow> fsys \<Rightarrow> fsys \<times> bool" where
  "create_loop user pos [] d fs = (fs, True)"
| "create_loop user pos (part # ps) d fs = (let (c, separator) = part;
     (fs, made) = (if separator \<ge> pos then k_mkdirat d c fs else (fs, Some Exists)) in
     case made of
       None \<Rightarrow> (fs, False)
     | Some m \<Rightarrow> (case (if m = Made \<and> user \<noteq> 0 then k_chownat user d c fs else (fs, Some ())) of
         (fs, None) \<Rightarrow> (fs, False)
       | (fs, Some u) \<Rightarrow> (case k_openat O_DIRECTORY (separator < pos) d c fs of
           (fs, None) \<Rightarrow> (fs, False)
         | (fs, Some d) \<Rightarrow> create_loop user pos ps d fs)))"

definition createDir :: "string \<Rightarrow> int \<Rightarrow> nat \<Rightarrow> fsys \<Rightarrow> fsys \<times> bool" where
  "createDir path user pos0 fs = (let pos = (if pos0 = 0 then 1 else pos0) in
     case k_open O_DIRECTORY (if is_absolute path then ''/'' else ''.'') fs of
       (fs, None) \<Rightarrow> (fs, False)
     | (fs, Some d) \<Rightarrow> create_loop user pos (parts path) d fs)"

section \<open>Opening under a trusted prefix\<close>

definition relative_of :: "string \<Rightarrow> nat \<Rightarrow> string" where
  "relative_of name pos = dropWhile (\<lambda>c. c = path_sep) (drop pos name)"

text \<open>\<open>base\<close> without its last separators, but for the root.\<close>

definition strip_seps :: "string \<Rightarrow> string" where
  "strip_seps base = (if base \<noteq> [] \<and> (\<forall>c \<in> set base. c = path_sep) then [path_sep] else rev (dropWhile (\<lambda>c. c = path_sep) (rev base)))"

definition base_of :: "string \<Rightarrow> nat \<Rightarrow> string" where
  "base_of name pos = (let base = strip_seps (take pos name) in
     if base = [] then (if is_absolute name then ''/'' else ''.'') else base)"

text \<open>Without \<open>openat2\<close>: directory by directory, following no link.\<close>

primrec open_dirs :: "string list \<Rightarrow> nat \<Rightarrow> nat fop" where
  "open_dirs [] d = (\<lambda>fs. (fs, Some d))"
| "open_dirs (c # cs) d = fop_bind (k_openat O_DIRECTORY False d c) (open_dirs cs)"

definition open_fallback :: "how \<Rightarrow> nat \<Rightarrow> string \<Rightarrow> nat fop" where
  "open_fallback h baseFd relative = (let directory = getDirectory relative;
       fileName = (if directory \<noteq> [] then drop (length directory + 1) relative else relative) in
     fop_bind (open_dirs (names directory) baseFd) (\<lambda>d. k_openat h False d fileName))"

definition openFileWithinTrustedPath :: "bool \<Rightarrow> string \<Rightarrow> how \<Rightarrow> nat \<Rightarrow> bool \<Rightarrow> nat fop" where
  "openFileWithinTrustedPath openat2 name h pos allowFinalSymlink = (let relative = relative_of name pos in
     if pos = 0 \<or> relative = [] then k_open h name
     else fop_bind (k_open O_DIRECTORY (base_of name pos)) (\<lambda>baseFd fs.
       case (if openat2 then k_openat2 h allowFinalSymlink baseFd relative fs else (fs, None)) of
         (fs, Some fd) \<Rightarrow> (fs, Some fd)
       | (fs, None) \<Rightarrow> open_fallback h baseFd relative fs))"

section \<open>Files\<close>

definition no_write_exn :: "string \<Rightarrow> exn" where "no_write_exn m = HttpExn InternalServerErrorCode m []"

text \<open>What each \<open>write\<close> answers.\<close>

datatype write_answer = Wrote nat | WriteInterrupted | WriteFails

text \<open>The bytes written, and whether all were, once that is known.\<close>

fun write_loop :: "write_answer list \<Rightarrow> string \<Rightarrow> string \<times> bool option" where
  "write_loop as [] = ([], Some True)"
| "write_loop [] (c # cs) = ([], None)"
| "write_loop (a # as) (c # cs) = (case a of
      WriteInterrupted \<Rightarrow> write_loop as (c # cs)
    | WriteFails \<Rightarrow> ([], Some False)
    | Wrote n \<Rightarrow> if n = 0 then ([], Some False)
        else case write_loop as (drop n (c # cs)) of (done, r) \<Rightarrow> (take n (c # cs) @ done, r))"

definition set_contents :: "nat \<Rightarrow> string \<Rightarrow> fsys \<Rightarrow> fsys" where
  "set_contents i data fs = (case fs_node fs i of Some (Reg a c) \<Rightarrow> set_node i (Reg a data) fs | _ \<Rightarrow> fs)"

definition k_stat :: "string \<Rightarrow> nat fop" where
  "k_stat path = syscall (\<lambda>fs. (fs, case walk False True 40 fs 0 (start_dir fs path) (names path) of Found i \<Rightarrow> Some i | _ \<Rightarrow> None))"

definition dirExistsFollowingSymLink :: "string \<Rightarrow> fsys \<Rightarrow> fsys \<times> bool" where
  "dirExistsFollowingSymLink path fs = (case k_stat path fs of (fs, None) \<Rightarrow> (fs, False) | (fs, Some i) \<Rightarrow> (fs, is_dir fs i))"

definition is_script :: "string \<Rightarrow> bool" where
  "is_script name \<longleftrightarrow> length name \<ge> 4 \<and> drop (length name - 3) name = ''.sh''"

definition finish_write :: "string \<Rightarrow> int \<Rightarrow> nat \<Rightarrow> fsys \<Rightarrow> fsys" where
  "finish_write name user fd fs = (let fs = (if user \<noteq> 0 then fst (change_attr (owned user) fd fs) else fs) in
     fst (change_attr (\<lambda>a. a\<lparr>at_mode := (if is_script name then 448 else 384)\<rparr>) fd fs))"

definition make_dir_of :: "string \<Rightarrow> int \<Rightarrow> nat \<Rightarrow> fsys \<Rightarrow> fsys" where
  "make_dir_of name user pos fs = (let dir = getDirectory name in
     if dir = [] then fs
     else case dirExistsFollowingSymLink dir fs of (fs, found) \<Rightarrow> if found then fs else fst (createDir dir user pos fs))"

definition fs_writeFile :: "bool \<Rightarrow> write_answer list \<Rightarrow> string \<Rightarrow> string \<Rightarrow> int \<Rightarrow> nat \<Rightarrow> fsys \<Rightarrow> (fsys \<times> unit result) option" where
  "fs_writeFile openat2 answers name data user pos fs =
     (if \<not> correctPath name then Some (fs, Inl (no_write_exn ''I can't write file''))
      else case openFileWithinTrustedPath openat2 name O_REPLACE pos False (make_dir_of name user pos fs) of
        (fs, None) \<Rightarrow> Some (fs, Inl (no_write_exn ''I can't write file''))
      | (fs, Some fd) \<Rightarrow> (case write_loop answers data of (written, r) \<Rightarrow>
          let fs = set_contents fd written fs in case r of
            None \<Rightarrow> None
          | Some ok \<Rightarrow> if \<not> ok then Some (fs, Inl (no_write_exn ''I can't write to file''))
              else Some (finish_write name user fd fs, Inr ())))"

text \<open>\<open>readFile\<close>: a \<open>read\<close> that fails, as that of a directory does, gives a size that no string can have.\<close>

definition fs_readFile :: "bool \<Rightarrow> bool \<Rightarrow> string \<Rightarrow> bool \<Rightarrow> nat \<Rightarrow> fsys \<Rightarrow> fsys \<times> string result" where
  "fs_readFile openat2 readFails name throwError pos fs = (let refused = (if throwError then Inl (no_write_exn ''I can't read file'') else Inr []) in
     if \<not> correctPath name then (fs, refused)
     else case openFileWithinTrustedPath openat2 name O_RDONLY pos True fs of
       (fs, None) \<Rightarrow> (fs, refused)
     | (fs, Some fd) \<Rightarrow> if readFails \<or> is_dir fs fd then (fs, Inl (StdExn ''basic_string''))
         else (fs, Inr (case fs_node fs fd of Some (Reg a c) \<Rightarrow> c | _ \<Rightarrow> [])))"

definition remove_entry :: "nat \<Rightarrow> string \<Rightarrow> fsys \<Rightarrow> fsys" where
  "remove_entry d name fs = (case fs_node fs d of Some (Dir a p es) \<Rightarrow> set_node d (Dir a p (filter (\<lambda>(n, i). n \<noteq> name) es)) fs | _ \<Rightarrow> fs)"

text \<open>\<open>unlinkat\<close>: of a file or a link; with \<open>AT_REMOVEDIR\<close>, of an empty directory.\<close>

definition k_unlinkat :: "bool \<Rightarrow> nat \<Rightarrow> string \<Rightarrow> unit fop" where
  "k_unlinkat rmdir d name = syscall (\<lambda>fs. case entry fs d name of
      None \<Rightarrow> (fs, None)
    | Some i \<Rightarrow> if rmdir \<noteq> is_dir fs i then (fs, None)
        else if rmdir \<and> entries_of fs i \<noteq> [] then (fs, None)
        else (remove_entry d name fs, Some ()))"

definition k_fstatat :: "nat \<Rightarrow> string \<Rightarrow> inode fop" where
  "k_fstatat d name = syscall (\<lambda>fs. (fs, case entry fs d name of None \<Rightarrow> None | Some i \<Rightarrow> fs_node fs i))"

text \<open>The calls with a directory and a name of one component take it from the root when it starts with the separator.\<close>

definition at_name :: "fsys \<Rightarrow> nat \<Rightarrow> string \<Rightarrow> nat \<times> string" where
  "at_name fs d name = (if is_absolute name then (fs_root fs, tl name) else (d, name))"

definition fs_deleteFile :: "bool \<Rightarrow> string \<Rightarrow> nat \<Rightarrow> fsys \<Rightarrow> fsys" where
  "fs_deleteFile openat2 path pos fs = (if \<not> correctPath path then fs else let dirPath = getDirectory path;
       fileName = (if dirPath = [] then path else drop (length dirPath + 1) path) in
     case openFileWithinTrustedPath openat2 (if dirPath = [] then ''.'' else dirPath) O_DIRECTORY (if pos \<le> length dirPath then pos else 0) True fs of
       (fs, None) \<Rightarrow> fs
     | (fs, Some parentFd) \<Rightarrow> let (d, fileName) = at_name fs parentFd fileName in (case k_fstatat d fileName fs of
         (fs, Some (Reg a c)) \<Rightarrow> fst (k_unlinkat False d fileName fs)
       | (fs, _) \<Rightarrow> fs))"

section \<open>Removing a tree\<close>

definition owner_is :: "int \<Rightarrow> attr \<Rightarrow> bool" where "owner_is owner a \<longleftrightarrow> at_uid a = owner \<or> at_gid a = owner"

definition belongs :: "int \<Rightarrow> inode \<Rightarrow> bool" where
  "belongs owner v \<longleftrightarrow> owner_is owner (attr_of v)"

definition k_fstat :: "nat \<Rightarrow> inode fop" where "k_fstat i = syscall (\<lambda>fs. (fs, fs_node fs i))"

text \<open>\<open>fdopendir\<close> and \<open>readdir\<close>: they only answer that they can go on.\<close>

definition k_readdir :: "unit fop" where "k_readdir = syscall (\<lambda>fs. (fs, Some ()))"

definition is_dir_node :: "inode \<Rightarrow> bool" where "is_dir_node v \<longleftrightarrow> (case v of Dir a p es \<Rightarrow> True | _ \<Rightarrow> False)"

text \<open>\<open>unlinkat\<close> where it is to be done: whether one more entry is removed.\<close>

definition unlink_if :: "bool \<Rightarrow> bool \<Rightarrow> nat \<Rightarrow> string \<Rightarrow> fsys \<Rightarrow> fsys \<times> int" where
  "unlink_if remove rmdir d name fs = (if \<not> remove then (fs, 0) else case k_unlinkat rmdir d name fs of
       (fs, None) \<Rightarrow> (fs, 0) | (fs, Some u) \<Rightarrow> (fs, 1))"

text \<open>What is done with one entry, whose directory, if it is one, is emptied by \<open>contents\<close>; how many it has removed.\<close>

definition remove_child :: "(nat \<Rightarrow> fsys \<Rightarrow> (fsys \<times> int) option) \<Rightarrow> int \<Rightarrow> bool \<Rightarrow> nat \<Rightarrow> string \<Rightarrow> fsys \<Rightarrow> (fsys \<times> int) option" where
  "remove_child contents owner whole d name fs = (if name = ''.'' \<or> name = ''..'' then Some (fs, 0)
     else case k_openat O_DIRECTORY False d name fs of
       (fs, Some childFd) \<Rightarrow> (case k_fstat childFd fs of
           (fs, None) \<Rightarrow> Some (fs, 0)
         | (fs, Some v) \<Rightarrow> if \<not> is_dir_node v then Some (fs, 0)
             else (case contents childFd fs of
                 None \<Rightarrow> None
               | Some (fs, k) \<Rightarrow> (case unlink_if (whole \<or> belongs owner v) True d name fs of (fs, k') \<Rightarrow> Some (fs, k + k'))))
     | (fs, None) \<Rightarrow> (case k_fstatat d name fs of
           (fs, None) \<Rightarrow> Some (fs, 0)
         | (fs, Some v) \<Rightarrow> Some (unlink_if (whole \<or> belongs owner v) False d name fs)))"

primrec remove_entries :: "(nat \<Rightarrow> fsys \<Rightarrow> (fsys \<times> int) option) \<Rightarrow> int \<Rightarrow> bool \<Rightarrow> nat \<Rightarrow> string list \<Rightarrow> fsys \<Rightarrow> (fsys \<times> int) option" where
  "remove_entries contents owner whole d [] fs = Some (fs, 0)"
| "remove_entries contents owner whole d (name # ns) fs = (case k_readdir fs of
      (fs, None) \<Rightarrow> Some (fs, 0)
    | (fs, Some u) \<Rightarrow> (case remove_child contents owner whole d name fs of
        None \<Rightarrow> None
      | Some (fs, k) \<Rightarrow> (case remove_entries contents owner whole d ns fs of
          None \<Rightarrow> None
        | Some (fs, k') \<Rightarrow> Some (fs, k + k'))))"

text \<open>
  The recursion goes as deep as the tree; \<open>n\<close> bounds it. The names of a directory are those it has when it is opened.
\<close>

primrec removeDirContents :: "nat \<Rightarrow> int \<Rightarrow> bool \<Rightarrow> nat \<Rightarrow> fsys \<Rightarrow> (fsys \<times> int) option" where
  "removeDirContents 0 owner force d fs = None"
| "removeDirContents (Suc n) owner force d fs = (case k_fstat d fs of
      (fs, None) \<Rightarrow> Some (fs, 0)
    | (fs, Some v) \<Rightarrow> if \<not> is_dir_node v then Some (fs, 0)
        else (let whole = (force \<or> belongs owner v) in
          case k_readdir fs of
            (fs, None) \<Rightarrow> Some (fs, 0)
          | (fs, Some u) \<Rightarrow> remove_entries (removeDirContents n owner whole) owner whole d (map fst (entries_of fs d)) fs))"

definition fs_removeDir :: "nat \<Rightarrow> string \<Rightarrow> int \<Rightarrow> bool \<Rightarrow> fsys \<Rightarrow> (fsys \<times> int) option" where
  "fs_removeDir n dir owner force fs = (if dir = ''/'' then Some (fs, 0) else let parent = getDirectory dir;
       name = (if parent \<noteq> [] then drop (length parent + 1) dir else dir) in
     case openFileWithinTrustedPath False (if parent = [] then ''.'' else parent) O_DIRECTORY 0 False fs of
       (fs, None) \<Rightarrow> Some (fs, 0)
     | (fs, Some parentFd) \<Rightarrow> let (parentFd, name) = at_name fs parentFd name in (case k_openat O_DIRECTORY False parentFd name fs of
         (fs, None) \<Rightarrow> Some (fs, 0)
       | (fs, Some directoryFd) \<Rightarrow> (case k_fstat directoryFd fs of
           (fs, None) \<Rightarrow> Some (fs, 0)
         | (fs, Some v) \<Rightarrow> (let whole = (force \<or> belongs owner v) in
             case removeDirContents n owner whole directoryFd fs of
               None \<Rightarrow> None
             | Some (fs, k) \<Rightarrow> (case unlink_if whole True parentFd name fs of (fs, k') \<Rightarrow> Some (fs, k + k'))))))"

section \<open>Below a directory\<close>

text \<open>What is found from \<open>b\<close> on by entries alone.\<close>

inductive below :: "fsys \<Rightarrow> nat \<Rightarrow> nat \<Rightarrow> bool" for fs :: fsys and b :: nat where
  below_self: "below fs b b"
| below_entry: "below fs b d \<Longrightarrow> entry fs d n = Some i \<Longrightarrow> below fs b i"

text \<open>
  A well formed system: an entry is of an inode that is there, a directory is entered from its parent only, which is a directory, and
  the numbers of the inodes are below the free ones.
\<close>

definition fs_wf :: "fsys \<Rightarrow> bool" where
  "fs_wf fs \<longleftrightarrow> (\<forall>d n i. entry fs d n = Some i \<longrightarrow> fs_node fs i \<noteq> None \<and> (is_dir fs i \<longrightarrow> parent_of fs i = d)) \<and>
     (\<forall>i. fs_node fs i \<noteq> None \<longrightarrow> i < fs_next fs) \<and> (\<forall>d. is_dir fs d \<longrightarrow> is_dir fs (parent_of fs d))"

lemma fs_wfD:
  assumes "fs_wf fs"
  shows "entry fs d n = Some i \<Longrightarrow> fs_node fs i \<noteq> None" "entry fs d n = Some i \<Longrightarrow> is_dir fs i \<Longrightarrow> parent_of fs i = d"
    "fs_node fs i \<noteq> None \<Longrightarrow> i < fs_next fs" "fs_node fs (fs_next fs) = None" "is_dir fs d \<Longrightarrow> is_dir fs (parent_of fs d)"
  using assms unfolding fs_wf_def by blast+

lemma below_parent:
  assumes "fs_wf fs" "below fs b d" "is_dir fs d" "d \<noteq> b"
  shows "below fs b (parent_of fs d)"
  using assms(2)
proof (cases rule: below.cases)
  case (below_entry d' n)
  then show ?thesis using fs_wfD(2) [OF assms(1)] assms(3) by metis
qed (use assms(4) in simp)

lemma below_cong:
  assumes "\<And>d. entries_of fs' d = entries_of fs d"
  shows "below fs' b = below fs b"
proof -
  have same: "entry fs' d n = entry fs d n" for d n using assms by (simp add: entry_def)
  show ?thesis by (intro ext iffI; erule below.induct) (auto intro: below.intros simp: same elim: below_entry [rotated])
qed

definition owned_node :: "int \<Rightarrow> fsys \<Rightarrow> nat \<Rightarrow> bool" where
  "owned_node owner fs i \<longleftrightarrow> (case fs_node fs i of Some v \<Rightarrow> belongs owner v | None \<Rightarrow> False)"

definition is_special :: "fsys \<Rightarrow> nat \<Rightarrow> bool" where "is_special fs i \<longleftrightarrow> (\<exists>a. fs_node fs i = Some (Special a))"

text \<open>Two states with the same inodes, where only the count of the calls differs.\<close>

lemma calls_simps [simp]:
  "fs_node (fs\<lparr>fs_calls := k\<rparr>) = fs_node fs" "entry (fs\<lparr>fs_calls := k\<rparr>) = entry fs" "is_dir (fs\<lparr>fs_calls := k\<rparr>) = is_dir fs"
  "link_of (fs\<lparr>fs_calls := k\<rparr>) = link_of fs" "parent_of (fs\<lparr>fs_calls := k\<rparr>) = parent_of fs"
  "entries_of (fs\<lparr>fs_calls := k\<rparr>) = entries_of fs" "start_dir (fs\<lparr>fs_calls := k\<rparr>) = start_dir fs"
    "is_special (fs\<lparr>fs_calls := k\<rparr>) = is_special fs"
  by (intro ext; simp add: entry_def is_dir_def link_of_def parent_of_def entries_of_def start_dir_def is_special_def)+

lemma calls_below [simp]: "below (fs\<lparr>fs_calls := k\<rparr>) = below fs"
  by (intro ext fun_cong [OF below_cong]) simp

lemma calls_wf [simp]: "fs_wf (fs\<lparr>fs_calls := k\<rparr>) = fs_wf fs"
  by (simp add: fs_wf_def)

lemma calls_walk [simp]: "walk beneath follow n (fs\<lparr>fs_calls := k\<rparr>) base d cs = walk beneath follow n fs base d cs"
  by (induction beneath follow n fs base d cs rule: walk.induct) (auto simp: walk.simps(2) split: option.split)

text \<open>A search that may not leave \<open>b\<close> ends below it.\<close>

definition found_below :: "fsys \<Rightarrow> nat \<Rightarrow> found \<Rightarrow> bool" where
  "found_below fs b r \<longleftrightarrow> (case r of Found i \<Rightarrow> below fs b i | Absent d n \<Rightarrow> below fs b d \<and> is_dir fs d \<and> entry fs d n = None | Broken \<Rightarrow> True)"

lemma walk_beneath:
  assumes "fs_wf fs" "below fs b d"
  shows "found_below fs b (walk True follow n fs b d cs)"
  using assms
proof (induction True follow n fs b d cs rule: walk.induct)
  case (2 follow n fs base d c cs)
  have up: "d \<noteq> base \<Longrightarrow> is_dir fs d \<Longrightarrow> below fs base (parent_of fs d)" using below_parent 2(6,7) by blast
  have down: "entry fs d c = Some i \<Longrightarrow> below fs base i" for i using 2(7) by (rule below_entry)
  show ?case
    using 2(1-3,5-7) up down by (auto simp: walk.simps(2) found_below_def split: option.split)
qed (simp add: found_below_def)

text \<open>One name that is no way up, without following a link.\<close>

lemma walk_name:
  assumes "below fs b d" "c \<noteq> ''..''"
  shows "found_below fs b (walk False False n fs base d [c])"
  using assms by (auto simp: walk.simps found_below_def split: option.split intro: below_entry)

end
