(* ===== verification/Home_Files.thy ===== *)
theory Home_Files
  imports Files
begin

text \<open>
  Writing, reading and deleting in the home of a task (Files). Proved: whatever links a prisoner has made below the home, whatever
  calls fail and with or without \<open>openat2\<close>, a write changes nothing outside the home, what is read is a file below it and a deletion
  takes an entry below it; and what has been written is what is read afterwards.
\<close>

section \<open>What writing may do\<close>

text \<open>Nothing that was there is gone: directories with their entries, and links.\<close>

definition extends :: "fsys \<Rightarrow> fsys \<Rightarrow> bool" where
  "extends fs fs' \<longleftrightarrow> fs_root fs' = fs_root fs \<and> fs_cwd fs' = fs_cwd fs \<and> fs_fault fs' = fs_fault fs \<and>
     (\<forall>i. is_special fs' i \<longrightarrow> is_special fs i) \<and>
     (\<forall>i. fs_node fs i \<noteq> None \<longrightarrow> fs_node fs' i \<noteq> None \<and> is_dir fs' i = is_dir fs i \<and> link_of fs' i = link_of fs i \<and>
        parent_of fs' i = parent_of fs i \<and> (\<forall>n j. entry fs i n = Some j \<longrightarrow> entry fs' i n = Some j))"

text \<open>A home without links, in which everything is entered once.\<close>

definition tree_at :: "fsys \<Rightarrow> nat \<Rightarrow> bool" where
  "tree_at fs b \<longleftrightarrow> is_dir fs b \<and> (\<forall>i. below fs b i \<longrightarrow> link_of fs i = None) \<and> (\<forall>d n. below fs b d \<longrightarrow> entry fs d n \<noteq> Some b) \<and>
     (\<forall>d n d' n' i. below fs b d \<longrightarrow> below fs b d' \<longrightarrow> entry fs d n = Some i \<longrightarrow> entry fs d' n' = Some i \<longrightarrow> d = d' \<and> n = n')"

text \<open>It was done below \<open>b\<close>: the rest is as it was, and what is found from \<open>b\<close> on was found before or is new; a tree stays a tree.\<close>

definition grows :: "nat \<Rightarrow> fsys \<Rightarrow> fsys \<Rightarrow> bool" where
  "grows b fs fs' \<longleftrightarrow> extends fs fs' \<and> fs_wf fs' \<and> (\<forall>i. below fs' b i \<longrightarrow> below fs b i \<or> fs_node fs i = None) \<and>
     (\<forall>i. fs_node fs i \<noteq> None \<longrightarrow> \<not> below fs b i \<longrightarrow> fs_node fs' i = fs_node fs i) \<and> (tree_at fs b \<longrightarrow> tree_at fs' b)"

lemma tree_at_calls [simp]: "tree_at (fs\<lparr>fs_calls := k\<rparr>) b = tree_at fs b"
  by (simp add: tree_at_def)

lemma entry_node: "entry fs d n = Some i \<Longrightarrow> is_dir fs d \<and> fs_node fs d \<noteq> None"
  by (auto simp: entry_def entries_of_def is_dir_def split: option.splits inode.splits)

lemma is_dir_node: "is_dir fs d \<Longrightarrow> fs_node fs d \<noteq> None"
  by (auto simp: is_dir_def split: option.splits)

lemma extendsD:
  assumes "extends fs fs'" "fs_node fs i \<noteq> None"
  shows "fs_node fs' i \<noteq> None \<and> is_dir fs' i = is_dir fs i \<and> link_of fs' i = link_of fs i \<and> parent_of fs' i = parent_of fs i \<and>
    (\<forall>n j. entry fs i n = Some j \<longrightarrow> entry fs' i n = Some j)"
  using assms(1) [unfolded extends_def] assms(2) by blast

lemma extends_entry: "extends fs fs' \<Longrightarrow> entry fs d n = Some i \<Longrightarrow> entry fs' d n = Some i"
  using entry_node extendsD by blast

lemma extends_dir: "extends fs fs' \<Longrightarrow> is_dir fs d \<Longrightarrow> is_dir fs' d \<and> parent_of fs' d = parent_of fs d"
  using is_dir_node extendsD by blast

lemma extends_below: assumes "extends fs fs'" "below fs b i" shows "below fs' b i"
  using assms(2) by induction (auto intro: below.intros extends_entry [OF assms(1)])

lemma growsD:
  assumes "grows b fs fs'"
  shows "extends fs fs'" "fs_wf fs'" "below fs b i \<Longrightarrow> below fs' b i" "below fs' b i \<Longrightarrow> below fs b i \<or> fs_node fs i = None"
    "fs_node fs i \<noteq> None \<Longrightarrow> \<not> below fs b i \<Longrightarrow> fs_node fs' i = fs_node fs i"
    "tree_at fs b \<Longrightarrow> tree_at fs' b"
proof -
  show e: "extends fs fs'" "fs_wf fs'" using assms by (simp_all add: grows_def)
  show "below fs b i \<Longrightarrow> below fs' b i" using extends_below [OF e(1)] .
  show "below fs' b i \<Longrightarrow> below fs b i \<or> fs_node fs i = None" using assms unfolding grows_def by metis
  show "fs_node fs i \<noteq> None \<Longrightarrow> \<not> below fs b i \<Longrightarrow> fs_node fs' i = fs_node fs i" using assms unfolding grows_def by metis
  show "tree_at fs b \<Longrightarrow> tree_at fs' b" using assms unfolding grows_def by metis
qed

lemma grows_refl: "fs_wf fs \<Longrightarrow> grows b fs fs"
  by (simp add: grows_def extends_def)

lemma grows_calls [simp]: "fs_wf fs \<Longrightarrow> grows b fs (fs\<lparr>fs_calls := k\<rparr>)"
  by (simp add: grows_def extends_def)

lemma grows_trans:
  assumes "grows b fs fs'" "grows b fs' fs''"
  shows "grows b fs fs''"
proof -
  note a = growsD [OF assms(1)] and b = growsD [OF assms(2)]
  have node: "fs_node fs i \<noteq> None \<Longrightarrow> fs_node fs' i \<noteq> None" for i using extendsD [OF a(1)] by blast
  have "fs_node fs'' i \<noteq> None \<and> is_dir fs'' i = is_dir fs i \<and> link_of fs'' i = link_of fs i \<and> parent_of fs'' i = parent_of fs i \<and>
      (\<forall>n j. entry fs i n = Some j \<longrightarrow> entry fs'' i n = Some j)" if "fs_node fs i \<noteq> None" for i
    using extendsD [OF a(1) that] extendsD [OF b(1) node [OF that]] by (intro conjI allI impI; elim conjE; simp)
  then have "extends fs fs''" using a(1) b(1) by (simp add: extends_def)
  moreover have "below fs b i \<or> fs_node fs i = None" if "below fs'' b i" for i
    using a(4) [of i] b(4) [OF that] node [of i] by argo
  moreover have "fs_node fs'' i = fs_node fs i" if "fs_node fs i \<noteq> None" "\<not> below fs b i" for i
    using a(4,5) [of i] b(5) [of i] node [OF that(1)] that by argo
  ultimately show ?thesis using b(2) a(6) b(6) by (simp add: grows_def)
qed

text \<open>A change of one inode that leaves it what it is.\<close>

definition same_shape :: "inode \<Rightarrow> inode \<Rightarrow> bool" where
  "same_shape v w \<longleftrightarrow> (case v of Dir a p es \<Rightarrow> (\<exists>a'. w = Dir a' p es) | Symlink a t \<Rightarrow> (\<exists>a'. w = Symlink a' t) | Reg a c \<Rightarrow> (\<exists>a' c'. w = Reg a' c')
     | Special a \<Rightarrow> (\<exists>a'. w = Special a'))"

lemma set_node_shape:
  assumes "fs_node fs i = Some v" "same_shape v w"
  shows "entries_of (set_node i w fs) d = entries_of fs d" "is_dir (set_node i w fs) d = is_dir fs d"
    "link_of (set_node i w fs) d = link_of fs d" "parent_of (set_node i w fs) d = parent_of fs d"
  using assms by (auto simp: entries_of_def is_dir_def link_of_def parent_of_def set_node_def same_shape_def split: inode.splits)

lemma set_node_grows:
  assumes "fs_wf fs" "below fs b i" "fs_node fs i = Some v" "same_shape v w"
  shows "grows b fs (set_node i w fs)"
proof -
  note [simp] = set_node_shape [OF assms(3,4)]
  have e: "entry (set_node i w fs) d = entry fs d" for d by (intro ext) (simp add: entry_def)
  have [simp]: "below (set_node i w fs) b = below fs b" by (rule below_cong) simp
  have n: "fs_node (set_node i w fs) j = (if j = i then Some w else fs_node fs j)" "fs_next (set_node i w fs) = fs_next fs"
      "fs_root (set_node i w fs) = fs_root fs" "fs_cwd (set_node i w fs) = fs_cwd fs" "fs_fault (set_node i w fs) = fs_fault fs" for j
    by (simp_all add: set_node_def)
  have "fs_wf (set_node i w fs)" using assms(1,3) unfolding fs_wf_def e by (auto simp: n)
  moreover have "is_special fs j" if "is_special (set_node i w fs) j" for j
    using that assms(3,4) by (auto simp: is_special_def n same_shape_def split: if_splits inode.splits)
  ultimately show ?thesis using assms(2,3) by (auto simp: grows_def extends_def tree_at_def e n)
qed

text \<open>A new inode, with no entries.\<close>

definition fresh_node :: "nat \<Rightarrow> inode \<Rightarrow> bool" where
  "fresh_node d v \<longleftrightarrow> (\<exists>a. v = Dir a d [] \<or> v = Reg a [])"

lemma add_entry_parts:
  assumes "fs_wf fs" "is_dir fs d" "fresh_node d v" "entry fs d name = None"
  shows "entry (add_entry d name v fs) = (\<lambda>x n. if x = d \<and> n = name then Some (fs_next fs) else entry fs x n)"
    "fs_node (add_entry d name v fs) i \<noteq> None \<longleftrightarrow> fs_node fs i \<noteq> None \<or> i = fs_next fs"
    "fs_node fs i \<noteq> None \<Longrightarrow> i \<noteq> d \<Longrightarrow> fs_node (add_entry d name v fs) i = fs_node fs i"
    "fs_node fs i \<noteq> None \<Longrightarrow> is_dir (add_entry d name v fs) i = is_dir fs i \<and> link_of (add_entry d name v fs) i = link_of fs i \<and>
       parent_of (add_entry d name v fs) i = parent_of fs i"
    "fs_next (add_entry d name v fs) = Suc (fs_next fs)"
    "fs_root (add_entry d name v fs) = fs_root fs \<and> fs_cwd (add_entry d name v fs) = fs_cwd fs \<and> fs_fault (add_entry d name v fs) = fs_fault fs"
    "is_dir (add_entry d name v fs) (fs_next fs) \<Longrightarrow> parent_of (add_entry d name v fs) (fs_next fs) = d"
    "is_special (add_entry d name v fs) i \<Longrightarrow> is_special fs i" "link_of (add_entry d name v fs) (fs_next fs) = None"
proof -
  obtain a p es where d: "fs_node fs d = Some (Dir a p es)" using assms(2) by (auto simp: is_dir_def split: option.splits inode.splits)
  have free: "fs_node fs (fs_next fs) = None" "d \<noteq> fs_next fs" using fs_wfD(4) [OF assms(1)] d by auto
  have s: "add_entry d name v fs = (set_node d (Dir a p (es @ [(name, fs_next fs)])) (set_node (fs_next fs) v fs))\<lparr>fs_next := Suc (fs_next fs)\<rparr>"
    using d by (simp add: add_entry_def)
  have n: "fs_node (add_entry d name v fs) = (fs_node fs)(fs_next fs \<mapsto> v, d \<mapsto> Dir a p (es @ [(name, fs_next fs)]))"
    unfolding s by (simp add: set_node_def)
  have new: "map_of es name = None" using assms(4) d by (simp add: entry_def entries_of_def)
  show "entry (add_entry d name v fs) = (\<lambda>x n. if x = d \<and> n = name then Some (fs_next fs) else entry fs x n)"
    using assms(3) free new d
    by (intro ext) (auto simp: entry_def entries_of_def n fresh_node_def map_add_def split: option.split)
  show "fs_node (add_entry d name v fs) i \<noteq> None \<longleftrightarrow> fs_node fs i \<noteq> None \<or> i = fs_next fs" using d by (auto simp: n)
  show "fs_node fs i \<noteq> None \<Longrightarrow> i \<noteq> d \<Longrightarrow> fs_node (add_entry d name v fs) i = fs_node fs i" using free by (auto simp: n)
  show "fs_node fs i \<noteq> None \<Longrightarrow> is_dir (add_entry d name v fs) i = is_dir fs i \<and> link_of (add_entry d name v fs) i = link_of fs i \<and>
       parent_of (add_entry d name v fs) i = parent_of fs i"
    using free d by (auto simp: n is_dir_def link_of_def parent_of_def)
  show "fs_next (add_entry d name v fs) = Suc (fs_next fs)" "fs_root (add_entry d name v fs) = fs_root fs \<and> fs_cwd (add_entry d name v fs) = fs_cwd fs \<and> fs_fault (add_entry d name v fs) = fs_fault fs"
    unfolding s by (simp_all add: set_node_def)
  show "is_dir (add_entry d name v fs) (fs_next fs) \<Longrightarrow> parent_of (add_entry d name v fs) (fs_next fs) = d"
    using assms(3) free by (auto simp: n is_dir_def parent_of_def fresh_node_def)
  show "link_of (add_entry d name v fs) (fs_next fs) = None" using assms(3) free by (auto simp: n link_of_def fresh_node_def)
  show "is_special (add_entry d name v fs) i \<Longrightarrow> is_special fs i" using assms(3) by (auto simp: n is_special_def fresh_node_def split: if_splits)
qed

lemma add_entry_grows:
  assumes "fs_wf fs" "below fs b d" "is_dir fs d" "fresh_node d v" "entry fs d name = None"
  shows "grows b fs (add_entry d name v fs)" "below (add_entry d name v fs) b (fs_next fs)"
proof -
  note p = add_entry_parts [OF assms(1,3-5)]
  have ext: "extends fs (add_entry d name v fs)" using p(1,2,4,6,8) assms(5) by (auto simp: extends_def)
  have d: "below (add_entry d name v fs) b d" using extends_below [OF ext assms(2)] .
  have wf: "fs_wf (add_entry d name v fs)"
  proof -
    have "fs_node (add_entry d name v fs) i \<noteq> None \<and> (is_dir (add_entry d name v fs) i \<longrightarrow> parent_of (add_entry d name v fs) i = x)"
      if "entry (add_entry d name v fs) x m = Some i" for x m i
      using that fs_wfD(1,2) [OF assms(1), of x m i] p(2,4,7) unfolding p(1) by (auto split: if_splits)
    moreover have "i < fs_next (add_entry d name v fs)" if "fs_node (add_entry d name v fs) i \<noteq> None" for i
      using that fs_wfD(3) [OF assms(1), of i] unfolding p(2,5) by auto
    moreover have "is_dir (add_entry d name v fs) (parent_of (add_entry d name v fs) i)" if "is_dir (add_entry d name v fs) i" for i
      using is_dir_node [OF that] that p(2) [of i] p(4) p(7) fs_wfD(5) [OF assms(1)] assms(3) is_dir_node
      by (cases "i = fs_next fs") (metis assms(3) fs_wfD(4) [OF assms(1)])+
    ultimately show ?thesis by (simp add: fs_wf_def)
  qed
  have old: "below fs b i \<or> i = fs_next fs" if "below (add_entry d name v fs) b i" for i
    using that
  proof induction
    case (below_entry x m i)
    then have "x \<noteq> fs_next fs \<or> i = fs_next fs" using fs_wfD(4) [OF assms(1)] entry_node [of fs x m i] unfolding p(1) by (auto split: if_splits)
    with below_entry show ?case unfolding p(1) by (auto split: if_splits intro: below.below_entry)
  qed (simp add: below_self)
  have out: "fs_node (add_entry d name v fs) i = fs_node fs i" if "fs_node fs i \<noteq> None" "\<not> below fs b i" for i
    using that p(3) assms(2) by blast
  have tree: "tree_at (add_entry d name v fs) b" if t: "tree_at fs b"
  proof -
    note free = fs_wfD(4) [OF assms(1)] and b = is_dir_node [of fs b]
    have db: "is_dir fs b" "\<And>i. below fs b i \<Longrightarrow> link_of fs i = None" "\<And>d n. below fs b d \<Longrightarrow> entry fs d n \<noteq> Some b"
      "\<And>d n d' n' i. below fs b d \<Longrightarrow> below fs b d' \<Longrightarrow> entry fs d n = Some i \<Longrightarrow> entry fs d' n' = Some i \<Longrightarrow> d = d' \<and> n = n'"
      using t unfolding tree_at_def by blast+
    have node: "fs_node fs i \<noteq> None" if "below fs b i" for i
      using that by (cases rule: below.cases) (use b db(1) fs_wfD(1) [OF assms(1)] in blast)+
    have dir: "below fs b x" if "below (add_entry d name v fs) b x" "entry fs x m = Some j \<or> x = d" for x m j
      using old [OF that(1)] that(2) assms(2) entry_node [of fs x m j] free by auto
    have new: "entry fs x m \<noteq> Some (fs_next fs)" for x m using fs_wfD(1) [OF assms(1), of x m "fs_next fs"] free by auto
    show ?thesis
      unfolding tree_at_def
    proof (intro conjI allI impI)
      show "is_dir (add_entry d name v fs) b" using p(4) b db(1) by blast
      show "link_of (add_entry d name v fs) i = None" if "below (add_entry d name v fs) b i" for i
        using old [OF that] p(4) [OF node] p(9) db(2) by auto
      show "entry (add_entry d name v fs) x m \<noteq> Some b" if "below (add_entry d name v fs) b x" for x m
        using dir [OF that, of m b] db(3) b db(1) free unfolding p(1) by auto
      show "x = x'" "m = m'" if "below (add_entry d name v fs) b x" "below (add_entry d name v fs) b x'"
        "entry (add_entry d name v fs) x m = Some i" "entry (add_entry d name v fs) x' m' = Some i" for x m x' m' i
        using that(3,4) new db(4) [of x x' m i m'] dir [OF that(1), of m i] dir [OF that(2), of m' i] unfolding p(1) by (auto split: if_splits)
    qed
  qed
  show "grows b fs (add_entry d name v fs)"
    unfolding grows_def
  proof (intro conjI allI impI)
    show "below fs b i \<or> fs_node fs i = None" if "below (add_entry d name v fs) b i" for i
      using old [OF that] fs_wfD(4) [OF assms(1)] by auto
  qed (use ext wf out tree in auto)
  show "below (add_entry d name v fs) b (fs_next fs)" using d p(1) by (auto intro: below.below_entry [of _ _ d name])
qed

section \<open>Names\<close>

lemma path_parts_append:
  "path_parts i cur (a @ path_sep # b) = path_parts i cur a @ path_parts (Suc (i + length a)) [] b"
  by (induction i cur a rule: path_parts.induct) simp_all

lemma path_parts_names: "map fst (path_parts i cur s) = (rev cur @ hd (components s)) # tl (components s)"
proof (induction i cur s rule: path_parts.induct)
  case (2 i cur c cs)
  have "components cs = hd (components cs) # tl (components cs)" by simp
  then show ?case using 2 by (auto split: list.splits)
qed simp

lemma path_parts_positions: "(n, sep) \<in> set (path_parts i cur s) \<Longrightarrow> i \<le> sep \<and> sep \<le> i + length s"
  by (induction i cur s rule: path_parts.induct) (auto split: if_splits)

lemma map_fst_filter: "map fst (filter (\<lambda>(n, k). P n) xs) = filter P (map fst xs)"
  by (induction xs) auto

lemma names_components: "names s = filter (\<lambda>n. n \<noteq> []) (components s)"
  by (simp add: names_def parts_def map_fst_filter path_parts_names del: filter.simps)

lemma components_append_sep: "components (s @ path_sep # t) = components s @ components t"
  by (induction s) (auto split: list.splits simp: append_eq_Cons_conv)

lemma names_append: "names (s @ path_sep # t) = names s @ names t"
  by (simp add: names_components components_append_sep)

lemma parts_append:
  "parts (s @ path_sep # t) = parts s @ filter (\<lambda>(n, k). n \<noteq> []) (path_parts (Suc (length s)) [] t)"
  by (simp add: parts_def path_parts_append)

lemma names_Nil [simp]: "names [] = []" by (simp add: names_components)

lemma names_seps: "\<forall>c \<in> set t. c = path_sep \<Longrightarrow> names (s @ t) = names s"
proof (induction t rule: rev_induct)
  case (snoc c t)
  then show ?case using names_append [of "s @ t" "[]"] by simp
qed simp

lemma names_leading: "names (dropWhile (\<lambda>c. c = path_sep) s) = names s"
proof (induction s)
  case (Cons c s)
  then show ?case using names_append [of "[]" s] by simp
qed simp

lemma strip_split: "\<exists>t. s = rev (dropWhile P (rev s)) @ t \<and> (\<forall>c \<in> set t. P c)"
proof (intro exI conjI)
  show "s = rev (dropWhile P (rev s)) @ rev (takeWhile P (rev s))"
    by (metis rev_append rev_rev_ident takeWhile_dropWhile_id)
qed (auto dest: set_takeWhileD)

lemma names_strip: "names (strip_seps s) = names s"
proof -
  obtain t where t: "s = rev (dropWhile (\<lambda>c. c = path_sep) (rev s)) @ t" "\<forall>c \<in> set t. c = path_sep"
    using strip_split [of s "\<lambda>c. c = path_sep"] by blast
  have "names (rev (dropWhile (\<lambda>c. c = path_sep) (rev s))) = names s" using names_seps [OF t(2)] t(1) by metis
  moreover have "names [path_sep] = names s" if "\<forall>c \<in> set s. c = path_sep" using names_seps [OF that, of "[]"] names_seps [of "[path_sep]" "[]"] by simp
  ultimately show ?thesis by (simp add: strip_seps_def)
qed

lemma strip_absolute: "is_absolute s \<Longrightarrow> is_absolute (strip_seps s)"
proof -
  assume a: "is_absolute s"
  obtain t where t: "s = rev (dropWhile (\<lambda>c. c = path_sep) (rev s)) @ t" "\<forall>c \<in> set t. c = path_sep"
    using strip_split [of s "\<lambda>c. c = path_sep"] by blast
  have "rev (dropWhile (\<lambda>c. c = path_sep) (rev s)) = [] \<Longrightarrow> \<forall>c \<in> set s. c = path_sep" using t by simp
  moreover have "rev (dropWhile (\<lambda>c. c = path_sep) (rev s)) \<noteq> [] \<Longrightarrow> hd (rev (dropWhile (\<lambda>c. c = path_sep) (rev s))) = hd s"
    using t(1) by (metis hd_append2)
  ultimately show ?thesis using a by (auto simp: is_absolute_def strip_seps_def)
qed

text \<open>A name below a directory: its names are those of the directory and, from the position on, those of the rest.\<close>

lemma absolute_append: "is_absolute s \<Longrightarrow> is_absolute (s @ t)" by (simp add: is_absolute_def)

lemma base_of_home:
  assumes "is_absolute home" "name = home @ path_sep # rest"
  shows "names (base_of name (Suc (length home))) = names home" "is_absolute (base_of name (Suc (length home)))" "base_of name (Suc (length home)) \<noteq> []"
proof -
  have take: "take (Suc (length home)) name = home @ [path_sep]" unfolding assms(2) by simp
  have a: "is_absolute (strip_seps (home @ [path_sep]))" by (intro strip_absolute absolute_append assms(1))
  then have b: "base_of name (Suc (length home)) = strip_seps (home @ [path_sep])" unfolding base_of_def take by (auto simp: Let_def is_absolute_def)
  show "names (base_of name (Suc (length home))) = names home" unfolding b names_strip using names_append [of home "[]"] by simp
  show "is_absolute (base_of name (Suc (length home)))" using a b by simp
  then show "base_of name (Suc (length home)) \<noteq> []" by (auto simp: is_absolute_def)
qed

definition no_way_up :: "string list \<Rightarrow> bool" where "no_way_up cs \<longleftrightarrow> ''..'' \<notin> set cs"

lemma correctPath_no_way_up:
  assumes "correctPath path"
  shows "no_way_up (names path)"
proof -
  have "\<forall>n \<in> set (components (relative_part path)). n \<noteq> [dot, dot]" using assms good_name_plain by (auto simp: correctPath_iff)
  moreover have "set (components path) \<subseteq> {[], [dot]} \<union> set (components (relative_part path))"
    using components_append_sep [of "[dot]" "drop 2 path"] components_append_sep [of "[]" "drop 1 path"]
    by (auto simp: relative_part_def is_prefix_append dot_def path_sep_def)
  ultimately show ?thesis by (auto simp: no_way_up_def names_components dot_def)
qed

text \<open>\<open>getDirectory\<close> and what is left after it.\<close>

lemma getDirectory_split:
  "path_sep \<in> set s \<Longrightarrow> s = getDirectory s @ path_sep # drop (length (getDirectory s) + 1) s \<and> path_sep \<notin> set (drop (length (getDirectory s) + 1) s)"
proof -
  assume s: "path_sep \<in> set s"
  obtain a b where ab: "s = a @ path_sep # b" "path_sep \<notin> set b" using split_list_last [OF s] by blast
  have "dropWhile (\<lambda>c. c \<noteq> path_sep) (rev b @ path_sep # rev a) = path_sep # rev a"
    using ab(2) by (auto simp: dropWhile_append3 dropWhile_eq_Nil_conv)
  then have "getDirectory s = a" using s ab(1) by (simp add: getDirectory_def)
  then show ?thesis using ab by simp
qed

section \<open>Searches of a trusted path\<close>

text \<open>The searches that end at an inode, as rules.\<close>

inductive leads :: "bool \<Rightarrow> bool \<Rightarrow> fsys \<Rightarrow> nat \<Rightarrow> nat \<Rightarrow> nat \<Rightarrow> string list \<Rightarrow> nat \<Rightarrow> bool"
  for beneath follow :: bool and fs :: fsys and base :: nat where
  leads_end: "leads beneath follow fs base n d [] d"
| leads_here: "is_dir fs d \<Longrightarrow> leads beneath follow fs base n d cs i \<Longrightarrow> leads beneath follow fs base n d (''.'' # cs) i"
| leads_up: "is_dir fs d \<Longrightarrow> \<not> (beneath \<and> d = base) \<Longrightarrow> leads beneath follow fs base n (parent_of fs d) cs i \<Longrightarrow>
    leads beneath follow fs base n d (''..'' # cs) i"
| leads_down: "is_dir fs d \<Longrightarrow> c \<noteq> ''.'' \<Longrightarrow> c \<noteq> ''..'' \<Longrightarrow> entry fs d c = Some j \<Longrightarrow> link_of fs j = None \<Longrightarrow>
    leads beneath follow fs base n j cs i \<Longrightarrow> leads beneath follow fs base n d (c # cs) i"
| leads_link: "is_dir fs d \<Longrightarrow> c \<noteq> ''.'' \<Longrightarrow> c \<noteq> ''..'' \<Longrightarrow> entry fs d c = Some j \<Longrightarrow> link_of fs j = Some t \<Longrightarrow> cs \<noteq> [] \<or> follow \<Longrightarrow>
    \<not> (beneath \<and> is_absolute t) \<Longrightarrow> leads beneath follow fs base n (if is_absolute t then fs_root fs else d) (names t @ cs) i \<Longrightarrow>
    leads beneath follow fs base (Suc n) d (c # cs) i"

lemma walk_leads: "walk beneath follow n fs base d cs = Found i \<Longrightarrow> leads beneath follow fs base n d cs i"
proof (induction beneath follow n fs base d cs rule: walk.induct)
  case (2 beneath follow n fs base d c cs)
  have d: "is_dir fs d" using 2(6) by (auto simp: walk.simps(2) split: if_splits)
  show ?case
  proof (cases "c = ''.'' \<or> c = ''..''")
    case True
    then show ?thesis using 2(1,2,6) d by (auto simp: walk.simps(2) intro: leads_here leads_up split: if_splits)
  next
    case False
    then obtain j where j: "entry fs d c = Some j" using 2(6) d by (auto simp: walk.simps(2) split: option.splits if_splits)
    show ?thesis
    proof (cases "link_of fs j")
      case None
      then show ?thesis using 2(3) [of j] 2(6) False d j by (auto simp: walk.simps(2) intro: leads_down)
    next
      case (Some t)
      have n: "n = Suc (n - 1)" "n \<noteq> 0" "cs \<noteq> [] \<or> follow" "\<not> (cs = [] \<and> \<not> follow)" "\<not> (beneath \<and> is_absolute t)"
        using 2(6) False d j Some by (auto simp: walk.simps(2) split: if_splits)
      have "leads beneath follow fs base (n - 1) (if is_absolute t then fs_root fs else d) (names t @ cs) i"
        using 2(4,5) [of j t] 2(6) False d j Some n by (simp add: walk.simps(2) split: if_splits)
      then show ?thesis using False d j Some n by (subst n(1)) (intro leads_link; auto)
    qed
  qed
qed (auto intro: leads_end)

lemma leads_walk: "leads beneath follow fs base n d cs i \<Longrightarrow> n \<le> m \<Longrightarrow> walk beneath follow m fs base d cs = Found i"
proof (induction arbitrary: m rule: leads.induct)
  case (leads_link d c j t cs n i)
  then show ?case by (cases m) (auto simp: walk.simps(2))
qed (auto simp: walk.simps(2))

lemma walk_extends:
  assumes "extends fs fs'" "fs_wf fs" "walk beneath follow n fs base d cs = Found i"
  shows "walk beneath follow n fs' base d cs = Found i"
proof -
  have down: "entry fs' d c = Some j \<and> link_of fs' j = link_of fs j" if "entry fs d c = Some j" for d c j
    using extends_entry [OF assms(1) that] extendsD [OF assms(1) fs_wfD(1) [OF assms(2) that]] by simp
  have root: "fs_root fs' = fs_root fs" using assms(1) by (simp add: extends_def)
  have "leads beneath follow fs' base n d cs i"
    using walk_leads [OF assms(3)]
  proof induction
    case (leads_up d n cs i)
    then show ?case using extends_dir [OF assms(1) leads_up(1)] leads.leads_up [of fs' d] by auto
  next
    case (leads_down d c j n cs i)
    then show ?case using extends_dir [OF assms(1) leads_down(1)] down [OF leads_down(4)] by (intro leads.leads_down [of fs' d c j]) auto
  next
    case (leads_link d c j t cs n i)
    then show ?case using extends_dir [OF assms(1) leads_link(1)] down [OF leads_link(4)] root
      by (intro leads.leads_link [of fs' d c j t]) auto
  qed (auto intro: leads.intros dest: extends_dir [OF assms(1)])
  then show ?thesis by (rule leads_walk) simp
qed

lemma leads_append:
  assumes "leads False True fs base n d xs i" "xs = cs @ cs'"
  shows "\<exists>j m. m \<le> n \<and> leads False True fs base n d cs j \<and> leads False True fs base m j cs' i"
  using assms
proof (induction arbitrary: cs rule: leads.induct)
  case (leads_here d n cs0 i)
  then show ?case by (cases cs) (auto intro: leads.intros)
next
  case (leads_up d n cs0 i)
  then show ?case by (cases cs) (auto intro: leads.intros)
next
  case (leads_down d c j n cs0 i)
  then show ?case by (cases cs) (auto intro: leads.intros)
next
  case (leads_link d c j t cs0 n i)
  show ?case
  proof (cases cs)
    case Nil
    then show ?thesis using leads_link by (auto intro: leads.intros)
  next
    case (Cons x cs1)
    then have "names t @ cs0 = (names t @ cs1) @ cs'" "x = c" using leads_link.prems by simp_all
    from leads_link.IH [OF this(1)] obtain k m where "m \<le> n"
        "leads False True fs base n (if is_absolute t then fs_root fs else d) (names t @ cs1) k" "leads False True fs base m k cs' i" by blast
    then show ?thesis using leads_link(1-7) Cons \<open>x = c\<close> leads.leads_link [of fs d c j t cs1 True False base n k]
      by (intro exI [of _ k] exI [of _ m]) auto
  qed
qed (auto intro: leads.intros)

lemma leads_base: "leads False follow fs base n d cs i \<Longrightarrow> leads False follow fs base' n d cs i"
  by (induction rule: leads.induct) (auto intro: leads.intros)

text \<open>The first step of a search, as one search of a name.\<close>

lemma leads_single:
  assumes "leads False True fs base m d (c # cs) i" "m \<le> 40"
  shows "\<exists>j k. k \<le> 40 \<and> walk False True 40 fs 0 d [c] = Found j \<and> leads False True fs base k j cs i"
proof -
  obtain j k where "k \<le> m" "leads False True fs base m d [c] j" "leads False True fs base k j cs i"
    using leads_append [OF assms(1), of "[c]" cs] by auto
  then show ?thesis using leads_walk [OF leads_base [of True fs base m d "[c]" j 0] assms(2)] assms(2) by (meson le_trans)
qed

section \<open>Writing stays below\<close>

text \<open>An operation that writes below \<open>b\<close> only, and gives an inode that is below.\<close>

definition works_below :: "nat \<Rightarrow> nat fop \<Rightarrow> fsys \<Rightarrow> bool" where
  "works_below b m fs \<longleftrightarrow> grows b fs (fst (m fs)) \<and> (\<forall>i. snd (m fs) = Some i \<longrightarrow> below (fst (m fs)) b i)"

lemma works_belowI: "m fs = (fs', r) \<Longrightarrow> grows b fs fs' \<Longrightarrow> (\<And>i. r = Some i \<Longrightarrow> below fs' b i) \<Longrightarrow> works_below b m fs"
  by (simp add: works_below_def)

lemma works_belowD: "works_below b m fs \<Longrightarrow> m fs = (fs', r) \<Longrightarrow> grows b fs fs' \<and> (\<forall>i. r = Some i \<longrightarrow> below fs' b i)"
  by (simp add: works_below_def)

lemma syscall_below:
  assumes "fs_wf fs" "\<And>k. works_below b f (fs\<lparr>fs_calls := k\<rparr>)"
  shows "works_below b (syscall f) fs"
  using assms(2) [of "Suc (fs_calls fs)"] grows_calls [OF assms(1)] grows_trans [OF grows_calls [OF assms(1)]]
  by (auto simp: syscall_def works_below_def Let_def)

lemma bind_below:
  assumes "works_below b m fs" "\<And>fs' i. m fs = (fs', Some i) \<Longrightarrow> grows b fs fs' \<Longrightarrow> below fs' b i \<Longrightarrow> works_below b (k i) fs'"
  shows "works_below b (fop_bind m k) fs"
proof (cases "m fs")
  case (Pair fs' r)
  note g = works_belowD [OF assms(1) Pair]
  show ?thesis
  proof (cases r)
    case None
    then show ?thesis using Pair g by (simp add: works_below_def fop_bind_def)
  next
    case (Some i)
    then have "works_below b (k i) fs'" using Pair g assms(2) by blast
    then show ?thesis using Pair g Some grows_trans by (auto simp: works_below_def fop_bind_def)
  qed
qed

lemma emptied_grows:
  assumes "fs_wf fs" "below fs b i"
  shows "grows b fs (emptied i fs)" "below (emptied i fs) b i"
proof -
  show g: "grows b fs (emptied i fs)"
  proof (cases "\<exists>a c. fs_node fs i = Some (Reg a c)")
    case True
    then show ?thesis using set_node_grows [OF assms] by (auto simp: emptied_def same_shape_def)
  next
    case False
    then show ?thesis using grows_refl [OF assms(1)] by (auto simp: emptied_def split: option.split inode.split)
  qed
  show "below (emptied i fs) b i" using growsD(3) [OF g assms(2)] .
qed

lemma finish_open_below:
  assumes "fs_wf fs" "found_below fs b r"
  shows "works_below b (finish_open h r) fs"
proof (cases r)
  case (Found i)
  then show ?thesis using assms emptied_grows [OF assms(1)] grows_refl [OF assms(1)]
    by (auto simp: finish_open_def found_below_def works_below_def)
next
  case (Absent d name)
  then show ?thesis using assms add_entry_grows [OF assms(1), of b d "Reg (root_attr 384) []" name] grows_refl [OF assms(1)]
    by (auto simp: finish_open_def found_below_def works_below_def fresh_node_def)
qed (simp add: finish_open_def works_below_def grows_refl assms(1))

lemma none_below: "fs_wf fs \<Longrightarrow> works_below b (\<lambda>fs. (fs, None)) fs"
  by (simp add: works_below_def grows_refl)

lemma found_calls [simp]: "found_below (fs\<lparr>fs_calls := k\<rparr>) b r = found_below fs b r"
  by (simp add: found_below_def split: found.split)

lemma k_openat_below:
  assumes "fs_wf fs" "below fs b d" "name \<noteq> ''..''"
  shows "works_below b (k_openat h False d name) fs"
  unfolding k_openat_def
proof (rule syscall_below [OF assms(1)])
  fix k
  show "works_below b (\<lambda>fs. if name = [] then (fs, None) else finish_open h (walk False False 40 fs 0 d [name]) fs) (fs\<lparr>fs_calls := k\<rparr>)"
    using finish_open_below [of "fs\<lparr>fs_calls := k\<rparr>" b "walk False False 40 fs 0 d [name]" h]
      walk_name [OF assms(2,3), of 40 0] none_below [of "fs\<lparr>fs_calls := k\<rparr>" b] assms(1)
    by (simp add: works_below_def)
qed

lemma k_openat2_below:
  assumes "fs_wf fs" "below fs b b"
  shows "works_below b (k_openat2 h follow b path) fs"
  unfolding k_openat2_def
proof (rule syscall_below [OF assms(1)])
  fix k
  show "works_below b (\<lambda>fs. if is_absolute path then (fs, None) else finish_open h (walk True follow 40 fs b b (names path)) fs) (fs\<lparr>fs_calls := k\<rparr>)"
    using finish_open_below [of "fs\<lparr>fs_calls := k\<rparr>" b "walk True follow 40 fs b b (names path)" h]
      walk_beneath [OF assms, of follow 40 "names path"] none_below [of "fs\<lparr>fs_calls := k\<rparr>" b] assms(1)
    by (simp add: works_below_def)
qed

lemma open_dirs_below:
  assumes "fs_wf fs" "below fs b d" "no_way_up cs"
  shows "works_below b (open_dirs cs d) fs"
  using assms
proof (induction cs arbitrary: d fs)
  case Nil
  then show ?case by (simp add: works_below_def grows_refl)
next
  case (Cons c cs)
  have "c \<noteq> ''..''" "no_way_up cs" using Cons.prems(3) by (auto simp: no_way_up_def)
  then show ?case
    unfolding open_dirs.simps
    by (intro bind_below k_openat_below Cons) (auto intro: growsD(2))
qed

text \<open>The fallback: the names of the directory, then that of the file.\<close>

lemma file_name_no_way_up:
  assumes "no_way_up (names relative)"
  shows "no_way_up (names (getDirectory relative)) \<and>
    (if getDirectory relative \<noteq> [] then drop (length (getDirectory relative) + 1) relative else relative) \<noteq> ''..'' \<or> is_absolute relative"
proof (cases "path_sep \<in> set relative")
  case True
  note s = getDirectory_split [OF True]
  let ?f = "drop (length (getDirectory relative) + 1) relative"
  have n: "names relative = names (getDirectory relative) @ names ?f" using s names_append by metis
  have "names ?f = (if ?f = [] then [] else [?f])" using s by (simp add: names_components components_no_sep)
  then show ?thesis using assms n s by (cases "getDirectory relative") (auto simp: no_way_up_def is_absolute_def split: if_splits)
next
  case False
  then have "getDirectory relative = []" "names relative = (if relative = [] then [] else [relative])"
    by (simp_all add: getDirectory_def names_components components_no_sep)
  then show ?thesis using assms by (auto simp: no_way_up_def)
qed

lemma open_fallback_below:
  assumes "fs_wf fs" "no_way_up (names relative)" "\<not> is_absolute relative"
  shows "works_below b (open_fallback h b relative) fs"
  using file_name_no_way_up [OF assms(2)] assms(3) unfolding open_fallback_def Let_def
  by (intro bind_below open_dirs_below k_openat_below assms(1)) (auto intro: growsD(2) below_self)

text \<open>The home \<open>b\<close> of a task: where its path leads now, links included.\<close>

definition home_at :: "fsys \<Rightarrow> string \<Rightarrow> nat \<Rightarrow> bool" where
  "home_at fs home b \<longleftrightarrow> is_absolute home \<and> walk False True 40 fs 0 (fs_root fs) (names home) = Found b"

lemma home_grows:
  assumes "fs_wf fs" "grows b' fs fs'" "home_at fs home b"
  shows "home_at fs' home b"
proof -
  have "fs_root fs' = fs_root fs" using growsD(1) [OF assms(2)] by (simp add: extends_def)
  then show ?thesis using walk_extends [OF growsD(1) [OF assms(2)] assms(1)] assms(3) by (simp add: home_at_def)
qed

lemma home_calls [simp]: "home_at (fs\<lparr>fs_calls := k\<rparr>) home b = home_at fs home b"
  by (simp add: home_at_def)

text \<open>Opening a directory, or to read, changes nothing.\<close>

definition only_calls :: "fsys \<Rightarrow> fsys \<Rightarrow> bool" where "only_calls fs fs' \<longleftrightarrow> (\<exists>k. fs' = fs\<lparr>fs_calls := k\<rparr>)"

lemma only_calls_refl [simp]: "only_calls fs fs" by (auto simp: only_calls_def intro: exI [of _ "fs_calls fs"])

lemma only_calls_trans: "only_calls fs fs' \<Longrightarrow> only_calls fs' fs'' \<Longrightarrow> only_calls fs fs''" by (auto simp: only_calls_def)

lemma only_calls_grows: "only_calls fs fs' \<Longrightarrow> fs_wf fs \<Longrightarrow> grows b fs fs'" by (auto simp: only_calls_def)

definition looks :: "how \<Rightarrow> bool" where "looks h \<longleftrightarrow> \<not> o_creat h \<and> \<not> o_trunc h"

lemma looks_modes [simp]: "looks O_DIRECTORY" "looks O_RDONLY" by (simp_all add: looks_def O_DIRECTORY_def O_RDONLY_def)

lemma finish_looks: "looks h \<Longrightarrow> fst (finish_open h r fs) = fs"
  by (auto simp: finish_open_def looks_def split: found.split)

lemma finish_found: "looks h \<Longrightarrow> finish_open h r fs = (fs', Some i) \<Longrightarrow> r = Found i \<and> (o_directory h \<longrightarrow> is_dir fs i)"
  by (auto simp: finish_open_def looks_def split: found.splits if_splits)

lemma finish_directory: "finish_open O_DIRECTORY r fs = (fs', Some i) \<Longrightarrow> r = Found i \<and> is_dir fs i"
  by (auto simp: finish_open_def O_DIRECTORY_def split: found.splits if_splits)

lemma syscall_calls: "(\<And>fs. only_calls fs (fst (f fs))) \<Longrightarrow> only_calls fs (fst (syscall f fs))"
proof -
  assume "\<And>fs. only_calls fs (fst (f fs))"
  moreover have "only_calls fs (fs\<lparr>fs_calls := Suc (fs_calls fs)\<rparr>)" by (auto simp: only_calls_def)
  ultimately show ?thesis using only_calls_trans by (auto simp: syscall_def Let_def)
qed

lemma looking_calls:
  assumes "looks h"
  shows "only_calls fs (fst (k_open h path fs))" "only_calls fs (fst (k_openat h follow d name fs))" "only_calls fs (fst (k_openat2 h follow d path fs))"
  unfolding k_open_def k_openat_def k_openat2_def by (intro syscall_calls; simp add: finish_looks [OF assms])+

lemma k_open_found:
  assumes "k_open O_DIRECTORY path fs = (fs', Some i)"
  shows "walk False True 40 fs 0 (start_dir fs path) (names path) = Found i \<and> is_dir fs i"
  using assms by (auto simp: k_open_def syscall_def Let_def dest!: finish_directory split: if_splits)

lemma k_openat_found:
  assumes "k_openat O_DIRECTORY follow d name fs = (fs', Some i)"
  shows "walk False follow 40 fs 0 d [name] = Found i \<and> is_dir fs i"
  using assms by (auto simp: k_openat_def syscall_def Let_def dest!: finish_directory split: if_splits)

text \<open>A path in the home: its base is the home, and the rest is relative.\<close>

lemma relative_plain: "\<not> is_absolute (relative_of name pos)" "names (relative_of name pos) = names (drop pos name)"
  using hd_dropWhile [of "\<lambda>c. c = path_sep" "drop pos name"] names_leading by (auto simp: relative_of_def is_absolute_def)

lemma open_in_home_below:
  assumes "fs_wf fs" "home_at fs home b" "name = home @ path_sep # rest" "no_way_up (names rest)" "relative_of name (Suc (length home)) \<noteq> []"
  shows "works_below b (openFileWithinTrustedPath openat2 name h (Suc (length home)) follow) fs"
proof -
  let ?base = "base_of name (Suc (length home))" and ?rel = "relative_of name (Suc (length home))"
  note base = base_of_home [OF _ assms(3)]
  have up: "no_way_up (names ?rel)" using assms(3,4) relative_plain(2) by simp
  show ?thesis
  proof (cases "k_open O_DIRECTORY ?base fs")
    case (Pair fs1 r)
    have c: "only_calls fs fs1" using looking_calls(1) [of O_DIRECTORY fs ?base] Pair by simp
    note g = only_calls_grows [OF c assms(1), of b]
    have wf: "fs_wf fs1" using growsD(2) [OF g] .
    have found: "r = Some i \<Longrightarrow> i = b" for i
      using k_open_found [of ?base fs fs1 i] Pair assms(2) base by (auto simp: home_at_def start_dir_def)
    have inner: "works_below b (\<lambda>fs. case (if openat2 then k_openat2 h follow b ?rel fs else (fs, None)) of
        (fs, Some fd) \<Rightarrow> (fs, Some fd) | (fs, None) \<Rightarrow> open_fallback h b ?rel fs) fs1"
    proof (cases "if openat2 then k_openat2 h follow b ?rel fs1 else (fs1, None)")
      case (Pair fs2 q)
      have q: "grows b fs1 fs2 \<and> (\<forall>i. q = Some i \<longrightarrow> below fs2 b i)"
        using Pair works_belowD [OF k_openat2_below [OF wf below_self, of b h follow ?rel]] grows_refl [OF wf] by (auto split: if_splits)
      have "works_below b (open_fallback h b ?rel) fs2"
        using open_fallback_below [OF _ up relative_plain(1)] growsD(2) q by blast
      then show ?thesis using Pair q grows_trans by (cases q) (auto simp: works_below_def)
    qed
    have "works_below b (openFileWithinTrustedPath openat2 name h (Suc (length home)) follow) fs =
        works_below b (fop_bind (k_open O_DIRECTORY ?base) (\<lambda>baseFd fs. case (if openat2 then k_openat2 h follow baseFd ?rel fs else (fs, None)) of
          (fs, Some fd) \<Rightarrow> (fs, Some fd) | (fs, None) \<Rightarrow> open_fallback h baseFd ?rel fs)) fs"
      using assms(5) by (simp add: openFileWithinTrustedPath_def Let_def)
    then show ?thesis
      using Pair inner found g grows_trans [OF g] by (cases r) (auto simp: works_below_def fop_bind_def)
  qed
qed

lemma correctPath_in_home:
  assumes "correctPath (home @ path_sep # rest)" "is_absolute home"
  shows "no_way_up (names rest)" "relative_of (home @ path_sep # rest) (Suc (length home)) \<noteq> []" "rest \<noteq> []"
proof -
  obtain h where h: "home = path_sep # h" using assms(2) by (cases home) (auto simp: is_absolute_def)
  have "relative_part (home @ path_sep # rest) = h @ path_sep # rest"
    unfolding h by (simp add: relative_part_def is_prefix_append dot_def path_sep_def)
  then have good: "\<forall>n \<in> set (components rest). good_name n" using assms(1) by (simp add: correctPath_iff components_append_sep)
  show "no_way_up (names rest)" using correctPath_no_way_up [OF assms(1)] by (simp add: names_append no_way_up_def)
  have bad: "\<not> good_name []" by (simp add: good_name_def)
  show ne: "rest \<noteq> []" using good bad by auto
  have "hd rest \<noteq> path_sep" using good bad ne by (cases rest) (auto split: if_splits)
  then show "relative_of (home @ path_sep # rest) (Suc (length home)) \<noteq> []" using ne by (cases rest) (auto simp: relative_of_def)
qed

section \<open>Making the directories of a file\<close>

text \<open>Making directories changes no file.\<close>

definition file_of :: "fsys \<Rightarrow> nat \<Rightarrow> string option" where
  "file_of fs i = (case fs_node fs i of Some (Reg a c) \<Rightarrow> Some c | _ \<Rightarrow> None)"

definition makes :: "nat \<Rightarrow> fsys \<Rightarrow> fsys \<Rightarrow> bool" where
  "makes b fs fs' \<longleftrightarrow> grows b fs fs' \<and> (\<forall>i. file_of fs' i = file_of fs i)"

lemma file_of_calls [simp]: "file_of (fs\<lparr>fs_calls := k\<rparr>) = file_of fs"
  by (intro ext) (simp add: file_of_def)

lemma makes_refl: "fs_wf fs \<Longrightarrow> makes b fs fs" by (simp add: makes_def grows_refl)

lemma makes_calls [simp]: "fs_wf fs \<Longrightarrow> makes b fs (fs\<lparr>fs_calls := k\<rparr>)" by (simp add: makes_def)

lemma only_calls_makes: "only_calls fs fs' \<Longrightarrow> fs_wf fs \<Longrightarrow> makes b fs fs'" by (auto simp: only_calls_def)

lemma makes_trans: "makes b fs fs' \<Longrightarrow> makes b fs' fs'' \<Longrightarrow> makes b fs fs''" using grows_trans by (simp add: makes_def) blast

lemma makesD: "makes b fs fs' \<Longrightarrow> grows b fs fs'" "makes b fs fs' \<Longrightarrow> fs_wf fs'" "makes b fs fs' \<Longrightarrow> below fs b i \<Longrightarrow> below fs' b i"
    "makes b fs fs' \<Longrightarrow> file_of fs' i = file_of fs i"
  using growsD(2,3) by (auto simp: makes_def)

lemma set_node_makes:
  assumes "fs_wf fs" "below fs b i" "fs_node fs i = Some v" "same_shape v w" "\<forall>a c. v = Reg a c \<longrightarrow> (\<exists>a'. w = Reg a' c)"
  shows "makes b fs (set_node i w fs)"
  unfolding makes_def
proof (intro conjI allI set_node_grows [OF assms(1-4)])
  show "file_of (set_node i w fs) j = file_of fs j" for j
    using assms(3-5) by (auto simp: file_of_def set_node_def same_shape_def split: inode.splits)
qed

lemma add_dir_makes:
  assumes "fs_wf fs" "below fs b d" "is_dir fs d" "entry fs d name = None"
  shows "makes b fs (add_entry d name (Dir a d []) fs)"
  unfolding makes_def
proof (intro conjI allI add_entry_grows(1) [OF assms(1-3) _ assms(4)])
  show "fresh_node d (Dir a d [])" by (simp add: fresh_node_def)
  show "file_of (add_entry d name (Dir a d []) fs) j = file_of fs j" for j
    using assms(3) fs_wfD(4) [OF assms(1)] by (auto simp: file_of_def add_entry_def set_node_def is_dir_def split: option.splits inode.splits)
qed

lemma k_mkdirat_makes:
  assumes "fs_wf fs" "below fs b d" "k_mkdirat d c fs = (fs', r)"
  shows "makes b fs fs'"
proof -
  let ?fs = "fs\<lparr>fs_calls := Suc (fs_calls fs)\<rparr>"
  have "is_dir fs d \<Longrightarrow> entry fs d c = None \<Longrightarrow> makes b ?fs (add_entry d c (Dir (root_attr 448) d []) ?fs)"
    using add_dir_makes [of ?fs b d] assms(1,2) by simp
  moreover have "makes b fs ?fs" using assms(1) by simp
  ultimately show ?thesis using assms(3) makes_trans by (auto simp: k_mkdirat_def syscall_def Let_def split: if_splits)
qed

lemma with_attr_shape: "same_shape v (with_attr f v)"
  by (auto simp: same_shape_def with_attr_def split: inode.split)

lemma change_attr_makes:
  assumes "fs_wf fs" "below fs b i"
  shows "makes b fs (fst (change_attr f i fs))"
proof -
  let ?fs = "fs\<lparr>fs_calls := Suc (fs_calls fs)\<rparr>"
  have "fs_node fs i = Some v \<Longrightarrow> makes b ?fs (set_node i (with_attr f v) ?fs)" for v
    using set_node_makes [of ?fs b i v] assms with_attr_shape by (simp add: with_attr_def)
  moreover have "makes b fs ?fs" using assms(1) by simp
  ultimately show ?thesis using makes_trans by (auto simp: change_attr_def syscall_def Let_def split: option.split)
qed

lemma k_chownat_makes: "fs_wf fs \<Longrightarrow> below fs b d \<Longrightarrow> makes b fs (fst (k_chownat user d c fs))"
  using change_attr_makes below_entry by (auto simp: k_chownat_def split: option.split)

text \<open>What is made for a name of the untrusted part.\<close>

definition untrusted :: "nat \<Rightarrow> (string \<times> nat) list \<Rightarrow> bool" where
  "untrusted pos ps \<longleftrightarrow> (\<forall>(c, sep) \<in> set ps. pos \<le> sep) \<and> no_way_up (map fst ps)"

lemma create_loop_makes:
  assumes "fs_wf fs" "below fs b d" "untrusted pos ps"
  shows "makes b fs (fst (create_loop user pos ps d fs))"
  using assms
proof (induction ps arbitrary: d fs)
  case Nil
  then show ?case by (simp add: makes_refl)
next
  case (Cons part ps)
  obtain c sep where part: "part = (c, sep)" by (cases part)
  have c: "pos \<le> sep" "c \<noteq> ''..''" "untrusted pos ps" using Cons.prems(3) by (auto simp: part untrusted_def no_way_up_def)
  obtain fs1 made where m: "k_mkdirat d c fs = (fs1, made)" by (cases "k_mkdirat d c fs")
  note g1 = k_mkdirat_makes [OF Cons.prems(1,2) m]
  let ?own = "if made = Some Made \<and> user \<noteq> 0 then k_chownat user d c fs1 else (fs1, Some ())"
  obtain fs2 u where u: "?own = (fs2, u)" by (cases ?own)
  have g12: "makes b fs1 fs2"
    using u k_chownat_makes [OF makesD(2,3) [OF g1], of d user c] Cons.prems(2) makes_refl [OF makesD(2) [OF g1], of b] by (auto split: if_splits)
  note g2 = makes_trans [OF g1 g12]
  obtain fs3 r where r: "k_openat O_DIRECTORY False d c fs2 = (fs3, r)" by (cases "k_openat O_DIRECTORY False d c fs2")
  note b3 = works_belowD [OF k_openat_below [OF makesD(2,3) [OF g2] c(2), OF Cons.prems(2)] r]
  have "only_calls fs2 fs3" using looking_calls(2) [of O_DIRECTORY fs2 False d c] r by simp
  then have g3: "makes b fs fs3" using makes_trans [OF g2 only_calls_makes [OF _ makesD(2) [OF g2]]] by blast
  have "r = Some i \<Longrightarrow> makes b fs (fst (create_loop user pos ps i fs3))" for i
    using makes_trans [OF g3 Cons.IH [OF makesD(2) [OF g3] _ c(3)]] b3 by blast
  then show ?case
    using m u r g1 g2 g3 c(1) by (auto simp: part Let_def split: option.split mkdir_result.split if_splits)
qed

text \<open>The trusted part: its directories are gone through as a search of the whole would.\<close>

lemma create_loop_trusted:
  assumes "fs_wf fs" "leads False True fs base m d (map fst ps) b" "m \<le> 40" "\<forall>(c, sep) \<in> set ps. sep < pos" "untrusted pos ps'"
  shows "makes b fs (fst (create_loop user pos (ps @ ps') d fs))"
  using assms(1-4)
proof (induction ps arbitrary: d fs m)
  case Nil
  then have "d = b" by (auto elim: leads.cases)
  then show ?case using create_loop_makes [OF Nil(1) below_self assms(5)] by simp
next
  case (Cons part ps)
  obtain c sep where part: "part = (c, sep)" by (cases part)
  have sep: "sep < pos" "\<forall>(c, sep) \<in> set ps. sep < pos" using Cons.prems(4) by (auto simp: part)
  obtain j k where j: "k \<le> 40" "walk False True 40 fs 0 d [c] = Found j" "leads False True fs base k j (map fst ps) b"
    using leads_single [OF Cons.prems(2) [unfolded part list.map fst_conv] Cons.prems(3)] by blast
  obtain fs1 r where r: "k_openat O_DIRECTORY True d c fs = (fs1, r)" by (cases "k_openat O_DIRECTORY True d c fs")
  have calls: "only_calls fs fs1" using looking_calls(2) [of O_DIRECTORY fs True d c] r by simp
  note g = only_calls_makes [OF calls Cons.prems(1), of b]
  have "leads False True fs1 base k j (map fst ps) b"
    using calls walk_leads leads_walk [OF j(3) order_refl] by (auto simp: only_calls_def)
  then have "makes b fs1 (fst (create_loop user pos (ps @ ps') j fs1))" using Cons.IH makesD(2) [OF g] j(1) sep(2) by blast
  moreover have "r = Some i \<Longrightarrow> i = j" for i using k_openat_found [of True d c fs fs1 i] r j(2) by simp
  ultimately show ?case using g r sep(1) makes_trans [OF g] by (auto simp: part split: option.split)
qed

text \<open>The directories of a path in the home.\<close>

lemma parts_trusted: "(c, sep) \<in> set (parts home) \<Longrightarrow> sep \<le> length home"
  using path_parts_positions [of c sep 0 "[]" home] by (auto simp: parts_def)

lemma parts_untrusted:
  assumes "no_way_up (names rest)"
  shows "untrusted (Suc (length home)) (filter (\<lambda>(n, k). n \<noteq> []) (path_parts (Suc (length home)) [] rest))"
proof -
  have "map fst (filter (\<lambda>(n, k). n \<noteq> []) (path_parts (Suc (length home)) [] rest)) = names rest"
    by (simp add: map_fst_filter path_parts_names names_components del: filter.simps)
  then show ?thesis using assms path_parts_positions by (fastforce simp: untrusted_def)
qed

lemma createDir_makes:
  assumes "fs_wf fs" "home_at fs home b" "dir = home \<or> dir = home @ path_sep # rest" "no_way_up (names rest)"
  shows "makes b fs (fst (createDir dir user (Suc (length home)) fs))"
proof -
  obtain ps' where ps: "parts dir = parts home @ ps'" "untrusted (Suc (length home)) ps'"
    using assms(3) parts_append [of home rest] parts_untrusted [OF assms(4), of home] by (force simp: untrusted_def no_way_up_def)
  have abs: "is_absolute dir" using assms(2,3) absolute_append by (auto simp: home_at_def)
  have root: "start_dir fs ''/'' = fs_root fs" "names ''/'' = []"
    using names_seps [of "''/''" "[]"] by (simp_all add: start_dir_def is_absolute_def path_sep_def)
  obtain fs1 r where r: "k_open O_DIRECTORY ''/'' fs = (fs1, r)" by (cases "k_open O_DIRECTORY ''/'' fs")
  have calls: "only_calls fs fs1" using looking_calls(1) [of O_DIRECTORY fs "''/''"] r by simp
  note g = only_calls_makes [OF calls assms(1), of b]
  have "home_at fs1 home b" "fs_root fs1 = fs_root fs" using assms(2) calls by (auto simp: only_calls_def)
  then have "leads False True fs1 0 40 (fs_root fs) (map fst (parts home)) b" using walk_leads by (simp add: home_at_def names_def)
  then have "makes b fs1 (fst (create_loop user (Suc (length home)) (parts dir) (fs_root fs) fs1))"
    using create_loop_trusted [OF makesD(2) [OF g] _ order_refl _ ps(2)] parts_trusted unfolding ps(1) by (fastforce simp: less_Suc_eq_le)
  moreover have "r = Some i \<Longrightarrow> i = fs_root fs" for i using k_open_found [of "''/''" fs fs1 i] r root by simp
  ultimately show ?thesis using g r abs makes_trans [OF g] by (cases r) (auto simp: createDir_def Let_def)
qed

section \<open>Writing, reading and deleting in a home\<close>

lemma getDirectory_home:
  "getDirectory (home @ path_sep # rest) = (if path_sep \<in> set rest then home @ path_sep # getDirectory rest else home)"
proof (cases "path_sep \<in> set rest")
  case True
  then show ?thesis by (simp add: getDirectory_def dropWhile_append1)
next
  case False
  then have "dropWhile (\<lambda>c. c \<noteq> path_sep) (rev rest @ path_sep # rev home) = path_sep # rev home"
    by (auto simp: dropWhile_append3 dropWhile_eq_Nil_conv)
  then show ?thesis using False by (simp add: getDirectory_def)
qed

lemma directory_no_way_up: "no_way_up (names rest) \<Longrightarrow> no_way_up (names (getDirectory rest))"
proof (cases "path_sep \<in> set rest")
  case True
  then have "names rest = names (getDirectory rest) @ names (drop (length (getDirectory rest) + 1) rest)"
    using getDirectory_split names_append by metis
  then show "no_way_up (names rest) \<Longrightarrow> ?thesis" by (simp add: no_way_up_def)
qed (simp add: getDirectory_def no_way_up_def)

lemma make_dir_makes:
  assumes "fs_wf fs" "home_at fs home b" "no_way_up (names rest)"
  shows "makes b fs (make_dir_of (home @ path_sep # rest) user (Suc (length home)) fs)"
proof -
  have "getDirectory (home @ path_sep # rest) = home \<or> getDirectory (home @ path_sep # rest) = home @ path_sep # getDirectory rest"
    using getDirectory_home [of home rest] by simp
  note dirs = createDir_makes [OF _ _ this directory_no_way_up [OF assms(3)], of _ b user]
  let ?dir = "getDirectory (home @ path_sep # rest)"
  obtain fs1 found where q: "dirExistsFollowingSymLink ?dir fs = (fs1, found)" by fastforce
  then have c: "only_calls fs fs1"
    by (auto simp: dirExistsFollowingSymLink_def k_stat_def syscall_def Let_def only_calls_def split: if_splits option.splits prod.splits)
  note g = only_calls_makes [OF c assms(1), of b]
  have "makes b fs1 (fst (createDir ?dir user (Suc (length home)) fs1))"
    using dirs [OF makesD(2) [OF g] home_grows [OF assms(1) makesD(1) [OF g] assms(2)]] .
  then show ?thesis using makes_trans [OF g] g makes_refl [OF assms(1)] q by (simp add: make_dir_of_def Let_def)
qed

lemma set_contents_grows: "fs_wf fs \<Longrightarrow> below fs b i \<Longrightarrow> grows b fs (set_contents i data fs)"
  using set_node_grows [of fs b i] grows_refl [of fs b] by (auto simp: set_contents_def same_shape_def split: option.split inode.split)

lemma finish_write_makes: "fs_wf fs \<Longrightarrow> below fs b i \<Longrightarrow> makes b fs (finish_write name user i fs)"
proof -
  assume a: "fs_wf fs" "below fs b i"
  let ?fs = "if user \<noteq> 0 then fst (change_attr (owned user) i fs) else fs"
  have g: "makes b fs ?fs" using change_attr_makes [OF a] makes_refl [OF a(1)] by simp
  show ?thesis
    using makes_trans [OF g change_attr_makes [OF makesD(2) [OF g] makesD(3) [OF g a(2)]]] by (simp add: finish_write_def Let_def)
qed

lemma writeFile_grows:
  assumes "fs_wf fs" "home_at fs home b" "fs_writeFile openat2 answers (home @ path_sep # rest) data user (Suc (length home)) fs = Some (fs', r)"
  shows "grows b fs fs'"
proof (cases "correctPath (home @ path_sep # rest)")
  case False
  then show ?thesis using assms(3) grows_refl [OF assms(1)] by (simp add: fs_writeFile_def)
next
  case True
  let ?name = "home @ path_sep # rest" and ?pos = "Suc (length home)"
  let ?fs1 = "make_dir_of ?name user ?pos fs"
  have abs: "is_absolute home" using assms(2) by (simp add: home_at_def)
  note c = correctPath_in_home [OF True abs]
  have g1: "grows b fs ?fs1" using makesD(1) [OF make_dir_makes [OF assms(1,2) c(1)]] .
  obtain fs2 q where q: "openFileWithinTrustedPath openat2 ?name O_REPLACE ?pos False ?fs1 = (fs2, q)" by fastforce
  have b2: "grows b ?fs1 fs2" "q = Some i \<Longrightarrow> below fs2 b i" for i
    using works_belowD [OF open_in_home_below [OF growsD(2) [OF g1] home_grows [OF assms(1) g1 assms(2)] refl c(1,2)] q] by blast+
  note g2 = grows_trans [OF g1 b2(1)]
  show ?thesis
  proof (cases q)
    case None
    then show ?thesis using assms(3) True q g2 by (simp add: fs_writeFile_def)
  next
    case (Some i)
    obtain written w where w: "write_loop answers data = (written, w)" by fastforce
    have g3: "grows b fs (set_contents i written fs2)"
      using grows_trans [OF g2 set_contents_grows [OF growsD(2) [OF g2] b2(2) [OF Some]]] .
    have b3: "below (set_contents i written fs2) b i"
      using growsD(3) [OF set_contents_grows [OF growsD(2) [OF g2] b2(2) [OF Some]] b2(2) [OF Some]] .
    have "grows b fs (finish_write ?name user i (set_contents i written fs2))"
      using grows_trans [OF g3 makesD(1) [OF finish_write_makes [OF growsD(2) [OF g3] b3]]] .
    then show ?thesis using assms(3) True q Some w g3 by (auto simp: fs_writeFile_def Let_def split: option.splits if_splits)
  qed
qed

text \<open>Calls that only look.\<close>

lemma looking_results:
  "k_fstat i fs = (fs', r) \<Longrightarrow> only_calls fs fs' \<and> (\<forall>v. r = Some v \<longrightarrow> fs_node fs i = Some v)"
  "k_fstatat d name fs = (fs', r) \<Longrightarrow> only_calls fs fs' \<and> (\<forall>v. r = Some v \<longrightarrow> (\<exists>i. entry fs d name = Some i \<and> fs_node fs i = Some v))"
  "k_readdir fs = (fs', u) \<Longrightarrow> only_calls fs fs'"
  by (auto simp: k_fstat_def k_fstatat_def k_readdir_def syscall_def Let_def only_calls_def split: if_splits option.splits)

text \<open>Opening to look: the inode that is found was there, and below.\<close>

lemma open_fallback_calls: "looks h \<Longrightarrow> only_calls fs (fst (open_fallback h d rel fs))"
proof -
  assume h: "looks h"
  have bind: "only_calls fs (fst (fop_bind m k fs))" if "\<And>fs. only_calls fs (fst (m fs))" "\<And>i fs. only_calls fs (fst (k i fs))"
    for m :: "nat fop" and k :: "nat \<Rightarrow> nat fop" and fs
    using that only_calls_trans [OF that(1) that(2)] by (auto simp: fop_bind_def split: prod.split option.split) (metis fst_conv only_calls_trans)+
  have dirs: "only_calls fs (fst (open_dirs cs d fs))" for cs d fs
    by (induction cs arbitrary: d fs) (auto intro!: bind looking_calls)
  show ?thesis unfolding open_fallback_def Let_def by (intro bind dirs looking_calls h)
qed

lemma openFile_calls: "looks h \<Longrightarrow> only_calls fs (fst (openFileWithinTrustedPath openat2 name h pos follow fs))"
proof -
  assume h: "looks h"
  have second: "only_calls fs1 (fst (case (if openat2 then k_openat2 h follow i rel fs1 else (fs1, None)) of
      (fs, Some fd) \<Rightarrow> (fs, Some fd) | (fs, None) \<Rightarrow> open_fallback h i rel fs))" for fs1 i rel
    using looking_calls(3) [OF h, of fs1 follow i rel] open_fallback_calls [OF h]
    by (auto split: prod.split option.split intro: only_calls_trans)
  show ?thesis
    using looking_calls(1) [OF h] looking_calls(1) [of O_DIRECTORY fs "base_of name pos"] second only_calls_trans
    by (auto simp: openFileWithinTrustedPath_def Let_def fop_bind_def split: prod.split option.split)
qed

lemma readFile_below:
  assumes "fs_wf fs" "home_at fs home b" "fs_readFile openat2 fails (home @ path_sep # rest) throwError (Suc (length home)) fs = (fs', r)"
  shows "only_calls fs fs' \<and> (\<forall>c. r = Inr c \<longrightarrow> c = [] \<or> (\<exists>i a. below fs b i \<and> fs_node fs i = Some (Reg a c)))"
proof (cases "correctPath (home @ path_sep # rest)")
  case False
  then show ?thesis using assms(3) by (auto simp: fs_readFile_def Let_def split: if_splits)
next
  case True
  let ?name = "home @ path_sep # rest" and ?pos = "Suc (length home)"
  have abs: "is_absolute home" using assms(2) by (simp add: home_at_def)
  note c = correctPath_in_home [OF True abs]
  obtain fs2 q where q: "openFileWithinTrustedPath openat2 ?name O_RDONLY ?pos True fs = (fs2, q)" by fastforce
  have calls: "only_calls fs fs2" using openFile_calls [of O_RDONLY fs openat2 ?name ?pos True] q by simp
  have "q = Some i \<Longrightarrow> below fs b i" for i
    using works_belowD [OF open_in_home_below [OF assms(1,2) refl c(1,2)] q] calls by (auto simp: only_calls_def)
  then show ?thesis using assms(3) True q calls
    by (auto simp: fs_readFile_def Let_def only_calls_def split: option.splits if_splits inode.splits)
qed

text \<open>A removed entry changes its directory only.\<close>

lemma unlink_changes:
  assumes "k_unlinkat rmdir d name fs = (fs', r)"
  shows "i \<noteq> d \<Longrightarrow> fs_node fs' i = fs_node fs i" "r = None \<Longrightarrow> fs_node fs' = fs_node fs"
    "fs_node fs' = fs_node fs \<or> fs_node fs' = fs_node (remove_entry d name fs)"
  using assms by (auto simp: k_unlinkat_def syscall_def Let_def remove_entry_def set_node_def split: if_splits option.splits inode.splits)

lemma deleteFile_below:
  assumes "fs_wf fs" "home_at fs home b" "fs' = fs_deleteFile openat2 (home @ path_sep # rest) (Suc (length home)) fs"
  shows "fs_node fs' = fs_node fs \<or> (\<exists>d n. below fs b d \<and> fs_node fs' = fs_node (remove_entry d n fs))"
proof (cases "correctPath (home @ path_sep # rest)")
  case False
  then show ?thesis using assms(3) by (simp add: fs_deleteFile_def)
next
  case True
  let ?dir = "getDirectory (home @ path_sep # rest)" and ?pos = "Suc (length home)"
  let ?p = "if ?pos \<le> length ?dir then ?pos else 0"
  have abs: "is_absolute home" "home \<noteq> []" using assms(2) by (auto simp: home_at_def is_absolute_def)
  note c = correctPath_in_home [OF True abs(1)]
  have dir: "?dir \<noteq> []" using abs by (simp add: getDirectory_home)
  obtain fs2 q where q: "openFileWithinTrustedPath openat2 ?dir O_DIRECTORY ?p True fs = (fs2, q)" by fastforce
  have calls: "only_calls fs fs2" using openFile_calls [of O_DIRECTORY fs openat2 ?dir ?p True] q by simp
  have found: "below fs b i" if "q = Some i" for i
  proof (cases "path_sep \<in> set rest \<and> relative_of ?dir ?pos \<noteq> []")
    case True
    then have d: "?dir = home @ path_sep # getDirectory rest" "?p = ?pos" by (simp_all add: getDirectory_home)
    show ?thesis
      using works_belowD [OF open_in_home_below [OF assms(1,2) d(1) directory_no_way_up [OF c(1)], of openat2 O_DIRECTORY True] q [unfolded d(2)]]
        calls that True by (auto simp: only_calls_def)
  next
    case False
    have "names ?dir = names home"
      using False names_seps [of "getDirectory rest" "[]"] names_append [of home "getDirectory rest"] by (auto simp: getDirectory_home relative_of_def)
    moreover have "is_absolute ?dir" using abs(1) absolute_append by (simp add: getDirectory_home)
    moreover have "?p = 0 \<or> relative_of ?dir ?p = []" using False by (auto simp: getDirectory_home)
    ultimately have "i = b"
      using q that k_open_found [of ?dir fs fs2 i] assms(2) by (auto simp: openFileWithinTrustedPath_def home_at_def start_dir_def Let_def)
    then show ?thesis using below_self by simp
  qed
  show ?thesis
  proof (cases q)
    case None
    then show ?thesis using assms(3) q True dir calls by (auto simp: fs_deleteFile_def Let_def only_calls_def)
  next
    case (Some d)
    let ?f = "drop (length ?dir + 1) (home @ path_sep # rest)"
    have "path_sep \<notin> set ?f" using getDirectory_split [of "home @ path_sep # rest"] by simp
    then have at: "at_name x d ?f = (d, ?f)" for x using hd_in_set [of ?f] by (auto simp: at_name_def is_absolute_def)
    obtain fs3 v where v: "k_fstatat d ?f fs2 = (fs3, v)" by fastforce
    have calls3: "only_calls fs fs3" using looking_results(2) [OF v] calls only_calls_trans by blast
    have "fs_node fs' = fs_node fs3 \<or> fs_node fs' = fs_node (fst (k_unlinkat False d ?f fs3))"
      using assms(3) q True dir Some at v by (auto simp: fs_deleteFile_def Let_def split: option.split inode.split)
    moreover have "fs_node (remove_entry d ?f fs3) = fs_node (remove_entry d ?f fs)" "fs_node fs3 = fs_node fs"
      using calls3 by (auto simp: only_calls_def remove_entry_def set_node_def split: option.split inode.split)
    ultimately show ?thesis
      using unlink_changes(3) [of False d ?f fs3] found [OF Some] by (metis prod.collapse)
  qed
qed

section \<open>What is written is what is read\<close>

definition no_faults :: "fsys \<Rightarrow> bool" where "no_faults fs \<longleftrightarrow> (\<forall>k. \<not> fs_fault fs k)"

lemma open_child:
  assumes "no_faults fs" "entry fs d name = Some i" "name \<noteq> []" "name \<noteq> ''.''" "name \<noteq> ''..''"
  shows "k_openat O_DIRECTORY False d name fs = (fs\<lparr>fs_calls := Suc (fs_calls fs)\<rparr>, if is_dir fs i then Some i else None)"
proof -
  have d: "is_dir fs d" using entry_node [OF assms(2)] by simp
  have "is_dir fs i \<Longrightarrow> link_of fs i = None" by (auto simp: is_dir_def link_of_def split: option.splits inode.splits)
  then show ?thesis using assms d
    by (auto simp: k_openat_def syscall_def Let_def no_faults_def walk.simps finish_open_def O_DIRECTORY_def split: option.split)
qed

lemma only_calls_same:
  assumes "only_calls fs fs'"
  shows "fs_node fs' = fs_node fs" "entry fs' = entry fs" "below fs' = below fs" "owned_node u fs' = owned_node u fs" "fs_wf fs' = fs_wf fs"
    "entries_of fs' = entries_of fs" "is_dir fs' = is_dir fs" "fs_fault fs' = fs_fault fs" "link_of fs' = link_of fs"
  using assms by (auto simp: only_calls_def owned_node_def)

lemma no_faults_grows: "grows b fs fs' \<Longrightarrow> no_faults fs \<Longrightarrow> no_faults fs'"
  by (simp add: grows_def extends_def no_faults_def)

lemma no_faults_calls [simp]: "no_faults (fs\<lparr>fs_calls := k\<rparr>) = no_faults fs"
  by (simp add: no_faults_def)

text \<open>What a search has not found it finds once it is there.\<close>

lemma walk_absent:
  assumes "extends fs fs'" "fs_wf fs" "walk beneath follow n fs base d cs = Absent x c" "entry fs' x c = Some i" "link_of fs' i = None"
  shows "walk beneath follow n fs' base d cs = Found i"
  using assms
proof (induction beneath follow n fs base d cs rule: walk.induct)
  case (2 beneath follow n fs base d c0 cs)
  have d: "is_dir fs d" using 2(8) by (auto simp: walk.simps(2) split: if_splits)
  have up: "is_dir fs' d" "parent_of fs' d = parent_of fs d" using extends_dir [OF 2(6) d] by simp_all
  have down: "entry fs' d c0 = Some j" "link_of fs' j = link_of fs j" if "entry fs d c0 = Some j" for j
    using extends_entry [OF 2(6) that] extendsD [OF 2(6) fs_wfD(1) [OF 2(7) that]] by simp_all
  have root: "fs_root fs' = fs_root fs" using 2(6) by (simp add: extends_def)
  show ?case
  proof (cases "c0 = ''.'' \<or> c0 = ''..''")
    case True
    then show ?thesis using 2(1,2,6-10) d up by (auto simp: walk.simps(2) split: if_splits)
  next
    case False
    show ?thesis
    proof (cases "entry fs d c0")
      case None
      then have "cs = []" "x = d" "c = c0" using 2(8) d False by (auto simp: walk.simps(2) split: if_splits)
      then show ?thesis using 2(9,10) up False by (simp add: walk.simps(2))
    next
      case (Some j)
      note dj = down [OF Some]
      show ?thesis
      proof (cases "link_of fs j")
        case None
        then show ?thesis using 2(3) [of j] 2(6-10) d up False Some dj by (simp add: walk.simps(2))
      next
        case (Some t)
        have "\<not> (cs = [] \<and> \<not> follow)" "n \<noteq> 0" "\<not> (is_absolute t \<and> beneath)"
          using 2(8) d False \<open>entry fs d c0 = Some j\<close> Some by (auto simp: walk.simps(2) split: if_splits)
        then show ?thesis using 2(4,5) [of j t] 2(6-10) d up False \<open>entry fs d c0 = Some j\<close> Some dj root
          by (simp add: walk.simps(2) split: if_splits)
      qed
    qed
  qed
qed simp

text \<open>Without links a search is the same whatever it is allowed.\<close>

lemma leads_plain:
  assumes "leads beneath follow fs base n d cs i" "n = 0" "no_way_up cs"
  shows "leads beneath' follow' fs base' m d cs i"
  using assms by (induction rule: leads.induct) (auto simp: no_way_up_def intro: leads.intros)

lemma open_plain:
  assumes "no_faults fs" "walk False False 40 fs 0 d [c] = Found i" "c \<noteq> []" "o_directory h \<longrightarrow> is_dir fs i" "\<not> o_write h" "looks h"
  shows "k_openat h False d c fs = (fs\<lparr>fs_calls := Suc (fs_calls fs)\<rparr>, Some i)"
  using assms by (simp add: k_openat_def syscall_def Let_def no_faults_def finish_open_def looks_def)

lemma open_dirs_plain:
  assumes "leads False False fs 0 0 d (cs @ [f]) i" "no_faults fs" "no_way_up cs" "[] \<notin> set cs"
  shows "\<exists>fs' x. open_dirs cs d fs = (fs', Some x) \<and> only_calls fs fs' \<and> leads False False fs 0 0 x [f] i"
  using assms
proof (induction cs arbitrary: d fs)
  case (Cons c cs)
  let ?fs = "fs\<lparr>fs_calls := Suc (fs_calls fs)\<rparr>"
  obtain j where j: "walk False False 40 fs 0 d [c] = Found j" "leads False False fs 0 0 j (cs @ [f]) i"
    using Cons.prems(1,3) by (cases rule: leads.cases) (auto simp: walk.simps no_way_up_def)
  have "is_dir fs j" using j(2) by (cases rule: leads.cases) auto
  then have o: "k_openat O_DIRECTORY False d c fs = (?fs, Some j)"
    using open_plain [OF Cons.prems(2) j(1)] Cons.prems(4) by (auto simp: O_DIRECTORY_def looks_def)
  have same: "leads False False ?fs 0 0 x ys i = leads False False fs 0 0 x ys i" for x ys
    using walk_leads leads_walk [OF _ order_refl] calls_walk by metis
  obtain fs' x where "open_dirs cs j ?fs = (fs', Some x)" "only_calls ?fs fs'" "leads False False ?fs 0 0 x [f] i"
    using Cons.IH [of ?fs j] j(2) same Cons.prems(2-4) by (auto simp: no_way_up_def)
  then show ?case using o same only_calls_trans [of fs ?fs fs'] by (auto simp: fop_bind_def only_calls_def)
qed auto

lemma leads_node:
  assumes "leads beneath follow fs base n d cs i" "fs_wf fs" "link_of fs d = None \<and> fs_node fs d \<noteq> None" "beneath \<or> n = 0"
  shows "link_of fs i = None \<and> fs_node fs i \<noteq> None"
  using assms
proof (induction rule: leads.induct)
  case (leads_up d n cs i)
  have "is_dir fs (parent_of fs d)" using fs_wfD(5) leads_up by blast
  then have "link_of fs (parent_of fs d) = None \<and> fs_node fs (parent_of fs d) \<noteq> None"
    by (auto simp: is_dir_def link_of_def split: option.splits inode.splits)
  then show ?case using leads_up by blast
next
  case (leads_down d c j n cs i)
  then show ?case using fs_wfD(1) by blast
qed auto

lemma leads_follow: "leads beneath False fs base n d cs i \<Longrightarrow> leads beneath True fs base n d cs i"
  by (induction rule: leads.induct) (auto intro: leads.intros)

lemma leads_extends:
  assumes "extends fs fs'" "fs_wf fs" "leads beneath follow fs base n d cs i"
  shows "leads beneath follow fs' base n d cs i"
  by (rule walk_leads [OF walk_extends [OF assms(1,2) leads_walk [OF assms(3) order_refl]]])

lemma only_calls_leads:
  assumes "only_calls fs fs'"
  shows "leads beneath follow fs' base n d cs i = leads beneath follow fs base n d cs i"
proof -
  obtain k where k: "fs' = fs\<lparr>fs_calls := k\<rparr>" using assms by (auto simp: only_calls_def)
  have "leads beneath follow f base n d cs i = (walk beneath follow n f base d cs = Found i)" for f
    using walk_leads leads_walk [OF _ order_refl] by metis
  then show ?thesis unfolding k by simp
qed

lemma leads_join: "leads False False fs 0 n d cs x \<Longrightarrow> n = 0 \<Longrightarrow> leads False False fs 0 0 x cs' i \<Longrightarrow> leads False False fs 0 0 d (cs @ cs') i"
  by (induction rule: leads.induct) (auto intro: leads.intros)

text \<open>The last name of a relative path.\<close>

definition file_part :: "string \<Rightarrow> string" where
  "file_part rel = (if getDirectory rel \<noteq> [] then drop (length (getDirectory rel) + 1) rel else rel)"

lemma file_part_split:
  assumes "\<not> is_absolute rel"
  shows "names rel = names (getDirectory rel) @ (if file_part rel = [] then [] else [file_part rel])"
proof (cases "path_sep \<in> set rel")
  case True
  note s = getDirectory_split [OF True]
  then have d: "getDirectory rel \<noteq> []" using assms by (metis append_Nil is_absolute_def list.distinct(1) list.sel(1))
  have "names rel = names (getDirectory rel) @ names (file_part rel)" using s names_append d unfolding file_part_def by metis
  moreover have "names (file_part rel) = (if file_part rel = [] then [] else [file_part rel])"
    using s d by (simp add: file_part_def names_components components_no_sep)
  ultimately show ?thesis by simp
next
  case False
  then show ?thesis by (simp add: getDirectory_def file_part_def names_components components_no_sep)
qed

lemma open_fallback_part: "open_fallback h b rel = fop_bind (open_dirs (names (getDirectory rel)) b) (\<lambda>d. k_openat h False d (file_part rel))"
  by (simp add: open_fallback_def file_part_def Let_def)

text \<open>A file that has been opened to be replaced.\<close>

definition fresh_file :: "fsys \<Rightarrow> nat \<Rightarrow> bool" where
  "fresh_file fs i \<longleftrightarrow> (\<exists>a. fs_node fs i = Some (Reg a [])) \<or> (\<exists>a. fs_node fs i = Some (Special a))"

definition only_file :: "fsys \<Rightarrow> fsys \<Rightarrow> nat \<Rightarrow> bool" where
  "only_file fs fs' i \<longleftrightarrow> (\<forall>j. j \<noteq> i \<longrightarrow> file_of fs' j = file_of fs j)"

lemma only_file_calls: "only_calls fs fs1 \<Longrightarrow> only_file fs1 fs' i \<Longrightarrow> only_file fs fs' i"
  by (auto simp: only_calls_def only_file_def)

lemma finish_replace:
  assumes "finish_open O_REPLACE r fs = (fs', Some i)" "fs_wf fs" "found_below fs b r" "\<And>j. r = Found j \<Longrightarrow> link_of fs j = None \<and> fs_node fs j \<noteq> None"
  shows "fresh_file fs' i \<and> (r = Found i \<or> (\<exists>d c. r = Absent d c \<and> entry fs' d c = Some i \<and> link_of fs' i = None)) \<and> only_file fs fs' i"
proof (cases r)
  case (Found j)
  then have "j = i" "\<not> is_dir fs i" "fs' = emptied i fs" using assms(1) by (auto simp: finish_open_def O_REPLACE_def split: if_splits)
  moreover have "only_file fs (emptied i fs) i" by (auto simp: only_file_def file_of_def emptied_def set_node_def split: option.split inode.split)
  ultimately show ?thesis using assms(4) Found
    by (auto simp: fresh_file_def emptied_def set_node_def link_of_def is_dir_def split: inode.splits)
next
  case (Absent d c)
  then have n: "fs' = add_entry d c (Reg (root_attr 384) []) fs" "i = fs_next fs" using assms(1) by (auto simp: finish_open_def O_REPLACE_def)
  have d: "is_dir fs d" "entry fs d c = None" using assms(3) Absent by (simp_all add: found_below_def)
  then obtain a p es where e: "fs_node fs d = Some (Dir a p es)" by (auto simp: is_dir_def split: option.splits inode.splits)
  have "d \<noteq> i" using fs_wfD(4) [OF assms(2)] e n(2) by auto
  then have "only_file fs fs' i" "fs_node fs' i = Some (Reg (root_attr 384) [])"
    using n e by (auto simp: only_file_def file_of_def add_entry_def set_node_def)
  then show ?thesis using Absent add_entry_parts(1) [OF assms(2) d(1) _ d(2), of "Reg (root_attr 384) []"] n
    by (auto simp: fresh_file_def fresh_node_def link_of_def)
next
  case Broken
  then show ?thesis using assms(1) by (simp add: finish_open_def)
qed

lemma dir_node: "is_dir fs d \<Longrightarrow> link_of fs d = None \<and> fs_node fs d \<noteq> None"
  by (auto simp: is_dir_def link_of_def split: option.splits inode.splits)

lemma openat2_leads:
  assumes "fs_wf fs" "is_dir fs b" "k_openat2 O_REPLACE False b rel fs = (fs', Some i)"
  shows "fresh_file fs' i \<and> leads True True fs' b 40 b (names rel) i \<and> only_file fs fs' i"
proof -
  let ?fs = "fs\<lparr>fs_calls := Suc (fs_calls fs)\<rparr>" and ?r = "walk True False 40 fs b b (names rel)"
  have f: "finish_open O_REPLACE ?r ?fs = (fs', Some i)"
    using assms(3) by (auto simp: k_openat2_def syscall_def Let_def split: if_splits)
  have node: "?r = Found j \<Longrightarrow> link_of fs j = None \<and> fs_node fs j \<noteq> None" for j
    using leads_node [OF walk_leads assms(1) dir_node [OF assms(2)]] by blast
  have g: "extends fs fs'" using works_belowD [OF k_openat2_below [OF assms(1) below_self] assms(3)] growsD(1) by blast
  from finish_replace [OF f, of b] walk_beneath [OF assms(1) below_self, of b False 40 "names rel"] node assms(1)
  have r: "fresh_file fs' i" "?r = Found i \<or> (\<exists>d c. ?r = Absent d c \<and> entry fs' d c = Some i \<and> link_of fs' i = None)" "only_file fs fs' i"
    by (auto simp: only_file_def)
  have "walk True False 40 fs' b b (names rel) = Found i" using r(2) walk_extends [OF g assms(1)] walk_absent [OF g assms(1)] by blast
  then show ?thesis using r(1,3) leads_follow walk_leads by blast
qed

lemma refused_openat2: "k_openat2 h follow d path fs = (fs', None) \<Longrightarrow> only_calls fs fs'"
  by (auto simp: k_openat2_def syscall_def Let_def finish_open_def only_calls_def split: if_splits found.splits)

lemma leads_name: "walk False False n fs 0 d [c] = Found i \<Longrightarrow> c \<noteq> ''..'' \<Longrightarrow> leads False False fs 0 0 d [c] i"
  by (auto simp: walk.simps split: if_splits option.splits intro: leads.intros)

lemma open_dirs_leads:
  assumes "open_dirs cs d fs = (fs', Some x)" "no_way_up cs" "is_dir fs d"
  shows "only_calls fs fs' \<and> leads False False fs 0 0 d cs x \<and> is_dir fs x"
  using assms
proof (induction cs arbitrary: d fs)
  case (Cons c cs)
  obtain fs1 j where o: "k_openat O_DIRECTORY False d c fs = (fs1, Some j)" "open_dirs cs j fs1 = (fs', Some x)"
    using Cons.prems(1) by (auto simp: fop_bind_def split: prod.splits option.splits)
  have c: "only_calls fs fs1" using looking_calls(2) [of O_DIRECTORY fs False d c] o(1) by simp
  have up: "c \<noteq> ''..''" "no_way_up cs" using Cons.prems(2) by (auto simp: no_way_up_def)
  have j: "leads False False fs 0 0 d [c] j" "is_dir fs j" using k_openat_found [OF o(1)] leads_name up(1) by blast+
  have s: "is_dir fs1 = is_dir fs" "leads False False fs1 0 0 j cs x = leads False False fs 0 0 j cs x"
    using only_calls_same(7) [OF c] only_calls_leads [OF c] by simp_all
  show ?case using Cons.IH [OF o(2) up(2)] j s only_calls_trans [OF c] leads_join [OF j(1) refl] by auto
qed (auto intro: leads_end)

lemma fallback_leads:
  assumes "fs_wf fs" "is_dir fs b" "no_way_up (names rel)" "\<not> is_absolute rel" "open_fallback O_REPLACE b rel fs = (fs', Some i)"
  shows "fresh_file fs' i \<and> leads False False fs' 0 0 b (names rel) i \<and> only_file fs fs' i"
proof -
  obtain fs1 x where o: "open_dirs (names (getDirectory rel)) b fs = (fs1, Some x)" "k_openat O_REPLACE False x (file_part rel) fs1 = (fs', Some i)"
    using assms(5) by (auto simp: open_fallback_part fop_bind_def split: prod.splits option.splits)
  note n = file_part_split [OF assms(4)]
  have f: "file_part rel \<noteq> []" using o(2) by (auto simp: k_openat_def syscall_def Let_def split: if_splits)
  have up: "no_way_up (names (getDirectory rel))" "file_part rel \<noteq> ''..''" using assms(3) n f by (auto simp: no_way_up_def)
  have x: "only_calls fs fs1" "leads False False fs 0 0 b (names (getDirectory rel)) x" "is_dir fs x"
    using open_dirs_leads [OF o(1) up(1) assms(2)] by blast+
  have wf1: "fs_wf fs1" "is_dir fs1 x" using x(1,3) assms(1) by (auto simp: only_calls_def)
  let ?fs = "fs1\<lparr>fs_calls := Suc (fs_calls fs1)\<rparr>" and ?r = "walk False False 40 fs1 0 x [file_part rel]"
  have fin: "finish_open O_REPLACE ?r ?fs = (fs', Some i)" using o(2) by (auto simp: k_openat_def syscall_def Let_def split: if_splits)
  have node: "?r = Found j \<Longrightarrow> link_of fs1 j = None \<and> fs_node fs1 j \<noteq> None" for j
    using leads_node [OF leads_name wf1(1) dir_node [OF wf1(2)]] up(2) by blast
  have g: "grows x fs1 fs'" using works_belowD [OF k_openat_below [OF wf1(1) below_self up(2)] o(2)] by blast
  from finish_replace [OF fin, of x] walk_name [OF below_self up(2), of fs1 x 40 0] node wf1(1)
  have r: "fresh_file fs' i" "?r = Found i \<or> (\<exists>d c. ?r = Absent d c \<and> entry fs' d c = Some i \<and> link_of fs' i = None)" "only_file fs1 fs' i"
    by (auto simp: only_file_def)
  have "walk False False 40 fs' 0 x [file_part rel] = Found i"
    using r(2) walk_extends [OF growsD(1) [OF g] wf1(1)] walk_absent [OF growsD(1) [OF g] wf1(1)] by blast
  then have last: "leads False False fs' 0 0 x [file_part rel] i" using leads_name up(2) by blast
  have "leads False False fs1 0 0 b (names (getDirectory rel)) x"
    using x(2) only_calls_leads [OF x(1)] by simp
  then have "leads False False fs' 0 0 b (names (getDirectory rel)) x" using leads_extends [OF growsD(1) [OF g] wf1(1)] by blast
  from leads_join [OF this refl last] show ?thesis using r(1) n f only_file_calls [OF x(1) r(3)] by simp
qed

lemma file_part_good:
  assumes "correctPath (home @ path_sep # rest)" "is_absolute home"
  shows "file_part (relative_of (home @ path_sep # rest) (Suc (length home))) \<noteq> []" "[] \<notin> set (names dir)"
proof -
  obtain h where h: "home = path_sep # h" using assms(2) by (cases home) (auto simp: is_absolute_def)
  have "relative_part (home @ path_sep # rest) = h @ path_sep # rest"
    unfolding h by (simp add: relative_part_def is_prefix_append dot_def path_sep_def)
  then have good: "[] \<notin> set (components rest)" using assms(1) by (auto simp: correctPath_iff components_append_sep good_name_def)
  have "hd rest \<noteq> path_sep" using good by (cases rest) (auto split: if_splits)
  then have rel: "relative_of (home @ path_sep # rest) (Suc (length home)) = rest" by (cases rest) (auto simp: relative_of_def)
  show "file_part (relative_of (home @ path_sep # rest) (Suc (length home))) \<noteq> []"
  proof (cases "path_sep \<in> set rest")
    case True
    have "components rest = components (getDirectory rest) @ [drop (length (getDirectory rest) + 1) rest]"
      using getDirectory_split [OF True] components_append_sep components_no_sep by metis
    then show ?thesis unfolding rel using good assms(1) correctPath_in_home(3) [OF assms] by (auto simp: file_part_def)
  next
    case False
    then show ?thesis unfolding rel using good by (auto simp: file_part_def getDirectory_def)
  qed
  show "[] \<notin> set (names dir)" by (auto simp: names_components)
qed

text \<open>The write's opening, and the reading that follows it.\<close>

lemma replace_in_home:
  assumes "fs_wf fs" "home_at fs home b" "name = home @ path_sep # rest" "rel = relative_of name (Suc (length home))" "rel \<noteq> []"
    and "no_way_up (names rel)" "openFileWithinTrustedPath openat2 name O_REPLACE (Suc (length home)) False fs = (fs', Some i)"
  shows "is_dir fs b \<and> fresh_file fs' i \<and> only_file fs fs' i \<and>
    (openat2 \<and> leads True True fs' b 40 b (names rel) i \<or> leads False False fs' 0 0 b (names rel) i)"
proof -
  note base = base_of_home [OF _ assms(3)]
  let ?base = "base_of name (Suc (length home))"
  obtain fs1 d where d: "k_open O_DIRECTORY ?base fs = (fs1, Some d)" using assms(4,5,7)
    by (auto simp: openFileWithinTrustedPath_def Let_def fop_bind_def split: prod.splits option.splits)
  have c: "only_calls fs fs1" using looking_calls(1) [of O_DIRECTORY fs ?base] d by simp
  have b: "d = b" "is_dir fs b" using k_open_found [OF d] assms(2) base by (auto simp: home_at_def start_dir_def)
  note s = only_calls_same [OF c]
  have wf: "fs_wf fs1" "is_dir fs1 b" using assms(1) b(2) s by simp_all
  have rel: "\<not> is_absolute rel" unfolding assms(4) by (rule relative_plain(1))
  have o: "(case (if openat2 then k_openat2 O_REPLACE False b rel fs1 else (fs1, None)) of
      (fs, Some fd) \<Rightarrow> (fs, Some fd) | (fs, None) \<Rightarrow> open_fallback O_REPLACE b rel fs) = (fs', Some i)"
    using assms(5,7) d b(1) unfolding assms(4) by (simp add: openFileWithinTrustedPath_def Let_def fop_bind_def)
  obtain fs2 q where q: "(if openat2 then k_openat2 O_REPLACE False b rel fs1 else (fs1, None)) = (fs2, q)" by fastforce
  show ?thesis
  proof (cases q)
    case (Some j)
    then have "openat2" "k_openat2 O_REPLACE False b rel fs1 = (fs', Some i)" using o q by (auto split: if_splits)
    then show ?thesis using openat2_leads [OF wf] b(2) only_file_calls [OF c] by blast
  next
    case None
    have "grows b fs1 fs2" using q works_belowD [OF k_openat2_below [OF wf(1) below_self]] grows_refl [OF wf(1)] by (auto split: if_splits)
    then have "fs_wf fs2" "is_dir fs2 b" using growsD(1,2) extends_dir wf(2) by blast+
    moreover have "only_calls fs1 fs2" using q None by (auto split: if_splits dest: refused_openat2)
    ultimately show ?thesis using fallback_leads [OF _ _ assms(6) rel] o q None b(2) only_file_calls [OF c] only_file_calls by simp
  qed
qed

lemma look_in_home:
  assumes "home_at fs home b" "is_dir fs b" "no_faults fs" "name = home @ path_sep # rest" "rel = relative_of name (Suc (length home))"
    and "rel \<noteq> []" "no_way_up (names rel)" "file_part rel \<noteq> []" "looks h" "\<not> o_write h" "o_directory h \<longrightarrow> is_dir fs i"
    and "openat2 \<and> leads True True fs b 40 b (names rel) i \<or> leads False False fs 0 0 b (names rel) i"
  shows "\<exists>fs'. openFileWithinTrustedPath openat2 name h (Suc (length home)) True fs = (fs', Some i)"
proof -
  note base = base_of_home [OF _ assms(4)]
  let ?base = "base_of name (Suc (length home))" and ?fs = "fs\<lparr>fs_calls := Suc (fs_calls fs)\<rparr>"
  have o: "k_open O_DIRECTORY ?base fs = (?fs, Some b)"
    using assms(1-3) base by (simp add: home_at_def k_open_def syscall_def Let_def no_faults_def start_dir_def finish_open_def O_DIRECTORY_def)
  have rel: "\<not> is_absolute rel" unfolding assms(5) by (rule relative_plain(1))
  have "\<exists>fs'. (case (if openat2 then k_openat2 h True b rel ?fs else (?fs, None)) of
      (fs, Some fd) \<Rightarrow> (fs, Some fd) | (fs, None) \<Rightarrow> open_fallback h b rel fs) = (fs', Some i)"
  proof (cases openat2)
    case True
    have "leads True True fs b 40 b (names rel) i" using assms(12) leads_plain [OF _ refl assms(7)] by blast
    then have "walk True True 40 fs b b (names rel) = Found i" using leads_walk by blast
    then show ?thesis using True assms(3,9-11) rel
      by (auto simp: k_openat2_def syscall_def Let_def no_faults_def finish_open_def looks_def)
  next
    case False
    have l: "leads False False ?fs 0 0 b (names (getDirectory rel) @ [file_part rel]) i"
      using False assms(8,12) file_part_split [OF rel] only_calls_leads [of fs ?fs] by (simp add: only_calls_def) blast
    have n: "no_way_up (names (getDirectory rel))" "[] \<notin> set (names (getDirectory rel))"
      using assms(7) file_part_split [OF rel] by (simp add: no_way_up_def, simp add: names_components)
    obtain fs2 x where x: "open_dirs (names (getDirectory rel)) b ?fs = (fs2, Some x)" "only_calls ?fs fs2"
        "leads False False ?fs 0 0 x [file_part rel] i" using open_dirs_plain [OF l _ n] assms(3) by auto
    have "leads False False fs2 0 0 x [file_part rel] i" using x(3) only_calls_leads [OF x(2)] by simp
    then have "walk False False 40 fs2 0 x [file_part rel] = Found i" using leads_walk by blast
    moreover have "no_faults fs2" using x(2) assms(3) by (auto simp: only_calls_def)
    ultimately have "k_openat h False x (file_part rel) fs2 = (fs2\<lparr>fs_calls := Suc (fs_calls fs2)\<rparr>, Some i)"
      using open_plain [of fs2 x "file_part rel" i h] assms(8-11) only_calls_same(7) [OF x(2)] by simp
    then show ?thesis using False x(1) by (simp add: open_fallback_part fop_bind_def)
  qed
  then show ?thesis using o assms(6) unfolding assms(5) by (simp add: openFileWithinTrustedPath_def Let_def fop_bind_def)
qed

lemma read_in_home:
  assumes "home_at fs home b" "is_dir fs b" "no_faults fs" "name = home @ path_sep # rest" "rel = relative_of name (Suc (length home))"
    and "rel \<noteq> []" "no_way_up (names rel)" "file_part rel \<noteq> []"
    and "openat2 \<and> leads True True fs b 40 b (names rel) i \<or> leads False False fs 0 0 b (names rel) i"
  shows "\<exists>fs'. openFileWithinTrustedPath openat2 name O_RDONLY (Suc (length home)) True fs = (fs', Some i)"
  using look_in_home [OF assms(1-8) _ _ _ assms(9), of O_RDONLY] by (simp add: O_RDONLY_def looks_def)

lemma write_loop_all: "write_loop answers data = (written, Some True) \<Longrightarrow> written = data"
proof (induction answers data arbitrary: written rule: write_loop.induct)
  case (3 a as c cs)
  show ?case
  proof (cases a)
    case (Wrote n)
    from "3.prems" Wrote obtain rest where "n \<noteq> 0" "write_loop as (drop n (c # cs)) = (rest, Some True)" "written = take n (c # cs) @ rest"
      by (auto split: if_splits prod.splits)
    moreover have "rest = drop n (c # cs)" using "3.IH"(1) [OF Wrote] calculation by blast
    ultimately show ?thesis by simp
  qed (use 3 in auto)
qed auto

text \<open>What finishes a write keeps the contents.\<close>

lemma change_attr_node:
  "fs_node fs i = Some (Reg a c) \<Longrightarrow> \<exists>a. fs_node (fst (change_attr f i fs)) i = Some (Reg a c)"
  by (auto simp: change_attr_def syscall_def Let_def set_node_def with_attr_def)

lemma finish_write_node: "fs_node fs i = Some (Reg a c) \<Longrightarrow> \<exists>a. fs_node (finish_write name user i fs) i = Some (Reg a c)"
  using change_attr_node [of fs i a c] change_attr_node [of "fst (change_attr (owned user) i fs)" i _ c]
  by (auto simp: finish_write_def Let_def)

lemma home_write_is_read:
  assumes "fs_wf fs" "home_at fs home b" "no_faults fs"
    and "fs_writeFile openat2 answers (home @ path_sep # rest) data user (Suc (length home)) fs = Some (fs', Inr ())"
    and "\<forall>i. \<not> is_special fs i"
  shows "snd (fs_readFile openat2 False (home @ path_sep # rest) throwError (Suc (length home)) fs') = Inr data"
proof -
  let ?name = "home @ path_sep # rest" and ?pos = "Suc (length home)"
  let ?fs1 = "make_dir_of ?name user ?pos fs" and ?rel = "relative_of ?name ?pos"
  have cp: "correctPath ?name" using assms(4) by (auto simp: fs_writeFile_def split: if_splits)
  have abs: "is_absolute home" using assms(2) by (simp add: home_at_def)
  note c = correctPath_in_home [OF cp abs]
  have up: "no_way_up (names ?rel)" using relative_plain(2) [of ?name ?pos] c(1) by simp
  have g1: "grows b fs ?fs1" using makesD(1) [OF make_dir_makes [OF assms(1,2) c(1)]] .
  note h1 = home_grows [OF assms(1) g1 assms(2)]
  obtain fs2 i where o: "openFileWithinTrustedPath openat2 ?name O_REPLACE ?pos False ?fs1 = (fs2, Some i)"
    using assms(4) cp by (auto simp: fs_writeFile_def split: prod.splits option.splits)
  note r = replace_in_home [OF growsD(2) [OF g1] h1 refl refl c(2) up o]
  have b2: "grows b ?fs1 fs2" "below fs2 b i" using works_belowD [OF open_in_home_below [OF growsD(2) [OF g1] h1 refl c(1,2)] o] by blast+
  obtain written w where w: "write_loop answers data = (written, w)" by fastforce
  have fs': "w = Some True" "fs' = finish_write ?name user i (set_contents i written fs2)"
    using assms(4) cp o w by (auto simp: fs_writeFile_def Let_def split: option.splits if_splits)
  have data: "written = data" using write_loop_all w fs'(1) by blast
  have g2: "grows b fs2 fs'"
    using grows_trans [OF set_contents_grows [OF growsD(2) [OF b2(1)] b2(2)] makesD(1) [OF finish_write_makes]]
      growsD(2,3) [OF set_contents_grows [OF growsD(2) [OF b2(1)] b2(2), of written]] b2(2) fs'(2) by blast
  have "\<not> is_special fs2 i" using assms(5) growsD(1) [OF g1] growsD(1) [OF b2(1)] unfolding extends_def by blast
  then have "\<exists>a. fs_node fs2 i = Some (Reg a [])" using r unfolding fresh_file_def is_special_def by blast
  then obtain a where node: "fs_node fs' i = Some (Reg a data)"
    using finish_write_node [of "set_contents i data fs2" i _ data ?name user] fs'(2) data by (auto simp: set_contents_def set_node_def)
  note wf2 = growsD(2) [OF b2(1)] and e = growsD(1) [OF g2]
  have "openat2 \<and> leads True True fs' b 40 b (names ?rel) i \<or> leads False False fs' 0 0 b (names ?rel) i"
    using r leads_extends [OF e wf2] by blast
  moreover have "home_at fs' home b" using home_grows [OF wf2 g2] home_grows [OF growsD(2) [OF g1] b2(1) h1] by blast
  moreover have "is_dir fs' b" using r extends_dir [OF growsD(1) [OF b2(1)]] extends_dir [OF e] by blast
  moreover have "no_faults fs'" using no_faults_grows g1 b2(1) g2 assms(3) by blast
  ultimately obtain fs3 where "openFileWithinTrustedPath openat2 ?name O_RDONLY ?pos True fs' = (fs3, Some i)"
    using read_in_home [OF _ _ _ refl refl c(2) up file_part_good(1) [OF cp abs]] by blast
  moreover from this have "fs_node fs3 = fs_node fs'" using openFile_calls [of O_RDONLY fs' openat2 ?name ?pos True] by (auto simp: only_calls_def)
  ultimately show ?thesis using cp node by (simp add: fs_readFile_def Let_def is_dir_def)
qed

section \<open>An example\<close>

text \<open>The home \<open>/home/p\<close> of the prisoner 10001 with a file and a link out of it.\<close>

definition demo_nodes :: "(nat \<times> inode) list" where
  "demo_nodes = [(0, Dir (root_attr 493) 0 [(''home'', 1), (''etc'', 2)]), (1, Dir (root_attr 493) 0 [(''p'', 3)]),
     (2, Dir (root_attr 493) 0 [(''shadow'', 5)]), (3, Dir \<lparr>at_uid = 10001, at_gid = 10001, at_mode = 448\<rparr> 1 [(''a.c'', 4), (''out'', 6)]),
     (4, Reg \<lparr>at_uid = 10001, at_gid = 10001, at_mode = 384\<rparr> ''old''), (5, Reg (root_attr 384) ''secret''), (6, Symlink \<lparr>at_uid = 10001, at_gid = 10001, at_mode = 511\<rparr> ''/etc'')]"

definition demo_files :: fsys where
  "demo_files = \<lparr>fs_node = map_of demo_nodes, fs_next = 7, fs_root = 0, fs_cwd = 0, fs_fault = (\<lambda>k. False), fs_calls = 0\<rparr>"

lemma demo_entry: "entry demo_files d n = Some i \<Longrightarrow> (d, n, i) \<in> {(0, ''home'', 1), (0, ''etc'', 2), (1, ''p'', 3), (2, ''shadow'', 5), (3, ''a.c'', 4), (3, ''out'', 6)}"
  by (auto simp: entry_def entries_of_def demo_files_def demo_nodes_def split: if_splits)

lemma demo_dir: "is_dir demo_files d \<longleftrightarrow> d \<le> 3"
  by (auto simp: is_dir_def demo_files_def demo_nodes_def)

lemma demo_wf: "fs_wf demo_files"
proof -
  have node: "fs_node demo_files i \<noteq> None \<longleftrightarrow> i < 7" for i
  proof -
    have "fs_node demo_files i \<noteq> None \<longleftrightarrow> i \<in> fst ` set demo_nodes" by (simp add: demo_files_def map_of_eq_None_iff del: not_None_eq)
    also have "\<dots> \<longleftrightarrow> i \<in> {0, 1, 2, 3, 4, 5, 6}" by (simp add: demo_nodes_def)
    finally show ?thesis by auto
  qed
  have parents: "parent_of demo_files 0 = 0" "parent_of demo_files (Suc 0) = 0" "parent_of demo_files 2 = 0" "parent_of demo_files 3 = 1"
    by (simp_all add: parent_of_def demo_files_def demo_nodes_def)
  have "is_dir demo_files (parent_of demo_files d)" if "is_dir demo_files d" for d
  proof -
    have "d \<le> 3" using that demo_dir by simp
    then have "d = 0 \<or> d = Suc 0 \<or> d = 2 \<or> d = 3" by arith
    then show ?thesis by (elim disjE) (simp_all add: parents demo_dir)
  qed
  moreover have "fs_node demo_files i \<noteq> None \<and> (is_dir demo_files i \<longrightarrow> parent_of demo_files i = d)" if "entry demo_files d n = Some i" for d n i
    using demo_entry [OF that] parents by (auto simp: node demo_dir simp del: not_None_eq)
  moreover have "fs_next demo_files = 7" by (simp add: demo_files_def)
  ultimately show ?thesis using node by (simp add: fs_wf_def)
qed

lemma demo_below: "below demo_files 3 i \<Longrightarrow> i \<in> {3, 4, 6}"
  by (induction rule: below.induct) (use demo_entry in force)+

lemma demo_prisoner_home: "home_at demo_files ''/home/p'' 3"
  by (simp add: home_at_def is_absolute_def path_sep_def names_components walk.simps entry_def entries_of_def link_of_def is_dir_def demo_files_def demo_nodes_def)

lemma demo_home_paths: "length ''/home/p'' + 1 = 8" "''/home/p'' @ ''/'' @ ''out/shadow'' = ''/home/p/out/shadow''" "''/home/p'' @ ''/'' @ ''b.c'' = ''/home/p/b.c''"
  by simp_all

lemma write_ends: "fs_writeFile openat2 [WriteFails] name data user pos fs \<noteq> None"
  by (cases data) (auto simp: fs_writeFile_def Let_def split: prod.splits option.splits)

section \<open>Properties\<close>

text \<open>
  C9: a write to a name in the home of a task, whatever links there are below the home, whatever calls fail and with or without
  \<open>openat2\<close>, leaves everything that is not below the home as it was; and nothing that was outside can be found below afterwards.
\<close>

theorem home_writes_stay_inside:
  assumes "fs_wf fs" "home_at fs home b"
    and "fs_writeFile openat2 answers (home @ ''/'' @ name) data user (length home + 1) fs = Some (fs', r)"
  shows "fs_wf fs' \<and> home_at fs' home b \<and> (\<forall>i. fs_node fs i \<noteq> None \<longrightarrow> \<not> below fs b i \<longrightarrow> fs_node fs' i = fs_node fs i) \<and>
    (\<forall>i. below fs' b i \<longrightarrow> below fs b i \<or> fs_node fs i = None)"
proof -
  have g: "grows b fs fs'" using writeFile_grows [OF assms(1,2), of openat2 answers name data user fs' r] assms(3) by (simp add: path_sep_def)
  then show ?thesis using home_grows [OF assms(1) g assms(2)] by (simp add: grows_def)
qed

theorem home_writes_stay_inside_witness:
  "\<exists>fs' r. fs_writeFile True [WriteFails] ''/home/p/out/shadow'' ''x'' 10001 8 demo_files = Some (fs', r) \<and>
     fs_node fs' 5 = Some (Reg (root_attr 384) ''secret'')"
proof -
  obtain fs' r where w: "fs_writeFile True [WriteFails] ''/home/p/out/shadow'' ''x'' 10001 8 demo_files = Some (fs', r)"
    using write_ends [of True "''/home/p/out/shadow''" "''x''" 10001 8 demo_files] by auto
  have "\<not> below demo_files 3 5" "fs_node demo_files 5 = Some (Reg (root_attr 384) ''secret'')"
    using demo_below [of 5] by (auto simp: demo_files_def demo_nodes_def)
  then have "fs_node fs' 5 = Some (Reg (root_attr 384) ''secret'')"
    using home_writes_stay_inside [OF demo_wf demo_prisoner_home, of True "[WriteFails]" "''out/shadow''" "''x''" 10001 fs' r, unfolded demo_home_paths, OF w] by (metis option.distinct(1))
  then show ?thesis using w by blast
qed

text \<open>
  C10: a file read from the home of a task is one that is below the home, and reading changes nothing; a deletion takes at most one
  entry, of a directory below the home.
\<close>

theorem home_reads_and_deletions_inside:
  assumes "fs_wf fs" "home_at fs home b"
    and "fs_readFile openat2 fails (home @ ''/'' @ name) throwError (length home + 1) fs = (fs', r)"
  shows "fs_node fs' = fs_node fs \<and> (\<forall>c. r = Inr c \<longrightarrow> c = [] \<or> (\<exists>i a. below fs b i \<and> fs_node fs i = Some (Reg a c))) \<and>
    (fs'' = fs_deleteFile openat2 (home @ ''/'' @ name') (length home + 1) fs \<longrightarrow>
      fs_node fs'' = fs_node fs \<or> (\<exists>d n. below fs b d \<and> fs_node fs'' = fs_node (remove_entry d n fs)))"
proof -
  have "only_calls fs fs' \<and> (\<forall>c. r = Inr c \<longrightarrow> c = [] \<or> (\<exists>i a. below fs b i \<and> fs_node fs i = Some (Reg a c)))"
    using readFile_below [OF assms(1,2), of openat2 fails name throwError fs' r] assms(3) by (simp add: path_sep_def)
  then show ?thesis using deleteFile_below [OF assms(1,2), of fs'' openat2 name'] by (auto simp: path_sep_def only_calls_def)
qed

theorem home_reads_and_deletions_inside_witness:
  "snd (fs_readFile True False ''/home/p/out/shadow'' True 8 demo_files) \<noteq> Inr ''secret'' \<and>
   fs_node (fs_deleteFile True ''/home/p/out/shadow'' 8 demo_files) 2 = fs_node demo_files 2"
proof -
  obtain fs' r where r: "fs_readFile True False ''/home/p/out/shadow'' True 8 demo_files = (fs', r)" by fastforce
  note inside = home_reads_and_deletions_inside [OF demo_wf demo_prisoner_home, of True False "''out/shadow''" True fs' r
      "fs_deleteFile True ''/home/p/out/shadow'' 8 demo_files" "''out/shadow''", unfolded demo_home_paths, OF r]
  have "\<not> (\<exists>i a. below demo_files 3 i \<and> fs_node demo_files i = Some (Reg a ''secret''))"
    using demo_below by (force simp: demo_files_def demo_nodes_def)
  moreover have "fs_node (remove_entry d n demo_files) 2 = fs_node demo_files 2" if "below demo_files 3 d" for d n
    using demo_below [OF that] by (auto simp: remove_entry_def set_node_def split: option.split inode.split)
  moreover have "r \<noteq> Inr ''secret''" using inside calculation(1) by blast
  moreover have "fs_node (fs_deleteFile True ''/home/p/out/shadow'' 8 demo_files) 2 = fs_node demo_files 2"
    using inside calculation(2) by metis
  ultimately show ?thesis by (simp add: r)
qed

text \<open>
  C11: what a write to a name in the home has written is what reading that name gives afterwards, with its links and directories as they
  may be, with or without \<open>openat2\<close>, when no call fails and the name is not of a device.
\<close>

theorem written_file_is_read:
  assumes "fs_wf fs" "home_at fs home b" "no_faults fs" "\<forall>i. \<not> is_special fs i"
    and "fs_writeFile openat2 answers (home @ ''/'' @ name) data user (length home + 1) fs = Some (fs', Inr ())"
  shows "snd (fs_readFile openat2 False (home @ ''/'' @ name) throwError (length home + 1) fs') = Inr data"
  using home_write_is_read [OF assms(1-3) _ assms(4), of openat2 answers name data user fs' throwError] assms(5) by (simp add: path_sep_def)

theorem written_file_is_read_witness:
  "\<exists>fs'. fs_writeFile True [Wrote 2] ''/home/p/b.c'' ''hi'' 10001 8 demo_files = Some (fs', Inr ()) \<and>
     snd (fs_readFile True False ''/home/p/b.c'' True 8 fs') = Inr ''hi''"
proof -
  have "case fs_writeFile True [Wrote 2] ''/home/p/b.c'' ''hi'' 10001 8 demo_files of Some (fs', Inr u) \<Rightarrow> True | _ \<Rightarrow> False"
    by code_simp
  then obtain fs' r where w: "fs_writeFile True [Wrote 2] ''/home/p/b.c'' ''hi'' 10001 8 demo_files = Some (fs', r)" "\<forall>x. r \<noteq> Inl x"
    by (auto split: option.splits sum.splits)
  then have w: "fs_writeFile True [Wrote 2] ''/home/p/b.c'' ''hi'' 10001 8 demo_files = Some (fs', Inr ())" by (cases r) simp_all
  have "no_faults demo_files" "\<forall>i. \<not> is_special demo_files i"
    by (auto simp: no_faults_def is_special_def demo_files_def demo_nodes_def)
  from written_file_is_read [OF demo_wf demo_prisoner_home this, of True "[Wrote 2]" "''b.c''" "''hi''" 10001 fs' True, unfolded demo_home_paths, OF w]
  show ?thesis using w by blast
qed

end
