(* ===== verification/Tree_Removal.thy ===== *)
theory Tree_Removal
  imports Home_Files
begin

text \<open>
  The removal of a tree (\<open>removeDir\<close>, Files). Proved: it takes nothing but entries, below the directory it was given and of the owner
  unless forced, and follows no link; it returns, whatever calls fail; and when none fails a forced removal leaves nothing.
\<close>

section \<open>What removing may do\<close>

text \<open>
  An entry that the removal of what is below \<open>b\<close> may take: \<open>j\<close> in the directory \<open>d\<close>. Without \<open>force\<close>, \<open>j\<close> is of the owner, or \<open>d\<close> is
  in a directory of the owner.
\<close>

definition removable :: "int \<Rightarrow> bool \<Rightarrow> fsys \<Rightarrow> nat \<Rightarrow> nat \<Rightarrow> nat \<Rightarrow> bool" where
  "removable owner force fs b d j \<longleftrightarrow> below fs b d \<and>
     (force \<or> owned_node owner fs j \<or> (\<exists>x. below fs b x \<and> owned_node owner fs x \<and> below fs x d))"

text \<open>Nothing but entries is taken, and only such that \<open>R\<close> allows.\<close>

definition prunes :: "(nat \<Rightarrow> nat \<Rightarrow> bool) \<Rightarrow> fsys \<Rightarrow> fsys \<Rightarrow> bool" where
  "prunes R fs fs' \<longleftrightarrow> fs_next fs' = fs_next fs \<and> fs_fault fs' = fs_fault fs \<and>
     (\<forall>d. fs_node fs' d = fs_node fs d \<or> (\<exists>a p es P. fs_node fs d = Some (Dir a p es) \<and>
        fs_node fs' d = Some (Dir a p (filter (\<lambda>(n, j). P n) es)) \<and> (\<forall>n j. entry fs d n = Some j \<longrightarrow> \<not> P n \<longrightarrow> R d j)))"

lemma map_of_filter_names: "map_of (filter (\<lambda>(n, j). P n) es) n = (if P n then map_of es n else None)"
  by (induction es) auto

lemma prunes_entry:
  assumes "prunes R fs fs'"
  shows "entry fs' d n = entry fs d n \<or> entry fs' d n = None \<and> (\<forall>j. entry fs d n = Some j \<longrightarrow> R d j)"
proof -
  from assms consider "fs_node fs' d = fs_node fs d" | a p es P where "fs_node fs d = Some (Dir a p es)"
      "fs_node fs' d = Some (Dir a p (filter (\<lambda>(n, j). P n) es))" "\<forall>n j. entry fs d n = Some j \<longrightarrow> \<not> P n \<longrightarrow> R d j"
    unfolding prunes_def by blast
  then show ?thesis by cases (auto simp: entry_def entries_of_def map_of_filter_names)
qed

lemma prunes_shape:
  assumes "prunes R fs fs'"
  shows "is_dir fs' d = is_dir fs d" "parent_of fs' d = parent_of fs d" "link_of fs' d = link_of fs d" "owned_node u fs' d = owned_node u fs d"
    "fs_node fs' d = None \<longleftrightarrow> fs_node fs d = None"
proof -
  from assms consider "fs_node fs' d = fs_node fs d" | a p es P where "fs_node fs d = Some (Dir a p es)"
      "fs_node fs' d = Some (Dir a p (filter (\<lambda>(n, j). P n) es))"
    unfolding prunes_def by blast
  then show "is_dir fs' d = is_dir fs d" "parent_of fs' d = parent_of fs d" "link_of fs' d = link_of fs d" "owned_node u fs' d = owned_node u fs d"
      "fs_node fs' d = None \<longleftrightarrow> fs_node fs d = None"
    by (cases; simp add: is_dir_def parent_of_def link_of_def owned_node_def belongs_def attr_of_def)+
qed

lemma prunes_below: "prunes R fs fs' \<Longrightarrow> below fs' b i \<Longrightarrow> below fs b i"
proof -
  assume p: "prunes R fs fs'"
  show "below fs' b i \<Longrightarrow> below fs b i"
  proof (induction rule: below.induct)
    case (below_entry d n i)
    then have "entry fs d n = Some i" using prunes_entry [OF p, of d n] by auto
    then show ?case using below_entry below.below_entry by blast
  qed (rule below_self)
qed

lemma prunes_wf: "prunes R fs fs' \<Longrightarrow> fs_wf fs \<Longrightarrow> fs_wf fs'"
proof -
  assume p: "prunes R fs fs'" and w: "fs_wf fs"
  have "entry fs d n = Some i" if "entry fs' d n = Some i" for d n i using that prunes_entry [OF p, of d n] by auto
  moreover have "fs_next fs' = fs_next fs" using p by (simp add: prunes_def)
  ultimately show ?thesis using w prunes_shape [OF p] unfolding fs_wf_def by metis
qed

lemma prunes_refl: "prunes R fs fs" by (simp add: prunes_def)

lemma prunes_calls [simp]: "prunes R fs (fs\<lparr>fs_calls := k\<rparr>)" by (simp add: prunes_def)

lemma prunes_mono: "prunes R fs fs' \<Longrightarrow> (\<And>d j. R d j \<Longrightarrow> R' d j) \<Longrightarrow> prunes R' fs fs'"
  unfolding prunes_def by metis

lemma prunes_trans:
  assumes "prunes R fs fs'" "prunes R fs' fs''"
  shows "prunes R fs fs''"
proof -
  have frame: "fs_next fs'' = fs_next fs" "fs_fault fs'' = fs_fault fs" using assms by (simp_all add: prunes_def)
  have "fs_node fs'' d = fs_node fs d \<or> (\<exists>a p es P. fs_node fs d = Some (Dir a p es) \<and>
        fs_node fs'' d = Some (Dir a p (filter (\<lambda>(n, j). P n) es)) \<and> (\<forall>n j. entry fs d n = Some j \<longrightarrow> \<not> P n \<longrightarrow> R d j))" for d
  proof (cases "fs_node fs' d = fs_node fs d")
    case True
    then have "entry fs' d = entry fs d" by (intro ext) (simp add: entry_def entries_of_def)
    then show ?thesis using assms(2) True unfolding prunes_def by metis
  next
    case False
    then obtain a p es P where P: "fs_node fs d = Some (Dir a p es)" "fs_node fs' d = Some (Dir a p (filter (\<lambda>(n, j). P n) es))"
        "\<forall>n j. entry fs d n = Some j \<longrightarrow> \<not> P n \<longrightarrow> R d j" using assms(1) unfolding prunes_def by blast
    consider "fs_node fs'' d = fs_node fs' d" | Q where "fs_node fs'' d = Some (Dir a p (filter (\<lambda>(n, j). Q n) (filter (\<lambda>(n, j). P n) es)))"
        "\<forall>n j. entry fs' d n = Some j \<longrightarrow> \<not> Q n \<longrightarrow> R d j" using assms(2) P(2) unfolding prunes_def by fastforce
    then show ?thesis
    proof cases
      case 2
      have e: "entry fs d n = Some j \<Longrightarrow> P n \<Longrightarrow> entry fs' d n = Some j" for n j
        using P(1,2) by (simp add: entry_def entries_of_def map_of_filter_names)
      have "filter (\<lambda>(n, j). Q n) (filter (\<lambda>(n, j). P n) es) = filter (\<lambda>(n, j). P n \<and> Q n) es"
        by (auto simp: case_prod_beta intro: filter_cong)
      moreover have "entry fs d n = Some j \<Longrightarrow> \<not> (P n \<and> Q n) \<Longrightarrow> R d j" for n j using e P(3) 2(2) by blast
      ultimately show ?thesis using 2(1) P(1) by (intro disjI2 exI [of _ a] exI [of _ p] exI [of _ es] exI [of _ "\<lambda>n. P n \<and> Q n"]) auto
    qed (use P in auto)
  qed
  then show ?thesis using frame unfolding prunes_def by blast
qed

lemma below_trans: "below fs c i \<Longrightarrow> below fs b c \<Longrightarrow> below fs b i"
  by (induction rule: below.induct) (auto intro: below.below_entry)

lemma removable_prunes:
  assumes "prunes R fs fs'" "removable owner force fs' b d j"
  shows "removable owner force fs b d j"
  using assms(2) prunes_below [OF assms(1)] prunes_shape(4) [OF assms(1)] unfolding removable_def by blast

text \<open>One removal after another.\<close>

abbreviation takes :: "int \<Rightarrow> bool \<Rightarrow> nat \<Rightarrow> fsys \<Rightarrow> fsys \<Rightarrow> bool" where
  "takes owner force b fs fs' \<equiv> prunes (removable owner force fs b) fs fs'"

lemma takes_trans:
  assumes "takes owner force b fs fs'" "takes owner force b fs' fs''"
  shows "takes owner force b fs fs''"
  using prunes_trans [OF assms(1) prunes_mono [OF assms(2) removable_prunes [OF assms(1)]]] .

lemma takes_child:
  assumes "takes owner whole c fs fs'" "below fs d c" "whole = (force \<or> owned_node owner fs d)"
  shows "takes owner force d fs fs'"
  using assms(1)
proof (rule prunes_mono)
  fix x j
  assume "removable owner whole fs c x j"
  then show "removable owner force fs d x j"
    using assms(2,3) below_trans [OF _ assms(2)] below_self [of fs d] unfolding removable_def by metis
qed

lemma remove_entry_prunes:
  assumes "\<And>j. entry fs d name = Some j \<Longrightarrow> R d j"
  shows "prunes R fs (remove_entry d name fs)"
proof -
  have "d' = d \<Longrightarrow> fs_node fs d = Some (Dir a p es) \<Longrightarrow> \<exists>P. fs_node (remove_entry d name fs) d = Some (Dir a p (filter (\<lambda>(n, j). P n) es)) \<and>
      (\<forall>n j. entry fs d n = Some j \<longrightarrow> \<not> P n \<longrightarrow> R d j)" for d' a p es
    using assms by (intro exI [of _ "\<lambda>n. n \<noteq> name"]) (auto simp: remove_entry_def set_node_def)
  then show ?thesis
    unfolding prunes_def by (auto simp: remove_entry_def set_node_def split: option.split inode.split)
qed

lemma unlink_takes:
  assumes "k_unlinkat rmdir d name fs = (fs', r)" "\<And>j. entry fs d name = Some j \<Longrightarrow> R d j"
  shows "prunes R fs fs'"
proof -
  have "prunes R fs (remove_entry d name fs)" using remove_entry_prunes assms(2) .
  moreover have "prunes R fs fs'" if "fs_node fs' = fs_node fs \<or> fs_node fs' = fs_node (remove_entry d name fs)"
      "fs_next fs' = fs_next fs" "fs_fault fs' = fs_fault fs"
    using that calculation unfolding prunes_def by metis
  moreover have "fs_next fs' = fs_next fs" "fs_fault fs' = fs_fault fs"
    using assms(1) by (auto simp: k_unlinkat_def syscall_def Let_def remove_entry_def set_node_def split: if_splits option.splits inode.splits)
  ultimately show ?thesis using unlink_changes(3) [OF assms(1)] by blast
qed

section \<open>Removing a tree\<close>

lemma only_calls_prunes: "only_calls fs fs' \<Longrightarrow> prunes R fs fs'"
  by (auto simp: only_calls_def)

text \<open>The child that is opened is the one of that name.\<close>

lemma walk_plain:
  "name \<noteq> ''.'' \<Longrightarrow> name \<noteq> ''..'' \<Longrightarrow> walk False False m fs base d [name] = Found i \<Longrightarrow> entry fs d name = Some i \<and> link_of fs i = None"
  by (auto simp: walk.simps split: if_splits option.splits)

lemma unlink_if_takes:
  assumes "unlink_if remove rmdir d name fs = (fs', k)" "\<And>j. remove \<Longrightarrow> entry fs d name = Some j \<Longrightarrow> R d j"
  shows "prunes R fs fs'"
  using assms unlink_takes [of rmdir d name fs _ _ R] by (auto simp: unlink_if_def prunes_refl split: prod.splits option.splits if_splits)

lemma whole_removable:
  "whole = (force \<or> owned_node owner fs d) \<Longrightarrow> whole \<or> owned_node owner fs j \<Longrightarrow> removable owner force fs d d j"
  unfolding removable_def using below_self by blast

definition contents_take :: "(nat \<Rightarrow> fsys \<Rightarrow> (fsys \<times> int) option) \<Rightarrow> int \<Rightarrow> bool \<Rightarrow> bool" where
  "contents_take contents owner whole \<longleftrightarrow> (\<forall>d fs fs' k. fs_wf fs \<longrightarrow> contents d fs = Some (fs', k) \<longrightarrow> takes owner whole d fs fs')"

lemma child_takes:
  assumes "contents_take contents owner whole" "fs_wf fs" "whole = (force \<or> owned_node owner fs d)"
    and "remove_child contents owner whole d name fs = Some (fs', k)"
  shows "takes owner force d fs fs'"
proof (cases "name = ''.'' \<or> name = ''..''")
  case True
  then show ?thesis using assms(4) by (auto simp: remove_child_def prunes_refl)
next
  case False
  obtain fs1 r where r: "k_openat O_DIRECTORY False d name fs = (fs1, r)" by fastforce
  have c1: "only_calls fs fs1" using looking_calls(2) [of O_DIRECTORY fs False d name] r by simp
  note s1 = only_calls_same [OF c1]
  show ?thesis
  proof (cases r)
    case (Some c)
    have e: "entry fs d name = Some c" using k_openat_found [OF r [unfolded Some]] walk_plain False by blast
    obtain fs2 w where w: "k_fstat c fs1 = (fs2, w)" by fastforce
    have c2: "only_calls fs fs2" using looking_results(1) [OF w] c1 only_calls_trans by blast
    note s2 = only_calls_same [OF c2]
    show ?thesis
    proof (cases "\<exists>v fs3 k3. w = Some v \<and> is_dir_node v \<and> contents c fs2 = Some (fs3, k3)")
      case True
      then obtain v fs3 k3 where v: "w = Some v" "is_dir_node v" "contents c fs2 = Some (fs3, k3)" by blast
      have own: "belongs owner v = owned_node owner fs c" using looking_results(1) [OF w] v(1) s1(1) by (auto simp: owned_node_def)
      have "takes owner whole c fs2 fs3" using assms(1,2) v(3) s2(5) unfolding contents_take_def by blast
      moreover have "below fs2 d c" using e s2 below_entry [OF below_self] by metis
      ultimately have t3: "takes owner force d fs2 fs3" using takes_child assms(3) s2(4) by metis
      have u: "unlink_if (whole \<or> belongs owner v) True d name fs3 = (fs', k - k3)"
        using assms(4) False r Some w v by (auto simp: remove_child_def split: prod.splits)
      have "removable owner force fs3 d d j" if "whole \<or> belongs owner v" "entry fs3 d name = Some j" for j
      proof (rule whole_removable)
        have "j = c" using that(2) prunes_entry [OF t3, of d name] e s2(2) by auto
        then show "whole \<or> owned_node owner fs3 j" using that(1) own prunes_shape(4) [OF t3] s2(4) by simp
        show "whole = (force \<or> owned_node owner fs3 d)" using assms(3) prunes_shape(4) [OF t3] s2(4) by simp
      qed
      from takes_trans [OF takes_trans [OF only_calls_prunes [OF c2] t3] unlink_if_takes [where R = "removable owner force fs3 d", OF u this]] show ?thesis .
    next
      case False2: False
      then have "fs' = fs2" using assms(4) False r Some w by (auto simp: remove_child_def split: option.splits if_splits)
      then show ?thesis using only_calls_prunes [OF c2] by simp
    qed
  next
    case None
    obtain fs2 w where w: "k_fstatat d name fs1 = (fs2, w)" by fastforce
    note l = looking_results(2) [OF w]
    have c2: "only_calls fs fs2" using l c1 only_calls_trans by blast
    note s2 = only_calls_same [OF c2]
    show ?thesis
    proof (cases w)
      case w0: None
      then have "fs' = fs2" using assms(4) False r None w by (simp add: remove_child_def)
      then show ?thesis using only_calls_prunes [OF c2] by simp
    next
      case (Some v)
      then obtain i where i: "entry fs d name = Some i" "fs_node fs i = Some v" using l s1 by auto
      have u: "unlink_if (whole \<or> belongs owner v) False d name fs2 = (fs', k)"
        using assms(4) False r None w Some by (simp add: remove_child_def)
      have "removable owner force fs2 d d j" if "whole \<or> belongs owner v" "entry fs2 d name = Some j" for j
        using that i s2 assms(3) by (intro whole_removable) (auto simp: owned_node_def)
      from takes_trans [OF only_calls_prunes [OF c2] unlink_if_takes [where R = "removable owner force fs2 d", OF u this]] show ?thesis .
    qed
  qed
qed

lemma entries_take:
  assumes "contents_take contents owner whole" "fs_wf fs" "whole = (force \<or> owned_node owner fs d)"
    and "remove_entries contents owner whole d ns fs = Some (fs', k)"
  shows "takes owner force d fs fs'"
  using assms(2-4)
proof (induction ns arbitrary: fs k)
  case Nil
  then show ?case by (simp add: prunes_refl)
next
  case (Cons name ns)
  obtain fs1 u where u: "k_readdir fs = (fs1, u)" by fastforce
  have c: "only_calls fs fs1" using looking_results(3) [OF u] .
  note s = only_calls_same [OF c] and t1 = only_calls_prunes [OF c, of "removable owner force fs d"]
  show ?case
  proof (cases u)
    case None
    then show ?thesis using Cons.prems(3) u t1 by simp
  next
    case (Some x)
    then obtain fs2 k2 k3 where r: "remove_child contents owner whole d name fs1 = Some (fs2, k2)"
        "remove_entries contents owner whole d ns fs2 = Some (fs', k3)"
      using Cons.prems(3) u by (auto split: option.splits)
    have t2: "takes owner force d fs1 fs2" using child_takes [OF assms(1) _ _ r(1)] Cons.prems(1,2) s by simp
    have "takes owner force d fs2 fs'"
      using Cons.IH [OF prunes_wf [OF t2] _ r(2)] Cons.prems(1,2) s prunes_shape(4) [OF t2] by simp
    then show ?thesis using takes_trans [OF t1 takes_trans [OF t2]] by blast
  qed
qed

lemma removeDirContents_takes: "contents_take (removeDirContents n owner force) owner force"
proof (induction n arbitrary: force)
  case 0
  then show ?case by (simp add: contents_take_def)
next
  case (Suc n)
  show ?case
    unfolding contents_take_def
  proof (intro allI impI)
    fix d fs fs' k
    assume a: "fs_wf fs" "removeDirContents (Suc n) owner force d fs = Some (fs', k)"
    obtain fs1 w where w: "k_fstat d fs = (fs1, w)" by fastforce
    note l = looking_results(1) [OF w]
    obtain fs2 u where u: "k_readdir fs1 = (fs2, u)" by fastforce
    have c: "only_calls fs fs1" "only_calls fs fs2" using l looking_results(3) [OF u] only_calls_trans by blast+
    note s = only_calls_same [OF c(2)]
    show "takes owner force d fs fs'"
    proof (cases "\<exists>v. w = Some v \<and> is_dir_node v \<and> u \<noteq> None")
      case True
      then obtain v where v: "w = Some v" "is_dir_node v" "u \<noteq> None" by blast
      have whole: "(force \<or> belongs owner v) = (force \<or> owned_node owner fs2 d)" using l v(1) s(4) by (auto simp: owned_node_def)
      have "remove_entries (removeDirContents n owner (force \<or> belongs owner v)) owner (force \<or> belongs owner v) d (map fst (entries_of fs2 d)) fs2 = Some (fs', k)"
        using a(2) w u v by (auto simp: Let_def)
      from takes_trans [OF only_calls_prunes [OF c(2)] entries_take [OF Suc _ whole this]] s(5) a(1) show ?thesis by simp
    next
      case False
      then have "fs' = fs1 \<or> fs' = fs2" using a(2) w u by (auto simp: Let_def split: option.splits if_splits)
      then show ?thesis using only_calls_prunes c by blast
    qed
  qed
qed

section \<open>Removing a tree ends, and leaves nothing\<close>

text \<open>A tree: the directories below have ranks that go down.\<close>

definition ranked :: "(nat \<Rightarrow> nat) \<Rightarrow> fsys \<Rightarrow> nat \<Rightarrow> bool" where
  "ranked r fs b \<longleftrightarrow> (\<forall>d n i. below fs b d \<longrightarrow> entry fs d n = Some i \<longrightarrow> is_dir fs i \<longrightarrow> r i < r d)"

lemma ranked_prunes: "prunes R fs fs' \<Longrightarrow> ranked r fs b \<Longrightarrow> ranked r fs' b"
proof -
  assume p: "prunes R fs fs'" and r: "ranked r fs b"
  have "entry fs d n = Some i" if "entry fs' d n = Some i" for d n i using that prunes_entry [OF p, of d n] by auto
  then show ?thesis using r prunes_below [OF p] prunes_shape(1) [OF p] unfolding ranked_def by metis
qed

lemma ranked_below: "ranked r fs b \<Longrightarrow> below fs b c \<Longrightarrow> ranked r fs c"
  using below_trans unfolding ranked_def by metis

definition contents_end :: "(nat \<Rightarrow> nat) \<Rightarrow> nat \<Rightarrow> (nat \<Rightarrow> fsys \<Rightarrow> (fsys \<times> int) option) \<Rightarrow> bool" where
  "contents_end r m contents \<longleftrightarrow> (\<forall>d fs. fs_wf fs \<longrightarrow> ranked r fs d \<longrightarrow> r d < m \<longrightarrow> contents d fs \<noteq> None)"

lemma child_ends:
  assumes "contents_end r m contents" "fs_wf fs" "ranked r fs d" "r d \<le> m"
  shows "remove_child contents owner whole d name fs \<noteq> None"
proof -
  have ends: "contents c fs2 \<noteq> None" if "k_openat O_DIRECTORY False d name fs = (fs1, Some c)" "k_fstat c fs1 = (fs2, w)"
      "name \<noteq> ''.''" "name \<noteq> ''..''" for fs1 c fs2 w
  proof -
    have c: "only_calls fs fs2"
      using looking_calls(2) [of O_DIRECTORY fs False d name] that(1) looking_results(1) [OF that(2)] only_calls_trans by fastforce
    have e: "entry fs d name = Some c" "is_dir fs c" using k_openat_found [OF that(1)] walk_plain that(3,4) by blast+
    have "r c < r d" using assms(3) e below_self unfolding ranked_def by blast
    moreover have "ranked r fs2 c" using ranked_prunes [OF only_calls_prunes [OF c]] ranked_below assms(3) below_entry [OF below_self e(1)] by blast
    ultimately show ?thesis using assms(1,2,4) only_calls_same(5) [OF c] unfolding contents_end_def by simp
  qed
  show ?thesis
  proof (cases "name = ''.'' \<or> name = ''..''")
    case False
    obtain fs1 q where q: "k_openat O_DIRECTORY False d name fs = (fs1, q)" by fastforce
    show ?thesis
    proof (cases q)
      case (Some c)
      obtain fs2 w where "k_fstat c fs1 = (fs2, w)" by fastforce
      with ends [OF q [unfolded Some] this] False q Some show ?thesis by (auto simp: remove_child_def split: prod.split option.split)
    qed (use False q in \<open>auto simp: remove_child_def split: prod.split option.split\<close>)
  qed (auto simp: remove_child_def)
qed

lemma entries_end:
  assumes "contents_end r m contents" "contents_take contents owner whole" "fs_wf fs" "whole = (force \<or> owned_node owner fs d)" "ranked r fs d" "r d \<le> m"
  shows "remove_entries contents owner whole d ns fs \<noteq> None"
  using assms(3-6)
proof (induction ns arbitrary: fs)
  case (Cons name ns)
  obtain fs1 u where u: "k_readdir fs = (fs1, u)" by fastforce
  have c: "only_calls fs fs1" using looking_results(3) [OF u] .
  note s = only_calls_same [OF c]
  have r1: "ranked r fs1 d" using ranked_prunes [OF only_calls_prunes [OF c]] Cons.prems(3) by blast
  have w1: "fs_wf fs1" "whole = (force \<or> owned_node owner fs1 d)" using Cons.prems(1,2) s by simp_all
  obtain fs2 k where k: "remove_child contents owner whole d name fs1 = Some (fs2, k)"
    using child_ends [OF assms(1) w1(1) r1 Cons.prems(4), of owner whole name] by auto
  note t = child_takes [OF assms(2) w1 k]
  have "remove_entries contents owner whole d ns fs2 \<noteq> None"
    using Cons.IH [OF prunes_wf [OF t w1(1)] _ ranked_prunes [OF t r1] Cons.prems(4)] w1(2) prunes_shape(4) [OF t] by simp
  then show ?case using u k by (auto split: option.split)
qed simp

lemma removeDirContents_ends:
  "fs_wf fs \<Longrightarrow> ranked r fs d \<Longrightarrow> r d < n \<Longrightarrow> removeDirContents n owner force d fs \<noteq> None"
proof (induction n arbitrary: d fs force)
  case (Suc n)
  obtain fs1 w where w: "k_fstat d fs = (fs1, w)" by fastforce
  note l = looking_results(1) [OF w]
  obtain fs2 u where u: "k_readdir fs1 = (fs2, u)" by fastforce
  have c: "only_calls fs fs2" using l looking_results(3) [OF u] only_calls_trans by blast
  note s = only_calls_same [OF c]
  have ends: "remove_entries (removeDirContents n owner whole) owner whole d ns fs2 \<noteq> None"
    if "whole = (force \<or> owned_node owner fs2 d)" for whole ns
  proof (rule entries_end [OF _ removeDirContents_takes _ that])
    show "contents_end r n (removeDirContents n owner whole)" using Suc.IH by (simp add: contents_end_def)
    show "fs_wf fs2" using Suc.prems(1) s by simp
    show "ranked r fs2 d" using ranked_prunes [OF only_calls_prunes [OF c] Suc.prems(2)] .
    show "r d \<le> n" using Suc.prems(3) by simp
  qed
  have "w = Some v \<Longrightarrow> (force \<or> belongs owner v) = (force \<or> owned_node owner fs2 d)" for v
    using l s(4) by (auto simp: owned_node_def)
  then show ?case using ends w u by (auto simp: Let_def split: option.split)
qed simp

text \<open>The names of a directory are names.\<close>

definition plain_names :: "fsys \<Rightarrow> nat \<Rightarrow> bool" where
  "plain_names fs b \<longleftrightarrow> (\<forall>d n i. below fs b d \<longrightarrow> entry fs d n = Some i \<longrightarrow> n \<noteq> [] \<and> n \<noteq> ''.'' \<and> n \<noteq> ''..'')"

lemma plain_prunes: "prunes R fs fs' \<Longrightarrow> plain_names fs b \<Longrightarrow> plain_names fs' b"
proof -
  assume p: "prunes R fs fs'" and n: "plain_names fs b"
  have "entry fs d n = Some i" if "entry fs' d n = Some i" for d n i using that prunes_entry [OF p, of d n] by auto
  then show ?thesis using n prunes_below [OF p] unfolding plain_names_def by metis
qed

lemma plain_below: "plain_names fs b \<Longrightarrow> below fs b c \<Longrightarrow> plain_names fs c"
  using below_trans unfolding plain_names_def by metis

lemma faults_prunes: "prunes R fs fs' \<Longrightarrow> no_faults fs \<Longrightarrow> no_faults fs'"
  by (simp add: prunes_def no_faults_def)

lemma no_entries: "(\<And>m. entry fs d m = None) \<Longrightarrow> entries_of fs d = []"
  unfolding entry_def by (cases "entries_of fs d") (force split: if_splits)+

lemma entry_removed: "entry (remove_entry d name fs) d name = None"
  by (auto simp: remove_entry_def set_node_def entry_def entries_of_def map_of_filter_names split: option.split inode.split)

lemma unlink_removes:
  assumes "no_faults fs" "\<And>i. entry fs d name = Some i \<Longrightarrow> rmdir = is_dir fs i \<and> (rmdir \<longrightarrow> entries_of fs i = [])"
    and "unlink_if True rmdir d name fs = (fs', k)"
  shows "entry fs' d name = None"
  using assms(3) assms(1,2) entry_removed [of d name "fs\<lparr>fs_calls := Suc (fs_calls fs)\<rparr>"]
  by (auto simp: unlink_if_def k_unlinkat_def syscall_def Let_def no_faults_def split: option.splits)

definition contents_empty :: "(nat \<Rightarrow> fsys \<Rightarrow> (fsys \<times> int) option) \<Rightarrow> bool" where
  "contents_empty contents \<longleftrightarrow> (\<forall>d fs fs' k. fs_wf fs \<longrightarrow> no_faults fs \<longrightarrow> plain_names fs d \<longrightarrow> is_dir fs d \<longrightarrow>
     contents d fs = Some (fs', k) \<longrightarrow> entries_of fs' d = [])"

lemma child_emptied:
  assumes "contents_empty contents" "contents_take contents owner True" "fs_wf fs" "no_faults fs" "plain_names fs d"
    and "remove_child contents owner True d name fs = Some (fs', k)"
  shows "entry fs' d name = None"
proof (cases "entry fs d name")
  case None
  then show ?thesis using prunes_entry [OF child_takes [OF assms(2,3) _ assms(6), of True], of d name] by auto
next
  case (Some i)
  have n: "name \<noteq> []" "name \<noteq> ''.''" "name \<noteq> ''..''" using assms(5) Some below_self unfolding plain_names_def by blast+
  let ?fs1 = "fs\<lparr>fs_calls := Suc (fs_calls fs)\<rparr>" and ?fs2 = "fs\<lparr>fs_calls := Suc (Suc (fs_calls fs))\<rparr>"
  obtain v where v: "fs_node fs i = Some v" using fs_wfD(1) [OF assms(3) Some] by blast
  have dv: "is_dir_node v = is_dir fs i" using v by (simp add: is_dir_node_def is_dir_def)
  have stat: "k_fstat i ?fs1 = (?fs2, Some v)" "k_fstatat d name ?fs1 = (?fs2, Some v)"
    using assms(4) v Some by (simp_all add: k_fstat_def k_fstatat_def syscall_def Let_def no_faults_def)
  show ?thesis
  proof (cases "is_dir fs i")
    case True
    then obtain fs3 k3 where c: "contents i ?fs2 = Some (fs3, k3)" "unlink_if True True d name fs3 = (fs', k - k3)"
      using assms(6) n dv stat open_child [OF assms(4) Some n] by (auto simp: remove_child_def split: option.splits prod.splits)
    have "plain_names ?fs2 i" using plain_prunes [OF prunes_calls] plain_below [OF assms(5) below_entry [OF below_self Some]] .
    then have empty: "entries_of fs3 i = []" using assms(1) [unfolded contents_empty_def, rule_format, of ?fs2 i fs3 k3] assms(3,4) c(1) True
      by (simp add: no_faults_def)
    have t: "takes owner True i ?fs2 fs3" using assms(2,3) c(1) unfolding contents_take_def by simp
    show ?thesis
    proof (rule unlink_removes [OF faults_prunes [OF t] _ c(2)])
      fix j
      assume "entry fs3 d name = Some j"
      then have "j = i" using prunes_entry [OF t, of d name] Some by auto
      then show "True = is_dir fs3 j \<and> (True \<longrightarrow> entries_of fs3 j = [])" using empty prunes_shape(1) [OF t] True by simp
    qed (use assms(4) in \<open>simp add: no_faults_def\<close>)
  next
    case False
    then have "unlink_if True False d name ?fs2 = (fs', k)"
      using assms(6) n stat open_child [OF assms(4) Some n] by (simp add: remove_child_def)
    then show ?thesis using unlink_removes [of ?fs2 d name False] assms(4) Some False by (auto simp: no_faults_def)
  qed
qed

lemma entries_emptied:
  assumes "contents_empty contents" "contents_take contents owner True" "fs_wf fs" "no_faults fs" "plain_names fs d"
    and "remove_entries contents owner True d ns fs = Some (fs', k)"
  shows "\<forall>name \<in> set ns. entry fs' d name = None"
  using assms(3-6)
proof (induction ns arbitrary: fs k)
  case (Cons name ns)
  let ?fs1 = "fs\<lparr>fs_calls := Suc (fs_calls fs)\<rparr>"
  have "k_readdir fs = (?fs1, Some ())" using Cons.prems(2) by (simp add: k_readdir_def syscall_def Let_def no_faults_def)
  then obtain fs2 k2 k3 where r: "remove_child contents owner True d name ?fs1 = Some (fs2, k2)"
      "remove_entries contents owner True d ns fs2 = Some (fs', k3)" using Cons.prems(4) by (auto split: option.splits)
  have w: "fs_wf ?fs1" "no_faults ?fs1" "plain_names ?fs1 d" using Cons.prems(1-3) plain_prunes [OF prunes_calls] by (simp_all add: no_faults_def)
  have t: "takes owner True d ?fs1 fs2" using child_takes [OF assms(2) w(1) _ r(1), of True] by simp
  have t2: "takes owner True d fs2 fs'" using entries_take [OF assms(2) prunes_wf [OF t w(1)] _ r(2), of True] by simp
  have "entry fs2 d name = None" using child_emptied [OF assms(1,2) w r(1)] .
  then have "entry fs' d name = None" using prunes_entry [OF t2, of d name] by auto
  then show ?case using Cons.IH [OF prunes_wf [OF t w(1)] faults_prunes [OF t w(2)] plain_prunes [OF t w(3)] r(2)] by simp
qed simp

lemma removeDirContents_empties: "contents_empty (removeDirContents n owner True)"
proof (induction n)
  case (Suc n)
  show ?case
    unfolding contents_empty_def
  proof (intro allI impI)
    fix d fs fs' k
    assume a: "fs_wf fs" "no_faults fs" "plain_names fs d" "is_dir fs d" "removeDirContents (Suc n) owner True d fs = Some (fs', k)"
    let ?fs2 = "fs\<lparr>fs_calls := Suc (Suc (fs_calls fs))\<rparr>"
    obtain v where v: "fs_node fs d = Some v" "is_dir_node v" using a(4) by (auto simp: is_dir_def is_dir_node_def split: option.splits)
    have r: "remove_entries (removeDirContents n owner True) owner True d (map fst (entries_of fs d)) ?fs2 = Some (fs', k)"
      using a(2,5) v by (simp add: k_fstat_def k_readdir_def syscall_def Let_def no_faults_def)
    have w: "fs_wf ?fs2" "no_faults ?fs2" "plain_names ?fs2 d" using a plain_prunes [OF prunes_calls] by (simp_all add: no_faults_def)
    have gone: "\<forall>name \<in> set (map fst (entries_of fs d)). entry fs' d name = None"
      using entries_emptied [OF Suc removeDirContents_takes w r] .
    have t: "takes owner True d ?fs2 fs'" using entries_take [OF removeDirContents_takes w(1) _ r, of True] by simp
    show "entries_of fs' d = []"
    proof (rule no_entries)
      fix m
      show "entry fs' d m = None"
      proof (cases "entry fs d m")
        case None
        then show ?thesis using prunes_entry [OF t, of d m] by auto
      next
        case (Some i)
        then have "m \<in> fst ` set (entries_of fs d)" by (metis entry_def map_of_eq_None_iff option.distinct(1))
        then show ?thesis using gone by auto
      qed
    qed
  qed
qed (simp add: contents_empty_def)

text \<open>Where the directory of a path is found, and the tree to be removed.\<close>

definition parent_at :: "fsys \<Rightarrow> string \<Rightarrow> string \<Rightarrow> nat \<Rightarrow> bool" where
  "parent_at fs parent name p \<longleftrightarrow> walk False True 40 fs 0 (start_dir fs (parent @ path_sep # name)) (names parent) = Found p \<and>
     path_sep \<notin> set name \<and> name \<notin> {[], ''.'', ''..''}"

definition tree_taken :: "int \<Rightarrow> bool \<Rightarrow> fsys \<Rightarrow> nat \<Rightarrow> string \<Rightarrow> nat \<Rightarrow> nat \<Rightarrow> bool" where
  "tree_taken owner force fs p name d j \<longleftrightarrow> (\<exists>b. entry fs p name = Some b \<and>
     (d = p \<and> j = b \<and> (force \<or> owned_node owner fs b) \<or> removable owner force fs b d j))"

lemma parent_open:
  assumes "parent_at fs parent name p" "openFileWithinTrustedPath False (if parent = [] then ''.'' else parent) O_DIRECTORY 0 False fs = (fs1, Some d)"
  shows "at_name fs1 d (if parent \<noteq> [] then name else path_sep # name) = (p, name)" "only_calls fs fs1"
proof -
  have calls: "only_calls fs fs1" using openFile_calls [of O_DIRECTORY fs False "if parent = [] then ''.'' else parent" 0 False] assms(2) by simp
  have name: "\<not> is_absolute name" using assms(1) by (cases name) (auto simp: parent_at_def is_absolute_def)
  have "k_open O_DIRECTORY (if parent = [] then ''.'' else parent) fs = (fs1, Some d)"
    using assms(2) by (simp add: openFileWithinTrustedPath_def Let_def)
  note found = k_open_found [OF this]
  show "at_name fs1 d (if parent \<noteq> [] then name else path_sep # name) = (p, name)"
  proof (cases "parent = []")
    case True
    then have "p = fs_root fs" "fs_root fs1 = fs_root fs" using assms(1) calls by (auto simp: parent_at_def start_dir_def is_absolute_def only_calls_def)
    then show ?thesis using True by (simp add: at_name_def is_absolute_def)
  next
    case False
    then have "start_dir fs (parent @ path_sep # name) = start_dir fs parent" by (simp add: start_dir_def is_absolute_def)
    then show ?thesis using False found assms(1) name by (simp add: parent_at_def at_name_def)
  qed
  show "only_calls fs fs1" by (rule calls)
qed

lemma removeDir_dir: "path_sep \<notin> set name \<Longrightarrow> getDirectory (parent @ path_sep # name) = parent"
  using getDirectory_home [of parent name] by simp

lemma removeDir_opens:
  assumes "parent_at fs parent name p" "entry fs p name = Some b" "no_faults fs" "is_dir fs (fs_cwd fs)"
  shows "\<exists>fs1 d. openFileWithinTrustedPath False (if parent = [] then ''.'' else parent) O_DIRECTORY 0 False fs = (fs1, Some d)"
proof (cases "parent = []")
  case True
  have "names ''.'' = [''.'']" by (simp add: names_components path_sep_def)
  then show ?thesis using True assms(3,4)
    by (simp add: openFileWithinTrustedPath_def Let_def k_open_def syscall_def no_faults_def start_dir_def is_absolute_def path_sep_def
        walk.simps(2) finish_open_def O_DIRECTORY_def)
next
  case False
  have "start_dir fs (parent @ path_sep # name) = start_dir fs parent" using False by (simp add: start_dir_def is_absolute_def)
  then show ?thesis using False assms(1,3) entry_node [OF assms(2)]
    by (simp add: openFileWithinTrustedPath_def Let_def k_open_def syscall_def no_faults_def parent_at_def finish_open_def O_DIRECTORY_def)
qed

definition finish_removal :: "nat \<Rightarrow> int \<Rightarrow> bool \<Rightarrow> nat \<Rightarrow> string \<Rightarrow> nat \<Rightarrow> fsys \<Rightarrow> (fsys \<times> int) option" where
  "finish_removal n owner whole p name b fs = (case removeDirContents n owner whole b fs of
      None \<Rightarrow> None
    | Some (fs, k) \<Rightarrow> (case unlink_if whole True p name fs of (fs, k') \<Rightarrow> Some (fs, k + k')))"

lemma finish_removal_Some:
  assumes "finish_removal n owner whole p name b fs = Some (fs', k)"
  shows "\<exists>fs3 k3. removeDirContents n owner whole b fs = Some (fs3, k3) \<and> unlink_if whole True p name fs3 = (fs', k - k3)"
  using assms by (auto simp: finish_removal_def split: option.splits prod.splits)

lemma removeDir_cases:
  assumes "parent_at fs parent name p" "res = fs_removeDir n (parent @ path_sep # name) owner force fs"
  shows "(\<exists>fs1. res = Some (fs1, 0) \<and> only_calls fs fs1 \<and>
      (no_faults fs \<longrightarrow> is_dir fs (fs_cwd fs) \<longrightarrow> (\<forall>b. entry fs p name = Some b \<longrightarrow> is_dir fs b \<longrightarrow> fs_node fs b = None))) \<or>
    (\<exists>fs2 b v. only_calls fs fs2 \<and> entry fs p name = Some b \<and> fs_node fs b = Some v \<and>
      res = finish_removal n owner (force \<or> belongs owner v) p name b fs2)"
proof -
  have n: "getDirectory (parent @ path_sep # name) = parent" "name \<noteq> ''.''" "name \<noteq> ''..''" "name \<noteq> []"
    using assms(1) removeDir_dir by (auto simp: parent_at_def)
  have ne: "parent @ path_sep # name \<noteq> ''/''" using n(4) by (cases parent) (auto simp: path_sep_def)
  let ?f = "if parent \<noteq> [] then name else path_sep # name"
  have f: "(if parent \<noteq> [] then drop (length parent + 1) (parent @ path_sep # name) else parent @ path_sep # name) = ?f" by simp
  obtain fs1 q where q: "openFileWithinTrustedPath False (if parent = [] then ''.'' else parent) O_DIRECTORY 0 False fs = (fs1, q)" by fastforce
  have c1: "only_calls fs fs1" using openFile_calls [of O_DIRECTORY fs False "if parent = [] then ''.'' else parent" 0 False] q by simp
  note removal = assms(2) [unfolded fs_removeDir_def n(1) Let_def f]
  show ?thesis
  proof (cases q)
    case None
    then show ?thesis using removal ne q c1 removeDir_opens [OF assms(1)] by fastforce
  next
    case (Some d)
    note at = parent_open(1) [OF assms(1) q [unfolded Some]]
    obtain fs2 r where r: "k_openat O_DIRECTORY False p name fs1 = (fs2, r)" by fastforce
    have c2: "only_calls fs fs2" using looking_calls(2) [of O_DIRECTORY fs1 False p name] r c1 only_calls_trans by fastforce
    note s1 = only_calls_same [OF c1]
    show ?thesis
    proof (cases r)
      case None
      have "\<not> is_dir fs b" if "no_faults fs" "entry fs p name = Some b" for b
        using open_child [of fs1 p name b] that n r None s1 by (auto simp: no_faults_def)
      then show ?thesis using removal ne q Some at r None c2 by simp
    next
      case b: (Some b)
      have e: "entry fs p name = Some b" using k_openat_found [OF r [unfolded b]] walk_plain n(2,3) s1(2) by metis
      obtain fs3 w where w: "k_fstat b fs2 = (fs3, w)" by fastforce
      have c3: "only_calls fs fs3" using looking_results(1) [OF w] c2 only_calls_trans by blast
      show ?thesis
      proof (cases w)
        case None
        have "no_faults fs \<Longrightarrow> fs_node fs b = None"
          using w None only_calls_same [OF c2] by (auto simp: k_fstat_def syscall_def Let_def no_faults_def)
        then show ?thesis using removal ne q Some at r b w None c3 e by simp
      next
        case w1: (Some v)
        have v: "fs_node fs b = Some v" using looking_results(1) [OF w] w1 only_calls_same(1) [OF c2] by simp
        have "res = finish_removal n owner (force \<or> belongs owner v) p name b fs3"
          using removal ne q Some at r b w w1 by (simp add: finish_removal_def)
        then show ?thesis using c3 e v by blast
      qed
    qed
  qed
qed

lemma removeDir_returns:
  assumes "fs_wf fs" "parent_at fs parent name p" "entry fs p name = Some b" "ranked r fs b" "r b < n"
  shows "fs_removeDir n (parent @ path_sep # name) owner force fs \<noteq> None"
proof -
  consider fs1 where "fs_removeDir n (parent @ path_sep # name) owner force fs = Some (fs1, 0)"
    | fs2 v where "only_calls fs fs2"
      "fs_removeDir n (parent @ path_sep # name) owner force fs = finish_removal n owner (force \<or> belongs owner v) p name b fs2"
    using removeDir_cases [OF assms(2) refl, of n owner force] assms(3) by auto
  then show ?thesis
  proof cases
    case 2
    have "removeDirContents n owner (force \<or> belongs owner v) b fs2 \<noteq> None"
      using removeDirContents_ends ranked_prunes [OF only_calls_prunes [OF 2(1)] assms(4)] assms(1,5) only_calls_same(5) [OF 2(1)] by blast
    then show ?thesis unfolding 2(2) finish_removal_def by (auto split: prod.split)
  qed simp
qed

section \<open>Properties\<close>

text \<open>The example of \<open>Home_Files\<close>: the home, with its link to \<open>/etc\<close>.\<close>

lemma demo_parent: "parent_at demo_files ''/home'' ''p'' 1"
  by (simp add: parent_at_def start_dir_def is_absolute_def path_sep_def names_components walk.simps entry_def entries_of_def link_of_def
      is_dir_def demo_files_def demo_nodes_def)

lemma demo_home_entry: "entry demo_files 1 ''p'' = Some 3"
  by (simp add: entry_def entries_of_def demo_files_def demo_nodes_def)

lemma demo_entry_below:
  assumes "entry demo_files d n = Some i" "d \<in> {3, 4, 6}"
  shows "d = 3 \<and> (n = ''a.c'' \<and> i = 4 \<or> n = ''out'' \<and> i = 6)"
  using demo_entry [OF assms(1)] assms(2) by (simp, elim disjE conjE; simp)

definition demo_rank :: "nat \<Rightarrow> nat" where "demo_rank i = (if i = 3 then 1 else 0)"

lemma demo_ranked: "ranked demo_rank demo_files 3" "plain_names demo_files 3"
proof -
  have e: "(n = ''a.c'' \<or> n = ''out'') \<and> \<not> is_dir demo_files i" if "below demo_files 3 d" "entry demo_files d n = Some i" for d n i
    using demo_entry_below [OF that(2) demo_below [OF that(1)]] by (elim conjE disjE) (simp_all add: demo_dir)
  show "ranked demo_rank demo_files 3" unfolding ranked_def using e by blast
  show "plain_names demo_files 3" unfolding plain_names_def
  proof (intro allI impI)
    fix d n i
    assume "below demo_files 3 d" "entry demo_files d n = Some i"
    from e [OF this] show "n \<noteq> [] \<and> n \<noteq> ''.'' \<and> n \<noteq> ''..''" by auto
  qed
qed

text \<open>
  C13: removing a tree changes nothing but entries. It takes the one of the tree and entries of directories below it, never through a
  link; without \<open>force\<close> only what is of the owner or in a directory of the owner.
\<close>

theorem tree_removal_stays_inside:
  assumes "fs_wf fs" "parent_at fs parent name p" "fs_removeDir n (parent @ ''/'' @ name) owner force fs = Some (fs', k)"
  shows "prunes (tree_taken owner force fs p name) fs fs'"
proof -
  consider "only_calls fs fs'" | fs2 b v fs3 k3 where "only_calls fs fs2" "entry fs p name = Some b" "fs_node fs b = Some v"
      "removeDirContents n owner (force \<or> belongs owner v) b fs2 = Some (fs3, k3)"
      "unlink_if (force \<or> belongs owner v) True p name fs3 = (fs', k - k3)"
    using removeDir_cases [OF assms(2), of "Some (fs', k)" n owner force] assms(3)
    by (simp add: path_sep_def) (metis finish_removal_Some)
  then show ?thesis
  proof cases
    case 2
    have own: "belongs owner v = owned_node owner fs b" using 2(3) by (simp add: owned_node_def)
    note s = only_calls_same [OF 2(1)]
    have "prunes (removable owner (force \<or> belongs owner v) fs2 b) fs2 fs3"
      using removeDirContents_takes 2(4) assms(1) s unfolding contents_take_def by blast
    then have t: "prunes (tree_taken owner force fs p name) fs2 fs3"
      by (rule prunes_mono) (use 2(2) own s below_self in \<open>auto simp: removable_def tree_taken_def\<close>)
    have "prunes (tree_taken owner force fs p name) fs3 fs'"
      by (rule unlink_if_takes [OF 2(5)]) (use prunes_entry [OF t, of p name] 2(2) own s in \<open>auto simp: tree_taken_def\<close>)
    then show ?thesis using prunes_trans [OF only_calls_prunes [OF 2(1)] prunes_trans [OF t]] by blast
  qed (rule only_calls_prunes)
qed

theorem tree_removal_stays_inside_witness:
  "\<exists>fs' k. fs_removeDir 2 ''/home/p'' 10001 False demo_files = Some (fs', k) \<and> entry fs' 2 ''shadow'' = Some 5"
proof -
  have path: "''/home'' @ ''/'' @ ''p'' = ''/home/p''" by simp
  obtain fs' k where r: "fs_removeDir 2 ''/home/p'' 10001 False demo_files = Some (fs', k)"
    using removeDir_returns [OF demo_wf demo_parent demo_home_entry demo_ranked(1), of 2 10001 False] by (auto simp: demo_rank_def path_sep_def)
  have "prunes (tree_taken 10001 False demo_files 1 ''p'') demo_files fs'"
    using tree_removal_stays_inside [OF demo_wf demo_parent, of 2 10001 False fs' k, unfolded path, OF r] .
  from prunes_entry [OF this, of 2 "''shadow''"] have "entry fs' 2 ''shadow'' = Some 5"
    using demo_below [of 2] by (auto simp: tree_taken_def removable_def demo_home_entry entry_def entries_of_def demo_files_def demo_nodes_def)
  then show ?thesis using r by blast
qed

text \<open>
  In a directory that is not the prisoner's the removal takes the prisoner's file and the prisoner's link, not what the link leads to,
  and leaves the directory.
\<close>

definition demo_shared :: fsys where
  "demo_shared = set_node 3 (Dir (root_attr 493) 1 [(''a.c'', 4), (''out'', 6), (''keep'', 5)]) demo_files"

lemma links_of_prisoner_taken:
  "case fs_removeDir 2 ''/home/p'' 10001 False demo_shared of
     Some (fs', k) \<Rightarrow> k = 2 \<and> entries_of fs' 3 = [(''keep'', 5)] \<and> entry fs' 1 ''p'' = Some 3 \<and> entry fs' 2 ''shadow'' = Some 5
   | None \<Rightarrow> False"
  by code_simp

text \<open>
  C14: the removal of a tree returns, whatever calls fail, when it may go as deep as the tree; and with \<open>force\<close>, when no call fails,
  it leaves nothing of the tree.
\<close>

theorem tree_removal_leaves_nothing:
  assumes "fs_wf fs" "parent_at fs parent name p" "entry fs p name = Some b" "ranked r fs b" "r b < n" "is_dir fs (fs_cwd fs)"
  shows "\<exists>fs' k. fs_removeDir n (parent @ ''/'' @ name) owner force fs = Some (fs', k) \<and>
    (force \<longrightarrow> no_faults fs \<longrightarrow> plain_names fs b \<longrightarrow> is_dir fs b \<longrightarrow> entry fs' p name = None \<and> entries_of fs' b = [])"
proof -
  consider fs1 where "fs_removeDir n (parent @ ''/'' @ name) owner force fs = Some (fs1, 0)" "no_faults fs \<Longrightarrow> is_dir fs b \<Longrightarrow> fs_node fs b = None"
    | fs2 v where "only_calls fs fs2" "fs_node fs b = Some v"
      "fs_removeDir n (parent @ ''/'' @ name) owner force fs = finish_removal n owner (force \<or> belongs owner v) p name b fs2"
    using removeDir_cases [OF assms(2) refl, of n owner force] assms(3,6) by (auto simp: path_sep_def)
  then show ?thesis
  proof cases
    case 1
    then show ?thesis using fs_wfD(1) [OF assms(1,3)] by auto
  next
    case 2
    note s = only_calls_same [OF 2(1)] and calls = only_calls_prunes [OF 2(1)]
    let ?whole = "force \<or> belongs owner v"
    have wf: "fs_wf fs2" using assms(1) s by simp
    obtain fs3 k3 where c: "removeDirContents n owner ?whole b fs2 = Some (fs3, k3)"
      using removeDirContents_ends [OF wf ranked_prunes [OF calls assms(4)] assms(5), of owner ?whole] by auto
    obtain fs4 k4 where u: "unlink_if ?whole True p name fs3 = (fs4, k4)" by fastforce
    have t: "takes owner ?whole b fs2 fs3" using removeDirContents_takes c wf unfolding contents_take_def by blast
    have "entry fs4 p name = None \<and> entries_of fs4 b = []" if "force" "no_faults fs" "plain_names fs b" "is_dir fs b"
    proof -
      have e: "entries_of fs3 b = []"
        using removeDirContents_empties [of n owner, unfolded contents_empty_def, rule_format, of fs2 b fs3 k3]
          wf c that s plain_prunes [OF calls that(3)] by (simp add: no_faults_def)
      have p3: "entry fs3 p name = Some i \<Longrightarrow> i = b" for i using prunes_entry [OF t, of p name] assms(3) s by auto
      have "no_faults fs3" using faults_prunes [OF t] that(2) s by (simp add: no_faults_def)
      moreover have "unlink_if True True p name fs3 = (fs4, k4)" using u that(1) by simp
      moreover have "True = is_dir fs3 i \<and> (True \<longrightarrow> entries_of fs3 i = [])" if "entry fs3 p name = Some i" for i
        using p3 [OF that] e \<open>is_dir fs b\<close> s prunes_shape(1) [OF t] by simp
      ultimately have "entry fs4 p name = None" using unlink_removes by blast
      moreover have t4: "prunes (\<lambda>d j. True) fs3 fs4" by (rule unlink_if_takes [OF u]) simp
      have "entry fs3 b m = None" for m using e by (simp add: entry_def)
      then have "entry fs4 b m = None" for m using prunes_entry [OF t4, of b m] by simp
      then have "entries_of fs4 b = []" by (rule no_entries)
      ultimately show ?thesis by blast
    qed
    moreover have "fs_removeDir n (parent @ ''/'' @ name) owner force fs = Some (fs4, k3 + k4)"
      unfolding 2(3) finish_removal_def c by (simp add: u)
    ultimately show ?thesis by blast
  qed
qed

theorem tree_removal_leaves_nothing_witness:
  "\<exists>fs' k. fs_removeDir 2 ''/home/p'' 10001 True demo_files = Some (fs', k) \<and> entry fs' 1 ''p'' = None \<and> entries_of fs' 3 = []"
proof -
  have path: "''/home'' @ ''/'' @ ''p'' = ''/home/p''" by simp
  have "demo_rank 3 < 2" "is_dir demo_files (fs_cwd demo_files)" "no_faults demo_files" "is_dir demo_files 3"
    by (simp_all add: demo_rank_def demo_dir no_faults_def) (simp_all add: demo_files_def)
  then show ?thesis
    using tree_removal_leaves_nothing [OF demo_wf demo_parent demo_home_entry demo_ranked(1), of 2 10001 True, unfolded path] demo_ranked(2) by blast
qed

end
