(* ===== verification/File_Store.thy ===== *)
theory File_Store
  imports Tree_Removal Process_Monitor
begin

text \<open>
  What the files of a home hold, as a map from names to texts: the store that the process monitor works with (Process_Monitor), and
  the one that the calls of Files keep in a home in which nobody has made links. Both keep the same contract, the locale
  \<open>file_store\<close>; proved: a write changes the text of its own name and no other, files saved one after another are all read back,
  and a deletion takes away the file of its name and no other.
\<close>

section \<open>The contract\<close>

text \<open>Files saved one after another, up to the first that cannot be.\<close>

primrec save_all :: "(string \<Rightarrow> string \<Rightarrow> 's \<Rightarrow> 's option) \<Rightarrow> (string \<times> string) list \<Rightarrow> 's \<Rightarrow> 's option" where
  "save_all store [] s = Some s"
| "save_all store (f # fs) s = (case store (fst f) (snd f) s of None \<Rightarrow> None | Some s \<Rightarrow> save_all store fs s)"

locale file_store =
  fixes ready :: "'s \<Rightarrow> bool" and contents :: "'s \<Rightarrow> string \<Rightarrow> string option"
    and store :: "string \<Rightarrow> string \<Rightarrow> 's \<Rightarrow> 's option" and fetch :: "string \<Rightarrow> 's \<Rightarrow> string result"
    and remove :: "string \<Rightarrow> 's \<Rightarrow> 's"
  assumes store_updates: "ready s \<Longrightarrow> store n d s = Some s' \<Longrightarrow> ready s' \<and> contents s' = (contents s)(n \<mapsto> d)"
    and fetch_contents: "ready s \<Longrightarrow> contents s n = Some d \<Longrightarrow> fetch n s = Inr d"
    and remove_drops: "ready s \<Longrightarrow> ready (remove n s) \<and> contents (remove n s) = (contents s)(n := None)"
begin

lemma save_all_contents:
  "ready s \<Longrightarrow> save_all store fs s = Some s' \<Longrightarrow> ready s' \<and> contents s' = contents s ++ map_of (rev fs)"
proof (induction fs arbitrary: s)
  case (Cons f fs)
  then obtain s1 where s1: "store (fst f) (snd f) s = Some s1" "save_all store fs s1 = Some s'" by (auto split: option.splits)
  note u = store_updates [OF Cons.prems(1) s1(1)]
  show ?case using Cons.IH [OF _ s1(2)] u by (cases f) (simp add: map_add_upd_left map_add_def fun_eq_iff split: option.split)
qed simp

lemma saved_is_fetched: "ready s \<Longrightarrow> save_all store fs s = Some s' \<Longrightarrow> map_of (rev fs) n = Some d \<Longrightarrow> fetch n s' = Inr d"
  using save_all_contents [of s fs s'] fetch_contents [of s' n d] by simp

lemma removed_after_saving:
  assumes "ready s" "save_all store fs s = Some s'"
  shows "ready (fold remove ns s')" "contents (fold remove ns s') = (contents s ++ map_of (rev fs)) |` (- set ns)"
proof -
  have "ready s' \<Longrightarrow> ready (fold remove ns s') \<and> contents (fold remove ns s') = contents s' |` (- set ns)" for s'
  proof (induction ns arbitrary: s')
    case (Cons n ns)
    then show ?case using remove_drops [OF Cons.prems, of n] Cons.IH [of "remove n s'"] by (auto simp: restrict_map_def fun_eq_iff)
  qed (simp add: restrict_map_def)
  then show "ready (fold remove ns s')" "contents (fold remove ns s') = (contents s ++ map_of (rev fs)) |` (- set ns)"
    using save_all_contents [OF assms] by simp_all
qed

lemma others_kept: "ready s \<Longrightarrow> save_all store fs s = Some s' \<Longrightarrow> n \<notin> fst ` set fs \<Longrightarrow> contents s' n = contents s n"
  using save_all_contents [of s fs s'] map_of_eq_None_iff [of "rev fs" n] by (simp add: map_add_def)

end

section \<open>The store of the process monitor\<close>

definition monitor_write :: "string \<Rightarrow> string \<Rightarrow> task \<Rightarrow> task option" where
  "monitor_write n d t = (case write_file n d t of (t', Inr u) \<Rightarrow> Some t' | (t', Inl e) \<Rightarrow> None)"

definition monitor_ready :: "task \<Rightarrow> bool" where
  "monitor_ready t \<longleftrightarrow> (\<forall>n. \<not> w_fails t OpenRead n \<and> \<not> w_fails t Unlink n) \<and> (\<forall>n. map_of (w_files t) n \<noteq> None \<longrightarrow> correctPath n)"

interpretation monitor_store: file_store monitor_ready "\<lambda>t. map_of (w_files t)" monitor_write "\<lambda>n t. snd (read_file n False t)" delete_file
proof
  show "monitor_ready (delete_file n s) \<and> map_of (w_files (delete_file n s)) = (map_of (w_files s))(n := None)" if "monitor_ready s" for s n
    using that by (cases "correctPath n") (auto simp: delete_file_def drop_file_def monitor_ready_def delete_conv' fun_eq_iff)
  show "monitor_ready s' \<and> map_of (w_files s') = (map_of (w_files s))(n \<mapsto> d)" if "monitor_ready s" "monitor_write n d s = Some s'" for s n d s'
    using that by (auto simp: monitor_write_def write_file_def put_file_def monitor_ready_def update_conv' Let_def split: prod.splits sum.splits if_splits)
  show "snd (read_file n False s) = Inr d" if "monitor_ready s" "map_of (w_files s) n = Some d" for s n d
    using that by (auto simp: read_file_def monitor_ready_def)
qed

section \<open>The files of a home\<close>

primrec node_at :: "fsys \<Rightarrow> nat \<Rightarrow> string list \<Rightarrow> nat option" where
  "node_at fs d [] = Some d"
| "node_at fs d (c # cs) = (case entry fs d c of None \<Rightarrow> None | Some i \<Rightarrow> node_at fs i cs)"

definition contents_at :: "fsys \<Rightarrow> nat \<Rightarrow> string list \<Rightarrow> string option" where
  "contents_at fs b cs = (case node_at fs b cs of None \<Rightarrow> None | Some i \<Rightarrow> file_of fs i)"

lemma node_at_append: "node_at fs d (cs @ cs') = (case node_at fs d cs of None \<Rightarrow> None | Some i \<Rightarrow> node_at fs i cs')"
  by (induction cs arbitrary: d) (auto split: option.split)

lemma node_at_below: "node_at fs d cs = Some i \<Longrightarrow> below fs b d \<Longrightarrow> below fs b i"
  by (induction cs arbitrary: d) (auto split: option.splits intro: below_entry)

lemma below_node_at: "below fs b i \<Longrightarrow> \<exists>cs. node_at fs b cs = Some i"
proof (induction rule: below.induct)
  case below_self
  show ?case by (rule exI [of _ "[]"]) simp
next
  case (below_entry d n i)
  then obtain cs where "node_at fs b cs = Some d" by blast
  then show ?case using below_entry(2) by (intro exI [of _ "cs @ [n]"]) (simp add: node_at_append)
qed

lemma node_at_extends: "extends fs fs' \<Longrightarrow> node_at fs d cs = Some i \<Longrightarrow> node_at fs' d cs = Some i"
  by (induction cs arbitrary: d) (auto split: option.splits dest: extends_entry)

text \<open>In a tree a node has one path.\<close>

lemma node_at_unique:
  assumes "tree_at fs b"
  shows "node_at fs b cs = Some i \<Longrightarrow> node_at fs b cs' = Some i \<Longrightarrow> cs = cs'"
proof (induction cs arbitrary: i cs' rule: rev_induct)
  case Nil
  show ?case
  proof (cases cs' rule: rev_cases)
    case (snoc ds n)
    then obtain d where d: "node_at fs b ds = Some d" "entry fs d n = Some b" using Nil by (auto simp: node_at_append split: option.splits)
    then show ?thesis using assms node_at_below [OF d(1) below_self] unfolding tree_at_def by blast
  qed simp
next
  case (snoc n cs)
  obtain d where d: "node_at fs b cs = Some d" "entry fs d n = Some i" using snoc.prems(1) by (auto simp: node_at_append split: option.splits)
  note bd = node_at_below [OF d(1) below_self]
  show ?case
  proof (cases cs' rule: rev_cases)
    case Nil
    then show ?thesis using snoc.prems(2) d(2) bd assms unfolding tree_at_def by auto
  next
    case (snoc ds m)
    then obtain x where x: "node_at fs b ds = Some x" "entry fs x m = Some i"
      using \<open>node_at fs b cs' = Some i\<close> by (auto simp: node_at_append split: option.splits)
    have "d = x \<and> n = m" using assms bd node_at_below [OF x(1) below_self] d(2) x(2) unfolding tree_at_def by blast
    then show ?thesis using snoc.IH [OF d(1)] x(1) snoc by simp
  qed
qed

text \<open>What grows, but for one file, holds what it held, but for that file.\<close>

lemma grows_contents:
  assumes "tree_at fs b" "grows b fs fs'" "only_file fs fs' fd" "node_at fs' b cs \<noteq> Some fd"
  shows "contents_at fs' b cs = contents_at fs b cs"
proof (cases "node_at fs b cs")
  case (Some i)
  then show ?thesis using node_at_extends [OF growsD(1) [OF assms(2)] Some] assms(3,4) by (auto simp: contents_at_def only_file_def)
next
  case None
  show ?thesis
  proof (cases "node_at fs' b cs")
    case (Some i)
    have "\<not> below fs b i"
    proof
      assume "below fs b i"
      then obtain ds where ds: "node_at fs b ds = Some i" using below_node_at by blast
      then have "node_at fs' b ds = Some i" using node_at_extends growsD(1) [OF assms(2)] by blast
      then have "cs = ds" using node_at_unique [OF growsD(6) [OF assms(2,1)]] Some by blast
      then show False using ds None by simp
    qed
    then have "fs_node fs i = None" using growsD(4) [OF assms(2)] node_at_below [OF Some below_self] by blast
    then have "file_of fs' i = None" using assms(3,4) Some by (auto simp: only_file_def file_of_def)
    then show ?thesis using None Some by (simp add: contents_at_def)
  qed (use None in \<open>simp add: contents_at_def\<close>)
qed

text \<open>Without links the searches of the kernel are the paths of the tree.\<close>

lemma leads_node_at:
  assumes "leads beneath follow fs base n d cs i" "\<forall>i. below fs b i \<longrightarrow> link_of fs i = None" "below fs b d" "''.'' \<notin> set cs" "''..'' \<notin> set cs"
  shows "node_at fs d cs = Some i"
  using assms
proof (induction rule: leads.induct)
  case (leads_link d c j t cs n i)
  then show ?case using below_entry by fastforce
next
  case (leads_down d c j n cs i)
  then show ?case using below_entry by fastforce
qed auto

lemma node_at_leads:
  assumes "node_at fs d cs = Some i" "\<forall>i. below fs b i \<longrightarrow> link_of fs i = None" "below fs b d" "''.'' \<notin> set cs" "''..'' \<notin> set cs"
  shows "leads beneath follow fs base n d cs i"
  using assms
proof (induction cs arbitrary: d)
  case (Cons c cs)
  then obtain j where j: "entry fs d c = Some j" "node_at fs j cs = Some i" by (auto split: option.splits)
  then show ?case using Cons.IH [OF j(2)] Cons.prems(2-5) below_entry [OF Cons.prems(3) j(1)] entry_node [OF j(1)]
    by (intro leads_down) auto
qed (auto intro: leads_end)

section \<open>Writing and reading in a home without links\<close>

lemma correct_rest:
  assumes "correctPath (home @ path_sep # rest)" "is_absolute home"
  shows "names rest = components rest" "''.'' \<notin> set (names rest)" "''..'' \<notin> set (names rest)"
proof -
  obtain h where h: "home = path_sep # h" using assms(2) by (cases home) (auto simp: is_absolute_def)
  have "relative_part (home @ path_sep # rest) = h @ path_sep # rest"
    unfolding h by (simp add: relative_part_def is_prefix_append dot_def path_sep_def)
  then have good: "\<forall>n \<in> set (components rest). n \<noteq> [] \<and> n \<noteq> [dot] \<and> n \<noteq> [dot, dot]"
    using assms(1) good_name_plain by (auto simp: correctPath_iff components_append_sep)
  then show c: "names rest = components rest" by (simp add: names_components filter_id_conv)
  show "''.'' \<notin> set (names rest)" "''..'' \<notin> set (names rest)" unfolding c using good by (auto simp: dot_def)
qed

lemma components_inj: "components s = components t \<Longrightarrow> s = t"
proof (induction s arbitrary: t)
  case Nil
  then show ?case using components_nonempty [of "tl t"] by (cases t) (auto split: if_splits list.splits simp: eq_commute [of "[]"])
next
  case (Cons c s)
  obtain n ns where s: "components s = n # ns" by (cases "components s") auto
  show ?case
  proof (cases t)
    case Nil
    then show ?thesis using Cons.prems s by (auto split: if_splits)
  next
    case t: (Cons d ds)
    obtain m ms where "components ds = m # ms" by (cases "components ds") auto
    then show ?thesis using Cons.prems Cons.IH [of ds] s t by (auto split: if_splits)
  qed
qed

lemma relative_names:
  assumes "correctPath (home @ path_sep # rest)" "is_absolute home"
  shows "names (relative_of (home @ path_sep # rest) (Suc (length home))) = names rest"
  using relative_plain(2) [of "home @ path_sep # rest" "Suc (length home)"] by simp

lemma home_write_contents:
  assumes "fs_wf fs" "home_at fs home b" "tree_at fs b" "\<forall>i. \<not> is_special fs i"
    and "fs_writeFile openat2 answers (home @ path_sep # rest) data user (Suc (length home)) fs = Some (fs', Inr ())"
  shows "contents_at fs' b = (contents_at fs b)(names rest \<mapsto> data) \<and> grows b fs fs'"
proof -
  let ?name = "home @ path_sep # rest" and ?pos = "Suc (length home)"
  let ?fs1 = "make_dir_of ?name user ?pos fs" and ?rel = "relative_of ?name ?pos"
  have cp: "correctPath ?name" using assms(5) by (auto simp: fs_writeFile_def split: if_splits)
  have abs: "is_absolute home" using assms(2) by (simp add: home_at_def)
  note c = correctPath_in_home [OF cp abs] and n = correct_rest [OF cp abs] and rn = relative_names [OF cp abs]
  have up: "no_way_up (names ?rel)" using rn c(1) by simp
  have m1: "makes b fs ?fs1" using make_dir_makes [OF assms(1,2) c(1)] .
  note g1 = makesD(1) [OF m1] and wf1 = makesD(2) [OF m1]
  note h1 = home_grows [OF assms(1) g1 assms(2)]
  obtain fs2 fd where o: "openFileWithinTrustedPath openat2 ?name O_REPLACE ?pos False ?fs1 = (fs2, Some fd)"
    using assms(5) cp by (auto simp: fs_writeFile_def split: prod.splits option.splits)
  note r = replace_in_home [OF wf1 h1 refl refl c(2) up o]
  have b2: "grows b ?fs1 fs2" "below fs2 b fd" using works_belowD [OF open_in_home_below [OF wf1 h1 refl c(1,2)] o] by blast+
  note wf2 = growsD(2) [OF b2(1)]
  obtain written w where w: "write_loop answers data = (written, w)" by fastforce
  have fs': "w = Some True" "fs' = finish_write ?name user fd (set_contents fd written fs2)"
    using assms(5) cp o w by (auto simp: fs_writeFile_def Let_def split: option.splits if_splits)
  have data: "written = data" using write_loop_all w fs'(1) by blast
  have g3: "grows b fs2 (set_contents fd data fs2)" using set_contents_grows [OF wf2 b2(2)] .
  have m4: "makes b (set_contents fd data fs2) fs'"
    using finish_write_makes [OF growsD(2) [OF g3] growsD(3) [OF g3 b2(2)]] fs'(2) data by simp
  note g4 = makesD(1) [OF m4]
  have g: "grows b fs fs'" using grows_trans [OF g1 grows_trans [OF b2(1) grows_trans [OF g3 g4]]] .
  have "\<not> is_special fs2 fd" using assms(4) growsD(1) [OF g1] growsD(1) [OF b2(1)] unfolding extends_def by blast
  then obtain a where reg: "fs_node fs2 fd = Some (Reg a [])" using r unfolding fresh_file_def is_special_def by blast
  then have fdata: "file_of fs' fd = Some data"
    using makesD(4) [OF m4, of fd] by (simp add: file_of_def set_contents_def set_node_def)
  have "only_file fs fs' fd"
    using r makesD(4) [OF m1] makesD(4) [OF m4] reg by (simp add: only_file_def) (simp add: file_of_def set_contents_def set_node_def)
  note others = grows_contents [OF assms(3) g this]
  have tree2: "tree_at fs2 b" using growsD(6) [OF b2(1)] growsD(6) [OF g1] assms(3) by blast
  have "node_at fs2 b (names rest) = Some fd"
    using r leads_node_at [of _ _ fs2 _ _ b "names ?rel" fd b] tree2 below_self n(2,3) rn unfolding tree_at_def by metis
  then have path: "node_at fs' b (names rest) = Some fd" using node_at_extends growsD(1) [OF grows_trans [OF g3 g4]] by blast
  have "contents_at fs' b cs = ((contents_at fs b)(names rest \<mapsto> data)) cs" for cs
  proof (cases "node_at fs' b cs = Some fd")
    case True
    then have "cs = names rest" using node_at_unique [OF growsD(6) [OF g assms(3)]] path by blast
    then show ?thesis using path fdata by (simp add: contents_at_def)
  next
    case False
    then show ?thesis using others path by (cases "cs = names rest") simp_all
  qed
  then show ?thesis using g by blast
qed

lemma home_read_contents:
  assumes "home_at fs home b" "tree_at fs b" "no_faults fs" "correctPath (home @ path_sep # rest)" "contents_at fs b (names rest) = Some c"
  shows "snd (fs_readFile openat2 False (home @ path_sep # rest) throwError (Suc (length home)) fs) = Inr c"
proof -
  let ?name = "home @ path_sep # rest" and ?pos = "Suc (length home)"
  have abs: "is_absolute home" using assms(1) by (simp add: home_at_def)
  note n = correct_rest [OF assms(4) abs] and rn = relative_names [OF assms(4) abs] and cp = correctPath_in_home [OF assms(4) abs]
  obtain i a where i: "node_at fs b (names rest) = Some i" "fs_node fs i = Some (Reg a c)"
    using assms(5) by (auto simp: contents_at_def file_of_def split: option.splits inode.splits)
  have "leads False False fs 0 0 b (names rest) i" "is_dir fs b"
    using node_at_leads [OF i(1) _ below_self n(2,3)] assms(2) unfolding tree_at_def by blast+
  then obtain fs' where o: "openFileWithinTrustedPath openat2 ?name O_RDONLY ?pos True fs = (fs', Some i)"
    using read_in_home [OF assms(1) _ assms(3) refl refl cp(2) _ file_part_good(1) [OF assms(4) abs], of openat2 i] cp(1) rn by auto
  then have "fs_node fs' = fs_node fs" using openFile_calls [of O_RDONLY fs openat2 ?name ?pos True] by (auto simp: only_calls_def)
  then show ?thesis using o assms(4) i(2) by (simp add: fs_readFile_def Let_def is_dir_def)
qed

section \<open>Deleting in a home without links\<close>

text \<open>The directory of a name, as it is opened.\<close>

lemma opened_directory:
  assumes "home_at fs home b" "tree_at fs b" "name = home @ path_sep # rest" "rel = relative_of name (Suc (length home))" "rel \<noteq> []"
    and "''.'' \<notin> set (names rel)" "''..'' \<notin> set (names rel)"
    and "openFileWithinTrustedPath openat2 name O_DIRECTORY (Suc (length home)) True fs = (fs', Some d)"
  shows "node_at fs b (names rel) = Some d \<and> is_dir fs d"
proof -
  note base = base_of_home [OF _ assms(3)]
  let ?base = "base_of name (Suc (length home))"
  obtain fs1 x where x: "k_open O_DIRECTORY ?base fs = (fs1, Some x)" using assms(4,5,8)
    by (auto simp: openFileWithinTrustedPath_def Let_def fop_bind_def split: prod.splits option.splits)
  have c: "only_calls fs fs1" using looking_calls(1) [of O_DIRECTORY fs ?base] x by simp
  have b: "x = b" "is_dir fs b" using k_open_found [OF x] assms(1) base by (auto simp: home_at_def start_dir_def)
  have rel: "\<not> is_absolute rel" unfolding assms(4) by (rule relative_plain(1))
  have up: "no_way_up (names rel)" using assms(7) by (simp add: no_way_up_def)
  have nolinks: "\<forall>i. below fs b i \<longrightarrow> link_of fs i = None" using assms(2) unfolding tree_at_def by blast
  have o: "(case (if openat2 then k_openat2 O_DIRECTORY True b rel fs1 else (fs1, None)) of
      (fs, Some fd) \<Rightarrow> (fs, Some fd) | (fs, None) \<Rightarrow> open_fallback O_DIRECTORY b rel fs) = (fs', Some d)"
    using assms(5,8) x b(1) unfolding assms(4) by (simp add: openFileWithinTrustedPath_def Let_def fop_bind_def)
  obtain fs2 q where q: "(if openat2 then k_openat2 O_DIRECTORY True b rel fs1 else (fs1, None)) = (fs2, q)" by fastforce
  show ?thesis
  proof (cases q)
    case (Some j)
    then have "openat2" "k_openat2 O_DIRECTORY True b rel fs1 = (fs', Some d)" using o q by (auto split: if_splits)
    then have "walk True True 40 fs1 b b (names rel) = Found d \<and> is_dir fs1 d"
      by (auto simp: k_openat2_def syscall_def Let_def dest!: finish_directory split: if_splits)
    then have "leads True True fs b 40 b (names rel) d" "is_dir fs d"
      using walk_leads only_calls_leads [OF c] only_calls_same(7) [OF c] by fastforce+
    then show ?thesis using leads_node_at [OF _ nolinks below_self assms(6,7)] by blast
  next
    case None
    then have "only_calls fs1 fs2" using q by (auto split: if_splits dest: refused_openat2)
    then have c2: "only_calls fs fs2" using c only_calls_trans by blast
    note s2 = only_calls_same(7) [OF c2]
    obtain fs3 y where y: "open_dirs (names (getDirectory rel)) b fs2 = (fs3, Some y)" "k_openat O_DIRECTORY False y (file_part rel) fs3 = (fs', Some d)"
      using o q None by (auto simp: open_fallback_part fop_bind_def split: prod.splits option.splits)
    note n = file_part_split [OF rel]
    have f: "file_part rel \<noteq> []" using y(2) by (auto simp: k_openat_def syscall_def Let_def split: if_splits)
    have ups: "no_way_up (names (getDirectory rel))" "file_part rel \<noteq> ''..''" using up n f by (auto simp: no_way_up_def)
    note dirs = open_dirs_leads [OF y(1) ups(1)]
    have l: "only_calls fs2 fs3" "leads False False fs2 0 0 b (names (getDirectory rel)) y" using dirs b(2) s2 by simp_all
    have k: "walk False False 40 fs3 0 y [file_part rel] = Found d" "is_dir fs3 d" using k_openat_found [OF y(2)] by simp_all
    have "leads False False fs 0 0 b (names (getDirectory rel)) y" "leads False False fs 0 0 y [file_part rel] d"
      using l(2) leads_name [OF k(1) ups(2)] only_calls_leads [OF c2] only_calls_leads [OF only_calls_trans [OF c2 l(1)]] by simp_all
    then have "leads False False fs 0 0 b (names rel) d" using leads_join [OF _ refl] n f by simp
    then show ?thesis
      using leads_node_at [OF _ nolinks below_self assms(6,7)] k(2) only_calls_same(7) [OF only_calls_trans [OF c2 l(1)]] by simp
  qed
qed

lemma leads_from_file: "leads beneath follow fs base n i cs x \<Longrightarrow> \<not> is_dir fs i \<Longrightarrow> x = i"
  by (erule leads.cases) auto

text \<open>A file that is taken out of a tree.\<close>

lemma removed_file:
  assumes "tree_at fs b" "node_at fs b ds = Some d" "entry fs d f = Some i" "fs_node fs i = Some (Reg a c)" "fs' = remove_entry d f fs"
  shows "contents_at fs' b = (contents_at fs b)(ds @ [f] := None)" "prunes (\<lambda>x j. True) fs fs'"
    "leads beneath follow fs base n y cs x \<Longrightarrow> is_dir fs x \<Longrightarrow> leads beneath follow fs' base n y cs x"
proof -
  show p: "prunes (\<lambda>x j. True) fs fs'" unfolding assms(5) by (rule remove_entry_prunes) simp
  have entries: "entry fs' x m = (if x = d \<and> m = f then None else entry fs x m)" for x m
    unfolding assms(5) by (auto simp: entry_removed) (auto simp: remove_entry_def set_node_def entry_def entries_of_def map_of_filter_names split: option.split inode.split)
  have files: "file_of fs' j = file_of fs j" for j
    unfolding assms(5) by (auto simp: file_of_def remove_entry_def set_node_def split: option.split inode.split)
  have noentries: "entry fs i m = None" for m using assms(4) by (simp add: entry_def entries_of_def)
  have fewer: "node_at fs' x cs = Some j \<Longrightarrow> node_at fs x cs = Some j" for x cs j
    by (induction cs arbitrary: x) (auto simp: entries split: option.splits if_splits)
  have kept: "node_at fs b cs = Some j \<Longrightarrow> cs \<noteq> ds @ [f] \<Longrightarrow> node_at fs' b cs = Some j" for cs j
  proof (induction cs arbitrary: j rule: rev_induct)
    case (snoc m cs)
    obtain x where x: "node_at fs b cs = Some x" "entry fs x m = Some j" using snoc.prems(1) by (auto simp: node_at_append split: option.splits)
    have "node_at fs b (ds @ [f]) = Some i" using assms(2,3) by (simp add: node_at_append)
    then have "cs \<noteq> ds @ [f]" using x noentries by auto
    moreover have "\<not> (x = d \<and> m = f)" using node_at_unique [OF assms(1) x(1)] assms(2) snoc.prems(2) by auto
    ultimately show ?case using snoc.IH [OF x(1)] x(2) by (simp add: node_at_append entries)
  qed simp
  have "node_at fs' b (ds @ [f]) = None"
  proof (cases "node_at fs' b ds")
    case (Some x)
    then show ?thesis using fewer [OF Some] assms(2) by (simp add: node_at_append entries)
  qed (simp add: node_at_append)
  then have gone: "contents_at fs' b (ds @ [f]) = None" by (simp add: contents_at_def)
  have "contents_at fs' b cs = contents_at fs b cs" if "cs \<noteq> ds @ [f]" for cs
  proof (cases "node_at fs b cs")
    case None
    then have "node_at fs' b cs = None" using fewer [of b cs] by (cases "node_at fs' b cs") auto
    then show ?thesis using None by (simp add: contents_at_def)
  next
    case (Some j)
    then show ?thesis using kept [OF Some that] by (simp add: contents_at_def files)
  qed
  with gone show "contents_at fs' b = (contents_at fs b)(ds @ [f] := None)" by (intro ext) simp
  show "leads beneath follow fs base n y cs x \<Longrightarrow> is_dir fs x \<Longrightarrow> leads beneath follow fs' base n y cs x"
  proof (induction rule: leads.induct)
    case (leads_down y m j n cs x)
    have "\<not> (y = d \<and> m = f)"
    proof
      assume "y = d \<and> m = f"
      then have j: "j = i" using leads_down(4) assms(3) by simp
      have "\<not> is_dir fs i" "link_of fs i = None" using assms(4) by (simp_all add: is_dir_def link_of_def)
      then show False using leads_from_file [of beneath follow fs base n i cs x] leads_down(6,8) j by simp
    qed
    then show ?case using leads_down prunes_shape(1,3) [OF p] by (intro leads.leads_down [of fs' y m j]) (auto simp: entries)
  next
    case (leads_link y m j t cs n x)
    have "fs_root fs' = fs_root fs" unfolding assms(5) by (auto simp: remove_entry_def set_node_def split: option.split inode.split)
    moreover have "\<not> (y = d \<and> m = f)" using leads_link(4,5) assms(3,4) by (auto simp: link_of_def)
    ultimately show ?case using leads_link prunes_shape(1,3) [OF p] by (intro leads.leads_link [of fs' y m j t]) (auto simp: entries)
  qed (auto intro: leads.intros simp: prunes_shape(1,2) [OF p])
qed

text \<open>The directory and the last name of a correct name.\<close>

lemma getDirectory_none: "path_sep \<notin> set s \<Longrightarrow> getDirectory s = []"
  by (simp add: getDirectory_def)

lemma correct_directory:
  assumes "correctPath (home @ path_sep # rest)" "is_absolute home"
  shows "names rest = names (getDirectory rest) @ [file_part rest]" "path_sep \<notin> set (file_part rest)" "\<not> is_absolute rest"
    "path_sep \<in> set rest \<Longrightarrow> getDirectory rest \<noteq> []"
proof -
  note n = correct_rest [OF assms]
  have "[] \<notin> set (names rest)" by (simp add: names_components)
  then have good: "[] \<notin> set (components rest)" using n(1) by simp
  show rel: "\<not> is_absolute rest" using good by (cases rest) (auto simp: is_absolute_def split: if_splits)
  then have r: "relative_of (home @ path_sep # rest) (Suc (length home)) = rest"
    by (cases rest) (auto simp: relative_of_def is_absolute_def)
  show d: "path_sep \<in> set rest \<Longrightarrow> getDirectory rest \<noteq> []"
    using getDirectory_split [of rest] rel by (metis append_Nil is_absolute_def list.distinct(1) list.sel(1))
  show "names rest = names (getDirectory rest) @ [file_part rest]"
    using file_part_split [OF rel] file_part_good(1) [OF assms] r by simp
  show "path_sep \<notin> set (file_part rest)"
    using d getDirectory_split [of rest] by (cases "path_sep \<in> set rest") (auto simp: file_part_def getDirectory_none)
qed

lemma correct_parent:
  assumes "correctPath (home @ path_sep # rest)" "is_absolute home" "path_sep \<in> set rest"
  shows "correctPath (home @ path_sep # getDirectory rest)"
proof -
  obtain h where h: "home = path_sep # h" using assms(2) by (cases home) (auto simp: is_absolute_def)
  have rel: "relative_part (home @ path_sep # x) = h @ path_sep # x" for x
    unfolding h by (simp add: relative_part_def is_prefix_append dot_def path_sep_def)
  obtain f where f: "rest = getDirectory rest @ path_sep # f" using getDirectory_split [OF assms(3)] by blast
  have "set (components (getDirectory rest)) \<subseteq> set (components rest)" "length (getDirectory rest) \<le> length rest"
    using arg_cong [OF f, of components] arg_cong [OF f, of length] by (simp_all add: components_append_sep)
  then show ?thesis using assms(1) unfolding correctPath_iff rel components_append_sep by fastforce
qed

lemma contents_calls:
  assumes "only_calls fs fs'"
  shows "contents_at fs' b = contents_at fs b" "home_at fs' home b = home_at fs home b"
proof -
  obtain k where k: "fs' = fs\<lparr>fs_calls := k\<rparr>" using assms by (auto simp: only_calls_def)
  have "node_at fs' d cs = node_at fs d cs" for d cs
    unfolding k by (induction cs arbitrary: d) (auto simp: entry_def entries_of_def split: option.split)
  moreover have "file_of fs' i = file_of fs i" for i unfolding k by (simp add: file_of_def)
  ultimately show "contents_at fs' b = contents_at fs b" by (intro ext) (simp add: contents_at_def split: option.split)
  have "walk False True 40 fs' 0 x cs = Found b \<longleftrightarrow> walk False True 40 fs 0 x cs = Found b" for x cs
    using only_calls_leads [OF assms] leads_walk walk_leads order_refl by metis
  then show "home_at fs' home b = home_at fs home b" unfolding k by (simp add: home_at_def)
qed

lemma home_opens_directory:
  assumes "home_at fs home b" "tree_at fs b" "no_faults fs" "correctPath (home @ path_sep # rest)"
    and "dir = getDirectory (home @ path_sep # rest)" "p = (if Suc (length home) \<le> length dir then Suc (length home) else 0)"
    and "openFileWithinTrustedPath openat2 dir O_DIRECTORY p True fs = (fs', q)"
  shows "q = (case node_at fs b (names (getDirectory rest)) of None \<Rightarrow> None | Some d \<Rightarrow> if is_dir fs d then Some d else None)"
proof -
  have abs: "is_absolute home" using assms(1) by (simp add: home_at_def)
  note n = correct_rest [OF assms(4) abs] and d = correct_directory [OF assms(4) abs] and c = correctPath_in_home [OF assms(4) abs]
  have b: "is_dir fs b" "\<forall>i. below fs b i \<longrightarrow> link_of fs i = None" using assms(2) unfolding tree_at_def by blast+
  have dots: "''.'' \<notin> set (names (getDirectory rest))" "''..'' \<notin> set (names (getDirectory rest))" using n(2,3) d(1) by auto
  show ?thesis
  proof (cases "path_sep \<in> set rest")
    case False
    then have dir: "dir = home" "p = 0" "getDirectory rest = []" using assms(5,6) by (simp_all add: getDirectory_home getDirectory_none)
    have "k_open O_DIRECTORY home fs = (fs\<lparr>fs_calls := Suc (fs_calls fs)\<rparr>, Some b)"
      using assms(1,3) b(1) by (auto simp: home_at_def k_open_def syscall_def Let_def no_faults_def start_dir_def finish_open_def O_DIRECTORY_def is_absolute_def)
    then show ?thesis using assms(7) dir b(1) by (auto simp: openFileWithinTrustedPath_def names_components)
  next
    case True
    then have dir: "dir = home @ path_sep # getDirectory rest" "p = Suc (length home)" using assms(5,6) by (simp_all add: getDirectory_home)
    have cp: "correctPath (home @ path_sep # getDirectory rest)" using correct_parent [OF assms(4) abs True] .
    have ne: "getDirectory rest \<noteq> []" "\<not> is_absolute (getDirectory rest)" using d(4) [OF True] correct_directory(3) [OF cp abs] .
    have rel: "relative_of dir p = getDirectory rest" using ne unfolding dir by (cases "getDirectory rest") (auto simp: relative_of_def is_absolute_def)
    note rel' = rel [unfolded dir(2)]
    note o = assms(7) [unfolded dir(2)]
    have some: "node_at fs b (names (getDirectory rest)) = Some y \<and> is_dir fs y" if "q = Some y" for y
      using opened_directory [OF assms(1,2) dir(1) rel' [symmetric] ne(1) dots o [unfolded that]] .
    have "\<exists>fs'. openFileWithinTrustedPath openat2 dir O_DIRECTORY (Suc (length home)) True fs = (fs', Some y)"
      if "node_at fs b (names (getDirectory rest)) = Some y" "is_dir fs y" for y
    proof -
      have "leads False False fs 0 0 b (names (getDirectory rest)) y" using node_at_leads [OF that(1) b(2) below_self dots] .
      moreover have "no_way_up (names (getDirectory rest))" "file_part (getDirectory rest) \<noteq> []"
        using dots file_part_good(1) [OF cp abs] rel' unfolding no_way_up_def dir(1) by simp_all
      moreover have "openat2 \<and> leads True True fs b 40 b (names (getDirectory rest)) y \<or> leads False False fs 0 0 b (names (getDirectory rest)) y"
        using calculation(1) by blast
      ultimately show ?thesis using look_in_home [OF assms(1) b(1) assms(3) dir(1) rel' [symmetric] ne(1), of O_DIRECTORY y openat2] that(2)
        by (simp add: O_DIRECTORY_def looks_def)
    qed
    then show ?thesis using o some by (cases q) (auto split: option.split)
  qed
qed

lemma home_delete_contents:
  assumes "home_at fs home b" "tree_at fs b" "no_faults fs" "correctPath (home @ path_sep # rest)"
    and "fs' = fs_deleteFile openat2 (home @ path_sep # rest) (Suc (length home)) fs"
  shows "contents_at fs' b = (contents_at fs b)(names rest := None) \<and> home_at fs' home b \<and> prunes (\<lambda>x j. True) fs fs'"
proof -
  let ?name = "home @ path_sep # rest" and ?pos = "Suc (length home)"
  let ?dir = "getDirectory ?name" and ?f = "file_part rest"
  let ?p = "if ?pos \<le> length ?dir then ?pos else 0"
  have abs: "is_absolute home" "home \<noteq> []" using assms(1) by (auto simp: home_at_def is_absolute_def)
  note d = correct_directory [OF assms(4) abs(1)]
  have b: "is_dir fs b" using assms(2) by (simp add: tree_at_def)
  obtain fs1 q where q: "openFileWithinTrustedPath openat2 ?dir O_DIRECTORY ?p True fs = (fs1, q)" by fastforce
  have calls: "only_calls fs fs1" using openFile_calls [of O_DIRECTORY fs openat2 ?dir ?p True] q by simp
  note opened = home_opens_directory [OF assms(1-4) refl refl q]
  have f: "drop (length ?dir + 1) ?name = ?f" "?dir \<noteq> []"
    using abs d(4) by (auto simp: getDirectory_home getDirectory_none file_part_def)
  have at: "at_name x y ?f = (y, ?f)" for x y
    using d(2) by (cases ?f) (auto simp: at_name_def is_absolute_def)
  have same: ?thesis if "only_calls fs fs'" "contents_at fs b (names rest) = None"
    using contents_calls [OF that(1)] that assms(1) by (auto simp: only_calls_def)
  have none: "contents_at fs b (names rest) = None" if "\<And>x i. node_at fs b (names (getDirectory rest)) = Some x \<Longrightarrow> entry fs x ?f = Some i \<Longrightarrow> file_of fs i = None"
    using that by (auto simp: contents_at_def d(1) node_at_append split: option.splits)
  show ?thesis
  proof (cases q)
    case None
    then have "fs' = fs1" using assms(4,5) q f by (simp add: fs_deleteFile_def Let_def)
    moreover have "entry fs x m = None" if "node_at fs b (names (getDirectory rest)) = Some x" for x m
      using opened None that entry_node [of fs x m] by (cases "entry fs x m") (auto split: if_splits)
    ultimately show ?thesis using same calls none by simp
  next
    case (Some y)
    then have y: "node_at fs b (names (getDirectory rest)) = Some y" using opened by (auto split: option.splits if_splits)
    obtain k where k: "fs1 = fs\<lparr>fs_calls := k\<rparr>" using calls by (auto simp: only_calls_def)
    have stat: "k_fstatat y ?f fs1 = (fs\<lparr>fs_calls := Suc k\<rparr>, case entry fs y ?f of None \<Rightarrow> None | Some i \<Rightarrow> fs_node fs i)"
      using assms(3) by (simp add: k k_fstatat_def syscall_def Let_def no_faults_def entry_def entries_of_def split: option.split)
    show ?thesis
    proof (cases "\<exists>i a c. entry fs y ?f = Some i \<and> fs_node fs i = Some (Reg a c)")
      case False
      then have "fs' = fs\<lparr>fs_calls := Suc k\<rparr>" using assms(4,5) q Some f at stat
        by (auto simp: fs_deleteFile_def Let_def split: option.split inode.split)
      moreover have "contents_at fs b (names rest) = None"
        by (rule none) (use False y in \<open>auto simp: file_of_def split: option.split inode.split\<close>)
      ultimately show ?thesis using same by (auto simp: only_calls_def)
    next
      case True
      then obtain i a c where i: "entry fs y ?f = Some i" "fs_node fs i = Some (Reg a c)" by blast
      have "entry (fs\<lparr>fs_calls := m\<rparr>) y ?f = Some i" "\<not> is_dir (fs\<lparr>fs_calls := m\<rparr>) i" for m
        using i by (simp_all add: entry_def entries_of_def is_dir_def)
      then have "fs' = remove_entry y ?f (fs\<lparr>fs_calls := Suc (Suc k)\<rparr>)"
        using assms(3-5) q Some f at stat i by (simp add: fs_deleteFile_def Let_def k_unlinkat_def syscall_def no_faults_def)
      then have c: "only_calls (remove_entry y ?f fs) fs'"
        by (simp add: only_calls_def remove_entry_def set_node_def split: option.split inode.split) (auto intro: exI [of _ "Suc (Suc k)"])
      note r = removed_file [OF assms(2) y i refl]
      have "leads False True fs 0 40 (fs_root fs) (names home) b" using assms(1) walk_leads by (simp add: home_at_def)
      then have "walk False True 40 (remove_entry y ?f fs) 0 (fs_root fs) (names home) = Found b" using leads_walk r(3) b order_refl by blast
      moreover have "fs_root (remove_entry y ?f fs) = fs_root fs"
        by (simp add: remove_entry_def set_node_def split: option.split inode.split)
      ultimately have "home_at (remove_entry y ?f fs) home b" using abs by (simp add: home_at_def)
      moreover have "prunes (\<lambda>x j. True) fs fs'" using prunes_trans [OF r(2), of fs'] c by (auto simp: only_calls_def)
      ultimately show ?thesis using contents_calls [OF c] r(1) d(1) by simp
    qed
  qed
qed

lemma prunes_tree:
  assumes "prunes R fs fs'" "tree_at fs b"
  shows "tree_at fs' b"
proof -
  have e: "entry fs' d n = Some i \<Longrightarrow> entry fs d n = Some i" for d n i using prunes_entry [OF assms(1), of d n] by auto
  show ?thesis using assms(2) prunes_shape(1,3) [OF assms(1)] prunes_below [OF assms(1)] e unfolding tree_at_def by metis
qed

lemma prunes_special: "prunes R fs fs' \<Longrightarrow> is_special fs' i = is_special fs i"
proof -
  assume "prunes R fs fs'"
  then consider "fs_node fs' i = fs_node fs i" | a p es P where "fs_node fs i = Some (Dir a p es)"
      "fs_node fs' i = Some (Dir a p (filter (\<lambda>(n, j). P n) es))" unfolding prunes_def by blast
  then show ?thesis by cases (simp_all add: is_special_def)
qed

text \<open>The home as a store.\<close>

definition home_ready :: "string \<Rightarrow> nat \<Rightarrow> fsys \<Rightarrow> bool" where
  "home_ready home b fs \<longleftrightarrow> fs_wf fs \<and> home_at fs home b \<and> tree_at fs b \<and> no_faults fs \<and> (\<forall>i. \<not> is_special fs i)"

definition home_contents :: "string \<Rightarrow> nat \<Rightarrow> fsys \<Rightarrow> string \<Rightarrow> string option" where
  "home_contents home b fs n = (if correctPath (home @ ''/'' @ n) then contents_at fs b (names n) else None)"

definition home_write :: "bool \<Rightarrow> int \<Rightarrow> string \<Rightarrow> string \<Rightarrow> string \<Rightarrow> fsys \<Rightarrow> fsys option" where
  "home_write openat2 user home n d fs = (case fs_writeFile openat2 [Wrote (length d)] (home @ ''/'' @ n) d user (length home + 1) fs of
      Some (fs', Inr u) \<Rightarrow> Some fs' | _ \<Rightarrow> None)"

definition home_read :: "bool \<Rightarrow> string \<Rightarrow> string \<Rightarrow> fsys \<Rightarrow> string result" where
  "home_read openat2 home n fs = snd (fs_readFile openat2 False (home @ ''/'' @ n) False (length home + 1) fs)"

definition home_delete :: "bool \<Rightarrow> string \<Rightarrow> string \<Rightarrow> fsys \<Rightarrow> fsys" where
  "home_delete openat2 home n fs = fs_deleteFile openat2 (home @ ''/'' @ n) (length home + 1) fs"

interpretation home_store: file_store "home_ready home b" "home_contents home b" "home_write openat2 user home" "home_read openat2 home"
    "home_delete openat2 home"
  for home b openat2 user
proof
  fix s n d s'
  assume a: "home_ready home b s" "home_write openat2 user home n d s = Some s'"
  have w: "fs_writeFile openat2 [Wrote (length d)] (home @ path_sep # n) d user (Suc (length home)) s = Some (s', Inr ())"
    using a(2) by (auto simp: home_write_def path_sep_def split: option.splits sum.splits)
  have r: "fs_wf s" "home_at s home b" "tree_at s b" "no_faults s" "\<forall>i. \<not> is_special s i" using a(1) by (simp_all add: home_ready_def)
  have u: "contents_at s' b = (contents_at s b)(names n \<mapsto> d)" "grows b s s'" using home_write_contents [OF r(1-3,5) w] by blast+
  have abs: "is_absolute home" using r(2) by (simp add: home_at_def)
  have cp: "correctPath (home @ path_sep # n)" using w by (auto simp: fs_writeFile_def split: if_splits)
  have inj: "correctPath (home @ path_sep # m) \<Longrightarrow> names m = names n \<Longrightarrow> m = n" for m
    using correct_rest(1) [OF _ abs] cp components_inj by metis
  have "home_contents home b s' = (home_contents home b s)(n \<mapsto> d)"
    unfolding home_contents_def u(1) using cp inj by (auto simp: path_sep_def)
  moreover have "\<forall>i. \<not> is_special s' i" using growsD(1) [OF u(2)] r(5) unfolding extends_def by blast
  ultimately show "home_ready home b s' \<and> home_contents home b s' = (home_contents home b s)(n \<mapsto> d)"
    using growsD(2,6) [OF u(2)] home_grows [OF r(1) u(2) r(2)] r(3) no_faults_grows [OF u(2) r(4)] by (simp add: home_ready_def)
next
  fix s n d
  assume "home_ready home b s" "home_contents home b s n = Some d"
  then show "home_read openat2 home n s = Inr d"
    using home_read_contents [of s home b n d openat2 False] by (auto simp: home_ready_def home_contents_def home_read_def path_sep_def split: if_splits)
next
  fix s n
  assume a: "home_ready home b s"
  let ?s = "home_delete openat2 home n s"
  show "home_ready home b ?s \<and> home_contents home b ?s = (home_contents home b s)(n := None)"
  proof (cases "correctPath (home @ path_sep # n)")
    case True
    have r: "fs_wf s" "home_at s home b" "tree_at s b" "no_faults s" "\<forall>i. \<not> is_special s i" using a by (simp_all add: home_ready_def)
    have abs: "is_absolute home" using r(2) by (simp add: home_at_def)
    have u: "contents_at ?s b = (contents_at s b)(names n := None)" "home_at ?s home b" and p: "prunes (\<lambda>x j. True) s ?s"
      using home_delete_contents [OF r(2-4) True refl, of openat2] by (simp_all add: home_delete_def path_sep_def)
    have inj: "correctPath (home @ path_sep # m) \<Longrightarrow> names m = names n \<Longrightarrow> m = n" for m
      using correct_rest(1) [OF _ abs] True components_inj by metis
    have "home_contents home b ?s = (home_contents home b s)(n := None)"
      unfolding home_contents_def u(1) using inj by (auto simp: path_sep_def)
    moreover have "\<not> is_special ?s i" for i using r(5) prunes_special [OF p] by simp
    ultimately show ?thesis
      using prunes_wf [OF p r(1)] u(2) prunes_tree [OF p r(3)] r(4) faults_prunes [OF p] by (simp add: home_ready_def no_faults_def)
  next
    case False
    then show ?thesis using a by (auto simp: home_delete_def fs_deleteFile_def home_contents_def path_sep_def)
  qed
qed

section \<open>Properties\<close>

text \<open>The home of the example without its link.\<close>

definition plain_files :: fsys where "plain_files = remove_entry 3 ''out'' demo_files"

lemma plain_entry: "entry plain_files d n = Some i \<Longrightarrow> entry demo_files d n = Some i \<and> n \<noteq> ''out''"
  using demo_entry [of d n i] remove_entry_prunes [of demo_files 3 "''out''" "\<lambda>d j. True", THEN prunes_entry, of d n]
  by (auto simp: plain_files_def entry_removed)

lemma plain_ready: "home_ready ''/home/p'' 3 plain_files"
proof -
  have p: "prunes (\<lambda>d j. True) demo_files plain_files" unfolding plain_files_def by (rule remove_entry_prunes) simp
  have e: "d = 3 \<and> n = ''a.c'' \<and> i = 4" if "entry plain_files d n = Some i" "d \<in> {3, 4, 6}" for d n i
    using demo_entry_below [of d n i] plain_entry [OF that(1)] that(2) by blast
  have below: "i = 3 \<or> i = 4" if "below plain_files 3 i" for i
    using that
  proof (induction rule: below.induct)
    case (below_entry d n i)
    then show ?case using e [of d n i] by auto
  qed simp
  have "link_of plain_files 3 = None" "link_of plain_files 4 = None" "is_dir plain_files 3"
    unfolding prunes_shape(1,3) [OF p] by (simp_all add: link_of_def is_dir_def demo_files_def demo_nodes_def)
  moreover have only: "d = 3 \<and> n = ''a.c'' \<and> i = 4" if "below plain_files 3 d" "entry plain_files d n = Some i" for d n i
    using e [OF that(2)] below [OF that(1)] by blast
  moreover have "entry plain_files d n \<noteq> Some 3" if "below plain_files 3 d" for d n using only [OF that, of n 3] by auto
  moreover have "link_of plain_files i = None" if "below plain_files 3 i" for i using below [OF that] calculation(1,2) by blast
  ultimately have "tree_at plain_files 3" unfolding tree_at_def by blast
  moreover have "home_at plain_files ''/home/p'' 3"
    by (simp add: home_at_def is_absolute_def path_sep_def names_components walk.simps entry_def entries_of_def link_of_def is_dir_def
        plain_files_def remove_entry_def set_node_def demo_files_def demo_nodes_def)
  moreover have "no_faults plain_files" using faults_prunes [OF p] by (simp add: no_faults_def demo_files_def)
  moreover have "\<not> is_special plain_files i" for i
    by (simp add: is_special_def plain_files_def remove_entry_def set_node_def demo_files_def demo_nodes_def)
  ultimately show ?thesis using prunes_wf [OF p demo_wf] by (simp add: home_ready_def)
qed

text \<open>
  C12: in a home without links files saved one after another, with or without \<open>openat2\<close> and whatever directories are made for them, are
  what the home holds besides what it held, the last of each name; each is read back; and files deleted afterwards, of any names, are
  what it then no longer holds, every other file kept: the home is the store of names and texts that the process monitor works with.
\<close>

theorem home_holds_saved_files:
  assumes "home_ready home b fs" "save_all (home_write openat2 user home) files fs = Some fs'"
  shows "home_contents home b fs' = home_contents home b fs ++ map_of (rev files) \<and> home_ready home b fs' \<and>
    (\<forall>n d. map_of (rev files) n = Some d \<longrightarrow> home_read openat2 home n fs' = Inr d) \<and>
    (\<forall>ns. home_contents home b (fold (home_delete openat2 home) ns fs') = (home_contents home b fs ++ map_of (rev files)) |` (- set ns))"
  using home_store.save_all_contents [OF assms] home_store.saved_is_fetched [OF assms] home_store.removed_after_saving(2) [OF assms] by blast

theorem home_holds_saved_files_witness:
  "\<exists>fs'. save_all (home_write True 10001 ''/home/p'') [(''b.c'', ''hi''), (''lib/c.h'', ''x'')] plain_files = Some fs' \<and>
     home_read True ''/home/p'' ''b.c'' fs' = Inr ''hi'' \<and> home_read True ''/home/p'' ''lib/c.h'' fs' = Inr ''x'' \<and>
     home_contents ''/home/p'' 3 (home_delete True ''/home/p'' ''b.c'' fs') ''b.c'' = None \<and>
     home_contents ''/home/p'' 3 (home_delete True ''/home/p'' ''b.c'' fs') ''lib/c.h'' = Some ''x''"
proof -
  have "save_all (home_write True 10001 ''/home/p'') [(''b.c'', ''hi''), (''lib/c.h'', ''x'')] plain_files \<noteq> None"
    by code_simp
  then obtain fs' where s: "save_all (home_write True 10001 ''/home/p'') [(''b.c'', ''hi''), (''lib/c.h'', ''x'')] plain_files = Some fs'"
    by blast
  note h = home_holds_saved_files [OF plain_ready s]
  have "home_contents ''/home/p'' 3 (fold (home_delete True ''/home/p'') [''b.c''] fs') =
      (home_contents ''/home/p'' 3 plain_files ++ map_of (rev [(''b.c'', ''hi''), (''lib/c.h'', ''x'')])) |` (- set [''b.c''])"
    using h by blast
  then show ?thesis using h s by (simp add: restrict_map_def)
qed

end
