(* ===== verification/Spec2Isabelle.thy ===== *)
theory Spec2Isabelle
  imports Base64 Utf8 Socket Web_Socket Config_File Paths Configuration Process_Monitor Task_Examples Xml_Rpc Http_Server
    Jail_Examples Request_Examples Control_Examples Main_Program File_Store
begin

text \<open>
  The jail server of VPL (vpl-jail-system) runs the programs that students submit to a learning platform.

  \<^bold>\<open>The program.\<close> A daemon accepts connections and forks a process for each. That process reads an HTTP request
  (socket.cpp, httpServer.cpp), whose body is a call in JSON (json.h, jsonrpc.h) or XML (xml.h, xmlrpc.h), or
  becomes the end of a websocket (websocket.cpp). The call acts on a task through a process monitor
  (processMonitor.cpp): the task has a prisoner, an ordinary user id of its own, a control directory with its state and
  results, a home with its files, and four tickets that name it. A task is compiled and run by forked processes
  that enter the jail (jail.cpp): control group, namespaces, new root, credentials, limits, \<open>execve\<close>. The processes of a
  task share nothing but the files of the control directory, written under a lock.

  \<^bold>\<open>The model.\<close> Strings are lists of bytes. What is thrown is a value (\<open>exn\<close> in Prelude), an operation that cannot
  change a state returns a \<open>result\<close>, one that can is a function from the state to the state it leaves and a result (Effects):
  an exception keeps what was done before it, as in the code. What the program does not decide is part of the state it runs in,
  and no hypothesis restricts it unless a theorem names it: the answers of the network, which system calls fail, the clock,
  the random numbers, the processes that live, the files the kernel shows. Integers that can wrap are cut
  to their width where the code converts them (\<open>to_int32\<close>, \<open>to_int64\<close>, \<open>to_rlim\<close>).

  \<^item> Prelude, Effects: exceptions, results, bytes, lists, the rules for what operations keep and establish.
  \<^item> Vplregex (vplregex.h): POSIX leftmost-longest matching, with the relation that says what a match is.
  \<^item> Base64, Util_Strings, Utf8, Paths (util.h, websocket.cpp): the codec, lines and numbers, the three UTF-8 filters,
    and the path check that every file access goes through.
  \<^item> Socket, Web_Socket (socket.cpp, websocket.cpp): headers, the loops of receive and send over the answers of the network,
    the retries of TLS, the handshake, the frames, fragments and the closing of a websocket.
  \<^item> Config_File, Configuration (configurationFile.cpp, configuration.cpp): parameter files, their atomic replacement,
    defaults and checks of the server's configuration.
  \<^item> Process_Monitor, with Task_Properties, Task_Lifecycle and Task_Examples (processMonitor.cpp): the \<open>task\<close> record
    holds the object's members (\<open>m_...\<close>) and the system as the process sees it (\<open>w_...\<close>).
  \<^item> Request_Message, Json, Json_Rpc, Xml, Xml_Rpc, Http_Server (requestmessage.h, json.h, jsonrpc.h, xml.h, xmlrpc.h,
    httpServer.cpp): parsers, printers, requests and responses.
  \<^item> Cgroup, Jail_Exec, with Jail_Examples (cgroup.cpp, the second half of jail.cpp): the control groups in both layouts, and all that is
    done between the fork and \<open>execve\<close>.
  \<^item> Rpc, Jail_Commands, Jail_Process, with Request_Examples (rpc.h, jail.cpp): a request in either format, the seven commands a request
    is dispatched to, and the process of a connection from its headers to its exit status.
  \<^item> Redirector (redirector.cpp): the four state machines between a program or local server and its client, a step for each turn of the
    loop of \<open>advance\<close>, over what \<open>poll\<close>, \<open>read\<close>, \<open>write\<close> and \<open>connect\<close> answer.
  \<^item> Jail_Control, with Task_Kept and Control_Examples (jail.cpp): \<open>run\<close>, \<open>runTerminal\<close>, \<open>runVNC\<close>, \<open>runPassthrough\<close>, the monitor and the execution, a tick
    of the clock after another; what the program, the client and the clock do is in the list of ticks. Task_Kept has that the object of a
    process stays with the task its ticket opened.
  \<^item> Tls, Daemon, Logs_Locks, Writable_Dirs, Main_Program (socket.h, vpl-jail-server.h, log.h, lock.h, configuration.cpp, main.cpp): the
    context of TLS and its renewal, the daemon with its children and counters in rounds of its loop, the log of requests, the locks,
    the search of the jail for writable directories, and \<open>main\<close> from its arguments to its status.
  \<^item> Files, Home_Files, Tree_Removal, File_Store (the second half of util.h): the file operations over a graph of inodes with links, in
    which any call may fail. The process monitor works with files as names and texts; File_Store proves that this is what the calls keep.

  \<^bold>\<open>What is proved.\<close> Tickets open a task once, and a prisoner is given to one task at a time; the state on disk is the state
  every process of the task reads; results are delivered once and bounded; what is left of an expired task is nothing. A
  program is only ever executed confined, whichever system calls fail, and is signalled exactly when it is past a limit or nobody
  watches it, its group once to end and then to be killed; a monitor that ends leaves its own task cleaned. A request writes in the home of its task and nowhere else, and a connection reaches a task by the ways that are meant
  only; below that, a write, a deletion and the removal of a tree stay inside the directory they are given, whatever links a
  prisoner has made. The redirectors pass on what they were given, in order, and return. The daemon knows its children, turns away
  exactly the addresses it is to, and starts only on files that nobody else can write. Frames are read back; the path
  check and the UTF-8 check are equivalent to their descriptions. Some theorems state what goes wrong: a layout of control groups that
  refuses every execution, a refusal the daemon never counts, a stalled peer that is never timed out; others, beside the main ones in
  their theories, a message lost after a ping between its fragments, data sent after a close frame, a line feed that makes a second parameter, a certificate that
  ends the server.

  \<^bold>\<open>Bounds and fuel.\<close> Searches and parsers over positions recurse on what is left of the text, or have the length of the text as
  fuel, enough since each step passes a byte at least: \<open>json_fuel_enough\<close> proves it for the recursive parser. The loops of the
  socket recurse on the list of answers of the network, the retries of the monitor on their counters. The loops that end when the
  world says so (the redirectors, the sessions, the daemon) recurse on the list of what it answers: \<open>None\<close> says that the list is used
  up and the loop not at its end, and \<open>redirectors_return\<close> says when that is so. The removal of a tree has the depth of the recursion as
  fuel, enough when it is above the rank of the directory (\<open>tree_removal_leaves_nothing\<close>). A search of the kernel follows forty links.

  \<^bold>\<open>Interfaces.\<close> \<open>text_codec\<close> (Base64), \<open>text_filter\<close> (the UTF-8 filters), \<open>parameter_store\<close> (the parameter files),
  \<open>closable_channel\<close> (sockets and websockets), \<open>rpc_request\<close> (the requests of both formats, and either), \<open>state_machine\<close> (the four
  redirectors) and \<open>file_store\<close> (the files of the process monitor, and those of a home over the calls of the kernel) state the contracts
  that several components share, each interpreted on the definitions of the component that provides it.

  \<^bold>\<open>Not modelled.\<close> What only makes a text for the log (\<open>eventsToString\<close>, \<open>processStateName\<close>, \<open>getProcessName\<close>, \<open>ExecutionLimits::log\<close>, the
  warning of unknown variables of the environment); \<open>setupNamespaceUser\<close>, \<open>freeWatchDog\<close> and \<open>decodeJSONNumber\<close>, which the program
  does not call; \<open>fdblock\<close>, as descriptors have no modes here; accessors, constructors without work and destructors. OpenSSL and SHA1 and
  the printing of doubles are parameters; of the kernel, the documented behaviour of the calls that are made is modelled, with every
  failure left open. A lock that is held is the atomicity of the operations made under it; the file operations of util.h are not
  interleaved with those of the prisoner, so a link made between two calls is not covered.
\<close>

end
